(* ===== verification/Prelude.thy ===== *)
theory Prelude
  imports
    Complex_Main
    "HOL-Library.Char_ord"
    "HOL-Library.List_Lexorder"
    "HOL-Library.Multiset"
begin

text \<open>
  Shared vocabulary of the development: the error values of the Go services, results of
  fallible calls, the byte-string helpers of package \<^verbatim>\<open>strings\<close> that the services use,
  64-bit integer wrap-around, association lists for Go maps that are iterated, and a
  comparator-driven sort for \<^verbatim>\<open>sort.Slice\<close>.
\<close>

named_theorems result_simps "unfolding of results and errors"
named_theorems store_simps "lookup and update of association lists"

section \<open>Errors and results\<close>

text \<open>
  The package-level sentinel errors (\<^verbatim>\<open>var ErrX = errors.New(...)\<close>), one constructor
  for each package and name.
\<close>

datatype sentinel =
    FixedErrOutOfRange
  | WalletErrNotFound | WalletErrAlreadyExists | WalletErrInvalidMerchant
  | WalletErrInsufficientBalance | WalletErrInsufficientLocked
  | MarketErrNotFound | MarketErrInvalidReference | MarketErrInvalidTransition
  | EventErrNotFound | EventErrAlreadyExists | EventErrInvalidTransition
  | OrderErrNotFound | OrderErrAlreadyExists | OrderErrInvalidMarket | OrderErrNotCancellable
  | SettlementErrEventNotFound | SettlementErrEventUnresolved
  | SettlementErrOutcomeNotOption | SettlementErrOrderWalletNotFound
  | WorkerErrInvalidMessage
  | MerchantErrNotFound | MerchantErrUnauthorized
  | CurrencyErrRateNotFound | CurrencyErrProviderUnavailable
  | SportsErrNotFound | AnalyticsErrNotFound

text \<open>
  Error values: a \<^verbatim>\<open>ValidationError\<close>, a sentinel, an anonymous \<^verbatim>\<open>errors.New\<close>, a
  \<^verbatim>\<open>fmt.Errorf\<close> that wraps with the verb w, \<^verbatim>\<open>errors.Join\<close>, a cancelled context and an
  error of the driver or of a service outside the repository. \<open>Panic\<close> is not an error
  value of Go: it marks a call that does not return because the goroutine panics, and no
  model of an error branch handles it.
\<close>

datatype go_error =
    Validation string string
  | Sentinel sentinel
  | Plain string
  | Wrapped string go_error
  | Joined "go_error list"
  | CtxErr
  | External string
  | Panic string

type_synonym 'a res = "go_error + 'a"

text \<open>\<^verbatim>\<open>errors.Is\<close> against a sentinel: it looks through wrapping and joining.\<close>

fun errorsIs :: "go_error \<Rightarrow> sentinel \<Rightarrow> bool" where
  "errorsIs (Sentinel s) t = (s = t)"
| "errorsIs (Wrapped m e) t = errorsIs e t"
| "errorsIs (Joined es) t = list_ex (\<lambda>e. errorsIs e t) es"
| "errorsIs _ t = False"

fun is_panic :: "go_error \<Rightarrow> bool" where
  "is_panic (Panic m) = True"
| "is_panic _ = False"

definition ok :: "'a res \<Rightarrow> bool" where
  "ok r \<longleftrightarrow> (case r of Inl _ \<Rightarrow> False | Inr _ \<Rightarrow> True)"

text \<open>Sequencing of fallible calls: the first error (or panic) is the result.\<close>

definition bind_res :: "'a res \<Rightarrow> ('a \<Rightarrow> 'b res) \<Rightarrow> 'b res" where
  "bind_res r k = (case r of Inl e \<Rightarrow> Inl e | Inr x \<Rightarrow> k x)"

text \<open>\<^verbatim>\<open>if err != nil { return fmt.Errorf(m, err) }\<close>; a panic passes through unchanged.\<close>

fun wrap_error :: "string \<Rightarrow> go_error \<Rightarrow> go_error" where
  "wrap_error m e = (if is_panic e then e else Wrapped m e)"

lemma ok_simps [simp, result_simps]: "ok (Inr x)" "\<not> ok (Inl e)"
  by (simp_all add: ok_def)

lemma bind_res_simps [simp, result_simps]:
  "bind_res (Inr x) k = k x" "bind_res (Inl e) k = Inl e"
  by (simp_all add: bind_res_def)

lemma bind_res_Inr_iff [result_simps]:
  "bind_res r k = Inr y \<longleftrightarrow> (\<exists>x. r = Inr x \<and> k x = Inr y)"
  by (cases r) simp_all

lemma ok_iff: "ok r \<longleftrightarrow> (\<exists>x. r = Inr x)"
  by (cases r) simp_all

text \<open>A service reports a repository result without touching the store again.\<close>

lemma snd_plain_result:
  "snd (case p of (Inl err, r') \<Rightarrow> (Inl (e err), r') | (Inr y, r') \<Rightarrow> (Inr (g y), r')) = snd p"
  by (auto split: sum.splits prod.splits)

section \<open>64-bit integers\<close>

text \<open>Go's \<^verbatim>\<open>int64\<close> is an \<open>int\<close> whose sums, differences and negations go through \<open>i64\<close>.\<close>

definition i64 :: "int \<Rightarrow> int" where
  "i64 x = (x + 2 ^ 63) mod 2 ^ 64 - 2 ^ 63"

definition is_i64 :: "int \<Rightarrow> bool" where
  "is_i64 x \<longleftrightarrow> - (2 ^ 63) \<le> x \<and> x < 2 ^ 63"

lemma i64_id [simp]: "is_i64 x \<Longrightarrow> i64 x = x"
  by (simp add: i64_def is_i64_def)

lemma is_i64_i64: "is_i64 (i64 x)"
  using pos_mod_bound [of "2 ^ 64" "x + 2 ^ 63"] pos_mod_sign [of "2 ^ 64" "x + 2 ^ 63"]
  by (simp add: i64_def is_i64_def)

lemma i64_small: "\<bar>x\<bar> \<le> 9000000000000000000 \<Longrightarrow> i64 x = x"
  by (rule i64_id) (auto simp: is_i64_def)

section \<open>Strings\<close>

text \<open>
  Go strings are byte strings; \<open>char\<close> is a byte. \<^verbatim>\<open>TrimSpace\<close>, \<^verbatim>\<open>ToLower\<close> and
  \<^verbatim>\<open>ToUpper\<close> are modelled on ASCII bytes: bytes above 127 are left alone.
\<close>

definition is_space :: "char \<Rightarrow> bool" where
  "is_space c \<longleftrightarrow> of_char c \<in> {9, 10, 11, 12, 13, 32 :: nat}"

definition trimSpace :: "string \<Rightarrow> string" where
  "trimSpace s = rev (dropWhile is_space (rev (dropWhile is_space s)))"

definition lower_char :: "char \<Rightarrow> char" where
  "lower_char c = (let n = of_char c :: nat in if 65 \<le> n \<and> n \<le> 90 then char_of (n + 32) else c)"

definition upper_char :: "char \<Rightarrow> char" where
  "upper_char c = (let n = of_char c :: nat in if 97 \<le> n \<and> n \<le> 122 then char_of (n - 32) else c)"

definition toLower :: "string \<Rightarrow> string" where "toLower = map lower_char"
definition toUpper :: "string \<Rightarrow> string" where "toUpper = map upper_char"

lemma length_toLower [simp]: "length (toLower s) = length s"
  by (simp add: toLower_def)

lemma length_toUpper [simp]: "length (toUpper s) = length s"
  by (simp add: toUpper_def)

lemma length_trimSpace: "length (trimSpace s) \<le> length s"
  unfolding trimSpace_def
  by (metis length_dropWhile_le length_rev order_trans)

lemma dropWhile_rev_dropWhile:
  "dropWhile P (rev (dropWhile P (rev (dropWhile P s)))) = rev (dropWhile P (rev (dropWhile P s)))"
proof (cases "dropWhile P (rev (dropWhile P s))")
  case Nil
  then show ?thesis by (simp only: Nil rev.simps dropWhile.simps)
next
  case (Cons a as)
  let ?u = "dropWhile P s"
  obtain ws where ws: "rev ?u = ws @ dropWhile P (rev ?u)"
    by (metis takeWhile_dropWhile_id)
  then have u: "?u = rev (dropWhile P (rev ?u)) @ rev ws"
    by (metis rev_append rev_rev_ident)
  from Cons have ne: "rev (dropWhile P (rev ?u)) \<noteq> []" by simp
  then have "hd ?u = hd (rev (dropWhile P (rev ?u)))"
    using u by (metis hd_append2)
  moreover have "?u \<noteq> []" using u ne by (metis append_is_Nil_conv)
  then have "\<not> P (hd ?u)" by (rule hd_dropWhile)
  ultimately show ?thesis using ne
    by (metis dropWhile.simps(2) list.collapse)
qed

lemma trimSpace_idem [simp]: "trimSpace (trimSpace s) = trimSpace s"
proof -
  let ?t = "rev (dropWhile is_space (rev (dropWhile is_space s)))"
  have "dropWhile is_space ?t = ?t" by (rule dropWhile_rev_dropWhile)
  then show ?thesis by (simp add: trimSpace_def)
qed

lemma trimSpace_solid:
  assumes "\<forall>c \<in> set s. \<not> is_space c"
  shows "trimSpace s = s"
proof -
  have d: "dropWhile is_space t = t" if "\<forall>c \<in> set t. \<not> is_space c" for t
    using that by (cases t) simp_all
  show ?thesis using assms by (simp add: trimSpace_def d)
qed

section \<open>Go maps that are iterated: association lists\<close>

text \<open>
  A Go map whose entries are enumerated (\<^verbatim>\<open>for _, value := range m\<close>) is an association
  list with distinct keys: the list order is one possible iteration order, and the
  theorems on the operations show where it does not matter.
\<close>

fun put :: "'k \<Rightarrow> 'v \<Rightarrow> ('k \<times> 'v) list \<Rightarrow> ('k \<times> 'v) list" where
  "put k v [] = [(k, v)]"
| "put k v ((k', v') # m) = (if k' = k then (k, v) # m else (k', v') # put k v m)"

definition keys :: "('k \<times> 'v) list \<Rightarrow> 'k set" where
  "keys m = fst ` set m"

definition distinct_keys :: "('k \<times> 'v) list \<Rightarrow> bool" where
  "distinct_keys m \<longleftrightarrow> distinct (map fst m)"

lemma keys_simps [simp]: "keys [] = {}" "keys ((k, v) # m) = insert k (keys m)"
  by (simp_all add: keys_def)

lemma map_of_put [simp, store_simps]: "map_of (put k v m) = (map_of m)(k \<mapsto> v)"
  by (induction m rule: put.induct) (auto simp: fun_eq_iff)

lemma keys_put [simp, store_simps]: "keys (put k v m) = insert k (keys m)"
  by (induction k v m rule: put.induct) auto

lemma distinct_keys_put [simp, intro]: "distinct_keys m \<Longrightarrow> distinct_keys (put k v m)"
proof (induction k v m rule: put.induct)
  case (2 k v k' v' m)
  have "fst ` set (put k v m) = insert k (fst ` set m)"
    using keys_put [of k v m] by (simp add: keys_def)
  with 2 show ?case by (auto simp: distinct_keys_def)
qed (simp add: distinct_keys_def)

lemma map_of_None_keys: "map_of m k = None \<longleftrightarrow> k \<notin> keys m"
  by (simp add: keys_def map_of_eq_None_iff)

lemma in_set_map_of: "distinct_keys m \<Longrightarrow> (k, v) \<in> set m \<longleftrightarrow> map_of m k = Some v"
  by (simp add: distinct_keys_def)

lemma put_fresh: "k \<notin> keys m \<Longrightarrow> put k v m = m @ [(k, v)]"
  by (induction k v m rule: put.induct) auto

lemma sum_list_put:
  fixes f :: "'v \<Rightarrow> 'a::ab_group_add"
  assumes "distinct_keys m" "map_of m k = Some old"
  shows "(\<Sum>(k, v) \<leftarrow> put k new m. f v) = (\<Sum>(k, v) \<leftarrow> m. f v) - f old + f new"
  using assms
  by (induction k new m rule: put.induct) (auto simp: distinct_keys_def split: if_splits)

section \<open>Sorting by a comparator\<close>

text \<open>
  \<^verbatim>\<open>sort.Slice(values, lt)\<close> leaves a permutation of the slice in which no element is
  \<open>lt\<close> than one before it. The model is an insertion sort by the same comparator;
  \<open>sorted_perm_unique\<close> below shows that for a strict total order there is only one such
  permutation, so the algorithm does not matter.
\<close>

fun insert_by :: "('a \<Rightarrow> 'a \<Rightarrow> bool) \<Rightarrow> 'a \<Rightarrow> 'a list \<Rightarrow> 'a list" where
  "insert_by lt x [] = [x]"
| "insert_by lt x (y # ys) = (if lt y x then y # insert_by lt x ys else x # y # ys)"

fun sort_by :: "('a \<Rightarrow> 'a \<Rightarrow> bool) \<Rightarrow> 'a list \<Rightarrow> 'a list" where
  "sort_by lt [] = []"
| "sort_by lt (x # xs) = insert_by lt x (sort_by lt xs)"

lemma mset_insert_by [simp]: "mset (insert_by lt x xs) = add_mset x (mset xs)"
  by (induction xs) auto

lemma mset_sort_by [simp]: "mset (sort_by lt xs) = mset xs"
  by (induction xs) auto

lemma set_sort_by [simp]: "set (sort_by lt xs) = set xs"
  using mset_sort_by [of lt xs] by (metis set_mset_mset)

lemma length_sort_by [simp]: "length (sort_by lt xs) = length xs"
  using mset_sort_by [of lt xs] by (metis size_mset)

lemma distinct_sort_by [simp]: "distinct (sort_by lt xs) = distinct xs"
  using mset_sort_by [of lt xs] by (metis mset_eq_imp_distinct_iff)

lemma set_insert_by [simp]: "set (insert_by lt x xs) = insert x (set xs)"
  by (induction xs) auto

lemma sort_by_map_on:
  "\<forall>a \<in> set xs. \<forall>b \<in> set xs. lt' (f a) (f b) = lt a b \<Longrightarrow> sort_by lt' (map f xs) = map f (sort_by lt xs)"
proof (induction xs)
  case (Cons x xs)
  have "insert_by lt' (f x) (map f ys) = map f (insert_by lt x ys)" if "set ys \<subseteq> set xs" for ys
    using that Cons.prems by (induction ys) auto
  then show ?case using Cons by simp
qed simp

lemma sort_by_map:
  "(\<And>a b. lt' (f a) (f b) = lt a b) \<Longrightarrow> sort_by lt' (map f xs) = map f (sort_by lt xs)"
  by (rule sort_by_map_on) simp

text \<open>
  The contract of a comparator: on the elements that \<open>carrier\<close> admits it is a strict
  order, and two different elements are always comparable.
\<close>

locale comparator =
  fixes lt :: "'a \<Rightarrow> 'a \<Rightarrow> bool" and carrier :: "'a \<Rightarrow> bool"
  assumes lt_irrefl: "carrier x \<Longrightarrow> \<not> lt x x"
    and lt_trans: "carrier x \<Longrightarrow> carrier y \<Longrightarrow> carrier z \<Longrightarrow> lt x y \<Longrightarrow> lt y z \<Longrightarrow> lt x z"
begin

lemma lt_asym: "carrier x \<Longrightarrow> carrier y \<Longrightarrow> lt x y \<Longrightarrow> \<not> lt y x"
  using lt_irrefl lt_trans by blast

end

locale total_comparator = comparator +
  fixes key :: "'a \<Rightarrow> 'k"
  assumes lt_total: "carrier x \<Longrightarrow> carrier y \<Longrightarrow> key x \<noteq> key y \<Longrightarrow> lt x y \<or> lt y x"
begin

lemma sorted_sort_by:
  assumes "\<forall>x \<in> set xs. carrier x" "distinct (map key xs)"
  shows "sorted_wrt lt (sort_by lt xs)"
proof -
  have *: "sorted_wrt lt (insert_by lt x ys)"
    if "sorted_wrt lt ys" "carrier x" "\<forall>y \<in> set ys. carrier y" "key x \<notin> key ` set ys" for x ys
    using that
  proof (induction ys)
    case Nil
    then show ?case by simp
  next
    case (Cons y ys)
    show ?case
    proof (cases "lt y x")
      case True
      with Cons show ?thesis by auto
    next
      case False
      have xy: "lt x y" using False lt_total [of x y] Cons.prems by auto
      have "lt x z" if "z \<in> set ys" for z
        using xy lt_trans [of x y z] Cons.prems that by auto
      with xy False Cons.prems show ?thesis by auto
    qed
  qed
  show ?thesis using assms
    by (induction xs) (auto intro!: *)
qed

lemma sorted_perm_unique:
  assumes "sorted_wrt lt xs" "sorted_wrt lt ys" "mset xs = mset ys" "\<forall>x \<in> set xs. carrier x"
  shows "xs = ys"
  using assms
proof (induction xs arbitrary: ys)
  case Nil
  then show ?case by simp
next
  case (Cons x xs)
  from Cons.prems(3) obtain y zs where ys: "ys = y # zs" by (cases ys) auto
  have sets: "set (x # xs) = set ys" using Cons.prems(3) by (metis set_mset_mset)
  have "x = y"
  proof (rule ccontr)
    assume ne: "x \<noteq> y"
    with sets ys have "x \<in> set zs" "y \<in> set xs" by auto
    have "lt y x" "lt x y" using \<open>x \<in> set zs\<close> \<open>y \<in> set xs\<close> Cons.prems(1,2) ys by auto
    then show False using lt_asym [of x y] Cons.prems(4) \<open>y \<in> set xs\<close> by auto
  qed
  with Cons.prems ys have "xs = zs" by (intro Cons.IH) auto
  with \<open>x = y\<close> ys show ?case by simp
qed

text \<open>Whatever order a map is iterated in, the sorted slice is the same.\<close>

lemma sort_by_perm:
  assumes "mset xs = mset ys" "\<forall>x \<in> set xs. carrier x" "distinct (map key xs)"
  shows "sort_by lt xs = sort_by lt ys"
proof (rule sorted_perm_unique)
  have sets: "set ys = set xs" using assms(1) by (metis set_mset_mset)
  have "mset (map key ys) = mset (map key xs)" using assms(1) by simp
  then have d: "distinct (map key ys)" using assms(3) by (metis mset_eq_imp_distinct_iff)
  show "sorted_wrt lt (sort_by lt xs)" by (rule sorted_sort_by [OF assms(2,3)])
  show "sorted_wrt lt (sort_by lt ys)"
    by (rule sorted_sort_by) (use assms(2) d sets in auto)
qed (use assms in auto)

lemma sort_by_filter:
  assumes "\<forall>x \<in> set xs. carrier x" "distinct (map key xs)"
  shows "sort_by lt (filter P xs) = filter P (sort_by lt xs)"
proof (rule sorted_perm_unique)
  have "distinct (map key (filter P xs))" using assms(2) by (induction xs) auto
  then show "sorted_wrt lt (sort_by lt (filter P xs))"
    using assms(1) by (intro sorted_sort_by) simp_all
  show "sorted_wrt lt (filter P (sort_by lt xs))"
    by (rule sorted_wrt_filter [OF sorted_sort_by [OF assms]])
qed (use assms(1) in auto)

end

section \<open>Text that JSON keeps\<close>

text \<open>
  \<^verbatim>\<open>encoding/json\<close> writes a string as UTF-8 and replaces what is not valid UTF-8, so only valid text
  reads back as it was; a \<^verbatim>\<open>JSONB\<close> column moreover refuses the zero byte.
\<close>

definition continues :: "nat \<Rightarrow> bool" where "continues b \<longleftrightarrow> 128 \<le> b \<and> b < 192"

fun utf8 :: "nat list \<Rightarrow> bool" where
  "utf8 [] = True"
| "utf8 (a # s) =
     (if a < 128 then utf8 s
      else if 194 \<le> a \<and> a < 224 then (case s of b # t \<Rightarrow> continues b \<and> utf8 t | _ \<Rightarrow> False)
      else if 224 \<le> a \<and> a < 240 then
        (case s of b # c # t \<Rightarrow> continues b \<and> continues c \<and> (a = 224 \<longrightarrow> 160 \<le> b) \<and> (a = 237 \<longrightarrow> b < 160) \<and> utf8 t
         | _ \<Rightarrow> False)
      else if 240 \<le> a \<and> a < 245 then
        (case s of b # c # d # t \<Rightarrow> continues b \<and> continues c \<and> continues d \<and> (a = 240 \<longrightarrow> 144 \<le> b)
           \<and> (a = 244 \<longrightarrow> b < 144) \<and> utf8 t
         | _ \<Rightarrow> False)
      else False)"

definition json_text :: "string \<Rightarrow> bool" where
  "json_text s \<longleftrightarrow> utf8 (map of_char s) \<and> CHR 0x00 \<notin> set s"

definition printable :: "char \<Rightarrow> bool" where
  "printable c \<longleftrightarrow> (let n = of_char c :: nat in 32 \<le> n \<and> n < 127)"

lemma json_text_printable: "list_all printable s \<Longrightarrow> json_text s"
proof -
  have "utf8 (map of_char s)" if "list_all printable s" using that by (induction s) (simp_all add: printable_def Let_def)
  moreover have "\<not> printable (CHR 0x00)" by (simp add: printable_def)
  ultimately show "list_all printable s \<Longrightarrow> json_text s" by (auto simp: json_text_def list_all_iff)
qed

end
