(* ===== verification/Float64.thy ===== *)
theory Float64
  imports Prelude "HOL-Library.Log_Nat"
begin

text \<open>
  Go's \<^verbatim>\<open>float64\<close>: IEEE 754 binary64 with round to nearest, ties to even, as the amd64
  compiler evaluates it (every operation is rounded; no fused multiply-add). A finite
  value is the rational it denotes, so the two zeros are one value; the services never
  divide by a float that can be zero and never print a float's sign bit.
  The theory defines the operations and functions of package \<^verbatim>\<open>math\<close> that the services
  use, and proves the rounding bounds the fixed-point layer needs.
\<close>

section \<open>Values and rounding\<close>

datatype float64 = NaN | Inf bool | Fin rat

definition pow2 :: "int \<Rightarrow> rat" where
  "pow2 k = (if 0 \<le> k then of_int (2 ^ nat k) else 1 / of_int (2 ^ nat (- k)))"

text \<open>\<open>ilog2 r\<close> is the binary exponent of a positive \<open>r\<close>: \<open>2 ^ ilog2 r \<le> r < 2 ^ (ilog2 r + 1)\<close>.\<close>

definition ilog2 :: "rat \<Rightarrow> int" where
  "ilog2 r = (case quotient_of r of (n, d) \<Rightarrow>
     (let k = bitlen n - bitlen d in if pow2 k \<le> r then k else k - 1))"

definition round_even :: "rat \<Rightarrow> int" where
  "round_even x = (let f = \<lfloor>x\<rfloor>; d = x - of_int f in
     if d < 1 / 2 then f else if 1 / 2 < d then f + 1 else if even f then f else f + 1)"

text \<open>
  The spacing of the floats around \<open>r\<close> is \<open>2 ^ (ilog2 r - 52)\<close>, and never below the
  subnormal spacing \<open>2 ^ -1074\<close>.
\<close>

definition ulp_exp :: "rat \<Rightarrow> int" where
  "ulp_exp r = max (ilog2 r - 52) (- 1074)"

definition round_pos :: "rat \<Rightarrow> rat" where
  "round_pos r = of_int (round_even (r / pow2 (ulp_exp r))) * pow2 (ulp_exp r)"

text \<open>
  Rounding overflows to an infinity when the rounded magnitude reaches \<open>2 ^ 1024\<close>, which
  needs a spacing of at least \<open>2 ^ 971\<close>.
\<close>

definition f64 :: "rat \<Rightarrow> float64" where
  "f64 r = (if r = 0 then Fin 0
     else let a = round_pos \<bar>r\<bar> in
       if (if 971 \<le> ulp_exp \<bar>r\<bar> then pow2 1024 \<le> a else False) then Inf (r < 0)
       else Fin (sgn r * a))"

section \<open>Operations\<close>

text \<open>Conversion from an integer constant or an \<^verbatim>\<open>int64\<close> variable.\<close>

definition f_of_int :: "int \<Rightarrow> float64" where
  "f_of_int n = f64 (of_int n)"

fun f_mul :: "float64 \<Rightarrow> float64 \<Rightarrow> float64" where
  "f_mul (Fin a) (Fin b) = f64 (a * b)"
| "f_mul (Inf s) (Inf t) = Inf (s \<noteq> t)"
| "f_mul (Inf s) (Fin b) = (if b = 0 then NaN else Inf (s \<noteq> (b < 0)))"
| "f_mul (Fin a) (Inf t) = (if a = 0 then NaN else Inf (t \<noteq> (a < 0)))"
| "f_mul _ _ = NaN"

fun f_div :: "float64 \<Rightarrow> float64 \<Rightarrow> float64" where
  "f_div (Fin a) (Fin b) = (if b = 0 then (if a = 0 then NaN else Inf (a < 0)) else f64 (a / b))"
| "f_div (Inf s) (Fin b) = Inf (s \<noteq> (b < 0))"
| "f_div (Fin a) (Inf t) = Fin 0"
| "f_div _ _ = NaN"

fun f_add :: "float64 \<Rightarrow> float64 \<Rightarrow> float64" where
  "f_add (Fin a) (Fin b) = f64 (a + b)"
| "f_add (Inf s) (Inf t) = (if s = t then Inf s else NaN)"
| "f_add (Inf s) (Fin b) = Inf s"
| "f_add (Fin a) (Inf t) = Inf t"
| "f_add _ _ = NaN"

fun f_neg :: "float64 \<Rightarrow> float64" where
  "f_neg NaN = NaN"
| "f_neg (Inf s) = Inf (\<not> s)"
| "f_neg (Fin a) = Fin (- a)"

definition f_sub :: "float64 \<Rightarrow> float64 \<Rightarrow> float64" where
  "f_sub x y = f_add x (f_neg y)"

text \<open>\<^verbatim>\<open>math.Abs\<close> and \<^verbatim>\<open>math.Round\<close> (half away from zero).\<close>

fun f_abs :: "float64 \<Rightarrow> float64" where
  "f_abs NaN = NaN"
| "f_abs (Inf s) = Inf False"
| "f_abs (Fin a) = Fin \<bar>a\<bar>"

definition round_away :: "rat \<Rightarrow> int" where
  "round_away r = (if r < 0 then - \<lfloor>- r + 1 / 2\<rfloor> else \<lfloor>r + 1 / 2\<rfloor>)"

fun f_round :: "float64 \<Rightarrow> float64" where
  "f_round (Fin a) = Fin (of_int (round_away a))"
| "f_round x = x"

text \<open>Comparisons: any comparison with a NaN is false.\<close>

fun f_lt :: "float64 \<Rightarrow> float64 \<Rightarrow> bool" where
  "f_lt (Fin a) (Fin b) = (a < b)"
| "f_lt (Inf s) (Inf t) = (s \<and> \<not> t)"
| "f_lt (Inf s) (Fin b) = s"
| "f_lt (Fin a) (Inf t) = (\<not> t)"
| "f_lt _ _ = False"

fun f_eq :: "float64 \<Rightarrow> float64 \<Rightarrow> bool" where
  "f_eq (Fin a) (Fin b) = (a = b)"
| "f_eq (Inf s) (Inf t) = (s = t)"
| "f_eq _ _ = False"

definition f_le :: "float64 \<Rightarrow> float64 \<Rightarrow> bool" where
  "f_le x y \<longleftrightarrow> f_lt x y \<or> f_eq x y"

fun is_nan :: "float64 \<Rightarrow> bool" where
  "is_nan NaN = True" | "is_nan _ = False"

fun is_inf :: "float64 \<Rightarrow> bool" where
  "is_inf (Inf s) = True" | "is_inf _ = False"

text \<open>
  \<^verbatim>\<open>int64(x)\<close> truncates towards zero; outside the range of \<^verbatim>\<open>int64\<close> (and for NaN) amd64
  yields the least integer.
\<close>

fun int64_of_float :: "float64 \<Rightarrow> int" where
  "int64_of_float (Fin a) =
     (let n = (if a < 0 then - \<lfloor>- a\<rfloor> else \<lfloor>a\<rfloor>) in if is_i64 n then n else - (2 ^ 63))"
| "int64_of_float _ = - (2 ^ 63)"

section \<open>Powers of two\<close>

lemma pow2_powi: "pow2 k = 2 powi k"
  unfolding pow2_def power_int_def of_int_power of_int_numeral
  by (simp only: power_inverse [symmetric] divide_inverse mult_1_left)

lemma pow2_pos [simp]: "0 < pow2 k"
  by (simp add: pow2_powi)

lemma pow2_nonneg [simp]: "0 \<le> pow2 k"
  by (rule less_imp_le) simp

lemma pow2_neq0 [simp]: "pow2 k \<noteq> 0"
  by (simp add: pow2_powi)

lemma pow2_of_nat: "pow2 (int n) = 2 ^ n"
  by (simp add: pow2_powi)

lemma pow2_add: "pow2 (a + b) = pow2 a * pow2 b"
  by (simp add: pow2_powi power_int_add)

lemma pow2_diff: "pow2 (a - b) = pow2 a / pow2 b"
  by (simp add: pow2_powi power_int_diff)

lemma pow2_mono: "a \<le> b \<Longrightarrow> pow2 a \<le> pow2 b"
  by (simp add: pow2_powi power_int_increasing)

lemma pow2_strict_mono: "a < b \<Longrightarrow> pow2 a < pow2 b"
  by (simp add: pow2_powi power_int_strict_increasing)

lemma pow2_less_iff [simp]: "pow2 a < pow2 b \<longleftrightarrow> a < b"
  by (metis linorder_not_le pow2_mono pow2_strict_mono)

lemma pow2_le_iff [simp]: "pow2 a \<le> pow2 b \<longleftrightarrow> a \<le> b"
  by (meson linorder_not_le pow2_less_iff)

lemma pow2_Suc: "pow2 (k + 1) = 2 * pow2 k"
  by (simp add: pow2_powi power_int_add)

section \<open>The binary exponent\<close>

lemma bitlen_ge1: "0 < n \<Longrightarrow> 1 \<le> bitlen n"
  using bitlen_nonneg [of n] bitlen_eq_zero_iff [of n] by linarith

lemma bitlen_le:
  assumes "0 < n" shows "pow2 (bitlen n - 1) \<le> of_int n"
proof -
  have "pow2 (bitlen n - 1) = of_int (2 ^ nat (bitlen n - 1))"
    using bitlen_ge1 [OF assms] by (simp add: pow2_def)
  also have "\<dots> \<le> of_int n" using bitlen_bounds [OF assms] by (simp only: of_int_le_iff)
  finally show ?thesis .
qed

lemma bitlen_less:
  assumes "0 < n" shows "of_int n < pow2 (bitlen n)"
proof -
  have "of_int n < (of_int (2 ^ nat (bitlen n)) :: rat)"
    using bitlen_bounds [OF assms] by (simp only: of_int_less_iff)
  also have "\<dots> = pow2 (bitlen n)" using bitlen_ge1 [OF assms] by (simp add: pow2_def)
  finally show ?thesis .
qed

lemma ilog2_bounds:
  assumes "0 < r"
  shows "pow2 (ilog2 r) \<le> r" and "r < pow2 (ilog2 r + 1)"
proof -
  obtain n d where nd: "quotient_of r = (n, d)" by (cases "quotient_of r")
  have d: "0 < d" using quotient_of_denom_pos [OF nd] .
  have r: "r = of_int n / of_int d" using quotient_of_div [OF nd] .
  have n: "0 < n" using assms d unfolding r by (simp add: zero_less_divide_iff)
  let ?k = "bitlen n - bitlen d"
  have up: "r < pow2 (?k + 1)"
  proof -
    have "of_int n < pow2 (?k + 1) * pow2 (bitlen d - 1)"
      using bitlen_less [OF n] by (simp flip: pow2_add)
    also have "\<dots> \<le> pow2 (?k + 1) * of_int d"
      using bitlen_le [OF d] by (intro mult_left_mono) simp_all
    finally show ?thesis using d unfolding r by (simp add: divide_less_eq)
  qed
  have low: "pow2 (?k - 1) \<le> r"
  proof -
    have "pow2 (?k - 1) * of_int d \<le> pow2 (?k - 1) * pow2 (bitlen d)"
      using bitlen_less [OF d] by (intro mult_left_mono) simp_all
    also have "\<dots> \<le> of_int n"
      using bitlen_le [OF n] by (simp flip: pow2_add)
    finally show ?thesis using d unfolding r by (simp add: le_divide_eq)
  qed
  have il: "ilog2 r = (if pow2 ?k \<le> r then ?k else ?k - 1)"
    by (simp add: ilog2_def nd Let_def)
  show "pow2 (ilog2 r) \<le> r" using low by (simp add: il)
  show "r < pow2 (ilog2 r + 1)" using up by (simp add: il)
qed

lemma ilog2_unique:
  assumes "pow2 e \<le> r" "r < pow2 (e + 1)"
  shows "ilog2 r = e"
proof -
  have r: "0 < r" using assms(1) pow2_pos [of e] by linarith
  have "pow2 (ilog2 r) < pow2 (e + 1)" "pow2 e < pow2 (ilog2 r + 1)"
    using ilog2_bounds [OF r] assms by linarith+
  then show ?thesis by simp
qed

lemma ilog2_less: "0 < r \<Longrightarrow> r < pow2 k \<Longrightarrow> ilog2 r < k"
  by (meson ilog2_bounds(1) order_le_less_trans pow2_less_iff)

lemma ilog2_ge: "pow2 k \<le> r \<Longrightarrow> k \<le> ilog2 r"
proof -
  assume le: "pow2 k \<le> r"
  then have "0 < r" using pow2_pos [of k] by linarith
  then have "pow2 k < pow2 (ilog2 r + 1)" using le ilog2_bounds(2) [of r] by linarith
  then show ?thesis by simp
qed

section \<open>Rounding to an integer\<close>

lemma round_even_error: "\<bar>of_int (round_even x) - x\<bar> \<le> 1 / 2"
proof -
  have "of_int \<lfloor>x\<rfloor> \<le> x" "x < of_int \<lfloor>x\<rfloor> + 1" by (rule of_int_floor_le) linarith
  then show ?thesis by (auto simp: round_even_def Let_def abs_le_iff)
qed

lemma round_even_near: "\<bar>x - of_int n\<bar> < 1 / 2 \<Longrightarrow> round_even x = n"
proof -
  assume a: "\<bar>x - of_int n\<bar> < 1 / 2"
  have "\<bar>of_int (round_even x) - of_int n\<bar> < (1 :: rat)"
    using a round_even_error [of x] by linarith
  then have "\<bar>of_int (round_even x - n)\<bar> < (1 :: rat)" by simp
  then show ?thesis by linarith
qed

lemma round_even_of_int [simp]: "round_even (of_int n) = n"
  by (rule round_even_near) simp

lemma round_even_ge: "of_int n \<le> x \<Longrightarrow> n \<le> round_even x"
proof -
  assume "of_int n \<le> x"
  then have "n \<le> \<lfloor>x\<rfloor>" by (simp add: le_floor_iff)
  then show ?thesis by (auto simp: round_even_def Let_def)
qed

lemma round_even_le: "x \<le> of_int n \<Longrightarrow> round_even x \<le> n"
proof -
  assume le: "x \<le> of_int n"
  show ?thesis
  proof (cases "x = of_int n")
    case True
    then show ?thesis by simp
  next
    case False
    with le have "\<lfloor>x\<rfloor> < n" by (simp add: floor_less_iff)
    then show ?thesis by (auto simp: round_even_def Let_def)
  qed
qed

section \<open>Rounding to binary64\<close>

lemma f64_0 [simp]: "f64 0 = Fin 0"
  by (simp add: f64_def)

lemma f64_pos: "0 < r \<Longrightarrow> r < pow2 1023 \<Longrightarrow> f64 r = Fin (round_pos r)"
  using ilog2_less [of r 1023] by (auto simp: f64_def ulp_exp_def max_def Let_def)

text \<open>
  A certificate for concrete values: the exponent of the spacing and the nearest multiple.
\<close>

lemma f64_cert:
  assumes "- 1022 \<le> e" "e < 1023" "pow2 e \<le> r" "r < pow2 (e + 1)"
    and "\<bar>r - of_int n * pow2 (e - 52)\<bar> < pow2 (e - 53)"
  shows "f64 r = Fin (of_int n * pow2 (e - 52))"
proof -
  have il: "ilog2 r = e" by (rule ilog2_unique) fact+
  have r: "0 < r" using assms(3) pow2_pos [of e] by linarith
  have lt: "r < pow2 1023" using assms(2,4) pow2_mono [of "e + 1" 1023] by linarith
  have half: "pow2 (e - 53) = pow2 (e - 52) / 2" using pow2_Suc [of "e - 53"] by simp
  have "r / pow2 (e - 52) - of_int n = (r - of_int n * pow2 (e - 52)) / pow2 (e - 52)"
    by (simp add: diff_divide_distrib)
  then have "\<bar>r / pow2 (e - 52) - of_int n\<bar> = \<bar>r - of_int n * pow2 (e - 52)\<bar> / pow2 (e - 52)"
    by (simp add: abs_divide)
  also have "\<dots> < 1 / 2" using assms(5) by (simp add: half divide_less_eq)
  finally have "round_even (r / pow2 (e - 52)) = n" by (rule round_even_near)
  then show ?thesis using f64_pos [OF r lt] assms(1) by (simp add: round_pos_def ulp_exp_def il)
qed


text \<open>Half a spacing bounds the rounding error; a power of two is never passed.\<close>

lemma round_pos_error: "\<bar>round_pos r - r\<bar> \<le> pow2 (ulp_exp r) / 2"
proof -
  let ?e = "pow2 (ulp_exp r)"
  have "round_pos r - r = (of_int (round_even (r / ?e)) - r / ?e) * ?e"
    by (simp add: round_pos_def left_diff_distrib)
  then have "\<bar>round_pos r - r\<bar> = \<bar>of_int (round_even (r / ?e)) - r / ?e\<bar> * ?e"
    by (simp add: abs_mult)
  also have "\<dots> \<le> 1 / 2 * ?e"
    by (rule mult_right_mono [OF round_even_error]) simp
  finally show ?thesis by simp
qed

lemma ulp_exp_le: "0 < r \<Longrightarrow> r < pow2 k \<Longrightarrow> - 1021 \<le> k \<Longrightarrow> ulp_exp r \<le> k - 53"
  using ilog2_less [of r k] by (auto simp: ulp_exp_def)

lemma round_pos_error_below:
  assumes "0 < r" "r < pow2 k" "- 1021 \<le> k"
  shows "\<bar>round_pos r - r\<bar> \<le> pow2 (k - 54)"
proof -
  have "pow2 (ulp_exp r) \<le> pow2 (k - 53)"
    using ulp_exp_le [OF assms] by simp
  moreover have "pow2 (k - 53) = 2 * pow2 (k - 54)"
    using pow2_Suc [of "k - 54"] by simp
  ultimately show ?thesis using round_pos_error [of r] by linarith
qed

text \<open>Values on the grid of \<open>pow2 k\<close> are bounds that rounding respects.\<close>

lemma grid_multiple: "k \<le> m \<Longrightarrow> \<exists>j. pow2 m / pow2 k = of_int j"
proof -
  assume "k \<le> m"
  moreover have "pow2 m / pow2 k = pow2 (m - k)" by (simp only: pow2_diff)
  ultimately have "pow2 m / pow2 k = of_int (2 ^ nat (m - k))" by (simp add: pow2_def)
  then show ?thesis by blast
qed

lemma round_pos_le_grid:
  assumes "r \<le> of_int n * pow2 m" "ulp_exp r \<le> m"
  shows "round_pos r \<le> of_int n * pow2 m"
proof -
  let ?e = "ulp_exp r"
  obtain j where j: "pow2 m / pow2 ?e = of_int j" using grid_multiple [OF assms(2)] by blast
  have eq: "of_int n * pow2 m = of_int (n * j) * pow2 ?e"
    using j by (simp add: divide_eq_eq)
  have "r \<le> of_int (n * j) * pow2 ?e" using assms(1) by (simp only: eq)
  then have "r / pow2 ?e \<le> of_int (n * j)" by (simp add: divide_le_eq)
  then have "round_even (r / pow2 ?e) \<le> n * j" by (rule round_even_le)
  then have "round_pos r \<le> of_int (n * j) * pow2 ?e"
    unfolding round_pos_def by (intro mult_right_mono) (simp_all only: of_int_le_iff pow2_nonneg)
  then show ?thesis by (simp only: eq)
qed

lemma round_pos_ge_grid:
  assumes "of_int n * pow2 m \<le> r" "ulp_exp r \<le> m"
  shows "of_int n * pow2 m \<le> round_pos r"
proof -
  let ?e = "ulp_exp r"
  obtain j where j: "pow2 m / pow2 ?e = of_int j" using grid_multiple [OF assms(2)] by blast
  have eq: "of_int n * pow2 m = of_int (n * j) * pow2 ?e"
    using j by (simp add: divide_eq_eq)
  have "of_int (n * j) * pow2 ?e \<le> r" using assms(1) by (simp only: eq)
  then have "of_int (n * j) \<le> r / pow2 ?e" by (simp add: le_divide_eq)
  then have "n * j \<le> round_even (r / pow2 ?e)" by (rule round_even_ge)
  then have "of_int (n * j) * pow2 ?e \<le> round_pos r"
    unfolding round_pos_def by (intro mult_right_mono) (simp_all only: of_int_le_iff pow2_nonneg)
  then show ?thesis by (simp only: eq)
qed

lemma round_pos_grid:
  assumes "r = of_int n * pow2 m" "ulp_exp r \<le> m"
  shows "round_pos r = r"
  using round_pos_le_grid [of r n m] round_pos_ge_grid [of n m r] assms by simp

lemma round_pos_int:
  assumes "0 < n" "n < 2 ^ 53"
  shows "round_pos (of_int n) = of_int n"
proof (rule round_pos_grid)
  show "of_int n = of_int n * pow2 0" by (simp add: pow2_def)
  have "(of_int n :: rat) < of_int (2 ^ 53)" using assms(2) by (simp only: of_int_less_iff)
  then have "(of_int n :: rat) < pow2 53" by (simp add: pow2_def)
  then show "ulp_exp (of_int n) \<le> 0" using ulp_exp_le [of "of_int n" 53] assms(1) by simp
qed

lemma pow2_1023_big: "of_int n < pow2 1023" if "n < 2 ^ 62"
proof -
  have "of_int n < (of_int (2 ^ 62) :: rat)" using that by (simp only: of_int_less_iff)
  also have "\<dots> = pow2 62" by (simp add: pow2_def)
  also have "\<dots> \<le> pow2 1023" by simp
  finally show ?thesis .
qed

text \<open>Integers below \<open>2 ^ 53\<close> convert exactly.\<close>

lemma f_of_int_exact:
  assumes "0 \<le> n" "n < 2 ^ 53"
  shows "f_of_int n = Fin (of_int n)"
proof (cases "n = 0")
  case True
  then show ?thesis by (simp add: f_of_int_def)
next
  case False
  with assms have "0 < n" by simp
  then show ?thesis
    using f64_pos [of "of_int n"] round_pos_int [OF \<open>0 < n\<close> assms(2)] pow2_1023_big [of n] assms(2)
    by (simp add: f_of_int_def)
qed

lemma round_pos_le_pow2:
  assumes "0 < r" "r \<le> pow2 k" "- 1021 \<le> k"
  shows "round_pos r \<le> pow2 k"
proof -
  have "r < pow2 (k + 1)" using assms(2) pow2_strict_mono [of k "k + 1"] by linarith
  then have "ulp_exp r \<le> k" using ulp_exp_le [of r "k + 1"] assms(1,3) by simp
  then show ?thesis using round_pos_le_grid [of r 1 k] assms(2) by simp
qed

lemma round_pos_nonneg: "0 < r \<Longrightarrow> 0 \<le> round_pos r"
proof -
  assume "0 < r"
  then have "0 \<le> round_even (r / pow2 (ulp_exp r))"
    by (intro round_even_ge) (simp add: less_imp_le)
  then show ?thesis by (simp add: round_pos_def)
qed

text \<open>A small difference stays small when it is rounded.\<close>

lemma f64_abs_le:
  assumes "\<bar>d\<bar> \<le> pow2 k" "- 1021 \<le> k" "k < 1022"
  shows "\<exists>w. f64 d = Fin w \<and> \<bar>w\<bar> \<le> pow2 k"
proof (cases "d = 0")
  case True
  then show ?thesis by (auto intro: exI [of _ 0])
next
  case False
  then have pos: "0 < \<bar>d\<bar>" by simp
  have "pow2 k < pow2 1023" using assms(3) by simp
  with assms(1) have "\<bar>d\<bar> < pow2 1023" by linarith
  then have "ulp_exp \<bar>d\<bar> \<le> 970" using ulp_exp_le [of "\<bar>d\<bar>" 1023] pos by simp
  then have "f64 d = Fin (sgn d * round_pos \<bar>d\<bar>)" using False by (simp add: f64_def Let_def)
  moreover have "\<bar>sgn d * round_pos \<bar>d\<bar>\<bar> \<le> pow2 k"
    using round_pos_le_pow2 [OF pos assms(1,2)] round_pos_nonneg [OF pos] False
    by (simp only: abs_mult abs_sgn_eq if_False mult_1_left abs_of_nonneg)
  ultimately show ?thesis by blast
qed

end
