(* ===== verification/Strconv.thy ===== *)
theory Strconv
  imports Prelude
begin

text \<open>
  The parts of packages \<^verbatim>\<open>strconv\<close>, \<^verbatim>\<open>strings\<close> and \<^verbatim>\<open>math/big\<close> that print and parse decimal
  numbers: \<^verbatim>\<open>FormatInt\<close>/\<^verbatim>\<open>Itoa\<close>/\<^verbatim>\<open>big.Int.String\<close>, \<^verbatim>\<open>big.Int.SetString\<close> in base 10,
  \<^verbatim>\<open>strings.Repeat\<close> and \<^verbatim>\<open>strings.Split\<close> on one character, with the round trip between
  printing and parsing.
\<close>

section \<open>Printing\<close>

text \<open>The digits of a non-negative number.\<close>

function dec_of :: "int \<Rightarrow> string" where
  "dec_of n = (if n < 10 then [char_of (48 + n)]
     else dec_of (n div 10) @ [char_of (48 + n mod 10)])"
  by pat_completeness auto

termination dec_of
  by (relation "measure nat") auto

declare dec_of.simps [simp del]

definition formatInt :: "int \<Rightarrow> string" where
  "formatInt n = (if n < 0 then ''-'' @ dec_of (- n) else dec_of n)"

definition zeros :: "nat \<Rightarrow> string" where
  "zeros n = replicate n (CHR ''0'')"

section \<open>Parsing\<close>

definition is_digit :: "char \<Rightarrow> bool" where
  "is_digit c \<longleftrightarrow> (let n = of_char c :: int in 48 \<le> n \<and> n \<le> 57)"

definition digit_val :: "char \<Rightarrow> int" where
  "digit_val c = of_char c - 48"

definition digits_val :: "string \<Rightarrow> int" where
  "digits_val s = foldl (\<lambda>a c. a * 10 + digit_val c) 0 s"

definition parse_digits :: "string \<Rightarrow> int option" where
  "parse_digits s = (if s \<noteq> [] \<and> list_all is_digit s then Some (digits_val s) else None)"

text \<open>\<^verbatim>\<open>new(big.Int).SetString(s, 10)\<close>: an optional sign and at least one digit.\<close>

definition setString :: "string \<Rightarrow> int option" where
  "setString s = (case s of
      [] \<Rightarrow> None
    | c # cs \<Rightarrow>
        if c = CHR ''-'' then map_option uminus (parse_digits cs)
        else if c = CHR ''+'' then parse_digits cs
        else parse_digits (c # cs))"

fun split_on :: "char \<Rightarrow> string \<Rightarrow> string list" where
  "split_on d [] = [[]]"
| "split_on d (c # cs) =
     (if c = d then [] # split_on d cs
      else (case split_on d cs of [] \<Rightarrow> [[c]] | p # ps \<Rightarrow> (c # p) # ps))"

section \<open>Printing gives digits, and parsing reads them back\<close>

lemma of_char_digit: "0 \<le> n \<Longrightarrow> n < 10 \<Longrightarrow> (of_char (char_of (48 + n :: int)) :: int) = 48 + n"
  by (simp add: of_char_of)

lemma is_digit_char_of [simp]: "0 \<le> n \<Longrightarrow> n < 10 \<Longrightarrow> is_digit (char_of (48 + n :: int))"
  by (simp add: is_digit_def of_char_digit)

lemma digit_val_char_of [simp]: "0 \<le> n \<Longrightarrow> n < 10 \<Longrightarrow> digit_val (char_of (48 + n :: int)) = n"
  by (simp add: digit_val_def of_char_digit)

lemma digits_val_foldl:
  "foldl (\<lambda>a c. a * 10 + digit_val c) a t = a * 10 ^ length t + digits_val t"
proof (induction t arbitrary: a)
  case Nil
  then show ?case by (simp add: digits_val_def)
next
  case (Cons c t)
  let ?f = "\<lambda>a c. a * 10 + digit_val c"
  have "foldl ?f a (c # t) = (a * 10 + digit_val c) * 10 ^ length t + digits_val t"
    by (simp only: foldl.simps Cons.IH)
  moreover have "digits_val (c # t) = (0 * 10 + digit_val c) * 10 ^ length t + digits_val t"
    by (simp only: digits_val_def [of "c # t"] foldl.simps Cons.IH)
  ultimately show ?case by (simp add: algebra_simps)
qed

lemma digits_val_append: "digits_val (s @ t) = digits_val s * 10 ^ length t + digits_val t"
  using digits_val_foldl [of "digits_val s" t] by (simp add: digits_val_def)

lemma dec_of_nonempty [simp]: "dec_of n \<noteq> []"
  by (subst dec_of.simps) simp

lemma digits_dec_of: "0 \<le> n \<Longrightarrow> list_all is_digit (dec_of n)"
proof (induction n rule: dec_of.induct)
  case (1 n)
  then show ?case by (subst dec_of.simps) simp
qed

lemma digits_val_dec_of [simp]: "0 \<le> n \<Longrightarrow> digits_val (dec_of n) = n"
proof (induction n rule: dec_of.induct)
  case (1 n)
  show ?case
  proof (cases "n < 10")
    case True
    then show ?thesis using 1(2) by (subst dec_of.simps) (simp add: digits_val_def)
  next
    case False
    have "digits_val (dec_of n) = digits_val (dec_of (n div 10)) * 10 + n mod 10"
      using False by (subst dec_of.simps) (simp add: digits_val_append, simp add: digits_val_def)
    with 1 False show ?thesis by simp
  qed
qed

lemma digits_val_zeros [simp]: "digits_val (zeros k) = 0"
  by (induction k) (simp_all add: zeros_def digits_val_def digit_val_def)

lemma digits_zeros: "list_all is_digit (zeros k)"
  by (simp add: zeros_def is_digit_def list_all_iff)

lemma length_zeros [simp]: "length (zeros k) = k"
  by (simp add: zeros_def)

lemma length_dec_of: "0 < k \<Longrightarrow> n < 10 ^ k \<Longrightarrow> length (dec_of n) \<le> k"
proof (induction n arbitrary: k rule: dec_of.induct)
  case (1 n)
  show ?case
  proof (cases "n < 10")
    case True
    then show ?thesis using 1(2) by (subst dec_of.simps) simp
  next
    case False
    have k: "k \<noteq> 1" using False 1(3) by (metis power_one_right)
    then obtain k' where k': "k = Suc k'" "0 < k'" using 1(2) by (cases k) auto
    have "n div 10 < 10 ^ k'" using 1(3) k' by (simp add: int_div_less_self div_less_iff_less_mult mult.commute)
    then have "length (dec_of (n div 10)) \<le> k'" using 1(1) [OF False k'(2)] by simp
    then show ?thesis using False k' by (subst dec_of.simps) simp
  qed
qed

lemma digit_not_sign: "is_digit c \<Longrightarrow> c \<noteq> CHR ''-'' \<and> c \<noteq> CHR ''+'' \<and> c \<noteq> CHR ''.''"
  by (auto simp: is_digit_def)

lemma setString_digits:
  assumes "s \<noteq> []" "list_all is_digit s"
  shows "setString s = Some (digits_val s)"
proof -
  obtain c cs where s: "s = c # cs" using assms(1) by (cases s) auto
  then show ?thesis
    using assms digit_not_sign [of c] by (simp add: setString_def parse_digits_def)
qed

lemma split_on_plain: "d \<notin> set s \<Longrightarrow> split_on d s = [s]"
  by (induction s) auto

lemma split_on_one: "d \<notin> set s \<Longrightarrow> d \<notin> set t \<Longrightarrow> split_on d (s @ d # t) = [s, t]"
  by (induction s) (auto simp: split_on_plain)

lemma digits_no_point: "list_all is_digit s \<Longrightarrow> CHR ''.'' \<notin> set s"
  using digit_not_sign by (auto simp: list_all_iff)

end
