(* ===== verification/Fixed.thy ===== *)
theory Fixed
  imports Float64 Strconv "HOL-Library.Signed_Division"
begin

text \<open>
  Package \<^verbatim>\<open>pkg/fixed\<close>: conversions between API floats and integer share, price and cent
  units, PostgreSQL literals, and the rounded collateral, refund and payout amounts.
  An \<^verbatim>\<open>int64\<close> is an \<open>int\<close>; sums and differences that could leave the type go through \<open>i64\<close>.
  The lemmas show when a float conversion is the identity on units, the rounding of the
  amounts, and the round trip between a literal and its units.
\<close>

section \<open>Constants\<close>

definition ShareScale :: int where "ShareScale = 1000000"
definition PriceScale :: int where "PriceScale = 1000000"
definition CentsScale :: int where "CentsScale = 100"
definition maxShareUnits :: int where "maxShareUnits = 8000000000000000"
definition maxCents :: int where "maxCents = 8000000000000000"

lemmas scale_defs = ShareScale_def PriceScale_def CentsScale_def maxShareUnits_def maxCents_def

section \<open>Floats and units\<close>

text \<open>The untyped constant \<^verbatim>\<open>1e-6\<close>, converted to \<^verbatim>\<open>float64\<close>.\<close>

definition tolerance :: float64 where "tolerance = f64 (1 / 1000000)"

definition decimalPlaces :: "int \<Rightarrow> nat" where
  "decimalPlaces scale = length (formatInt scale) - 1"

definition scaledFromFloat :: "float64 \<Rightarrow> int \<Rightarrow> int \<Rightarrow> string \<Rightarrow> int res" where
  "scaledFromFloat value scale maximum field =
     (if is_nan value \<or> is_inf value \<or> f_le value (Fin 0)
      then Inl (Wrapped field (Sentinel FixedErrOutOfRange))
      else let scaled = f_mul value (f_of_int scale) in
        if f_lt (f_of_int maximum) scaled
        then Inl (Wrapped field (Sentinel FixedErrOutOfRange))
        else let rounded = f_round scaled in
          if f_lt tolerance (f_abs (f_sub scaled rounded))
          then Inl (Plain (field @ '' must have at most '' @ formatInt (int (decimalPlaces scale))
                      @ '' decimal places''))
          else Inr (int64_of_float rounded))"

definition SharesFromFloat :: "float64 \<Rightarrow> int res" where
  "SharesFromFloat value = scaledFromFloat value ShareScale maxShareUnits ''shares''"

definition PriceFromFloat :: "float64 \<Rightarrow> int res" where
  "PriceFromFloat value =
     (if is_nan value \<or> is_inf value \<or> f_lt value (Fin 0) \<or> f_lt (Fin 1) value
      then Inl (Wrapped ''price'' (Sentinel FixedErrOutOfRange))
      else scaledFromFloat value PriceScale PriceScale ''price'')"

definition CentsFromFloat :: "float64 \<Rightarrow> int res" where
  "CentsFromFloat value = scaledFromFloat value CentsScale maxCents ''amount''"

definition SharesToFloat :: "int \<Rightarrow> float64" where
  "SharesToFloat value = f_div (f_of_int value) (f_of_int ShareScale)"

definition PriceToFloat :: "int \<Rightarrow> float64" where
  "PriceToFloat value = f_div (f_of_int value) (f_of_int PriceScale)"

definition CentsToFloat :: "int \<Rightarrow> float64" where
  "CentsToFloat value = f_div (f_of_int value) (f_of_int CentsScale)"

section \<open>Decimal literals\<close>

definition formatScaled :: "int \<Rightarrow> int \<Rightarrow> nat \<Rightarrow> string" where
  "formatScaled value scale decimals =
     (let sign = (if value < 0 then ''-'' else []);
          v = (if value < 0 then i64 (- value) else value);
          whole = v sdiv scale;
          fraction = v smod scale
      in sign @ formatInt whole @ ''.'' @ zeros (decimals - length (formatInt fraction))
           @ formatInt fraction)"

definition FormatShares :: "int \<Rightarrow> string" where
  "FormatShares value = formatScaled value ShareScale 6"

definition FormatPrice :: "int \<Rightarrow> string" where
  "FormatPrice value = formatScaled value PriceScale 6"

definition FormatCents :: "int \<Rightarrow> string" where
  "FormatCents value = formatScaled value CentsScale 2"

section \<open>Rounded amounts\<close>

text \<open>\<^verbatim>\<open>divideRounded\<close> on \<^verbatim>\<open>big.Int\<close>: truncated quotient, up by one when twice the remainder reaches the denominator.\<close>

definition divideRounded :: "int \<Rightarrow> int \<Rightarrow> int res" where
  "divideRounded val denominator =
     (let quotient = val sdiv denominator;
          remainder = val smod denominator;
          q = (if denominator \<le> push_bit 1 remainder then quotient + 1 else quotient)
      in if is_i64 q then Inr q else Inl (Sentinel FixedErrOutOfRange))"

definition productCents :: "int \<Rightarrow> int \<Rightarrow> int res" where
  "productCents shares price =
     divideRounded (shares * price * CentsScale) (ShareScale * PriceScale)"

definition CollateralCents :: "string \<Rightarrow> int \<Rightarrow> int \<Rightarrow> int res" where
  "CollateralCents side shares price =
     (let exposurePrice = (if side = ''sell'' then i64 (PriceScale - price) else price)
      in productCents shares exposurePrice)"

definition PriceImprovementCents :: "string \<Rightarrow> int \<Rightarrow> int \<Rightarrow> int \<Rightarrow> int res" where
  "PriceImprovementCents side shares limitPrice matchedPrice =
     (let difference = (if side = ''sell'' then i64 (matchedPrice - limitPrice)
                        else i64 (limitPrice - matchedPrice))
      in if difference \<le> 0 then Inr 0 else productCents shares difference)"

definition PayoutCents :: "int \<Rightarrow> int res" where
  "PayoutCents shares = divideRounded (shares * CentsScale) ShareScale"

section \<open>Rounding half up\<close>

text \<open>The specification of \<open>divideRounded\<close> for the amounts the services compute.\<close>

definition half_up :: "int \<Rightarrow> int \<Rightarrow> int" where
  "half_up a d = (2 * a + d) div (2 * d)"

lemma half_up_div_mod:
  assumes "0 < d"
  shows "half_up a d = (if d \<le> 2 * (a mod d) then a div d + 1 else a div d)"
proof -
  let ?q = "a div d" and ?r = "a mod d"
  have r: "0 \<le> ?r" "?r < d" using assms by simp_all
  have "2 * a + d = (2 * ?r + d) + ?q * (2 * d)"
  proof -
    have "2 * (?q * d + ?r) = 2 * a" by (simp only: div_mult_mod_eq)
    then show ?thesis by (simp only: distrib_left)
  qed
  then have "half_up a d = ((2 * ?r + d) + ?q * (2 * d)) div (2 * d)"
    by (simp only: half_up_def)
  then have "half_up a d = ?q + (2 * ?r + d) div (2 * d)"
    using assms by (simp only: div_mult_self1)
  moreover have "(2 * ?r + d) div (2 * d) = (if d \<le> 2 * ?r then 1 else 0)"
  proof (cases "d \<le> 2 * ?r")
    case True
    have "2 * ?r + d = (2 * ?r - d) + 1 * (2 * d)" by simp
    then have "(2 * ?r + d) div (2 * d) = ((2 * ?r - d) + 1 * (2 * d)) div (2 * d)"
      by (simp only:)
    also have "\<dots> = 1 + (2 * ?r - d) div (2 * d)"
      using assms by (subst div_mult_self1) simp_all
    finally show ?thesis using True r by (simp add: div_pos_pos_trivial)
  next
    case False
    then show ?thesis using r assms by (simp add: div_pos_pos_trivial)
  qed
  ultimately show ?thesis by simp
qed

lemma divideRounded_half_up:
  assumes "0 \<le> a" "0 < d" "a div d \<le> 9 * 10 ^ 18"
  shows "divideRounded a d = Inr (half_up a d)"
proof -
  have "sgn a * sgn d = 1 \<or> a = 0" using assms by (simp add: sgn_if)
  then have sd: "a sdiv d = a div d" "a smod d = a mod d"
    using assms by (auto simp: signed_divide_int_def signed_modulo_int_def)
  have "0 \<le> a div d" using assms by (simp add: pos_imp_zdiv_nonneg_iff)
  then have "is_i64 (half_up a d)"
    using assms(2,3) by (auto simp: half_up_div_mod is_i64_def)
  then show ?thesis
    by (simp add: divideRounded_def Let_def sd half_up_div_mod [OF assms(2)] push_bit_eq_mult
        mult.commute)
qed

text \<open>The rounded value is within half a unit, from below when it is a tie.\<close>

lemma half_up_bounds:
  assumes "0 < d"
  shows "2 * a - d < 2 * d * half_up a d" "2 * d * half_up a d \<le> 2 * a + d"
proof -
  have "2 * a + d = half_up a d * (2 * d) + (2 * a + d) mod (2 * d)"
    by (simp only: half_up_def div_mult_mod_eq)
  moreover have "0 \<le> (2 * a + d) mod (2 * d)" "(2 * a + d) mod (2 * d) < 2 * d"
    using assms by simp_all
  ultimately show "2 * a - d < 2 * d * half_up a d" "2 * d * half_up a d \<le> 2 * a + d"
    by (simp_all add: algebra_simps)
qed

lemma half_up_multiple [simp]: "0 < d \<Longrightarrow> half_up (k * d) d = k"
  by (simp add: half_up_div_mod)

lemma half_up_nonneg: "0 \<le> a \<Longrightarrow> 0 < d \<Longrightarrow> 0 \<le> half_up a d"
  by (simp add: half_up_def pos_imp_zdiv_nonneg_iff)

lemma half_up_mono: "0 < d \<Longrightarrow> a \<le> b \<Longrightarrow> half_up a d \<le> half_up b d"
  by (simp add: half_up_def zdiv_mono1)


section \<open>When a float carries its units exactly\<close>

lemma f_of_int_scales [simp]:
  "f_of_int 1000000 = Fin 1000000" "f_of_int 100 = Fin 100"
  "f_of_int 8000000000000000 = Fin 8000000000000000"
  by (simp_all add: f_of_int_exact)

lemma tolerance_ge: "\<exists>c. tolerance = Fin c \<and> pow2 (- 20) \<le> c"
proof -
  have "tolerance = Fin (of_int 4722366482869645 * pow2 (- 20 - 52))"
    unfolding tolerance_def by (rule f64_cert) (simp_all add: pow2_def)
  moreover have "pow2 (- 20) \<le> of_int 4722366482869645 * pow2 (- 20 - 52)"
    by (simp add: pow2_def)
  ultimately show ?thesis by blast
qed

text \<open>
  The quotient \<open>u / s\<close> rounded to a float, for a quotient below \<open>2 ^ K\<close>.
\<close>

lemma quotient_float:
  assumes "0 < u" "u < 2 ^ 53" "0 < s" "s < 2 ^ 53" "of_int u < of_int s * pow2 K" "- 1021 \<le> K"
    "K \<le> 1023"
  shows "\<exists>q. f_div (f_of_int u) (f_of_int s) = Fin q \<and> \<bar>q - of_int u / of_int s\<bar> \<le> pow2 (K - 54)"
proof -
  let ?r = "of_int u / of_int s :: rat"
  have r: "0 < ?r" "?r < pow2 K" using assms by (simp_all add: divide_less_eq mult.commute)
  have "f_div (f_of_int u) (f_of_int s) = f64 ?r"
    using assms by (simp add: f_of_int_exact)
  also have "\<dots> = Fin (round_pos ?r)"
    using r pow2_mono [OF assms(7)] by (intro f64_pos) linarith+
  finally show ?thesis using round_pos_error_below [OF r assms(6)] by blast
qed

text \<open>
  A product \<open>p\<close> within \<open>2 ^ -20\<close> of the positive integer \<open>u\<close> and below \<open>2 ^ 34\<close> rounds to
  a float within \<open>2 ^ -20\<close> of \<open>u\<close>: below \<open>2 ^ 33\<close> the bounds \<open>u - 2 ^ -20\<close> and \<open>u + 2 ^ -20\<close> are
  on the grid, above it half a spacing is \<open>2 ^ -20\<close> and the result is \<open>u\<close> itself.
\<close>

lemma product_float:
  assumes "0 < u" "u < 2 ^ 34" "\<bar>p - of_int u\<bar> < pow2 (- 20)" "0 < p"
  shows "\<exists>v. f64 p = Fin v \<and> \<bar>v - of_int u\<bar> \<le> pow2 (- 20)"
proof -
  have u34: "of_int u \<le> pow2 34 - 1"
  proof -
    have "(of_int u :: rat) \<le> of_int (2 ^ 34 - 1)" using assms(2) by (simp only: of_int_le_iff)
    then show ?thesis by (simp add: pow2_def)
  qed
  have t1: "pow2 (- 20) < 1" by (simp add: pow2_def)
  have p34: "p < pow2 34" using assms(3) u34 t1 by linarith
  then have "p < pow2 1023" using pow2_mono [of 34 1023] by linarith
  then have fp: "f64 p = Fin (round_pos p)" using f64_pos [OF assms(4)] by simp
  have g: "of_int u = of_int (u * 2 ^ 20) * pow2 (- 20)" by (simp add: pow2_def)
  have hi: "of_int u + pow2 (- 20) = of_int (u * 2 ^ 20 + 1) * pow2 (- 20)"
    and lo: "of_int u - pow2 (- 20) = of_int (u * 2 ^ 20 - 1) * pow2 (- 20)"
    by (simp_all add: pow2_def field_simps)
  show ?thesis
  proof (cases "p < pow2 33")
    case True
    then have e: "ulp_exp p \<le> - 20" using ulp_exp_le [OF assms(4) True] by simp
    have "p \<le> of_int u + pow2 (- 20)" "of_int u - pow2 (- 20) \<le> p"
      using assms(3) by linarith+
    then have "round_pos p \<le> of_int u + pow2 (- 20)" "of_int u - pow2 (- 20) \<le> round_pos p"
      using round_pos_le_grid [OF _ e] round_pos_ge_grid [OF _ e] unfolding hi lo by blast+
    then have "\<bar>round_pos p - of_int u\<bar> \<le> pow2 (- 20)" by linarith
    with fp show ?thesis by blast
  next
    case False
    then have il: "ilog2 p = 33" using p34 by (intro ilog2_unique) simp_all
    have e: "ulp_exp p = - 19" by (simp add: ulp_exp_def il)
    have n: "of_int u / pow2 (- 19) = (of_int (u * 2 ^ 19) :: rat)" by (simp add: pow2_def)
    have "\<bar>p / pow2 (- 19) - of_int (u * 2 ^ 19)\<bar> = \<bar>p - of_int u\<bar> / pow2 (- 19)"
      unfolding n [symmetric] diff_divide_distrib [symmetric] by simp
    also have "\<dots> < 1 / 2" using assms(3) by (simp add: pow2_def)
    finally have "round_even (p / pow2 (- 19)) = u * 2 ^ 19" by (rule round_even_near)
    then have "round_pos p = of_int u" by (simp add: round_pos_def e pow2_def)
    with fp show ?thesis by simp
  qed
qed

lemma round_away_near: "\<bar>v - of_int u\<bar> < 1 / 2 \<Longrightarrow> 0 < u \<Longrightarrow> round_away v = u"
proof -
  assume a: "\<bar>v - of_int u\<bar> < 1 / 2" and u: "0 < u"
  have "(1 :: rat) \<le> of_int u" using u by simp
  with a have "0 \<le> v" by linarith
  moreover have "\<lfloor>v + 1 / 2\<rfloor> = u" using a by (intro floor_unique) linarith+
  ultimately show ?thesis by (simp add: round_away_def)
qed

text \<open>
  The conversion succeeds on the float of \<open>u\<close> units whenever the product misses \<open>u\<close> by
  at most \<open>2 ^ -20\<close>, which is below the tolerance.
\<close>

lemma scaledFromFloat_near:
  assumes "0 < u" "u < 2 ^ 53" "0 < q" "f_mul (Fin q) (f_of_int scale) = Fin v"
    and "\<bar>v - of_int u\<bar> \<le> pow2 (- 20)" "f_of_int maximum = Fin m" "v \<le> m"
  shows "scaledFromFloat (Fin q) scale maximum field = Inr u"
proof -
  have "pow2 (- 20) < 1 / 2" by (simp add: pow2_def)
  then have near: "\<bar>v - of_int u\<bar> < 1 / 2" using assms(5) by linarith
  have rnd: "f_round (Fin v) = Fin (of_int u)"
    using round_away_near [OF near assms(1)] by simp
  obtain w where w: "f64 (v - of_int u) = Fin w" "\<bar>w\<bar> \<le> pow2 (- 20)"
    using f64_abs_le [OF assms(5)] by auto
  obtain c where c: "tolerance = Fin c" "pow2 (- 20) \<le> c" using tolerance_ge by blast
  have "is_i64 u" using assms(1,2) by (simp add: is_i64_def)
  then show ?thesis
    using assms(1,3,4,6,7) rnd w(2) c(2)
    by (simp add: scaledFromFloat_def Let_def f_le_def f_sub_def w(1) c(1))
qed

lemma units_roundtrip:
  assumes "0 < u" "u < 2 ^ 34" "0 < s" "s < 2 ^ 53" "of_int u < of_int s * pow2 K"
    and "0 \<le> K" "K \<le> 1023" "of_int s * pow2 (K - 54) < pow2 (- 20)"
    and "f_of_int maximum = Fin m" "of_int u + pow2 (- 20) \<le> m"
  shows "scaledFromFloat (f_div (f_of_int u) (f_of_int s)) s maximum field = Inr u"
proof -
  have u53: "u < 2 ^ 53" using assms(2) by simp
  obtain q where q: "f_div (f_of_int u) (f_of_int s) = Fin q"
    "\<bar>q - of_int u / of_int s\<bar> \<le> pow2 (K - 54)"
    using quotient_float [OF assms(1) u53 assms(3,4,5)] assms(6,7) by auto
  have s: "0 < (of_int s :: rat)" using assms(3) by simp
  have "q * of_int s - of_int u = (q - of_int u / of_int s) * of_int s"
    using s by (simp add: left_diff_distrib)
  then have "\<bar>q * of_int s - of_int u\<bar> = \<bar>q - of_int u / of_int s\<bar> * of_int s"
    using s by (simp add: abs_mult)
  also have "\<dots> \<le> pow2 (K - 54) * of_int s"
    using q(2) s by (intro mult_right_mono) simp_all
  finally have near: "\<bar>q * of_int s - of_int u\<bar> < pow2 (- 20)"
    using assms(8) by (simp add: mult.commute)
  have "pow2 (- 20) < 1" by (simp add: pow2_def)
  moreover have "(1 :: rat) \<le> of_int u" using assms(1) by simp
  ultimately have p: "0 < q * of_int s" using near by linarith
  then have "0 < q" using s by (simp add: zero_less_mult_iff)
  moreover obtain v where v: "f64 (q * of_int s) = Fin v" "\<bar>v - of_int u\<bar> \<le> pow2 (- 20)"
    using product_float [OF assms(1,2) near p] by blast
  moreover have "f_mul (Fin q) (f_of_int s) = Fin v"
    using v(1) assms(3,4) by (simp add: f_of_int_exact)
  moreover have "v \<le> m" using v(2) assms(10) by linarith
  ultimately show ?thesis
    unfolding q(1) using assms(1,9) u53 by (intro scaledFromFloat_near [where v = v and m = m])
qed


section \<open>Conversions of the API types\<close>

lemma SharesFromFloat_SharesToFloat:
  assumes "0 < u" "u < 2 ^ 14 * 1000000"
  shows "SharesFromFloat (SharesToFloat u) = Inr u"
proof -
  have "of_int u < (of_int (2 ^ 14 * 1000000) :: rat)" using assms(2) by (simp only: of_int_less_iff)
  then have "of_int u < of_int 1000000 * pow2 14" by (simp add: pow2_def)
  moreover have "of_int 1000000 * pow2 (14 - 54) < pow2 (- 20)" by (simp add: pow2_def)
  moreover have "of_int u + pow2 (- 20) \<le> (8000000000000000 :: rat)"
    using \<open>of_int u < of_int (2 ^ 14 * 1000000)\<close> by (simp add: pow2_def)
  ultimately show ?thesis
    unfolding SharesFromFloat_def SharesToFloat_def scale_defs
    using assms by (intro units_roundtrip [where K = 14 and m = 8000000000000000]) simp_all
qed

lemma CentsFromFloat_CentsToFloat:
  assumes "0 < u" "u < 2 ^ 27 * 100"
  shows "CentsFromFloat (CentsToFloat u) = Inr u"
proof -
  have "of_int u < (of_int (2 ^ 27 * 100) :: rat)" using assms(2) by (simp only: of_int_less_iff)
  then have "of_int u < of_int 100 * pow2 27" by (simp add: pow2_def)
  moreover have "of_int 100 * pow2 (27 - 54) < pow2 (- 20)" by (simp add: pow2_def)
  moreover have "of_int u + pow2 (- 20) \<le> (8000000000000000 :: rat)"
    using \<open>of_int u < of_int (2 ^ 27 * 100)\<close> by (simp add: pow2_def)
  ultimately show ?thesis
    unfolding CentsFromFloat_def CentsToFloat_def scale_defs
    using assms by (intro units_roundtrip [where K = 27 and m = 8000000000000000]) simp_all
qed

lemma PriceToFloat_near:
  assumes "0 < u" "u < 1000000"
  shows "\<exists>q. PriceToFloat u = Fin q \<and> \<bar>q - of_int u / 1000000\<bar> \<le> pow2 (- 54)"
proof -
  have "of_int u < (of_int 1000000 :: rat)" using assms(2) by (simp only: of_int_less_iff)
  then have "of_int u < of_int 1000000 * pow2 0" by (simp add: pow2_def)
  then show ?thesis
    unfolding PriceToFloat_def scale_defs
    using quotient_float [of u 1000000 0] assms by simp
qed

lemma PriceToFloat_bounds:
  assumes "0 < u" "u < 1000000"
  shows "\<exists>q. PriceToFloat u = Fin q \<and> 0 < q \<and> q < 1"
proof -
  obtain q where q: "PriceToFloat u = Fin q" "\<bar>q - of_int u / 1000000\<bar> \<le> pow2 (- 54)"
    using PriceToFloat_near [OF assms] by blast
  have "(1 :: rat) \<le> of_int u" "of_int u \<le> (999999 :: rat)" using assms by simp_all
  then have "1 / 1000000 \<le> of_int u / (1000000 :: rat)" "of_int u / 1000000 \<le> (999999 / 1000000 :: rat)"
    by simp_all
  moreover have "pow2 (- 54) < 1 / 1000000" by (simp add: pow2_def)
  ultimately show ?thesis using q by (intro exI [of _ q]) linarith
qed

lemma PriceFromFloat_PriceToFloat:
  assumes "0 < u" "u < 1000000"
  shows "PriceFromFloat (PriceToFloat u) = Inr u"
proof -
  have u: "of_int u < (of_int 1000000 :: rat)" using assms(2) by (simp only: of_int_less_iff)
  have u': "of_int u \<le> (999999 :: rat)" using assms(2) by simp
  have "of_int u < of_int 1000000 * pow2 0" using u by (simp add: pow2_def)
  moreover have "of_int 1000000 * pow2 (0 - 54) < pow2 (- 20)" by (simp add: pow2_def)
  moreover have "of_int u + pow2 (- 20) \<le> (1000000 :: rat)"
    using u' by (simp add: pow2_def)
  ultimately have "scaledFromFloat (PriceToFloat u) PriceScale PriceScale ''price'' = Inr u"
    unfolding PriceToFloat_def scale_defs
    using assms by (intro units_roundtrip [where K = 0 and m = 1000000]) simp_all
  moreover obtain q where "PriceToFloat u = Fin q" "0 < q" "q < 1"
    using PriceToFloat_bounds [OF assms] by blast
  ultimately show ?thesis by (simp add: PriceFromFloat_def)
qed

text \<open>Price floats are ordered as their units.\<close>

lemma PriceToFloat_less:
  assumes "0 < a" "a < b" "b < 1000000"
  shows "\<exists>p q. PriceToFloat a = Fin p \<and> PriceToFloat b = Fin q \<and> p < q"
proof -
  obtain p where p: "PriceToFloat a = Fin p" "\<bar>p - of_int a / 1000000\<bar> \<le> pow2 (- 54)"
    using PriceToFloat_near [of a] assms by auto
  obtain q where q: "PriceToFloat b = Fin q" "\<bar>q - of_int b / 1000000\<bar> \<le> pow2 (- 54)"
    using PriceToFloat_near [of b] assms by auto
  have "of_int a + 1 \<le> (of_int b :: rat)" using assms(2) by simp
  then have "of_int a / 1000000 + 1 / 1000000 \<le> (of_int b / 1000000 :: rat)" by simp
  moreover have "2 * pow2 (- 54) < 1 / 1000000" by (simp add: pow2_def)
  ultimately show ?thesis using p q by (intro exI [of _ p] exI [of _ q]) linarith
qed

lemma PriceToFloat_lt_iff:
  assumes "0 < a" "a < 1000000" "0 < b" "b < 1000000"
  shows "f_lt (PriceToFloat a) (PriceToFloat b) \<longleftrightarrow> a < b"
proof (cases a b rule: linorder_cases)
  case less
  then show ?thesis using PriceToFloat_less [of a b] assms by auto
next
  case equal
  then show ?thesis using PriceToFloat_bounds [of a] assms by auto
next
  case greater
  then show ?thesis using PriceToFloat_less [of b a] assms by auto
qed

lemma PriceToFloat_eq_iff:
  assumes "0 < a" "a < 1000000" "0 < b" "b < 1000000"
  shows "f_eq (PriceToFloat a) (PriceToFloat b) \<longleftrightarrow> a = b"
proof (cases a b rule: linorder_cases)
  case less
  then show ?thesis using PriceToFloat_less [of a b] assms by auto
next
  case equal
  then show ?thesis using PriceToFloat_bounds [of a] assms by auto
next
  case greater
  then show ?thesis using PriceToFloat_less [of b a] assms by auto
qed

section \<open>Amounts of valid units\<close>

definition valid_shares :: "int \<Rightarrow> bool" where
  "valid_shares s \<longleftrightarrow> 0 \<le> s \<and> s \<le> maxShareUnits"

definition valid_price :: "int \<Rightarrow> bool" where
  "valid_price p \<longleftrightarrow> 0 \<le> p \<and> p \<le> PriceScale"

text \<open>The exact collateral of a side, in units of \<open>10 ^ -12\<close> cents.\<close>

definition exposure :: "string \<Rightarrow> int \<Rightarrow> int" where
  "exposure side price = (if side = ''sell'' then PriceScale - price else price)"

lemma exposure_range: "valid_price p \<Longrightarrow> valid_price (exposure side p)"
  by (simp add: valid_price_def exposure_def)

lemma productCents_spec:
  assumes "valid_shares s" "valid_price p"
  shows "productCents s p = Inr (half_up (s * p * 100) (10 ^ 12))"
proof -
  have "s * p \<le> 8000000000000000 * 1000000"
    using assms by (intro mult_mono) (simp_all add: valid_shares_def valid_price_def scale_defs)
  then have "s * p * 100 \<le> 8000000000000000 * 1000000 * 100" by linarith
  then have "s * p * 100 div 10 ^ 12 \<le> 8000000000000000 * 1000000 * 100 div 10 ^ 12"
    by (rule zdiv_mono1) simp
  moreover have "0 \<le> s * p"
    using assms by (simp add: valid_shares_def valid_price_def)
  ultimately show ?thesis
    by (simp add: productCents_def scale_defs divideRounded_half_up)
qed

lemma CollateralCents_spec:
  assumes "valid_shares s" "valid_price p"
  shows "CollateralCents side s p = Inr (half_up (s * exposure side p * 100) (10 ^ 12))"
proof -
  have "i64 (PriceScale - p) = PriceScale - p"
    using assms(2) by (intro i64_small) (simp add: valid_price_def scale_defs)
  then show ?thesis
    using productCents_spec [OF assms(1) exposure_range [OF assms(2), of side]]
    by (cases "side = ''sell''") (simp_all add: CollateralCents_def exposure_def)
qed

lemma PayoutCents_spec:
  assumes "valid_shares s"
  shows "PayoutCents s = Inr (half_up (s * 100) 1000000)"
proof -
  have "s * 100 div 1000000 \<le> 8000000000000000 * 100 div 1000000"
    using assms by (intro zdiv_mono1) (simp_all add: valid_shares_def scale_defs)
  then show ?thesis
    using assms by (simp add: PayoutCents_def scale_defs divideRounded_half_up valid_shares_def)
qed

text \<open>Complementary amounts: their rounded sum exceeds the exact sum by one cent at a tie.\<close>

lemma half_up_complement:
  assumes "0 < d" "a + b = n * (2 * d)"
  shows "half_up a (2 * d) + half_up b (2 * d) = n + (if a mod (2 * d) = d then 1 else 0)"
proof -
  let ?r = "a mod (2 * d)" and ?q = "a div (2 * d)"
  have a: "a = ?q * (2 * d) + ?r" by (simp only: div_mult_mod_eq)
  have r: "0 \<le> ?r" "?r < 2 * d" using assms(1) by simp_all
  have ha: "half_up a (2 * d) = (if d \<le> ?r then ?q + 1 else ?q)"
    using half_up_div_mod [of "2 * d" a] assms(1) by simp
  have b: "2 * b + 2 * d = (2 * d - 2 * ?r) + (n - ?q) * (4 * d)"
    using assms(2) a by (simp add: algebra_simps)
  have "half_up b (2 * d) = (n - ?q) + (2 * d - 2 * ?r) div (4 * d)"
  proof -
    have "half_up b (2 * d) = ((2 * d - 2 * ?r) + (n - ?q) * (4 * d)) div (4 * d)"
    proof -
      have "2 * b + 2 * d = (2 * d - 2 * ?r) + (n - ?q) * (4 * d)" by (rule b)
      then have "(2 * b + 2 * d) div (4 * d) = ((2 * d - 2 * ?r) + (n - ?q) * (4 * d)) div (4 * d)"
        by (simp only:)
      then show ?thesis by (simp add: half_up_def)
    qed
    then show ?thesis using assms(1) by (simp only: div_mult_self1)
  qed
  moreover have "(2 * d - 2 * ?r) div (4 * d) = (if ?r \<le> d then 0 else - 1)"
  proof (cases "?r \<le> d")
    case True
    have "(2 * d - 2 * ?r) div (4 * d) = 0"
      using True r assms(1) by (intro div_pos_pos_trivial) linarith+
    with True show ?thesis by simp
  next
    case False
    have "(2 * d - 2 * ?r) div (4 * d) = - 1"
      using False r by (intro int_div_pos_eq [where r = "6 * d - 2 * ?r"]) simp_all
    with False show ?thesis by simp
  qed
  ultimately show ?thesis using ha by auto
qed


section \<open>What a successful conversion returns\<close>

lemma round_away_bounds:
  "0 \<le> r \<Longrightarrow> r \<le> of_int m \<Longrightarrow> 0 \<le> round_away r \<and> round_away r \<le> m"
  by (auto simp: round_away_def le_floor_iff floor_le_iff)

lemma f64_nonneg: "0 < r \<Longrightarrow> f64 r = Fin b \<Longrightarrow> 0 \<le> b"
  using round_pos_nonneg [of r] by (auto simp: f64_def Let_def split: if_splits)

lemma f_eq_of_int [simp]: "0 \<le> n \<Longrightarrow> is_i64 n \<Longrightarrow> int64_of_float (Fin (of_int n)) = n"
  by simp

lemma scaledFromFloat_range:
  assumes "scaledFromFloat v s m field = Inr n" "0 < s" "s < 2 ^ 53" "0 \<le> m" "m < 2 ^ 53"
  shows "0 \<le> n \<and> n \<le> m"
proof -
  obtain a where a: "v = Fin a" "0 < a"
    using assms(1) by (cases v) (auto simp: scaledFromFloat_def f_le_def split: if_splits)
  have sc: "f_mul v (f_of_int s) = f64 (a * of_int s)"
    using a assms(2,3) by (simp add: f_of_int_exact)
  have m: "f_of_int m = Fin (of_int m)" using assms(4,5) by (simp add: f_of_int_exact)
  have pos: "0 < a * of_int s" using a(2) assms(2) by simp
  obtain b where b: "f64 (a * of_int s) = Fin b"
  proof (cases "f64 (a * of_int s)")
    case (Inf neg)
    then have "\<not> neg" using pos by (auto simp: f64_def Let_def split: if_splits)
    with Inf assms(1) show ?thesis
      using a sc m by (simp add: scaledFromFloat_def f_le_def)
  qed (auto simp: f64_def Let_def split: if_splits)
  have "b \<le> of_int m"
    using assms(1) a sc m b by (auto simp: scaledFromFloat_def f_le_def Let_def split: if_splits)
  then have r: "0 \<le> round_away b \<and> round_away b \<le> m"
    using round_away_bounds f64_nonneg [OF pos b] by blast
  then have "is_i64 (round_away b)" using assms(5) by (simp add: is_i64_def)
  then show ?thesis
    using assms(1) a sc m b r
    by (auto simp: scaledFromFloat_def f_le_def Let_def split: if_splits)
qed

lemma CentsFromFloat_range: "CentsFromFloat v = Inr n \<Longrightarrow> 0 \<le> n \<and> n \<le> maxCents"
  unfolding CentsFromFloat_def by (erule scaledFromFloat_range) (simp_all add: scale_defs)

lemma SharesFromFloat_range: "SharesFromFloat v = Inr n \<Longrightarrow> 0 \<le> n \<and> n \<le> maxShareUnits"
  unfolding SharesFromFloat_def by (erule scaledFromFloat_range) (simp_all add: scale_defs)

lemma PriceFromFloat_range: "PriceFromFloat v = Inr n \<Longrightarrow> 0 \<le> n \<and> n \<le> PriceScale"
  unfolding PriceFromFloat_def
  by (auto split: if_splits dest!: scaledFromFloat_range simp: scale_defs)

end
