(* ===== verification/DomainTypes.thy ===== *)
theory DomainTypes
  imports Fixed "HOL-Library.Word"
begin

text \<open>
  The shared structs of \<^verbatim>\<open>pkg/types\<close>, one record each with the fields the services read,
  and the identifier helpers that every service package repeats: the UUID check, the
  random version-4 UUID, the supported currencies and the pagination defaults.
  Instants (\<^verbatim>\<open>time.Time\<close>, always in UTC here) are nanoseconds since the Unix epoch.
  A context argument is a \<open>bool\<close>: whether \<^verbatim>\<open>ctx.Err()\<close> is non-nil when the callee checks it.
\<close>

unbundle bit_operations_syntax

type_synonym time = int
type_synonym byte = "8 word"

text \<open>The zero \<^verbatim>\<open>time.Time\<close>: the first instant of year 1.\<close>

definition zero_time :: time where
  "zero_time = - 62135596800 * 1000000000"

section \<open>pkg/types\<close>

record market =
  m_ID :: string
  m_MerchantID :: string
  m_EventID :: string
  m_Type :: string
  m_Question :: string
  m_Options :: "string list"
  m_Status :: string
  m_TotalVolume :: float64
  m_LiquidityPool :: float64
  m_MerchantFeeRate :: float64
  m_PlatformFeeRate :: float64
  m_CreatedAt :: time
  m_SettledAt :: "time option"

record event =
  e_ID :: string
  e_SourceType :: string
  e_SourceID :: string
  e_Title :: string
  e_Description :: string
  e_Category :: string
  e_EndTime :: time
  e_ResolutionTime :: time
  e_Status :: string
  e_Outcome :: "string option"
  e_CreatedAt :: time
  e_UpdatedAt :: time

record order =
  o_ID :: string
  o_MerchantID :: string
  o_UserID :: string
  o_MarketID :: string
  o_Type :: string
  o_Option :: string
  o_Amount :: float64
  o_FilledAmount :: float64
  o_Currency :: string
  o_Price :: float64
  o_TimeInForce :: string
  o_Status :: string
  o_IdempotencyKey :: string
  o_CreatedAt :: time
  o_FilledAt :: "time option"

record wallet =
  w_ID :: string
  w_MerchantID :: string
  w_UserID :: string
  w_Currency :: string
  w_Balance :: float64
  w_LockedBalance :: float64
  w_UpdatedAt :: time

record transaction =
  t_ID :: string
  t_WalletID :: string
  t_Type :: string
  t_Amount :: float64
  t_Currency :: string
  t_RelatedOrderID :: "string option"
  t_IdempotencyKey :: string
  t_Status :: string
  t_CreatedAt :: time

section \<open>UUIDs\<close>

definition is_hex :: "char \<Rightarrow> bool" where
  "is_hex c \<longleftrightarrow> (let n = of_char c :: nat in
     (48 \<le> n \<and> n \<le> 57) \<or> (97 \<le> n \<and> n \<le> 102) \<or> (65 \<le> n \<and> n \<le> 70))"

text \<open>\<^verbatim>\<open>hex.DecodeString\<close> succeeds on an even number of hexadecimal digits.\<close>

definition hex_decodes :: "string \<Rightarrow> bool" where
  "hex_decodes s \<longleftrightarrow> even (length s) \<and> list_all is_hex s"

definition isUUID :: "string \<Rightarrow> bool" where
  "isUUID v = (if length v \<noteq> 36 \<or> v ! 8 \<noteq> CHR ''-'' \<or> v ! 13 \<noteq> CHR ''-'' \<or> v ! 18 \<noteq> CHR ''-''
       \<or> v ! 23 \<noteq> CHR ''-''
     then False
     else hex_decodes (filter (\<lambda>c. c \<noteq> CHR ''-'') v))"

text \<open>
  The text a \<^verbatim>\<open>uuid\<close> column is given: of the forms PostgreSQL reads, the one with 32 hexadecimal
  digits in five groups, which this program writes. Any other text is a cast error. Identifiers
  are taken to be in lower case, as the server prints them, so that equal identifiers are equal
  texts.
\<close>

definition uuidText :: "string \<Rightarrow> bool" where
  "uuidText s \<longleftrightarrow> length s = 36
     \<and> list_all (\<lambda>i. if i = 8 \<or> i = 13 \<or> i = 18 \<or> i = 23 then s ! i = CHR ''-'' else is_hex (s ! i)) [0..<36]"

text \<open>
  \<^verbatim>\<open>io.ReadFull\<close> on a random source: the source is the list of the bytes it will yield, and
  a source that runs dry is a read error.
\<close>

definition readFull :: "nat \<Rightarrow> byte list \<Rightarrow> byte list res \<times> byte list" where
  "readFull n rs = (if n \<le> length rs then (Inr (take n rs), drop n rs)
     else (Inl (External ''unexpected EOF''), []))"

definition hex_digit :: "nat \<Rightarrow> char" where
  "hex_digit n = char_of (if n < 10 then 48 + n else 87 + n)"

definition hex_byte :: "byte \<Rightarrow> string" where
  "hex_byte b = [hex_digit (unat b div 16), hex_digit (unat b mod 16)]"

definition hex_bytes :: "byte list \<Rightarrow> string" where
  "hex_bytes bs = concat (map hex_byte bs)"

definition uuid_string :: "byte list \<Rightarrow> string" where
  "uuid_string b = hex_bytes (take 4 b) @ ''-'' @ hex_bytes (take 2 (drop 4 b)) @ ''-''
     @ hex_bytes (take 2 (drop 6 b)) @ ''-'' @ hex_bytes (take 2 (drop 8 b)) @ ''-''
     @ hex_bytes (take 6 (drop 10 b))"

definition generateUUID :: "byte list \<Rightarrow> string res \<times> byte list" where
  "generateUUID random = (case readFull 16 random of
      (Inl err, rest) \<Rightarrow> (Inl err, rest)
    | (Inr buffer, rest) \<Rightarrow>
        let b6 = buffer[6 := (buffer ! 6 AND 0x0f) OR 0x40];
            b8 = b6[8 := (b6 ! 8 AND 0x3f) OR 0x80]
        in (Inr (uuid_string b8), rest))"

section \<open>Currencies and pages\<close>

definition validCurrency :: "string \<Rightarrow> bool" where
  "validCurrency currency \<longleftrightarrow> currency \<in> {''USD'', ''EUR'', ''CNY'', ''JPY'', ''GBP''}"

definition defaultPage :: int where "defaultPage = 1"
definition defaultLimit :: int where "defaultLimit = 20"
definition maxLimit :: int where "maxLimit = 100"
definition maxPage :: int where "maxPage = 1000"

text \<open>
  The page and limit checks, shared by the list operations of the services; the message
  for a page beyond \<open>maxPage\<close> is the argument (the order service mentions cursors).
\<close>

definition normalizePagination :: "string \<Rightarrow> int \<Rightarrow> int \<Rightarrow> (int \<times> int) res" where
  "normalizePagination deepMessage page0 limit0 =
     (let page = (if page0 = 0 then defaultPage else page0);
          limit = (if limit0 = 0 then defaultLimit else limit0)
      in if page < 1 then Inl (Validation ''page'' ''must be at least 1'')
         else if page > maxPage then Inl (Validation ''page'' deepMessage)
         else if limit < 1 \<or> limit > maxLimit
           then Inl (Validation ''limit'' ''must be between 1 and 100'')
         else Inr (page, limit))"

text \<open>\<^verbatim>\<open>values[offset:end]\<close> with \<^verbatim>\<open>end = min(offset+limit, total)\<close>, and the total.\<close>

definition page_slice :: "int \<Rightarrow> int \<Rightarrow> 'a list \<Rightarrow> 'a list \<times> int" where
  "page_slice offset limit xs =
     (let total = int (length xs) in
      if total \<le> offset then ([], total)
      else (take (nat (min (offset + limit) total - offset)) (drop (nat offset) xs), total))"

lemma normalizePagination_bounds:
  "normalizePagination m p l = Inr (page, limit) \<Longrightarrow>
     1 \<le> page \<and> page \<le> 1000 \<and> 1 \<le> limit \<and> limit \<le> 100"
  by (auto simp: normalizePagination_def Let_def maxPage_def maxLimit_def defaultPage_def
      defaultLimit_def split: if_splits)

lemma page_slice_length:
  "0 \<le> offset \<Longrightarrow> 0 \<le> limit \<Longrightarrow> int (length (fst (page_slice offset limit xs))) \<le> limit"
  by (auto simp: page_slice_def Let_def)

lemma page_slice_subset: "set (fst (page_slice offset limit xs)) \<subseteq> set xs"
  by (auto simp: page_slice_def Let_def dest: in_set_takeD in_set_dropD)

lemma page_slice_take_drop:
  assumes "0 \<le> offset" "0 \<le> limit"
  shows "fst (page_slice offset limit xs) = take (nat limit) (drop (nat offset) xs)"
proof (cases "int (length xs) \<le> offset")
  case True
  then have "length xs \<le> nat offset" by linarith
  with True show ?thesis by (simp add: page_slice_def)
next
  case False
  show ?thesis
  proof (cases "offset + limit \<le> int (length xs)")
    case True
    have "offset + limit - offset = limit" by simp
    with False True show ?thesis by (simp only: page_slice_def Let_def min_def if_True if_False fst_conv)
  next
    case gt: False
    have "length (drop (nat offset) xs) = nat (int (length xs) - offset)"
      using assms False by (simp add: nat_diff_distrib)
    then have "length (drop (nat offset) xs) \<le> nat limit" using gt by linarith
    with False gt assms show ?thesis
      by (simp add: page_slice_def Let_def min_def nat_diff_distrib)
  qed
qed

section \<open>Generated identifiers are accepted\<close>

lemma hex_digit_hex: "n < 16 \<Longrightarrow> is_hex (hex_digit n) \<and> hex_digit n \<noteq> CHR ''-''"
proof -
  assume n: "n < 16"
  let ?k = "if n < 10 then 48 + n else 87 + n"
  have "of_char (hex_digit n) = ?k" using n by (simp add: hex_digit_def of_char_of)
  moreover have "(of_char (CHR ''-'') :: nat) = 45" by simp
  moreover have "?k \<noteq> 45" using n by simp
  ultimately have "hex_digit n \<noteq> CHR ''-''" by metis
  moreover have "is_hex (hex_digit n)"
    using n \<open>of_char (hex_digit n) = ?k\<close> by (simp add: is_hex_def)
  ultimately show ?thesis by blast
qed

lemma hex_bytes_props:
  "length (hex_bytes bs) = 2 * length bs" "list_all is_hex (hex_bytes bs)"
  "CHR ''-'' \<notin> set (hex_bytes bs)"
proof -
  have d: "unat b div 16 < 16" "unat b mod 16 < 16" for b :: byte
    using unsigned_less [of b, where ?'a = nat] by simp_all
  show "length (hex_bytes bs) = 2 * length bs"
    by (induction bs) (simp_all add: hex_bytes_def hex_byte_def)
  show "list_all is_hex (hex_bytes bs)"
    by (induction bs) (simp_all add: hex_bytes_def hex_byte_def hex_digit_hex d)
  show "CHR ''-'' \<notin> set (hex_bytes bs)"
  proof (induction bs)
    case (Cons b bs)
    have "hex_digit (unat b div 16) \<noteq> CHR ''-''" "hex_digit (unat b mod 16) \<noteq> CHR ''-''"
      using hex_digit_hex [OF d(1)] hex_digit_hex [OF d(2)] by blast+
    with Cons show ?case by (auto simp: hex_bytes_def hex_byte_def)
  qed (simp add: hex_bytes_def)
qed


lemma nth_dash_blocks:
  assumes "length a = 8" "length b = 4" "length c = 4" "length d = 4" "length e = 12"
  shows "length (a @ ''-'' @ b @ ''-'' @ c @ ''-'' @ d @ ''-'' @ e) = 36"
    and "\<forall>i \<in> {8, 13, 18, 23}. (a @ ''-'' @ b @ ''-'' @ c @ ''-'' @ d @ ''-'' @ e) ! i = CHR ''-''"
  using assms by (simp_all add: nth_append)

lemma uuid_chars:
  "uuidText s \<Longrightarrow> c \<in> set s \<Longrightarrow> is_hex c \<or> c = CHR ''-''"
  "isUUID s \<Longrightarrow> c \<in> set s \<Longrightarrow> is_hex c \<or> c = CHR ''-''"
proof -
  show "is_hex c \<or> c = CHR ''-''" if u: "uuidText s" and c: "c \<in> set s"
  proof -
    have len: "length s = 36" using u unfolding uuidText_def by blast
    obtain i where i: "i < length s" "s ! i = c" using c unfolding in_set_conv_nth by blast
    then have "i \<in> set [0..<36]" unfolding len by simp
    then have "if i = 8 \<or> i = 13 \<or> i = 18 \<or> i = 23 then s ! i = CHR ''-'' else is_hex (s ! i)"
      using u unfolding uuidText_def list_all_iff by blast
    then show ?thesis unfolding i(2) by metis
  qed
  show "is_hex c \<or> c = CHR ''-''" if "isUUID s" "c \<in> set s"
    using that by (auto simp: isUUID_def hex_decodes_def list_all_iff split: if_splits)
qed

lemma printable_hex: "is_hex c \<or> c = CHR ''-'' \<Longrightarrow> printable c"
  by (auto simp: is_hex_def printable_def Let_def)

lemma printable_uuid: "uuidText s \<or> isUUID s \<Longrightarrow> list_all printable s"
  using uuid_chars printable_hex unfolding list_all_iff by blast

lemma isUUID_uuid_string:
  assumes "length bs = 16"
  shows "isUUID (uuid_string bs)"
proof -
  let ?a = "hex_bytes (take 4 bs)" and ?b = "hex_bytes (take 2 (drop 4 bs))"
    and ?c = "hex_bytes (take 2 (drop 6 bs))" and ?d = "hex_bytes (take 2 (drop 8 bs))"
    and ?e = "hex_bytes (take 6 (drop 10 bs))"
  have len: "length ?a = 8" "length ?b = 4" "length ?c = 4" "length ?d = 4" "length ?e = 12"
    using assms by (simp_all add: hex_bytes_props(1))
  have f: "filter (\<lambda>c. c \<noteq> CHR ''-'') (hex_bytes xs) = hex_bytes xs" for xs
    using hex_bytes_props(3) [of xs] by (auto intro: filter_True)
  have "filter (\<lambda>c. c \<noteq> CHR ''-'') (uuid_string bs) = ?a @ ?b @ ?c @ ?d @ ?e"
    unfolding uuid_string_def by (simp add: f)
  moreover have "hex_decodes (?a @ ?b @ ?c @ ?d @ ?e)"
    using len by (simp add: hex_decodes_def hex_bytes_props(2))
  moreover have "length (uuid_string bs) = 36"
    "\<forall>i \<in> {8, 13, 18, 23}. uuid_string bs ! i = CHR ''-''"
    unfolding uuid_string_def by (rule nth_dash_blocks [OF len])+
  ultimately show ?thesis by (simp add: isUUID_def)
qed

lemma generateUUID_valid:
  "generateUUID random = (Inr v, rest) \<Longrightarrow> isUUID v \<and> rest = drop 16 random"
  by (auto simp: generateUUID_def readFull_def Let_def intro!: isUUID_uuid_string
      split: if_splits)

lemma generateUUID_enough:
  "16 \<le> length random \<Longrightarrow> \<exists>v. generateUUID random = (Inr v, drop 16 random)"
  by (simp add: generateUUID_def readFull_def Let_def)

end
