(* ===== verification/OrderRepo.thy ===== *)
theory OrderRepo
  imports DomainTypes
begin

text \<open>
  \<^verbatim>\<open>internal/order/memory_repository.go\<close>, \<^verbatim>\<open>repository.go\<close>, \<^verbatim>\<open>collateral.go\<close> and the unit
  helpers of \<^verbatim>\<open>order.go\<close>: the in-memory order store with its price-time-priority matching.
  The store is the association list of the Go map from order identifiers to the structs;
  a pointer to a stored order is its key, read and written through the store, so that
  what a panic in the middle of a match leaves behind is visible.
\<close>

type_synonym orders = "(string \<times> order) list"

section \<open>Stored units\<close>

definition storedShareUnits :: "float64 \<Rightarrow> int res" where
  "storedShareUnits value =
     (if f_eq value (Fin 0) then Inr 0
      else case SharesFromFloat value of
          Inl err \<Rightarrow> Inl (Panic ''stored shares'')
        | Inr units \<Rightarrow> Inr units)"

definition storedPriceUnits :: "float64 \<Rightarrow> int res" where
  "storedPriceUnits value =
     (case PriceFromFloat value of Inl err \<Rightarrow> Inl (Panic ''stored price'') | Inr units \<Rightarrow> Inr units)"

definition remainingUnits :: "float64 \<Rightarrow> float64 \<Rightarrow> int res" where
  "remainingUnits amount filled =
     bind_res (storedShareUnits amount) (\<lambda>a. bind_res (storedShareUnits filled) (\<lambda>f. Inr (i64 (a - f))))"

definition remainingShares :: "float64 \<Rightarrow> float64 \<Rightarrow> float64 res" where
  "remainingShares amount filled = bind_res (remainingUnits amount filled) (\<lambda>u. Inr (SharesToFloat u))"

text \<open>\<^verbatim>\<open>panic(err)\<close> on the error of a conversion.\<close>

definition must :: "'a res \<Rightarrow> 'a res" where
  "must r = (case r of Inl err \<Rightarrow> Inl (Panic ''fixed-point value is out of range'') | Inr x \<Rightarrow> Inr x)"

definition requiredCollateralCents :: "string \<Rightarrow> float64 \<Rightarrow> float64 \<Rightarrow> int res" where
  "requiredCollateralCents side shares price =
     bind_res (storedShareUnits shares) (\<lambda>shareUnits.
     bind_res (storedPriceUnits price) (\<lambda>priceUnits.
       must (CollateralCents side shareUnits priceUnits)))"

definition priceImprovementRefundCents ::
  "string \<Rightarrow> float64 \<Rightarrow> float64 \<Rightarrow> float64 \<Rightarrow> int res" where
  "priceImprovementRefundCents side shares limitPrice matchedPrice =
     bind_res (storedShareUnits shares) (\<lambda>shareUnits.
     bind_res (storedPriceUnits limitPrice) (\<lambda>limitUnits.
     bind_res (storedPriceUnits matchedPrice) (\<lambda>matchedUnits.
       must (PriceImprovementCents side shareUnits limitUnits matchedUnits))))"

definition requiredCollateral :: "string \<Rightarrow> float64 \<Rightarrow> float64 \<Rightarrow> float64 res" where
  "requiredCollateral side shares price =
     bind_res (requiredCollateralCents side shares price) (\<lambda>c. Inr (CentsToFloat c))"

definition priceImprovementRefund ::
  "string \<Rightarrow> float64 \<Rightarrow> float64 \<Rightarrow> float64 \<Rightarrow> float64 res" where
  "priceImprovementRefund side shares limitPrice matchedPrice =
     bind_res (priceImprovementRefundCents side shares limitPrice matchedPrice)
       (\<lambda>c. Inr (CentsToFloat c))"

section \<open>Matching\<close>

definition is_open :: "order \<Rightarrow> bool" where
  "is_open v \<longleftrightarrow> o_Status v = ''pending'' \<or> o_Status v = ''partial''"

definition sameBook :: "order \<Rightarrow> order \<Rightarrow> bool" where
  "sameBook v w \<longleftrightarrow> o_MerchantID v = o_MerchantID w \<and> o_MarketID v = o_MarketID w
     \<and> o_Option v = o_Option w \<and> o_Currency v = o_Currency w"

definition crosses :: "order \<Rightarrow> order \<Rightarrow> bool" where
  "crosses incoming v = (if o_Type incoming = ''sell'' then f_le (o_Price incoming) (o_Price v)
     else o_Type incoming = ''buy'' \<and> f_le (o_Price v) (o_Price incoming))"

definition isCandidate :: "order \<Rightarrow> order \<Rightarrow> bool" where
  "isCandidate incoming v \<longleftrightarrow> o_ID v \<noteq> o_ID incoming \<and> is_open v \<and> sameBook v incoming
     \<and> (o_UserID v \<noteq> o_UserID incoming \<and> o_Type v \<noteq> o_Type incoming) \<and> crosses incoming v"

definition betterMaker :: "string \<Rightarrow> order \<Rightarrow> order \<Rightarrow> bool" where
  "betterMaker side a b =
     (if f_eq (o_Price a) (o_Price b)
      then (if o_CreatedAt a = o_CreatedAt b then o_ID a < o_ID b else o_CreatedAt a < o_CreatedAt b)
      else if side = ''buy'' then f_lt (o_Price a) (o_Price b)
      else f_lt (o_Price b) (o_Price a))"

definition matchingCandidates :: "order \<Rightarrow> orders \<Rightarrow> order list" where
  "matchingCandidates incoming byID =
     sort_by (betterMaker (o_Type incoming)) (filter (isCandidate incoming) (map snd byID))"

definition updateOrderFillStatus :: "time \<Rightarrow> order \<Rightarrow> unit res \<times> order" where
  "updateOrderFillStatus filledAt v =
     (case storedShareUnits (o_FilledAmount v) of
        Inl err \<Rightarrow> (Inl err, v)
      | Inr filled \<Rightarrow>
          if filled = 0 then (Inr (), v\<lparr>o_Status := ''pending''\<rparr>)
          else (case storedShareUnits (o_Amount v) of
              Inl err \<Rightarrow> (Inl err, v)
            | Inr amount \<Rightarrow>
                if filled < amount then (Inr (), v\<lparr>o_Status := ''partial''\<rparr>)
                else (Inr (), v\<lparr>o_FilledAmount := SharesToFloat amount, o_Status := ''filled'',
                        o_FilledAt := Some filledAt\<rparr>)))"

text \<open>
  One iteration of the match: \<open>rem\<close> is the taker's remaining units. The result is the
  refund of the fill with the two structs as they are left.
\<close>

definition fillMaker :: "int \<Rightarrow> order \<Rightarrow> order \<Rightarrow> int res \<times> order \<times> order" where
  "fillMaker rem stored maker =
     (case remainingUnits (o_Amount maker) (o_FilledAmount maker) of
        Inl err \<Rightarrow> (Inl err, stored, maker)
      | Inr makerRemaining \<Rightarrow>
          let fillAmount = min rem makerRemaining in
          (case priceImprovementRefundCents (o_Type stored) (SharesToFloat fillAmount)
              (o_Price stored) (o_Price maker) of
            Inl err \<Rightarrow> (Inl err, stored, maker)
          | Inr refund \<Rightarrow> (case storedShareUnits (o_FilledAmount maker) of
              Inl err \<Rightarrow> (Inl err, stored, maker)
            | Inr mf \<Rightarrow>
                let maker1 = maker\<lparr>o_FilledAmount := SharesToFloat (i64 (mf + fillAmount))\<rparr> in
                (case storedShareUnits (o_FilledAmount stored) of
                  Inl err \<Rightarrow> (Inl err, stored, maker1)
                | Inr sf \<Rightarrow>
                    let stored1 = stored\<lparr>o_FilledAmount := SharesToFloat (i64 (sf + fillAmount))\<rparr> in
                    (case updateOrderFillStatus (o_CreatedAt stored1) maker1 of
                      (Inl err, maker2) \<Rightarrow> (Inl err, stored1, maker2)
                    | (Inr _, maker2) \<Rightarrow> (Inr refund, stored1, maker2))))))"

fun matchLoop :: "string \<Rightarrow> string list \<Rightarrow> int \<Rightarrow> orders \<Rightarrow> int res \<times> orders" where
  "matchLoop sid [] refund byID = (Inr refund, byID)"
| "matchLoop sid (mid # makers) refund byID =
     (case map_of byID sid of
        None \<Rightarrow> (Inl (Panic ''nil pointer''), byID)
      | Some stored \<Rightarrow> (case remainingUnits (o_Amount stored) (o_FilledAmount stored) of
          Inl err \<Rightarrow> (Inl err, byID)
        | Inr rem \<Rightarrow>
            if rem = 0 then (Inr refund, byID)
            else (case map_of byID mid of
                None \<Rightarrow> (Inl (Panic ''nil pointer''), byID)
              | Some maker \<Rightarrow> (case fillMaker rem stored maker of
                  (r, stored', maker') \<Rightarrow>
                    let byID' = put mid maker' (put sid stored' byID) in
                    (case r of
                      Inl err \<Rightarrow> (Inl err, byID')
                    | Inr c \<Rightarrow> matchLoop sid makers (i64 (refund + c)) byID')))))"

text \<open>The taker's own status after the match, and the IOC rule.\<close>

definition settleTaker :: "order \<Rightarrow> unit res \<times> order" where
  "settleTaker stored =
     (case updateOrderFillStatus (o_CreatedAt stored) stored of
        (Inl err, s1) \<Rightarrow> (Inl err, s1)
      | (Inr _, s1) \<Rightarrow>
          if o_TimeInForce s1 = ''ioc'' then
            (case storedShareUnits (o_FilledAmount s1) of
              Inl err \<Rightarrow> (Inl err, s1)
            | Inr filled \<Rightarrow> (case storedShareUnits (o_Amount s1) of
                Inl err \<Rightarrow> (Inl err, s1)
              | Inr amount \<Rightarrow>
                  if filled < amount then (Inr (), s1\<lparr>o_Status := ''cancelled''\<rparr>) else (Inr (), s1)))
          else (Inr (), s1))"

definition idempotencyTaken :: "string \<Rightarrow> string \<Rightarrow> orders \<Rightarrow> bool" where
  "idempotencyTaken merchantID key byID \<longleftrightarrow>
     list_ex (\<lambda>(i, v). o_MerchantID v = merchantID \<and> o_IdempotencyKey v = key) byID"

text \<open>
  \<^verbatim>\<open>Place\<close> returns the refund and writes the stored order back into the caller's struct;
  the model returns both. A maker is named by its identifier, its key in the map.
\<close>

definition orderRepoPlace :: "bool \<Rightarrow> order \<Rightarrow> orders \<Rightarrow> (float64 \<times> order) res \<times> orders" where
  "orderRepoPlace ctxDone incoming byID =
     (if ctxDone then (Inl CtxErr, byID)
      else if map_of byID (o_ID incoming) \<noteq> None then (Inl (Sentinel OrderErrAlreadyExists), byID)
      else if o_IdempotencyKey incoming \<noteq> []
           \<and> idempotencyTaken (o_MerchantID incoming) (o_IdempotencyKey incoming) byID
        then (Inl (Sentinel OrderErrAlreadyExists), byID)
      else
        let sid = o_ID incoming;
            byID1 = put sid incoming byID;
            candidates = map o_ID (matchingCandidates incoming byID1)
        in (case matchLoop sid candidates 0 byID1 of
              (Inl err, byID2) \<Rightarrow> (Inl err, byID2)
            | (Inr refund, byID2) \<Rightarrow> (case map_of byID2 sid of
                None \<Rightarrow> (Inl (Panic ''nil pointer''), byID2)
              | Some stored \<Rightarrow> (case settleTaker stored of
                  (r, stored') \<Rightarrow>
                    let byID3 = put sid stored' byID2 in
                    (case r of
                      Inl err \<Rightarrow> (Inl err, byID3)
                    | Inr _ \<Rightarrow> (Inr (CentsToFloat refund, stored'), byID3))))))"

section \<open>Lookup and lists\<close>

definition orderRepoGet :: "bool \<Rightarrow> string \<Rightarrow> orders \<Rightarrow> order res" where
  "orderRepoGet ctxDone orderID byID =
     (if ctxDone then Inl CtxErr
      else case map_of byID orderID of None \<Rightarrow> Inl (Sentinel OrderErrNotFound) | Some v \<Rightarrow> Inr v)"

definition orderRepoGetByIdempotency :: "bool \<Rightarrow> string \<Rightarrow> string \<Rightarrow> orders \<Rightarrow> order res" where
  "orderRepoGetByIdempotency ctxDone merchantID key byID =
     (if ctxDone then Inl CtxErr
      else case find (\<lambda>(i, v). o_MerchantID v = merchantID \<and> o_IdempotencyKey v = key) byID of
          None \<Rightarrow> Inl (Sentinel OrderErrNotFound)
        | Some (i, v) \<Rightarrow> Inr v)"

record listFilters =
  lf_MerchantID :: string
  lf_UserID :: string
  lf_MarketID :: string
  lf_Status :: string
  lf_Cursor :: string
  lf_Page :: int
  lf_Limit :: int

record cursor =
  cu_CreatedAt :: time
  cu_ID :: string

definition matchesOrderFilters :: "order \<Rightarrow> listFilters \<Rightarrow> bool" where
  "matchesOrderFilters v filters \<longleftrightarrow>
     (lf_MerchantID filters = [] \<or> o_MerchantID v = lf_MerchantID filters)
     \<and> (lf_UserID filters = [] \<or> o_UserID v = lf_UserID filters)
     \<and> (lf_MarketID filters = [] \<or> o_MarketID v = lf_MarketID filters)
     \<and> (lf_Status filters = [] \<or> o_Status v = lf_Status filters)"

definition ordersNewestFirst :: "order \<Rightarrow> order \<Rightarrow> bool" where
  "ordersNewestFirst a b = (if o_CreatedAt a = o_CreatedAt b then o_ID a < o_ID b
     else o_CreatedAt b < o_CreatedAt a)"

definition ordersCursorFirst :: "order \<Rightarrow> order \<Rightarrow> bool" where
  "ordersCursorFirst a b = (if o_CreatedAt a = o_CreatedAt b then o_ID b < o_ID a
     else o_CreatedAt b < o_CreatedAt a)"

definition orderRepoList :: "bool \<Rightarrow> listFilters \<Rightarrow> orders \<Rightarrow> (order list \<times> int) res" where
  "orderRepoList ctxDone filters byID =
     (if ctxDone then Inl CtxErr
      else Inr (page_slice ((lf_Page filters - 1) * lf_Limit filters) (lf_Limit filters)
        (sort_by ordersNewestFirst (filter (\<lambda>v. matchesOrderFilters v filters) (map snd byID)))))"

definition afterCursor :: "order \<Rightarrow> cursor option \<Rightarrow> bool" where
  "afterCursor v c = (case c of
      None \<Rightarrow> True
    | Some cur \<Rightarrow> if o_CreatedAt v = cu_CreatedAt cur then o_ID v < cu_ID cur
        else o_CreatedAt v < cu_CreatedAt cur)"

definition orderRepoListAfter ::
  "bool \<Rightarrow> listFilters \<Rightarrow> cursor option \<Rightarrow> orders \<Rightarrow> order list res" where
  "orderRepoListAfter ctxDone filters c byID =
     (if ctxDone then Inl CtxErr
      else let values = sort_by ordersCursorFirst
            (filter (\<lambda>v. matchesOrderFilters v filters \<and> afterCursor v c) (map snd byID))
        in Inr (if int (length values) > lf_Limit filters + 1
                then take (nat (lf_Limit filters + 1)) values else values))"

section \<open>Cancel\<close>

definition orderRepoCancel :: "bool \<Rightarrow> string \<Rightarrow> orders \<Rightarrow> (order \<times> float64) res \<times> orders" where
  "orderRepoCancel ctxDone orderID byID =
     (if ctxDone then (Inl CtxErr, byID)
      else case map_of byID orderID of
          None \<Rightarrow> (Inl (Sentinel OrderErrNotFound), byID)
        | Some v \<Rightarrow>
            if o_Status v \<noteq> ''pending'' \<and> o_Status v \<noteq> ''partial''
            then (Inl (Sentinel OrderErrNotCancellable), byID)
            else (case remainingShares (o_Amount v) (o_FilledAmount v) of
                Inl err \<Rightarrow> (Inl err, byID)
              | Inr remaining \<Rightarrow>
                  let v' = v\<lparr>o_Status := ''cancelled''\<rparr>
                  in (Inr (v', remaining), put orderID v' byID)))"

section \<open>The order book\<close>

record orderBookEntry =
  be_Option :: string
  be_Price :: float64
  be_Amount :: float64
  be_Orders :: int

record orderBook =
  ob_MarketID :: string
  ob_Bids :: "orderBookEntry list"
  ob_Asks :: "orderBookEntry list"

type_synonym bookLevelKey = "string \<times> float64"
type_synonym levels = "(bookLevelKey \<times> orderBookEntry) list"

definition addToLevel :: "order \<Rightarrow> levels \<Rightarrow> levels res" where
  "addToLevel v levels =
     (let key = (o_Option v, o_Price v);
          entry = (case map_of levels key of
            None \<Rightarrow> \<lparr>be_Option = o_Option v, be_Price = o_Price v, be_Amount = Fin 0, be_Orders = 0\<rparr>
          | Some entry \<Rightarrow> entry)
      in bind_res (storedShareUnits (be_Amount entry)) (\<lambda>e.
         bind_res (storedShareUnits (o_Amount v)) (\<lambda>a.
         bind_res (storedShareUnits (o_FilledAmount v)) (\<lambda>f.
           Inr (put key (entry\<lparr>be_Amount := SharesToFloat (i64 (i64 (e + a) - f)),
             be_Orders := be_Orders entry + 1\<rparr>) levels)))))"

fun collectLevels :: "string \<Rightarrow> orders \<Rightarrow> levels \<Rightarrow> levels \<Rightarrow> (levels \<times> levels) res" where
  "collectLevels marketID [] bids asks = Inr (bids, asks)"
| "collectLevels marketID ((i, v) # rest) bids asks =
     (if o_MarketID v \<noteq> marketID \<or> \<not> is_open v then collectLevels marketID rest bids asks
      else if o_Type v = ''sell''
        then bind_res (addToLevel v asks) (\<lambda>asks'. collectLevels marketID rest bids asks')
      else bind_res (addToLevel v bids) (\<lambda>bids'. collectLevels marketID rest bids' asks))"

definition levelBefore :: "bool \<Rightarrow> orderBookEntry \<Rightarrow> orderBookEntry \<Rightarrow> bool" where
  "levelBefore bids a b =
     (if be_Option a \<noteq> be_Option b then be_Option a < be_Option b
      else if bids then f_lt (be_Price b) (be_Price a) else f_lt (be_Price a) (be_Price b))"

definition sortedLevels :: "levels \<Rightarrow> bool \<Rightarrow> orderBookEntry list" where
  "sortedLevels levels bids = sort_by (levelBefore bids) (map snd levels)"

definition orderRepoGetOrderBook :: "bool \<Rightarrow> string \<Rightarrow> orders \<Rightarrow> orderBook res" where
  "orderRepoGetOrderBook ctxDone marketID byID =
     (if ctxDone then Inl CtxErr
      else bind_res (collectLevels marketID byID [] []) (\<lambda>(bids, asks).
        Inr \<lparr>ob_MarketID = marketID, ob_Bids = sortedLevels bids True,
             ob_Asks = sortedLevels asks False\<rparr>))"

end
