(* ===== verification/OrderMatching.thy ===== *)
theory OrderMatching
  imports OrderRepo
begin

text \<open>
  What the matching of \<open>OrderRepo\<close> computes, in integer units: the abstraction of an
  order to units, the specification \<open>allocate\<close> of the fills, the refinement of the match
  loop to it, and the invariant of the book.
\<close>

section \<open>Orders in units\<close>

text \<open>Below \<open>2 ^ 14\<close> shares the float of an amount converts back to its units.\<close>

definition shareCap :: int where "shareCap = 2 ^ 14 * 1000000"

definition shares :: "float64 \<Rightarrow> int \<Rightarrow> bool" where
  "shares f u \<longleftrightarrow> 0 \<le> u \<and> u < shareCap \<and> f = SharesToFloat u"

definition price :: "float64 \<Rightarrow> int \<Rightarrow> bool" where
  "price f p \<longleftrightarrow> 0 < p \<and> p < PriceScale \<and> f = PriceToFloat p"

definition units_of :: "float64 \<Rightarrow> int" where
  "units_of f = (case storedShareUnits f of Inl _ \<Rightarrow> 0 | Inr u \<Rightarrow> u)"

definition price_of :: "float64 \<Rightarrow> int" where
  "price_of f = (case storedPriceUnits f of Inl _ \<Rightarrow> 0 | Inr p \<Rightarrow> p)"

definition amt :: "order \<Rightarrow> int" where "amt v = units_of (o_Amount v)"
definition fil :: "order \<Rightarrow> int" where "fil v = units_of (o_FilledAmount v)"
definition rem :: "order \<Rightarrow> int" where "rem v = amt v - fil v"
definition prc :: "order \<Rightarrow> int" where "prc v = price_of (o_Price v)"

lemma SharesToFloat_0 [simp]: "SharesToFloat 0 = Fin 0"
  by (simp add: SharesToFloat_def f_of_int_exact scale_defs)

lemma f_eq_Fin_0: "f_eq f (Fin 0) \<longleftrightarrow> f = Fin 0"
  by (cases f) auto

lemma storedShareUnits_0 [simp]: "storedShareUnits (Fin 0) = Inr 0"
  by (simp add: storedShareUnits_def)

lemma storedShareUnits_SharesToFloat:
  assumes "0 \<le> u" "u < shareCap"
  shows "storedShareUnits (SharesToFloat u) = Inr u"
proof (cases "u = 0")
  case True
  then show ?thesis by (simp add: storedShareUnits_def)
next
  case False
  with assms have r: "SharesFromFloat (SharesToFloat u) = Inr u"
    by (intro SharesFromFloat_SharesToFloat) (simp_all add: shareCap_def)
  moreover have "SharesToFloat u \<noteq> Fin 0"
  proof
    assume "SharesToFloat u = Fin 0"
    with r show False by (simp add: SharesFromFloat_def scaledFromFloat_def f_le_def)
  qed
  ultimately show ?thesis by (simp add: storedShareUnits_def f_eq_Fin_0)
qed

lemma shares_stored: "shares f u \<Longrightarrow> storedShareUnits f = Inr u"
  by (simp add: shares_def storedShareUnits_SharesToFloat)

lemma shares_SharesToFloat [simp, intro]: "0 \<le> u \<Longrightarrow> u < shareCap \<Longrightarrow> shares (SharesToFloat u) u"
  by (simp add: shares_def)

lemma units_of_shares: "shares f u \<Longrightarrow> units_of f = u"
  by (simp add: units_of_def shares_stored)

lemma price_stored: "price f p \<Longrightarrow> storedPriceUnits f = Inr p"
  by (simp add: price_def storedPriceUnits_def PriceFromFloat_PriceToFloat PriceScale_def)

lemma price_of_price: "price f p \<Longrightarrow> price_of f = p"
  by (simp add: price_of_def price_stored)

lemma price_compare:
  assumes "price f p" "price g q"
  shows "f_lt f g \<longleftrightarrow> p < q" "f_eq f g \<longleftrightarrow> p = q" "f_le f g \<longleftrightarrow> p \<le> q"
proof -
  show l: "f_lt f g \<longleftrightarrow> p < q" and e: "f_eq f g \<longleftrightarrow> p = q"
    using assms by (simp_all add: price_def PriceScale_def PriceToFloat_lt_iff PriceToFloat_eq_iff)
  show "f_le f g \<longleftrightarrow> p \<le> q" by (auto simp: f_le_def l e)
qed

lemma i64_shares: "\<bar>x\<bar> \<le> 4 * shareCap \<Longrightarrow> i64 x = x"
  by (rule i64_small) (simp add: shareCap_def)

lemma remainingUnits_shares:
  "shares a u \<Longrightarrow> shares f w \<Longrightarrow> remainingUnits a f = Inr (u - w)"
  by (simp add: remainingUnits_def shares_stored) (auto intro!: i64_shares simp: shares_def)

text \<open>A stored order whose numbers are exact; \<open>order_ok\<close> adds the meaning of its status.\<close>

definition exact :: "order \<Rightarrow> bool" where
  "exact v \<longleftrightarrow> shares (o_Amount v) (amt v) \<and> shares (o_FilledAmount v) (fil v)
     \<and> price (o_Price v) (prc v) \<and> fil v \<le> amt v \<and> 0 < amt v
     \<and> (o_Type v = ''buy'' \<or> o_Type v = ''sell'')"

definition status_ok :: "order \<Rightarrow> bool" where
  "status_ok v \<longleftrightarrow> (o_Status v = ''pending'' \<and> fil v = 0)
     \<or> (o_Status v = ''partial'' \<and> 0 < fil v \<and> fil v < amt v)
     \<or> (o_Status v = ''filled'' \<and> fil v = amt v)
     \<or> (o_Status v = ''cancelled'' \<and> fil v < amt v)"

definition order_ok :: "order \<Rightarrow> bool" where
  "order_ok v \<longleftrightarrow> exact v \<and> status_ok v"

lemma exactI:
  assumes "shares (o_Amount v) a" "shares (o_FilledAmount v) f" "price (o_Price v) p" "f \<le> a" "0 < a"
    "o_Type v = ''buy'' \<or> o_Type v = ''sell''"
  shows "exact v" "amt v = a" "fil v = f" "prc v = p"
  using assms by (simp_all add: exact_def amt_def fil_def prc_def units_of_shares price_of_price)

lemma exact_rem: "exact v \<Longrightarrow> remainingUnits (o_Amount v) (o_FilledAmount v) = Inr (rem v)"
  by (simp add: exact_def remainingUnits_shares rem_def)

lemma rem_bounds: "exact v \<Longrightarrow> 0 \<le> rem v \<and> rem v < shareCap"
  by (auto simp: exact_def rem_def shares_def)

lemma open_rem: "order_ok v \<Longrightarrow> is_open v \<Longrightarrow> 0 < rem v"
  by (auto simp: order_ok_def status_ok_def is_open_def rem_def exact_def)

section \<open>One fill\<close>

definition refund_of :: "order \<Rightarrow> order \<Rightarrow> int \<Rightarrow> int" where
  "refund_of taker maker x =
     (let d = (if o_Type taker = ''sell'' then prc maker - prc taker else prc taker - prc maker)
      in if d \<le> 0 then 0 else half_up (x * d * 100) (10 ^ 12))"

definition add_fill :: "int \<Rightarrow> order \<Rightarrow> order" where
  "add_fill x v = v\<lparr>o_FilledAmount := SharesToFloat (fil v + x)\<rparr>"

definition apply_fill :: "time \<Rightarrow> int \<Rightarrow> order \<Rightarrow> order" where
  "apply_fill t x v =
     (if x = 0 then v
      else if fil v + x < amt v then (add_fill x v)\<lparr>o_Status := ''partial''\<rparr>
      else (add_fill x v)\<lparr>o_Status := ''filled'', o_FilledAt := Some t\<rparr>)"

lemma half_up_le:
  assumes "0 \<le> x" "0 \<le> d" "d \<le> 1000000"
  shows "half_up (x * d * 100) (10 ^ 12) \<le> x"
proof -
  have "x * d * 100 \<le> x * 10 ^ 12"
    using assms mult_left_mono [of d 10000000000 x] by (simp add: mult.commute)
  then have "half_up (x * d * 100) (10 ^ 12) \<le> half_up (x * 10 ^ 12) (10 ^ 12)"
    by (intro half_up_mono) simp_all
  also have "\<dots> = x" by simp
  finally show ?thesis .
qed

lemma refund_bounds:
  assumes "exact taker" "exact maker" "0 \<le> x"
  shows "0 \<le> refund_of taker maker x \<and> refund_of taker maker x \<le> x"
proof -
  have p: "0 < prc taker" "prc taker < 1000000" "0 < prc maker" "prc maker < 1000000"
    using assms by (auto simp: exact_def price_def PriceScale_def)
  show ?thesis
    using assms(3) p half_up_le [OF assms(3)] by (auto simp: refund_of_def Let_def intro: half_up_nonneg)
qed

lemma refund_correct:
  assumes "exact taker" "exact maker" "0 \<le> x" "x < shareCap"
  shows "priceImprovementRefundCents (o_Type taker) (SharesToFloat x) (o_Price taker) (o_Price maker)
    = Inr (refund_of taker maker x)"
proof -
  have p: "price (o_Price taker) (prc taker)" "price (o_Price maker) (prc maker)"
    using assms by (simp_all add: exact_def)
  then have b: "0 < prc taker" "prc taker < 1000000" "0 < prc maker" "prc maker < 1000000"
    by (auto simp: price_def PriceScale_def)
  have i: "i64 (prc maker - prc taker) = prc maker - prc taker"
    "i64 (prc taker - prc maker) = prc taker - prc maker"
    using b by (auto intro!: i64_small)
  have "valid_shares x" using assms(3,4) by (simp add: valid_shares_def shareCap_def maxShareUnits_def)
  then have pr: "productCents x d = Inr (half_up (x * d * 100) (10 ^ 12))" if "0 \<le> d" "d \<le> 1000000" for d
    using that by (intro productCents_spec) (simp_all add: valid_price_def PriceScale_def)
  show ?thesis
    using assms(3,4) b
    by (auto simp: priceImprovementRefundCents_def price_stored [OF p(1)] price_stored [OF p(2)]
        storedShareUnits_SharesToFloat PriceImprovementCents_def i refund_of_def must_def pr Let_def)
qed

lemma add_fill_exact:
  assumes "exact v" "0 \<le> x" "x \<le> rem v"
  shows "exact (add_fill x v)" "amt (add_fill x v) = amt v" "fil (add_fill x v) = fil v + x"
    "prc (add_fill x v) = prc v" "rem (add_fill x v) = rem v - x"
proof -
  have s: "shares (SharesToFloat (fil v + x)) (fil v + x)"
    using assms by (auto simp: exact_def shares_def rem_def)
  show *: "amt (add_fill x v) = amt v" "fil (add_fill x v) = fil v + x" "prc (add_fill x v) = prc v"
    using units_of_shares [OF s] by (simp_all add: add_fill_def amt_def fil_def prc_def)
  show "rem (add_fill x v) = rem v - x" using * by (simp add: rem_def)
  show "exact (add_fill x v)"
    using assms s * unfolding exact_def by (simp add: add_fill_def rem_def)
qed

lemma fill_status:
  assumes "exact v" "0 < x" "x \<le> rem v"
  shows "updateOrderFillStatus t (add_fill x v) = (Inr (), apply_fill t x v)"
proof -
  note a = add_fill_exact [OF assms(1) _ assms(3)]
  have f: "storedShareUnits (o_FilledAmount (add_fill x v)) = Inr (fil v + x)"
    and am: "storedShareUnits (o_Amount (add_fill x v)) = Inr (amt v)"
    using a assms(2) by (auto simp: exact_def intro: shares_stored)
  have "fil v + x \<noteq> 0" using assms by (auto simp: exact_def shares_def)
  moreover have "fil v + x \<ge> amt v \<Longrightarrow> fil v + x = amt v" using assms(3) by (simp add: rem_def)
  ultimately show ?thesis
    using assms(2) f am by (auto simp: updateOrderFillStatus_def apply_fill_def add_fill_def)
qed

lemma fillMaker_correct:
  assumes "exact taker" "order_ok maker" "is_open maker" "0 < r" "r = rem taker"
    "x = min r (rem maker)"
  shows "fillMaker r taker maker
    = (Inr (refund_of taker maker x), add_fill x taker, apply_fill (o_CreatedAt taker) x maker)"
proof -
  have m: "exact maker" using assms(2) by (simp add: order_ok_def)
  have x: "0 < x" "x \<le> rem maker" "x \<le> rem taker" using open_rem [OF assms(2,3)] assms(4-6) by auto
  have cap: "x < shareCap" using x rem_bounds [OF m] by simp
  have mf: "storedShareUnits (o_FilledAmount maker) = Inr (fil maker)"
    and sf: "storedShareUnits (o_FilledAmount taker) = Inr (fil taker)"
    using m assms(1) by (auto simp: exact_def intro: shares_stored)
  have i: "i64 (fil maker + x) = fil maker + x" "i64 (fil taker + x) = fil taker + x"
    using m assms(1) x cap by (auto intro!: i64_shares simp: exact_def shares_def)
  show ?thesis
    using fill_status [OF m x(1,2), of "o_CreatedAt taker"] refund_correct [OF assms(1) m _ cap] x(1)
    by (simp add: fillMaker_def exact_rem [OF m] assms(6) [symmetric] mf sf i Let_def
        add_fill_def [of x maker, symmetric] add_fill_def [of x taker, symmetric])
      (simp add: add_fill_def)
qed

section \<open>The specification of a match\<close>

text \<open>Units go to the makers in order, each getting what is left up to what it offers.\<close>

fun allocate :: "int \<Rightarrow> int list \<Rightarrow> int list" where
  "allocate n [] = []"
| "allocate n (m # ms) = min n m # allocate (n - min n m) ms"

lemma length_allocate [simp]: "length (allocate n ms) = length ms"
  by (induction n ms rule: allocate.induct) auto

lemma allocate_0: "\<forall>m \<in> set ms. 0 \<le> m \<Longrightarrow> allocate 0 ms = replicate (length ms) 0"
  by (induction ms) auto

lemma allocate_sum: "0 \<le> n \<Longrightarrow> \<forall>m \<in> set ms. 0 \<le> m \<Longrightarrow> sum_list (allocate n ms) = min n (sum_list ms)"
proof (induction n ms rule: allocate.induct)
  case (2 n m ms)
  then have "sum_list (allocate (n - min n m) ms) = min (n - min n m) (sum_list ms)" by simp
  moreover have "0 \<le> sum_list ms" using 2(3) by (auto intro: sum_list_nonneg)
  ultimately show ?case using 2(2,3) by (simp add: min_def)
qed simp

lemma allocate_bounds:
  "0 \<le> n \<Longrightarrow> \<forall>m \<in> set ms. 0 \<le> m \<Longrightarrow> i < length ms \<Longrightarrow>
    0 \<le> allocate n ms ! i \<and> allocate n ms ! i \<le> ms ! i"
proof (induction n ms arbitrary: i rule: allocate.induct)
  case (2 n m ms)
  then show ?case by (cases i) auto
qed simp

lemma allocate_nonneg: "0 \<le> n \<Longrightarrow> \<forall>m \<in> set ms. 0 \<le> m \<Longrightarrow> \<forall>y \<in> set (allocate n ms). 0 \<le> y"
  by (induction n ms rule: allocate.induct) auto

text \<open>A maker gets something only when every maker before it is used up.\<close>

lemma allocate_priority:
  "0 \<le> n \<Longrightarrow> \<forall>m \<in> set ms. 0 \<le> m \<Longrightarrow> i < j \<Longrightarrow> j < length ms \<Longrightarrow> 0 < allocate n ms ! j \<Longrightarrow>
    allocate n ms ! i = ms ! i"
proof (induction n ms arbitrary: i j rule: allocate.induct)
  case (2 n m ms)
  obtain j' where j: "j = Suc j'" using 2(4) by (cases j) auto
  show ?case
  proof (cases i)
    case 0
    show ?thesis
    proof (rule ccontr)
      assume "allocate n (m # ms) ! i \<noteq> (m # ms) ! i"
      then have "n - min n m = 0" using 0 by (simp add: min_def split: if_splits)
      then have "allocate (n - min n m) ms = replicate (length ms) 0"
        using 2(3) allocate_0 [of ms] by simp
      then show False using 2(5,6) j by simp
    qed
  next
    case (Suc i')
    then show ?thesis using 2 j by auto
  qed
qed simp

text \<open>If the taker is not satisfied, every maker is used up.\<close>

lemma allocate_exhausts:
  "0 \<le> n \<Longrightarrow> \<forall>m \<in> set ms. 0 \<le> m \<Longrightarrow> sum_list (allocate n ms) < n \<Longrightarrow> allocate n ms = ms"
proof (induction n ms rule: allocate.induct)
  case (2 n m ms)
  have nn: "0 \<le> n - min n m" using 2(2) by simp
  have s: "sum_list (allocate (n - min n m) ms) = min (n - min n m) (sum_list ms)"
    using 2(3) nn by (intro allocate_sum) auto
  have "0 \<le> sum_list ms" using 2(3) by (auto intro: sum_list_nonneg)
  then have "\<not> n < m" using 2(2,4) s by auto
  then show ?case using 2 by simp
qed simp

section \<open>The match loop refines the specification\<close>

definition maker_ok :: "orders \<Rightarrow> string \<Rightarrow> bool" where
  "maker_ok os k \<longleftrightarrow> (\<exists>v. map_of os k = Some v \<and> order_ok v \<and> is_open v)"

definition look :: "orders \<Rightarrow> string \<Rightarrow> order" where
  "look os k = (case map_of os k of Some v \<Rightarrow> v | None \<Rightarrow> undefined)"

lemma maker_okD: "maker_ok os k \<Longrightarrow> map_of os k = Some (look os k) \<and> order_ok (look os k) \<and> is_open (look os k)"
  by (auto simp: maker_ok_def look_def)

definition match_fills :: "orders \<Rightarrow> order \<Rightarrow> string list \<Rightarrow> int list" where
  "match_fills os taker mids = allocate (rem taker) (map (\<lambda>k. rem (look os k)) mids)"

definition match_refund :: "orders \<Rightarrow> order \<Rightarrow> string list \<Rightarrow> int" where
  "match_refund os taker mids =
     (\<Sum>(k, x) \<leftarrow> zip mids (match_fills os taker mids). refund_of taker (look os k) x)"

text \<open>The store after a match, entry by entry.\<close>

definition matched :: "string \<Rightarrow> order \<Rightarrow> string list \<Rightarrow> int list \<Rightarrow> orders \<Rightarrow> string \<Rightarrow> order option" where
  "matched sid taker mids xs os k =
     (if k = sid then Some (if sum_list xs = 0 then taker else add_fill (sum_list xs) taker)
      else case map_of (zip mids xs) k of
          Some x \<Rightarrow> map_option (apply_fill (o_CreatedAt taker) x) (map_of os k)
        | None \<Rightarrow> map_of os k)"

lemma refund_of_0 [simp]: "refund_of taker maker 0 = 0"
  by (simp add: refund_of_def half_up_def Let_def)

lemma apply_fill_0 [simp]: "apply_fill t 0 v = v"
  by (simp add: apply_fill_def)

lemma add_fill_simps [simp]:
  "o_Type (add_fill x v) = o_Type v" "o_CreatedAt (add_fill x v) = o_CreatedAt v"
  "o_ID (add_fill x v) = o_ID v" "o_Status (add_fill x v) = o_Status v"
  "o_Price (add_fill x v) = o_Price v" "o_UserID (add_fill x v) = o_UserID v"
  "o_Amount (add_fill x v) = o_Amount v" "o_TimeInForce (add_fill x v) = o_TimeInForce v"
  by (simp_all add: add_fill_def)

lemma map_of_zip_replicate:
  "length ks = n \<Longrightarrow> map_of (zip ks (replicate n x)) k = (if k \<in> set ks then Some x else None)"
  by (induction ks arbitrary: n) auto

lemma matched_nothing:
  assumes "map_of os sid = Some taker" "n = length mids"
  shows "matched sid taker mids (replicate n 0) os = map_of os"
proof
  fix k
  have "map_option (apply_fill t 0) m = m" for t and m :: "order option" by (cases m) simp_all
  then show "matched sid taker mids (replicate n 0) os k = map_of os k"
    using assms by (simp add: matched_def map_of_zip_replicate sum_list_replicate)
qed

lemma match_refund_nothing:
  "(\<Sum>(k, x) \<leftarrow> zip mids (replicate n 0). refund_of taker (f k) x) = 0"
proof (induction mids arbitrary: n)
  case (Cons m mids)
  then show ?case by (cases n) simp_all
qed simp

text \<open>One step of the loop and the rest of it compose to the specification.\<close>

lemma matched_step:
  assumes "exact taker" "0 < x" "x \<le> rem taker" "sid \<noteq> mid" "mid \<notin> set mids" "sid \<notin> set mids"
    "map_of os mid = Some maker" "\<forall>y \<in> set xs. 0 \<le> y" "length xs = length mids"
    "os1 = put mid (apply_fill (o_CreatedAt taker) x maker) (put sid (add_fill x taker) os)"
  shows "matched sid (add_fill x taker) mids xs os1 = matched sid taker (mid # mids) (x # xs) os"
proof
  fix k
  have nn: "0 \<le> sum_list xs" using assms(8) by (auto intro: sum_list_nonneg)
  have two: "add_fill y (add_fill x taker) = add_fill (x + y) taker" for y
    using add_fill_exact(3) [OF assms(1) _ assms(3)] assms(2)
    by (simp add: add_fill_def [of y] add_fill_def [of "x + y"] ac_simps) (simp add: add_fill_def)
  have none: "map_of (zip mids xs) mid = None"
    using assms(5) by (auto simp: map_of_eq_None_iff dest: set_zip_leftD)
  show "matched sid (add_fill x taker) mids xs os1 k = matched sid taker (mid # mids) (x # xs) os k"
    using assms(2,4,6,7,10) nn none
    by (auto simp: matched_def two split: option.split)
qed

lemma look_put: "k \<noteq> k' \<Longrightarrow> look (put k' v os) k = look os k"
  by (simp add: look_def)

lemma maker_ok_put: "k \<noteq> k' \<Longrightarrow> maker_ok (put k' v os) k = maker_ok os k"
  by (simp add: maker_ok_def)

lemma matchLoop_spec:
  assumes "map_of os sid = Some taker" "exact taker" "distinct (sid # mids)"
    "\<forall>k \<in> set mids. maker_ok os k" "0 \<le> refund" "refund + rem taker \<le> 2 ^ 40"
  shows "\<exists>os'. matchLoop sid mids refund os = (Inr (refund + match_refund os taker mids), os')
    \<and> keys os' = keys os \<and> (distinct_keys os \<longrightarrow> distinct_keys os')
    \<and> map_of os' = matched sid taker mids (match_fills os taker mids) os"
  using assms
proof (induction mids arbitrary: os taker refund)
  case Nil
  then show ?case
    using matched_nothing [of os sid taker 0 "[]"] by (simp add: match_refund_def match_fills_def)
next
  case (Cons mid mids)
  define maker where "maker = look os mid"
  have mk: "map_of os mid = Some maker" "order_ok maker" "is_open maker"
    using maker_okD [of os mid] Cons.prems(4) by (simp_all add: maker_def)
  have pos: "\<forall>m \<in> set (map (\<lambda>k. rem (look os k)) (mid # mids)). 0 \<le> m"
    using Cons.prems(4) open_rem maker_okD by fastforce
  show ?case
  proof (cases "rem taker = 0")
    case True
    have "match_fills os taker (mid # mids) = replicate (Suc (length mids)) 0"
      using allocate_0 [OF pos] True by (simp add: match_fills_def del: list.map allocate.simps)
    moreover have "matched sid taker (mid # mids) (replicate (Suc (length mids)) 0) os = map_of os"
      by (rule matched_nothing [OF Cons.prems(1)]) simp
    ultimately show ?thesis
      using True Cons.prems(1) exact_rem [OF Cons.prems(2)]
        match_refund_nothing [where mids = "mid # mids"]
      by (simp add: match_refund_def del: replicate.simps(2))
  next
    case False
    define x where "x = min (rem taker) (rem maker)"
    define os1 where "os1 = put mid (apply_fill (o_CreatedAt taker) x maker) (put sid (add_fill x taker) os)"
    define taker1 where "taker1 = add_fill x taker"
    have r: "0 < rem taker" using False rem_bounds [OF Cons.prems(2)] by simp
    have x: "0 < x" "x \<le> rem taker" "x \<le> rem maker" using open_rem [OF mk(2,3)] r by (auto simp: x_def)
    note t1 = add_fill_exact [OF Cons.prems(2) less_imp_le [OF x(1)] x(2), folded taker1_def]
    have ne: "sid \<noteq> mid" "mid \<notin> set mids" "sid \<notin> set mids" "distinct (sid # mids)"
      using Cons.prems(3) by auto
    have look1: "look os1 k = look os k" "maker_ok os1 k" if "k \<in> set mids" for k
    proof -
      have "k \<noteq> mid" "k \<noteq> sid" using that ne by auto
      then show "look os1 k = look os k" "maker_ok os1 k"
        using that Cons.prems(4) by (simp_all add: os1_def look_put maker_ok_put)
    qed
    have c: "0 \<le> refund_of taker maker x" "refund_of taker maker x \<le> x"
      using refund_bounds [OF Cons.prems(2) _ less_imp_le [OF x(1)]] mk(2) by (simp_all add: order_ok_def)
    have i: "i64 (refund + refund_of taker maker x) = refund + refund_of taker maker x"
      using c x Cons.prems(5,6) by (intro i64_small) simp
    have step: "matchLoop sid (mid # mids) refund os = matchLoop sid mids (refund + refund_of taker maker x) os1"
      using Cons.prems(1) exact_rem [OF Cons.prems(2)] False mk(1) i
        fillMaker_correct [OF Cons.prems(2) mk(2,3) r refl x_def]
      by (simp add: os1_def Let_def)
    have "map_of os1 sid = Some taker1" using ne by (simp add: os1_def taker1_def)
    moreover have "0 \<le> refund + refund_of taker maker x"
      "refund + refund_of taker maker x + rem taker1 \<le> 2 ^ 40"
      using c Cons.prems(5,6) t1(5) by auto
    ultimately obtain os' where os': "matchLoop sid mids (refund + refund_of taker maker x) os1
        = (Inr (refund + refund_of taker maker x + match_refund os1 taker1 mids), os')"
      "keys os' = keys os1" "distinct_keys os1 \<longrightarrow> distinct_keys os'"
      "map_of os' = matched sid taker1 mids (match_fills os1 taker1 mids) os1"
      using Cons.IH [of os1 taker1] t1(1) ne(4) look1(2) by blast
    have fills: "match_fills os taker (mid # mids) = x # match_fills os1 taker1 mids"
      using look1 t1(5) by (simp add: match_fills_def x_def maker_def cong: map_cong)
    have same: "refund_of taker1 = refund_of taker"
      using t1(4) by (simp add: refund_of_def fun_eq_iff taker1_def)
    have "(\<Sum>(k, y) \<leftarrow> zip mids ys. refund_of taker (look os1 k) y)
      = (\<Sum>(k, y) \<leftarrow> zip mids ys. refund_of taker (look os k) y)" for ys
      by (intro arg_cong [of _ _ sum_list] map_cong) (auto simp: look1 dest: set_zip_leftD)
    then have refunds: "match_refund os taker (mid # mids)
      = refund_of taker maker x + match_refund os1 taker1 mids"
      unfolding match_refund_def fills by (simp add: maker_def same)
    have nn: "\<forall>y \<in> set (match_fills os1 taker1 mids). 0 \<le> y"
      unfolding match_fills_def
    proof (rule allocate_nonneg)
      show "0 \<le> rem taker1" using rem_bounds [OF t1(1)] by simp
      show "\<forall>m \<in> set (map (\<lambda>k. rem (look os1 k)) mids). 0 \<le> m" using look1 pos by simp
    qed
    have keys: "keys os1 = keys os"
      using map_of_None_keys [of os sid] map_of_None_keys [of os mid] Cons.prems(1) mk(1)
      by (auto simp: os1_def)
    show ?thesis
      using step os' refunds fills keys ne mk(1)
        matched_step [OF Cons.prems(2) x(1,2) ne(1-3) mk(1) nn _ os1_def]
      by (auto simp: taker1_def match_fills_def os1_def)
  qed
qed

section \<open>The maker order\<close>

text \<open>Better price first, then the older order, then the smaller identifier.\<close>

definition priced :: "order \<Rightarrow> bool" where
  "priced v \<longleftrightarrow> price (o_Price v) (prc v)"

lemma betterMaker_units:
  assumes "priced a" "priced b"
  shows "betterMaker side a b \<longleftrightarrow>
    (if prc a = prc b
     then (if o_CreatedAt a = o_CreatedAt b then o_ID a < o_ID b else o_CreatedAt a < o_CreatedAt b)
     else if side = ''buy'' then prc a < prc b else prc b < prc a)"
  using assms price_compare [of "o_Price a" "prc a" "o_Price b" "prc b"]
    price_compare [of "o_Price b" "prc b" "o_Price a" "prc a"]
  by (simp add: betterMaker_def priced_def)

interpretation makers: total_comparator "betterMaker side" priced o_ID for side
  by unfold_locales (auto simp: betterMaker_units split: if_splits)

interpretation newest: total_comparator ordersNewestFirst "\<lambda>_. True" o_ID
  by unfold_locales (auto simp: ordersNewestFirst_def split: if_splits)

interpretation cursors: total_comparator ordersCursorFirst "\<lambda>_. True" o_ID
  by unfold_locales (auto simp: ordersCursorFirst_def split: if_splits)

section \<open>The book\<close>

definition entries_ok :: "orders \<Rightarrow> bool" where
  "entries_ok os \<longleftrightarrow> distinct_keys os
     \<and> (\<forall>k v. map_of os k = Some v \<longrightarrow> o_ID v = k \<and> order_ok v)"

lemma entries_okD: "entries_ok os \<Longrightarrow> map_of os k = Some v \<Longrightarrow> o_ID v = k \<and> order_ok v"
  by (simp add: entries_ok_def)

lemma snd_entries: "entries_ok os \<Longrightarrow> v \<in> snd ` set os \<longleftrightarrow> map_of os (o_ID v) = Some v"
proof -
  assume e: "entries_ok os"
  have "v \<in> snd ` set os \<longleftrightarrow> (\<exists>k. (k, v) \<in> set os)" by force
  also have "\<dots> \<longleftrightarrow> (\<exists>k. map_of os k = Some v)" using e by (simp add: entries_ok_def in_set_map_of)
  also have "\<dots> \<longleftrightarrow> map_of os (o_ID v) = Some v" using e unfolding entries_ok_def by blast
  finally show ?thesis .
qed

lemma distinct_ids:
  assumes "distinct_keys os" "\<forall>k v. map_of os k = Some v \<longrightarrow> o_ID v = k"
  shows "distinct (map o_ID (map snd os))"
proof -
  have "map o_ID (map snd os) = map fst os"
    using assms by (auto simp: in_set_map_of [symmetric])
  then show ?thesis using assms(1) by (simp only: distinct_keys_def)
qed

lemma distinct_entry_ids: "entries_ok os \<Longrightarrow> distinct (map o_ID (map snd os))"
  by (rule distinct_ids) (simp_all add: entries_ok_def)

lemma order_ok_priced: "order_ok v \<Longrightarrow> priced v"
  by (simp add: order_ok_def exact_def priced_def)

lemma set_candidates: "set (matchingCandidates v os) = {w \<in> snd ` set os. isCandidate v w}"
  by (auto simp: matchingCandidates_def)

definition maker_ids :: "order \<Rightarrow> orders \<Rightarrow> string list" where
  "maker_ids v os = map o_ID (matchingCandidates v os)"

lemma distinct_map_filter_sub: "distinct (map f xs) \<Longrightarrow> distinct (map f (filter P xs))"
  by (induction xs) auto

lemma distinct_maker_ids:
  assumes "entries_ok os"
  shows "distinct (maker_ids v os)"
proof -
  have "distinct (map o_ID (filter (isCandidate v) (map snd os)))"
    by (rule distinct_map_filter_sub [OF distinct_entry_ids [OF assms]])
  moreover have "mset (maker_ids v os) = mset (map o_ID (filter (isCandidate v) (map snd os)))"
    by (simp add: maker_ids_def matchingCandidates_def)
  ultimately show ?thesis by (metis mset_eq_imp_distinct_iff)
qed

lemma maker_id_iff:
  assumes "entries_ok os"
  shows "k \<in> set (maker_ids v os) \<longleftrightarrow> (\<exists>w. map_of os k = Some w \<and> isCandidate v w)"
proof -
  have "k \<in> set (maker_ids v os) \<longleftrightarrow> (\<exists>w. w \<in> snd ` set os \<and> isCandidate v w \<and> o_ID w = k)"
    by (auto simp: maker_ids_def set_candidates)
  then show ?thesis using snd_entries [OF assms] entries_okD [OF assms] by metis
qed

section \<open>The taker after the match\<close>

definition finish :: "order \<Rightarrow> order" where
  "finish s = (if fil s = 0 then (if o_TimeInForce s = ''ioc'' then s\<lparr>o_Status := ''cancelled''\<rparr>
        else s\<lparr>o_Status := ''pending''\<rparr>)
     else if fil s < amt s then (if o_TimeInForce s = ''ioc'' then s\<lparr>o_Status := ''cancelled''\<rparr>
        else s\<lparr>o_Status := ''partial''\<rparr>)
     else s\<lparr>o_Status := ''filled'', o_FilledAt := Some (o_CreatedAt s)\<rparr>)"

lemma settleTaker_spec:
  assumes "exact s"
  shows "settleTaker s = (Inr (), finish s)"
proof -
  have f: "storedShareUnits (o_FilledAmount s) = Inr (fil s)" "0 \<le> fil s" "fil s \<le> amt s" "0 < amt s"
    "o_FilledAmount s = SharesToFloat (fil s)"
    using assms by (auto simp: exact_def shares_def intro: storedShareUnits_SharesToFloat)
  have a: "storedShareUnits (o_Amount s) = Inr (amt s)"
    using assms by (auto simp: exact_def intro: shares_stored)
  show ?thesis
  proof (cases "fil s < amt s")
    case True
    then show ?thesis
      using f a by (simp add: settleTaker_def updateOrderFillStatus_def finish_def)
  next
    case False
    then have "fil s = amt s" using f(3) by simp
    moreover from this have "s\<lparr>o_FilledAmount := SharesToFloat (amt s)\<rparr> = s" using f(5) by simp
    ultimately have "updateOrderFillStatus (o_CreatedAt s) s
      = (Inr (), s\<lparr>o_Status := ''filled'', o_FilledAt := Some (o_CreatedAt s)\<rparr>)"
      using f a by (simp add: updateOrderFillStatus_def)
    then show ?thesis
      using f a \<open>fil s = amt s\<close> by (simp add: settleTaker_def finish_def)
  qed
qed

lemma finish_simps [simp]:
  "amt (finish s) = amt s" "fil (finish s) = fil s" "prc (finish s) = prc s" "rem (finish s) = rem s"
  "o_ID (finish s) = o_ID s" "o_Type (finish s) = o_Type s" "o_UserID (finish s) = o_UserID s"
  "o_Price (finish s) = o_Price s" "o_CreatedAt (finish s) = o_CreatedAt s"
  by (simp_all add: finish_def amt_def fil_def prc_def rem_def)

lemma finish_ok: "exact s \<Longrightarrow> order_ok (finish s)"
  unfolding order_ok_def status_ok_def exact_def
  by (auto simp: finish_def amt_def fil_def prc_def shares_def)

section \<open>Placing an order\<close>

text \<open>An order as the service hands it over: exact, new, unfilled.\<close>

definition fresh_order :: "order \<Rightarrow> orders \<Rightarrow> bool" where
  "fresh_order v os \<longleftrightarrow> exact v \<and> fil v = 0 \<and> o_Status v = ''pending'' \<and> map_of os (o_ID v) = None
     \<and> (o_IdempotencyKey v = [] \<or> \<not> idempotencyTaken (o_MerchantID v) (o_IdempotencyKey v) os)"

definition place_mids :: "order \<Rightarrow> orders \<Rightarrow> string list" where
  "place_mids v os = maker_ids v (put (o_ID v) v os)"

definition place_fills :: "order \<Rightarrow> orders \<Rightarrow> int list" where
  "place_fills v os = match_fills (put (o_ID v) v os) v (place_mids v os)"

definition place_refund :: "order \<Rightarrow> orders \<Rightarrow> int" where
  "place_refund v os = match_refund (put (o_ID v) v os) v (place_mids v os)"

text \<open>The placed order and the store it leaves, in the terms of the specification.\<close>

definition placed_order :: "order \<Rightarrow> orders \<Rightarrow> order" where
  "placed_order v os = finish (if sum_list (place_fills v os) = 0 then v
     else add_fill (sum_list (place_fills v os)) v)"

definition placed :: "order \<Rightarrow> orders \<Rightarrow> string \<Rightarrow> order option" where
  "placed v os k =
     (if k = o_ID v then Some (placed_order v os)
      else case map_of (zip (place_mids v os) (place_fills v os)) k of
          Some x \<Rightarrow> map_option (apply_fill (o_CreatedAt v) x) (map_of os k)
        | None \<Rightarrow> map_of os k)"

lemma entries_put_fresh:
  assumes "entries_ok os" "fresh_order v os"
  shows "entries_ok (put (o_ID v) v os)"
proof -
  have "order_ok v" using assms(2) by (auto simp: fresh_order_def order_ok_def status_ok_def)
  then show ?thesis using assms(1) by (auto simp: entries_ok_def)
qed

lemma place_mids_iff:
  assumes "entries_ok os" "fresh_order v os"
  shows "k \<in> set (place_mids v os) \<longleftrightarrow> (\<exists>w. map_of os k = Some w \<and> isCandidate v w)"
  using maker_id_iff [OF entries_put_fresh [OF assms], of k v] assms(2)
  by (auto simp: place_mids_def fresh_order_def isCandidate_def)

lemma place_makers_ok:
  assumes "entries_ok os" "fresh_order v os" "k \<in> set (place_mids v os)"
  shows "maker_ok (put (o_ID v) v os) k" "k \<noteq> o_ID v"
proof -
  obtain w where w: "map_of os k = Some w" "isCandidate v w"
    using place_mids_iff [OF assms(1,2)] assms(3) by blast
  show "k \<noteq> o_ID v" using w assms(2) by (auto simp: fresh_order_def)
  then show "maker_ok (put (o_ID v) v os) k"
    using w entries_okD [OF assms(1) w(1)] by (auto simp: maker_ok_def isCandidate_def)
qed

lemma place_loop_prems:
  assumes "entries_ok os" "fresh_order v os"
  shows "distinct (o_ID v # place_mids v os)"
    "\<forall>k \<in> set (place_mids v os). maker_ok (put (o_ID v) v os) k"
  using place_makers_ok [OF assms] distinct_maker_ids [OF entries_put_fresh [OF assms], of v]
  by (auto simp: place_mids_def)

lemma exact_placed_raw:
  assumes "entries_ok os" "fresh_order v os"
  shows "0 \<le> sum_list (place_fills v os) \<and> sum_list (place_fills v os) \<le> amt v"
proof -
  have v: "exact v" "fil v = 0" using assms(2) by (simp_all add: fresh_order_def)
  have nn: "\<forall>m \<in> set (map (\<lambda>k. rem (look (put (o_ID v) v os) k)) (place_mids v os)). 0 \<le> m"
    using place_loop_prems(2) [OF assms] open_rem maker_okD by fastforce
  have r: "0 \<le> rem v" using rem_bounds [OF v(1)] by simp
  have "0 \<le> sum_list (map (\<lambda>k. rem (look (put (o_ID v) v os) k)) (place_mids v os))"
    by (rule sum_list_nonneg) (use nn in blast)
  then show ?thesis
    using allocate_sum [OF r nn] r v(2) by (simp add: place_fills_def match_fills_def rem_def)
qed

lemma placed_exact:
  assumes "entries_ok os" "fresh_order v os"
  shows "order_ok (placed_order v os)" "amt (placed_order v os) = amt v"
    "fil (placed_order v os) = sum_list (place_fills v os)"
proof -
  have v: "exact v" "fil v = 0" "amt v = rem v" using assms(2) by (simp_all add: fresh_order_def rem_def)
  note s = exact_placed_raw [OF assms]
  note a = add_fill_exact [OF v(1), of "sum_list (place_fills v os)"]
  show "order_ok (placed_order v os)" "amt (placed_order v os) = amt v"
    "fil (placed_order v os) = sum_list (place_fills v os)"
    using s a v by (auto simp: placed_order_def intro: finish_ok)
qed

lemma place_spec:
  assumes "entries_ok os" "fresh_order v os"
  shows "\<exists>os'. orderRepoPlace False v os = (Inr (CentsToFloat (place_refund v os), placed_order v os), os')
    \<and> distinct_keys os' \<and> map_of os' = placed v os"
proof -
  let ?os1 = "put (o_ID v) v os"
  have v: "exact v" "fil v = 0" "amt v = rem v" using assms(2) by (simp_all add: fresh_order_def rem_def)
  have lk: "map_of ?os1 (o_ID v) = Some v" by simp
  have dk: "distinct_keys ?os1" using assms(1) by (simp add: entries_ok_def)
  have "0 + rem v \<le> 2 ^ 40"
  proof -
    have "rem v < shareCap" using rem_bounds [OF v(1)] by simp
    also have "shareCap \<le> 2 ^ 40" by (simp add: shareCap_def)
    finally show ?thesis by simp
  qed
  from matchLoop_spec [OF lk v(1) place_loop_prems [OF assms] order_refl this,
      folded place_fills_def, folded place_refund_def] dk
  obtain os2 where os2: "matchLoop (o_ID v) (place_mids v os) 0 ?os1 = (Inr (place_refund v os), os2)"
    "distinct_keys os2" "map_of os2 = matched (o_ID v) v (place_mids v os) (place_fills v os) ?os1"
    by auto
  let ?s = "if sum_list (place_fills v os) = 0 then v else add_fill (sum_list (place_fills v os)) v"
  have "exact ?s"
    using exact_placed_raw [OF assms] add_fill_exact(1) [OF v(1), of "sum_list (place_fills v os)"] v by simp
  from settleTaker_spec [OF this] have s: "settleTaker ?s = (Inr (), placed_order v os)"
    by (simp add: placed_order_def)
  have l: "map_of os2 (o_ID v) = Some ?s" using os2(3) by (simp add: matched_def)
  have m: "map o_ID (matchingCandidates v ?os1) = place_mids v os"
    by (simp add: place_mids_def maker_ids_def)
  have g: "map_of os (o_ID v) = None"
    "\<not> (o_IdempotencyKey v \<noteq> [] \<and> idempotencyTaken (o_MerchantID v) (o_IdempotencyKey v) os)"
    using assms(2) by (auto simp: fresh_order_def)
  have "orderRepoPlace False v os = (Inr (CentsToFloat (place_refund v os), placed_order v os),
      put (o_ID v) (placed_order v os) os2)"
    unfolding orderRepoPlace_def Let_def m os2(1) by (simp only: g if_False refl not_True_eq_False
        prod.case sum.case option.case l s simp_thms)
  moreover have "map_of (put (o_ID v) (placed_order v os) os2) = placed v os"
    using os2(3) by (auto simp: placed_def matched_def fun_eq_iff split: option.split)
  ultimately show ?thesis using os2(2) by blast
qed

section \<open>What each maker gets\<close>

definition fill_of :: "order \<Rightarrow> orders \<Rightarrow> string \<Rightarrow> int" where
  "fill_of v os k = (case map_of (zip (place_mids v os) (place_fills v os)) k of
     Some x \<Rightarrow> x | None \<Rightarrow> 0)"

lemma placed_other:
  "k \<noteq> o_ID v \<Longrightarrow> placed v os k = map_option (apply_fill (o_CreatedAt v) (fill_of v os k)) (map_of os k)"
proof -
  have "map_option (apply_fill t 0) m = m" for t and m :: "order option" by (cases m) simp_all
  then show "k \<noteq> o_ID v \<Longrightarrow> ?thesis"
    by (auto simp: placed_def fill_of_def split: option.split)
qed

lemma length_place_fills [simp]: "length (place_fills v os) = length (place_mids v os)"
  by (simp add: place_fills_def match_fills_def)

lemma map_of_zip_nth:
  "distinct ks \<Longrightarrow> length xs = length ks \<Longrightarrow> i < length ks \<Longrightarrow> map_of (zip ks xs) (ks ! i) = Some (xs ! i)"
  by (rule map_of_is_SomeI) (auto simp: in_set_zip intro: exI [of _ i])

lemma place_rems:
  assumes e: "entries_ok os" and f: "fresh_order v os"
  shows "\<forall>m \<in> set (map (\<lambda>k. rem (look (put (o_ID v) v os) k)) (place_mids v os)). 0 \<le> m"
  using place_loop_prems(2) [OF e f] open_rem maker_okD by fastforce

lemma taker_rem: "fresh_order v os \<Longrightarrow> 0 \<le> rem v"
  by (simp add: fresh_order_def rem_bounds)

lemma fill_of_nth:
  assumes e: "entries_ok os" and f: "fresh_order v os"
  shows "i < length (place_mids v os) \<Longrightarrow> fill_of v os (place_mids v os ! i) = place_fills v os ! i"
  using place_loop_prems(1) [OF e f] by (simp add: fill_of_def map_of_zip_nth)

lemma fill_of_outside: "k \<notin> set (place_mids v os) \<Longrightarrow> fill_of v os k = 0"
  by (auto simp: fill_of_def dest!: map_of_SomeD set_zip_leftD split: option.split)

lemma fill_of_bounds:
  assumes e: "entries_ok os" and f: "fresh_order v os" and "map_of os k = Some w" "isCandidate v w"
  shows "0 \<le> fill_of v os k \<and> fill_of v os k \<le> rem w"
proof -
  have "k \<in> set (place_mids v os)" using place_mids_iff [OF e f] assms by blast
  then obtain i where i: "i < length (place_mids v os)" "place_mids v os ! i = k"
    by (auto simp: in_set_conv_nth)
  have "k \<noteq> o_ID v" using place_makers_ok(2) [OF e f] i by auto
  then have "look (put (o_ID v) v os) k = w" using assms by (simp add: look_def)
  then show ?thesis
    using allocate_bounds [OF taker_rem [OF f] place_rems [OF e f], of i] i fill_of_nth [OF e f, of i]
    by (simp add: place_fills_def match_fills_def)
qed

lemma fill_of_same:
  assumes e: "entries_ok os" and f: "fresh_order v os"
  shows "map_of os k = Some w \<Longrightarrow> \<not> isCandidate v w \<Longrightarrow> fill_of v os k = 0"
  using fill_of_outside [of k] place_mids_iff [OF e f, of k] by auto

lemma sum_fill_of:
  assumes e: "entries_ok os" and f: "fresh_order v os"
  shows "(\<Sum>k \<in> set (place_mids v os). fill_of v os k) = sum_list (place_fills v os)"
proof -
  have d: "distinct (place_mids v os)" using place_loop_prems(1) [OF e f] by simp
  have "map (fill_of v os) (place_mids v os) = place_fills v os"
    by (rule nth_equalityI) (simp_all add: fill_of_nth [OF e f])
  then show ?thesis using sum_list_distinct_conv_sum_set [OF d, of "fill_of v os"] by simp
qed

text \<open>Makers are served in the order of \<open>betterMaker\<close>.\<close>

lemma makers_sorted:
  assumes e: "entries_ok os" and f: "fresh_order v os"
  shows "sorted_wrt (betterMaker (o_Type v)) (matchingCandidates v (put (o_ID v) v os))"
proof -
  let ?os1 = "put (o_ID v) v os"
  have e1: "entries_ok ?os1" using entries_put_fresh [OF e f] .
  have "priced x" if "x \<in> snd ` set ?os1" for x
    using that snd_entries [OF e1, of x] entries_okD [OF e1, of "o_ID x" x] order_ok_priced [of x] by blast
  then have "\<forall>x \<in> set (filter (isCandidate v) (map snd ?os1)). priced x" by simp
  moreover have "distinct (map o_ID (filter (isCandidate v) (map snd ?os1)))"
    by (rule distinct_map_filter_sub [OF distinct_entry_ids [OF e1]])
  ultimately show ?thesis
    unfolding matchingCandidates_def by (rule makers.sorted_sort_by)
qed

lemma priority_used_up:
  assumes e: "entries_ok os" and f: "fresh_order v os"
  and w: "map_of os k1 = Some w1" "map_of os k2 = Some w2" "isCandidate v w1" "isCandidate v w2"
    "betterMaker (o_Type v) w1 w2" "0 < fill_of v os k2"
  shows "fill_of v os k1 = rem w1"
proof -
  let ?c = "matchingCandidates v (put (o_ID v) v os)"
  have e1: "entries_ok (put (o_ID v) v os)" using entries_put_fresh [OF e f] .
  have nn: "map_of os (o_ID v) = None" using f by (simp add: fresh_order_def)
  have k: "k1 \<noteq> o_ID v" "k2 \<noteq> o_ID v" "o_ID w1 = k1" "o_ID w2 = k2"
    using w(1,2) nn entries_okD [OF e] by auto
  have "w1 \<in> set ?c" "w2 \<in> set ?c"
    using w k snd_entries [OF e1] by (auto simp: set_candidates)
  then obtain i j where ij: "i < length ?c" "?c ! i = w1" "j < length ?c" "?c ! j = w2"
    by (auto simp: in_set_conv_nth)
  have len: "length (place_mids v os) = length ?c" by (simp add: place_mids_def maker_ids_def)
  have mids: "place_mids v os ! i = k1" "place_mids v os ! j = k2"
    using ij k by (simp_all add: place_mids_def maker_ids_def)
  have "priced w1" "priced w2"
    using w entries_okD [OF e] order_ok_priced by blast+
  then have "\<not> betterMaker (o_Type v) w2 w1" "w1 \<noteq> w2"
    using w(5) makers.lt_asym makers.lt_irrefl by blast+
  then have "i < j"
    using makers_sorted [OF e f] ij by (metis linorder_neqE_nat sorted_wrt_nth_less)
  then have "place_fills v os ! i = rem (look (put (o_ID v) v os) k1)"
    using allocate_priority [OF taker_rem [OF f] place_rems [OF e f], of i j] ij len mids w(6) fill_of_nth [OF e f, of j]
    by (simp add: place_fills_def match_fills_def)
  then show ?thesis
    using fill_of_nth [OF e f, of i] ij(1) len mids k w(1) by (simp add: look_def)
qed

text \<open>A taker that is not satisfied has used up every maker it crosses.\<close>

lemma unsatisfied_used_up:
  assumes e: "entries_ok os" and f: "fresh_order v os"
  and w: "map_of os k = Some w" "isCandidate v w" "sum_list (place_fills v os) < amt v"
  shows "fill_of v os k = rem w"
proof -
  have r: "rem v = amt v" using f by (simp add: fresh_order_def rem_def)
  have all: "place_fills v os = map (\<lambda>k. rem (look (put (o_ID v) v os) k)) (place_mids v os)"
    using allocate_exhausts [OF taker_rem [OF f] place_rems [OF e f]] w(3) r
    by (simp add: place_fills_def match_fills_def)
  have "k \<in> set (place_mids v os)" using place_mids_iff [OF e f] w by blast
  then obtain i where i: "i < length (place_mids v os)" "place_mids v os ! i = k"
    by (auto simp: in_set_conv_nth)
  have "k \<noteq> o_ID v" using place_makers_ok(2) [OF e f] i by auto
  then show ?thesis using all i fill_of_nth [OF e f i(1)] w(1) by (simp add: look_def)
qed

end
