(* ===== verification/OrderBookInv.thy ===== *)
theory OrderBookInv
  imports OrderMatching
begin

text \<open>
  The invariants of the order store under \<^verbatim>\<open>Place\<close> and \<^verbatim>\<open>Cancel\<close>: the book never stays
  crossed between two users, every stored order keeps its status in step with its fills,
  and in every book the filled shares of the buy orders equal those of the sell orders.
\<close>

section \<open>Applying a fill\<close>

lemma apply_fill_simps [simp]:
  "o_ID (apply_fill t x w) = o_ID w" "o_Type (apply_fill t x w) = o_Type w"
  "o_MerchantID (apply_fill t x w) = o_MerchantID w" "o_MarketID (apply_fill t x w) = o_MarketID w"
  "o_Option (apply_fill t x w) = o_Option w" "o_Currency (apply_fill t x w) = o_Currency w"
  "o_UserID (apply_fill t x w) = o_UserID w" "o_Price (apply_fill t x w) = o_Price w"
  "o_Amount (apply_fill t x w) = o_Amount w" "o_CreatedAt (apply_fill t x w) = o_CreatedAt w"
  by (simp_all add: apply_fill_def add_fill_def)

lemma apply_fill_units:
  assumes "order_ok w" "0 \<le> x" "x \<le> rem w" "0 < x \<Longrightarrow> is_open w"
  shows "order_ok (apply_fill t x w)" "fil (apply_fill t x w) = fil w + x"
    "amt (apply_fill t x w) = amt w" "prc (apply_fill t x w) = prc w"
    "is_open (apply_fill t x w) \<longleftrightarrow> is_open w \<and> x < rem w"
proof -
  have w: "exact w" "status_ok w" using assms(1) by (simp_all add: order_ok_def)
  note a = add_fill_exact [OF w(1) assms(2,3)]
  have f: "0 \<le> fil w" using w by (simp add: exact_def shares_def)
  have *: "amt (y\<lparr>o_Status := s, o_FilledAt := u\<rparr>) = amt y" "fil (y\<lparr>o_Status := s, o_FilledAt := u\<rparr>) = fil y"
    "prc (y\<lparr>o_Status := s, o_FilledAt := u\<rparr>) = prc y" "amt (y\<lparr>o_Status := s\<rparr>) = amt y"
    "fil (y\<lparr>o_Status := s\<rparr>) = fil y" "prc (y\<lparr>o_Status := s\<rparr>) = prc y"
    for y :: order and s u by (simp_all add: amt_def fil_def prc_def)
  show u: "fil (apply_fill t x w) = fil w + x" "amt (apply_fill t x w) = amt w"
    "prc (apply_fill t x w) = prc w"
    using a by (simp_all add: apply_fill_def * )
  have "exact (apply_fill t x w)"
    using a w(1) by (simp add: apply_fill_def exact_def * )
  moreover have "status_ok (apply_fill t x w)"
    using u w(2) assms f by (auto simp: status_ok_def apply_fill_def rem_def)
  ultimately show "order_ok (apply_fill t x w)" by (simp add: order_ok_def)
  show "is_open (apply_fill t x w) \<longleftrightarrow> is_open w \<and> x < rem w"
    using assms w f open_rem [OF assms(1)] by (auto simp: apply_fill_def is_open_def rem_def)
qed

section \<open>The store after a placement, entry by entry\<close>

lemma fill_of_ok:
  assumes "entries_ok os" "fresh_order v os" "map_of os k = Some w"
  shows "0 \<le> fill_of v os k" "fill_of v os k \<le> rem w" "0 < fill_of v os k \<Longrightarrow> isCandidate v w"
proof -
  have "order_ok w" using entries_okD [OF assms(1,3)] by simp
  then have r: "0 \<le> rem w" using rem_bounds by (simp add: order_ok_def)
  show "0 \<le> fill_of v os k" "fill_of v os k \<le> rem w" "0 < fill_of v os k \<Longrightarrow> isCandidate v w"
    using fill_of_bounds [OF assms] fill_of_same [OF assms] r by (cases "isCandidate v w", auto)+
qed

lemma placed_entry:
  assumes "entries_ok os" "fresh_order v os" "map_of os k = Some w"
  shows "placed v os k = Some (apply_fill (o_CreatedAt v) (fill_of v os k) w)"
    and "order_ok (apply_fill (o_CreatedAt v) (fill_of v os k) w)"
    and "fil (apply_fill (o_CreatedAt v) (fill_of v os k) w) = fil w + fill_of v os k"
    and "is_open (apply_fill (o_CreatedAt v) (fill_of v os k) w) \<longleftrightarrow> is_open w \<and> fill_of v os k < rem w"
proof -
  have w: "order_ok w" using entries_okD [OF assms(1,3)] by simp
  have "k \<noteq> o_ID v" using assms by (auto simp: fresh_order_def)
  then show "placed v os k = Some (apply_fill (o_CreatedAt v) (fill_of v os k) w)"
    using assms(3) by (simp add: placed_other)
  note f = fill_of_ok [OF assms]
  have "0 < fill_of v os k \<Longrightarrow> is_open w" using f(3) by (simp add: isCandidate_def)
  from apply_fill_units [OF w f(1,2) this]
  show "order_ok (apply_fill (o_CreatedAt v) (fill_of v os k) w)"
    "fil (apply_fill (o_CreatedAt v) (fill_of v os k) w) = fil w + fill_of v os k"
    "is_open (apply_fill (o_CreatedAt v) (fill_of v os k) w) \<longleftrightarrow> is_open w \<and> fill_of v os k < rem w"
    by simp_all
qed

lemma placed_cases:
  assumes "entries_ok os" "fresh_order v os" "placed v os k = Some w'"
  obtains (taker) "k = o_ID v" "w' = placed_order v os"
  | (other) w where "k \<noteq> o_ID v" "map_of os k = Some w"
      "w' = apply_fill (o_CreatedAt v) (fill_of v os k) w"
proof (cases "k = o_ID v")
  case True
  then show ?thesis using taker assms(3) by (simp add: placed_def)
next
  case False
  then show ?thesis using other assms(3) by (auto simp: placed_other)
qed

lemma placed_order_simps [simp]:
  "o_ID (placed_order v os) = o_ID v" "o_Type (placed_order v os) = o_Type v"
  "o_UserID (placed_order v os) = o_UserID v" "o_Price (placed_order v os) = o_Price v"
  by (simp_all add: placed_order_def)

lemma sameBook_placed_order [simp]:
  "sameBook (placed_order v os) w = sameBook v w" "sameBook w (placed_order v os) = sameBook w v"
  by (simp_all add: placed_order_def finish_def sameBook_def add_fill_def)

lemma sameBook_apply_fill [simp]:
  "sameBook (apply_fill t x u) w = sameBook u w" "sameBook w (apply_fill t x u) = sameBook w u"
  by (simp_all add: sameBook_def)

lemma placed_open:
  assumes "entries_ok os" "fresh_order v os"
  shows "is_open (placed_order v os) \<longleftrightarrow> o_TimeInForce v \<noteq> ''ioc'' \<and> sum_list (place_fills v os) < amt v"
proof -
  have v: "exact v" "fil v = 0" using assms(2) by (simp_all add: fresh_order_def)
  have b: "0 \<le> sum_list (place_fills v os)" "sum_list (place_fills v os) \<le> amt v"
    using exact_placed_raw [OF assms] by simp_all
  have "0 < amt v" using v(1) by (simp add: exact_def)
  then show ?thesis
    using b v add_fill_exact [OF v(1) b(1)]
    by (auto simp: placed_order_def finish_def is_open_def rem_def)
qed

section \<open>The book is never left crossed\<close>

definition uncrossed :: "orders \<Rightarrow> bool" where
  "uncrossed os \<longleftrightarrow> (\<forall>k1 k2 b s. map_of os k1 = Some b \<longrightarrow> map_of os k2 = Some s \<longrightarrow>
     is_open b \<longrightarrow> is_open s \<longrightarrow> sameBook b s \<longrightarrow> o_UserID b \<noteq> o_UserID s \<longrightarrow>
     o_Type b = ''buy'' \<longrightarrow> o_Type s = ''sell'' \<longrightarrow> f_lt (o_Price b) (o_Price s))"

definition book_ok :: "orders \<Rightarrow> bool" where
  "book_ok os \<longleftrightarrow> entries_ok os \<and> uncrossed os"

lemma sameBook_sym: "sameBook v w = sameBook w v"
  by (auto simp: sameBook_def)

lemma crossing_is_candidate:
  assumes "entries_ok os" "fresh_order v os" "map_of os k = Some w" "is_open w" "sameBook w v"
    "o_UserID w \<noteq> o_UserID v"
    "if o_Type v = ''sell'' then o_Type w = ''buy'' \<and> \<not> f_lt (o_Price w) (o_Price v)
     else o_Type v = ''buy'' \<and> o_Type w = ''sell'' \<and> \<not> f_lt (o_Price v) (o_Price w)"
  shows "isCandidate v w"
proof -
  have w: "order_ok w" "o_ID w = k" using entries_okD [OF assms(1,3)] by simp_all
  have p: "price (o_Price w) (prc w)" "price (o_Price v) (prc v)"
    using w(1) assms(2) by (simp_all add: order_ok_def exact_def fresh_order_def)
  have "k \<noteq> o_ID v" using assms by (auto simp: fresh_order_def)
  then show ?thesis
    using assms(4-7) w(2) price_compare [OF p] price_compare [OF p(2,1)]
    by (auto simp: isCandidate_def crosses_def split: if_splits)
qed

lemma entries_ok_placed:
  assumes "entries_ok os" "fresh_order v os" "distinct_keys os'" "map_of os' = placed v os"
  shows "entries_ok os'"
  unfolding entries_ok_def
proof (intro conjI allI impI)
  show "distinct_keys os'" by fact
  fix k w' assume "map_of os' k = Some w'"
  then have "placed v os k = Some w'" using assms(4) by simp
  from assms(1,2) this have "o_ID w' = k \<and> order_ok w'"
  proof (cases rule: placed_cases)
    case taker
    then show ?thesis using placed_exact(1) [OF assms(1,2)] by simp
  next
    case (other w)
    then show ?thesis using placed_entry(2) [OF assms(1,2)] entries_okD [OF assms(1)] by simp
  qed
  then show "o_ID w' = k" "order_ok w'" by simp_all
qed

lemma uncrossed_placed:
  assumes "book_ok os" "fresh_order v os" "map_of os' = placed v os"
  shows "uncrossed os'"
  unfolding uncrossed_def
proof (intro allI impI)
  have e: "entries_ok os" and un: "uncrossed os" using assms(1) by (simp_all add: book_ok_def)
  note p = placed_entry [OF e assms(2)]
  fix k1 k2 b s
  assume m: "map_of os' k1 = Some b" "map_of os' k2 = Some s" and o: "is_open b" "is_open s"
    and bk: "sameBook b s" "o_UserID b \<noteq> o_UserID s" and ty: "o_Type b = ''buy''" "o_Type s = ''sell''"
  have used: "\<not> is_open (apply_fill (o_CreatedAt v) (fill_of v os k) w)"
    if "is_open (placed_order v os)" "map_of os k = Some w" "isCandidate v w" for k w
  proof -
    have "sum_list (place_fills v os) < amt v" using placed_open [OF e assms(2)] that(1) by simp
    then have "fill_of v os k = rem w" using unsatisfied_used_up [OF e assms(2) that(2,3)] by simp
    then show ?thesis using p(4) [OF that(2)] by simp
  qed
  have m1: "placed v os k1 = Some b" and m2: "placed v os k2 = Some s" using m assms(3) by simp_all
  from e assms(2) m1 show "f_lt (o_Price b) (o_Price s)"
  proof (cases rule: placed_cases)
    case taker
    note b = taker
    from e assms(2) m2 show ?thesis
    proof (cases rule: placed_cases)
      case taker
      then show ?thesis using b ty by simp
    next
      case (other w)
      have "is_open w" using p(4) [OF other(2)] o(2) other(3) by simp
      then have "\<not> f_lt (o_Price v) (o_Price w) \<Longrightarrow> isCandidate v w"
        using b other bk ty by (intro crossing_is_candidate [OF e assms(2) other(2)])
          (auto simp: sameBook_sym)
      then show ?thesis using used [OF _ other(2)] o b other by auto
    qed
  next
    case (other w)
    note b = other
    from e assms(2) m2 show ?thesis
    proof (cases rule: placed_cases)
      case taker
      have "is_open w" using p(4) [OF other(2)] o(1) other(3) by simp
      then have "\<not> f_lt (o_Price w) (o_Price v) \<Longrightarrow> isCandidate v w"
        using taker other bk ty by (intro crossing_is_candidate [OF e assms(2) other(2)])
          (auto simp: sameBook_sym)
      then show ?thesis using used [OF _ other(2)] o taker other by auto
    next
      case (other u)
      have "is_open w" "is_open u" using p(4) [OF other(2)] p(4) [OF b(2)] o other(3) b(3) by simp_all
      then show ?thesis
        using un b(2,3) other(2,3) bk ty unfolding uncrossed_def by simp
    qed
  qed
qed

section \<open>Cancelling\<close>

lemma cancel_spec:
  assumes "entries_ok os" "map_of os k = Some v"
  shows "orderRepoCancel False k os =
    (if is_open v then (Inr (v\<lparr>o_Status := ''cancelled''\<rparr>, SharesToFloat (rem v)),
        put k (v\<lparr>o_Status := ''cancelled''\<rparr>) os)
     else (Inl (Sentinel OrderErrNotCancellable), os))"
proof -
  have "exact v" using entries_okD [OF assms] by (simp add: order_ok_def)
  then show ?thesis
    using assms(2) exact_rem by (auto simp: orderRepoCancel_def remainingShares_def is_open_def Let_def)
qed

lemma cancelled_ok:
  assumes "order_ok v" "is_open v"
  shows "order_ok (v\<lparr>o_Status := ''cancelled''\<rparr>)"
  using assms open_rem [OF assms]
  by (auto simp: order_ok_def status_ok_def exact_def amt_def fil_def prc_def rem_def)

lemma book_ok_cancel:
  assumes "book_ok os" "map_of os k = Some v" "is_open v"
  shows "book_ok (put k (v\<lparr>o_Status := ''cancelled''\<rparr>) os)"
proof -
  have e: "entries_ok os" and un: "uncrossed os" using assms(1) by (simp_all add: book_ok_def)
  have v: "o_ID v = k" "order_ok v" using entries_okD [OF e assms(2)] by simp_all
  have "entries_ok (put k (v\<lparr>o_Status := ''cancelled''\<rparr>) os)"
    using e v cancelled_ok [OF v(2) assms(3)] by (auto simp: entries_ok_def)
  moreover have "uncrossed (put k (v\<lparr>o_Status := ''cancelled''\<rparr>) os)"
    using un by (auto simp: uncrossed_def is_open_def split: if_splits)
  ultimately show ?thesis by (simp add: book_ok_def)
qed

section \<open>Filled shares balance\<close>

type_synonym book_key = "string \<times> string \<times> string \<times> string"

definition book_key :: "order \<Rightarrow> book_key" where
  "book_key v = (o_MerchantID v, o_MarketID v, o_Option v, o_Currency v)"

definition side_fill :: "string \<Rightarrow> book_key \<Rightarrow> order option \<Rightarrow> int" where
  "side_fill side b m = (case m of
      None \<Rightarrow> 0
    | Some v \<Rightarrow> if o_Type v = side \<and> book_key v = b then fil v else 0)"

definition filled_total :: "orders \<Rightarrow> string \<Rightarrow> book_key \<Rightarrow> int" where
  "filled_total os side b = (\<Sum>k \<in> keys os. side_fill side b (map_of os k))"

definition balanced :: "orders \<Rightarrow> bool" where
  "balanced os \<longleftrightarrow> (\<forall>b. filled_total os ''buy'' b = filled_total os ''sell'' b)"

lemma finite_keys [simp]: "finite (keys os)"
  by (simp add: keys_def)

lemma keys_map_of: "keys os = dom (map_of os)"
  by (simp add: keys_def dom_map_of_conv_image_fst)

lemma sameBook_key: "sameBook v w \<longleftrightarrow> book_key v = book_key w"
  by (auto simp: sameBook_def book_key_def)

lemma sum_fill_of_keys:
  assumes "entries_ok os" "fresh_order v os"
  shows "sum (fill_of v os) (keys os) = sum_list (place_fills v os)"
proof -
  have "sum (fill_of v os) (keys os) = sum (fill_of v os) (set (place_mids v os))"
    using place_mids_iff [OF assms] fill_of_outside
    by (intro sum.mono_neutral_right) (auto simp: keys_map_of finite_dom_map_of)
  then show ?thesis using sum_fill_of [OF assms] by simp
qed

lemma keys_placed:
  assumes "entries_ok os" "fresh_order v os" "map_of os' = placed v os"
  shows "keys os' = insert (o_ID v) (keys os)"
  using placed_entry(1) [OF assms(1,2)] assms(3)
  by (auto simp: keys_map_of placed_def split: option.splits)

lemma filled_total_placed:
  assumes "entries_ok os" "fresh_order v os" "map_of os' = placed v os"
  shows "filled_total os' side b = filled_total os side b
    + (if book_key v = b \<and> (side = ''buy'' \<or> side = ''sell'') then sum_list (place_fills v os) else 0)"
proof -
  let ?x = "sum_list (place_fills v os)"
  have new: "o_ID v \<notin> keys os" using assms(2) by (simp add: fresh_order_def map_of_None_keys)
  have v: "o_Type v = ''buy'' \<or> o_Type v = ''sell''" using assms(2) by (simp add: fresh_order_def exact_def)
  note ks = keys_placed [OF assms]
  have mine: "side_fill side b (placed v os (o_ID v)) = (if o_Type v = side \<and> book_key v = b then ?x else 0)"
    using placed_exact(3) [OF assms(1,2)]
    by (simp add: side_fill_def placed_def) (simp add: placed_order_def finish_def book_key_def add_fill_def)
  have other: "side_fill side b (placed v os k) = side_fill side b (map_of os k)
      + (if o_Type v \<noteq> side \<and> (side = ''buy'' \<or> side = ''sell'') \<and> book_key v = b then fill_of v os k else 0)"
    if k: "k \<in> keys os" for k
  proof -
    obtain w where w: "map_of os k = Some w" using k by (auto simp: keys_map_of)
    have "order_ok w" using entries_okD [OF assms(1) w] by simp
    then have ty: "o_Type w = ''buy'' \<or> o_Type w = ''sell''" by (simp add: order_ok_def exact_def)
    have "book_key (apply_fill t x w) = book_key w" for t x by (simp add: book_key_def)
    moreover have "fill_of v os k = 0 \<or> (o_Type w \<noteq> o_Type v \<and> book_key w = book_key v)"
      using fill_of_ok [OF assms(1,2) w] by (auto simp: isCandidate_def sameBook_key)
    ultimately show ?thesis
      using placed_entry(1,3) [OF assms(1,2) w] w ty v by (auto simp: side_fill_def)
  qed
  note fills = sum_fill_of_keys [OF assms(1,2)]
  have "filled_total os' side b = side_fill side b (placed v os (o_ID v))
      + (\<Sum>k \<in> keys os. side_fill side b (placed v os k))"
    using new by (simp add: filled_total_def ks assms(3))
  also have "(\<Sum>k \<in> keys os. side_fill side b (placed v os k)) = filled_total os side b
      + (if o_Type v \<noteq> side \<and> (side = ''buy'' \<or> side = ''sell'') \<and> book_key v = b then ?x else 0)"
    using fills by (simp add: other filled_total_def sum.distrib)
  finally show ?thesis using v by (auto simp: mine)
qed

lemma balanced_placed:
  "entries_ok os \<Longrightarrow> fresh_order v os \<Longrightarrow> map_of os' = placed v os \<Longrightarrow> balanced os \<Longrightarrow> balanced os'"
  by (simp add: balanced_def filled_total_placed)

lemma balanced_cancel:
  assumes "map_of os k = Some v" "balanced os"
  shows "balanced (put k (v\<lparr>o_Status := s\<rparr>) os)"
proof -
  have k: "insert k (keys os) = keys os" using assms(1) by (auto simp: keys_map_of)
  have "side_fill side b (Some (v\<lparr>o_Status := s\<rparr>)) = side_fill side b (Some v)" for side b
    by (simp add: side_fill_def book_key_def fil_def)
  then have "filled_total (put k (v\<lparr>o_Status := s\<rparr>) os) side b = filled_total os side b" for side b
    unfolding filled_total_def keys_put k using assms(1) by (intro sum.cong) auto
  then show ?thesis using assms(2) by (simp add: balanced_def)
qed

section \<open>Runs of the store\<close>

text \<open>An order whose numbers the service has validated, not yet matched.\<close>

definition new_order :: "order \<Rightarrow> bool" where
  "new_order v \<longleftrightarrow> exact v \<and> fil v = 0 \<and> o_Status v = ''pending''"

inductive order_step :: "orders \<Rightarrow> orders \<Rightarrow> bool" where
  place: "new_order v \<Longrightarrow> order_step os (snd (orderRepoPlace ctxDone v os))"
| cancel: "order_step os (snd (orderRepoCancel ctxDone k os))"

definition order_reachable :: "orders \<Rightarrow> bool" where
  "order_reachable os \<longleftrightarrow> order_step\<^sup>*\<^sup>* [] os"

lemma place_refused:
  assumes "new_order v" "\<not> fresh_order v os \<or> d"
  shows "snd (orderRepoPlace d v os) = os"
  using assms by (auto simp: orderRepoPlace_def fresh_order_def new_order_def)

lemma place_result:
  assumes "entries_ok os" "fresh_order v os"
  obtains os' where "orderRepoPlace False v os
      = (Inr (CentsToFloat (place_refund v os), placed_order v os), os')"
    "distinct_keys os'" "map_of os' = placed v os" "entries_ok os'"
  using place_spec [OF assms] entries_ok_placed [OF assms] by blast

lemma store_inv_step:
  "order_step os os' \<Longrightarrow> book_ok os \<and> balanced os \<Longrightarrow> book_ok os' \<and> balanced os'"
proof (induction rule: order_step.induct)
  case (place v os d)
  show ?case
  proof (cases "\<not> fresh_order v os \<or> d")
    case True
    then show ?thesis using place_refused [OF place(1) True] place(2) by simp
  next
    case False
    have e: "entries_ok os" using place(2) by (simp add: book_ok_def)
    obtain os' where "orderRepoPlace False v os
        = (Inr (CentsToFloat (place_refund v os), placed_order v os), os')"
      "map_of os' = placed v os" "entries_ok os'"
      using place_result [OF e] False by metis
    then show ?thesis
      using False place(2) uncrossed_placed [of os v os'] balanced_placed [OF e, of v os']
      by (simp add: book_ok_def)
  qed
next
  case (cancel os d k)
  then have e: "entries_ok os" by (simp add: book_ok_def)
  show ?case
  proof (cases "d \<or> map_of os k = None")
    case True
    then show ?thesis using cancel by (auto simp: orderRepoCancel_def)
  next
    case False
    then obtain v where v: "map_of os k = Some v" "\<not> d" by auto
    then show ?thesis
      using cancel cancel_spec [OF e v(1)] book_ok_cancel [OF _ v(1)] balanced_cancel [OF v(1)] by auto
  qed
qed

lemma store_inv_reachable:
  assumes "order_reachable os"
  shows "book_ok os" "balanced os" "entries_ok os"
proof -
  have "order_step\<^sup>*\<^sup>* [] os" using assms by (simp add: order_reachable_def)
  then have "book_ok os \<and> balanced os"
  proof (induction rule: rtranclp_induct)
    case base
    show ?case
      by (simp add: book_ok_def entries_ok_def uncrossed_def balanced_def filled_total_def distinct_keys_def)
  next
    case (step y z)
    then show ?case using store_inv_step by blast
  qed
  then show "book_ok os" "balanced os" "entries_ok os" by (simp_all add: book_ok_def)
qed

section \<open>The order of the map does not matter\<close>

lemma map_of_mset:
  assumes "mset os1 = mset os2" "distinct_keys os1"
  shows "map_of os1 = map_of os2" "distinct_keys os2"
proof -
  have "mset (map fst os1) = mset (map fst os2)" using assms(1) by simp
  then show d: "distinct_keys os2"
    using assms(2) unfolding distinct_keys_def by (metis mset_eq_imp_distinct_iff)
  have s: "set os1 = set os2" using assms(1) by (metis set_mset_mset)
  show "map_of os1 = map_of os2"
  proof
    fix k
    show "map_of os1 k = map_of os2 k"
      using s in_set_map_of [OF assms(2), of k] in_set_map_of [OF d, of k]
      by (metis option.exhaust)
  qed
qed

lemma put_fresh_mset: "k \<notin> keys os \<Longrightarrow> mset (put k v os) = mset os + {#(k, v)#}"
  by (simp add: put_fresh)

lemma place_mids_order:
  assumes "entries_ok os1" "fresh_order v os1" "mset os1 = mset os2"
  shows "place_mids v os1 = place_mids v os2"
proof -
  note m = map_of_mset [OF assms(3)]
  have d: "distinct_keys os1" using assms(1) by (simp add: entries_ok_def)
  have n: "o_ID v \<notin> keys os1" using assms(2) by (simp add: fresh_order_def map_of_None_keys)
  then have n2: "o_ID v \<notin> keys os2" using m(1) [OF d] by (simp add: keys_map_of)
  let ?p = "put (o_ID v) v"
  have e1: "entries_ok (?p os1)" using entries_put_fresh [OF assms(1,2)] .
  have "mset (?p os1) = mset (?p os2)"
    using put_fresh_mset [OF n] put_fresh_mset [OF n2] assms(3) by simp
  then have "mset (filter (isCandidate v) (map snd (?p os1))) = mset (filter (isCandidate v) (map snd (?p os2)))"
    by simp
  moreover have "priced x" if "x \<in> snd ` set (?p os1)" for x
    using that snd_entries [OF e1, of x] entries_okD [OF e1, of "o_ID x" x] order_ok_priced [of x] by blast
  then have "\<forall>x \<in> set (filter (isCandidate v) (map snd (?p os1))). priced x" by simp
  ultimately have "matchingCandidates v (?p os1) = matchingCandidates v (?p os2)"
    unfolding matchingCandidates_def
    using distinct_map_filter_sub [OF distinct_entry_ids [OF e1]] by (rule makers.sort_by_perm)
  then show ?thesis by (simp add: place_mids_def maker_ids_def)
qed

lemma place_order_free:
  assumes "entries_ok os1" "fresh_order v os1" "mset os1 = mset os2"
  shows "place_fills v os1 = place_fills v os2" "place_refund v os1 = place_refund v os2"
    "placed v os1 = placed v os2" "entries_ok os2" "fresh_order v os2"
proof -
  have d: "distinct_keys os1" using assms(1) by (simp add: entries_ok_def)
  note m = map_of_mset [OF assms(3) d] and mids = place_mids_order [OF assms]
  have look: "look (put k w os1) = look (put k w os2)" for k w
    by (simp add: look_def fun_eq_iff m(1))
  show fills: "place_fills v os1 = place_fills v os2"
    by (simp add: place_fills_def match_fills_def mids look)
  show "place_refund v os1 = place_refund v os2"
    by (simp add: place_refund_def match_refund_def match_fills_def mids look)
  show "placed v os1 = placed v os2"
    by (rule ext) (simp only: placed_def placed_order_def mids fills m(1))
  show "entries_ok os2" using assms(1) m by (simp add: entries_ok_def)
  have "set os1 = set os2" using assms(3) by (metis set_mset_mset)
  then show "fresh_order v os2"
    using assms(2) m(1) by (simp add: fresh_order_def idempotencyTaken_def list_ex_iff)
qed

end
