(* ===== verification/OrderProps.thy ===== *)
theory OrderProps
  imports OrderBookInv
begin

text \<open>
  The properties of the order store: what a placement does to the store, price-time
  priority, the invariants of every reachable store, cancelling and cursor pages.
\<close>

section \<open>Examples\<close>

definition demo_order :: "string \<Rightarrow> string \<Rightarrow> string \<Rightarrow> int \<Rightarrow> int \<Rightarrow> string \<Rightarrow> time \<Rightarrow> order" where
  "demo_order i user side n p tif t = \<lparr>o_ID = i, o_MerchantID = ''m'', o_UserID = user,
     o_MarketID = ''k'', o_Type = side, o_Option = ''yes'', o_Amount = SharesToFloat n,
     o_FilledAmount = Fin 0, o_Currency = ''USD'', o_Price = PriceToFloat p, o_TimeInForce = tif,
     o_Status = ''pending'', o_IdempotencyKey = [], o_CreatedAt = t, o_FilledAt = None\<rparr>"

definition ask_a :: order where "ask_a = demo_order ''a'' ''bob'' ''sell'' 5000000 400000 ''gtc'' 1"
definition ask_b :: order where "ask_b = demo_order ''b'' ''carol'' ''sell'' 5000000 450000 ''gtc'' 2"
definition demo_taker :: order where "demo_taker = demo_order ''c'' ''alice'' ''buy'' 7000000 500000 ''gtc'' 3"
definition demo_ioc :: order where "demo_ioc = demo_order ''d'' ''alice'' ''buy'' 20000000 500000 ''ioc'' 4"

definition demo_book :: orders where
  "demo_book = snd (orderRepoPlace False ask_b (snd (orderRepoPlace False ask_a [])))"

lemma new_demo_order:
  assumes "0 < n" "n < shareCap" "0 < p" "p < PriceScale" "side = ''buy'' \<or> side = ''sell''"
  shows "new_order (demo_order i user side n p tif t)" "amt (demo_order i user side n p tif t) = n"
    "fil (demo_order i user side n p tif t) = 0" "prc (demo_order i user side n p tif t) = p"
proof -
  let ?v = "demo_order i user side n p tif t"
  have s: "shares (o_Amount ?v) n" "shares (o_FilledAmount ?v) 0" "price (o_Price ?v) p"
    using assms by (simp_all add: demo_order_def shares_def price_def)
  have "o_Type ?v = ''buy'' \<or> o_Type ?v = ''sell''" using assms(5) by (simp add: demo_order_def)
  note e = exactI [OF s _ assms(1) this]
  show "amt ?v = n" "fil ?v = 0" "prc ?v = p" using e assms(1) by simp_all
  show "new_order ?v" using e assms(1) by (simp add: new_order_def) (simp add: demo_order_def)
qed

lemma demo_new: "new_order ask_a" "new_order ask_b" "new_order demo_taker" "new_order demo_ioc"
  unfolding ask_a_def ask_b_def demo_taker_def demo_ioc_def
  by (rule new_demo_order; simp add: shareCap_def PriceScale_def)+

lemma demo_units: "amt ask_a = 5000000" "fil ask_a = 0" "fil ask_b = 0" "amt demo_ioc = 20000000"
  unfolding ask_a_def ask_b_def demo_ioc_def
  by (rule new_demo_order; simp add: shareCap_def PriceScale_def)+

lemma demo_book_reachable: "order_reachable demo_book"
proof -
  have "order_step [] (snd (orderRepoPlace False ask_a []))"
    by (rule order_step.place [OF demo_new(1)])
  moreover have "order_step (snd (orderRepoPlace False ask_a [])) demo_book"
    unfolding demo_book_def by (rule order_step.place [OF demo_new(2)])
  ultimately show ?thesis
    unfolding order_reachable_def by (meson converse_rtranclp_into_rtranclp rtranclp.rtrancl_refl)
qed

lemma demo_book_eq: "demo_book = [(''a'', ask_a), (''b'', ask_b)]"
  by code_simp

lemma demo_lookup: "map_of demo_book ''a'' = Some ask_a" "map_of demo_book ''b'' = Some ask_b"
  by (simp_all add: demo_book_eq)

lemma demo_fresh: "fresh_order demo_taker demo_book" "fresh_order demo_ioc demo_book"
  using demo_new(3,4)
  by (simp_all add: fresh_order_def new_order_def demo_book_eq) (simp_all add: demo_taker_def demo_ioc_def demo_order_def)

definition demo_after :: orders where "demo_after = snd (orderRepoPlace False demo_taker demo_book)"

lemma demo_after_reachable: "order_reachable demo_after"
  using demo_book_reachable order_step.place [OF demo_new(3), of demo_book False]
  unfolding order_reachable_def demo_after_def by (meson rtranclp.rtrancl_into_rtrancl)

text \<open>The matches of the examples, computed in units.\<close>

lemma demo_rem: "rem ask_a = 5000000" "rem ask_b = 5000000" "rem demo_taker = 7000000" "rem demo_ioc = 20000000"
  unfolding rem_def ask_a_def ask_b_def demo_taker_def demo_ioc_def
  by (simp_all add: new_demo_order shareCap_def PriceScale_def)

lemma demo_mids: "place_mids demo_taker demo_book = [''a'', ''b'']" "place_mids demo_ioc demo_book = [''a'', ''b'']"
  by code_simp+

lemma demo_ids: "o_ID demo_taker = ''c''" "o_ID demo_ioc = ''d''"
  by (simp_all add: demo_taker_def demo_ioc_def demo_order_def)

lemma demo_fills: "place_fills demo_taker demo_book = [5000000, 2000000]"
  "place_fills demo_ioc demo_book = [5000000, 5000000]"
  by (simp_all add: place_fills_def match_fills_def demo_mids demo_rem demo_ids look_def demo_lookup)

lemma demo_entry: "map_of demo_after ''b'' = Some (apply_fill (o_CreatedAt demo_taker) 2000000 ask_b)"
  "map_of demo_after ''a'' = Some (apply_fill (o_CreatedAt demo_taker) 5000000 ask_a)"
  "fil (apply_fill (o_CreatedAt demo_taker) 2000000 ask_b) = 2000000"
  "fil (apply_fill (o_CreatedAt demo_taker) 5000000 ask_a) = 5000000"
proof -
  have e: "entries_ok demo_book" using store_inv_reachable(3) [OF demo_book_reachable] .
  obtain os' where "orderRepoPlace False demo_taker demo_book
      = (Inr (CentsToFloat (place_refund demo_taker demo_book), placed_order demo_taker demo_book), os')"
    "map_of os' = placed demo_taker demo_book"
    using place_result [OF e demo_fresh(1)] by metis
  then have m: "map_of demo_after = placed demo_taker demo_book" by (simp add: demo_after_def)
  have f: "fill_of demo_taker demo_book ''a'' = 5000000" "fill_of demo_taker demo_book ''b'' = 2000000"
    by (simp_all add: fill_of_def demo_mids demo_fills)
  note a = placed_entry [OF e demo_fresh(1) demo_lookup(1)] and b = placed_entry [OF e demo_fresh(1) demo_lookup(2)]
  show "map_of demo_after ''b'' = Some (apply_fill (o_CreatedAt demo_taker) 2000000 ask_b)"
    "map_of demo_after ''a'' = Some (apply_fill (o_CreatedAt demo_taker) 5000000 ask_a)"
    "fil (apply_fill (o_CreatedAt demo_taker) 2000000 ask_b) = 2000000"
    "fil (apply_fill (o_CreatedAt demo_taker) 5000000 ask_a) = 5000000"
    using a(1,3) b(1,3) f m demo_units by simp_all
qed

section \<open>One placement\<close>

text \<open>
  C11: Placing a validated order under a new identifier and key always succeeds; its filled
  units are the sum of what the other orders gain, an order gains only if it is a matching
  candidate and never beyond its amount, and nothing else about any stored order changes
  but its status and fill time.
\<close>

theorem place_conserves_fills:
  assumes "order_reachable os" "fresh_order v os"
  shows "\<exists>refund v' os'. orderRepoPlace False v os = (Inr (refund, v'), os')
    \<and> map_of os' (o_ID v) = Some v' \<and> keys os' = insert (o_ID v) (keys os)
    \<and> amt v' = amt v \<and> fil v' \<le> amt v
    \<and> fil v' = (\<Sum>k \<in> keys os. fil (look os' k) - fil (look os k))
    \<and> (\<forall>k w. map_of os k = Some w \<longrightarrow> (\<exists>w'. map_of os' k = Some w'
        \<and> w' = w\<lparr>o_FilledAmount := o_FilledAmount w', o_Status := o_Status w', o_FilledAt := o_FilledAt w'\<rparr>
        \<and> fil w \<le> fil w' \<and> fil w' \<le> amt w
        \<and> (\<not> isCandidate v w \<longrightarrow> w' = w)))"
proof -
  have e: "entries_ok os" using store_inv_reachable(3) [OF assms(1)] .
  obtain os' where os': "orderRepoPlace False v os
      = (Inr (CentsToFloat (place_refund v os), placed_order v os), os')" "map_of os' = placed v os"
    using place_result [OF e assms(2)] by metis
  note p = placed_entry [OF e assms(2)]
  have entry: "\<exists>w'. map_of os' k = Some w'
      \<and> w' = w\<lparr>o_FilledAmount := o_FilledAmount w', o_Status := o_Status w', o_FilledAt := o_FilledAt w'\<rparr>
      \<and> fil w \<le> fil w' \<and> fil w' \<le> amt w \<and> (\<not> isCandidate v w \<longrightarrow> w' = w)"
    if w: "map_of os k = Some w" for k w
  proof -
    let ?w' = "apply_fill (o_CreatedAt v) (fill_of v os k) w"
    have "?w' = w\<lparr>o_FilledAmount := o_FilledAmount ?w', o_Status := o_Status ?w', o_FilledAt := o_FilledAt ?w'\<rparr>"
      by (simp add: apply_fill_def add_fill_def)
    moreover have "fil w \<le> fil ?w'" "fil ?w' \<le> amt w" "\<not> isCandidate v w \<longrightarrow> ?w' = w"
      using p(3) [OF w] fill_of_ok [OF e assms(2) w] fill_of_same [OF e assms(2) w] by (auto simp: rem_def)
    ultimately show ?thesis using p(1) [OF w] os'(2) by auto
  qed
  have "fil (look os' k) - fil (look os k) = fill_of v os k" if "k \<in> keys os" for k
  proof -
    obtain w where w: "map_of os k = Some w" using \<open>k \<in> keys os\<close> by (auto simp: keys_map_of)
    then show ?thesis using p(1,3) [OF w] os'(2) by (simp add: look_def)
  qed
  moreover have "sum (fill_of v os) (keys os) = sum_list (place_fills v os)"
    using sum_fill_of_keys [OF e assms(2)] .
  moreover have "keys os' = insert (o_ID v) (keys os)" using keys_placed [OF e assms(2) os'(2)] .
  moreover have "map_of os' (o_ID v) = Some (placed_order v os)" using os'(2) by (simp add: placed_def)
  ultimately show ?thesis
    using os'(1) entry placed_exact(2,3) [OF e assms(2)] exact_placed_raw [OF e assms(2)] by auto
qed

theorem place_conserves_fills_witness:
  "\<exists>refund v' os'. orderRepoPlace False demo_taker demo_book = (Inr (refund, v'), os')
    \<and> fil v' = (\<Sum>k \<in> keys demo_book. fil (look os' k) - fil (look demo_book k))"
  using place_conserves_fills [OF demo_book_reachable demo_fresh(1)] by metis

text \<open>
  C12: Price-time priority: when two open orders both cross the placed order and the first
  has the better price, or the same price and the earlier time (then the smaller
  identifier), the second gains a fill only if the first has been filled completely.
\<close>

theorem price_time_priority:
  assumes "order_reachable os" "fresh_order v os"
    and "map_of os k1 = Some w1" "map_of os k2 = Some w2" "isCandidate v w1" "isCandidate v w2"
    and "betterMaker (o_Type v) w1 w2"
    and "map_of (snd (orderRepoPlace False v os)) k1 = Some w1'"
    and "map_of (snd (orderRepoPlace False v os)) k2 = Some w2'"
    and "fil w2 < fil w2'"
  shows "fil w1' = amt w1 \<and> o_Status w1' = ''filled''"
proof -
  have e: "entries_ok os" using store_inv_reachable(3) [OF assms(1)] .
  obtain os' where os': "orderRepoPlace False v os
      = (Inr (CentsToFloat (place_refund v os), placed_order v os), os')" "map_of os' = placed v os"
    using place_result [OF e assms(2)] by metis
  note p1 = placed_entry [OF e assms(2,3)] and p2 = placed_entry [OF e assms(2,4)]
  have w1': "w1' = apply_fill (o_CreatedAt v) (fill_of v os k1) w1" using p1(1) assms(8) os' by simp
  have "0 < fill_of v os k2" using p2(1,3) assms(9,10) os' by simp
  then have u: "fill_of v os k1 = rem w1"
    using priority_used_up [OF e assms(2-7)] by simp
  have "0 < rem w1" using open_rem entries_okD [OF e assms(3)] assms(5) by (simp add: isCandidate_def)
  then show ?thesis using p1(3) u w1' by (simp add: rem_def apply_fill_def)
qed

theorem price_time_priority_witness:
  "\<exists>w. map_of demo_after ''a'' = Some w \<and> o_Status w = ''filled'' \<and> fil w = 5000000"
proof -
  have c: "isCandidate demo_taker ask_a" "isCandidate demo_taker ask_b"
    "betterMaker (o_Type demo_taker) ask_a ask_b" by code_simp+
  obtain w1' w2' where "map_of demo_after ''a'' = Some w1'" "map_of demo_after ''b'' = Some w2'"
    "fil w2' = 2000000" using demo_entry by metis
  then show ?thesis
    using price_time_priority [OF demo_book_reachable demo_fresh(1) demo_lookup c] demo_units(1,3)
    unfolding demo_after_def by auto
qed

text \<open>
  C13: The book is never left crossed: in every reachable store, an open buy and an open
  sell order of one merchant, market, option and currency, from different users, have the
  buy price strictly below the sell price.
\<close>

theorem book_never_crossed:
  assumes "order_reachable os" "map_of os k1 = Some b" "map_of os k2 = Some s"
    and "is_open b" "is_open s" "sameBook b s" "o_UserID b \<noteq> o_UserID s"
    and "o_Type b = ''buy''" "o_Type s = ''sell''"
  shows "f_lt (o_Price b) (o_Price s)"
  using store_inv_reachable(1) [OF assms(1)] assms(2-) unfolding book_ok_def uncrossed_def by blast

definition bid_low :: order where "bid_low = demo_order ''e'' ''dave'' ''buy'' 1000000 300000 ''gtc'' 5"

theorem book_never_crossed_witness:
  "f_lt (o_Price bid_low) (o_Price ask_a)"
proof -
  let ?os = "snd (orderRepoPlace False bid_low demo_book)"
  have "new_order bid_low"
    unfolding bid_low_def by (rule new_demo_order; simp add: shareCap_def PriceScale_def)
  then have "order_reachable ?os"
    using demo_book_reachable order_step.place [of bid_low demo_book False]
    unfolding order_reachable_def by (meson rtranclp.rtrancl_into_rtrancl)
  moreover have "map_of ?os ''e'' = Some bid_low" "map_of ?os ''a'' = Some ask_a"
    "is_open bid_low" "is_open ask_a" "sameBook bid_low ask_a" "o_UserID bid_low \<noteq> o_UserID ask_a"
    "o_Type bid_low = ''buy''" "o_Type ask_a = ''sell''"
    by code_simp+
  ultimately show ?thesis by (rule book_never_crossed)
qed

text \<open>
  In every reachable store an order sits under its own identifier, its amounts and
  price are exact, its fill never exceeds its amount, and its status says how much is
  filled: nothing when pending, some but not all when partial, all when filled, not all
  when cancelled.
\<close>

theorem order_status_consistent:
  assumes "order_reachable os" "map_of os k = Some v"
  shows "o_ID v = k \<and> 0 < amt v \<and> 0 \<le> fil v \<and> fil v \<le> amt v
    \<and> o_Amount v = SharesToFloat (amt v) \<and> o_FilledAmount v = SharesToFloat (fil v)
    \<and> (o_Status v = ''pending'' \<and> fil v = 0
       \<or> o_Status v = ''partial'' \<and> 0 < fil v \<and> fil v < amt v
       \<or> o_Status v = ''filled'' \<and> fil v = amt v
       \<or> o_Status v = ''cancelled'' \<and> fil v < amt v)"
  using entries_okD [OF store_inv_reachable(3) [OF assms(1)] assms(2)]
  by (auto simp: order_ok_def exact_def shares_def status_ok_def)

theorem order_status_consistent_witness:
  "o_ID ask_a = ''a'' \<and> fil ask_a \<le> amt ask_a"
  using order_status_consistent [OF demo_book_reachable demo_lookup(1)] by simp

text \<open>
  Both sides of a book are filled alike: in every reachable store, for every merchant,
  market, option and currency, the filled units of the buy orders add up to the filled
  units of the sell orders.
\<close>

theorem fills_balance:
  assumes "order_reachable os"
  shows "filled_total os ''buy'' b = filled_total os ''sell'' b"
  using store_inv_reachable(2) [OF assms] unfolding balanced_def by blast

theorem fills_balance_witness:
  "filled_total demo_after ''buy'' (''m'', ''k'', ''yes'', ''USD'') = 7000000
   \<and> filled_total demo_after ''sell'' (''m'', ''k'', ''yes'', ''USD'') = 7000000"
proof -
  let ?b = "(''m'', ''k'', ''yes'', ''USD'')"
  have e: "entries_ok demo_book" using store_inv_reachable(3) [OF demo_book_reachable] .
  obtain os' where "orderRepoPlace False demo_taker demo_book
      = (Inr (CentsToFloat (place_refund demo_taker demo_book), placed_order demo_taker demo_book), os')"
    "map_of os' = placed demo_taker demo_book"
    using place_result [OF e demo_fresh(1)] by metis
  then have "map_of demo_after = placed demo_taker demo_book" by (simp add: demo_after_def)
  from filled_total_placed [OF e demo_fresh(1) this, of "''buy''" ?b]
  have "filled_total demo_after ''buy'' ?b = filled_total demo_book ''buy'' ?b + 7000000"
    by (simp add: demo_fills) (simp add: demo_taker_def demo_order_def book_key_def)
  moreover have "filled_total demo_book ''buy'' ?b = 0"
    by (simp add: filled_total_def demo_book_eq side_fill_def demo_units ask_a_def ask_b_def demo_order_def)
  ultimately show ?thesis using fills_balance [OF demo_after_reachable, of ?b] by simp
qed

text \<open>
  An immediate-or-cancel order never rests: once placed it is filled or cancelled, and
  it is cancelled only when every order it crosses has been used up.
\<close>

theorem ioc_never_rests:
  assumes "order_reachable os" "fresh_order v os" "o_TimeInForce v = ''ioc''"
    and "map_of (snd (orderRepoPlace False v os)) (o_ID v) = Some v'"
  shows "(o_Status v' = ''filled'' \<and> fil v' = amt v) \<or>
    (o_Status v' = ''cancelled'' \<and> (\<forall>k w w'. map_of os k = Some w \<longrightarrow> isCandidate v w \<longrightarrow>
       map_of (snd (orderRepoPlace False v os)) k = Some w' \<longrightarrow> o_Status w' = ''filled''))"
proof -
  have e: "entries_ok os" using store_inv_reachable(3) [OF assms(1)] .
  obtain os' where os': "orderRepoPlace False v os
      = (Inr (CentsToFloat (place_refund v os), placed_order v os), os')" "map_of os' = placed v os"
    using place_result [OF e assms(2)] by metis
  have v': "v' = placed_order v os" using assms(4) os' by (simp add: placed_def)
  note x = placed_exact [OF e assms(2)] and b = exact_placed_raw [OF e assms(2)]
  have no: "\<not> is_open v'" using placed_open [OF e assms(2)] assms(3) by (simp add: v')
  show ?thesis
  proof (cases "sum_list (place_fills v os) < amt v")
    case True
    have "o_Status w' = ''filled''"
      if w: "map_of os k = Some w" "isCandidate v w" "map_of os' k = Some w'" for k w w'
    proof -
      have "w' = apply_fill (o_CreatedAt v) (rem w) w"
        using placed_entry(1) [OF e assms(2) w(1)] unsatisfied_used_up [OF e assms(2) w(1,2) True] w(3) os'
        by simp
      moreover have "0 < rem w"
        using open_rem entries_okD [OF e w(1)] w(2) by (simp add: isCandidate_def)
      ultimately show ?thesis by (simp add: apply_fill_def rem_def)
    qed
    then show ?thesis
      using no x v' True os' by (auto simp: order_ok_def status_ok_def is_open_def)
  next
    case False
    then show ?thesis
      using no x v' b by (auto simp: order_ok_def status_ok_def is_open_def)
  qed
qed

theorem ioc_never_rests_witness:
  "\<exists>v'. map_of (snd (orderRepoPlace False demo_ioc demo_book)) ''d'' = Some v' \<and> o_Status v' = ''cancelled''"
proof -
  have c: "o_TimeInForce demo_ioc = ''ioc''" "o_ID demo_ioc = ''d''" by code_simp+
  have e: "entries_ok demo_book" using store_inv_reachable(3) [OF demo_book_reachable] .
  obtain os' where o: "orderRepoPlace False demo_ioc demo_book
      = (Inr (CentsToFloat (place_refund demo_ioc demo_book), placed_order demo_ioc demo_book), os')"
    "map_of os' = placed demo_ioc demo_book"
    using place_result [OF e demo_fresh(2)] by metis
  then have "map_of (snd (orderRepoPlace False demo_ioc demo_book)) (o_ID demo_ioc) = Some (placed_order demo_ioc demo_book)"
    by (simp add: placed_def)
  moreover have "fil (placed_order demo_ioc demo_book) = 10000000"
    using placed_exact(3) [OF e demo_fresh(2)] by (simp add: demo_fills)
  ultimately show ?thesis
    using ioc_never_rests [OF demo_book_reachable demo_fresh(2) c(1)] c(2) demo_units(4) by fastforce
qed

text \<open>
  C14: The iteration order of the Go map does not matter: on two listings of the same
  entries, placing an order returns the same refund and the same order and leaves the
  same entries.
\<close>

theorem place_iteration_order:
  assumes "order_reachable os1" "mset os1 = mset os2" "fresh_order v os1"
  shows "fst (orderRepoPlace False v os1) = fst (orderRepoPlace False v os2)
    \<and> map_of (snd (orderRepoPlace False v os1)) = map_of (snd (orderRepoPlace False v os2))"
proof -
  have e: "entries_ok os1" using store_inv_reachable(3) [OF assms(1)] .
  note o = place_order_free [OF e assms(3,2)]
  obtain x where "orderRepoPlace False v os1
      = (Inr (CentsToFloat (place_refund v os1), placed_order v os1), x)" "map_of x = placed v os1"
    using place_result [OF e assms(3)] by metis
  moreover obtain y where "orderRepoPlace False v os2
      = (Inr (CentsToFloat (place_refund v os2), placed_order v os2), y)" "map_of y = placed v os2"
    using place_result [OF o(4,5)] by metis
  ultimately show ?thesis using o(1-3) by (simp add: placed_order_def)
qed

theorem place_iteration_order_witness:
  "fst (orderRepoPlace False demo_taker demo_book) = fst (orderRepoPlace False demo_taker (rev demo_book))"
  using place_iteration_order [OF demo_book_reachable _ demo_fresh(1), of "rev demo_book"] by simp

section \<open>Cancelling\<close>

text \<open>
  Cancelling an open order marks it cancelled, changes nothing else in the store and
  returns exactly its unfilled shares; an order that is filled or already cancelled is
  refused and the store is left as it is.
\<close>

theorem cancel_exact:
  assumes "order_reachable os" "map_of os k = Some v"
  shows "if o_Status v = ''pending'' \<or> o_Status v = ''partial''
    then orderRepoCancel False k os = (Inr (v\<lparr>o_Status := ''cancelled''\<rparr>, SharesToFloat (amt v - fil v)),
        put k (v\<lparr>o_Status := ''cancelled''\<rparr>) os) \<and> 0 < amt v - fil v
    else orderRepoCancel False k os = (Inl (Sentinel OrderErrNotCancellable), os)"
  using cancel_spec [OF store_inv_reachable(3) [OF assms(1)] assms(2)]
    open_rem [of v] entries_okD [OF store_inv_reachable(3) [OF assms(1)] assms(2)]
  by (auto simp: is_open_def rem_def)

theorem cancel_exact_witness:
  "orderRepoCancel False ''a'' demo_book
     = (Inr (ask_a\<lparr>o_Status := ''cancelled''\<rparr>, SharesToFloat 5000000),
        put ''a'' (ask_a\<lparr>o_Status := ''cancelled''\<rparr>) demo_book)"
proof -
  have "o_Status ask_a = ''pending''" by code_simp
  then show ?thesis using cancel_exact [OF demo_book_reachable demo_lookup(1)] demo_units by simp
qed

section \<open>Cursor pages\<close>

lemma filter_after_cursor:
  assumes "sorted_wrt ordersCursorFirst (xs @ v # ys)"
  shows "filter (\<lambda>w. afterCursor w (Some \<lparr>cu_CreatedAt = o_CreatedAt v, cu_ID = o_ID v\<rparr>)) (xs @ v # ys) = ys"
proof -
  have "afterCursor w (Some \<lparr>cu_CreatedAt = o_CreatedAt v, cu_ID = o_ID v\<rparr>) \<longleftrightarrow> ordersCursorFirst v w" for w
    by (auto simp: afterCursor_def ordersCursorFirst_def)
  moreover have "\<not> ordersCursorFirst v w" if "w \<in> set xs" for w
    using assms that cursors.lt_asym by (auto simp: sorted_wrt_append)
  moreover have "\<not> ordersCursorFirst v v" using cursors.lt_irrefl by simp
  moreover have "ordersCursorFirst v w" if "w \<in> set ys" for w
    using assms that by (simp add: sorted_wrt_append)
  ultimately show ?thesis by (auto simp: filter_empty_conv filter_id_conv)
qed

definition cursor_of :: "order \<Rightarrow> cursor" where
  "cursor_of v = \<lparr>cu_CreatedAt = o_CreatedAt v, cu_ID = o_ID v\<rparr>"

text \<open>
  Cursor pages enumerate a listing without gaps or repetitions: the matching orders
  form one list, newest first, of which the first page is a prefix of one more than the
  limit, and the page after the cursor of any of its orders is such a prefix of the rest.
\<close>

theorem cursor_pages:
  assumes "order_reachable os" "0 \<le> lf_Limit F"
  shows "\<exists>S. set S = {v \<in> snd ` set os. matchesOrderFilters v F} \<and> distinct (map o_ID S)
    \<and> sorted_wrt ordersCursorFirst S
    \<and> orderRepoListAfter False F None os = Inr (take (nat (lf_Limit F + 1)) S)
    \<and> (\<forall>xs v ys. S = xs @ v # ys \<longrightarrow>
         orderRepoListAfter False F (Some (cursor_of v)) os = Inr (take (nat (lf_Limit F + 1)) ys))"
proof -
  let ?vs = "filter (\<lambda>v. matchesOrderFilters v F) (map snd os)"
  let ?S = "sort_by ordersCursorFirst ?vs"
  have d: "distinct (map o_ID ?vs)"
    using distinct_map_filter_sub [OF distinct_entry_ids [OF store_inv_reachable(3) [OF assms(1)]]] .
  have sorted: "sorted_wrt ordersCursorFirst ?S" by (rule cursors.sorted_sort_by) (simp_all add: d)
  have cut: "(if int (length xs) > lf_Limit F + 1 then take (nat (lf_Limit F + 1)) xs else xs)
      = take (nat (lf_Limit F + 1)) xs" for xs :: "order list"
    using assms(2) by auto
  have list: "orderRepoListAfter False F c os
      = Inr (take (nat (lf_Limit F + 1)) (filter (\<lambda>w. afterCursor w c) ?S))" for c
  proof -
    have "filter (\<lambda>v. matchesOrderFilters v F \<and> afterCursor v c) (map snd os)
        = filter (\<lambda>w. afterCursor w c) ?vs" by (simp add: conj_commute)
    moreover have "sort_by ordersCursorFirst (filter (\<lambda>w. afterCursor w c) ?vs)
        = filter (\<lambda>w. afterCursor w c) ?S"
      by (rule cursors.sort_by_filter) (simp_all add: d)
    ultimately show ?thesis unfolding orderRepoListAfter_def Let_def by (simp add: cut)
  qed
  have "mset (map o_ID ?S) = mset (map o_ID ?vs)" by simp
  then have dS: "distinct (map o_ID ?S)" using d by (metis mset_eq_imp_distinct_iff)
  have "filter (\<lambda>w. afterCursor w None) ?S = ?S" by (simp add: afterCursor_def)
  moreover have "filter (\<lambda>w. afterCursor w (Some (cursor_of v))) ?S = ys" if "?S = xs @ v # ys" for xs v ys
    using filter_after_cursor [of xs v ys] sorted that by (simp add: cursor_of_def)
  ultimately show ?thesis
    using list sorted dS by (intro exI [of _ ?S]) auto
qed

end
