(* ===== verification/WalletRepo.thy ===== *)
theory WalletRepo
  imports DomainTypes
begin

text \<open>
  \<^verbatim>\<open>internal/wallet/memory_repository.go\<close> and \<^verbatim>\<open>repository.go\<close>: the in-memory wallet store.
  Every operation takes the store and returns a result with the new store. The code
  mutates the stored struct through a pointer, so the model writes the entry back field
  by field, in the code's order: what a panic in the middle leaves behind is visible.
  The contract of the store is the locale \<open>wallet_store\<close> in cents.
\<close>

section \<open>State\<close>

record walletKey =
  wk_MerchantID :: string
  wk_UserID :: string
  wk_Currency :: string

record walletRepo =
  wr_byID :: "(string \<times> wallet) list"
  wr_idByKey :: "walletKey \<Rightarrow> string option"
  wr_transactions :: "(string \<times> transaction) list"
  wr_txByIdempotency :: "string \<times> string \<Rightarrow> string option"

definition newWalletRepo :: walletRepo where
  "newWalletRepo = \<lparr>wr_byID = [], wr_idByKey = Map.empty, wr_transactions = [],
     wr_txByIdempotency = Map.empty\<rparr>"

definition keyFromWallet :: "wallet \<Rightarrow> walletKey" where
  "keyFromWallet value = \<lparr>wk_MerchantID = w_MerchantID value, wk_UserID = w_UserID value,
     wk_Currency = w_Currency value\<rparr>"

section \<open>Money on floats\<close>

text \<open>\<^verbatim>\<open>storedCents\<close> panics on a stored amount that does not convert.\<close>

definition storedCents :: "float64 \<Rightarrow> int res" where
  "storedCents value =
     (if f_eq value (Fin 0) then Inr 0
      else case CentsFromFloat value of
          Inl err \<Rightarrow> Inl (Panic ''stored wallet amount is invalid'')
        | Inr cents \<Rightarrow> Inr cents)"

definition addMoney :: "float64 \<Rightarrow> float64 \<Rightarrow> float64 res" where
  "addMoney current amount = bind_res (storedCents current) (\<lambda>c. bind_res (storedCents amount)
     (\<lambda>a. Inr (CentsToFloat (i64 (c + a)))))"

definition subtractMoney :: "float64 \<Rightarrow> float64 \<Rightarrow> float64 res" where
  "subtractMoney current amount = bind_res (storedCents current) (\<lambda>c. bind_res (storedCents amount)
     (\<lambda>a. Inr (CentsToFloat (i64 (c - a)))))"

definition moneyLessThan :: "float64 \<Rightarrow> float64 \<Rightarrow> bool res" where
  "moneyLessThan current amount = bind_res (storedCents current) (\<lambda>c. bind_res (storedCents amount)
     (\<lambda>a. Inr (c < a)))"

section \<open>Operations\<close>

definition walletValidateMerchant :: "bool \<Rightarrow> string \<Rightarrow> unit res" where
  "walletValidateMerchant ctxDone merchantID = (if ctxDone then Inl CtxErr else Inr ())"

definition nilPointer :: go_error where
  "nilPointer = Panic ''invalid memory address or nil pointer dereference''"

definition walletRepoCreate :: "bool \<Rightarrow> wallet \<Rightarrow> walletRepo \<Rightarrow> unit res \<times> walletRepo" where
  "walletRepoCreate ctxDone value r =
     (if ctxDone then (Inl CtxErr, r)
      else let key = keyFromWallet value in
        if wr_idByKey r key \<noteq> None then (Inl (Sentinel WalletErrAlreadyExists), r)
        else if map_of (wr_byID r) (w_ID value) \<noteq> None
          then (Inl (Plain (''wallet ID already exists: '' @ w_ID value)), r)
        else (Inr (), r\<lparr>wr_byID := put (w_ID value) value (wr_byID r),
                        wr_idByKey := (wr_idByKey r)(key \<mapsto> w_ID value)\<rparr>))"

definition walletRepoGet :: "bool \<Rightarrow> walletKey \<Rightarrow> walletRepo \<Rightarrow> wallet res" where
  "walletRepoGet ctxDone key r =
     (if ctxDone then Inl CtxErr
      else case wr_idByKey r key of
          None \<Rightarrow> Inl (Sentinel WalletErrNotFound)
        | Some walletID \<Rightarrow> (case map_of (wr_byID r) walletID of
            None \<Rightarrow> Inl nilPointer
          | Some value \<Rightarrow> Inr value))"

text \<open>
  \<^verbatim>\<open>walletForUpdate\<close> returns the pointer; the model returns the key of the entry with the
  struct it points to.
\<close>

definition walletForUpdate :: "walletKey \<Rightarrow> walletRepo \<Rightarrow> (string \<times> wallet) res" where
  "walletForUpdate key r =
     (case wr_idByKey r key of
        None \<Rightarrow> Inl (Sentinel WalletErrNotFound)
      | Some walletID \<Rightarrow> (case map_of (wr_byID r) walletID of
          None \<Rightarrow> Inl nilPointer
        | Some stored \<Rightarrow> Inr (walletID, stored)))"

text \<open>Write a struct back through its pointer.\<close>

definition storeWallet :: "string \<Rightarrow> wallet \<Rightarrow> walletRepo \<Rightarrow> walletRepo" where
  "storeWallet walletID w r = r\<lparr>wr_byID := put walletID w (wr_byID r)\<rparr>"

text \<open>
  \<^verbatim>\<open>Credit\<close> in three parts: find or create the wallet, the duplicate checks, the
  payment into the stored wallet.
\<close>

definition ensureWallet :: "wallet \<Rightarrow> walletRepo \<Rightarrow> string \<times> walletRepo" where
  "ensureWallet wallet r =
     (let key = keyFromWallet wallet in
      case wr_idByKey r key of
        Some walletID \<Rightarrow> (walletID, r)
      | None \<Rightarrow> (w_ID wallet, r\<lparr>wr_byID := put (w_ID wallet) wallet (wr_byID r),
                  wr_idByKey := (wr_idByKey r)(key \<mapsto> w_ID wallet)\<rparr>))"

definition payIn :: "string \<Rightarrow> transaction \<Rightarrow> walletRepo \<Rightarrow> unit res \<times> walletRepo" where
  "payIn walletID transaction r =
     (case map_of (wr_byID r) walletID of
        None \<Rightarrow> (Inl nilPointer, r)
      | Some stored \<Rightarrow> (case addMoney (w_Balance stored) (t_Amount transaction) of
          Inl err \<Rightarrow> (Inl err, r)
        | Inr balance \<Rightarrow>
            let r3 = storeWallet walletID (stored\<lparr>w_Balance := balance,
                       w_UpdatedAt := t_CreatedAt transaction\<rparr>) r;
                stamped = transaction\<lparr>t_WalletID := walletID\<rparr>
            in (Inr (), r3\<lparr>wr_transactions :=
                  put (t_ID transaction) stamped (wr_transactions r3)\<rparr>)))"

definition creditWallet :: "string \<Rightarrow> transaction \<Rightarrow> walletRepo \<Rightarrow> unit res \<times> walletRepo" where
  "creditWallet walletID transaction r =
     (if map_of (wr_transactions r) (t_ID transaction) \<noteq> None
        then (Inl (Plain (''transaction ID already exists: '' @ t_ID transaction)), r)
      else if t_IdempotencyKey transaction \<noteq> [] then
        (if wr_txByIdempotency r (walletID, t_IdempotencyKey transaction) \<noteq> None
           then (Inl (Sentinel WalletErrAlreadyExists), r)
         else payIn walletID transaction (r\<lparr>wr_txByIdempotency := (wr_txByIdempotency r)
                ((walletID, t_IdempotencyKey transaction) \<mapsto> t_ID transaction)\<rparr>))
      else payIn walletID transaction r)"

definition walletRepoCredit ::
  "bool \<Rightarrow> wallet \<Rightarrow> transaction \<Rightarrow> walletRepo \<Rightarrow> unit res \<times> walletRepo" where
  "walletRepoCredit ctxDone wallet transaction r =
     (if ctxDone then (Inl CtxErr, r)
      else case ensureWallet wallet r of
        (walletID, r1) \<Rightarrow> creditWallet walletID transaction r1)"

definition walletRepoDebit ::
  "bool \<Rightarrow> walletKey \<Rightarrow> float64 \<Rightarrow> transaction \<Rightarrow> time \<Rightarrow> walletRepo \<Rightarrow> unit res \<times> walletRepo" where
  "walletRepoDebit ctxDone key amount transaction updatedAt r =
     (if ctxDone then (Inl CtxErr, r)
      else case walletForUpdate key r of
          Inl err \<Rightarrow> (Inl err, r)
        | Inr (walletID, stored) \<Rightarrow> (case moneyLessThan (w_Balance stored) amount of
            Inl err \<Rightarrow> (Inl err, r)
          | Inr short \<Rightarrow>
              if short then (Inl (Sentinel WalletErrInsufficientBalance), r)
              else if map_of (wr_transactions r) (t_ID transaction) \<noteq> None
                then (Inl (Plain (''transaction ID already exists: '' @ t_ID transaction)), r)
              else (case subtractMoney (w_Balance stored) amount of
                  Inl err \<Rightarrow> (Inl err, r)
                | Inr balance \<Rightarrow>
                    let r1 = storeWallet walletID (stored\<lparr>w_Balance := balance,
                               w_UpdatedAt := updatedAt\<rparr>) r;
                        stamped = transaction\<lparr>t_WalletID := walletID\<rparr>
                    in (Inr (), r1\<lparr>wr_transactions :=
                          put (t_ID transaction) stamped (wr_transactions r1)\<rparr>))))"

definition walletRepoLock ::
  "bool \<Rightarrow> walletKey \<Rightarrow> float64 \<Rightarrow> time \<Rightarrow> walletRepo \<Rightarrow> unit res \<times> walletRepo" where
  "walletRepoLock ctxDone key amount updatedAt r =
     (if ctxDone then (Inl CtxErr, r)
      else case walletForUpdate key r of
          Inl err \<Rightarrow> (Inl err, r)
        | Inr (walletID, stored) \<Rightarrow> (case moneyLessThan (w_Balance stored) amount of
            Inl err \<Rightarrow> (Inl err, r)
          | Inr short \<Rightarrow>
              if short then (Inl (Sentinel WalletErrInsufficientBalance), r)
              else (case subtractMoney (w_Balance stored) amount of
                  Inl err \<Rightarrow> (Inl err, r)
                | Inr balance \<Rightarrow>
                    let s1 = stored\<lparr>w_Balance := balance\<rparr> in
                    (case addMoney (w_LockedBalance s1) amount of
                        Inl err \<Rightarrow> (Inl err, storeWallet walletID s1 r)
                      | Inr locked \<Rightarrow> (Inr (), storeWallet walletID
                            (s1\<lparr>w_LockedBalance := locked, w_UpdatedAt := updatedAt\<rparr>) r)))))"

definition walletRepoUnlock ::
  "bool \<Rightarrow> walletKey \<Rightarrow> float64 \<Rightarrow> time \<Rightarrow> walletRepo \<Rightarrow> unit res \<times> walletRepo" where
  "walletRepoUnlock ctxDone key amount updatedAt r =
     (if ctxDone then (Inl CtxErr, r)
      else case walletForUpdate key r of
          Inl err \<Rightarrow> (Inl err, r)
        | Inr (walletID, stored) \<Rightarrow> (case moneyLessThan (w_LockedBalance stored) amount of
            Inl err \<Rightarrow> (Inl err, r)
          | Inr short \<Rightarrow>
              if short then (Inl (Sentinel WalletErrInsufficientLocked), r)
              else (case subtractMoney (w_LockedBalance stored) amount of
                  Inl err \<Rightarrow> (Inl err, r)
                | Inr locked \<Rightarrow>
                    let s1 = stored\<lparr>w_LockedBalance := locked\<rparr> in
                    (case addMoney (w_Balance s1) amount of
                        Inl err \<Rightarrow> (Inl err, storeWallet walletID s1 r)
                      | Inr balance \<Rightarrow> (Inr (), storeWallet walletID
                            (s1\<lparr>w_Balance := balance, w_UpdatedAt := updatedAt\<rparr>) r)))))"

text \<open>The transaction history of a user, newest first, one page of it.\<close>

definition txNewestFirst :: "transaction \<Rightarrow> transaction \<Rightarrow> bool" where
  "txNewestFirst a b = (if t_CreatedAt a = t_CreatedAt b then t_ID a < t_ID b
     else t_CreatedAt b < t_CreatedAt a)"

fun ownedTransactions ::
  "(string \<times> wallet) list \<Rightarrow> string \<Rightarrow> string \<Rightarrow> (string \<times> transaction) list \<Rightarrow> transaction list res" where
  "ownedTransactions byID merchantID userID [] = Inr []"
| "ownedTransactions byID merchantID userID ((k, transaction) # rest) =
     (case map_of byID (t_WalletID transaction) of
        None \<Rightarrow> Inl nilPointer
      | Some wallet \<Rightarrow> bind_res (ownedTransactions byID merchantID userID rest) (\<lambda>values.
          Inr (if w_MerchantID wallet = merchantID \<and> w_UserID wallet = userID
               then transaction # values else values)))"

definition walletRepoListTransactions ::
  "bool \<Rightarrow> string \<Rightarrow> string \<Rightarrow> int \<Rightarrow> int \<Rightarrow> walletRepo \<Rightarrow> (transaction list \<times> int) res" where
  "walletRepoListTransactions ctxDone merchantID userID offset limit r =
     (if ctxDone then Inl CtxErr
      else bind_res (ownedTransactions (wr_byID r) merchantID userID (wr_transactions r))
        (\<lambda>values. Inr (page_slice offset limit (sort_by txNewestFirst values))))"


text \<open>The comparator is a strict total order on transactions with different identifiers.\<close>

interpretation txs: total_comparator txNewestFirst "\<lambda>_. True" t_ID
  by unfold_locales (auto simp: txNewestFirst_def split: if_splits)

section \<open>Money that converts exactly\<close>

text \<open>
  Below \<open>2 ^ 27\<close> currency units the float of an amount of cents converts back to it
  (\<open>CentsFromFloat_CentsToFloat\<close>), so the arithmetic on stored floats is the arithmetic
  on cents.
\<close>

definition moneyCap :: int where "moneyCap = 2 ^ 27 * 100"

definition money :: "float64 \<Rightarrow> int \<Rightarrow> bool" where
  "money f c \<longleftrightarrow> 0 \<le> c \<and> c < moneyCap \<and> f = CentsToFloat c"

lemma CentsToFloat_0 [simp]: "CentsToFloat 0 = Fin 0"
  by (simp add: CentsToFloat_def f_of_int_exact scale_defs)

lemma f_eq_0_iff: "f_eq f (Fin 0) \<longleftrightarrow> f = Fin 0"
  by (cases f) auto

lemma storedCents_CentsToFloat: "0 \<le> c \<Longrightarrow> c < moneyCap \<Longrightarrow> storedCents (CentsToFloat c) = Inr c"
proof (cases "c = 0")
  case True
  then show ?thesis by (simp add: storedCents_def)
next
  case False
  assume "0 \<le> c" "c < moneyCap"
  with False have r: "CentsFromFloat (CentsToFloat c) = Inr c"
    by (intro CentsFromFloat_CentsToFloat) (simp_all add: moneyCap_def)
  moreover have "CentsToFloat c \<noteq> Fin 0"
  proof
    assume "CentsToFloat c = Fin 0"
    with r show False by (simp add: CentsFromFloat_def scaledFromFloat_def f_le_def)
  qed
  ultimately show ?thesis by (simp add: storedCents_def f_eq_0_iff)
qed

lemma storedCents_money: "money f c \<Longrightarrow> storedCents f = Inr c"
  by (simp add: money_def storedCents_CentsToFloat)

lemma money_inj: "money f c \<Longrightarrow> money f d \<Longrightarrow> c = d"
  using storedCents_money [of f c] storedCents_money [of f d] by simp

lemma money_CentsToFloat [simp, intro]: "0 \<le> c \<Longrightarrow> c < moneyCap \<Longrightarrow> money (CentsToFloat c) c"
  by (simp add: money_def)

lemma i64_money: "\<bar>x\<bar> \<le> 2 * moneyCap \<Longrightarrow> i64 x = x"
  by (rule i64_small) (simp add: moneyCap_def)

lemma money_arith:
  assumes "money f b" "money g c"
  shows "moneyLessThan f g = Inr (b < c)"
    and "addMoney f g = Inr (CentsToFloat (b + c))"
    and "subtractMoney f g = Inr (CentsToFloat (b - c))"
proof -
  have "i64 (b + c) = b + c" "i64 (b - c) = b - c"
    using assms by (auto intro!: i64_money simp: money_def)
  then show "moneyLessThan f g = Inr (b < c)" "addMoney f g = Inr (CentsToFloat (b + c))"
    "subtractMoney f g = Inr (CentsToFloat (b - c))"
    using assms by (simp_all add: moneyLessThan_def addMoney_def subtractMoney_def storedCents_money)
qed

section \<open>Invariant and accounts\<close>

text \<open>Both balances of a stored wallet are exact, and so is their sum.\<close>

definition wallet_ok :: "wallet \<Rightarrow> bool" where
  "wallet_ok w \<longleftrightarrow> (\<exists>b l. money (w_Balance w) b \<and> money (w_LockedBalance w) l \<and> b + l < moneyCap)"

definition wallet_inv :: "walletRepo \<Rightarrow> bool" where
  "wallet_inv r \<longleftrightarrow>
     distinct_keys (wr_byID r)
     \<and> (\<forall>i w. map_of (wr_byID r) i = Some w \<longrightarrow>
          w_ID w = i \<and> wr_idByKey r (keyFromWallet w) = Some i \<and> wallet_ok w)
     \<and> (\<forall>k i. wr_idByKey r k = Some i \<longrightarrow>
          (\<exists>w. map_of (wr_byID r) i = Some w \<and> keyFromWallet w = k))"

definition cents_of :: "float64 \<Rightarrow> int" where
  "cents_of f = (case storedCents f of Inl _ \<Rightarrow> 0 | Inr c \<Rightarrow> c)"

lemma cents_of_money: "money f c \<Longrightarrow> cents_of f = c"
  by (simp add: cents_of_def storedCents_money)

text \<open>The account of a key: available and locked cents.\<close>

definition account :: "walletRepo \<Rightarrow> walletKey \<Rightarrow> (int \<times> int) option" where
  "account r k = (case wr_idByKey r k of
      None \<Rightarrow> None
    | Some i \<Rightarrow> map_option (\<lambda>w. (cents_of (w_Balance w), cents_of (w_LockedBalance w)))
        (map_of (wr_byID r) i))"

lemma wallet_inv_empty: "wallet_inv newWalletRepo"
  by (simp add: wallet_inv_def newWalletRepo_def distinct_keys_def)

lemma wallet_inv_byID:
  "wallet_inv r \<Longrightarrow> map_of (wr_byID r) i = Some w \<Longrightarrow>
     w_ID w = i \<and> wr_idByKey r (keyFromWallet w) = Some i \<and> wallet_ok w"
  by (simp add: wallet_inv_def)

lemma wallet_inv_key:
  "wallet_inv r \<Longrightarrow> wr_idByKey r k = Some i \<Longrightarrow>
     \<exists>w. map_of (wr_byID r) i = Some w \<and> keyFromWallet w = k"
  by (simp add: wallet_inv_def)

lemma wallet_inv_lookup:
  assumes "wallet_inv r" "account r k = Some (a, l)"
  obtains i w where "wr_idByKey r k = Some i" "map_of (wr_byID r) i = Some w"
    "w_ID w = i" "keyFromWallet w = k" "money (w_Balance w) a" "money (w_LockedBalance w) l"
    "a + l < moneyCap" "walletForUpdate k r = Inr (i, w)"
proof -
  obtain i w where i: "wr_idByKey r k = Some i" "map_of (wr_byID r) i = Some w"
    and al: "a = cents_of (w_Balance w)" "l = cents_of (w_LockedBalance w)"
    using assms(2) by (auto simp: account_def split: option.splits)
  moreover have "w_ID w = i" "keyFromWallet w = k" "wallet_ok w"
    using wallet_inv_byID [OF assms(1) i(2)] wallet_inv_key [OF assms(1) i(1)] i(2) by auto
  ultimately show ?thesis
    by (intro that [OF i]) (auto simp: wallet_ok_def cents_of_money walletForUpdate_def)
qed

lemma account_None: "account r k = None \<Longrightarrow> wallet_inv r \<Longrightarrow> walletForUpdate k r = Inl (Sentinel WalletErrNotFound)"
  by (auto simp: account_def walletForUpdate_def dest: wallet_inv_key split: option.splits)

text \<open>Writing back a wallet with the same identity keeps the invariant and moves one account.\<close>

lemma storeWallet_inv:
  assumes "wallet_inv r" "map_of (wr_byID r) i = Some w" "w_ID w' = w_ID w"
    "keyFromWallet w' = keyFromWallet w" "wallet_ok w'"
  shows "wallet_inv (storeWallet i w' r)"
proof -
  have "keyFromWallet w' = k" if "wr_idByKey r k = Some i" for k
    using wallet_inv_key [OF assms(1) that] assms(2,4) by auto
  then show ?thesis
    using assms wallet_inv_byID [OF assms(1,2)]
    unfolding wallet_inv_def storeWallet_def by auto
qed

lemma storeWallet_account:
  assumes "wallet_inv r" "wr_idByKey r k = Some i" "map_of (wr_byID r) i = Some w"
  shows "account (storeWallet i w' r) = (account r)
    (k \<mapsto> (cents_of (w_Balance w'), cents_of (w_LockedBalance w')))"
proof
  fix k'
  show "account (storeWallet i w' r) k' =
    ((account r)(k \<mapsto> (cents_of (w_Balance w'), cents_of (w_LockedBalance w')))) k'"
  proof (cases "wr_idByKey r k' = Some i")
    case True
    then have "k' = k"
      using wallet_inv_key [OF assms(1) True] wallet_inv_key [OF assms(1,2)] by auto
    with assms show ?thesis by (simp add: account_def storeWallet_def)
  next
    case False
    with assms have "k' \<noteq> k" by auto
    with False show ?thesis
      by (auto simp: account_def storeWallet_def split: option.splits)
  qed
qed

section \<open>The contract of a wallet store\<close>

text \<open>
  What the order service relies on: on an account with enough funds, locking moves cents
  from available to locked and unlocking moves them back; otherwise nothing changes and
  the error says why. \<open>cap\<close> bounds what an account may hold.
\<close>

locale wallet_store =
  fixes invar :: "'s \<Rightarrow> bool"
    and acct :: "'s \<Rightarrow> walletKey \<Rightarrow> (int \<times> int) option"
    and lock_op unlock_op :: "walletKey \<Rightarrow> int \<Rightarrow> time \<Rightarrow> 's \<Rightarrow> unit res \<times> 's"
    and cap :: int
  assumes acct_bounds: "invar s \<Longrightarrow> acct s k = Some (a, l) \<Longrightarrow> 0 \<le> a \<and> 0 \<le> l \<and> a + l < cap"
    and lock_ok: "invar s \<Longrightarrow> acct s k = Some (a, l) \<Longrightarrow> 0 \<le> c \<Longrightarrow> c \<le> a \<Longrightarrow>
      fst (lock_op k c t s) = Inr () \<and> acct (snd (lock_op k c t s)) = (acct s)(k \<mapsto> (a - c, l + c))"
    and lock_short: "invar s \<Longrightarrow> acct s k = Some (a, l) \<Longrightarrow> a < c \<Longrightarrow> c < cap \<Longrightarrow>
      lock_op k c t s = (Inl (Sentinel WalletErrInsufficientBalance), s)"
    and lock_missing: "invar s \<Longrightarrow> acct s k = None \<Longrightarrow> 0 \<le> c \<Longrightarrow> c < cap \<Longrightarrow>
      lock_op k c t s = (Inl (Sentinel WalletErrNotFound), s)"
    and unlock_ok: "invar s \<Longrightarrow> acct s k = Some (a, l) \<Longrightarrow> 0 \<le> c \<Longrightarrow> c \<le> l \<Longrightarrow>
      fst (unlock_op k c t s) = Inr () \<and> acct (snd (unlock_op k c t s)) = (acct s)(k \<mapsto> (a + c, l - c))"
    and unlock_short: "invar s \<Longrightarrow> acct s k = Some (a, l) \<Longrightarrow> l < c \<Longrightarrow> c < cap \<Longrightarrow>
      unlock_op k c t s = (Inl (Sentinel WalletErrInsufficientLocked), s)"
    and unlock_missing: "invar s \<Longrightarrow> acct s k = None \<Longrightarrow> 0 \<le> c \<Longrightarrow> c < cap \<Longrightarrow>
      unlock_op k c t s = (Inl (Sentinel WalletErrNotFound), s)"
    and invar_lock: "invar s \<Longrightarrow> 0 \<le> c \<Longrightarrow> c < cap \<Longrightarrow> invar (snd (lock_op k c t s))"
    and invar_unlock: "invar s \<Longrightarrow> 0 \<le> c \<Longrightarrow> c < cap \<Longrightarrow> invar (snd (unlock_op k c t s))"
begin

definition holdings :: "'s \<Rightarrow> walletKey \<Rightarrow> int option" where
  "holdings s k = map_option (\<lambda>(a, l). a + l) (acct s k)"

lemma lock_cases:
  assumes "invar s" "0 \<le> c" "c < cap"
  obtains (missing) "acct s k = None" "lock_op k c t s = (Inl (Sentinel WalletErrNotFound), s)"
  | (short) a l where "acct s k = Some (a, l)" "a < c"
      "lock_op k c t s = (Inl (Sentinel WalletErrInsufficientBalance), s)"
  | (moved) a l where "acct s k = Some (a, l)" "c \<le> a" "fst (lock_op k c t s) = Inr ()"
      "acct (snd (lock_op k c t s)) = (acct s)(k \<mapsto> (a - c, l + c))"
  using assms lock_missing lock_short lock_ok by (metis linorder_not_le option.exhaust surj_pair)

lemma unlock_cases:
  assumes "invar s" "0 \<le> c" "c < cap"
  obtains (missing) "acct s k = None" "unlock_op k c t s = (Inl (Sentinel WalletErrNotFound), s)"
  | (short) a l where "acct s k = Some (a, l)" "l < c"
      "unlock_op k c t s = (Inl (Sentinel WalletErrInsufficientLocked), s)"
  | (moved) a l where "acct s k = Some (a, l)" "c \<le> l" "fst (unlock_op k c t s) = Inr ()"
      "acct (snd (unlock_op k c t s)) = (acct s)(k \<mapsto> (a + c, l - c))"
  using assms unlock_missing unlock_short unlock_ok by (metis linorder_not_le option.exhaust surj_pair)

lemma holdings_lock:
  "invar s \<Longrightarrow> 0 \<le> c \<Longrightarrow> c < cap \<Longrightarrow> holdings (snd (lock_op k c t s)) = holdings s"
  by (rule lock_cases [where s = s and c = c and k = k and t = t])
     (auto simp: holdings_def fun_eq_iff)

lemma holdings_unlock:
  "invar s \<Longrightarrow> 0 \<le> c \<Longrightarrow> c < cap \<Longrightarrow> holdings (snd (unlock_op k c t s)) = holdings s"
  by (rule unlock_cases [where s = s and c = c and k = k and t = t])
     (auto simp: holdings_def fun_eq_iff)

text \<open>Unlocking what was locked restores every account.\<close>

lemma lock_unlock:
  assumes "invar s" "acct s k = Some (a, l)" "0 \<le> c" "c \<le> a"
  shows "acct (snd (unlock_op k c t' (snd (lock_op k c t s)))) = acct s"
proof -
  have "c < cap" using acct_bounds [OF assms(1,2)] assms(4) by linarith
  let ?s = "snd (lock_op k c t s)"
  have s: "acct ?s = (acct s)(k \<mapsto> (a - c, l + c))" using lock_ok [OF assms] by simp
  then have k: "acct ?s k = Some (a - c, l + c)" by simp
  have "0 \<le> l" using acct_bounds [OF assms(1,2)] by simp
  then have "acct (snd (unlock_op k c t' ?s)) = (acct ?s)(k \<mapsto> (a, l))"
    using unlock_ok [OF invar_lock [OF assms(1,3) \<open>c < cap\<close>] k assms(3)] by simp
  then show ?thesis using s assms(2) by auto
qed

end


section \<open>The memory repository fulfils the contract\<close>

definition memLock :: "walletKey \<Rightarrow> int \<Rightarrow> time \<Rightarrow> walletRepo \<Rightarrow> unit res \<times> walletRepo" where
  "memLock key cents now r = walletRepoLock False key (CentsToFloat cents) now r"

definition memUnlock :: "walletKey \<Rightarrow> int \<Rightarrow> time \<Rightarrow> walletRepo \<Rightarrow> unit res \<times> walletRepo" where
  "memUnlock key cents now r = walletRepoUnlock False key (CentsToFloat cents) now r"

lemma account_bounds:
  "wallet_inv r \<Longrightarrow> account r k = Some (a, l) \<Longrightarrow> 0 \<le> a \<and> 0 \<le> l \<and> a + l < moneyCap"
  by (erule (1) wallet_inv_lookup) (auto simp: money_def)

lemma walletRepoLock_enough:
  assumes "wallet_inv r" "wr_idByKey r k = Some i" "map_of (wr_byID r) i = Some w"
    "money (w_Balance w) a" "money (w_LockedBalance w) l" "a + l < moneyCap" "0 \<le> c" "c \<le> a"
  shows "walletRepoLock False k (CentsToFloat c) t r = (Inr (), storeWallet i
    (w\<lparr>w_Balance := CentsToFloat (a - c), w_LockedBalance := CentsToFloat (l + c), w_UpdatedAt := t\<rparr>) r)"
proof -
  have c: "money (CentsToFloat c) c" using assms(4,7,8) by (auto simp: money_def)
  have "walletForUpdate k r = Inr (i, w)" using assms(2,3) by (simp add: walletForUpdate_def)
  then show ?thesis
    using money_arith [OF assms(4) c] money_arith [OF assms(5) c] assms(8)
    by (simp add: walletRepoLock_def Let_def)
qed

lemma walletRepoUnlock_enough:
  assumes "wallet_inv r" "wr_idByKey r k = Some i" "map_of (wr_byID r) i = Some w"
    "money (w_Balance w) a" "money (w_LockedBalance w) l" "a + l < moneyCap" "0 \<le> c" "c \<le> l"
  shows "walletRepoUnlock False k (CentsToFloat c) t r = (Inr (), storeWallet i
    (w\<lparr>w_LockedBalance := CentsToFloat (l - c), w_Balance := CentsToFloat (a + c), w_UpdatedAt := t\<rparr>) r)"
proof -
  have c: "money (CentsToFloat c) c" using assms(5,7,8) by (auto simp: money_def)
  have "walletForUpdate k r = Inr (i, w)" using assms(2,3) by (simp add: walletForUpdate_def)
  then show ?thesis
    using money_arith [OF assms(4) c] money_arith [OF assms(5) c] assms(8)
    by (simp add: walletRepoUnlock_def Let_def)
qed

text \<open>A moved balance: the two fields change, identity and invariant stay.\<close>

lemma storeWallet_moved:
  assumes "wallet_inv r" "wr_idByKey r k = Some i" "map_of (wr_byID r) i = Some w"
    "w_Balance w' = CentsToFloat a" "w_LockedBalance w' = CentsToFloat l"
    "w_ID w' = w_ID w" "keyFromWallet w' = keyFromWallet w" "0 \<le> a" "0 \<le> l" "a + l < moneyCap"
  shows "wallet_inv (storeWallet i w' r)" "account (storeWallet i w' r) = (account r)(k \<mapsto> (a, l))"
proof -
  have m: "money (w_Balance w') a" "money (w_LockedBalance w') l"
    using assms(4,5,8,9,10) by (simp_all add: money_def)
  then show "wallet_inv (storeWallet i w' r)"
    using assms(10) unfolding wallet_ok_def
    by (intro storeWallet_inv [OF assms(1,3,6,7)]) (auto simp: wallet_ok_def)
  show "account (storeWallet i w' r) = (account r)(k \<mapsto> (a, l))"
    using storeWallet_account [OF assms(1-3), of w'] m by (simp add: cents_of_money)
qed

lemma mem_lock_ok:
  assumes "wallet_inv r" "account r k = Some (a, l)" "0 \<le> c" "c \<le> a"
  shows "fst (memLock k c t r) = Inr ()" "wallet_inv (snd (memLock k c t r))"
    "account (snd (memLock k c t r)) = (account r)(k \<mapsto> (a - c, l + c))"
proof -
  obtain i w where w: "wr_idByKey r k = Some i" "map_of (wr_byID r) i = Some w"
    "money (w_Balance w) a" "money (w_LockedBalance w) l" "a + l < moneyCap"
    using wallet_inv_lookup [OF assms(1,2)] by metis
  let ?w = "w\<lparr>w_Balance := CentsToFloat (a - c), w_LockedBalance := CentsToFloat (l + c), w_UpdatedAt := t\<rparr>"
  have eq: "memLock k c t r = (Inr (), storeWallet i ?w r)"
    unfolding memLock_def by (rule walletRepoLock_enough [OF assms(1) w assms(3,4)])
  have "0 \<le> l" using w(4) by (simp add: money_def)
  then have "wallet_inv (storeWallet i ?w r)" "account (storeWallet i ?w r) = (account r)(k \<mapsto> (a - c, l + c))"
    using assms(3,4) w(5) storeWallet_moved [OF assms(1) w(1,2), of ?w "a - c" "l + c"]
    by (simp_all add: keyFromWallet_def)
  then show "fst (memLock k c t r) = Inr ()" "wallet_inv (snd (memLock k c t r))"
    "account (snd (memLock k c t r)) = (account r)(k \<mapsto> (a - c, l + c))"
    by (simp_all add: eq)
qed

lemma mem_unlock_ok:
  assumes "wallet_inv r" "account r k = Some (a, l)" "0 \<le> c" "c \<le> l"
  shows "fst (memUnlock k c t r) = Inr ()" "wallet_inv (snd (memUnlock k c t r))"
    "account (snd (memUnlock k c t r)) = (account r)(k \<mapsto> (a + c, l - c))"
proof -
  obtain i w where w: "wr_idByKey r k = Some i" "map_of (wr_byID r) i = Some w"
    "money (w_Balance w) a" "money (w_LockedBalance w) l" "a + l < moneyCap"
    using wallet_inv_lookup [OF assms(1,2)] by metis
  let ?w = "w\<lparr>w_LockedBalance := CentsToFloat (l - c), w_Balance := CentsToFloat (a + c), w_UpdatedAt := t\<rparr>"
  have eq: "memUnlock k c t r = (Inr (), storeWallet i ?w r)"
    unfolding memUnlock_def by (rule walletRepoUnlock_enough [OF assms(1) w assms(3,4)])
  have "0 \<le> a" using w(3) by (simp add: money_def)
  then have "wallet_inv (storeWallet i ?w r)" "account (storeWallet i ?w r) = (account r)(k \<mapsto> (a + c, l - c))"
    using assms(3,4) w(5) storeWallet_moved [OF assms(1) w(1,2), of ?w "a + c" "l - c"]
    by (simp_all add: keyFromWallet_def)
  then show "fst (memUnlock k c t r) = Inr ()" "wallet_inv (snd (memUnlock k c t r))"
    "account (snd (memUnlock k c t r)) = (account r)(k \<mapsto> (a + c, l - c))"
    by (simp_all add: eq)
qed

lemma mem_short:
  assumes "wallet_inv r" "account r k = Some (a, l)" "c < moneyCap"
  shows "a < c \<Longrightarrow> memLock k c t r = (Inl (Sentinel WalletErrInsufficientBalance), r)"
    and "l < c \<Longrightarrow> memUnlock k c t r = (Inl (Sentinel WalletErrInsufficientLocked), r)"
proof -
  obtain i w where w: "walletForUpdate k r = Inr (i, w)"
    "money (w_Balance w) a" "money (w_LockedBalance w) l"
    using wallet_inv_lookup [OF assms(1,2)] by metis
  have c: "money (CentsToFloat c) c" if "0 \<le> c" using assms(3) that by simp
  show "memLock k c t r = (Inl (Sentinel WalletErrInsufficientBalance), r)" if "a < c"
    using that w(1) money_arith [OF w(2) c] w(2) by (simp add: memLock_def walletRepoLock_def money_def)
  show "memUnlock k c t r = (Inl (Sentinel WalletErrInsufficientLocked), r)" if "l < c"
    using that w(1) money_arith [OF w(3) c] w(3) by (simp add: memUnlock_def walletRepoUnlock_def money_def)
qed

lemma mem_missing:
  assumes "wallet_inv r" "account r k = None"
  shows "memLock k c t r = (Inl (Sentinel WalletErrNotFound), r)"
    and "memUnlock k c t r = (Inl (Sentinel WalletErrNotFound), r)"
  using account_None [OF assms(2,1)]
  by (simp_all add: memLock_def memUnlock_def walletRepoLock_def walletRepoUnlock_def)

lemma mem_inv:
  assumes "wallet_inv r" "0 \<le> c" "c < moneyCap"
  shows "wallet_inv (snd (memLock k c t r))" "wallet_inv (snd (memUnlock k c t r))"
proof -
  show "wallet_inv (snd (memLock k c t r))"
  proof (cases "account r k")
    case None
    then show ?thesis using mem_missing(1) [OF assms(1) None] assms(1) by simp
  next
    case (Some p)
    obtain a l where p: "p = (a, l)" by (cases p)
    show ?thesis
    proof (cases "a < c")
      case True
      then show ?thesis using mem_short(1) [OF assms(1) _ assms(3)] Some p assms(1) by simp
    next
      case False
      then show ?thesis using mem_lock_ok(2) [OF assms(1) _ assms(2)] Some p by simp
    qed
  qed
  show "wallet_inv (snd (memUnlock k c t r))"
  proof (cases "account r k")
    case None
    then show ?thesis using mem_missing(2) [OF assms(1) None] assms(1) by simp
  next
    case (Some p)
    obtain a l where p: "p = (a, l)" by (cases p)
    show ?thesis
    proof (cases "l < c")
      case True
      then show ?thesis using mem_short(2) [OF assms(1) _ assms(3)] Some p assms(1) by simp
    next
      case False
      then show ?thesis using mem_unlock_ok(2) [OF assms(1) _ assms(2)] Some p by simp
    qed
  qed
qed

interpretation mem: wallet_store wallet_inv account memLock memUnlock moneyCap
  by unfold_locales
    (simp_all add: account_bounds mem_lock_ok mem_unlock_ok mem_short mem_missing mem_inv)

end
