(* ===== verification/WalletService.thy ===== *)
theory WalletService
  imports WalletRepo
begin

text \<open>
  \<^verbatim>\<open>internal/wallet/wallet.go\<close>: the wallet service over the in-memory repository. Each
  operation validates, then calls the repository; \<open>ctx n\<close> says whether the context is
  done at the \<open>n\<close>-th repository call of the operation, \<open>now\<close> is the clock and \<open>random\<close>
  the bytes the random source will yield.
\<close>

definition maxUserIDLen :: nat where "maxUserIDLen = 255"
definition maxIdempotencyKeyLen :: nat where "maxIdempotencyKeyLen = 255"

section \<open>Validation\<close>

definition validateOwner :: "string \<Rightarrow> string \<Rightarrow> (string \<times> string) res" where
  "validateOwner merchantID0 userID0 =
     (let merchantID = trimSpace merchantID0; userID = trimSpace userID0 in
      if \<not> isUUID merchantID then Inl (Validation ''merchant_id'' ''must be a UUID'')
      else if userID = [] then Inl (Validation ''user_id'' ''is required'')
      else if length userID > maxUserIDLen
        then Inl (Validation ''user_id'' ''must be at most 255 characters'')
      else Inr (merchantID, userID))"

definition validateWalletKey :: "string \<Rightarrow> string \<Rightarrow> string \<Rightarrow> walletKey res" where
  "validateWalletKey merchantID userID currency0 =
     bind_res (validateOwner merchantID userID) (\<lambda>(m, u).
       let currency = toUpper (trimSpace currency0) in
       if \<not> validCurrency currency then Inl (Validation ''currency'' ''is not supported'')
       else Inr \<lparr>wk_MerchantID = m, wk_UserID = u, wk_Currency = currency\<rparr>)"

definition normalizeAmount :: "float64 \<Rightarrow> float64 res" where
  "normalizeAmount amount =
     (case CentsFromFloat amount of
        Inl err \<Rightarrow> Inl (Validation ''amount'' ''must be greater than 0 with at most 2 decimal places'')
      | Inr cents \<Rightarrow> Inr (CentsToFloat cents))"

definition validateTransactionType :: "string \<Rightarrow> bool \<Rightarrow> string res" where
  "validateTransactionType txType0 credit =
     (let txType = toLower (trimSpace txType0);
          valid = (if credit then txType = ''credit'' \<or> txType = ''win''
                   else txType = ''debit'' \<or> txType = ''bet'' \<or> txType = ''fee'')
      in if \<not> valid
         then Inl (Validation ''transaction_type'' ''is not supported for this operation'')
         else Inr txType)"

definition validateIdempotencyKey :: "string \<Rightarrow> string res" where
  "validateIdempotencyKey value0 =
     (let v = trimSpace value0 in
      if length v > maxIdempotencyKeyLen
      then Inl (Validation ''idempotency_key'' ''must be at most 255 characters'')
      else Inr v)"

definition newTransaction ::
  "string \<Rightarrow> string \<Rightarrow> string \<Rightarrow> float64 \<Rightarrow> string \<Rightarrow> time \<Rightarrow> transaction" where
  "newTransaction id0 currency txType amount idempotencyKey now =
     \<lparr>t_ID = id0, t_WalletID = [], t_Type = txType, t_Amount = amount, t_Currency = currency,
      t_RelatedOrderID = None, t_IdempotencyKey = idempotencyKey, t_Status = ''completed'',
      t_CreatedAt = now\<rparr>"

definition generateOperationIDs :: "byte list \<Rightarrow> (string \<times> string) res \<times> byte list" where
  "generateOperationIDs random =
     (case generateUUID random of
        (Inl err, r1) \<Rightarrow> (Inl (Wrapped ''generate wallet ID'' err), r1)
      | (Inr walletID, r1) \<Rightarrow> (case generateUUID r1 of
          (Inl err, r2) \<Rightarrow> (Inl (Wrapped ''generate transaction ID'' err), r2)
        | (Inr transactionID, r2) \<Rightarrow> (Inr (walletID, transactionID), r2)))"

section \<open>Operations\<close>

definition walletCreate ::
  "(nat \<Rightarrow> bool) \<Rightarrow> string \<Rightarrow> string \<Rightarrow> string \<Rightarrow> byte list \<Rightarrow> time \<Rightarrow> walletRepo \<Rightarrow> wallet res \<times> walletRepo" where
  "walletCreate ctx merchantID userID currency random now r =
     (case validateWalletKey merchantID userID currency of
        Inl err \<Rightarrow> (Inl err, r)
      | Inr key \<Rightarrow> (case walletValidateMerchant (ctx 0) (wk_MerchantID key) of
          Inl err \<Rightarrow> (Inl (Wrapped ''validate wallet merchant'' err), r)
        | Inr _ \<Rightarrow> (case fst (generateUUID random) of
            Inl err \<Rightarrow> (Inl (Wrapped ''generate wallet ID'' err), r)
          | Inr walletID \<Rightarrow>
              let v = \<lparr>w_ID = walletID, w_MerchantID = wk_MerchantID key, w_UserID = wk_UserID key,
                       w_Currency = wk_Currency key, w_Balance = Fin 0, w_LockedBalance = Fin 0,
                       w_UpdatedAt = now\<rparr>
              in (case walletRepoCreate (ctx 1) v r of
                    (Inl err, r') \<Rightarrow> (Inl (wrap_error ''create wallet'' err), r')
                  | (Inr _, r') \<Rightarrow> (Inr v, r')))))"

definition walletGet ::
  "(nat \<Rightarrow> bool) \<Rightarrow> string \<Rightarrow> string \<Rightarrow> string \<Rightarrow> walletRepo \<Rightarrow> wallet res" where
  "walletGet ctx merchantID userID currency r =
     (case validateWalletKey merchantID userID currency of
        Inl err \<Rightarrow> Inl err
      | Inr key \<Rightarrow> (case walletRepoGet (ctx 0) key r of
          Inl err \<Rightarrow> Inl (wrap_error ''get wallet'' err)
        | Inr v \<Rightarrow> Inr v))"

definition walletGetBalance ::
  "(nat \<Rightarrow> bool) \<Rightarrow> string \<Rightarrow> string \<Rightarrow> string \<Rightarrow> walletRepo \<Rightarrow> (float64 \<times> float64) res" where
  "walletGetBalance ctx merchantID userID currency r =
     bind_res (walletGet ctx merchantID userID currency r) (\<lambda>v. Inr (w_Balance v, w_LockedBalance v))"

definition walletCreditWithIdempotency ::
  "(nat \<Rightarrow> bool) \<Rightarrow> string \<Rightarrow> string \<Rightarrow> string \<Rightarrow> float64 \<Rightarrow> string \<Rightarrow> string \<Rightarrow> byte list \<Rightarrow> time
    \<Rightarrow> walletRepo \<Rightarrow> unit res \<times> walletRepo" where
  "walletCreditWithIdempotency ctx merchantID userID currency amount0 txType0 idempotencyKey0 random now r =
     (case validateWalletKey merchantID userID currency of
        Inl err \<Rightarrow> (Inl err, r)
      | Inr key \<Rightarrow> (case normalizeAmount amount0 of
          Inl err \<Rightarrow> (Inl err, r)
        | Inr amount \<Rightarrow> (case validateTransactionType txType0 True of
            Inl err \<Rightarrow> (Inl err, r)
          | Inr txType \<Rightarrow> (case walletValidateMerchant (ctx 0) (wk_MerchantID key) of
              Inl err \<Rightarrow> (Inl (Wrapped ''validate wallet merchant'' err), r)
            | Inr _ \<Rightarrow> (case validateIdempotencyKey idempotencyKey0 of
                Inl err \<Rightarrow> (Inl err, r)
              | Inr idempotencyKey \<Rightarrow> (case fst (generateOperationIDs random) of
                  Inl err \<Rightarrow> (Inl err, r)
                | Inr (walletID, transactionID) \<Rightarrow>
                    let wallet = \<lparr>w_ID = walletID, w_MerchantID = wk_MerchantID key,
                          w_UserID = wk_UserID key, w_Currency = wk_Currency key,
                          w_Balance = Fin 0, w_LockedBalance = Fin 0, w_UpdatedAt = now\<rparr>;
                        transaction = newTransaction transactionID (wk_Currency key) txType amount
                          idempotencyKey now
                    in (case walletRepoCredit (ctx 1) wallet transaction r of
                          (Inl err, r') \<Rightarrow>
                            if idempotencyKey \<noteq> [] \<and> errorsIs err WalletErrAlreadyExists
                            then (Inr (), r')
                            else (Inl (wrap_error ''credit wallet'' err), r')
                        | (Inr _, r') \<Rightarrow> (Inr (), r'))))))))"

definition walletCredit ::
  "(nat \<Rightarrow> bool) \<Rightarrow> string \<Rightarrow> string \<Rightarrow> string \<Rightarrow> float64 \<Rightarrow> string \<Rightarrow> byte list \<Rightarrow> time
    \<Rightarrow> walletRepo \<Rightarrow> unit res \<times> walletRepo" where
  "walletCredit ctx merchantID userID currency amount txType random now r =
     walletCreditWithIdempotency ctx merchantID userID currency amount txType [] random now r"

definition walletDebit ::
  "(nat \<Rightarrow> bool) \<Rightarrow> string \<Rightarrow> string \<Rightarrow> string \<Rightarrow> float64 \<Rightarrow> string \<Rightarrow> byte list \<Rightarrow> time
    \<Rightarrow> walletRepo \<Rightarrow> unit res \<times> walletRepo" where
  "walletDebit ctx merchantID userID currency amount0 txType0 random now r =
     (case validateWalletKey merchantID userID currency of
        Inl err \<Rightarrow> (Inl err, r)
      | Inr key \<Rightarrow> (case normalizeAmount amount0 of
          Inl err \<Rightarrow> (Inl err, r)
        | Inr amount \<Rightarrow> (case validateTransactionType txType0 False of
            Inl err \<Rightarrow> (Inl err, r)
          | Inr txType \<Rightarrow> (case fst (generateUUID random) of
              Inl err \<Rightarrow> (Inl (Wrapped ''generate transaction ID'' err), r)
            | Inr transactionID \<Rightarrow>
                let transaction = newTransaction transactionID (wk_Currency key) txType amount [] now
                in (case walletRepoDebit (ctx 0) key amount transaction now r of
                      (Inl err, r') \<Rightarrow> (Inl (wrap_error ''debit wallet'' err), r')
                    | (Inr _, r') \<Rightarrow> (Inr (), r'))))))"

definition walletLock ::
  "(nat \<Rightarrow> bool) \<Rightarrow> string \<Rightarrow> string \<Rightarrow> string \<Rightarrow> float64 \<Rightarrow> time \<Rightarrow> walletRepo \<Rightarrow> unit res \<times> walletRepo" where
  "walletLock ctx merchantID userID currency amount0 now r =
     (case validateWalletKey merchantID userID currency of
        Inl err \<Rightarrow> (Inl err, r)
      | Inr key \<Rightarrow> (case normalizeAmount amount0 of
          Inl err \<Rightarrow> (Inl err, r)
        | Inr amount \<Rightarrow> (case walletRepoLock (ctx 0) key amount now r of
            (Inl err, r') \<Rightarrow> (Inl (wrap_error ''lock wallet balance'' err), r')
          | (Inr _, r') \<Rightarrow> (Inr (), r'))))"

definition walletUnlock ::
  "(nat \<Rightarrow> bool) \<Rightarrow> string \<Rightarrow> string \<Rightarrow> string \<Rightarrow> float64 \<Rightarrow> time \<Rightarrow> walletRepo \<Rightarrow> unit res \<times> walletRepo" where
  "walletUnlock ctx merchantID userID currency amount0 now r =
     (case validateWalletKey merchantID userID currency of
        Inl err \<Rightarrow> (Inl err, r)
      | Inr key \<Rightarrow> (case normalizeAmount amount0 of
          Inl err \<Rightarrow> (Inl err, r)
        | Inr amount \<Rightarrow> (case walletRepoUnlock (ctx 0) key amount now r of
            (Inl err, r') \<Rightarrow> (Inl (wrap_error ''unlock wallet balance'' err), r')
          | (Inr _, r') \<Rightarrow> (Inr (), r'))))"

definition walletListTransactions ::
  "(nat \<Rightarrow> bool) \<Rightarrow> string \<Rightarrow> string \<Rightarrow> int \<Rightarrow> int \<Rightarrow> walletRepo \<Rightarrow> (transaction list \<times> int) res" where
  "walletListTransactions ctx merchantID0 userID0 page0 limit0 r =
     (case validateOwner merchantID0 userID0 of
        Inl err \<Rightarrow> Inl err
      | Inr (merchantID, userID) \<Rightarrow> (case normalizePagination ''must not exceed 1000'' page0 limit0 of
          Inl err \<Rightarrow> Inl err
        | Inr (page, limit) \<Rightarrow>
            (case walletRepoListTransactions (ctx 0) merchantID userID ((page - 1) * limit) limit r of
               Inl err \<Rightarrow> Inl (wrap_error ''list wallet transactions'' err)
             | Inr result \<Rightarrow> Inr result)))"

end
