(* ===== verification/WalletLedger.thy ===== *)
theory WalletLedger
  imports WalletService
begin

text \<open>
  The money laws of the wallet service over the in-memory repository: every operation,
  whatever its arguments and whether it succeeds, fails or panics, keeps the store
  well-formed and keeps each wallet's holdings equal to the sum of its transaction
  history; a repeated idempotent credit changes nothing.
\<close>

section \<open>Amounts that are not exact\<close>

text \<open>
  The amount argument of an operation is any float the service accepted; what counts is
  the number of cents it converts to.
\<close>

lemma storedCents_nonneg: "storedCents f = Inr c \<Longrightarrow> 0 \<le> c"
  by (auto simp: storedCents_def dest: CentsFromFloat_range split: if_splits sum.splits)

lemma storedCents_max: "storedCents f = Inr c \<Longrightarrow> c \<le> maxCents"
  by (auto simp: storedCents_def scale_defs dest: CentsFromFloat_range split: if_splits sum.splits)

lemma stored_arith:
  assumes "storedCents f = Inr b" "storedCents g = Inr c"
  shows "moneyLessThan f g = Inr (b < c)"
    and "addMoney f g = Inr (CentsToFloat (b + c))"
    and "subtractMoney f g = Inr (CentsToFloat (b - c))"
proof -
  have "0 \<le> b" "b \<le> maxCents" "0 \<le> c" "c \<le> maxCents"
    using assms storedCents_nonneg storedCents_max by auto
  then have "i64 (b + c) = b + c" "i64 (b - c) = b - c"
    by (auto intro!: i64_small simp: scale_defs)
  then show "moneyLessThan f g = Inr (b < c)" "addMoney f g = Inr (CentsToFloat (b + c))"
    "subtractMoney f g = Inr (CentsToFloat (b - c))"
    using assms by (simp_all add: moneyLessThan_def addMoney_def subtractMoney_def)
qed

lemma stored_panics:
  "storedCents g = Inl e \<Longrightarrow> moneyLessThan f g = Inl e \<or> (\<exists>e'. moneyLessThan f g = Inl e')"
  "storedCents g = Inl e \<Longrightarrow> \<exists>e'. addMoney f g = Inl e'"
  by (cases "storedCents f"; simp add: moneyLessThan_def addMoney_def)+

section \<open>History\<close>

definition signed_cents :: "transaction \<Rightarrow> int" where
  "signed_cents t = (if t_Type t = ''credit'' \<or> t_Type t = ''win'' then cents_of (t_Amount t)
     else - cents_of (t_Amount t))"

definition history :: "walletRepo \<Rightarrow> string \<Rightarrow> int" where
  "history r i = (\<Sum>(k, t) \<leftarrow> wr_transactions r. if t_WalletID t = i then signed_cents t else 0)"

definition ledger_inv :: "walletRepo \<Rightarrow> bool" where
  "ledger_inv r \<longleftrightarrow> wallet_inv r
     \<and> (\<forall>(k, t) \<in> set (wr_transactions r). t_WalletID t \<in> keys (wr_byID r))
     \<and> (\<forall>i w. map_of (wr_byID r) i = Some w \<longrightarrow>
          cents_of (w_Balance w) + cents_of (w_LockedBalance w) = history r i)"

lemma ledger_inv_empty: "ledger_inv newWalletRepo"
  using wallet_inv_empty by (simp add: ledger_inv_def newWalletRepo_def)

lemma history_storeWallet [simp]: "history (storeWallet i w r) = history r"
  by (simp add: history_def storeWallet_def fun_eq_iff)

text \<open>A balance change with a matching history entry keeps the books.\<close>

lemma ledger_store:
  assumes "ledger_inv r" "map_of (wr_byID r) i = Some w"
    "w_ID w' = w_ID w" "keyFromWallet w' = keyFromWallet w"
    "money (w_Balance w') b" "money (w_LockedBalance w') l" "b + l < moneyCap"
    "b + l = cents_of (w_Balance w) + cents_of (w_LockedBalance w)"
  shows "ledger_inv (storeWallet i w' r)"
proof -
  have okw: "wallet_ok w'" unfolding wallet_ok_def using assms(5,6,7) by blast
  have "wallet_inv r" using assms(1) by (simp add: ledger_inv_def)
  then have "wallet_inv (storeWallet i w' r)"
    by (rule storeWallet_inv [OF _ assms(2,3,4) okw])
  moreover have "cents_of (w_Balance w') + cents_of (w_LockedBalance w') = history r i"
    using assms by (auto simp: ledger_inv_def cents_of_money)
  moreover have "i \<in> keys (wr_byID r)" using assms(2) by (metis map_of_None_keys option.distinct(1))
  ultimately show ?thesis
    using assms(1) by (auto simp: ledger_inv_def storeWallet_def history_def)
qed

lemma ledger_store_record:
  assumes "ledger_inv r" "map_of (wr_byID r) i = Some w"
    "w_ID w' = w_ID w" "keyFromWallet w' = keyFromWallet w"
    "money (w_Balance w') b" "money (w_LockedBalance w') l" "b + l < moneyCap"
    "b + l = cents_of (w_Balance w) + cents_of (w_LockedBalance w) + signed_cents t"
    "map_of (wr_transactions r) k = None" "t_WalletID t = i"
  shows "ledger_inv ((storeWallet i w' r)\<lparr>wr_transactions :=
    put k t (wr_transactions (storeWallet i w' r))\<rparr>)" (is "ledger_inv ?r")
proof -
  have okw: "wallet_ok w'" unfolding wallet_ok_def using assms(5,6,7) by blast
  have "wallet_inv r" using assms(1) by (simp add: ledger_inv_def)
  then have "wallet_inv (storeWallet i w' r)"
    by (rule storeWallet_inv [OF _ assms(2,3,4) okw])
  then have inv: "wallet_inv ?r" by (simp add: wallet_inv_def)
  have fresh: "k \<notin> keys (wr_transactions r)" using assms(9) by (simp add: map_of_None_keys)
  have i: "i \<in> keys (wr_byID r)" using assms(2) by (metis map_of_None_keys option.distinct(1))
  have h: "history ?r j = history r j + (if j = i then signed_cents t else 0)" for j
    using put_fresh [OF fresh] assms(10) by (simp add: history_def storeWallet_def)
  have "cents_of (w_Balance w') + cents_of (w_LockedBalance w') = history r i + signed_cents t"
    using assms by (auto simp: ledger_inv_def cents_of_money)
  then show ?thesis
    using inv assms(1,10) i h put_fresh [OF fresh]
    by (auto simp: ledger_inv_def storeWallet_def split: if_splits)
qed

section \<open>Every repository operation keeps the books\<close>

lemma ledger_wallet_inv: "ledger_inv r \<Longrightarrow> wallet_inv r"
  by (simp add: ledger_inv_def)

lemma walletForUpdate_cases:
  assumes "ledger_inv r"
  obtains (missing) "walletForUpdate k r = Inl (Sentinel WalletErrNotFound)"
  | (found) i w b l where "walletForUpdate k r = Inr (i, w)" "map_of (wr_byID r) i = Some w"
      "wr_idByKey r k = Some i" "keyFromWallet w = k"
      "money (w_Balance w) b" "money (w_LockedBalance w) l" "b + l < moneyCap"
proof (cases "account r k")
  case None
  then show ?thesis using missing account_None [OF None ledger_wallet_inv [OF assms]] by simp
next
  case (Some p)
  obtain a l where p: "p = (a, l)" by (cases p)
  obtain i w where "wr_idByKey r k = Some i" "map_of (wr_byID r) i = Some w"
    "w_ID w = i" "keyFromWallet w = k" "money (w_Balance w) a" "money (w_LockedBalance w) l"
    "a + l < moneyCap" "walletForUpdate k r = Inr (i, w)"
    using wallet_inv_lookup [OF ledger_wallet_inv [OF assms] Some [unfolded p]] by metis
  then show ?thesis using found by metis
qed

lemma Fin_0_money [simp]: "money (Fin 0) 0"
  using money_CentsToFloat [of 0] by (simp add: moneyCap_def)

lemma wallet_ok_fresh: "w_Balance w = Fin 0 \<Longrightarrow> w_LockedBalance w = Fin 0 \<Longrightarrow> wallet_ok w"
  unfolding wallet_ok_def by (rule exI [of _ 0], rule exI [of _ 0]) (simp add: moneyCap_def)

lemma history_none:
  "\<forall>(k, t) \<in> set ts. t_WalletID t \<noteq> i \<Longrightarrow>
    (\<Sum>(k, t) \<leftarrow> ts. if t_WalletID t = i then signed_cents t else 0) = 0"
  by (induction ts) auto

lemma history_unused: "ledger_inv r \<Longrightarrow> i \<notin> keys (wr_byID r) \<Longrightarrow> history r i = 0"
  unfolding history_def by (rule history_none) (auto simp: ledger_inv_def)

text \<open>A new wallet under a fresh identifier starts with empty books.\<close>

lemma ledger_add_wallet:
  assumes "ledger_inv r" "w_ID w \<notin> keys (wr_byID r)" "wr_idByKey r (keyFromWallet w) = None"
    "w_Balance w = Fin 0" "w_LockedBalance w = Fin 0"
  shows "ledger_inv (r\<lparr>wr_byID := put (w_ID w) w (wr_byID r),
    wr_idByKey := (wr_idByKey r)(keyFromWallet w \<mapsto> w_ID w)\<rparr>)" (is "ledger_inv ?r")
proof -
  have fresh: "map_of (wr_byID r) (w_ID w) = None" using assms(2) by (simp add: map_of_None_keys)
  have old: "wallet_inv r" using assms(1) by (simp add: ledger_inv_def)
  have unused: "wr_idByKey r k \<noteq> Some (w_ID w)" for k
    using wallet_inv_key [OF old] fresh by fastforce
  have "keyFromWallet v \<noteq> keyFromWallet w" if "map_of (wr_byID r) i = Some v" for i v
    using wallet_inv_byID [OF old that] assms(3) by auto
  then have "wallet_inv ?r"
    unfolding wallet_inv_def
    using old unused fresh assms(3) wallet_ok_fresh [OF assms(4,5)]
    by (auto simp: wallet_inv_def)
  moreover have "cents_of (w_Balance w) + cents_of (w_LockedBalance w) = history r (w_ID w)"
    using assms history_unused [OF assms(1,2)] by (simp add: cents_of_money)
  moreover have "history ?r = history r" by (simp add: history_def fun_eq_iff)
  ultimately show ?thesis using assms(1) by (auto simp: ledger_inv_def)
qed

lemma ledger_Create:
  assumes "ledger_inv r" "w_Balance w = Fin 0" "w_LockedBalance w = Fin 0"
  shows "ledger_inv (snd (walletRepoCreate d w r))"
  using assms ledger_add_wallet [of r w]
  by (auto simp: walletRepoCreate_def Let_def map_of_None_keys)

lemma ledger_Lock: "ledger_inv r \<Longrightarrow> ledger_inv (snd (walletRepoLock d k f t r))"
proof (rule walletForUpdate_cases [where r = r and k = k], assumption)
  fix i w b l
  assume r: "ledger_inv r" and w: "walletForUpdate k r = Inr (i, w)" "map_of (wr_byID r) i = Some w"
    and m: "money (w_Balance w) b" "money (w_LockedBalance w) l" "b + l < moneyCap"
  show ?thesis
  proof (cases "storedCents f")
    case (Inl e)
    then have "\<exists>e'. moneyLessThan (w_Balance w) f = Inl e'" using stored_panics(1) by blast
    then show ?thesis using r w by (auto simp: walletRepoLock_def)
  next
    case (Inr c)
    note b = stored_arith [OF storedCents_money [OF m(1)] Inr]
    note l = stored_arith [OF storedCents_money [OF m(2)] Inr]
    have c: "0 \<le> c" using storedCents_nonneg [OF Inr] .
    show ?thesis
    proof (cases "d \<or> b < c")
      case True
      then show ?thesis using r w b by (auto simp: walletRepoLock_def)
    next
      case False
      have "ledger_inv (storeWallet i (w\<lparr>w_Balance := CentsToFloat (b - c),
          w_LockedBalance := CentsToFloat (l + c), w_UpdatedAt := t\<rparr>) r)"
        by (rule ledger_store [OF r w(2), where b = "b - c" and l = "l + c"])
          (use False c m cents_of_money [OF m(1)] cents_of_money [OF m(2)] in \<open>auto simp: money_def keyFromWallet_def\<close>)
      then show ?thesis using False w b l by (simp add: walletRepoLock_def Let_def)
    qed
  qed
qed (auto simp: walletRepoLock_def)

lemma ledger_Unlock: "ledger_inv r \<Longrightarrow> ledger_inv (snd (walletRepoUnlock d k f t r))"
proof (rule walletForUpdate_cases [where r = r and k = k], assumption)
  fix i w b l
  assume r: "ledger_inv r" and w: "walletForUpdate k r = Inr (i, w)" "map_of (wr_byID r) i = Some w"
    and m: "money (w_Balance w) b" "money (w_LockedBalance w) l" "b + l < moneyCap"
  show ?thesis
  proof (cases "storedCents f")
    case (Inl e)
    then have "\<exists>e'. moneyLessThan (w_LockedBalance w) f = Inl e'" using stored_panics(1) by blast
    then show ?thesis using r w by (auto simp: walletRepoUnlock_def)
  next
    case (Inr c)
    note b = stored_arith [OF storedCents_money [OF m(1)] Inr]
    note l = stored_arith [OF storedCents_money [OF m(2)] Inr]
    have c: "0 \<le> c" using storedCents_nonneg [OF Inr] .
    show ?thesis
    proof (cases "d \<or> l < c")
      case True
      then show ?thesis using r w l by (auto simp: walletRepoUnlock_def)
    next
      case False
      have "ledger_inv (storeWallet i (w\<lparr>w_LockedBalance := CentsToFloat (l - c),
          w_Balance := CentsToFloat (b + c), w_UpdatedAt := t\<rparr>) r)"
        by (rule ledger_store [OF r w(2), where b = "b + c" and l = "l - c"])
          (use False c m cents_of_money [OF m(1)] cents_of_money [OF m(2)] in \<open>auto simp: money_def keyFromWallet_def\<close>)
      then show ?thesis using False w b l by (simp add: walletRepoUnlock_def Let_def)
    qed
  qed
qed (auto simp: walletRepoUnlock_def)

lemma ledger_Debit:
  assumes "ledger_inv r" "t_Amount t = f" "\<not> (t_Type t = ''credit'' \<or> t_Type t = ''win'')"
  shows "ledger_inv (snd (walletRepoDebit d k f t u r))"
proof (rule walletForUpdate_cases [OF assms(1), where k = k])
  fix i w b l
  assume w: "walletForUpdate k r = Inr (i, w)" "map_of (wr_byID r) i = Some w"
    and m: "money (w_Balance w) b" "money (w_LockedBalance w) l" "b + l < moneyCap"
  show ?thesis
  proof (cases "storedCents f")
    case (Inl e)
    then have "\<exists>e'. moneyLessThan (w_Balance w) f = Inl e'" using stored_panics(1) by blast
    then show ?thesis using assms(1) w by (auto simp: walletRepoDebit_def)
  next
    case (Inr c)
    note b = stored_arith [OF storedCents_money [OF m(1)] Inr]
    have c: "0 \<le> c" using storedCents_nonneg [OF Inr] .
    show ?thesis
    proof (cases "d \<or> b < c \<or> map_of (wr_transactions r) (t_ID t) \<noteq> None")
      case True
      then show ?thesis using assms(1) w b by (auto simp: walletRepoDebit_def)
    next
      case False
      let ?w = "w\<lparr>w_Balance := CentsToFloat (b - c), w_UpdatedAt := u\<rparr>"
      have "signed_cents (t\<lparr>t_WalletID := i\<rparr>) = - c"
        using assms(2,3) Inr by (auto simp: signed_cents_def cents_of_def)
      then have "ledger_inv ((storeWallet i ?w r)\<lparr>wr_transactions :=
        put (t_ID t) (t\<lparr>t_WalletID := i\<rparr>) (wr_transactions (storeWallet i ?w r))\<rparr>)"
        using False c m cents_of_money [OF m(1)] cents_of_money [OF m(2)]
        by (intro ledger_store_record [OF assms(1) w(2), where b = "b - c" and l = l])
          (auto simp: money_def keyFromWallet_def)
      then show ?thesis using False w b by (simp add: walletRepoDebit_def Let_def)
    qed
  qed
qed (use assms in \<open>auto simp: walletRepoDebit_def\<close>)

text \<open>A credit needs room below the cap and a fresh identifier for a wallet it creates.\<close>

definition room :: "walletRepo \<Rightarrow> walletKey \<Rightarrow> float64 \<Rightarrow> bool" where
  "room r k f = (case account r k of
      None \<Rightarrow> cents_of f < moneyCap
    | Some (a, l) \<Rightarrow> a + l + cents_of f < moneyCap)"

lemma ledger_idem [simp]: "ledger_inv (r\<lparr>wr_txByIdempotency := m\<rparr>) = ledger_inv r"
  by (simp add: ledger_inv_def wallet_inv_def history_def)

lemma ledger_pay_in:
  assumes "ledger_inv r" "map_of (wr_byID r) i = Some w"
    "money (w_Balance w) b" "money (w_LockedBalance w) l" "storedCents (t_Amount t) = Inr c"
    "b + l + c < moneyCap" "t_Type t = ''credit'' \<or> t_Type t = ''win''"
    "map_of (wr_transactions r) (t_ID t) = None"
    "w' = w\<lparr>w_Balance := CentsToFloat (b + c), w_UpdatedAt := u\<rparr>"
  shows "ledger_inv ((storeWallet i w' r)\<lparr>wr_transactions :=
    put (t_ID t) (t\<lparr>t_WalletID := i\<rparr>) (wr_transactions (storeWallet i w' r))\<rparr>)"
proof -
  have "0 \<le> c" using storedCents_nonneg [OF assms(5)] .
  moreover have "signed_cents (t\<lparr>t_WalletID := i\<rparr>) = c"
    using assms(5,7) by (auto simp: signed_cents_def cents_of_def)
  ultimately show ?thesis
    using assms(3,4,6,8,9) cents_of_money [OF assms(3)] cents_of_money [OF assms(4)]
    by (intro ledger_store_record [OF assms(1,2), where b = "b + c" and l = l])
      (auto simp: money_def keyFromWallet_def)
qed

lemma ledger_payIn:
  assumes "ledger_inv r" "map_of (wr_byID r) i = Some w"
    and m: "money (w_Balance w) b" "money (w_LockedBalance w) l"
    and "b + l + cents_of (t_Amount t) < moneyCap" "t_Type t = ''credit'' \<or> t_Type t = ''win''"
    and "map_of (wr_transactions r) (t_ID t) = None"
  shows "ledger_inv (snd (payIn i t r))"
proof (cases "storedCents (t_Amount t)")
  case (Inl e)
  then have "\<exists>e'. addMoney (w_Balance w) (t_Amount t) = Inl e'" using stored_panics(2) by blast
  then show ?thesis using assms(1,2) by (auto simp: payIn_def)
next
  case (Inr c)
  have add: "addMoney (w_Balance w) (t_Amount t) = Inr (CentsToFloat (b + c))"
    using stored_arith(2) [OF storedCents_money [OF m(1)] Inr] .
  have "b + l + c < moneyCap" using assms(5) Inr by (simp add: cents_of_def)
  from ledger_pay_in [OF assms(1,2) m Inr this assms(6,7) refl, of "t_CreatedAt t"]
  show ?thesis by (simp add: assms(2) add payIn_def Let_def)
qed

lemma ledger_creditWallet:
  assumes "ledger_inv r" "map_of (wr_byID r) i = Some w"
    and m: "money (w_Balance w) b" "money (w_LockedBalance w) l"
    and "b + l + cents_of (t_Amount t) < moneyCap" "t_Type t = ''credit'' \<or> t_Type t = ''win''"
  shows "ledger_inv (snd (creditWallet i t r))"
  using assms ledger_payIn [of "r\<lparr>wr_txByIdempotency := x\<rparr>" i w b l t for x] ledger_payIn [OF assms]
  by (auto simp: creditWallet_def)

lemma ledger_ensureWallet:
  assumes "ledger_inv r" "w_Balance wal = Fin 0" "w_LockedBalance wal = Fin 0"
    "wr_idByKey r (keyFromWallet wal) = None \<Longrightarrow> w_ID wal \<notin> keys (wr_byID r)"
    "room r (keyFromWallet wal) f" "ensureWallet wal r = (i, r1)"
  obtains w b l where "ledger_inv r1" "map_of (wr_byID r1) i = Some w" "keyFromWallet w = keyFromWallet wal"
    "money (w_Balance w) b" "money (w_LockedBalance w) l" "b + l + cents_of f < moneyCap"
    "wr_txByIdempotency r1 = wr_txByIdempotency r" "wr_transactions r1 = wr_transactions r"
proof (cases "wr_idByKey r (keyFromWallet wal)")
  case None
  have inv: "ledger_inv r1"
    using ledger_add_wallet [OF assms(1) _ None assms(2,3)] assms(4,6) None
    by (auto simp: ensureWallet_def)
  have "cents_of f < moneyCap" using assms(5) None by (simp add: room_def account_def)
  then show ?thesis
    using inv None assms(2,3,6) by (intro that [of wal 0 0]) (auto simp: ensureWallet_def)
next
  case (Some j)
  obtain w where w: "map_of (wr_byID r) j = Some w" "keyFromWallet w = keyFromWallet wal"
    using wallet_inv_key [OF ledger_wallet_inv [OF assms(1)] Some] by blast
  obtain b l where m: "money (w_Balance w) b" "money (w_LockedBalance w) l"
    using wallet_inv_byID [OF ledger_wallet_inv [OF assms(1)] w(1)] by (auto simp: wallet_ok_def)
  have "b + l + cents_of f < moneyCap"
    using assms(5) Some w by (simp add: room_def account_def cents_of_money [OF m(1)] cents_of_money [OF m(2)])
  then show ?thesis using that [of w b l] w m assms(1,6) Some by (simp add: ensureWallet_def)
qed

lemma ledger_Credit:
  assumes "ledger_inv r" "w_Balance wal = Fin 0" "w_LockedBalance wal = Fin 0"
    "wr_idByKey r (keyFromWallet wal) = None \<Longrightarrow> w_ID wal \<notin> keys (wr_byID r)"
    "t_Type t = ''credit'' \<or> t_Type t = ''win''" "room r (keyFromWallet wal) (t_Amount t)"
  shows "ledger_inv (snd (walletRepoCredit d wal t r))"
proof -
  obtain i r1 where e: "ensureWallet wal r = (i, r1)" by fastforce
  show ?thesis
  proof (rule ledger_ensureWallet [OF assms(1-4,6) e])
    fix w b l
    assume "ledger_inv r1" "map_of (wr_byID r1) i = Some w"
      "money (w_Balance w) b" "money (w_LockedBalance w) l"
      "b + l + cents_of (t_Amount t) < moneyCap"
    from ledger_creditWallet [OF this assms(5)] show ?thesis
      using assms(1) e by (simp add: walletRepoCredit_def)
  qed
qed

section \<open>Every service operation keeps the books\<close>

lemma validateTransactionType_credit:
  "validateTransactionType x True = Inr ty \<Longrightarrow> ty = ''credit'' \<or> ty = ''win''"
  by (auto simp: validateTransactionType_def Let_def split: if_splits)

lemma validateTransactionType_debit:
  "validateTransactionType x False = Inr ty \<Longrightarrow> \<not> (ty = ''credit'' \<or> ty = ''win'')"
  by (auto simp: validateTransactionType_def Let_def split: if_splits)

lemma newTransaction_simps [simp]:
  "t_ID (newTransaction i cur ty f idem now) = i"
  "t_Amount (newTransaction i cur ty f idem now) = f"
  "t_Type (newTransaction i cur ty f idem now) = ty"
  "t_IdempotencyKey (newTransaction i cur ty f idem now) = idem"
  "t_CreatedAt (newTransaction i cur ty f idem now) = now"
  by (simp_all add: newTransaction_def)

lemma ledger_walletCreate: "ledger_inv r \<Longrightarrow> ledger_inv (snd (walletCreate ctx m u c rnd now r))"
proof -
  assume r: "ledger_inv r"
  have "ledger_inv (snd (case walletRepoCreate d w r of
      (Inl err, r') \<Rightarrow> (Inl (wrap_error ''create wallet'' err), r')
    | (Inr _, r') \<Rightarrow> (Inr w, r')))"
    if "w_Balance w = Fin 0" "w_LockedBalance w = Fin 0" for d w
    using ledger_Create [OF r that, of d] by (auto split: sum.splits prod.splits)
  then show ?thesis
    using r unfolding walletCreate_def Let_def by (auto split: sum.splits)
qed

lemma ledger_walletLock: "ledger_inv r \<Longrightarrow> ledger_inv (snd (walletLock ctx m u c f now r))"
  unfolding walletLock_def
  by (auto split: sum.splits prod.splits) (metis ledger_Lock snd_conv)+

lemma ledger_walletUnlock: "ledger_inv r \<Longrightarrow> ledger_inv (snd (walletUnlock ctx m u c f now r))"
  unfolding walletUnlock_def
  by (auto split: sum.splits prod.splits) (metis ledger_Unlock snd_conv)+

lemma ledger_walletDebit: "ledger_inv r \<Longrightarrow> ledger_inv (snd (walletDebit ctx m u c f ty rnd now r))"
proof -
  assume r: "ledger_inv r"
  have "ledger_inv (snd (case walletRepoDebit d key a (newTransaction i cur x a [] now) now r of
      (Inl err, r') \<Rightarrow> (Inl (wrap_error ''debit wallet'' err), r')
    | (Inr _, r') \<Rightarrow> (Inr (), r')))"
    if "validateTransactionType ty False = Inr x" for d key a i cur x
    using ledger_Debit [OF r, of "newTransaction i cur x a [] now" a d key now]
      validateTransactionType_debit [OF that]
    by (auto split: sum.splits prod.splits)
  then show ?thesis
    using r unfolding walletDebit_def Let_def by (auto split: sum.splits)
qed

text \<open>
  What a credit must leave room for: the amount fits below the cap of exact amounts, and
  the identifier the random source gives a wallet it creates is not in use.
\<close>

definition credit_fits ::
  "string \<Rightarrow> string \<Rightarrow> string \<Rightarrow> float64 \<Rightarrow> byte list \<Rightarrow> walletRepo \<Rightarrow> bool" where
  "credit_fits m u c f rnd r =
     (case validateWalletKey m u c of
        Inl _ \<Rightarrow> True
      | Inr key \<Rightarrow> (case normalizeAmount f of
          Inl _ \<Rightarrow> True
        | Inr amount \<Rightarrow> room r key amount \<and> (case fst (generateOperationIDs rnd) of
            Inl _ \<Rightarrow> True
          | Inr ids \<Rightarrow> wr_idByKey r key \<noteq> None \<or> map_of (wr_byID r) (fst ids) = None)))"

lemma keyFromWallet_key:
  "keyFromWallet \<lparr>w_ID = i, w_MerchantID = wk_MerchantID k, w_UserID = wk_UserID k,
     w_Currency = wk_Currency k, w_Balance = b, w_LockedBalance = l, w_UpdatedAt = t\<rparr> = k"
  by (simp add: keyFromWallet_def)

lemma snd_credit_result:
  "snd (case p of
      (Inl err, r') \<Rightarrow> if b err then (Inr (), r') else (Inl (e err), r')
    | (Inr _, r') \<Rightarrow> (Inr (), r')) = snd p"
  by (auto split: sum.splits prod.splits)

lemma ledger_walletCredit:
  assumes r: "ledger_inv r" and fits: "credit_fits m u c f rnd r"
  shows "ledger_inv (snd (walletCreditWithIdempotency ctx m u c f ty idem rnd now r))"
proof -
  let ?wal = "\<lambda>i key. \<lparr>w_ID = i, w_MerchantID = wk_MerchantID key, w_UserID = wk_UserID key,
      w_Currency = wk_Currency key, w_Balance = Fin 0, w_LockedBalance = Fin 0, w_UpdatedAt = now\<rparr>"
  have inner: "ledger_inv (snd (walletRepoCredit d (?wal i key)
        (newTransaction j (wk_Currency key) x a y now) r))"
    if "validateWalletKey m u c = Inr key" "normalizeAmount f = Inr a"
      "validateTransactionType ty True = Inr x" "fst (generateOperationIDs rnd) = Inr (i, j)"
    for d key a i j x y
    using that fits validateTransactionType_credit [OF that(3)]
    by (intro ledger_Credit [OF r])
      (auto simp: credit_fits_def keyFromWallet_key map_of_None_keys)
  have *: "ledger_inv (snd (case walletRepoCredit d (?wal i key)
        (newTransaction j (wk_Currency key) x a y now) r of
      (Inl err, r') \<Rightarrow> if y \<noteq> [] \<and> errorsIs err WalletErrAlreadyExists then (Inr (), r')
        else (Inl (wrap_error ''credit wallet'' err), r')
    | (Inr _, r') \<Rightarrow> (Inr (), r')))"
    if "validateWalletKey m u c = Inr key" "normalizeAmount f = Inr a"
      "validateTransactionType ty True = Inr x" "fst (generateOperationIDs rnd) = Inr (i, j)"
    for d key a i j x y
    unfolding snd_credit_result using inner that by blast
  show ?thesis
    unfolding walletCreditWithIdempotency_def Let_def
    by (auto simp: r intro!: * split: sum.splits)
qed

section \<open>Runs\<close>

text \<open>One call of the service; reads leave the store alone and are not steps.\<close>

inductive wallet_step :: "walletRepo \<Rightarrow> walletRepo \<Rightarrow> bool" where
  create: "wallet_step r (snd (walletCreate ctx m u c rnd now r))"
| credit: "credit_fits m u c f rnd r \<Longrightarrow>
    wallet_step r (snd (walletCreditWithIdempotency ctx m u c f ty idem rnd now r))"
| debit: "wallet_step r (snd (walletDebit ctx m u c f ty rnd now r))"
| lock: "wallet_step r (snd (walletLock ctx m u c f now r))"
| unlock: "wallet_step r (snd (walletUnlock ctx m u c f now r))"

lemma ledger_step: "wallet_step r r' \<Longrightarrow> ledger_inv r \<Longrightarrow> ledger_inv r'"
  by (induction rule: wallet_step.induct)
    (auto intro: ledger_walletCreate ledger_walletCredit ledger_walletDebit ledger_walletLock
      ledger_walletUnlock)

definition wallet_reachable :: "walletRepo \<Rightarrow> bool" where
  "wallet_reachable r \<longleftrightarrow> wallet_step\<^sup>*\<^sup>* newWalletRepo r"

lemma ledger_reachable: "wallet_reachable r \<Longrightarrow> ledger_inv r"
  unfolding wallet_reachable_def
  by (induction rule: rtranclp_induct) (auto intro: ledger_inv_empty ledger_step)

text \<open>The books of one account: what the history of its wallet adds up to.\<close>

lemma ledger_account:
  assumes "ledger_inv r" "account r k = Some (a, l)"
  obtains i where "wr_idByKey r k = Some i" "a + l = history r i" "0 \<le> a" "0 \<le> l"
proof -
  obtain i w where w: "wr_idByKey r k = Some i" "map_of (wr_byID r) i = Some w"
    "money (w_Balance w) a" "money (w_LockedBalance w) l"
    using wallet_inv_lookup [OF ledger_wallet_inv [OF assms(1)] assms(2)] by metis
  show ?thesis
  proof (rule that [OF w(1)])
    have "cents_of (w_Balance w) + cents_of (w_LockedBalance w) = history r i"
      using assms(1) w(2) by (simp add: ledger_inv_def)
    then show "a + l = history r i" by (simp add: cents_of_money [OF w(3)] cents_of_money [OF w(4)])
  qed (use w in \<open>simp_all add: money_def\<close>)
qed

section \<open>Idempotent credits\<close>

text \<open>Key entries are only ever added, by every operation and on every outcome.\<close>

definition grows :: "walletRepo \<Rightarrow> walletRepo \<Rightarrow> bool" where
  "grows r r' \<longleftrightarrow> wr_idByKey r \<subseteq>\<^sub>m wr_idByKey r' \<and> wr_txByIdempotency r \<subseteq>\<^sub>m wr_txByIdempotency r'"

lemma grows_refl [simp, intro]: "grows r r"
  by (simp add: grows_def)

lemma grows_trans: "grows r r' \<Longrightarrow> grows r' r'' \<Longrightarrow> grows r r''"
  unfolding grows_def
  using map_le_trans [of "wr_idByKey r" "wr_idByKey r'" "wr_idByKey r''"]
    map_le_trans [of "wr_txByIdempotency r" "wr_txByIdempotency r'" "wr_txByIdempotency r''"]
  by simp

lemma map_le_fresh: "m k = None \<Longrightarrow> m \<subseteq>\<^sub>m m(k \<mapsto> v)"
  by (auto simp: map_le_def)

lemma grows_storeWallet [simp, intro]: "grows r (storeWallet i w r)"
  by (simp add: grows_def storeWallet_def)

lemma grows_payIn: "grows r (snd (payIn i t r))"
  by (auto simp: payIn_def grows_def storeWallet_def Let_def split: option.splits sum.splits)

lemma grows_creditWallet: "grows r (snd (creditWallet i t r))"
proof -
  have "grows r (r\<lparr>wr_txByIdempotency := (wr_txByIdempotency r)(p \<mapsto> x)\<rparr>)"
    if "wr_txByIdempotency r p = None" for p x
    using that by (simp add: grows_def map_le_fresh)
  then have "grows r (snd (payIn i t (r\<lparr>wr_txByIdempotency := (wr_txByIdempotency r)(p \<mapsto> x)\<rparr>)))"
    if "wr_txByIdempotency r p = None" for p x
    using that grows_trans grows_payIn by blast
  then show ?thesis by (simp add: creditWallet_def grows_payIn)
qed

lemma grows_ensureWallet: "ensureWallet w r = (i, r1) \<Longrightarrow> grows r r1 \<and> wr_idByKey r1 (keyFromWallet w) = Some i"
  by (auto simp: ensureWallet_def grows_def map_le_fresh Let_def split: option.splits)

lemma grows_repo:
  "grows r (snd (walletRepoCreate d w r))"
  "grows r (snd (walletRepoCredit d w t r))"
  "grows r (snd (walletRepoDebit d k f t u r))"
  "grows r (snd (walletRepoLock d k f u r))"
  "grows r (snd (walletRepoUnlock d k f u r))"
proof -
  show "grows r (snd (walletRepoCreate d w r))"
    by (auto simp: walletRepoCreate_def grows_def map_le_fresh Let_def)
  show "grows r (snd (walletRepoCredit d w t r))"
    using grows_trans [OF _ grows_creditWallet]
    by (auto simp: walletRepoCredit_def split: prod.splits dest: grows_ensureWallet)
  show "grows r (snd (walletRepoDebit d k f t u r))"
    by (auto simp: walletRepoDebit_def grows_def storeWallet_def Let_def split: sum.splits prod.splits)
  show "grows r (snd (walletRepoLock d k f u r))"
    by (auto simp: walletRepoLock_def grows_def storeWallet_def Let_def split: sum.splits prod.splits)
  show "grows r (snd (walletRepoUnlock d k f u r))"
    by (auto simp: walletRepoUnlock_def grows_def storeWallet_def Let_def split: sum.splits prod.splits)
qed

lemma grows_step: "wallet_step r r' \<Longrightarrow> grows r r'"
proof (induction rule: wallet_step.induct)
  case create
  then show ?case
    by (auto simp: walletCreate_def Let_def snd_plain_result grows_repo split: sum.split)
next
  case credit
  then show ?case
    by (auto simp: walletCreditWithIdempotency_def Let_def snd_credit_result grows_repo split: sum.split)
next
  case debit
  then show ?case
    by (auto simp: walletDebit_def Let_def snd_plain_result grows_repo split: sum.split)
next
  case lock
  then show ?case
    by (auto simp: walletLock_def snd_plain_result grows_repo split: sum.split)
next
  case unlock
  then show ?case
    by (auto simp: walletUnlock_def snd_plain_result grows_repo split: sum.split)
qed

lemma grows_run: "wallet_step\<^sup>*\<^sup>* r r' \<Longrightarrow> grows r r'"
  by (induction rule: rtranclp_induct) (auto intro: grows_step grows_trans)

section \<open>What the operations do to an account\<close>

lemma cents_of_CentsToFloat: "0 \<le> c \<Longrightarrow> c < moneyCap \<Longrightarrow> cents_of (CentsToFloat c) = c"
  by (simp add: cents_of_def storedCents_CentsToFloat)

lemma normalizeAmount_Inr: "CentsFromFloat f = Inr c \<Longrightarrow> normalizeAmount f = Inr (CentsToFloat c)"
  by (simp add: normalizeAmount_def)

lemma CentsFromFloat_pos: "CentsFromFloat f = Inr c \<Longrightarrow> c < moneyCap \<Longrightarrow> money (CentsToFloat c) c"
  using CentsFromFloat_range [of f c] by simp

definition wrap_result :: "string \<Rightarrow> 'a res \<times> 's \<Rightarrow> 'a res \<times> 's" where
  "wrap_result message p = (case p of
      (Inl err, s) \<Rightarrow> (Inl (wrap_error message err), s) | (Inr x, s) \<Rightarrow> (Inr x, s))"

lemma wrap_result_simps [simp]:
  "wrap_result m (Inl e, s) = (Inl (wrap_error m e), s)" "wrap_result m (Inr x, s) = (Inr x, s)"
  by (simp_all add: wrap_result_def)

lemma snd_wrap_result [simp]: "snd (wrap_result m p) = snd p"
  by (auto simp: wrap_result_def split: prod.split sum.split)

lemma wrap_result_Inr: "fst (wrap_result m p) = Inr x \<longleftrightarrow> fst p = Inr x"
  by (auto simp: wrap_result_def split: prod.split sum.split)

text \<open>On an accepted key and amount the service is the store's contract operation.\<close>

lemma walletLock_memLock:
  "validateWalletKey m u cur = Inr key \<Longrightarrow> CentsFromFloat f = Inr c \<Longrightarrow> \<not> ctx 0 \<Longrightarrow>
    walletLock ctx m u cur f now r = wrap_result ''lock wallet balance'' (memLock key c now r)"
  by (auto simp: walletLock_def normalizeAmount_Inr memLock_def wrap_result_def
      split: prod.split sum.split)

lemma walletUnlock_memUnlock:
  "validateWalletKey m u cur = Inr key \<Longrightarrow> CentsFromFloat f = Inr c \<Longrightarrow> \<not> ctx 0 \<Longrightarrow>
    walletUnlock ctx m u cur f now r = wrap_result ''unlock wallet balance'' (memUnlock key c now r)"
  by (auto simp: walletUnlock_def normalizeAmount_Inr memUnlock_def wrap_result_def
      split: prod.split sum.split)

lemma walletRepoDebit_outcome:
  assumes "ledger_inv r" "account r k = Some (a, l)" "0 \<le> c" "c < moneyCap"
    "map_of (wr_transactions r) (t_ID t) = None"
  shows "c \<le> a \<Longrightarrow> fst (walletRepoDebit False k (CentsToFloat c) t u r) = Inr ()
      \<and> account (snd (walletRepoDebit False k (CentsToFloat c) t u r)) = (account r)(k \<mapsto> (a - c, l))"
    and "a < c \<Longrightarrow> walletRepoDebit False k (CentsToFloat c) t u r
      = (Inl (Sentinel WalletErrInsufficientBalance), r)"
proof -
  have inv: "wallet_inv r" using ledger_wallet_inv [OF assms(1)] .
  obtain i w where w: "wr_idByKey r k = Some i" "map_of (wr_byID r) i = Some w"
    "money (w_Balance w) a" "money (w_LockedBalance w) l" "walletForUpdate k r = Inr (i, w)"
    using wallet_inv_lookup [OF inv assms(2)] by metis
  note ar = money_arith [OF w(3) money_CentsToFloat [OF assms(3,4)]]
  show "walletRepoDebit False k (CentsToFloat c) t u r
      = (Inl (Sentinel WalletErrInsufficientBalance), r)" if "a < c"
    using that w(5) ar by (simp add: walletRepoDebit_def)
  show "fst (walletRepoDebit False k (CentsToFloat c) t u r) = Inr ()
      \<and> account (snd (walletRepoDebit False k (CentsToFloat c) t u r)) = (account r)(k \<mapsto> (a - c, l))"
    if "c \<le> a"
  proof -
    have acc: "account (s\<lparr>wr_transactions := x\<rparr>) = account s" for s :: walletRepo and x
      by (simp add: account_def fun_eq_iff split: option.split)
    have "cents_of (CentsToFloat (a - c)) = a - c"
      using that assms(3) w(3) by (intro cents_of_CentsToFloat) (auto simp: money_def)
    then show ?thesis
      using that w(5) ar assms(5)
        storeWallet_account [OF inv w(1,2), of "w\<lparr>w_Balance := CentsToFloat (a - c), w_UpdatedAt := u\<rparr>"]
      by (simp add: walletRepoDebit_def Let_def acc cents_of_money [OF w(4)])
  qed
qed

lemma walletDebit_outcome:
  assumes "ledger_inv r" "validateWalletKey m u cur = Inr key" "CentsFromFloat f = Inr c"
    "c < moneyCap" "validateTransactionType ty False = Inr ty'" "\<not> ctx 0"
    "fst (generateUUID rnd) = Inr i" "map_of (wr_transactions r) i = None"
    "account r key = Some (a, l)"
  shows "c \<le> a \<Longrightarrow> fst (walletDebit ctx m u cur f ty rnd now r) = Inr ()
      \<and> account (snd (walletDebit ctx m u cur f ty rnd now r)) = (account r)(key \<mapsto> (a - c, l))"
    and "a < c \<Longrightarrow> walletDebit ctx m u cur f ty rnd now r
      = (Inl (Wrapped ''debit wallet'' (Sentinel WalletErrInsufficientBalance)), r)"
proof -
  have c: "0 \<le> c" using CentsFromFloat_range [OF assms(3)] by simp
  let ?t = "newTransaction i (wk_Currency key) ty' (CentsToFloat c) [] now"
  have eq: "walletDebit ctx m u cur f ty rnd now r
      = wrap_result ''debit wallet'' (walletRepoDebit False key (CentsToFloat c) ?t now r)"
    using assms by (auto simp: walletDebit_def normalizeAmount_Inr wrap_result_def Let_def
        split: prod.split sum.split)
  have fresh: "map_of (wr_transactions r) (t_ID ?t) = None" using assms(8) by simp
  note d = walletRepoDebit_outcome [OF assms(1,9) c assms(4) fresh]
  show "fst (walletDebit ctx m u cur f ty rnd now r) = Inr ()
      \<and> account (snd (walletDebit ctx m u cur f ty rnd now r)) = (account r)(key \<mapsto> (a - c, l))"
    if "c \<le> a" using d(1) [OF that] by (simp add: eq wrap_result_Inr)
  show "walletDebit ctx m u cur f ty rnd now r
      = (Inl (Wrapped ''debit wallet'' (Sentinel WalletErrInsufficientBalance)), r)"
    if "a < c" using d(2) [OF that] by (simp add: eq)
qed

lemma account_tx [simp]:
  "account (s\<lparr>wr_transactions := x\<rparr>) = account (s :: walletRepo)"
  "account (s\<lparr>wr_txByIdempotency := y\<rparr>) = account (s :: walletRepo)"
  by (simp_all add: account_def fun_eq_iff split: option.split)

lemma payIn_account:
  assumes "ledger_inv r" "wr_idByKey r k = Some i" "map_of (wr_byID r) i = Some w"
    "money (w_Balance w) b" "money (w_LockedBalance w) l" "t_Amount t = CentsToFloat c"
    "0 \<le> c" "b + c < moneyCap"
  shows "fst (payIn i t r) = Inr () \<and> account (snd (payIn i t r)) = (account r)(k \<mapsto> (b + c, l))"
proof -
  have "money (CentsToFloat c) c" using assms(4,7,8) by (auto simp: money_def)
  note ar = money_arith(2) [OF assms(4) this]
  have "cents_of (CentsToFloat (b + c)) = b + c"
    using assms(4,7,8) by (intro cents_of_CentsToFloat) (auto simp: money_def)
  then show ?thesis
    using ar assms(3,6) storeWallet_account [OF ledger_wallet_inv [OF assms(1)] assms(2,3),
        of "w\<lparr>w_Balance := CentsToFloat (b + c), w_UpdatedAt := t_CreatedAt t\<rparr>"]
    by (simp add: payIn_def Let_def cents_of_money [OF assms(5)])
qed

text \<open>The account a credit starts from: a missing wallet counts as an empty one.\<close>

definition account0 :: "walletRepo \<Rightarrow> walletKey \<Rightarrow> int \<times> int" where
  "account0 r k = (case account r k of None \<Rightarrow> (0, 0) | Some p \<Rightarrow> p)"

lemma ensureWallet_account:
  assumes "ledger_inv r" "w_Balance wal = Fin 0" "w_LockedBalance wal = Fin 0"
    "wr_idByKey r (keyFromWallet wal) = None \<Longrightarrow> w_ID wal \<notin> keys (wr_byID r)"
    "ensureWallet wal r = (i, r1)"
  shows "account r1 = (account r)(keyFromWallet wal \<mapsto> account0 r (keyFromWallet wal))"
proof (cases "wr_idByKey r (keyFromWallet wal)")
  case None
  have fresh: "wr_idByKey r k \<noteq> Some (w_ID wal)" for k
    using wallet_inv_key [OF ledger_wallet_inv [OF assms(1)], of k "w_ID wal"] assms(4) None
    by (auto simp: map_of_None_keys [symmetric])
  have none: "account r (keyFromWallet wal) = None" using None by (simp add: account_def)
  have z: "cents_of (Fin 0) = 0" by (simp add: cents_of_money [OF Fin_0_money])
  show ?thesis
  proof
    fix k
    show "account r1 k = ((account r)(keyFromWallet wal \<mapsto> account0 r (keyFromWallet wal))) k"
      using None assms(2,3,5) none z fresh [of k]
      by (auto simp: ensureWallet_def Let_def account_def account0_def split: option.splits)
  qed
next
  case (Some j)
  then obtain p where "account r (keyFromWallet wal) = Some p"
    using wallet_inv_key [OF ledger_wallet_inv [OF assms(1)] Some] by (auto simp: account_def)
  with Some assms(5) show ?thesis by (auto simp: ensureWallet_def account0_def)
qed

definition idem_recorded :: "walletRepo \<Rightarrow> walletKey \<Rightarrow> string \<Rightarrow> bool" where
  "idem_recorded r k x = (case wr_idByKey r k of
      None \<Rightarrow> False
    | Some i \<Rightarrow> wr_txByIdempotency r (i, x) \<noteq> None)"

lemma map_leD: "m \<subseteq>\<^sub>m m' \<Longrightarrow> m k = Some v \<Longrightarrow> m' k = Some v"
  by (metis domI map_le_def)

lemma idem_recorded_grows: "grows r r' \<Longrightarrow> idem_recorded r k x \<Longrightarrow> idem_recorded r' k x"
  unfolding grows_def idem_recorded_def
  using map_leD [of "wr_idByKey r" "wr_idByKey r'" k]
    map_leD [of "wr_txByIdempotency r" "wr_txByIdempotency r'"]
  by (fastforce split: option.splits)

text \<open>Recorded keys belong to wallets of the store.\<close>

definition idem_inv :: "walletRepo \<Rightarrow> bool" where
  "idem_inv r \<longleftrightarrow> (\<forall>i x. wr_txByIdempotency r (i, x) \<noteq> None \<longrightarrow> i \<in> keys (wr_byID r))"

lemma idem_inv_store [simp]: "idem_inv r \<Longrightarrow> idem_inv (storeWallet i w r)"
  by (auto simp: idem_inv_def storeWallet_def)

lemma idem_inv_tx [simp]: "idem_inv (r\<lparr>wr_transactions := x\<rparr>) = idem_inv r"
  by (simp add: idem_inv_def)

lemma idem_inv_creditWallet:
  assumes "idem_inv r" "i \<in> keys (wr_byID r)"
  shows "idem_inv (snd (creditWallet i t r))"
proof -
  have p: "idem_inv (snd (payIn i t r'))" if "idem_inv r'" for r'
    using that by (auto simp: payIn_def Let_def split: option.split sum.split)
  have "idem_inv (r\<lparr>wr_txByIdempotency := (wr_txByIdempotency r)((i, x) \<mapsto> y)\<rparr>)" for x y
    using assms by (auto simp: idem_inv_def)
  then show ?thesis by (simp add: creditWallet_def p assms(1))
qed

lemma wallet_inv_keys: "wallet_inv r \<Longrightarrow> wr_idByKey r k = Some i \<Longrightarrow> i \<in> keys (wr_byID r)"
  using wallet_inv_key [of r k i] map_of_None_keys [of "wr_byID r" i] by fastforce

lemma idem_inv_repo:
  assumes "idem_inv r" "wallet_inv r"
  shows "idem_inv (snd (walletRepoCreate d w r))" "idem_inv (snd (walletRepoCredit d w t r))"
    "idem_inv (snd (walletRepoDebit d k f t u r))" "idem_inv (snd (walletRepoLock d k f u r))"
    "idem_inv (snd (walletRepoUnlock d k f u r))"
proof -
  show "idem_inv (snd (walletRepoCreate d w r))"
    using assms(1) by (auto simp: walletRepoCreate_def idem_inv_def Let_def)
  obtain i r1 where e: "ensureWallet w r = (i, r1)" by fastforce
  have "i \<in> keys (wr_byID r1)"
    using e wallet_inv_keys [OF assms(2), of "keyFromWallet w" i]
    by (auto simp: ensureWallet_def Let_def split: option.splits)
  moreover have "idem_inv r1"
    using e assms(1) by (auto 4 4 simp: ensureWallet_def idem_inv_def Let_def split: option.splits)
  ultimately show "idem_inv (snd (walletRepoCredit d w t r))"
    using e idem_inv_creditWallet assms(1) by (simp add: walletRepoCredit_def)
  show "idem_inv (snd (walletRepoDebit d k f t u r))"
    using assms(1) by (auto simp: walletRepoDebit_def Let_def split: sum.split prod.split)
  show "idem_inv (snd (walletRepoLock d k f u r))"
    using assms(1) by (auto simp: walletRepoLock_def Let_def split: sum.split prod.split)
  show "idem_inv (snd (walletRepoUnlock d k f u r))"
    using assms(1) by (auto simp: walletRepoUnlock_def Let_def split: sum.split prod.split)
qed

lemma idem_inv_step: "wallet_step r r' \<Longrightarrow> idem_inv r \<Longrightarrow> wallet_inv r \<Longrightarrow> idem_inv r'"
proof (induction rule: wallet_step.induct)
  case create
  then show ?case
    by (auto simp: walletCreate_def Let_def snd_plain_result idem_inv_repo split: sum.split)
next
  case credit
  then show ?case
    by (auto simp: walletCreditWithIdempotency_def Let_def snd_credit_result idem_inv_repo split: sum.split)
next
  case debit
  then show ?case
    by (auto simp: walletDebit_def Let_def snd_plain_result idem_inv_repo split: sum.split)
next
  case lock
  then show ?case
    by (auto simp: walletLock_def snd_plain_result idem_inv_repo split: sum.split)
next
  case unlock
  then show ?case
    by (auto simp: walletUnlock_def snd_plain_result idem_inv_repo split: sum.split)
qed

lemma idem_inv_reachable: "wallet_reachable r \<Longrightarrow> idem_inv r"
proof -
  have "wallet_step\<^sup>*\<^sup>* newWalletRepo r \<Longrightarrow> ledger_inv r \<and> idem_inv r"
  proof (induction rule: rtranclp_induct)
    case base
    show ?case using ledger_inv_empty by (simp add: idem_inv_def newWalletRepo_def)
  next
    case (step y z)
    then show ?case by (auto intro: ledger_step idem_inv_step ledger_wallet_inv)
  qed
  then show "wallet_reachable r \<Longrightarrow> idem_inv r" by (simp add: wallet_reachable_def)
qed

lemma idem_recorded_ensure:
  assumes "idem_inv r" "wr_idByKey r k = None \<Longrightarrow> w_ID wal \<notin> keys (wr_byID r)"
    "k = keyFromWallet wal" "ensureWallet wal r = (i, r1)" "wr_txByIdempotency r (i, x) \<noteq> None"
  shows "idem_recorded r k x"
  using assms
  by (auto simp: ensureWallet_def idem_recorded_def idem_inv_def Let_def split: option.splits)

lemma walletRepoCredit_outcome:
  assumes "ledger_inv r" "w_Balance wal = Fin 0" "w_LockedBalance wal = Fin 0"
    "wr_idByKey r k = None \<Longrightarrow> w_ID wal \<notin> keys (wr_byID r)" "k = keyFromWallet wal"
    "t_Amount t = CentsToFloat c" "0 \<le> c" "room r k (CentsToFloat c)"
    "map_of (wr_transactions r) (t_ID t) = None" "c < moneyCap" "idem_inv r"
  shows "t_IdempotencyKey t \<noteq> [] \<Longrightarrow> idem_recorded r k (t_IdempotencyKey t) \<Longrightarrow>
      walletRepoCredit False wal t r = (Inl (Sentinel WalletErrAlreadyExists), r)"
    and "t_IdempotencyKey t = [] \<or> \<not> idem_recorded r k (t_IdempotencyKey t) \<Longrightarrow>
      fst (walletRepoCredit False wal t r) = Inr ()
      \<and> account (snd (walletRepoCredit False wal t r))
        = (account r)(k \<mapsto> (fst (account0 r k) + c, snd (account0 r k)))"
proof -
  show "walletRepoCredit False wal t r = (Inl (Sentinel WalletErrAlreadyExists), r)"
    if "t_IdempotencyKey t \<noteq> []" "idem_recorded r k (t_IdempotencyKey t)"
    using that assms(5,9)
    by (auto simp: walletRepoCredit_def creditWallet_def ensureWallet_def idem_recorded_def Let_def
        split: option.splits)
  assume new: "t_IdempotencyKey t = [] \<or> \<not> idem_recorded r k (t_IdempotencyKey t)"
  obtain i r1 where e: "ensureWallet wal r = (i, r1)" by fastforce
  show "fst (walletRepoCredit False wal t r) = Inr ()
      \<and> account (snd (walletRepoCredit False wal t r))
        = (account r)(k \<mapsto> (fst (account0 r k) + c, snd (account0 r k)))"
  proof (rule ledger_ensureWallet [OF assms(1-3) _ _ e])
    show "room r (keyFromWallet wal) (CentsToFloat c)" using assms(5,8) by simp
    show "w_ID wal \<notin> keys (wr_byID r)" if "wr_idByKey r (keyFromWallet wal) = None"
      using that assms(4,5) by simp
    fix w b l
    assume w: "ledger_inv r1" "map_of (wr_byID r1) i = Some w" "keyFromWallet w = keyFromWallet wal"
      "money (w_Balance w) b" "money (w_LockedBalance w) l" "b + l + cents_of (CentsToFloat c) < moneyCap"
      and same: "wr_txByIdempotency r1 = wr_txByIdempotency r" "wr_transactions r1 = wr_transactions r"
    have k: "wr_idByKey r1 k = Some i" using grows_ensureWallet [OF e] assms(5) by simp
    have "account r1 k = Some (b, l)"
      using k w by (simp add: account_def cents_of_money)
    moreover have acc: "account r1 = (account r)(k \<mapsto> account0 r k)"
      using ensureWallet_account [OF assms(1-3) _ e] assms(4,5) by simp
    ultimately have bl: "account0 r k = (b, l)" by simp
    have l: "b + c < moneyCap"
      using w(5,6) assms(7,10) by (auto simp: money_def cents_of_CentsToFloat)
    have pay: "fst (payIn i t r2) = Inr () \<and> account (snd (payIn i t r2)) = (account r)(k \<mapsto> (b + c, l))"
      if "r2 = r1 \<or> r2 = r1\<lparr>wr_txByIdempotency := x\<rparr>" for r2 x
      using payIn_account [of r2 k i w b l t c] that k w assms(6,7) l acc by auto
    have "wr_txByIdempotency r1 (i, t_IdempotencyKey t) = None" if "t_IdempotencyKey t \<noteq> []"
      using new that same(1) idem_recorded_ensure [OF assms(11,4,5) e, of "t_IdempotencyKey t"] by metis
    moreover note pay [of r1] pay [OF disjI2 [OF refl]]
    ultimately show ?thesis
      using e same(2) assms(9) bl
      by (simp add: walletRepoCredit_def creditWallet_def)
  qed
qed

text \<open>A successful credit leaves its key recorded.\<close>

lemma creditWallet_records:
  assumes "fst (creditWallet i t r) = Inr ()" "t_IdempotencyKey t \<noteq> []"
  shows "wr_txByIdempotency (snd (creditWallet i t r)) (i, t_IdempotencyKey t) \<noteq> None"
proof -
  have "wr_txByIdempotency (snd (payIn i t r')) = wr_txByIdempotency r'" for r'
    by (auto simp: payIn_def Let_def storeWallet_def split: option.split sum.split)
  with assms show ?thesis by (auto simp: creditWallet_def split: if_splits)
qed

lemma walletRepoCredit_records:
  assumes "fst (walletRepoCredit d w t r) = Inr ()" "t_IdempotencyKey t \<noteq> []"
  shows "idem_recorded (snd (walletRepoCredit d w t r)) (keyFromWallet w) (t_IdempotencyKey t)"
proof -
  obtain i r1 where e: "ensureWallet w r = (i, r1)" by fastforce
  then have eq: "walletRepoCredit d w t r = creditWallet i t r1"
    using assms(1) by (auto simp: walletRepoCredit_def split: if_splits)
  have "wr_idByKey (snd (creditWallet i t r1)) (keyFromWallet w) = Some i"
    using grows_ensureWallet [OF e] grows_creditWallet [of r1 i t]
    by (auto simp: grows_def intro: map_leD)
  then show ?thesis using creditWallet_records assms unfolding eq by (simp add: idem_recorded_def)
qed

text \<open>The service: a credit that the validation accepts, with working randomness.\<close>

definition credit_accepted ::
  "(nat \<Rightarrow> bool) \<Rightarrow> string \<Rightarrow> string \<Rightarrow> string \<Rightarrow> float64 \<Rightarrow> string \<Rightarrow> string \<Rightarrow> byte list
    \<Rightarrow> walletRepo \<Rightarrow> walletKey \<Rightarrow> int \<Rightarrow> bool" where
  "credit_accepted ctx m u cur f ty idem rnd r key c \<longleftrightarrow>
     validateWalletKey m u cur = Inr key \<and> CentsFromFloat f = Inr c \<and> c < moneyCap
     \<and> ok (validateTransactionType ty True) \<and> ok (validateIdempotencyKey idem)
     \<and> \<not> ctx 0 \<and> \<not> ctx 1
     \<and> (case fst (generateOperationIDs rnd) of
          Inl _ \<Rightarrow> False
        | Inr (i, j) \<Rightarrow> map_of (wr_transactions r) j = None)
     \<and> credit_fits m u cur f rnd r"

lemma walletCredit_outcome:
  assumes "ledger_inv r" "idem_inv r" "credit_accepted ctx m u cur f ty idem rnd r key c"
  shows "trimSpace idem \<noteq> [] \<Longrightarrow> idem_recorded r key (trimSpace idem) \<Longrightarrow>
      walletCreditWithIdempotency ctx m u cur f ty idem rnd now r = (Inr (), r)"
    and "trimSpace idem = [] \<or> \<not> idem_recorded r key (trimSpace idem) \<Longrightarrow>
      fst (walletCreditWithIdempotency ctx m u cur f ty idem rnd now r) = Inr ()
      \<and> account (snd (walletCreditWithIdempotency ctx m u cur f ty idem rnd now r))
        = (account r)(key \<mapsto> (fst (account0 r key) + c, snd (account0 r key)))"
    and "trimSpace idem \<noteq> [] \<Longrightarrow> idem_recorded
      (snd (walletCreditWithIdempotency ctx m u cur f ty idem rnd now r)) key (trimSpace idem)"
proof -
  obtain ty' i j where v: "validateWalletKey m u cur = Inr key" "CentsFromFloat f = Inr c"
    "c < moneyCap" "validateTransactionType ty True = Inr ty'" "\<not> ctx 0" "\<not> ctx 1"
    "validateIdempotencyKey idem = Inr (trimSpace idem)"
    "fst (generateOperationIDs rnd) = Inr (i, j)" "map_of (wr_transactions r) j = None"
    using assms(3)
    by (auto simp: credit_accepted_def ok_iff validateIdempotencyKey_def Let_def
        split: sum.splits if_splits)
  let ?wal = "\<lparr>w_ID = i, w_MerchantID = wk_MerchantID key, w_UserID = wk_UserID key,
      w_Currency = wk_Currency key, w_Balance = Fin 0, w_LockedBalance = Fin 0, w_UpdatedAt = now\<rparr>"
  let ?t = "newTransaction j (wk_Currency key) ty' (CentsToFloat c) (trimSpace idem) now"
  have eq: "walletCreditWithIdempotency ctx m u cur f ty idem rnd now r =
    (case walletRepoCredit False ?wal ?t r of
       (Inl err, r') \<Rightarrow> if trimSpace idem \<noteq> [] \<and> errorsIs err WalletErrAlreadyExists then (Inr (), r')
         else (Inl (wrap_error ''credit wallet'' err), r')
     | (Inr _, r') \<Rightarrow> (Inr (), r'))"
    using v by (simp add: walletCreditWithIdempotency_def normalizeAmount_Inr
        walletValidateMerchant_def Let_def)
  have fits: "room r key (CentsToFloat c)"
    "wr_idByKey r key = None \<Longrightarrow> w_ID ?wal \<notin> keys (wr_byID r)"
    using assms(3) v by (auto simp: credit_accepted_def credit_fits_def normalizeAmount_Inr
        map_of_None_keys)
  have "0 \<le> c" using CentsFromFloat_range [OF v(2)] by simp
  note o = walletRepoCredit_outcome [of r ?wal key ?t c, OF assms(1) _ _ fits(2) _ _ this fits(1) _ v(3) assms(2)]
  show "walletCreditWithIdempotency ctx m u cur f ty idem rnd now r = (Inr (), r)"
    if "trimSpace idem \<noteq> []" "idem_recorded r key (trimSpace idem)"
    using o(1) that v(9) by (simp add: eq keyFromWallet_key)
  show "fst (walletCreditWithIdempotency ctx m u cur f ty idem rnd now r) = Inr ()
      \<and> account (snd (walletCreditWithIdempotency ctx m u cur f ty idem rnd now r))
        = (account r)(key \<mapsto> (fst (account0 r key) + c, snd (account0 r key)))"
    if "trimSpace idem = [] \<or> \<not> idem_recorded r key (trimSpace idem)"
  proof -
    have "fst (walletRepoCredit False ?wal ?t r) = Inr ()"
      "account (snd (walletRepoCredit False ?wal ?t r))
        = (account r)(key \<mapsto> (fst (account0 r key) + c, snd (account0 r key)))"
      using o(2) that v(9) by (simp_all add: keyFromWallet_key)
    then show ?thesis
      unfolding eq by (cases "walletRepoCredit False ?wal ?t r") simp
  qed
  show "idem_recorded
      (snd (walletCreditWithIdempotency ctx m u cur f ty idem rnd now r)) key (trimSpace idem)"
    if "trimSpace idem \<noteq> []"
  proof (cases "idem_recorded r key (trimSpace idem)")
    case True
    with o(1) that v(9) show ?thesis by (simp add: eq keyFromWallet_key)
  next
    case False
    then have "fst (walletRepoCredit False ?wal ?t r) = Inr ()"
      using o(2) v(9) by (simp add: keyFromWallet_key)
    from walletRepoCredit_records [OF this] show ?thesis
      using that by (simp add: eq snd_credit_result keyFromWallet_key)
  qed
qed

section \<open>Properties\<close>

text \<open>A concrete store for the examples: one wallet with 25 USD.\<close>

definition demo_merchant :: string where
  "demo_merchant = ''00000000-0000-4000-8000-000000000001''"

definition demo_key :: walletKey where
  "demo_key = \<lparr>wk_MerchantID = demo_merchant, wk_UserID = ''alice'', wk_Currency = ''USD''\<rparr>"

definition demo_funded :: walletRepo where
  "demo_funded = snd (walletCreditWithIdempotency (\<lambda>_. False) demo_merchant ''alice'' ''usd'' (Fin 25)
     ''credit'' ''k1'' (replicate 32 0) 0 newWalletRepo)"

lemma demo_accepted:
  "credit_accepted (\<lambda>_. False) demo_merchant ''alice'' ''usd'' (Fin 25) ''credit'' ''k1''
     (replicate 32 0) newWalletRepo demo_key 2500"
  by code_simp

lemma demo_funded_reachable: "wallet_reachable demo_funded"
proof -
  have "credit_fits demo_merchant ''alice'' ''usd'' (Fin 25) (replicate 32 0) newWalletRepo"
    using demo_accepted by (simp add: credit_accepted_def)
  then show ?thesis
    unfolding wallet_reachable_def demo_funded_def by (blast intro: wallet_step.credit)
qed

lemma demo_account: "account demo_funded demo_key = Some (2500, 0)"
  by code_simp

text \<open>
  C9: In every state the wallet service can reach, by any sequence of calls with any
  outcomes, the available and the locked cents of an account are non-negative and add up
  to the signed sum of the transaction history of its wallet.
\<close>

theorem wallet_books_balance:
  assumes "wallet_reachable r" "account r k = Some (a, l)"
  shows "0 \<le> a \<and> 0 \<le> l \<and> (\<exists>i. wr_idByKey r k = Some i \<and> a + l = history r i)"
  using ledger_account [OF ledger_reachable [OF assms(1)] assms(2)] by metis

theorem wallet_books_balance_witness:
  "\<exists>i. wr_idByKey demo_funded demo_key = Some i \<and> 2500 + 0 = history demo_funded i"
  using wallet_books_balance [OF demo_funded_reachable demo_account] by simp

text \<open>
  C10: A credit the service accepts returns success; it adds exactly the amount to the
  available cents of that account and to nothing else, unless its idempotency key is
  already recorded for the wallet: then it returns success and changes nothing.
\<close>

theorem credit_exact:
  assumes "wallet_reachable r" "credit_accepted ctx m u cur f ty idem rnd r key c"
  shows "if trimSpace idem \<noteq> [] \<and> idem_recorded r key (trimSpace idem)
    then walletCreditWithIdempotency ctx m u cur f ty idem rnd now r = (Inr (), r)
    else fst (walletCreditWithIdempotency ctx m u cur f ty idem rnd now r) = Inr ()
      \<and> account (snd (walletCreditWithIdempotency ctx m u cur f ty idem rnd now r))
        = (account r)(key \<mapsto> (fst (account0 r key) + c, snd (account0 r key)))"
  using walletCredit_outcome [OF ledger_reachable idem_inv_reachable, OF assms(1) assms(1,2)]
  by simp

theorem credit_exact_witness:
  "fst (walletCreditWithIdempotency (\<lambda>_. False) demo_merchant ''alice'' ''usd'' (Fin 25)
     ''credit'' ''k1'' (replicate 32 0) 0 newWalletRepo) = Inr ()
   \<and> account demo_funded = (account newWalletRepo)(demo_key \<mapsto> (2500, 0))"
proof -
  have "wallet_reachable newWalletRepo" by (simp add: wallet_reachable_def)
  from credit_exact [OF this demo_accepted, of 0] show ?thesis
    by (simp add: demo_funded_def idem_recorded_def newWalletRepo_def account0_def account_def)
qed

text \<open>
  A retried credit pays once: after an accepted credit under an idempotency key, and
  any further calls of the service, every accepted credit of that account under the same
  key returns success and leaves the store as it is.
\<close>

theorem credit_idempotent:
  assumes "wallet_reachable r" "credit_accepted ctx m u cur f ty idem rnd r key c"
    and "trimSpace idem \<noteq> []"
    and "wallet_step\<^sup>*\<^sup>* (snd (walletCreditWithIdempotency ctx m u cur f ty idem rnd now r)) r2"
    and "credit_accepted ctx2 m2 u2 cur2 f2 ty2 idem2 rnd2 r2 key c2"
    and "trimSpace idem2 = trimSpace idem"
  shows "walletCreditWithIdempotency ctx2 m2 u2 cur2 f2 ty2 idem2 rnd2 now2 r2 = (Inr (), r2)"
proof -
  have "idem_recorded (snd (walletCreditWithIdempotency ctx m u cur f ty idem rnd now r)) key (trimSpace idem)"
    using walletCredit_outcome(3) [OF ledger_reachable idem_inv_reachable, OF assms(1) assms(1,2,3)] .
  then have rec: "idem_recorded r2 key (trimSpace idem2)"
    using idem_recorded_grows [OF grows_run [OF assms(4)]] assms(6) by simp
  have "wallet_step r (snd (walletCreditWithIdempotency ctx m u cur f ty idem rnd now r))"
    using assms(2) by (auto simp: credit_accepted_def intro: wallet_step.credit)
  then have "wallet_reachable r2"
    using assms(1,4) unfolding wallet_reachable_def by (meson rtranclp.rtrancl_into_rtrancl rtranclp_trans)
  then show ?thesis
    using walletCredit_outcome(1) [OF ledger_reachable idem_inv_reachable, OF _ _ assms(5)] rec assms(3,6)
    by simp
qed

theorem credit_idempotent_witness:
  "walletCreditWithIdempotency (\<lambda>_. False) demo_merchant ''alice'' ''USD'' (Fin 25) ''win'' '' k1 ''
     (replicate 32 7) 9 demo_funded = (Inr (), demo_funded)"
proof -
  have r: "wallet_reachable newWalletRepo" by (simp add: wallet_reachable_def)
  have "credit_accepted (\<lambda>_. False) demo_merchant ''alice'' ''USD'' (Fin 25) ''win'' '' k1 ''
     (replicate 32 7) demo_funded demo_key 2500" by code_simp
  moreover have "trimSpace ''k1'' \<noteq> []" "trimSpace '' k1 '' = trimSpace ''k1''" by code_simp+
  ultimately show ?thesis
    using credit_idempotent [OF r demo_accepted, of 0 demo_funded] unfolding demo_funded_def by blast
qed

text \<open>
  A debit with accepted arguments takes exactly its amount from the available cents
  when they suffice, and otherwise fails with the insufficient-balance error and leaves
  the store as it is.
\<close>

theorem debit_exact:
  assumes "wallet_reachable r" "validateWalletKey m u cur = Inr key" "CentsFromFloat f = Inr c"
    "c < moneyCap" "validateTransactionType ty False = Inr ty'" "\<not> ctx 0"
    "fst (generateUUID rnd) = Inr i" "map_of (wr_transactions r) i = None"
    "account r key = Some (a, l)"
  shows "if c \<le> a
    then fst (walletDebit ctx m u cur f ty rnd now r) = Inr ()
      \<and> account (snd (walletDebit ctx m u cur f ty rnd now r)) = (account r)(key \<mapsto> (a - c, l))
    else walletDebit ctx m u cur f ty rnd now r
      = (Inl (Wrapped ''debit wallet'' (Sentinel WalletErrInsufficientBalance)), r)"
  using walletDebit_outcome [where ctx = ctx, OF ledger_reachable [OF assms(1)] assms(2-9)] by simp

theorem debit_exact_witness:
  "fst (walletDebit (\<lambda>_. False) demo_merchant ''alice'' ''USD'' (Fin 10) ''bet''
       (replicate 16 5) 3 demo_funded) = Inr ()
   \<and> walletDebit (\<lambda>_. False) demo_merchant ''alice'' ''USD'' (Fin 26) ''fee''
       (replicate 16 5) 3 demo_funded
     = (Inl (Wrapped ''debit wallet'' (Sentinel WalletErrInsufficientBalance)), demo_funded)"
proof -
  have v: "validateWalletKey demo_merchant ''alice'' ''USD'' = Inr demo_key"
    "CentsFromFloat (Fin 10) = Inr 1000" "CentsFromFloat (Fin 26) = Inr 2600"
    "(1000 :: int) < moneyCap" "(2600 :: int) < moneyCap"
    "validateTransactionType ''bet'' False = Inr ''bet''"
    "validateTransactionType ''fee'' False = Inr ''fee''"
    "fst (generateUUID (replicate 16 5)) = Inr ''05050505-0505-4505-8505-050505050505''"
    "map_of (wr_transactions demo_funded) ''05050505-0505-4505-8505-050505050505'' = None"
    by code_simp+
  note d = demo_funded_reachable
  show ?thesis
    using debit_exact [OF d v(1,2,4,6) _ v(8,9) demo_account, of "\<lambda>_. False" 3]
      debit_exact [OF d v(1,3,5,7) _ v(8,9) demo_account, of "\<lambda>_. False" 3]
    by simp
qed

text \<open>
  Locking moves exactly the amount from the available to the locked cents of the
  account, unlocking it again restores every account, and a lock beyond the available
  cents fails with the insufficient-balance error and leaves the store as it is.
\<close>

theorem lock_exact:
  assumes "wallet_reachable r" "validateWalletKey m u cur = Inr key" "CentsFromFloat f = Inr c"
    "c < moneyCap" "\<not> ctx 0" "account r key = Some (a, l)"
    "r' = snd (walletLock ctx m u cur f now r)"
  shows "if c \<le> a
    then fst (walletLock ctx m u cur f now r) = Inr ()
      \<and> account r' = (account r)(key \<mapsto> (a - c, l + c))
      \<and> fst (walletUnlock ctx m u cur f now2 r') = Inr ()
      \<and> account (snd (walletUnlock ctx m u cur f now2 r')) = account r
    else walletLock ctx m u cur f now r
      = (Inl (Wrapped ''lock wallet balance'' (Sentinel WalletErrInsufficientBalance)), r)"
proof -
  have inv: "wallet_inv r" using ledger_wallet_inv [OF ledger_reachable [OF assms(1)]] .
  have c: "0 \<le> c" using CentsFromFloat_range [OF assms(3)] by simp
  note L = walletLock_memLock [where ctx = ctx, OF assms(2,3,5)] and U = walletUnlock_memUnlock [where ctx = ctx, OF assms(2,3,5)]
  have al: "0 \<le> l" using mem.acct_bounds [OF inv assms(6)] by simp
  show ?thesis
  proof (cases "c \<le> a")
    case True
    have r': "r' = snd (memLock key c now r)" using assms(7) by (simp add: L)
    have k: "account r' key = Some (a - c, l + c)"
      using mem.lock_ok [OF inv assms(6) c True] by (simp add: r')
    show ?thesis
      using True mem.lock_ok [OF inv assms(6) c True] mem.lock_unlock [OF inv assms(6) c True]
        mem.unlock_ok [OF mem.invar_lock [OF inv c assms(4), of key now, folded r'] k c] al
      by (simp add: L U r' wrap_result_Inr)
  next
    case False
    then show ?thesis
      using mem.lock_short [OF inv assms(6) _ assms(4), of now] by (simp add: L)
  qed
qed

theorem lock_exact_witness:
  "fst (walletLock (\<lambda>_. False) demo_merchant ''alice'' ''USD'' (Fin 10) 3 demo_funded) = Inr ()
   \<and> walletLock (\<lambda>_. False) demo_merchant ''alice'' ''USD'' (Fin 26) 3 demo_funded
     = (Inl (Wrapped ''lock wallet balance'' (Sentinel WalletErrInsufficientBalance)), demo_funded)"
proof -
  have v: "validateWalletKey demo_merchant ''alice'' ''USD'' = Inr demo_key"
    "CentsFromFloat (Fin 10) = Inr 1000" "CentsFromFloat (Fin 26) = Inr 2600"
    "(1000 :: int) < moneyCap" "(2600 :: int) < moneyCap"
    by code_simp+
  show ?thesis
    using lock_exact [OF demo_funded_reachable v(1,2,4) _ demo_account refl, of "\<lambda>_. False" 3 0]
      lock_exact [OF demo_funded_reachable v(1,3,5) _ demo_account refl, of "\<lambda>_. False" 3 0]
    by simp
qed

end
