(* ===== verification/Market.thy ===== *)
theory Market
  imports DomainTypes
begin

text \<open>
  \<^verbatim>\<open>internal/market/market.go\<close>, \<^verbatim>\<open>memory_repository.go\<close>: the market service over its
  in-memory repository, and the life of a market's status. A status update reads the
  market and then commits with the status it read as the expected one, so other calls can
  come in between: the runs at the end are over repository commits, one per call in
  flight, and the transition law holds for every interleaving.
\<close>

type_synonym markets = "(string \<times> market) list"

record marketCreateRequest =
  mq_MerchantID :: string
  mq_EventID :: string
  mq_Type :: string
  mq_Question :: string
  mq_Options :: "string list"
  mq_LiquidityPool :: float64

record marketFilters =
  mf_MerchantID :: string
  mf_EventID :: string
  mf_Status :: string
  mf_Page :: int
  mf_Limit :: int

section \<open>The repository\<close>

definition marketRepoValidateReferences :: "bool \<Rightarrow> unit res" where
  "marketRepoValidateReferences ctxDone = (if ctxDone then Inl CtxErr else Inr ())"

definition marketRepoCreate :: "bool \<Rightarrow> market \<Rightarrow> markets \<Rightarrow> unit res \<times> markets" where
  "marketRepoCreate ctxDone v byID =
     (if ctxDone then (Inl CtxErr, byID)
      else if map_of byID (m_ID v) \<noteq> None
        then (Inl (Plain (''market ID already exists: '' @ m_ID v)), byID)
      else (Inr (), put (m_ID v) v byID))"

definition marketRepoGetByID :: "bool \<Rightarrow> string \<Rightarrow> markets \<Rightarrow> market res" where
  "marketRepoGetByID ctxDone marketID byID =
     (if ctxDone then Inl CtxErr
      else case map_of byID marketID of None \<Rightarrow> Inl (Sentinel MarketErrNotFound) | Some v \<Rightarrow> Inr v)"

definition marketMatches :: "marketFilters \<Rightarrow> market \<Rightarrow> bool" where
  "marketMatches filters v \<longleftrightarrow>
     (mf_MerchantID filters = [] \<or> m_MerchantID v = mf_MerchantID filters)
     \<and> (mf_EventID filters = [] \<or> m_EventID v = mf_EventID filters)
     \<and> (mf_Status filters = [] \<or> m_Status v = mf_Status filters)"

definition marketsNewestFirst :: "market \<Rightarrow> market \<Rightarrow> bool" where
  "marketsNewestFirst a b = (if m_CreatedAt a = m_CreatedAt b then m_ID a < m_ID b
     else m_CreatedAt b < m_CreatedAt a)"

interpretation marketOrder: total_comparator marketsNewestFirst "\<lambda>_. True" m_ID
  by unfold_locales (auto simp: marketsNewestFirst_def split: if_splits)

definition marketRepoList :: "bool \<Rightarrow> marketFilters \<Rightarrow> markets \<Rightarrow> (market list \<times> int) res" where
  "marketRepoList ctxDone filters byID =
     (if ctxDone then Inl CtxErr
      else Inr (page_slice ((mf_Page filters - 1) * mf_Limit filters) (mf_Limit filters)
        (sort_by marketsNewestFirst (filter (marketMatches filters) (map snd byID)))))"

definition marketRepoUpdateStatus ::
  "bool \<Rightarrow> string \<Rightarrow> string \<Rightarrow> string \<Rightarrow> markets \<Rightarrow> unit res \<times> markets" where
  "marketRepoUpdateStatus ctxDone marketID expectedStatus status byID =
     (if ctxDone then (Inl CtxErr, byID)
      else case map_of byID marketID of
          None \<Rightarrow> (Inl (Sentinel MarketErrNotFound), byID)
        | Some v \<Rightarrow>
            if m_Status v \<noteq> expectedStatus then (Inl (Sentinel MarketErrInvalidTransition), byID)
            else (Inr (), put marketID (v\<lparr>m_Status := status\<rparr>) byID))"

definition marketRepoAddLiquidity ::
  "bool \<Rightarrow> string \<Rightarrow> string \<Rightarrow> float64 \<Rightarrow> markets \<Rightarrow> unit res \<times> markets" where
  "marketRepoAddLiquidity ctxDone marketID expectedStatus amount byID =
     (if ctxDone then (Inl CtxErr, byID)
      else case map_of byID marketID of
          None \<Rightarrow> (Inl (Sentinel MarketErrNotFound), byID)
        | Some v \<Rightarrow>
            if m_Status v \<noteq> expectedStatus then (Inl (Sentinel MarketErrInvalidTransition), byID)
            else (Inr (), put marketID (v\<lparr>m_LiquidityPool := f_add (m_LiquidityPool v) amount\<rparr>) byID))"

section \<open>Validation\<close>

definition validateMarketID :: "string \<Rightarrow> string res" where
  "validateMarketID marketID0 =
     (let marketID = trimSpace marketID0 in
      if \<not> isUUID marketID then Inl (Validation ''market_id'' ''must be a UUID'') else Inr marketID)"

definition normalizeOptions :: "string list \<Rightarrow> string list" where
  "normalizeOptions options = map trimSpace options"

fun checkOptions :: "string list \<Rightarrow> string list \<Rightarrow> unit res" where
  "checkOptions seen [] = Inr ()"
| "checkOptions seen (option # rest) =
     (if option = [] then Inl (Validation ''options'' ''cannot contain empty values'')
      else if toLower option \<in> set seen then Inl (Validation ''options'' ''must contain unique values'')
      else checkOptions (toLower option # seen) rest)"

definition validateOptions :: "string list \<Rightarrow> unit res" where
  "validateOptions options =
     (if length options \<noteq> 2
      then Inl (Validation ''options'' ''binary markets require exactly 2 options'')
      else checkOptions [] options)"

definition validateMoney :: "string \<Rightarrow> float64 \<Rightarrow> bool \<Rightarrow> unit res" where
  "validateMoney field v allowZero =
     (let invalidNumber = is_nan v \<or> is_inf v;
          belowMinimum = f_lt v (Fin 0) \<or> (\<not> allowZero \<and> f_eq v (Fin 0))
      in if invalidNumber \<or> belowMinimum
         then Inl (Validation field (if allowZero then ''must be at least 0'' else ''must be greater than 0''))
         else if f_lt (f64 (1 / 1000000000))
             (f_abs (f_sub (f_mul v (Fin 100)) (f_round (f_mul v (Fin 100)))))
         then Inl (Validation field ''must have at most 2 decimal places'')
         else Inr ())"

definition marketValidStatus :: "string \<Rightarrow> bool" where
  "marketValidStatus status \<longleftrightarrow> status \<in> {''active'', ''suspended'', ''closed'', ''settled''}"

definition canTransition :: "string \<Rightarrow> string \<Rightarrow> bool" where
  "canTransition frm to =
     (if frm = ''active'' then to = ''suspended'' \<or> to = ''closed''
      else if frm = ''suspended'' then to = ''active'' \<or> to = ''closed''
      else False)"

definition marketValidateCreateRequest :: "marketCreateRequest option \<Rightarrow> marketCreateRequest res" where
  "marketValidateCreateRequest req =
     (case req of
        None \<Rightarrow> Inl (Validation ''request'' ''is required'')
      | Some req \<Rightarrow>
          let input = \<lparr>mq_MerchantID = trimSpace (mq_MerchantID req), mq_EventID = trimSpace (mq_EventID req),
                mq_Type = toLower (trimSpace (mq_Type req)), mq_Question = trimSpace (mq_Question req),
                mq_Options = normalizeOptions (mq_Options req), mq_LiquidityPool = mq_LiquidityPool req\<rparr>
          in if \<not> isUUID (mq_MerchantID input) then Inl (Validation ''merchant_id'' ''must be a UUID'')
             else if \<not> isUUID (mq_EventID input) then Inl (Validation ''event_id'' ''must be a UUID'')
             else if mq_Type input \<noteq> ''binary''
               then Inl (Validation ''type'' ''only binary markets are supported'')
             else if mq_Question input = [] then Inl (Validation ''question'' ''is required'')
             else bind_res (validateOptions (mq_Options input)) (\<lambda>_.
                  bind_res (validateMoney ''liquidity_pool'' (mq_LiquidityPool input) True) (\<lambda>_.
                  Inr input)))"

definition marketNormalizeFilters :: "marketFilters option \<Rightarrow> marketFilters res" where
  "marketNormalizeFilters filters =
     (let v0 = (case filters of None \<Rightarrow> \<lparr>mf_MerchantID = [], mf_EventID = [], mf_Status = [],
                  mf_Page = 0, mf_Limit = 0\<rparr> | Some f \<Rightarrow> f);
          v = v0\<lparr>mf_MerchantID := trimSpace (mf_MerchantID v0), mf_EventID := trimSpace (mf_EventID v0),
                 mf_Status := toLower (trimSpace (mf_Status v0))\<rparr>
      in if mf_MerchantID v \<noteq> [] \<and> \<not> isUUID (mf_MerchantID v)
           then Inl (Validation ''merchant_id'' ''must be a UUID'')
         else if mf_EventID v \<noteq> [] \<and> \<not> isUUID (mf_EventID v)
           then Inl (Validation ''event_id'' ''must be a UUID'')
         else if mf_Status v \<noteq> [] \<and> \<not> marketValidStatus (mf_Status v)
           then Inl (Validation ''status'' ''is not supported'')
         else bind_res (normalizePagination ''must not exceed 1000'' (mf_Page v) (mf_Limit v))
           (\<lambda>(page, limit). Inr (v\<lparr>mf_Page := page, mf_Limit := limit\<rparr>)))"

section \<open>The service\<close>

definition marketCreate ::
  "(nat \<Rightarrow> bool) \<Rightarrow> marketCreateRequest option \<Rightarrow> byte list \<Rightarrow> time \<Rightarrow> markets \<Rightarrow> market res \<times> markets" where
  "marketCreate ctx req random now byID =
     (case marketValidateCreateRequest req of
        Inl err \<Rightarrow> (Inl err, byID)
      | Inr input \<Rightarrow> (case marketRepoValidateReferences (ctx 0) of
          Inl err \<Rightarrow> (Inl (Wrapped ''validate market references'' err), byID)
        | Inr _ \<Rightarrow> (case fst (generateUUID random) of
            Inl err \<Rightarrow> (Inl (Wrapped ''generate market ID'' err), byID)
          | Inr marketID \<Rightarrow>
              let v = \<lparr>m_ID = marketID, m_MerchantID = mq_MerchantID input, m_EventID = mq_EventID input,
                       m_Type = mq_Type input, m_Question = mq_Question input, m_Options = mq_Options input,
                       m_Status = ''active'', m_TotalVolume = Fin 0, m_LiquidityPool = mq_LiquidityPool input,
                       m_MerchantFeeRate = Fin 0, m_PlatformFeeRate = Fin 0, m_CreatedAt = now,
                       m_SettledAt = None\<rparr>
              in (case marketRepoCreate (ctx 1) v byID of
                    (Inl err, byID') \<Rightarrow> (Inl (Wrapped ''create market'' err), byID')
                  | (Inr _, byID') \<Rightarrow> (Inr v, byID')))))"

definition marketGet :: "(nat \<Rightarrow> bool) \<Rightarrow> string \<Rightarrow> markets \<Rightarrow> market res" where
  "marketGet ctx marketID byID =
     bind_res (validateMarketID marketID) (\<lambda>marketID.
       case marketRepoGetByID (ctx 0) marketID byID of
         Inl err \<Rightarrow> Inl (Wrapped ''get market'' err) | Inr v \<Rightarrow> Inr v)"

definition marketList :: "(nat \<Rightarrow> bool) \<Rightarrow> marketFilters option \<Rightarrow> markets \<Rightarrow> (market list \<times> int) res" where
  "marketList ctx filters byID =
     bind_res (marketNormalizeFilters filters) (\<lambda>normalized.
       case marketRepoList (ctx 0) normalized byID of
         Inl err \<Rightarrow> Inl (Wrapped ''list markets'' err) | Inr x \<Rightarrow> Inr x)"

text \<open>
  \<^verbatim>\<open>UpdateStatus\<close> in its two halves: the checks on the store it reads, giving the commit
  to make (market, expected status, new status), and the commit on the store it then finds.
\<close>

definition updateStatusPlan ::
  "bool \<Rightarrow> string \<Rightarrow> string \<Rightarrow> markets \<Rightarrow> (string \<times> string \<times> string) res" where
  "updateStatusPlan ctxDone marketID0 status0 byID =
     bind_res (validateMarketID marketID0) (\<lambda>marketID.
       let status = toLower (trimSpace status0) in
       if status = ''settled'' \<or> \<not> marketValidStatus status
       then Inl (Validation ''status'' ''is not supported'')
       else (case marketRepoGetByID ctxDone marketID byID of
           Inl err \<Rightarrow> Inl (Wrapped ''get market for status update'' err)
         | Inr v \<Rightarrow>
             if \<not> canTransition (m_Status v) status
             then Inl (Wrapped (m_Status v @ '' to '' @ status) (Sentinel MarketErrInvalidTransition))
             else Inr (marketID, m_Status v, status)))"

definition marketUpdateStatus ::
  "(nat \<Rightarrow> bool) \<Rightarrow> string \<Rightarrow> string \<Rightarrow> markets \<Rightarrow> markets \<Rightarrow> unit res \<times> markets" where
  "marketUpdateStatus ctx marketID0 status0 seen byID =
     (case updateStatusPlan (ctx 0) marketID0 status0 seen of
        Inl err \<Rightarrow> (Inl err, byID)
      | Inr (marketID, expected, status) \<Rightarrow>
          (case marketRepoUpdateStatus (ctx 1) marketID expected status byID of
             (Inl err, byID') \<Rightarrow> (Inl (Wrapped ''update market status'' err), byID')
           | (Inr _, byID') \<Rightarrow> (Inr (), byID')))"

definition marketAddLiquidity ::
  "(nat \<Rightarrow> bool) \<Rightarrow> string \<Rightarrow> float64 \<Rightarrow> markets \<Rightarrow> markets \<Rightarrow> unit res \<times> markets" where
  "marketAddLiquidity ctx marketID0 amount seen byID =
     (case validateMarketID marketID0 of
        Inl err \<Rightarrow> (Inl err, byID)
      | Inr marketID \<Rightarrow> (case validateMoney ''amount'' amount False of
          Inl err \<Rightarrow> (Inl err, byID)
        | Inr _ \<Rightarrow> (case marketRepoGetByID (ctx 0) marketID seen of
            Inl err \<Rightarrow> (Inl (Wrapped ''get market for liquidity update'' err), byID)
          | Inr v \<Rightarrow>
              if m_Status v \<noteq> ''active''
              then (Inl (Wrapped ''liquidity requires active status'' (Sentinel MarketErrInvalidTransition)), byID)
              else (case marketRepoAddLiquidity (ctx 1) marketID (m_Status v) amount byID of
                  (Inl err, byID') \<Rightarrow> (Inl (Wrapped ''add market liquidity'' err), byID')
                | (Inr _, byID') \<Rightarrow> (Inr (), byID')))))"

definition containsOption :: "string list \<Rightarrow> string \<Rightarrow> bool" where
  "containsOption options target = list_ex (\<lambda>option. option = target) options"

section \<open>Runs\<close>

text \<open>
  One commit of a call; \<open>seen\<close> is the store the call read its decision from, any store at
  all, so every interleaving of concurrent calls is a run.
\<close>

inductive market_step :: "markets \<Rightarrow> markets \<Rightarrow> bool" where
  create: "market_step ms (snd (marketCreate ctx req random now ms))"
| status: "market_step ms (snd (marketUpdateStatus ctx marketID st seen ms))"
| liquidity: "market_step ms (snd (marketAddLiquidity ctx marketID amount seen ms))"

definition market_ok :: "market \<Rightarrow> bool" where
  "market_ok v \<longleftrightarrow> m_Status v \<in> {''active'', ''suspended'', ''closed''} \<and> m_Type v = ''binary''
     \<and> isUUID (m_MerchantID v) \<and> isUUID (m_EventID v) \<and> m_Question v \<noteq> []
     \<and> (\<exists>a b. m_Options v = [a, b] \<and> a \<noteq> [] \<and> b \<noteq> [] \<and> toLower a \<noteq> toLower b)"

definition markets_ok :: "markets \<Rightarrow> bool" where
  "markets_ok ms \<longleftrightarrow> (\<forall>k v. map_of ms k = Some v \<longrightarrow> m_ID v = k \<and> isUUID k \<and> market_ok v)"

lemma validateOptions_ok:
  "validateOptions os = Inr () \<Longrightarrow>
    \<exists>a b. os = [a, b] \<and> a \<noteq> [] \<and> b \<noteq> [] \<and> toLower a \<noteq> toLower b"
  by (cases os; cases "tl os") (auto simp: validateOptions_def split: if_splits)

lemma marketValidate_ok:
  assumes "marketValidateCreateRequest req = Inr input"
  shows "isUUID (mq_MerchantID input)" "isUUID (mq_EventID input)" "mq_Type input = ''binary''"
    "mq_Question input \<noteq> []" "validateOptions (mq_Options input) = Inr ()"
  using assms
  by (auto simp: marketValidateCreateRequest_def Let_def bind_res_Inr_iff split: option.splits if_splits)

lemma generateUUID_fst: "fst (generateUUID random) = Inr i \<Longrightarrow> isUUID i"
  using generateUUID_valid [of random i] by (metis prod.collapse)

lemma updateStatusPlan_ok:
  "updateStatusPlan d i st seen = Inr (k, e, st') \<Longrightarrow> canTransition e st'"
  by (auto simp: updateStatusPlan_def Let_def bind_res_Inr_iff split: if_splits sum.splits)

lemma canTransition_valid: "canTransition a b \<Longrightarrow> b \<in> {''active'', ''suspended'', ''closed''} \<and> a \<noteq> ''closed''"
  by (auto simp: canTransition_def split: if_splits)

text \<open>What a commit does to the entry of one market.\<close>

lemma market_create_entry:
  assumes "map_of (snd (marketCreate ctx req random now ms)) k = Some v"
  shows "map_of ms k = Some v \<or> (map_of ms k = None \<and> m_ID v = k \<and> isUUID k \<and> market_ok v
    \<and> m_Status v = ''active'')"
proof (cases "marketValidateCreateRequest req")
  case (Inr input)
  show ?thesis
    using assms Inr marketValidate_ok [OF Inr] generateUUID_fst [of random]
      validateOptions_ok [of "mq_Options input"]
    by (auto simp: marketCreate_def marketRepoCreate_def marketRepoValidateReferences_def Let_def
        market_ok_def split: sum.splits if_splits)
qed (use assms in \<open>simp add: marketCreate_def\<close>)

lemma market_create_keeps:
  "map_of ms k = Some v \<Longrightarrow> map_of (snd (marketCreate ctx req random now ms)) k = Some v"
  by (auto simp: marketCreate_def marketRepoCreate_def Let_def split: sum.splits)

lemma market_status_cases:
  obtains "snd (marketUpdateStatus ctx i st seen ms) = ms"
  | k v st' where "map_of ms k = Some v" "canTransition (m_Status v) st'"
      "snd (marketUpdateStatus ctx i st seen ms) = put k (v\<lparr>m_Status := st'\<rparr>) ms"
proof (cases "updateStatusPlan (ctx 0) i st seen")
  case (Inl err)
  then show ?thesis using that(1) by (simp add: marketUpdateStatus_def)
next
  case (Inr p)
  obtain k e st' where p: "p = (k, e, st')" by (cases p) auto
  have eq: "snd (marketUpdateStatus ctx i st seen ms) = snd (marketRepoUpdateStatus (ctx 1) k e st' ms)"
    using Inr p by (simp add: marketUpdateStatus_def snd_plain_result)
  have t: "canTransition e st'" using updateStatusPlan_ok Inr p by blast
  show ?thesis
  proof (cases "snd (marketRepoUpdateStatus (ctx 1) k e st' ms) = ms")
    case True
    then show ?thesis using that(1) eq by simp
  next
    case False
    then obtain v where "map_of ms k = Some v" "m_Status v = e"
      "snd (marketRepoUpdateStatus (ctx 1) k e st' ms) = put k (v\<lparr>m_Status := st'\<rparr>) ms"
      by (auto simp: marketRepoUpdateStatus_def split: option.splits if_splits)
    then show ?thesis using that(2) [of k v st'] eq t by simp
  qed
qed

lemma market_liquidity_cases:
  obtains "snd (marketAddLiquidity ctx i a seen ms) = ms"
  | k v where "map_of ms k = Some v" "m_Status v = ''active''"
      "snd (marketAddLiquidity ctx i a seen ms) = put k (v\<lparr>m_LiquidityPool := f_add (m_LiquidityPool v) a\<rparr>) ms"
proof -
  have "snd (marketRepoAddLiquidity d k e a ms) = ms \<or> (\<exists>v. map_of ms k = Some v \<and> m_Status v = e
      \<and> snd (marketRepoAddLiquidity d k e a ms) = put k (v\<lparr>m_LiquidityPool := f_add (m_LiquidityPool v) a\<rparr>) ms)"
    for d k e by (auto simp: marketRepoAddLiquidity_def split: option.splits)
  note repo = this [of "ctx (Suc 0)" _ "''active''"]
  have "snd (marketAddLiquidity ctx i a seen ms) = ms \<or> (\<exists>k v. map_of ms k = Some v \<and> m_Status v = ''active''
      \<and> snd (marketAddLiquidity ctx i a seen ms) = put k (v\<lparr>m_LiquidityPool := f_add (m_LiquidityPool v) a\<rparr>) ms)"
    using repo by (fastforce simp: marketAddLiquidity_def snd_plain_result split: sum.split)
  then show ?thesis using that by blast
qed

lemma markets_ok_step: "market_step ms ms' \<Longrightarrow> markets_ok ms \<Longrightarrow> markets_ok ms'"
proof (induction rule: market_step.induct)
  case (create ms ctx req random now)
  then show ?case unfolding markets_ok_def using market_create_entry by blast
next
  case (status ms ctx i st seen)
  show ?case
  proof (rule market_status_cases [of ctx i st seen ms])
    fix k v st'
    assume "map_of ms k = Some v" "canTransition (m_Status v) st'"
      "snd (marketUpdateStatus ctx i st seen ms) = put k (v\<lparr>m_Status := st'\<rparr>) ms"
    then show ?thesis
      using status canTransition_valid [of "m_Status v" st'] by (auto simp: markets_ok_def market_ok_def)
  qed (use status in simp)
next
  case (liquidity ms ctx i a seen)
  show ?case
  proof (rule market_liquidity_cases [of ctx i a seen ms])
    fix k v
    assume "map_of ms k = Some v"
      "snd (marketAddLiquidity ctx i a seen ms) = put k (v\<lparr>m_LiquidityPool := f_add (m_LiquidityPool v) a\<rparr>) ms"
    then show ?thesis using liquidity by (auto simp: markets_ok_def market_ok_def)
  qed (use liquidity in simp)
qed

lemma market_step_entry:
  assumes "market_step ms ms'" "map_of ms k = Some v"
  shows "\<exists>v'. map_of ms' k = Some v'
    \<and> (m_Status v' = m_Status v \<or> canTransition (m_Status v) (m_Status v'))
    \<and> v' = v\<lparr>m_Status := m_Status v', m_LiquidityPool := m_LiquidityPool v'\<rparr>
    \<and> (m_LiquidityPool v' = m_LiquidityPool v \<or> m_Status v = ''active'')"
  using assms
proof (induction rule: market_step.induct)
  case (create ms ctx req random now)
  then show ?case using market_create_keeps by fastforce
next
  case (status ms ctx i st seen)
  show ?case
    by (rule market_status_cases [of ctx i st seen ms]) (use status in auto)
next
  case (liquidity ms ctx i a seen)
  show ?case
    by (rule market_liquidity_cases [of ctx i a seen ms]) (use liquidity in auto)
qed

section \<open>Properties\<close>

text \<open>
  C16: Whatever calls run concurrently, a commit changes a stored market only in its status
  and its liquidity; the status moves only along the transitions the service allows, and
  liquidity is added only while the market is active.
\<close>

theorem market_changes_lawful:
  assumes "market_step ms ms'" "map_of ms k = Some v"
  shows "\<exists>v'. map_of ms' k = Some v'
    \<and> v' = v\<lparr>m_Status := m_Status v', m_LiquidityPool := m_LiquidityPool v'\<rparr>
    \<and> (m_Status v' = m_Status v \<or> canTransition (m_Status v) (m_Status v'))
    \<and> (m_LiquidityPool v' = m_LiquidityPool v \<or> m_Status v = ''active'')"
  using market_step_entry [OF assms] by blast

definition demo_market :: market where
  "demo_market = \<lparr>m_ID = ''00000000-0000-4000-8000-00000000000a'',
     m_MerchantID = ''00000000-0000-4000-8000-000000000001'',
     m_EventID = ''00000000-0000-4000-8000-00000000000b'', m_Type = ''binary'', m_Question = ''?'',
     m_Options = [''Yes'', ''No''], m_Status = ''active'', m_TotalVolume = Fin 0, m_LiquidityPool = Fin 10,
     m_MerchantFeeRate = Fin 0, m_PlatformFeeRate = Fin 0, m_CreatedAt = 0, m_SettledAt = None\<rparr>"

theorem market_changes_lawful_witness:
  "\<exists>v'. map_of (snd (marketUpdateStatus (\<lambda>_. False) (m_ID demo_market) '' Suspended '' [(m_ID demo_market, demo_market)]
     [(m_ID demo_market, demo_market)])) (m_ID demo_market) = Some v' \<and> canTransition ''active'' (m_Status v')"
proof -
  let ?ms = "[(m_ID demo_market, demo_market)]"
  have "map_option m_Status (map_of (snd (marketUpdateStatus (\<lambda>_. False) (m_ID demo_market) '' Suspended ''
    ?ms ?ms)) (m_ID demo_market)) = Some ''suspended''" by code_simp
  then show ?thesis
    using market_changes_lawful [OF market_step.status [of ?ms "\<lambda>_. False" "m_ID demo_market" "'' Suspended ''" ?ms], of "m_ID demo_market" demo_market]
    by (auto simp: canTransition_def)
qed

text \<open>
  A closed market stays closed through every further run, and every market in a store
  that starts empty is a well-formed binary market under its own identifier.
\<close>

theorem market_closed_final:
  assumes "market_step\<^sup>*\<^sup>* [] ms" "market_step\<^sup>*\<^sup>* ms ms'" "map_of ms k = Some v"
  shows "market_ok v \<and> m_ID v = k \<and> (\<exists>v'. map_of ms' k = Some v' \<and> market_ok v'
    \<and> (m_Status v = ''closed'' \<longrightarrow> m_Status v' = ''closed''))"
proof -
  have ok: "markets_ok ms" using assms(1)
  proof (induction rule: rtranclp_induct)
    case base
    show ?case by (simp add: markets_ok_def)
  next
    case (step y z)
    then show ?case by (blast intro: markets_ok_step)
  qed
  have "markets_ok ms' \<and> (\<exists>v'. map_of ms' k = Some v' \<and> (m_Status v = ''closed'' \<longrightarrow> m_Status v' = ''closed''))"
    using assms(2)
  proof (induction rule: rtranclp_induct)
    case base
    then show ?case using ok assms(3) by simp
  next
    case (step y z)
    then obtain w where w: "map_of y k = Some w" "m_Status v = ''closed'' \<longrightarrow> m_Status w = ''closed''" by blast
    obtain w' where "map_of z k = Some w'" "m_Status w' = m_Status w \<or> canTransition (m_Status w) (m_Status w')"
      using market_step_entry [OF step(2) w(1)] by blast
    moreover have "\<not> canTransition (m_Status w) (m_Status w')" if "m_Status w = ''closed''"
      using that by (simp add: canTransition_def)
    moreover have "markets_ok z" using step markets_ok_step by blast
    ultimately show ?case using w(2) by auto
  qed
  then show ?thesis using ok assms(3) unfolding markets_ok_def by blast
qed

definition demo_market_request :: marketCreateRequest where
  "demo_market_request = \<lparr>mq_MerchantID = m_MerchantID demo_market, mq_EventID = m_EventID demo_market,
     mq_Type = ''Binary'', mq_Question = ''?'', mq_Options = [''Yes'', ''No''], mq_LiquidityPool = Fin 10\<rparr>"

theorem market_closed_final_witness:
  "\<exists>k v. map_of (snd (marketCreate (\<lambda>_. False) (Some demo_market_request) (replicate 16 0) 7 [])) k = Some v
     \<and> market_ok v \<and> m_ID v = k"
proof -
  let ?ms = "snd (marketCreate (\<lambda>_. False) (Some demo_market_request) (replicate 16 0) 7 [])"
  have "\<exists>k v. map_of ?ms k = Some v"
  proof -
    have "map_option m_Status (map_of ?ms ''00000000-0000-4000-8000-000000000000'') = Some ''active''"
      by code_simp
    then show ?thesis by auto
  qed
  moreover have "market_step\<^sup>*\<^sup>* [] ?ms" by (rule r_into_rtranclp) (rule market_step.create)
  ultimately show ?thesis using market_closed_final by blast
qed

end
