(* ===== verification/OrderService.thy ===== *)
theory OrderService
  imports OrderProps WalletLedger Market
begin

text \<open>
  \<^verbatim>\<open>internal/order/order.go\<close>: the order service over the in-memory order store, calling the
  wallet service of \<open>WalletService\<close> and the market service of \<open>Market\<close>. One call touches
  three stores, the record \<open>orderWorld\<close>. \<open>ctx\<close> says at which of its inner calls the
  context is already done and \<open>now\<close> gives the clock at each, so a request that is
  cancelled half way is one of the cases.
\<close>

record orderWorld =
  ow_orders :: orders
  ow_wallets :: walletRepo
  ow_markets :: markets

datatype createCall =
    AtIdempotency | AtMarket | AtLock | AtPlace | AtRelease | AtLookup | AtRefund | AtRemainder | AtCancel

record orderCreateRequest =
  oq_MerchantID :: string
  oq_UserID :: string
  oq_MarketID :: string
  oq_Type :: string
  oq_Option :: string
  oq_Amount :: float64
  oq_Currency :: string
  oq_Price :: float64
  oq_TimeInForce :: string
  oq_IdempotencyKey :: string

section \<open>Validation\<close>

definition validateUUIDField :: "string \<Rightarrow> string \<Rightarrow> string res" where
  "validateUUIDField field value0 =
     (let v = trimSpace value0 in
      if length v \<noteq> 36 \<or> v ! 8 \<noteq> CHR ''-'' \<or> v ! 13 \<noteq> CHR ''-'' \<or> v ! 18 \<noteq> CHR ''-''
         \<or> v ! 23 \<noteq> CHR ''-''
      then Inl (Validation field ''must be a UUID'')
      else if \<not> hex_decodes (filter (\<lambda>c. c \<noteq> CHR ''-'') v)
      then Inl (Validation field ''must be a UUID'')
      else Inr v)"

definition normalizeShares :: "float64 \<Rightarrow> float64 res" where
  "normalizeShares amount = (case SharesFromFloat amount of
      Inl err \<Rightarrow> Inl (Validation ''amount'' ''must be greater than 0 with at most 6 decimal places'')
    | Inr units \<Rightarrow> Inr (SharesToFloat units))"

definition normalizePrice :: "float64 \<Rightarrow> float64 res" where
  "normalizePrice p = (case PriceFromFloat p of
      Inl err \<Rightarrow> Inl (Validation ''price''
        ''must be greater than 0 and less than 1 with at most 6 decimal places'')
    | Inr units \<Rightarrow>
        if units = 0 \<or> units = PriceScale
        then Inl (Validation ''price''
          ''must be greater than 0 and less than 1 with at most 6 decimal places'')
        else Inr (PriceToFloat units))"

definition validateOrderAmount :: "float64 \<Rightarrow> unit res" where
  "validateOrderAmount amount = bind_res (normalizeShares amount) (\<lambda>_. Inr ())"

definition validateOrderPrice :: "float64 \<Rightarrow> unit res" where
  "validateOrderPrice p = bind_res (normalizePrice p) (\<lambda>_. Inr ())"

definition orderValidStatus :: "string \<Rightarrow> bool" where
  "orderValidStatus status \<longleftrightarrow> status \<in> {''pending'', ''partial'', ''filled'', ''cancelled''}"

definition orderValidateCreateRequest :: "orderCreateRequest option \<Rightarrow> orderCreateRequest res" where
  "orderValidateCreateRequest req =
     (case req of
        None \<Rightarrow> Inl (Validation ''request'' ''is required'')
      | Some req \<Rightarrow>
          bind_res (validateUUIDField ''merchant_id'' (oq_MerchantID req)) (\<lambda>merchantID.
          bind_res (validateUUIDField ''market_id'' (oq_MarketID req)) (\<lambda>marketID.
          let tif0 = toLower (trimSpace (oq_TimeInForce req));
              i1 = req\<lparr>oq_MerchantID := merchantID, oq_MarketID := marketID,
                oq_UserID := trimSpace (oq_UserID req), oq_Type := toLower (trimSpace (oq_Type req)),
                oq_Option := trimSpace (oq_Option req), oq_Currency := toUpper (trimSpace (oq_Currency req)),
                oq_TimeInForce := (if tif0 = [] then ''gtc'' else tif0),
                oq_IdempotencyKey := trimSpace (oq_IdempotencyKey req)\<rparr>
          in if oq_UserID i1 = [] \<or> length (oq_UserID i1) > maxUserIDLen
               then Inl (Validation ''user_id'' ''is required and must be at most 255 characters'')
             else if oq_Type i1 \<noteq> ''buy'' \<and> oq_Type i1 \<noteq> ''sell''
               then Inl (Validation ''type'' ''must be buy or sell'')
             else if oq_Option i1 = [] then Inl (Validation ''option'' ''is required'')
             else bind_res (normalizeShares (oq_Amount i1)) (\<lambda>amount.
               if \<not> validCurrency (oq_Currency i1)
                 then Inl (Validation ''currency'' ''is not supported'')
               else bind_res (normalizePrice (oq_Price i1)) (\<lambda>p.
                 if oq_TimeInForce i1 \<noteq> ''gtc'' \<and> oq_TimeInForce i1 \<noteq> ''ioc''
                   then Inl (Validation ''time_in_force'' ''must be gtc or ioc'')
                 else if length (oq_IdempotencyKey i1) > maxIdempotencyKeyLen
                   then Inl (Validation ''idempotency_key'' ''must be at most 255 characters'')
                 else Inr (i1\<lparr>oq_Amount := amount, oq_Price := p\<rparr>))))))"

definition orderNormalizeFilters :: "listFilters option \<Rightarrow> listFilters res" where
  "orderNormalizeFilters filters =
     (let v0 = (case filters of None \<Rightarrow> \<lparr>lf_MerchantID = [], lf_UserID = [], lf_MarketID = [],
                  lf_Status = [], lf_Cursor = [], lf_Page = 0, lf_Limit = 0\<rparr> | Some f \<Rightarrow> f)
      in bind_res (if trimSpace (lf_MerchantID v0) \<noteq> [] then validateUUIDField ''merchant_id'' (lf_MerchantID v0)
                   else Inr (lf_MerchantID v0)) (\<lambda>merchantID.
         let userID = trimSpace (lf_UserID v0) in
         if length userID > maxUserIDLen then Inl (Validation ''user_id'' ''must be at most 255 characters'')
         else bind_res (if trimSpace (lf_MarketID v0) \<noteq> [] then validateUUIDField ''market_id'' (lf_MarketID v0)
                   else Inr (lf_MarketID v0)) (\<lambda>marketID.
           let status = toLower (trimSpace (lf_Status v0)) in
           if status \<noteq> [] \<and> \<not> orderValidStatus status then Inl (Validation ''status'' ''is not supported'')
           else bind_res (normalizePagination
               ''must not exceed 1000; use cursor pagination for deep history'' (lf_Page v0) (lf_Limit v0))
             (\<lambda>(page, limit). Inr (v0\<lparr>lf_MerchantID := merchantID, lf_UserID := userID,
               lf_MarketID := marketID, lf_Status := status, lf_Cursor := trimSpace (lf_Cursor v0),
               lf_Page := page, lf_Limit := limit\<rparr>)))))"

section \<open>Create\<close>

definition idempotentExistingOrder ::
  "bool \<Rightarrow> orderCreateRequest \<Rightarrow> go_error \<Rightarrow> orders \<Rightarrow> order option" where
  "idempotentExistingOrder ctxDone req err os =
     (if oq_IdempotencyKey req = [] \<or> \<not> errorsIs err OrderErrAlreadyExists then None
      else case orderRepoGetByIdempotency ctxDone (oq_MerchantID req) (oq_IdempotencyKey req) os of
          Inl _ \<Rightarrow> None | Inr existing \<Rightarrow> Some existing)"

text \<open>The struct that \<^verbatim>\<open>Create\<close> builds from the validated request.\<close>

definition orderFromRequest :: "orderCreateRequest \<Rightarrow> string \<Rightarrow> time \<Rightarrow> order" where
  "orderFromRequest input orderID created =
     \<lparr>o_ID = orderID, o_MerchantID = oq_MerchantID input, o_UserID = oq_UserID input,
      o_MarketID = oq_MarketID input, o_Type = oq_Type input, o_Option = oq_Option input,
      o_Amount = oq_Amount input, o_FilledAmount = Fin 0, o_Currency = oq_Currency input,
      o_Price = oq_Price input, o_TimeInForce = oq_TimeInForce input, o_Status = ''pending'',
      o_IdempotencyKey = oq_IdempotencyKey input, o_CreatedAt = created, o_FilledAt = None\<rparr>"

definition orderUnlock ::
  "bool \<Rightarrow> time \<Rightarrow> order \<Rightarrow> float64 \<Rightarrow> orderWorld \<Rightarrow> unit res \<times> orderWorld" where
  "orderUnlock ctxDone now v amount s =
     (case walletUnlock (\<lambda>_. ctxDone) (o_MerchantID v) (o_UserID v) (o_Currency v) amount now (ow_wallets s) of
        (r, ws) \<Rightarrow> (r, s\<lparr>ow_wallets := ws\<rparr>))"

text \<open>
  What follows a successful placement: the taker's price improvement, then the collateral
  of the remainder of a cancelled order.
\<close>

definition releaseRemainder ::
  "(createCall \<Rightarrow> bool) \<Rightarrow> (createCall \<Rightarrow> time) \<Rightarrow> order \<Rightarrow> orderWorld \<Rightarrow> order res \<times> orderWorld" where
  "releaseRemainder ctx now v s =
     (if o_Status v = ''cancelled'' then
        (case remainingShares (o_Amount v) (o_FilledAmount v) of
          Inl err \<Rightarrow> (Inl err, s)
        | Inr remaining \<Rightarrow>
            if \<not> f_eq remaining (Fin 0) then
              (case requiredCollateral (o_Type v) remaining (o_Price v) of
                Inl err \<Rightarrow> (Inl err, s)
              | Inr remainingCollateral \<Rightarrow>
                  (case orderUnlock (ctx AtRemainder) (now AtRemainder) v remainingCollateral s of
                    (Inl err, s') \<Rightarrow> (Inl (wrap_error ''unlock IOC remainder'' err), s')
                  | (Inr _, s') \<Rightarrow> (Inr v, s')))
            else (Inr v, s))
      else (Inr v, s))"

definition afterPlace ::
  "(createCall \<Rightarrow> bool) \<Rightarrow> (createCall \<Rightarrow> time) \<Rightarrow> float64 \<Rightarrow> order \<Rightarrow> orderWorld \<Rightarrow> order res \<times> orderWorld" where
  "afterPlace ctx now priceImprovement v s =
     (if f_lt (Fin 0) priceImprovement then
        (case orderUnlock (ctx AtRefund) (now AtRefund) v priceImprovement s of
          (Inl err, s') \<Rightarrow> (Inl (wrap_error ''refund order price improvement'' err), s')
        | (Inr _, s') \<Rightarrow> releaseRemainder ctx now v s')
      else releaseRemainder ctx now v s)"

text \<open>Lock the collateral, place the order, undo the lock when placing fails.\<close>

definition lockAndPlace ::
  "(createCall \<Rightarrow> bool) \<Rightarrow> (createCall \<Rightarrow> time) \<Rightarrow> orderCreateRequest \<Rightarrow> order \<Rightarrow> int \<Rightarrow> orderWorld
    \<Rightarrow> order res \<times> orderWorld" where
  "lockAndPlace ctx now input v collateralCents s =
     (let collateral = CentsToFloat collateralCents in
      case walletLock (\<lambda>_. ctx AtLock) (oq_MerchantID input) (oq_UserID input) (oq_Currency input)
          collateral (now AtLock) (ow_wallets s) of
        (Inl err, ws) \<Rightarrow> (Inl (wrap_error ''lock order balance'' err), s\<lparr>ow_wallets := ws\<rparr>)
      | (Inr _, ws) \<Rightarrow>
          let s1 = s\<lparr>ow_wallets := ws\<rparr> in
          (case orderRepoPlace (ctx AtPlace) v (ow_orders s1) of
            (Inl err, os) \<Rightarrow>
              let s2 = s1\<lparr>ow_orders := os\<rparr> in
              if is_panic err then (Inl err, s2)
              else let s3 = snd (orderUnlock (ctx AtRelease) (now AtRelease) v collateral s2) in
                (case idempotentExistingOrder (ctx AtLookup) input err (ow_orders s3) of
                  Some existing \<Rightarrow> (Inr existing, s3)
                | None \<Rightarrow> (Inl (Wrapped ''place order'' err), s3))
          | (Inr (priceImprovement, v'), os) \<Rightarrow>
              afterPlace ctx now priceImprovement v' (s1\<lparr>ow_orders := os\<rparr>)))"

definition orderCreateNew ::
  "(createCall \<Rightarrow> bool) \<Rightarrow> (createCall \<Rightarrow> time) \<Rightarrow> byte list \<Rightarrow> orderCreateRequest \<Rightarrow> orderWorld
    \<Rightarrow> order res \<times> orderWorld" where
  "orderCreateNew ctx now random input s =
     (case marketGet (\<lambda>_. ctx AtMarket) (oq_MarketID input) (ow_markets s) of
        Inl err \<Rightarrow> (Inl (Wrapped ''get order market'' err), s)
      | Inr marketValue \<Rightarrow>
          if m_MerchantID marketValue \<noteq> oq_MerchantID input \<or> m_Status marketValue \<noteq> ''active''
             \<or> \<not> containsOption (m_Options marketValue) (oq_Option input)
          then (Inl (Sentinel OrderErrInvalidMarket), s)
          else (case fst (generateUUID random) of
              Inl err \<Rightarrow> (Inl (Wrapped ''generate order ID'' err), s)
            | Inr orderID \<Rightarrow>
                let v = orderFromRequest input orderID (now AtPlace) in
                (case requiredCollateralCents (oq_Type input) (oq_Amount input) (oq_Price input) of
                  Inl err \<Rightarrow> (Inl err, s)
                | Inr collateralCents \<Rightarrow> lockAndPlace ctx now input v collateralCents s)))"

definition orderCreate ::
  "(createCall \<Rightarrow> bool) \<Rightarrow> (createCall \<Rightarrow> time) \<Rightarrow> byte list \<Rightarrow> orderCreateRequest option \<Rightarrow> orderWorld
    \<Rightarrow> order res \<times> orderWorld" where
  "orderCreate ctx now random req s =
     (case orderValidateCreateRequest req of
        Inl err \<Rightarrow> (Inl err, s)
      | Inr input \<Rightarrow>
          if oq_IdempotencyKey input \<noteq> [] then
            (case orderRepoGetByIdempotency (ctx AtIdempotency) (oq_MerchantID input)
                (oq_IdempotencyKey input) (ow_orders s) of
              Inr existing \<Rightarrow> (Inr existing, s)
            | Inl err \<Rightarrow>
                if \<not> errorsIs err OrderErrNotFound
                then (Inl (Wrapped ''get idempotent order'' err), s)
                else orderCreateNew ctx now random input s)
          else orderCreateNew ctx now random input s)"

section \<open>Cancel and reads\<close>

definition orderCancel ::
  "(createCall \<Rightarrow> bool) \<Rightarrow> (createCall \<Rightarrow> time) \<Rightarrow> string \<Rightarrow> orderWorld \<Rightarrow> unit res \<times> orderWorld" where
  "orderCancel ctx now orderID0 s =
     (case validateUUIDField ''order_id'' orderID0 of
        Inl err \<Rightarrow> (Inl err, s)
      | Inr orderID \<Rightarrow> (case orderRepoCancel (ctx AtCancel) orderID (ow_orders s) of
          (Inl err, os) \<Rightarrow> (Inl (wrap_error ''cancel order'' err), s\<lparr>ow_orders := os\<rparr>)
        | (Inr (v, remaining), os) \<Rightarrow>
            let s1 = s\<lparr>ow_orders := os\<rparr> in
            if f_eq remaining (Fin 0) then (Inr (), s1)
            else (case requiredCollateral (o_Type v) remaining (o_Price v) of
                Inl err \<Rightarrow> (Inl err, s1)
              | Inr remainingCollateral \<Rightarrow>
                  (case orderUnlock (ctx AtRemainder) (now AtRemainder) v remainingCollateral s1 of
                    (Inl err, s2) \<Rightarrow> (Inl (wrap_error ''unlock cancelled order balance'' err), s2)
                  | (Inr _, s2) \<Rightarrow> (Inr (), s2)))))"

definition orderGet :: "bool \<Rightarrow> string \<Rightarrow> orderWorld \<Rightarrow> order res" where
  "orderGet ctxDone orderID0 s =
     bind_res (validateUUIDField ''order_id'' orderID0) (\<lambda>orderID.
       case orderRepoGet ctxDone orderID (ow_orders s) of
         Inl err \<Rightarrow> Inl (Wrapped ''get order'' err) | Inr v \<Rightarrow> Inr v)"

definition orderList :: "bool \<Rightarrow> listFilters option \<Rightarrow> orderWorld \<Rightarrow> (order list \<times> int) res" where
  "orderList ctxDone filters s =
     bind_res (orderNormalizeFilters filters) (\<lambda>normalized.
       case orderRepoList ctxDone normalized (ow_orders s) of
         Inl err \<Rightarrow> Inl (Wrapped ''list orders'' err) | Inr x \<Rightarrow> Inr x)"

definition orderListByUser ::
  "bool \<Rightarrow> string \<Rightarrow> string \<Rightarrow> int \<Rightarrow> int \<Rightarrow> orderWorld \<Rightarrow> (order list \<times> int) res" where
  "orderListByUser ctxDone merchantID userID page limit s =
     orderList ctxDone (Some \<lparr>lf_MerchantID = merchantID, lf_UserID = userID, lf_MarketID = [],
       lf_Status = [], lf_Cursor = [], lf_Page = page, lf_Limit = limit\<rparr>) s"

definition orderListByMarket ::
  "bool \<Rightarrow> string \<Rightarrow> int \<Rightarrow> int \<Rightarrow> orderWorld \<Rightarrow> (order list \<times> int) res" where
  "orderListByMarket ctxDone marketID page limit s =
     orderList ctxDone (Some \<lparr>lf_MerchantID = [], lf_UserID = [], lf_MarketID = marketID,
       lf_Status = [], lf_Cursor = [], lf_Page = page, lf_Limit = limit\<rparr>) s"

definition orderGetOrderBook :: "(createCall \<Rightarrow> bool) \<Rightarrow> string \<Rightarrow> orderWorld \<Rightarrow> orderBook res" where
  "orderGetOrderBook ctx marketID0 s =
     bind_res (validateUUIDField ''market_id'' marketID0) (\<lambda>marketID.
       case marketGet (\<lambda>_. ctx AtMarket) marketID (ow_markets s) of
         Inl err \<Rightarrow> Inl (Wrapped ''get order book market'' err)
       | Inr _ \<Rightarrow> (case orderRepoGetOrderBook (ctx AtPlace) marketID (ow_orders s) of
           Inl err \<Rightarrow> Inl (wrap_error ''get order book'' err)
         | Inr book \<Rightarrow> Inr book))"

end
