(* ===== verification/OrderMoney.thy ===== *)
theory OrderMoney
  imports OrderService
begin

text \<open>
  What creating and cancelling orders does to the wallets: every outcome keeps what each
  account holds, a successful call locks and releases exactly the collateral of the order
  in cents, and a failed placement gives everything back.
\<close>

section \<open>Locks and unlocks keep what an account holds\<close>

lemma lock_frame:
  "wr_transactions (snd (walletRepoLock d k f t r)) = wr_transactions r"
  "wr_idByKey (snd (walletRepoLock d k f t r)) = wr_idByKey r"
  "wr_transactions (snd (walletRepoUnlock d k f t r)) = wr_transactions r"
  "wr_idByKey (snd (walletRepoUnlock d k f t r)) = wr_idByKey r"
  by (auto simp: walletRepoLock_def walletRepoUnlock_def storeWallet_def Let_def
      split: sum.split prod.split)

definition moves_only :: "walletRepo \<Rightarrow> walletRepo \<Rightarrow> bool" where
  "moves_only r r' \<longleftrightarrow> ledger_inv r' \<and> wr_transactions r' = wr_transactions r
     \<and> wr_idByKey r' = wr_idByKey r"

lemma moves_only_refl: "ledger_inv r \<Longrightarrow> moves_only r r"
  by (simp add: moves_only_def)

lemma moves_only_trans: "moves_only r r' \<Longrightarrow> moves_only r' r'' \<Longrightarrow> moves_only r r''"
  by (simp add: moves_only_def)

lemma moves_only_lock:
  assumes "ledger_inv r"
  shows "moves_only r (snd (walletLock ctx m u c f now r))" "moves_only r (snd (walletUnlock ctx m u c f now r))"
  using assms ledger_walletLock [OF assms] ledger_walletUnlock [OF assms]
  by (auto simp: moves_only_def walletLock_def walletUnlock_def snd_plain_result lock_frame split: sum.split)

lemma holdings_history:
  assumes "ledger_inv r"
  shows "mem.holdings r k = map_option (history r) (wr_idByKey r k)"
proof (cases "account r k")
  case None
  then have "wr_idByKey r k = None"
    using wallet_inv_key [OF ledger_wallet_inv [OF assms]]
    by (fastforce simp: account_def split: option.splits)
  then show ?thesis using None by (simp add: mem.holdings_def)
next
  case (Some p)
  obtain a l where p: "p = (a, l)" by (cases p)
  obtain i where "wr_idByKey r k = Some i" "a + l = history r i"
    using ledger_account [OF assms Some [unfolded p]] by metis
  then show ?thesis using Some p by (simp add: mem.holdings_def)
qed

lemma moves_only_holdings: "ledger_inv r \<Longrightarrow> moves_only r r' \<Longrightarrow> mem.holdings r' = mem.holdings r"
proof (rule ext)
  fix k
  assume r: "ledger_inv r" and m: "moves_only r r'"
  have "history r' = history r" using m by (simp add: history_def moves_only_def fun_eq_iff)
  then show "mem.holdings r' k = mem.holdings r k"
    using r m by (simp add: holdings_history moves_only_def)
qed

lemma orderUnlock_frame [simp]:
  "ow_orders (snd (orderUnlock d t v f s)) = ow_orders s"
  "ow_markets (snd (orderUnlock d t v f s)) = ow_markets s"
  by (simp_all add: orderUnlock_def split: prod.split)

lemma orderUnlock_moves:
  "ledger_inv (ow_wallets s) \<Longrightarrow> moves_only (ow_wallets s) (ow_wallets (snd (orderUnlock d t v f s)))"
  using moves_only_lock(2) [of "ow_wallets s" "\<lambda>_. d"] by (auto simp: orderUnlock_def split: prod.split) (metis snd_conv)

lemma releaseRemainder_moves:
  assumes "ledger_inv (ow_wallets s)"
  shows "moves_only (ow_wallets s) (ow_wallets (snd (releaseRemainder ctx now v s)))"
  using orderUnlock_moves [OF assms] moves_only_refl [OF assms]
  by (auto simp: releaseRemainder_def snd_plain_result split: sum.split)

lemma afterPlace_moves:
  assumes "ledger_inv (ow_wallets s)"
  shows "moves_only (ow_wallets s) (ow_wallets (snd (afterPlace ctx now p v s)))"
proof -
  obtain r s' where u: "orderUnlock (ctx AtRefund) (now AtRefund) v p s = (r, s')" by fastforce
  have m: "moves_only (ow_wallets s) (ow_wallets s')"
    using orderUnlock_moves [OF assms, of "ctx AtRefund" "now AtRefund" v p] u by simp
  then have "moves_only (ow_wallets s) (ow_wallets (snd (releaseRemainder ctx now v s')))"
    using releaseRemainder_moves [of s' ctx now v] by (auto simp: moves_only_def)
  then show ?thesis
    using u m releaseRemainder_moves [OF assms] by (auto simp: afterPlace_def split: sum.split)
qed

lemma lockAndPlace_moves:
  assumes "ledger_inv (ow_wallets s)"
  shows "moves_only (ow_wallets s) (ow_wallets (snd (lockAndPlace ctx now input v c s)))"
proof -
  let ?f = "CentsToFloat c"
  obtain r ws where l: "walletLock (\<lambda>_. ctx AtLock) (oq_MerchantID input) (oq_UserID input)
      (oq_Currency input) ?f (now AtLock) (ow_wallets s) = (r, ws)" by fastforce
  have m: "moves_only (ow_wallets s) ws"
    using moves_only_lock(1) [OF assms] l by (metis snd_conv)
  show ?thesis
  proof (cases r)
    case (Inl e)
    then show ?thesis using l m by (simp add: lockAndPlace_def Let_def)
  next
    case (Inr x)
    let ?s1 = "s\<lparr>ow_wallets := ws\<rparr>"
    obtain pr os where p: "orderRepoPlace (ctx AtPlace) v (ow_orders ?s1) = (pr, os)" by fastforce
    let ?s2 = "?s1\<lparr>ow_orders := os\<rparr>"
    have i2: "ledger_inv (ow_wallets ?s2)" using m by (simp add: moves_only_def)
    have a: "moves_only (ow_wallets s) (ow_wallets (snd (orderUnlock d t v f ?s2)))" for d t f
      using moves_only_trans [OF _ orderUnlock_moves [OF i2]] m by simp
    have b: "moves_only (ow_wallets s) (ow_wallets (snd (afterPlace ctx now q w ?s2)))" for q w
      using moves_only_trans [OF _ afterPlace_moves [OF i2]] m by simp
    show ?thesis
      using l Inr p a b m
      by (auto simp: lockAndPlace_def Let_def split: sum.split option.split prod.split)
  qed
qed

lemma orderCreate_moves:
  assumes "ledger_inv (ow_wallets s)"
  shows "moves_only (ow_wallets s) (ow_wallets (snd (orderCreate ctx now random req s)))"
proof -
  have "moves_only (ow_wallets s) (ow_wallets (snd (orderCreateNew ctx now random input s)))" for input
    using lockAndPlace_moves [OF assms] moves_only_refl [OF assms]
    by (auto simp: orderCreateNew_def Let_def split: sum.split)
  then show ?thesis
    using moves_only_refl [OF assms] by (auto simp: orderCreate_def split: sum.split)
qed

lemma orderCancel_moves:
  assumes "ledger_inv (ow_wallets s)"
  shows "moves_only (ow_wallets s) (ow_wallets (snd (orderCancel ctx now i s)))"
proof -
  have i: "ledger_inv (ow_wallets (s\<lparr>ow_orders := os\<rparr>))" for os using assms by simp
  have "moves_only (ow_wallets s) (ow_wallets (snd (orderUnlock d t v f (s\<lparr>ow_orders := os\<rparr>))))" for d t v f os
    using orderUnlock_moves [OF i] by simp
  then show ?thesis
    using moves_only_refl [OF assms]
    by (auto simp: orderCancel_def snd_plain_result Let_def split: sum.split prod.split)
qed

section \<open>Validated requests\<close>

lemma validateUUIDField_Inr:
  "validateUUIDField field x = Inr y \<Longrightarrow> y = trimSpace x \<and> isUUID y \<and> trimSpace y = y"
  by (auto simp: validateUUIDField_def isUUID_def Let_def split: if_splits)

lemma validCurrency_norm: "validCurrency c \<Longrightarrow> toUpper (trimSpace c) = c"
  by (auto simp: validCurrency_def) code_simp+

definition request_key :: "orderCreateRequest \<Rightarrow> walletKey" where
  "request_key input = \<lparr>wk_MerchantID = oq_MerchantID input, wk_UserID = oq_UserID input,
     wk_Currency = oq_Currency input\<rparr>"

lemma validated_request:
  assumes "orderValidateCreateRequest req = Inr input"
  shows "validateWalletKey (oq_MerchantID input) (oq_UserID input) (oq_Currency input) = Inr (request_key input)"
    and "oq_Type input = ''buy'' \<or> oq_Type input = ''sell''"
    and "\<exists>n. oq_Amount input = SharesToFloat n \<and> 0 \<le> n"
    and "\<exists>p. price (oq_Price input) p"
    and "oq_TimeInForce input = ''gtc'' \<or> oq_TimeInForce input = ''ioc''"
proof -
  obtain r where r: "req = Some r" using assms by (cases req) (simp_all add: orderValidateCreateRequest_def)
  obtain m mk where m: "validateUUIDField ''merchant_id'' (oq_MerchantID r) = Inr m"
    "validateUUIDField ''market_id'' (oq_MarketID r) = Inr mk"
    using assms r by (auto simp: orderValidateCreateRequest_def bind_res_Inr_iff)
  have v: "oq_MerchantID input = m" "oq_UserID input = trimSpace (oq_UserID r)"
    "oq_Currency input = toUpper (trimSpace (oq_Currency r))"
    "oq_UserID input \<noteq> []" "length (oq_UserID input) \<le> maxUserIDLen" "validCurrency (oq_Currency input)"
    "oq_Type input = ''buy'' \<or> oq_Type input = ''sell''"
    "oq_TimeInForce input = ''gtc'' \<or> oq_TimeInForce input = ''ioc''"
    "normalizeShares (oq_Amount r) = Inr (oq_Amount input)" "normalizePrice (oq_Price r) = Inr (oq_Price input)"
    using assms r m
    by (auto simp: orderValidateCreateRequest_def bind_res_Inr_iff Let_def split: if_splits)
  have t: "trimSpace m = m" "isUUID m" using validateUUIDField_Inr [OF m(1)] by blast+
  have o: "validateOwner (oq_MerchantID input) (oq_UserID input) = Inr (oq_MerchantID input, oq_UserID input)"
    using v(1-5) t by (simp add: validateOwner_def Let_def)
  show "validateWalletKey (oq_MerchantID input) (oq_UserID input) (oq_Currency input) = Inr (request_key input)"
    using o validCurrency_norm [OF v(6)] v(6) by (simp add: validateWalletKey_def request_key_def Let_def)
  show "oq_Type input = ''buy'' \<or> oq_Type input = ''sell''"
    "oq_TimeInForce input = ''gtc'' \<or> oq_TimeInForce input = ''ioc''" using v by simp_all
  show "\<exists>n. oq_Amount input = SharesToFloat n \<and> 0 \<le> n"
    using v(9) by (force simp: normalizeShares_def split: sum.splits dest: SharesFromFloat_range)
  obtain p where p: "PriceFromFloat (oq_Price r) = Inr p" "p \<noteq> 0" "p \<noteq> PriceScale" "oq_Price input = PriceToFloat p"
    using v(10) by (auto simp: normalizePrice_def split: sum.splits if_splits)
  have "0 \<le> p \<and> p \<le> PriceScale" using PriceFromFloat_range [OF p(1)] .
  then show "\<exists>p. price (oq_Price input) p" using p by (intro exI [of _ p]) (auto simp: price_def)
qed

section \<open>Collateral\<close>

definition coll :: "order \<Rightarrow> int \<Rightarrow> int" where
  "coll v n = half_up (n * exposure (o_Type v) (prc v) * 100) (10 ^ 12)"

lemma coll_bounds:
  assumes "exact v" "0 \<le> n" "n < shareCap"
  shows "0 \<le> coll v n \<and> coll v n < moneyCap"
proof -
  have p: "valid_price (prc v)" using assms(1) by (auto simp: exact_def price_def valid_price_def)
  let ?e = "exposure (o_Type v) (prc v)"
  have e: "0 \<le> ?e" "?e \<le> 1000000" using exposure_range [OF p, of "o_Type v"] by (simp_all add: valid_price_def PriceScale_def)
  have "n * ?e \<le> n * 1000000" using e assms(2) by (intro mult_left_mono) simp_all
  moreover have "2 * 10 ^ 12 * coll v n \<le> 2 * (n * ?e * 100) + 10 ^ 12"
    unfolding coll_def by (rule half_up_bounds(2)) simp
  ultimately have "coll v n < moneyCap" using assms(3) by (simp add: shareCap_def moneyCap_def)
  then show ?thesis using e assms(2) by (simp add: coll_def half_up_nonneg)
qed

lemma collateral_exact:
  assumes "exact v" "0 \<le> n" "n < shareCap"
  shows "requiredCollateralCents (o_Type v) (SharesToFloat n) (o_Price v) = Inr (coll v n)"
    "requiredCollateral (o_Type v) (SharesToFloat n) (o_Price v) = Inr (CentsToFloat (coll v n))"
proof -
  have p: "price (o_Price v) (prc v)" using assms(1) by (simp add: exact_def)
  have "valid_shares n" using assms(2,3) by (simp add: valid_shares_def shareCap_def maxShareUnits_def)
  moreover have "valid_price (prc v)" using p by (auto simp: price_def valid_price_def)
  ultimately show "requiredCollateralCents (o_Type v) (SharesToFloat n) (o_Price v) = Inr (coll v n)"
    using assms(2,3) by (simp add: requiredCollateralCents_def storedShareUnits_SharesToFloat
        price_stored [OF p] CollateralCents_spec must_def coll_def)
  then show "requiredCollateral (o_Type v) (SharesToFloat n) (o_Price v) = Inr (CentsToFloat (coll v n))"
    by (simp add: requiredCollateral_def)
qed

section \<open>Locks in cents\<close>

definition order_key :: "order \<Rightarrow> walletKey" where
  "order_key v = \<lparr>wk_MerchantID = o_MerchantID v, wk_UserID = o_UserID v, wk_Currency = o_Currency v\<rparr>"

definition keyed :: "order \<Rightarrow> bool" where
  "keyed v \<longleftrightarrow> validateWalletKey (o_MerchantID v) (o_UserID v) (o_Currency v) = Inr (order_key v)"

lemma CentsFromFloat_pos': "0 < c \<Longrightarrow> c < moneyCap \<Longrightarrow> CentsFromFloat (CentsToFloat c) = Inr c"
  by (rule CentsFromFloat_CentsToFloat) (simp_all add: moneyCap_def)

lemma CentsToFloat_pos: "0 < c \<Longrightarrow> c < moneyCap \<Longrightarrow> f_lt (Fin 0) (CentsToFloat c)"
  using CentsFromFloat_pos' [of c]
  by (cases "CentsToFloat c") (auto simp: CentsFromFloat_def scaledFromFloat_def f_le_def split: if_splits)

lemma orderUnlock_ok:
  assumes "ledger_inv (ow_wallets s)" "keyed v" "0 < x" "x \<le> l"
    "account (ow_wallets s) (order_key v) = Some (a, l)"
  obtains ws where "orderUnlock False t v (CentsToFloat x) s = (Inr (), s\<lparr>ow_wallets := ws\<rparr>)"
    "account ws = (account (ow_wallets s))(order_key v \<mapsto> (a + x, l - x))" "ledger_inv ws"
proof -
  have inv: "wallet_inv (ow_wallets s)" using ledger_wallet_inv [OF assms(1)] .
  have cap: "x < moneyCap" using mem.acct_bounds [OF inv assms(5)] assms(4) by linarith
  have u: "walletUnlock (\<lambda>_. False) (o_MerchantID v) (o_UserID v) (o_Currency v) (CentsToFloat x) t (ow_wallets s)
      = wrap_result ''unlock wallet balance'' (memUnlock (order_key v) x t (ow_wallets s))"
    using walletUnlock_memUnlock [where ctx = "\<lambda>_. False"] assms(2) CentsFromFloat_pos' [OF assms(3) cap]
    by (simp add: keyed_def)
  note ok = mem.unlock_ok [OF inv assms(5) less_imp_le [OF assms(3)] assms(4), of t]
  obtain r ws where m: "memUnlock (order_key v) x t (ow_wallets s) = (r, ws)" by fastforce
  have "ledger_inv ws"
    using ledger_Unlock [OF assms(1), of False "order_key v" "CentsToFloat x" t] m by (simp add: memUnlock_def)
  then show ?thesis
    using ok m by (intro that [of ws]) (simp_all add: orderUnlock_def u)
qed

lemma walletLock_cents:
  assumes "ledger_inv r" "validateWalletKey m u cur = Inr key" "0 < c" "c < moneyCap"
    "account r key = Some (a, l)"
  shows "c \<le> a \<Longrightarrow> \<exists>ws. walletLock (\<lambda>_. False) m u cur (CentsToFloat c) t r = (Inr (), ws)
      \<and> account ws = (account r)(key \<mapsto> (a - c, l + c)) \<and> ledger_inv ws"
    and "a < c \<Longrightarrow> walletLock (\<lambda>_. False) m u cur (CentsToFloat c) t r
      = (Inl (Wrapped ''lock wallet balance'' (Sentinel WalletErrInsufficientBalance)), r)"
proof -
  have inv: "wallet_inv r" using ledger_wallet_inv [OF assms(1)] .
  have eq: "walletLock (\<lambda>_. False) m u cur (CentsToFloat c) t r
      = wrap_result ''lock wallet balance'' (memLock key c t r)"
    using walletLock_memLock [where ctx = "\<lambda>_. False"] assms(2) CentsFromFloat_pos' [OF assms(3,4)] by simp
  show "\<exists>ws. walletLock (\<lambda>_. False) m u cur (CentsToFloat c) t r = (Inr (), ws)
      \<and> account ws = (account r)(key \<mapsto> (a - c, l + c)) \<and> ledger_inv ws" if "c \<le> a"
  proof -
    obtain q ws where m: "memLock key c t r = (q, ws)" by fastforce
    have "ledger_inv ws" using ledger_Lock [OF assms(1), of False key "CentsToFloat c" t] m by (simp add: memLock_def)
    then show ?thesis using mem.lock_ok [OF inv assms(5) less_imp_le [OF assms(3)] that, of t] m by (simp add: eq)
  qed
  show "walletLock (\<lambda>_. False) m u cur (CentsToFloat c) t r
      = (Inl (Wrapped ''lock wallet balance'' (Sentinel WalletErrInsufficientBalance)), r)" if "a < c"
    using mem.lock_short [OF inv assms(5) that assms(4)] by (simp add: eq)
qed

section \<open>A successful creation\<close>

text \<open>
  A request that passes every check before the lock: no call is cancelled, the key is new,
  the market is the merchant's, active and has the option, and the random source works;
  \<open>v\<close> is the order it builds.
\<close>

definition create_ready ::
  "(createCall \<Rightarrow> bool) \<Rightarrow> (createCall \<Rightarrow> time) \<Rightarrow> byte list \<Rightarrow> orderCreateRequest option \<Rightarrow> orderWorld
    \<Rightarrow> orderCreateRequest \<Rightarrow> order \<Rightarrow> bool" where
  "create_ready ctx now random req s input v \<longleftrightarrow>
     orderValidateCreateRequest req = Inr input
     \<and> ctx AtIdempotency = False \<and> ctx AtMarket = False \<and> ctx AtLock = False \<and> ctx AtPlace = False
     \<and> ctx AtRelease = False \<and> ctx AtLookup = False \<and> ctx AtRefund = False \<and> ctx AtRemainder = False
     \<and> (oq_IdempotencyKey input = []
        \<or> \<not> idempotencyTaken (oq_MerchantID input) (oq_IdempotencyKey input) (ow_orders s))
     \<and> (case marketGet (\<lambda>_. False) (oq_MarketID input) (ow_markets s) of
          Inl _ \<Rightarrow> False
        | Inr mk \<Rightarrow> m_MerchantID mk = oq_MerchantID input \<and> m_Status mk = ''active''
            \<and> containsOption (m_Options mk) (oq_Option input))
     \<and> (case fst (generateUUID random) of Inl _ \<Rightarrow> False
        | Inr i \<Rightarrow> v = orderFromRequest input i (now AtPlace))"

lemma not_taken_find:
  "\<not> idempotencyTaken m k os \<Longrightarrow> orderRepoGetByIdempotency False m k os = Inl (Sentinel OrderErrNotFound)"
proof -
  assume n: "\<not> idempotencyTaken m k os"
  have "find (\<lambda>(i, v). o_MerchantID v = m \<and> o_IdempotencyKey v = k) os = None"
    using n by (auto simp: find_None_iff idempotencyTaken_def list_ex_iff)
  then show ?thesis by (simp add: orderRepoGetByIdempotency_def)
qed

lemma ready_order:
  assumes "create_ready ctx now random req s input v"
  shows "o_MerchantID v = oq_MerchantID input" "o_UserID v = oq_UserID input"
    "o_Currency v = oq_Currency input" "o_Type v = oq_Type input" "o_Amount v = oq_Amount input"
    "o_Price v = oq_Price input" "o_FilledAmount v = Fin 0" "o_Status v = ''pending''"
    "o_IdempotencyKey v = oq_IdempotencyKey input" "o_TimeInForce v = oq_TimeInForce input"
    "order_key v = request_key input" "keyed v"
proof -
  obtain i where v: "v = orderFromRequest input i (now AtPlace)"
    using assms by (auto simp: create_ready_def split: sum.splits)
  then show "o_MerchantID v = oq_MerchantID input" "o_UserID v = oq_UserID input"
    "o_Currency v = oq_Currency input" "o_Type v = oq_Type input" "o_Amount v = oq_Amount input"
    "o_Price v = oq_Price input" "o_FilledAmount v = Fin 0" "o_Status v = ''pending''"
    "o_IdempotencyKey v = oq_IdempotencyKey input" "o_TimeInForce v = oq_TimeInForce input"
    and k: "order_key v = request_key input"
    by (simp_all add: orderFromRequest_def order_key_def request_key_def)
  have "orderValidateCreateRequest req = Inr input" using assms by (simp add: create_ready_def)
  then show "keyed v"
    using validated_request(1) v k by (simp add: keyed_def orderFromRequest_def)
qed

lemma ready_exact:
  assumes "create_ready ctx now random req s input v" "shares (oq_Amount input) n" "0 < n"
  shows "exact v" "amt v = n" "fil v = 0"
proof -
  note r = ready_order [OF assms(1)]
  have val: "orderValidateCreateRequest req = Inr input" using assms(1) by (simp add: create_ready_def)
  obtain p where p: "price (o_Price v) p" using validated_request(4) [OF val] r by auto
  have ty: "o_Type v = ''buy'' \<or> o_Type v = ''sell''" using validated_request(2) [OF val] r by simp
  have s: "shares (o_Amount v) n" "shares (o_FilledAmount v) 0"
    using assms(2) r by (simp_all add: shares_def shareCap_def)
  show "exact v" "amt v = n" "fil v = 0" using exactI [OF s p _ assms(3) ty] assms(3) by simp_all
qed

lemma orderCreate_reduce:
  assumes "create_ready ctx now random req s input v" "exact v"
  shows "orderCreate ctx now random req s = lockAndPlace ctx now input v (coll v (amt v)) s"
proof -
  note r = ready_order [OF assms(1)]
  have "shares (o_Amount v) (amt v)" using assms(2) by (simp add: exact_def)
  then have a: "o_Amount v = SharesToFloat (amt v)" "0 \<le> amt v" "amt v < shareCap" by (auto simp: shares_def)
  have c: "requiredCollateralCents (oq_Type input) (oq_Amount input) (oq_Price input) = Inr (coll v (amt v))"
    using collateral_exact(1) [OF assms(2) a(2,3)] a(1) r by simp
  have "orderCreateNew ctx now random input s = lockAndPlace ctx now input v (coll v (amt v)) s"
    using assms(1) c by (auto simp: create_ready_def orderCreateNew_def Let_def split: sum.splits)
  then show ?thesis
    using assms(1) not_taken_find by (auto simp: orderCreate_def create_ready_def)
qed

text \<open>The remainder of a cancelled order that is given back: nothing for one that rests or is filled.\<close>

definition remainder_coll :: "order \<Rightarrow> int" where
  "remainder_coll v = (if o_Status v = ''cancelled'' then coll v (rem v) else 0)"

lemma releaseRemainder_ok:
  assumes "ledger_inv (ow_wallets s)" "order_ok v" "keyed v"
    "account (ow_wallets s) (order_key v) = Some (a, l)" "remainder_coll v \<le> l"
    "o_Status v = ''cancelled'' \<Longrightarrow> 0 < remainder_coll v" "\<not> ctx AtRemainder"
  obtains ws where "releaseRemainder ctx now v s = (Inr v, s\<lparr>ow_wallets := ws\<rparr>)" "ledger_inv ws"
    "account ws = (account (ow_wallets s))(order_key v \<mapsto> (a + remainder_coll v, l - remainder_coll v))"
proof (cases "o_Status v = ''cancelled''")
  case False
  then show ?thesis
    using assms(1,4) by (intro that [of "ow_wallets s"]) (auto simp: releaseRemainder_def remainder_coll_def)
next
  case True
  have x: "exact v" using assms(2) by (simp add: order_ok_def)
  have r: "0 < rem v" "rem v < shareCap"
    using assms(2) True rem_bounds [OF x] by (auto simp: order_ok_def status_ok_def rem_def)
  have nz: "\<not> f_eq (SharesToFloat (rem v)) (Fin 0)"
  proof
    assume "f_eq (SharesToFloat (rem v)) (Fin 0)"
    then have "SharesToFloat (rem v) = Fin 0" by (simp add: f_eq_Fin_0)
    then show False using storedShareUnits_SharesToFloat [of "rem v"] r by simp
  qed
  have sh: "remainingShares (o_Amount v) (o_FilledAmount v) = Inr (SharesToFloat (rem v))"
    by (simp add: remainingShares_def exact_rem [OF x])
  have rc: "remainder_coll v = coll v (rem v)" using True by (simp add: remainder_coll_def)
  obtain ws where ws: "orderUnlock False (now AtRemainder) v (CentsToFloat (remainder_coll v)) s
      = (Inr (), s\<lparr>ow_wallets := ws\<rparr>)" "ledger_inv ws"
    "account ws = (account (ow_wallets s))(order_key v \<mapsto> (a + remainder_coll v, l - remainder_coll v))"
    using orderUnlock_ok [OF assms(1,3) assms(6) [OF True] assms(5,4)] by metis
  show ?thesis
    using True sh nz collateral_exact(2) [OF x less_imp_le [OF r(1)] r(2)] ws assms(7) rc
    by (intro that [of ws]) (simp_all add: releaseRemainder_def)
qed

lemma afterPlace_ok:
  assumes "ledger_inv (ow_wallets s)" "order_ok v" "keyed v"
    "account (ow_wallets s) (order_key v) = Some (a, l)" "0 \<le> x" "x + remainder_coll v \<le> l"
    "o_Status v = ''cancelled'' \<Longrightarrow> 0 < remainder_coll v" "\<not> ctx AtRemainder" "\<not> ctx AtRefund"
  obtains ws where "afterPlace ctx now (CentsToFloat x) v s = (Inr v, s\<lparr>ow_wallets := ws\<rparr>)" "ledger_inv ws"
    "account ws = (account (ow_wallets s))(order_key v \<mapsto> (a + x + remainder_coll v, l - x - remainder_coll v))"
proof -
  have x: "exact v" using assms(2) by (simp add: order_ok_def)
  have rb: "0 \<le> remainder_coll v"
    using coll_bounds [OF x] rem_bounds [OF x] by (simp add: remainder_coll_def)
  show ?thesis
  proof (cases "x = 0")
    case True
    then have "\<not> f_lt (Fin 0) (CentsToFloat x)" by simp
    moreover have "remainder_coll v \<le> l" using assms(6) True by simp
    then obtain ws where "releaseRemainder ctx now v s = (Inr v, s\<lparr>ow_wallets := ws\<rparr>)" "ledger_inv ws"
      "account ws = (account (ow_wallets s))(order_key v \<mapsto> (a + remainder_coll v, l - remainder_coll v))"
      using releaseRemainder_ok [where ctx = ctx and now = now, OF assms(1-4) _ assms(7,8)] by metis
    ultimately show ?thesis using that [of ws] True by (simp add: afterPlace_def)
  next
    case False
    then have pos: "0 < x" using assms(5) by simp
    have le: "x \<le> l" using assms(6) rb by simp
    obtain w1 where w1: "orderUnlock False (now AtRefund) v (CentsToFloat x) s = (Inr (), s\<lparr>ow_wallets := w1\<rparr>)"
      "account w1 = (account (ow_wallets s))(order_key v \<mapsto> (a + x, l - x))" "ledger_inv w1"
      using orderUnlock_ok [OF assms(1,3) pos le assms(4)] by metis
    have cap: "x < moneyCap"
      using mem.acct_bounds [OF ledger_wallet_inv [OF assms(1)] assms(4)] le by linarith
    let ?s = "s\<lparr>ow_wallets := w1\<rparr>"
    have "ledger_inv (ow_wallets ?s)" "account (ow_wallets ?s) (order_key v) = Some (a + x, l - x)"
      "remainder_coll v \<le> l - x" using w1 assms(6) by simp_all
    then obtain ws where "releaseRemainder ctx now v ?s = (Inr v, ?s\<lparr>ow_wallets := ws\<rparr>)" "ledger_inv ws"
      "account ws = (account (ow_wallets ?s))(order_key v \<mapsto> (a + x + remainder_coll v, l - x - remainder_coll v))"
      using releaseRemainder_ok [where ctx = ctx and now = now, OF _ assms(2,3) _ _ assms(7,8)] by metis
    then show ?thesis
      using that [of ws] w1 assms(9) CentsToFloat_pos [OF pos cap] by (simp add: afterPlace_def)
  qed
qed

lemma key_placed_order [simp]:
  "order_key (placed_order v os) = order_key v" "keyed (placed_order v os) = keyed v"
  by (simp_all add: keyed_def order_key_def placed_order_def finish_def add_fill_def)

text \<open>What the account gets back at once: the price improvement and the remainder of an IOC order.\<close>

definition released :: "order \<Rightarrow> orders \<Rightarrow> int" where
  "released v os = place_refund v os + remainder_coll (placed_order v os)"

lemma place_refund_nonneg:
  assumes "entries_ok os" "fresh_order v os"
  shows "0 \<le> place_refund v os"
proof -
  have v: "exact v" using assms(2) by (simp add: fresh_order_def)
  let ?os1 = "put (o_ID v) v os"
  have fills: "\<forall>x \<in> set (place_fills v os). 0 \<le> x"
    unfolding place_fills_def match_fills_def
    by (rule allocate_nonneg [OF taker_rem [OF assms(2)] place_rems [OF assms]])
  have ex: "exact (look ?os1 k)" if "k \<in> set (place_mids v os)" for k
    using maker_okD [of ?os1 k] place_loop_prems(2) [OF assms] that by (simp add: order_ok_def)
  have "0 \<le> refund_of v (look ?os1 k) x" if "(k, x) \<in> set (zip (place_mids v os) (place_fills v os))" for k x
    using refund_bounds [OF v ex, of k x] that fills
    by (auto dest: set_zip_leftD set_zip_rightD)
  then show ?thesis
    unfolding place_refund_def match_refund_def place_fills_def [symmetric]
    by (intro sum_list_nonneg) auto
qed

lemma orderCreate_effect:
  assumes "ledger_inv (ow_wallets s)" "entries_ok (ow_orders s)"
    "create_ready ctx now random req s input v" "fresh_order v (ow_orders s)"
    "account (ow_wallets s) (order_key v) = Some (a, l)" "0 < coll v (amt v)"
  shows "a < coll v (amt v) \<Longrightarrow> orderCreate ctx now random req s =
      (Inl (Wrapped ''lock order balance'' (Wrapped ''lock wallet balance'' (Sentinel WalletErrInsufficientBalance))), s)"
    and "coll v (amt v) \<le> a \<Longrightarrow> released v (ow_orders s) \<le> l + coll v (amt v) \<Longrightarrow>
      (o_Status (placed_order v (ow_orders s)) = ''cancelled'' \<Longrightarrow> 0 < remainder_coll (placed_order v (ow_orders s))) \<Longrightarrow>
      \<exists>s'. orderCreate ctx now random req s = (Inr (placed_order v (ow_orders s)), s')
        \<and> ow_orders s' = snd (orderRepoPlace False v (ow_orders s)) \<and> ow_markets s' = ow_markets s
        \<and> account (ow_wallets s') = (account (ow_wallets s))(order_key v \<mapsto>
            (a - coll v (amt v) + released v (ow_orders s), l + coll v (amt v) - released v (ow_orders s)))"
proof -
  let ?c = "coll v (amt v)"
  have x: "exact v" using assms(4) by (simp add: fresh_order_def)
  then have "0 \<le> amt v" "amt v < shareCap" by (auto simp: exact_def shares_def)
  then have cap: "?c < moneyCap" using coll_bounds [OF x] by simp
  note r = ready_order [OF assms(3)]
  have key: "validateWalletKey (oq_MerchantID input) (oq_UserID input) (oq_Currency input) = Inr (order_key v)"
    using r(1-3,11,12) by (simp add: keyed_def)
  have ctx: "\<not> ctx AtLock" "\<not> ctx AtPlace" "\<not> ctx AtRefund" "\<not> ctx AtRemainder"
    using assms(3) by (simp_all add: create_ready_def)
  note red = orderCreate_reduce [OF assms(3) x]
  note lock = walletLock_cents [OF assms(1) key assms(6) cap assms(5), of "now AtLock"]
  show "orderCreate ctx now random req s = (Inl (Wrapped ''lock order balance''
      (Wrapped ''lock wallet balance'' (Sentinel WalletErrInsufficientBalance))), s)" if "a < ?c"
    using lock(2) [OF that] ctx by (simp add: red lockAndPlace_def)
  assume enough: "?c \<le> a" and rel: "released v (ow_orders s) \<le> l + ?c"
    and rem: "o_Status (placed_order v (ow_orders s)) = ''cancelled'' \<Longrightarrow> 0 < remainder_coll (placed_order v (ow_orders s))"
  obtain w1 where w1: "walletLock (\<lambda>_. False) (oq_MerchantID input) (oq_UserID input) (oq_Currency input)
      (CentsToFloat ?c) (now AtLock) (ow_wallets s) = (Inr (), w1)"
    "account w1 = (account (ow_wallets s))(order_key v \<mapsto> (a - ?c, l + ?c))" "ledger_inv w1"
    using lock(1) [OF enough] by blast
  obtain os' where os': "orderRepoPlace False v (ow_orders s)
      = (Inr (CentsToFloat (place_refund v (ow_orders s)), placed_order v (ow_orders s)), os')"
    "map_of os' = placed v (ow_orders s)"
    using place_result [OF assms(2,4)] by metis
  let ?s = "s\<lparr>ow_wallets := w1, ow_orders := os'\<rparr>"
  have inv: "ledger_inv (ow_wallets ?s)" using w1 by simp
  have k: "keyed (placed_order v (ow_orders s))" using r(12) by simp
  have acc: "account (ow_wallets ?s) (order_key (placed_order v (ow_orders s))) = Some (a - ?c, l + ?c)"
    using w1 by simp
  obtain ws where "afterPlace ctx now (CentsToFloat (place_refund v (ow_orders s))) (placed_order v (ow_orders s)) ?s
      = (Inr (placed_order v (ow_orders s)), ?s\<lparr>ow_wallets := ws\<rparr>)"
    "account ws = (account (ow_wallets ?s))(order_key (placed_order v (ow_orders s)) \<mapsto>
       (a - ?c + place_refund v (ow_orders s) + remainder_coll (placed_order v (ow_orders s)),
        l + ?c - place_refund v (ow_orders s) - remainder_coll (placed_order v (ow_orders s))))"
    using afterPlace_ok [where ctx = ctx and now = now, OF inv placed_exact(1) [OF assms(2,4)] k acc
        place_refund_nonneg [OF assms(2,4)] _ rem ctx(4,3)] rel
    by (metis released_def)
  then show "\<exists>s'. orderCreate ctx now random req s = (Inr (placed_order v (ow_orders s)), s')
        \<and> ow_orders s' = snd (orderRepoPlace False v (ow_orders s)) \<and> ow_markets s' = ow_markets s
        \<and> account (ow_wallets s') = (account (ow_wallets s))(order_key v \<mapsto>
            (a - ?c + released v (ow_orders s), l + ?c - released v (ow_orders s)))"
    using w1 os' ctx by (simp add: red lockAndPlace_def released_def algebra_simps)
qed

end
