(* ===== verification/Exchange.thy ===== *)
theory Exchange
  imports OrderMoney
begin

text \<open>
  The order, wallet and market services together: every run of the three refines the runs
  of the wallet ledger, of the matching engine and of the market store, so each invariant
  of a single store holds in the composition; and what one order call does to all three.
\<close>

section \<open>Orders that reach the store\<close>

text \<open>The amount of a request stays in the range in which share units survive their trip through a float.\<close>

definition amount_fits :: "orderCreateRequest option \<Rightarrow> bool" where
  "amount_fits req \<longleftrightarrow> (case req of None \<Rightarrow> True
     | Some r \<Rightarrow> (case SharesFromFloat (oq_Amount r) of Inl _ \<Rightarrow> True | Inr n \<Rightarrow> n < shareCap))"

lemma fitting_request:
  assumes "amount_fits req" "orderValidateCreateRequest req = Inr input"
  obtains n where "shares (oq_Amount input) n"
proof -
  obtain r where r: "req = Some r" using assms(2) by (cases req) (simp_all add: orderValidateCreateRequest_def)
  then have "normalizeShares (oq_Amount r) = Inr (oq_Amount input)"
    using assms(2) by (auto simp: orderValidateCreateRequest_def bind_res_Inr_iff Let_def split: if_splits)
  then obtain n where n: "SharesFromFloat (oq_Amount r) = Inr n" "oq_Amount input = SharesToFloat n"
    by (auto simp: normalizeShares_def split: sum.splits)
  have "n < shareCap" using assms(1) r n by (simp add: amount_fits_def)
  then show ?thesis using that [of n] n SharesFromFloat_range [OF n(1)] by (simp add: shares_def)
qed

lemma order_of_request:
  assumes "orderValidateCreateRequest req = Inr input" "shares (oq_Amount input) n" "0 < n"
  shows "new_order (orderFromRequest input i t)" "amt (orderFromRequest input i t) = n"
    "keyed (orderFromRequest input i t)"
proof -
  let ?v = "orderFromRequest input i t"
  obtain p where p: "price (o_Price ?v) p"
    using validated_request(4) [OF assms(1)] by (auto simp: orderFromRequest_def)
  have s: "shares (o_Amount ?v) n" "shares (o_FilledAmount ?v) 0"
    using assms(2) by (simp_all add: orderFromRequest_def shares_def shareCap_def)
  have "o_Type ?v = ''buy'' \<or> o_Type ?v = ''sell''"
    using validated_request(2) [OF assms(1)] by (simp add: orderFromRequest_def)
  note e = exactI [OF s p _ assms(3) this]
  show "amt ?v = n" using e assms(3) by simp
  show "new_order ?v" using e assms(3) by (simp add: new_order_def) (simp add: orderFromRequest_def)
  show "keyed ?v"
    using validated_request(1) [OF assms(1)]
    by (simp add: keyed_def orderFromRequest_def order_key_def request_key_def)
qed

lemma lock_nothing: "\<exists>e. walletLock ctx m u cur (CentsToFloat 0) t r = (Inl e, r)"
proof -
  have "\<exists>e. normalizeAmount (CentsToFloat 0) = Inl e"
    by (simp add: normalizeAmount_def CentsFromFloat_def scaledFromFloat_def f_le_def)
  then show ?thesis
    by (cases "validateWalletKey m u cur") (auto simp: walletLock_def)
qed

lemma collateral_nothing:
  assumes "storedPriceUnits p = Inr q" "valid_price q"
  shows "requiredCollateralCents side (SharesToFloat 0) p = Inr 0"
proof -
  have "valid_shares 0" by (simp add: valid_shares_def maxShareUnits_def)
  then have "CollateralCents side 0 q = Inr (half_up (0 * exposure side q * 100) (10 ^ 12))"
    using assms(2) by (simp add: CollateralCents_spec)
  then show ?thesis
    using assms(1) by (simp add: requiredCollateralCents_def storedShareUnits_def must_def half_up_def)
qed

section \<open>Refinement of the three stores\<close>

inductive world_step :: "orderWorld \<Rightarrow> orderWorld \<Rightarrow> bool" where
  create: "amount_fits req \<Longrightarrow> world_step s (snd (orderCreate ctx now random req s))"
| cancel: "world_step s (snd (orderCancel ctx now i s))"
| wallet: "wallet_step (ow_wallets s) ws \<Longrightarrow> world_step s (s\<lparr>ow_wallets := ws\<rparr>)"
| market: "market_step (ow_markets s) ms \<Longrightarrow> world_step s (s\<lparr>ow_markets := ms\<rparr>)"

definition newWorld :: orderWorld where
  "newWorld = \<lparr>ow_orders = [], ow_wallets = newWalletRepo, ow_markets = []\<rparr>"

definition world_reachable :: "orderWorld \<Rightarrow> bool" where
  "world_reachable s \<longleftrightarrow> world_step\<^sup>*\<^sup>* newWorld s"

text \<open>What a call may do to the stores: wallet locks and unlocks, at most one commit of the book.\<close>

definition refines :: "orderWorld \<Rightarrow> orderWorld \<Rightarrow> bool" where
  "refines s s' \<longleftrightarrow> wallet_step\<^sup>*\<^sup>* (ow_wallets s) (ow_wallets s')
     \<and> (ow_orders s' = ow_orders s \<or> order_step (ow_orders s) (ow_orders s'))
     \<and> (ow_markets s' = ow_markets s \<or> market_step (ow_markets s) (ow_markets s'))"

lemma refines_refl [simp]: "refines s s" by (simp add: refines_def)

lemma refines_wallets:
  "refines s s' \<Longrightarrow> wallet_step\<^sup>*\<^sup>* (ow_wallets s') (ow_wallets s'') \<Longrightarrow> ow_orders s'' = ow_orders s'
    \<Longrightarrow> ow_markets s'' = ow_markets s' \<Longrightarrow> refines s s''"
  unfolding refines_def by (metis rtranclp_trans)

definition wallets_only :: "orderWorld \<Rightarrow> orderWorld \<Rightarrow> bool" where
  "wallets_only s s' \<longleftrightarrow> wallet_step\<^sup>*\<^sup>* (ow_wallets s) (ow_wallets s')
     \<and> ow_orders s' = ow_orders s \<and> ow_markets s' = ow_markets s"

lemma wallets_only_trans: "wallets_only s s' \<Longrightarrow> wallets_only s' s'' \<Longrightarrow> wallets_only s s''"
  unfolding wallets_only_def by (metis rtranclp_trans)

lemma wallets_only_refl [simp]: "wallets_only s s" by (simp add: wallets_only_def)

lemma refines_trans_wallets: "refines s s' \<Longrightarrow> wallets_only s' s'' \<Longrightarrow> refines s s''"
  using refines_wallets unfolding wallets_only_def by blast

lemma orderUnlock_only: "wallets_only s (snd (orderUnlock d t v f s))"
proof -
  have "wallet_step (ow_wallets s) (snd (walletUnlock (\<lambda>_. d) (o_MerchantID v) (o_UserID v) (o_Currency v) f t (ow_wallets s)))"
    by (rule wallet_step.unlock)
  then show ?thesis by (auto simp: wallets_only_def orderUnlock_def split: prod.splits)
qed

lemma releaseRemainder_only: "wallets_only s (snd (releaseRemainder ctx now v s))"
  using orderUnlock_only by (auto simp: releaseRemainder_def snd_plain_result split: sum.split)

lemma afterPlace_only: "wallets_only s (snd (afterPlace ctx now p v s))"
proof -
  obtain r s' where u: "orderUnlock (ctx AtRefund) (now AtRefund) v p s = (r, s')" by fastforce
  have "wallets_only s s'" using orderUnlock_only [of s "ctx AtRefund" "now AtRefund" v p] u by simp
  then show ?thesis
    using u releaseRemainder_only wallets_only_trans by (fastforce simp: afterPlace_def split: sum.split)
qed

lemma lockAndPlace_refines:
  assumes "new_order v \<or> c = 0"
  shows "refines s (snd (lockAndPlace ctx now input v c s))"
proof (cases "c = 0")
  case True
  then show ?thesis
    using lock_nothing [of "\<lambda>_. ctx AtLock" "oq_MerchantID input" "oq_UserID input" "oq_Currency input"
        "now AtLock" "ow_wallets s"]
    by (auto simp: lockAndPlace_def Let_def)
next
  case False
  then have v: "new_order v" using assms by simp
  obtain r ws where l: "walletLock (\<lambda>_. ctx AtLock) (oq_MerchantID input) (oq_UserID input)
      (oq_Currency input) (CentsToFloat c) (now AtLock) (ow_wallets s) = (r, ws)" by fastforce
  have w: "wallet_step (ow_wallets s) ws" using wallet_step.lock l by (metis snd_conv)
  obtain pr os where p: "orderRepoPlace (ctx AtPlace) v (ow_orders s) = (pr, os)" by fastforce
  have o: "order_step (ow_orders s) os" using order_step.place [OF v] p by (metis snd_conv)
  let ?s1 = "s\<lparr>ow_wallets := ws\<rparr>" and ?s2 = "s\<lparr>ow_wallets := ws, ow_orders := os\<rparr>"
  have r1: "refines s ?s1" and r2: "refines s ?s2" using w o by (auto simp: refines_def)
  have a: "refines s (snd (orderUnlock d t u f ?s2))" for d t u f
    using refines_trans_wallets [OF r2 orderUnlock_only] .
  have b: "refines s (snd (afterPlace ctx now q u ?s2))" for q u
    using refines_trans_wallets [OF r2 afterPlace_only] .
  show ?thesis
    using l p r1 r2 a b by (auto simp: lockAndPlace_def Let_def split: sum.split option.split prod.split)
qed

lemma placeable_or_free:
  assumes "amount_fits req" "orderValidateCreateRequest req = Inr input"
    "requiredCollateralCents (oq_Type input) (oq_Amount input) (oq_Price input) = Inr c"
  shows "new_order (orderFromRequest input i t) \<or> c = 0"
proof -
  obtain n where n: "shares (oq_Amount input) n" using fitting_request [OF assms(1,2)] .
  obtain p where p: "price (oq_Price input) p" using validated_request(4) [OF assms(2)] by blast
  show ?thesis
  proof (cases "0 < n")
    case True
    then show ?thesis using order_of_request(1) [OF assms(2) n] by blast
  next
    case False
    then have "oq_Amount input = SharesToFloat 0" using n by (auto simp: shares_def)
    moreover have "storedPriceUnits (oq_Price input) = Inr p" "valid_price p"
      using price_stored [OF p] p by (auto simp: price_def valid_price_def)
    ultimately show ?thesis using assms(3) collateral_nothing by simp
  qed
qed

lemma orderCreate_refines:
  assumes "amount_fits req"
  shows "refines s (snd (orderCreate ctx now random req s))"
proof -
  have "refines s (snd (orderCreateNew ctx now random input s))"
    if "orderValidateCreateRequest req = Inr input" for input
    using lockAndPlace_refines [OF placeable_or_free [OF assms that]]
    by (auto simp: orderCreateNew_def Let_def split: sum.split)
  then show ?thesis by (auto simp: orderCreate_def split: sum.split)
qed

lemma orderCancel_refines: "refines s (snd (orderCancel ctx now i s))"
proof (cases "validateUUIDField ''order_id'' i")
  case (Inr k)
  obtain r os where c: "orderRepoCancel (ctx AtCancel) k (ow_orders s) = (r, os)" by fastforce
  have "order_step (ow_orders s) os" using order_step.cancel c by (metis snd_conv)
  then have step: "refines s (s\<lparr>ow_orders := os\<rparr>)" by (simp add: refines_def)
  have "refines s (snd (orderUnlock d t v f (s\<lparr>ow_orders := os\<rparr>)))" for d t v f
    using refines_trans_wallets [OF step orderUnlock_only] .
  then show ?thesis
    using step c Inr by (auto simp: orderCancel_def snd_plain_result Let_def split: sum.split prod.split)
qed (simp add: orderCancel_def)

lemma world_step_refines: "world_step s s' \<Longrightarrow> refines s s'"
proof (induction rule: world_step.induct)
  case (create req s ctx now random)
  then show ?case by (rule orderCreate_refines)
next
  case (cancel s ctx now i)
  show ?case by (rule orderCancel_refines)
qed (auto simp: refines_def)


lemma world_refines_run:
  assumes "world_reachable s"
  shows "wallet_reachable (ow_wallets s) \<and> order_reachable (ow_orders s) \<and> market_step\<^sup>*\<^sup>* [] (ow_markets s)"
proof -
  have "world_step\<^sup>*\<^sup>* newWorld s" using assms by (simp add: world_reachable_def)
  then show ?thesis
  proof (induction rule: rtranclp_induct)
    case base
    show ?case by (simp add: newWorld_def wallet_reachable_def order_reachable_def)
  next
    case (step y z)
    note r = world_step_refines [OF step(2)]
    have "wallet_step\<^sup>*\<^sup>* newWalletRepo (ow_wallets z)"
      using r step(3) by (auto simp: refines_def wallet_reachable_def intro: rtranclp_trans)
    moreover have "order_step\<^sup>*\<^sup>* [] (ow_orders z)"
      using r step(3) by (auto simp: refines_def order_reachable_def intro: rtranclp.rtrancl_into_rtrancl)
    moreover have "market_step\<^sup>*\<^sup>* [] (ow_markets z)"
      using r step(3) by (auto simp: refines_def intro: rtranclp.rtrancl_into_rtrancl)
    ultimately show ?case by (simp add: wallet_reachable_def order_reachable_def)
  qed
qed

lemma world_inv:
  assumes "world_reachable s"
  shows "ledger_inv (ow_wallets s)" "entries_ok (ow_orders s)"
  using world_refines_run [OF assms] ledger_reachable store_inv_reachable(3) by blast+

section \<open>What stays of a stored order\<close>

text \<open>The terms of an order, everything but its fill and status, never change; an idempotency key names one order.\<close>

definition same_terms :: "order \<Rightarrow> order \<Rightarrow> bool" where
  "same_terms v w \<longleftrightarrow> w = v\<lparr>o_FilledAmount := o_FilledAmount w, o_Status := o_Status w, o_FilledAt := o_FilledAt w\<rparr>"

lemma same_terms_refl [simp]: "same_terms v v" by (simp add: same_terms_def)

lemma same_terms_fields:
  assumes "same_terms v w"
  shows "o_ID w = o_ID v" "o_MerchantID w = o_MerchantID v" "o_IdempotencyKey w = o_IdempotencyKey v"
    "o_UserID w = o_UserID v" "o_Currency w = o_Currency v" "o_Price w = o_Price v" "o_Type w = o_Type v"
    "o_Amount w = o_Amount v" "o_MarketID w = o_MarketID v" "o_Option w = o_Option v"
  by (subst assms [unfolded same_terms_def], simp)+

lemma same_terms_trans: "same_terms u v \<Longrightarrow> same_terms v w \<Longrightarrow> same_terms u w"
  unfolding same_terms_def by (cases u; cases v; cases w) simp

lemma same_terms_changes:
  "same_terms v (add_fill x v)" "same_terms v (apply_fill t x v)" "same_terms v (finish v)"
  "same_terms v (v\<lparr>o_Status := s\<rparr>)"
  by (simp_all add: same_terms_def add_fill_def apply_fill_def finish_def)

lemma same_terms_placed: "same_terms v (placed_order v os)"
  unfolding placed_order_def
  using same_terms_changes(3) same_terms_trans [OF same_terms_changes(1) same_terms_changes(3)]
  by (auto split: if_split)

definition key_unused :: "order \<Rightarrow> orders \<Rightarrow> bool" where
  "key_unused v os \<longleftrightarrow> o_IdempotencyKey v = [] \<or> \<not> idempotencyTaken (o_MerchantID v) (o_IdempotencyKey v) os"

definition order_commit :: "orders \<Rightarrow> orders \<Rightarrow> bool" where
  "order_commit os os' \<longleftrightarrow>
     (\<forall>k v. map_of os k = Some v \<longrightarrow> (\<exists>v'. map_of os' k = Some v' \<and> same_terms v v'))
     \<and> (\<exists>n. \<forall>k v'. map_of os' k = Some v' \<longrightarrow>
          (\<exists>v. map_of os k = Some v \<and> same_terms v v') \<or> (k = n \<and> key_unused v' os))"

lemma order_commit_refl [simp]: "order_commit os os"
  by (auto simp: order_commit_def)

lemma place_commit:
  assumes "entries_ok os" "fresh_order v os" "map_of os' = placed v os"
  shows "order_commit os os'"
  unfolding order_commit_def
proof (intro conjI allI impI exI [of _ "o_ID v"])
  fix k w
  assume "map_of os k = Some w"
  then show "\<exists>w'. map_of os' k = Some w' \<and> same_terms w w'"
    using placed_entry(1) [OF assms(1,2)] assms(3) same_terms_changes(2) by fastforce
next
  fix k w'
  assume k: "map_of os' k = Some w'"
  have "placed v os k = Some w'" using k assms(3) by simp
  from assms(1,2) this show "(\<exists>w. map_of os k = Some w \<and> same_terms w w') \<or> (k = o_ID v \<and> key_unused w' os)"
  proof (cases rule: placed_cases)
    case taker
    then show ?thesis
      using assms(2) same_terms_fields [OF same_terms_placed [of v os]]
      by (auto simp: key_unused_def fresh_order_def)
  next
    case (other w)
    then show ?thesis using same_terms_changes(2) by blast
  qed
qed

lemma order_step_commit:
  assumes "order_step os os'" "entries_ok os"
  shows "order_commit os os'"
  using assms
proof (induction rule: order_step.induct)
  case (place v os d)
  show ?case
  proof (cases "\<not> fresh_order v os \<or> d")
    case True
    then show ?thesis using place_refused [OF place(1) True] by simp
  next
    case False
    then have f: "fresh_order v os" "\<not> d" by simp_all
    obtain os' where "orderRepoPlace False v os
        = (Inr (CentsToFloat (place_refund v os), placed_order v os), os')" "map_of os' = placed v os"
      using place_result [OF place(2) f(1)] by metis
    then show ?thesis using f(2) place_commit [OF place(2) f(1)] by simp
  qed
next
  case (cancel os d k)
  show ?case
  proof (cases "d \<or> map_of os k = None")
    case True
    then show ?thesis by (auto simp: orderRepoCancel_def)
  next
    case False
    then obtain v where v: "map_of os k = Some v" "\<not> d" by auto
    have "order_commit os (put k (v\<lparr>o_Status := ''cancelled''\<rparr>) os)"
      using v same_terms_changes(4) [of v] by (auto simp: order_commit_def map_of_put)
    then show ?thesis using cancel_spec [OF cancel(1) v(1)] v by auto
  qed
qed

definition keys_name_orders :: "orders \<Rightarrow> bool" where
  "keys_name_orders os \<longleftrightarrow> (\<forall>k v k' v'. map_of os k = Some v \<longrightarrow> map_of os k' = Some v' \<longrightarrow>
     o_IdempotencyKey v \<noteq> [] \<longrightarrow> o_IdempotencyKey v' = o_IdempotencyKey v \<longrightarrow>
     o_MerchantID v' = o_MerchantID v \<longrightarrow> k' = k)"

lemma unused_new_key:
  assumes "key_unused v' os" "map_of os k = Some v" "o_IdempotencyKey v = o_IdempotencyKey v'"
    "o_MerchantID v = o_MerchantID v'"
  shows "o_IdempotencyKey v' = []"
  using assms map_of_SomeD [OF assms(2)] by (auto simp: key_unused_def idempotencyTaken_def list_ex_iff)

lemma keys_name_orders_commit:
  assumes "order_commit os os'" "keys_name_orders os"
  shows "keys_name_orders os'"
  unfolding keys_name_orders_def
proof (intro allI impI)
  fix k v k' v'
  assume a: "map_of os' k = Some v" "map_of os' k' = Some v'" "o_IdempotencyKey v \<noteq> []"
    "o_IdempotencyKey v' = o_IdempotencyKey v" "o_MerchantID v' = o_MerchantID v"
  obtain n where n: "\<And>k v'. map_of os' k = Some v' \<Longrightarrow>
      (\<exists>v. map_of os k = Some v \<and> same_terms v v') \<or> (k = n \<and> key_unused v' os)"
    using assms(1) unfolding order_commit_def by blast
  have old: "o_IdempotencyKey w = [] \<or> (\<exists>u. map_of os j = Some u \<and> same_terms u w)"
    if "map_of os' j = Some w" "key_unused w os \<Longrightarrow> \<exists>i u. map_of os i = Some u
      \<and> o_IdempotencyKey u = o_IdempotencyKey w \<and> o_MerchantID u = o_MerchantID w" for j w
    using n [OF that(1)] that(2) unused_new_key by blast
  show "k' = k"
  proof (cases "(\<exists>u. map_of os k = Some u \<and> same_terms u v) \<or> (\<exists>u. map_of os k' = Some u \<and> same_terms u v')")
    case False
    then show ?thesis using n [OF a(1)] n [OF a(2)] by blast
  next
    case True
    then obtain i u where "map_of os i = Some u" "o_IdempotencyKey u = o_IdempotencyKey v"
      "o_MerchantID u = o_MerchantID v"
      using same_terms_fields(2,3) a(4,5) by metis
    then obtain w w' where w: "map_of os k = Some w" "same_terms w v" "map_of os k' = Some w'" "same_terms w' v'"
      using old [OF a(1)] old [OF a(2)] a(3-5) by metis
    show ?thesis
      using w a(3-5) same_terms_fields(2,3) [OF w(2)] same_terms_fields(2,3) [OF w(4)] assms(2)
      unfolding keys_name_orders_def by metis
  qed
qed

lemma order_commits_run:
  assumes "order_step\<^sup>*\<^sup>* os os'" "book_ok os \<and> balanced os"
  shows "(keys_name_orders os \<longrightarrow> keys_name_orders os')
    \<and> (\<forall>k v. map_of os k = Some v \<longrightarrow> (\<exists>v'. map_of os' k = Some v' \<and> same_terms v v'))
    \<and> book_ok os' \<and> balanced os'"
  using assms(1)
proof (induction rule: rtranclp_induct)
  case base
  then show ?case using assms(2) by auto
next
  case (step y z)
  then have c: "order_commit y z" using order_step_commit by (simp add: book_ok_def)
  have "\<exists>v'. map_of z k = Some v' \<and> same_terms v v'" if "map_of os k = Some v" for k v
    using step(3) c that same_terms_trans unfolding order_commit_def by metis
  then show ?case
    using keys_name_orders_commit [OF c] step(3) store_inv_step [OF step(2)] by blast
qed

lemma reachable_keys: "order_reachable os \<Longrightarrow> keys_name_orders os"
  using order_commits_run [of "[]" os] store_inv_reachable(1,2) [of "[]"]
  by (simp add: order_reachable_def keys_name_orders_def)

lemma world_run_orders:
  assumes "world_step\<^sup>*\<^sup>* s s'"
  shows "order_step\<^sup>*\<^sup>* (ow_orders s) (ow_orders s')"
  using assms
proof (induction rule: rtranclp_induct)
  case (step y z)
  then show ?case
    using world_step_refines [OF step(2)] by (auto simp: refines_def intro: rtranclp.rtrancl_into_rtrancl)
qed simp

end
