(* ===== verification/ExchangeProps.thy ===== *)
theory ExchangeProps
  imports Exchange
begin

text \<open>
  The properties of the composed exchange: refinement of the three stores, the money an
  order call moves, its idempotency, and what a failed call leaves behind.
\<close>

section \<open>Examples\<close>

definition demo_market_id :: string where
  "demo_market_id = ''00000000-0000-4000-8000-000000000000''"

definition demo_markets :: markets where
  "demo_markets = snd (marketCreate (\<lambda>_. False) (Some demo_market_request) (replicate 16 0) 7 [])"

definition demo_world :: orderWorld where
  "demo_world = newWorld\<lparr>ow_wallets := demo_funded, ow_markets := demo_markets\<rparr>"

lemma demo_world_simps [simp]:
  "ow_orders demo_world = []" "ow_wallets demo_world = demo_funded" "ow_markets demo_world = demo_markets"
  by (simp_all add: demo_world_def newWorld_def)

lemma demo_world_reachable: "world_reachable demo_world"
proof -
  have "wallet_step newWalletRepo demo_funded"
    using demo_accepted unfolding demo_funded_def
    by (intro wallet_step.credit) (simp add: credit_accepted_def)
  then have "world_step newWorld (newWorld\<lparr>ow_wallets := demo_funded\<rparr>)"
    by (intro world_step.wallet) (simp add: newWorld_def)
  moreover have "world_step (newWorld\<lparr>ow_wallets := demo_funded\<rparr>) demo_world"
    unfolding demo_world_def using world_step.market [of "newWorld\<lparr>ow_wallets := demo_funded\<rparr>" demo_markets]
    by (simp add: demo_markets_def newWorld_def market_step.create)
  ultimately show ?thesis
    unfolding world_reachable_def by (meson converse_rtranclp_into_rtranclp rtranclp.rtrancl_refl)
qed

definition demo_bid :: orderCreateRequest where
  "demo_bid = \<lparr>oq_MerchantID = demo_merchant, oq_UserID = '' alice'', oq_MarketID = demo_market_id,
     oq_Type = ''BUY'', oq_Option = ''Yes'', oq_Amount = Fin 10, oq_Currency = ''usd'', oq_Price = Fin (1 / 2),
     oq_TimeInForce = [], oq_IdempotencyKey = ''order-1''\<rparr>"

definition demo_input :: orderCreateRequest where
  "demo_input = \<lparr>oq_MerchantID = demo_merchant, oq_UserID = ''alice'', oq_MarketID = demo_market_id,
     oq_Type = ''buy'', oq_Option = ''Yes'', oq_Amount = SharesToFloat 10000000, oq_Currency = ''USD'',
     oq_Price = PriceToFloat 500000, oq_TimeInForce = ''gtc'', oq_IdempotencyKey = ''order-1''\<rparr>"

definition demo_placed :: order where
  "demo_placed = orderFromRequest demo_input ''01010101-0101-4101-8101-010101010101'' 9"

lemma demo_validated: "orderValidateCreateRequest (Some demo_bid) = Inr demo_input"
  by code_simp

lemma demo_fits: "amount_fits (Some demo_bid)"
  by code_simp

lemma demo_ready:
  "create_ready (\<lambda>_. False) (\<lambda>_. 9) (replicate 16 1) (Some demo_bid) demo_world demo_input demo_placed"
proof -
  have g: "fst (generateUUID (replicate 16 1)) = Inr ''01010101-0101-4101-8101-010101010101''" by code_simp
  have m: "(case marketGet (\<lambda>_. False) (oq_MarketID demo_input) demo_markets of
          Inl _ \<Rightarrow> False
        | Inr mk \<Rightarrow> m_MerchantID mk = oq_MerchantID demo_input \<and> m_Status mk = ''active''
            \<and> containsOption (m_Options mk) (oq_Option demo_input))" by code_simp
  show ?thesis
    using g m demo_validated
    by (simp add: create_ready_def demo_placed_def idempotencyTaken_def)
qed

lemma demo_shares: "shares (oq_Amount demo_input) 10000000"
  by (simp add: demo_input_def shares_def shareCap_def)

section \<open>Refinement\<close>

text \<open>
  The composition refines its stores: whatever mix of order creations, cancellations,
  wallet calls and market calls has run, with whatever outcomes and cancelled contexts, the
  wallets are in a state of the ledger's own runs, the orders in a state of the matching
  engine's own runs and the markets in a state of the market store's own runs. Every
  invariant of a store therefore holds in the composition.
\<close>

theorem exchange_refines_stores:
  assumes "world_reachable s"
  shows "wallet_reachable (ow_wallets s) \<and> order_reachable (ow_orders s)
    \<and> market_step\<^sup>*\<^sup>* [] (ow_markets s)"
  using world_refines_run [OF assms] .

theorem exchange_refines_stores_witness:
  "order_reachable (ow_orders (snd (orderCreate (\<lambda>_. False) (\<lambda>_. 9) (replicate 16 1) (Some demo_bid) demo_world)))"
proof -
  have "world_reachable (snd (orderCreate (\<lambda>_. False) (\<lambda>_. 9) (replicate 16 1) (Some demo_bid) demo_world))"
    using demo_world_reachable world_step.create [OF demo_fits]
    unfolding world_reachable_def by (meson rtranclp.rtrancl_into_rtrancl)
  then show ?thesis using exchange_refines_stores by blast
qed

section \<open>Money\<close>

text \<open>
  C17: Creating or cancelling an order, whatever happens on the way (validation errors,
  refusals, contexts that end between two calls, failing releases), never changes what any
  account holds: its available plus its locked cents.
\<close>

theorem order_calls_keep_holdings:
  assumes "world_reachable s"
    and "s' = snd (orderCreate ctx now random req s) \<or> s' = snd (orderCancel ctx now i s)"
  shows "map_option (\<lambda>(a, l). a + l) (account (ow_wallets s') k)
    = map_option (\<lambda>(a, l). a + l) (account (ow_wallets s) k)"
proof -
  have "ledger_inv (ow_wallets s)" using world_inv [OF assms(1)] by simp
  then have "mem.holdings (ow_wallets s') = mem.holdings (ow_wallets s)"
    using assms(2) orderCreate_moves orderCancel_moves moves_only_holdings by metis
  then show ?thesis by (metis mem.holdings_def)
qed

theorem order_calls_keep_holdings_witness:
  "map_option (\<lambda>(a, l). a + l) (account (ow_wallets (snd (orderCreate (\<lambda>_. False) (\<lambda>_. 9)
     (replicate 16 1) (Some demo_bid) demo_world))) demo_key) = Some 2500"
  using order_calls_keep_holdings [OF demo_world_reachable disjI1 [OF refl], where k = demo_key] demo_account by simp

section \<open>A creation that passes every check\<close>

lemma orderUnlock_none: "keyed v \<Longrightarrow> \<exists>e. orderUnlock d t v (CentsToFloat 0) s = (Inl e, s) \<and> \<not> is_panic e"
  by (simp add: orderUnlock_def walletUnlock_def keyed_def normalizeAmount_def CentsFromFloat_def scaledFromFloat_def f_le_def)

lemma orderUnlock_short:
  assumes "ledger_inv (ow_wallets s)" "keyed v" "account (ow_wallets s) (order_key v) = Some (a, l)" "l < x" "x < moneyCap"
  shows "\<exists>e. orderUnlock False t v (CentsToFloat x) s = (Inl e, s) \<and> \<not> is_panic e"
proof -
  have inv: "wallet_inv (ow_wallets s)" using ledger_wallet_inv [OF assms(1)] .
  have "0 < x" using mem.acct_bounds [OF inv assms(3)] assms(4) by simp
  then have "walletUnlock (\<lambda>_. False) (o_MerchantID v) (o_UserID v) (o_Currency v) (CentsToFloat x) t (ow_wallets s)
      = wrap_result ''unlock wallet balance'' (memUnlock (order_key v) x t (ow_wallets s))"
    using walletUnlock_memUnlock [where ctx = "\<lambda>_. False"] assms(2) CentsFromFloat_pos' [OF _ assms(5)]
    by (simp add: keyed_def)
  then show ?thesis using mem.unlock_short [OF inv assms(3-5), of t] by (simp add: orderUnlock_def)
qed

lemma releaseRemainder_short:
  assumes "ledger_inv (ow_wallets s)" "order_ok v" "keyed v" "account (ow_wallets s) (order_key v) = Some (a, l)"
    "o_Status v = ''cancelled''" "remainder_coll v = 0 \<or> l < remainder_coll v" "\<not> ctx AtRemainder"
  shows "\<exists>e. releaseRemainder ctx now v s = (Inl (Wrapped ''unlock IOC remainder'' e), s)"
proof -
  have x: "exact v" using assms(2) by (simp add: order_ok_def)
  have r: "0 < rem v" "rem v < shareCap"
    using assms(2,5) rem_bounds [OF x] by (auto simp: order_ok_def status_ok_def rem_def)
  have nz: "\<not> f_eq (SharesToFloat (rem v)) (Fin 0)"
  proof
    assume "f_eq (SharesToFloat (rem v)) (Fin 0)"
    then have "SharesToFloat (rem v) = Fin 0" by (simp add: f_eq_Fin_0)
    then show False using storedShareUnits_SharesToFloat [of "rem v"] r by simp
  qed
  have sh: "remainingShares (o_Amount v) (o_FilledAmount v) = Inr (SharesToFloat (rem v))"
    by (simp add: remainingShares_def exact_rem [OF x])
  have rc: "remainder_coll v = coll v (rem v)" using assms(5) by (simp add: remainder_coll_def)
  have cap: "coll v (rem v) < moneyCap" using coll_bounds [OF x] r by simp
  obtain e where "orderUnlock False (now AtRemainder) v (CentsToFloat (coll v (rem v))) s = (Inl e, s)" "\<not> is_panic e"
    using assms(6) orderUnlock_none [OF assms(3)] orderUnlock_short [OF assms(1,3,4) _ cap] unfolding rc by metis
  then show ?thesis
    using assms(5,7) sh nz collateral_exact(2) [OF x less_imp_le [OF r(1)] r(2)] by (simp add: releaseRemainder_def)
qed

lemma sum_zip_le:
  assumes "\<forall>(k, x) \<in> set (zip ks xs). 2 * f k x \<le> (x :: int)" "\<forall>x \<in> set xs. 0 \<le> x"
  shows "2 * (\<Sum>(k, x) \<leftarrow> zip ks xs. f k x) \<le> sum_list xs"
  using assms
proof (induction ks arbitrary: xs)
  case (Cons k ks)
  show ?case
  proof (cases xs)
    case (Cons x ys)
    then have "2 * (\<Sum>(k, x) \<leftarrow> zip ks ys. f k x) \<le> sum_list ys" using Cons.prems by (intro Cons.IH) auto
    moreover have "2 * f k x \<le> x" using Cons.prems(1) Cons by simp
    ultimately show ?thesis using Cons by simp
  qed simp
qed (simp add: sum_list_nonneg)

lemma place_refund_small:
  assumes "entries_ok os" "fresh_order v os"
  shows "place_refund v os < moneyCap"
proof -
  have v: "exact v" using assms(2) by (simp add: fresh_order_def)
  let ?os1 = "put (o_ID v) v os"
  have fills: "\<forall>x \<in> set (place_fills v os). 0 \<le> x"
    unfolding place_fills_def match_fills_def
    by (rule allocate_nonneg [OF taker_rem [OF assms(2)] place_rems [OF assms]])
  have ex: "exact (look ?os1 k)" if "k \<in> set (place_mids v os)" for k
    using maker_okD [of ?os1 k] place_loop_prems(2) [OF assms] that by (simp add: order_ok_def)
  have half: "2 * refund_of v w x \<le> x" if w: "exact w" "0 \<le> x" for w x
  proof -
    have p: "0 < prc v" "prc v < 1000000" "0 < prc w" "prc w < 1000000"
      using v w by (auto simp: exact_def price_def PriceScale_def)
    have h: "2 * half_up (x * d * 100) (10 ^ 12) \<le> x" if "0 \<le> d" "d \<le> 1000000" for d
    proof -
      have "x * d \<le> x * 1000000" using that w(2) by (intro mult_left_mono) simp_all
      moreover have "2 * 10 ^ 12 * half_up (x * d * 100) (10 ^ 12) \<le> 2 * (x * d * 100) + 10 ^ 12"
        by (rule half_up_bounds(2)) simp
      ultimately show ?thesis using w(2) by (cases "half_up (x * d * 100) (10 ^ 12) \<le> 0") simp_all
    qed
    show ?thesis using p h w(2) by (simp add: refund_of_def Let_def)
  qed
  have each: "2 * refund_of v (look ?os1 k) x \<le> x" if "(k, x) \<in> set (zip (place_mids v os) (place_fills v os))" for k x
    using half [OF ex [OF set_zip_leftD [OF that]]] set_zip_rightD [OF that] fills by blast
  have "2 * place_refund v os \<le> sum_list (place_fills v os)"
    unfolding place_refund_def match_refund_def place_fills_def [symmetric]
    by (rule sum_zip_le [OF _ fills]) (use each in auto)
  also have "\<dots> \<le> amt v" using exact_placed_raw [OF assms] by simp
  also have "\<dots> < shareCap" using v by (auto simp: exact_def shares_def)
  finally show ?thesis by (simp add: shareCap_def moneyCap_def)
qed

text \<open>
  The end of a creation whose order is placed, with \<open>locked\<close> cents locked by then: the release that
  could not be made, if any, and the cents given back.
\<close>

definition creation_end :: "order \<Rightarrow> orders \<Rightarrow> int \<Rightarrow> string option \<times> int" where
  "creation_end v os locked =
     (let refund = place_refund v os; w = placed_order v os; left = remainder_coll w in
      if locked < refund then (Some ''refund order price improvement'', 0)
      else if o_Status w = ''cancelled'' \<and> (left = 0 \<or> locked - refund < left) then (Some ''unlock IOC remainder'', refund)
      else (None, refund + left))"

lemma afterPlace_end:
  assumes "ledger_inv (ow_wallets s)" "entries_ok os" "fresh_order v os" "keyed v"
    "account (ow_wallets s) (order_key v) = Some (a, l)" "\<not> ctx AtRemainder" "\<not> ctx AtRefund"
  shows "\<exists>x ws. afterPlace ctx now (CentsToFloat (place_refund v os)) (placed_order v os) s = (x, s\<lparr>ow_wallets := ws\<rparr>)
    \<and> (case creation_end v os l of (failed, given) \<Rightarrow>
        (case failed of None \<Rightarrow> x = Inr (placed_order v os) | Some m \<Rightarrow> \<exists>e. x = Inl (Wrapped m e))
        \<and> account ws = (account (ow_wallets s))(order_key v \<mapsto> (a + given, l - given)))"
proof -
  let ?w = "placed_order v os" and ?x = "place_refund v os"
  note w = placed_exact(1) [OF assms(2,3)] and x0 = place_refund_nonneg [OF assms(2,3)] and cap = place_refund_small [OF assms(2,3)]
  have k: "keyed ?w" "order_key ?w = order_key v" using assms(4) by simp_all
  have acc: "account (ow_wallets s) (order_key ?w) = Some (a, l)" using assms(5) by simp
  have l0: "0 \<le> l" using mem.acct_bounds [OF ledger_wallet_inv [OF assms(1)] assms(5)] by simp
  have self: "s\<lparr>ow_wallets := ow_wallets s\<rparr> = s" by simp
  show ?thesis
  proof (cases "l < ?x")
    case True
    then have "0 < ?x" using l0 by simp
    moreover obtain e where "orderUnlock False (now AtRefund) ?w (CentsToFloat ?x) s = (Inl e, s)" "\<not> is_panic e"
      using orderUnlock_short [OF assms(1) k(1) acc True cap] by blast
    ultimately have "afterPlace ctx now (CentsToFloat ?x) ?w s = (Inl (Wrapped ''refund order price improvement'' e), s)"
      using assms(7) CentsToFloat_pos [OF _ cap] by (simp add: afterPlace_def)
    then show ?thesis using True assms(5) self
      by (intro exI [of _ "Inl (Wrapped ''refund order price improvement'' e)"] exI [of _ "ow_wallets s"])
        (auto simp: creation_end_def Let_def)
  next
    case le: False
    let ?r = "remainder_coll ?w"
    obtain s1 where s1: "s1 = s\<lparr>ow_wallets := ow_wallets s1\<rparr>" "ledger_inv (ow_wallets s1)"
      "account (ow_wallets s1) = (account (ow_wallets s))(order_key v \<mapsto> (a + ?x, l - ?x))"
      "afterPlace ctx now (CentsToFloat ?x) ?w s = releaseRemainder ctx now ?w s1"
    proof (cases "?x = 0")
      case True
      then show ?thesis using that [of s] assms(1) map_upd_triv [of "account (ow_wallets s)", OF assms(5)]
        by (simp add: afterPlace_def)
    next
      case False
      then have pos: "0 < ?x" using x0 by simp
      obtain ws where "orderUnlock False (now AtRefund) ?w (CentsToFloat ?x) s = (Inr (), s\<lparr>ow_wallets := ws\<rparr>)"
        "account ws = (account (ow_wallets s))(order_key v \<mapsto> (a + ?x, l - ?x))" "ledger_inv ws"
        using orderUnlock_ok [OF assms(1) k(1) pos _ acc, of "now AtRefund"] le k(2) by (metis not_less)
      then show ?thesis
        using that [of "s\<lparr>ow_wallets := ws\<rparr>"] assms(7) CentsToFloat_pos [OF pos cap] by (simp add: afterPlace_def)
    qed
    have acc1: "account (ow_wallets s1) (order_key ?w) = Some (a + ?x, l - ?x)" using s1(3) by simp
    show ?thesis
    proof (cases "o_Status ?w = ''cancelled'' \<and> (?r = 0 \<or> l - ?x < ?r)")
      case True
      then obtain e where "releaseRemainder ctx now ?w s1 = (Inl (Wrapped ''unlock IOC remainder'' e), s1)"
        using releaseRemainder_short [OF s1(2) w k(1) acc1] assms(6) by blast
      then show ?thesis using True le s1(1,3,4)
        by (intro exI [of _ "Inl (Wrapped ''unlock IOC remainder'' e)"] exI [of _ "ow_wallets s1"])
          (simp add: creation_end_def Let_def)
    next
      case False
      have "0 \<le> ?r" using coll_bounds [of ?w] rem_bounds [of ?w] w by (simp add: remainder_coll_def order_ok_def)
      then have r: "?r \<le> l - ?x" "o_Status ?w = ''cancelled'' \<Longrightarrow> 0 < ?r"
        using False le by (auto simp: remainder_coll_def split: if_splits)
      obtain ws where "releaseRemainder ctx now ?w s1 = (Inr ?w, s1\<lparr>ow_wallets := ws\<rparr>)"
        "account ws = (account (ow_wallets s1))(order_key ?w \<mapsto> (a + ?x + ?r, l - ?x - ?r))"
        using releaseRemainder_ok [where ctx = ctx and now = now, OF s1(2) w k(1) acc1 r assms(6)] by metis
      moreover have "s1\<lparr>ow_wallets := ws\<rparr> = s\<lparr>ow_wallets := ws\<rparr>" by (subst s1(1)) simp
      moreover have "creation_end v os l = (None, ?x + ?r)" using False le by (auto simp: creation_end_def Let_def)
      ultimately show ?thesis using s1(3,4)
        by (intro exI [of _ "Inr ?w"] exI [of _ ws]) (simp add: algebra_simps)
    qed
  qed
qed

text \<open>
  C18: what a request does that passes every check, with a live context, on a reachable state, for
  an account that exists and an amount of more than zero and below the cap. When its collateral
  rounds to zero cents, or is more than the account has available, the call fails at the lock and
  no store has changed. Otherwise the order is placed on the book, the collateral is locked, and
  what \<open>creation_end\<close> says is given back: the price improvement and, for an order cancelled on the
  spot, the collateral of its unfilled part. The call succeeds when both could be given back. It
  fails with the order placed when the improvement is more than the account has locked, or the
  unfilled part has zero cents of collateral or more than is still locked.
\<close>

theorem order_create_effect:
  assumes "world_reachable s" "create_ready ctx now random req s input v"
    and "shares (oq_Amount input) n" "0 < n" "map_of (ow_orders s) (o_ID v) = None"
    and "account (ow_wallets s) (order_key v) = Some (a, l)"
  shows "if coll v n = 0 \<or> a < coll v n
    then \<exists>e. orderCreate ctx now random req s = (Inl (Wrapped ''lock order balance'' e), s)
      \<and> (0 < coll v n \<longrightarrow> e = Wrapped ''lock wallet balance'' (Sentinel WalletErrInsufficientBalance))
    else \<exists>x s'. orderCreate ctx now random req s = (x, s') \<and> ow_markets s' = ow_markets s
      \<and> orderRepoPlace False v (ow_orders s)
          = (Inr (CentsToFloat (place_refund v (ow_orders s)), placed_order v (ow_orders s)), ow_orders s')
      \<and> (case creation_end v (ow_orders s) (l + coll v n) of (failed, given) \<Rightarrow>
          (case failed of None \<Rightarrow> x = Inr (placed_order v (ow_orders s)) | Some m \<Rightarrow> \<exists>e. x = Inl (Wrapped m e))
          \<and> account (ow_wallets s') = (account (ow_wallets s))(order_key v \<mapsto> (a - coll v n + given, l + coll v n - given)))"
proof -
  note inv = world_inv [OF assms(1)] and e = ready_exact [OF assms(2-4)] and r = ready_order [OF assms(2)]
  have f: "fresh_order v (ow_orders s)"
    using e(1,3) assms(2,5) ready_order(2,8,9) [OF assms(2)]
    by (auto simp: fresh_order_def create_ready_def ready_order [OF assms(2)])
  let ?c = "coll v n"
  have "0 \<le> amt v" "amt v < shareCap" using e(1) by (auto simp: exact_def shares_def)
  then have cap: "0 \<le> ?c" "?c < moneyCap" using coll_bounds [OF e(1)] e(2) by simp_all
  have ctx: "\<not> ctx AtLock" "\<not> ctx AtPlace" "\<not> ctx AtRefund" "\<not> ctx AtRemainder"
    using assms(2) by (simp_all add: create_ready_def)
  have red: "orderCreate ctx now random req s = lockAndPlace ctx now input v ?c s"
    using orderCreate_reduce [OF assms(2) e(1)] e(2) by simp
  show ?thesis
  proof (cases "?c = 0 \<or> a < ?c")
    case True
    show ?thesis
    proof (cases "?c = 0")
      case zero: True
      have "\<exists>e. walletLock (\<lambda>_. ctx AtLock) (oq_MerchantID input) (oq_UserID input) (oq_Currency input)
          (CentsToFloat 0) (now AtLock) (ow_wallets s) = (Inl e, ow_wallets s) \<and> \<not> is_panic e"
        using r(1-3,11,12) by (simp add: walletLock_def keyed_def normalizeAmount_def CentsFromFloat_def scaledFromFloat_def f_le_def)
      then show ?thesis using zero by (auto simp: red lockAndPlace_def)
    next
      case False
      then show ?thesis
        using orderCreate_effect(1) [OF inv assms(2) f assms(6), unfolded e(2)] True cap by auto
    qed
  next
    case False
    then have pos: "0 < ?c" and enough: "?c \<le> a" using cap by auto
    have key: "validateWalletKey (oq_MerchantID input) (oq_UserID input) (oq_Currency input) = Inr (order_key v)"
      using r(1-3,11,12) by (simp add: keyed_def)
    obtain w1 where w1: "walletLock (\<lambda>_. False) (oq_MerchantID input) (oq_UserID input) (oq_Currency input)
        (CentsToFloat ?c) (now AtLock) (ow_wallets s) = (Inr (), w1)"
      "account w1 = (account (ow_wallets s))(order_key v \<mapsto> (a - ?c, l + ?c))" "ledger_inv w1"
      using walletLock_cents(1) [OF inv(1) key pos cap(2) assms(6) enough] by blast
    obtain os' where os': "orderRepoPlace False v (ow_orders s)
        = (Inr (CentsToFloat (place_refund v (ow_orders s)), placed_order v (ow_orders s)), os')"
      using place_result [OF inv(2) f] by metis
    let ?s = "s\<lparr>ow_wallets := w1, ow_orders := os'\<rparr>"
    have i: "ledger_inv (ow_wallets ?s)" and acc: "account (ow_wallets ?s) (order_key v) = Some (a - ?c, l + ?c)"
      using w1 by simp_all
    obtain x ws where
      ap: "afterPlace ctx now (CentsToFloat (place_refund v (ow_orders s))) (placed_order v (ow_orders s)) ?s = (x, ?s\<lparr>ow_wallets := ws\<rparr>)"
      and cse: "case creation_end v (ow_orders s) (l + ?c) of (failed, given) \<Rightarrow>
        (case failed of None \<Rightarrow> x = Inr (placed_order v (ow_orders s)) | Some m \<Rightarrow> \<exists>e. x = Inl (Wrapped m e))
        \<and> account ws = (account (ow_wallets ?s))(order_key v \<mapsto> (a - ?c + given, l + ?c - given))"
      using afterPlace_end [where ctx = ctx and now = now, OF i inv(2) f r(12) acc ctx(4,3)] by (elim exE conjE) (rule that)
    have "orderCreate ctx now random req s = (x, ?s\<lparr>ow_wallets := ws\<rparr>)"
      using w1(1) os' ctx ap by (simp add: red lockAndPlace_def)
    then show ?thesis using False os' cse w1(2) by (auto split: prod.splits)
  qed
qed

lemma demo_key_order [simp]: "order_key demo_placed = demo_key"
  by (simp add: demo_placed_def demo_input_def orderFromRequest_def order_key_def demo_key_def)

lemma demo_exact: "exact demo_placed" "amt demo_placed = 10000000" "fil demo_placed = 0"
  using ready_exact [OF demo_ready demo_shares] by simp_all

lemma demo_prc: "prc demo_placed = 500000"
proof -
  have "price (o_Price demo_placed) 500000"
    by (simp add: price_def PriceScale_def demo_placed_def demo_input_def orderFromRequest_def)
  then show ?thesis by (simp add: prc_def price_of_price)
qed

lemma demo_coll: "coll demo_placed 10000000 = 500"
  by (simp add: coll_def demo_prc) code_simp

lemma demo_placed_alone: "placed_order demo_placed [] = demo_placed" "place_refund demo_placed [] = 0"
proof -
  have "place_mids demo_placed [] = []" by code_simp
  then show "placed_order demo_placed [] = demo_placed" "place_refund demo_placed [] = 0"
    using demo_exact
    by (simp_all add: placed_order_def place_fills_def match_fills_def place_refund_def match_refund_def finish_def)
      (simp add: demo_placed_def orderFromRequest_def demo_input_def)
qed

lemma demo_end: "creation_end demo_placed [] 500 = (None, 0)"
proof -
  have "o_Status demo_placed = ''pending''" by (simp add: demo_placed_def orderFromRequest_def)
  then show ?thesis by (simp add: creation_end_def demo_placed_alone remainder_coll_def)
qed

theorem order_create_effect_witness:
  "\<exists>v' s'. orderCreate (\<lambda>_. False) (\<lambda>_. 9) (replicate 16 1) (Some demo_bid) demo_world = (Inr v', s')
     \<and> account (ow_wallets s') demo_key = Some (2000, 500)"
proof -
  have "account (ow_wallets demo_world) (order_key demo_placed) = Some (2500, 0)" using demo_account by simp
  from order_create_effect [OF demo_world_reachable demo_ready demo_shares _ _ this]
  show ?thesis using demo_coll demo_end by auto
qed

section \<open>Idempotency\<close>

lemma afterPlace_result:
  "afterPlace ctx now p v s = (Inr w, s') \<Longrightarrow> w = v \<and> ow_orders s' = ow_orders s"
  using afterPlace_only [of s ctx now p v]
  by (auto simp: afterPlace_def releaseRemainder_def wallets_only_def split: if_splits sum.splits prod.splits)

lemma place_success:
  assumes "orderRepoPlace d v os = (Inr (p, w), os')" "new_order v" "entries_ok os"
  shows "fresh_order v os \<and> map_of os' (o_ID v) = Some w \<and> same_terms v w \<and> w = placed_order v os"
proof -
  have f: "\<not> d" "fresh_order v os"
    using assms(1,2) by (auto simp: orderRepoPlace_def fresh_order_def new_order_def split: if_splits)
  obtain x where "orderRepoPlace False v os
      = (Inr (CentsToFloat (place_refund v os), placed_order v os), x)" "map_of x = placed v os"
    using place_result [OF assms(3) f(2)] by metis
  then show ?thesis using assms(1) f same_terms_placed [of v os] by (simp add: placed_def)
qed

lemma found_by_key:
  assumes "orderRepoGetByIdempotency d m key os = Inr v" "distinct_keys os"
  shows "\<exists>k. map_of os k = Some v \<and> o_MerchantID v = m \<and> o_IdempotencyKey v = key"
proof -
  let ?P = "\<lambda>(i :: string, w). o_MerchantID w = m \<and> o_IdempotencyKey w = key"
  obtain i where "find ?P os = Some (i, v)"
    using assms(1) by (auto simp: orderRepoGetByIdempotency_def split: if_splits option.splits)
  then have "(i, v) \<in> set os" "?P (i, v)" by (auto simp: find_Some_iff in_set_conv_nth)
  then show ?thesis using in_set_map_of [OF assms(2)] by auto
qed

lemma lockAndPlace_stored:
  assumes "lockAndPlace ctx now input v c s = (Inr w, s1)" "new_order v \<or> c = 0" "entries_ok (ow_orders s)"
    "o_MerchantID v = oq_MerchantID input" "o_IdempotencyKey v = oq_IdempotencyKey input"
  shows "\<exists>k. map_of (ow_orders s1) k = Some w \<and> o_MerchantID w = oq_MerchantID input
    \<and> o_IdempotencyKey w = oq_IdempotencyKey input"
proof -
  obtain r ws where l: "walletLock (\<lambda>_. ctx AtLock) (oq_MerchantID input) (oq_UserID input)
      (oq_Currency input) (CentsToFloat c) (now AtLock) (ow_wallets s) = (r, ws)" by fastforce
  obtain u where r: "r = Inr u" using assms(1) l by (cases r) (auto simp: lockAndPlace_def Let_def)
  then have v: "new_order v"
    using assms(2) l lock_nothing [of "\<lambda>_. ctx AtLock" "oq_MerchantID input" "oq_UserID input"
        "oq_Currency input" "now AtLock" "ow_wallets s"] by auto
  obtain pr os where p: "orderRepoPlace (ctx AtPlace) v (ow_orders s) = (pr, os)" by fastforce
  show ?thesis
  proof (cases pr)
    case (Inl e)
    let ?s3 = "snd (orderUnlock (ctx AtRelease) (now AtRelease) v (CentsToFloat c)
      (s\<lparr>ow_wallets := ws, ow_orders := os\<rparr>))"
    have "idempotentExistingOrder (ctx AtLookup) input e (ow_orders ?s3) = Some w" and s1: "s1 = ?s3"
      using assms(1) l r p Inl by (auto simp: lockAndPlace_def Let_def split: if_splits option.splits)
    then have g: "orderRepoGetByIdempotency (ctx AtLookup) (oq_MerchantID input) (oq_IdempotencyKey input) os = Inr w"
      by (auto simp: idempotentExistingOrder_def split: if_splits sum.splits)
    have os: "order_step (ow_orders s) os" using order_step.place [OF v] p by (metis snd_conv)
    have "distinct_keys os"
    proof (cases "fresh_order v (ow_orders s) \<and> \<not> ctx AtPlace")
      case True
      then show ?thesis using place_result [OF assms(3)] p by (metis snd_conv)
    next
      case False
      then show ?thesis using place_refused [OF v] assms(3) p by (metis snd_conv entries_ok_def)
    qed
    from found_by_key [OF g this] show ?thesis using s1 by simp
  next
    case (Inr q)
    obtain f w' where q: "q = (f, w')" by fastforce
    have "afterPlace ctx now f w' (s\<lparr>ow_wallets := ws, ow_orders := os\<rparr>) = (Inr w, s1)"
      using assms(1) l r p Inr q by (simp add: lockAndPlace_def Let_def)
    then have a: "w = w'" "ow_orders s1 = os" using afterPlace_result by fastforce+
    then have "map_of (ow_orders s1) (o_ID v) = Some w \<and> same_terms v w"
      using place_success [OF _ v assms(3)] p Inr q by simp
    then show ?thesis using same_terms_fields(2,3) assms(4,5) by metis
  qed
qed

lemma created_order_stored:
  assumes "world_reachable s" "amount_fits req" "orderValidateCreateRequest req = Inr input"
    "orderCreate ctx now random req s = (Inr v, s1)" "oq_IdempotencyKey input \<noteq> []"
  shows "\<exists>k. map_of (ow_orders s1) k = Some v \<and> o_MerchantID v = oq_MerchantID input
    \<and> o_IdempotencyKey v = oq_IdempotencyKey input"
proof (cases "orderRepoGetByIdempotency (ctx AtIdempotency) (oq_MerchantID input) (oq_IdempotencyKey input) (ow_orders s)")
  case (Inr w)
  have "distinct_keys (ow_orders s)" using world_inv(2) [OF assms(1)] by (simp add: entries_ok_def)
  from found_by_key [OF Inr this] show ?thesis using assms(3-5) Inr by (auto simp: orderCreate_def)
next
  case (Inl e)
  have "orderCreateNew ctx now random input s = (Inr v, s1)"
    using assms(3-5) Inl by (auto simp: orderCreate_def split: if_splits)
  then obtain i c where l: "lockAndPlace ctx now input (orderFromRequest input i (now AtPlace)) c s = (Inr v, s1)"
    "requiredCollateralCents (oq_Type input) (oq_Amount input) (oq_Price input) = Inr c"
    by (auto simp: orderCreateNew_def Let_def split: sum.splits if_splits)
  have "new_order (orderFromRequest input i (now AtPlace)) \<or> c = 0"
    using placeable_or_free [OF assms(2,3) l(2)] .
  from lockAndPlace_stored [OF l(1) this world_inv(2) [OF assms(1)]]
  show ?thesis by (simp add: orderFromRequest_def)
qed

lemma existing_by_key:
  assumes "keys_name_orders os" "map_of os k = Some v" "o_IdempotencyKey v \<noteq> []" "distinct_keys os"
  shows "orderRepoGetByIdempotency False (o_MerchantID v) (o_IdempotencyKey v) os = Inr v"
proof -
  let ?P = "\<lambda>(i :: string, w). o_MerchantID w = o_MerchantID v \<and> o_IdempotencyKey w = o_IdempotencyKey v"
  have "(k, v) \<in> set os" using assms(2) by (rule map_of_SomeD)
  then have "find ?P os \<noteq> None" by (auto simp: find_None_iff)
  then obtain i w where f: "find ?P os = Some (i, w)" by (cases "find ?P os") auto
  then have "(i, w) \<in> set os" "?P (i, w)"
    by (auto simp: find_Some_iff in_set_conv_nth)
  then have "i = k" using assms in_set_map_of [OF assms(4)] unfolding keys_name_orders_def by fastforce
  then have "w = v" using \<open>(i, w) \<in> set os\<close> assms(2) in_set_map_of [OF assms(4)] by auto
  then show ?thesis using f by (simp add: orderRepoGetByIdempotency_def)
qed

text \<open>
  Retrying a creation under its idempotency key is safe: once a creation has
  succeeded, any later creation by the same merchant with the same key, after any further
  calls of the exchange, returns the order of the first (its fill and status as they then
  are, all its terms unchanged) and changes no store: nothing is locked or placed twice.
\<close>

theorem order_create_idempotent:
  assumes "world_reachable s" "amount_fits req" "orderValidateCreateRequest req = Inr input"
    and "orderCreate ctx now random req s = (Inr v, s1)" "oq_IdempotencyKey input \<noteq> []"
    and "world_step\<^sup>*\<^sup>* s1 s2"
    and "orderValidateCreateRequest req2 = Inr input2" "oq_MerchantID input2 = oq_MerchantID input"
    and "oq_IdempotencyKey input2 = oq_IdempotencyKey input" "\<not> ctx2 AtIdempotency"
  shows "\<exists>v2. orderCreate ctx2 now2 random2 req2 s2 = (Inr v2, s2) \<and> same_terms v v2"
proof -
  obtain k where k: "map_of (ow_orders s1) k = Some v" "o_MerchantID v = oq_MerchantID input"
    "o_IdempotencyKey v = oq_IdempotencyKey input"
    using created_order_stored [OF assms(1-5)] by blast
  have "world_step s s1" using world_step.create [OF assms(2)] assms(4) by (metis snd_conv)
  then have r1: "world_reachable s1" and r2: "world_reachable s2"
    using assms(1,6) unfolding world_reachable_def by (meson rtranclp.rtrancl_into_rtrancl rtranclp_trans)+
  have o: "order_reachable (ow_orders s1)" "order_reachable (ow_orders s2)"
    using world_refines_run r1 r2 by blast+
  have "order_step\<^sup>*\<^sup>* (ow_orders s1) (ow_orders s2)" using world_run_orders [OF assms(6)] .
  then obtain v2 where v2: "map_of (ow_orders s2) k = Some v2" "same_terms v v2"
    using order_commits_run store_inv_reachable(1,2) [OF o(1)] k(1) by blast
  have d: "distinct_keys (ow_orders s2)" using world_inv(2) [OF r2] by (simp add: entries_ok_def)
  note t = same_terms_fields(2,3) [OF v2(2)]
  have "orderRepoGetByIdempotency False (oq_MerchantID input2) (oq_IdempotencyKey input2) (ow_orders s2) = Inr v2"
    using existing_by_key [OF reachable_keys [OF o(2)] v2(1) _ d] t k assms(5,8,9) by simp
  then have "orderCreate ctx2 now2 random2 req2 s2 = (Inr v2, s2)"
    using assms(5,7,9,10) by (simp add: orderCreate_def)
  then show ?thesis using v2(2) by blast
qed

definition demo_open :: orderWorld where
  "demo_open = snd (orderCreate (\<lambda>_. False) (\<lambda>_. 9) (replicate 16 1) (Some demo_bid) demo_world)"

lemma demo_open_state:
  "orderCreate (\<lambda>_. False) (\<lambda>_. 9) (replicate 16 1) (Some demo_bid) demo_world = (Inr demo_placed, demo_open)"
  "world_reachable demo_open" "account (ow_wallets demo_open) demo_key = Some (2000, 500)"
  "map_of (ow_orders demo_open) ''01010101-0101-4101-8101-010101010101'' = Some demo_placed"
proof -
  show "world_reachable demo_open"
    using demo_world_reachable world_step.create [OF demo_fits]
    unfolding world_reachable_def demo_open_def by (meson rtranclp.rtrancl_into_rtrancl)
  have st: "o_Status demo_placed = ''pending''" "o_ID demo_placed = ''01010101-0101-4101-8101-010101010101''"
    by (simp_all add: demo_placed_def orderFromRequest_def)
  have f: "fresh_order demo_placed []"
    using demo_exact st by (simp add: fresh_order_def idempotencyTaken_def)
  have rel: "released demo_placed [] = 0"
    using st by (simp add: released_def demo_placed_alone remainder_coll_def)
  have acc: "account (ow_wallets demo_world) (order_key demo_placed) = Some (2500, 0)" using demo_account by simp
  obtain s' where s': "orderCreate (\<lambda>_. False) (\<lambda>_. 9) (replicate 16 1) (Some demo_bid) demo_world = (Inr demo_placed, s')"
    "ow_orders s' = snd (orderRepoPlace False demo_placed [])"
    "account (ow_wallets s') demo_key = Some (2000, 500)"
    using orderCreate_effect(2) [OF world_inv [OF demo_world_reachable] demo_ready _ acc] f demo_coll rel st
    by (auto simp: demo_placed_alone demo_exact)
  then show "orderCreate (\<lambda>_. False) (\<lambda>_. 9) (replicate 16 1) (Some demo_bid) demo_world = (Inr demo_placed, demo_open)"
    "account (ow_wallets demo_open) demo_key = Some (2000, 500)" by (simp_all add: demo_open_def)
  obtain x where "orderRepoPlace False demo_placed [] = (Inr (CentsToFloat 0, demo_placed), x)"
    "map_of x = placed demo_placed []"
    using place_result [OF _ f] demo_placed_alone world_inv(2) [OF demo_world_reachable] by auto
  then show "map_of (ow_orders demo_open) ''01010101-0101-4101-8101-010101010101'' = Some demo_placed"
    using s' st demo_placed_alone by (simp add: demo_open_def placed_def)
qed

theorem order_create_idempotent_witness:
  "\<exists>v2. orderCreate (\<lambda>_. False) (\<lambda>_. 11) [] (Some demo_bid) demo_open = (Inr v2, demo_open) \<and> same_terms demo_placed v2"
proof -
  have "oq_IdempotencyKey demo_input \<noteq> []" by (simp add: demo_input_def)
  from order_create_idempotent [OF demo_world_reachable demo_fits demo_validated demo_open_state(1) this
      rtranclp.rtrancl_refl demo_validated refl refl, of "\<lambda>_. False"]
  show ?thesis by simp
qed

section \<open>Failures\<close>

lemma walletLock_cases:
  assumes "ledger_inv r" "validateWalletKey m u cur = Inr key" "0 < c" "c < moneyCap"
    "walletLock ctx m u cur (CentsToFloat c) t r = (q, ws)"
  obtains (refused) e where "q = Inl e" "ws = r"
  | (moved) a l where "q = Inr ()" "account r key = Some (a, l)" "c \<le> a" "ledger_inv ws"
      "account ws = (account r)(key \<mapsto> (a - c, l + c))"
proof (cases "ctx 0")
  case True
  then show ?thesis
    using assms(2,5) CentsFromFloat_pos' [OF assms(3,4)]
    by (intro refused [of "wrap_error ''lock wallet balance'' CtxErr"])
      (auto simp: walletLock_def normalizeAmount_def walletRepoLock_def)
next
  case False
  have inv: "wallet_inv r" using ledger_wallet_inv [OF assms(1)] .
  have w: "walletLock ctx m u cur (CentsToFloat c) t r = wrap_result ''lock wallet balance'' (memLock key c t r)"
    using walletLock_memLock [where ctx = ctx, OF assms(2) CentsFromFloat_pos' [OF assms(3,4)] False] .
  have l: "ledger_inv ws"
    using ledger_walletLock [OF assms(1), of ctx m u cur "CentsToFloat c" t] assms(5) by simp
  have c: "0 \<le> c" using assms(3) by simp
  from inv c assms(4) show ?thesis
  proof (cases rule: mem.lock_cases [where k = key and t = t])
    case (moved a b)
    obtain x y where xy: "memLock key c t r = (x, y)" by fastforce
    then show ?thesis using moved l assms(5) w xy by (intro that(2) [of a b]) auto
  qed (use refused assms(5) w in auto)
qed

lemma unlock_back:
  assumes "ledger_inv r" "ledger_inv ws" "keyed v" "0 < c" "c < moneyCap" "account r (order_key v) = Some (a, l)"
    "account ws = (account r)(order_key v \<mapsto> (a - c, l + c))"
  shows "account (ow_wallets (snd (orderUnlock False t v (CentsToFloat c) (s\<lparr>ow_wallets := ws\<rparr>)))) = account r"
proof -
  have "0 \<le> l" using mem.acct_bounds [OF ledger_wallet_inv [OF assms(1)] assms(6)] by simp
  then obtain x where "orderUnlock False t v (CentsToFloat c) (s\<lparr>ow_wallets := ws\<rparr>)
      = (Inr (), s\<lparr>ow_wallets := ws\<rparr>\<lparr>ow_wallets := x\<rparr>)"
    "account x = (account ws)(order_key v \<mapsto> (a - c + c, l + c - c))"
    using orderUnlock_ok [of "s\<lparr>ow_wallets := ws\<rparr>" v c "l + c" "a - c"] assms by auto
  then show ?thesis using assms(6,7) by auto
qed

text \<open>An error that \<^verbatim>\<open>fmt.Errorf\<close> wrapped with the given message, or a panic that passed through it.\<close>

definition wraps :: "string \<Rightarrow> go_error \<Rightarrow> bool" where
  "wraps m err \<longleftrightarrow> is_panic err \<or> (\<exists>e. err = Wrapped m e)"

lemma wraps_wrap_error: "wraps m (wrap_error m e)"
  by (auto simp: wraps_def)

lemma releaseRemainder_error:
  assumes "releaseRemainder ctx now v s = (Inl err, s')" "order_ok v"
  shows "wraps ''unlock IOC remainder'' err"
proof -
  have x: "exact v" using assms(2) by (simp add: order_ok_def)
  have sh: "remainingShares (o_Amount v) (o_FilledAmount v) = Inr (SharesToFloat (rem v))"
    by (simp add: remainingShares_def exact_rem [OF x])
  have rc: "requiredCollateral (o_Type v) (SharesToFloat (rem v)) (o_Price v) = Inr (CentsToFloat (coll v (rem v)))"
    using collateral_exact(2) [OF x] rem_bounds [OF x] by simp
  obtain r s2 where u: "orderUnlock (ctx AtRemainder) (now AtRemainder) v (CentsToFloat (coll v (rem v))) s = (r, s2)"
    by fastforce
  have "\<exists>e. err = wrap_error ''unlock IOC remainder'' e"
    using assms(1) u by (cases r) (auto simp: releaseRemainder_def sh rc simp del: wrap_error.simps split: if_splits)
  then show ?thesis using wraps_wrap_error by blast
qed

lemma afterPlace_error:
  assumes "afterPlace ctx now p v s = (Inl err, s')" "order_ok v"
  shows "wraps ''refund order price improvement'' err \<or> wraps ''unlock IOC remainder'' err"
proof (cases "f_lt (Fin 0) p")
  case False
  then have "releaseRemainder ctx now v s = (Inl err, s')" using assms(1) by (simp add: afterPlace_def)
  then show ?thesis using releaseRemainder_error assms(2) by blast
next
  case True
  obtain r s2 where u: "orderUnlock (ctx AtRefund) (now AtRefund) v p s = (r, s2)" by fastforce
  show ?thesis
  proof (cases r)
    case (Inl e)
    then have "err = wrap_error ''refund order price improvement'' e"
      using assms(1) True u by (simp add: afterPlace_def del: wrap_error.simps)
    then show ?thesis using wraps_wrap_error by blast
  next
    case (Inr y)
    then have "releaseRemainder ctx now v s2 = (Inl err, s')" using assms(1) True u by (simp add: afterPlace_def)
    then show ?thesis using releaseRemainder_error assms(2) by blast
  qed
qed

lemma place_error:
  assumes "orderRepoPlace d v os = (Inl e, os')" "new_order v" "entries_ok os"
  shows "os' = os \<and> \<not> is_panic e"
proof (cases "fresh_order v os \<and> \<not> d")
  case True
  obtain x where "orderRepoPlace False v os = (Inr (CentsToFloat (place_refund v os), placed_order v os), x)"
    using place_result [OF assms(3)] True by blast
  then show ?thesis using assms(1) True by simp
next
  case False
  then have "snd (orderRepoPlace d v os) = os" using place_refused [OF assms(2)] by blast
  moreover have "d \<or> map_of os (o_ID v) \<noteq> None \<or> (o_IdempotencyKey v \<noteq> []
      \<and> idempotencyTaken (o_MerchantID v) (o_IdempotencyKey v) os)"
    using False assms(2) unfolding fresh_order_def new_order_def by argo
  then have "fst (orderRepoPlace d v os) \<in> {Inl CtxErr, Inl (Sentinel OrderErrAlreadyExists)}"
    by (elim disjE) (simp_all add: orderRepoPlace_def)
  ultimately show ?thesis using assms(1) by auto
qed

lemma orderUnlock_over:
  assumes "keyed v" "0 < x" "x < moneyCap"
  shows "snd (orderUnlock True t v (CentsToFloat x) s) = s"
  using assms CentsFromFloat_pos' [OF assms(2,3)]
  by (simp add: orderUnlock_def walletUnlock_def keyed_def normalizeAmount_def walletRepoUnlock_def)

text \<open>The collateral of an order that is not on the book stays locked.\<close>

definition left_locked :: "order \<Rightarrow> orderWorld \<Rightarrow> orderWorld \<Rightarrow> bool" where
  "left_locked v s s' \<longleftrightarrow> ow_orders s' = ow_orders s
     \<and> (case account (ow_wallets s) (order_key v) of None \<Rightarrow> False
        | Some (a, l) \<Rightarrow> coll v (amt v) \<le> a
            \<and> account (ow_wallets s') = (account (ow_wallets s))(order_key v \<mapsto> (a - coll v (amt v), l + coll v (amt v))))"

lemma lockAndPlace_error:
  assumes "lockAndPlace ctx now input v c s = (Inl err, s')" "new_order v" "keyed v" "c = coll v (amt v)"
    "ledger_inv (ow_wallets s)" "entries_ok (ow_orders s)"
    "order_key v = request_key input" "o_MerchantID v = oq_MerchantID input" "o_UserID v = oq_UserID input"
    "o_Currency v = oq_Currency input"
  shows "ow_orders s' = ow_orders s \<and> account (ow_wallets s') = account (ow_wallets s)
    \<or> (\<exists>p w. orderRepoPlace False v (ow_orders s) = (Inr (p, w), ow_orders s')
        \<and> (wraps ''refund order price improvement'' err \<or> wraps ''unlock IOC remainder'' err))
    \<or> ctx AtRelease \<and> (\<exists>e. err = Wrapped ''place order'' e) \<and> left_locked v s s'"
proof -
  have x: "exact v" using assms(2) by (simp add: new_order_def)
  have sh: "0 \<le> amt v" "amt v < shareCap" using x by (auto simp: exact_def shares_def)
  have cap: "c < moneyCap" "0 \<le> c" using coll_bounds [OF x sh] assms(4) by simp_all
  obtain r ws where l: "walletLock (\<lambda>_. ctx AtLock) (oq_MerchantID input) (oq_UserID input)
      (oq_Currency input) (CentsToFloat c) (now AtLock) (ow_wallets s) = (r, ws)" by fastforce
  show ?thesis
  proof (cases "c = 0")
    case True
    then obtain e where "r = Inl e" "ws = ow_wallets s"
      using l lock_nothing [of "\<lambda>_. ctx AtLock" "oq_MerchantID input" "oq_UserID input" "oq_Currency input"
        "now AtLock" "ow_wallets s"] by auto
    then show ?thesis using assms(1) l by (simp add: lockAndPlace_def Let_def)
  next
    case False
    then have pos: "0 < c" using cap by simp
    have key: "validateWalletKey (oq_MerchantID input) (oq_UserID input) (oq_Currency input) = Inr (order_key v)"
      using assms(3,8-10) by (simp add: keyed_def)
    from assms(5) key pos cap(1) l show ?thesis
    proof (cases rule: walletLock_cases)
      case (refused e)
      then show ?thesis using assms(1) l by (simp add: lockAndPlace_def Let_def)
    next
      case (moved a b)
      obtain pr os where p: "orderRepoPlace (ctx AtPlace) v (ow_orders s) = (pr, os)" by fastforce
      let ?s2 = "s\<lparr>ow_orders := os, ow_wallets := ws\<rparr>"
      have s2: "s\<lparr>ow_wallets := ws, ow_orders := os\<rparr> = ?s2" by simp
      show ?thesis
      proof (cases pr)
        case (Inl e)
        note pe = place_error [OF p [unfolded Inl] assms(2,6)]
        have s': "s' = snd (orderUnlock (ctx AtRelease) (now AtRelease) v (CentsToFloat c) ?s2)" "err = Wrapped ''place order'' e"
          using assms(1) l moved(1) p Inl pe
          by (auto simp: lockAndPlace_def Let_def s2 split: option.splits)
        show ?thesis
        proof (cases "ctx AtRelease")
          case True
          then have "s' = ?s2" using s'(1) orderUnlock_over [OF assms(3) pos cap(1)] by simp
          then show ?thesis using True s'(2) pe moved(2,3,5) assms(4) by (simp add: left_locked_def)
        next
          case False
          then show ?thesis
            using s'(1) unlock_back [OF assms(5) moved(4) assms(3) pos cap(1) moved(2,5), of "now AtRelease" "s\<lparr>ow_orders := os\<rparr>"] pe
            by simp
        qed
      next
        case (Inr q)
        obtain f w where q: "q = (f, w)" by fastforce
        have a: "afterPlace ctx now f w ?s2 = (Inl err, s')"
          using assms(1) l moved(1) p Inr q by (simp add: lockAndPlace_def Let_def s2)
        have "fresh_order v (ow_orders s)" "w = placed_order v (ow_orders s)"
          using place_success [OF _ assms(2,6)] p Inr q by simp_all
        then have "order_ok w" using placed_exact(1) [OF assms(6)] by simp
        moreover have "ow_orders s' = os"
          using afterPlace_only [of ?s2 ctx now f w] a by (simp add: wallets_only_def)
        moreover have "\<not> ctx AtPlace" using p Inr by (auto simp: orderRepoPlace_def)
        ultimately show ?thesis using afterPlace_error [OF a] p Inr q by auto
      qed
    qed
  qed
qed

text \<open>
  C19: what a creation that fails leaves behind, wherever it fails and whenever its context is
  cancelled, on a reachable state and for an amount below the cap. Either the order book and every
  account are as they were. Or a release failed after the order was placed (the price improvement,
  or the remainder of an immediate-or-cancel order), which the error names; then the book is
  exactly the book with the order placed. Or the order could not be placed and the context was over
  when the lock was to be given back: then the book is as it was and the collateral of an order
  that does not exist stays locked.
\<close>

theorem order_create_error:
  assumes "world_reachable s" "amount_fits req" "orderCreate ctx now random req s = (Inl err, s')"
  shows "ow_orders s' = ow_orders s \<and> account (ow_wallets s') = account (ow_wallets s)
    \<or> (\<exists>v p w. orderRepoPlace False v (ow_orders s) = (Inr (p, w), ow_orders s')
        \<and> (wraps ''refund order price improvement'' err \<or> wraps ''unlock IOC remainder'' err))
    \<or> ctx AtRelease \<and> (\<exists>e. err = Wrapped ''place order'' e) \<and> (\<exists>v. left_locked v s s')"
proof (cases "\<exists>input. orderValidateCreateRequest req = Inr input \<and> orderCreateNew ctx now random input s = (Inl err, s')")
  case False
  then have "s' = s" using assms(3) by (auto simp: orderCreate_def split: sum.splits if_splits)
  then show ?thesis by simp
next
  case True
  then obtain input where val: "orderValidateCreateRequest req = Inr input"
    and new: "orderCreateNew ctx now random input s = (Inl err, s')" by blast
  show ?thesis
  proof (cases "\<exists>i c. lockAndPlace ctx now input (orderFromRequest input i (now AtPlace)) c s = (Inl err, s')
      \<and> requiredCollateralCents (oq_Type input) (oq_Amount input) (oq_Price input) = Inr c")
    case False
    then have "s' = s" using new by (auto simp: orderCreateNew_def Let_def split: sum.splits if_splits)
    then show ?thesis by simp
  next
    case True
    then obtain i c where l: "lockAndPlace ctx now input (orderFromRequest input i (now AtPlace)) c s = (Inl err, s')"
      and c: "requiredCollateralCents (oq_Type input) (oq_Amount input) (oq_Price input) = Inr c" by blast
    let ?v = "orderFromRequest input i (now AtPlace)"
    have f: "o_Type ?v = oq_Type input" "o_Amount ?v = oq_Amount input" "o_Price ?v = oq_Price input"
      "o_MerchantID ?v = oq_MerchantID input" "o_UserID ?v = oq_UserID input" "o_Currency ?v = oq_Currency input"
      "order_key ?v = request_key input"
      by (simp_all add: orderFromRequest_def order_key_def request_key_def)
    show ?thesis
    proof (cases "c = 0")
      case True
      then have "s' = s"
        using l lock_nothing [of "\<lambda>_. ctx AtLock" "oq_MerchantID input" "oq_UserID input" "oq_Currency input"
          "now AtLock" "ow_wallets s"] by (auto simp: lockAndPlace_def Let_def)
      then show ?thesis by simp
    next
      case False
      then have v: "new_order ?v" using placeable_or_free [OF assms(2) val c] by blast
      then have x: "exact ?v" by (simp add: new_order_def)
      obtain n where n: "shares (oq_Amount input) n" using fitting_request [OF assms(2) val] .
      have "shares (o_Amount ?v) (amt ?v)" using x by (simp add: exact_def)
      then have a: "o_Amount ?v = SharesToFloat (amt ?v)" "0 \<le> amt ?v" "amt ?v < shareCap" by (auto simp: shares_def)
      have "c = coll ?v (amt ?v)" using collateral_exact(1) [OF x a(2,3)] a(1) c f by simp
      moreover have "keyed ?v" using validated_request(1) [OF val] f by (simp add: keyed_def)
      ultimately show ?thesis
        using lockAndPlace_error [OF l v _ _ world_inv [OF assms(1)] f(7,4,5,6)] by blast
    qed
  qed
qed

text \<open>A context that is cancelled between the lock and the placement, and stays so.\<close>

definition demo_over :: "createCall \<Rightarrow> bool" where
  "demo_over c \<longleftrightarrow> c \<in> {AtPlace, AtRelease, AtLookup, AtRefund, AtRemainder}"

lemma demo_over_simps [simp]:
  "demo_over AtPlace" "demo_over AtRelease" "demo_over AtLookup" "\<not> demo_over AtIdempotency" "\<not> demo_over AtMarket" "\<not> demo_over AtLock"
  by (simp_all add: demo_over_def)

theorem order_create_error_witness:
  "fst (orderCreate demo_over (\<lambda>_. 9) (replicate 16 1) (Some demo_bid) demo_world) = Inl (Wrapped ''place order'' CtxErr)
   \<and> ow_orders (snd (orderCreate demo_over (\<lambda>_. 9) (replicate 16 1) (Some demo_bid) demo_world)) = []"
proof -
  let ?ctx = demo_over
  have val: "orderValidateCreateRequest (Some demo_bid) = Inr demo_input" by (rule demo_validated)
  have g: "fst (generateUUID (replicate 16 1)) = Inr ''01010101-0101-4101-8101-010101010101''" by code_simp
  have m: "case marketGet (\<lambda>_. ?ctx AtMarket) (oq_MarketID demo_input) demo_markets of
          Inl _ \<Rightarrow> False
        | Inr mk \<Rightarrow> m_MerchantID mk = oq_MerchantID demo_input \<and> m_Status mk = ''active''
            \<and> containsOption (m_Options mk) (oq_Option demo_input)" by code_simp
  have c: "requiredCollateralCents (oq_Type demo_input) (oq_Amount demo_input) (oq_Price demo_input) = Inr 500"
    using collateral_exact(1) [OF demo_exact(1), of 10000000] demo_coll
    by (simp add: shareCap_def) (simp add: demo_placed_def orderFromRequest_def demo_input_def)
  have k: "validateWalletKey (oq_MerchantID demo_input) (oq_UserID demo_input) (oq_Currency demo_input) = Inr demo_key"
    by code_simp
  obtain ws where "walletLock (\<lambda>_. False) (oq_MerchantID demo_input) (oq_UserID demo_input) (oq_Currency demo_input)
      (CentsToFloat 500) 9 demo_funded = (Inr (), ws)"
    using walletLock_cents(1) [OF world_inv(1) [OF demo_world_reachable, simplified] k _ _ demo_account, of 500 9]
    by (auto simp: moneyCap_def)
  then have n: "fst (orderCreateNew ?ctx (\<lambda>_. 9) (replicate 16 1) demo_input demo_world)
      = Inl (Wrapped ''place order'' CtxErr)"
    using g m c by (auto simp: orderCreateNew_def lockAndPlace_def orderRepoPlace_def
        idempotentExistingOrder_def Let_def split: sum.splits)
  have "errorsIs (Sentinel OrderErrNotFound) OrderErrNotFound" by code_simp
  then have "orderCreate ?ctx (\<lambda>_. 9) (replicate 16 1) (Some demo_bid) demo_world
      = orderCreateNew ?ctx (\<lambda>_. 9) (replicate 16 1) demo_input demo_world"
    using val by (simp add: orderCreate_def orderRepoGetByIdempotency_def)
  then obtain s' where e: "orderCreate ?ctx (\<lambda>_. 9) (replicate 16 1) (Some demo_bid) demo_world
      = (Inl (Wrapped ''place order'' CtxErr), s')" using n by (metis prod.collapse)
  then show ?thesis
    using order_create_error [OF demo_world_reachable demo_fits e] e by (auto simp: wraps_def left_locked_def)
qed

section \<open>Cancelling\<close>

text \<open>
  Cancelling a stored order that is open gives its account back exactly the collateral
  of its unfilled part and marks it cancelled, touching no other account and no other order;
  an order that is filled or cancelled is refused and nothing changes, so no collateral is
  given back twice.
\<close>

theorem order_cancel_effect:
  assumes "world_reachable s" "validateUUIDField ''order_id'' i = Inr k" "map_of (ow_orders s) k = Some v"
    and "account (ow_wallets s) (order_key v) = Some (a, l)" "keyed v"
    and "0 < coll v (amt v - fil v)" "coll v (amt v - fil v) \<le> l"
    and "\<not> ctx AtCancel" "\<not> ctx AtRemainder"
  shows "if o_Status v = ''pending'' \<or> o_Status v = ''partial''
    then \<exists>s'. orderCancel ctx now i s = (Inr (), s')
        \<and> map_of (ow_orders s') = (map_of (ow_orders s))(k \<mapsto> v\<lparr>o_Status := ''cancelled''\<rparr>)
        \<and> account (ow_wallets s') = (account (ow_wallets s))(order_key v \<mapsto>
            (a + coll v (amt v - fil v), l - coll v (amt v - fil v)))
        \<and> orderCancel ctx now i s' = (Inl (Wrapped ''cancel order'' (Sentinel OrderErrNotCancellable)), s')
    else orderCancel ctx now i s = (Inl (Wrapped ''cancel order'' (Sentinel OrderErrNotCancellable)), s)"
proof -
  note inv = world_inv [OF assms(1)]
  note spec = cancel_spec [OF inv(2) assms(3)]
  show ?thesis
  proof (cases "is_open v")
    case False
    then show ?thesis using spec assms(2,8) by (auto simp: orderCancel_def is_open_def)
  next
    case True
    have ok: "order_ok v" using entries_okD [OF inv(2) assms(3)] by simp
    then have x: "exact v" by (simp add: order_ok_def)
    have r: "0 < rem v" "rem v < shareCap" using open_rem [OF ok] True rem_bounds [OF x] by simp_all
    let ?v = "v\<lparr>o_Status := ''cancelled''\<rparr>" and ?os = "put k (v\<lparr>o_Status := ''cancelled''\<rparr>) (ow_orders s)"
    have c: "orderRepoCancel False k (ow_orders s) = (Inr (?v, SharesToFloat (rem v)), ?os)"
      using spec True by (simp add: rem_def)
    have nz: "\<not> f_eq (SharesToFloat (rem v)) (Fin 0)"
      using storedShareUnits_SharesToFloat [of "rem v"] r by (auto simp: f_eq_Fin_0)
    have rc: "requiredCollateral (o_Type v) (SharesToFloat (rem v)) (o_Price v) = Inr (CentsToFloat (coll v (rem v)))"
      using collateral_exact(2) [OF x] r by simp
    have kv: "keyed ?v" "order_key ?v = order_key v" using assms(5) by (simp_all add: keyed_def order_key_def)
    have m: "coll v (rem v) = coll v (amt v - fil v)" by (simp add: rem_def)
    obtain ws where ws: "orderUnlock False (now AtRemainder) ?v (CentsToFloat (coll v (rem v))) (s\<lparr>ow_orders := ?os\<rparr>)
        = (Inr (), s\<lparr>ow_orders := ?os\<rparr>\<lparr>ow_wallets := ws\<rparr>)"
      "account ws = (account (ow_wallets s))(order_key v \<mapsto> (a + coll v (rem v), l - coll v (rem v)))"
      using orderUnlock_ok [of "s\<lparr>ow_orders := ?os\<rparr>" ?v "coll v (rem v)" l a "now AtRemainder"] inv(1) kv assms(4,6,7) m by auto
    let ?s = "s\<lparr>ow_orders := ?os, ow_wallets := ws\<rparr>"
    have "orderCancel ctx now i s = (Inr (), ?s)"
      using assms(2,8,9) c nz rc ws(1) by (simp add: orderCancel_def Let_def)
    moreover have "orderCancel ctx now i ?s = (Inl (Wrapped ''cancel order'' (Sentinel OrderErrNotCancellable)), ?s)"
      using assms(2,8) by (simp add: orderCancel_def orderRepoCancel_def)
    ultimately show ?thesis using True ws(2) m by (simp add: is_open_def map_of_put)
  qed
qed

theorem order_cancel_effect_witness:
  "\<exists>s'. orderCancel (\<lambda>_. False) (\<lambda>_. 10) ''01010101-0101-4101-8101-010101010101'' demo_open = (Inr (), s')
     \<and> account (ow_wallets s') demo_key = Some (2500, 0)"
proof -
  have v: "validateUUIDField ''order_id'' ''01010101-0101-4101-8101-010101010101''
      = Inr ''01010101-0101-4101-8101-010101010101''" by code_simp
  have k: "keyed demo_placed" using ready_order(12) [OF demo_ready] .
  have c: "coll demo_placed (amt demo_placed - fil demo_placed) = 500" by (simp add: demo_exact demo_coll)
  have st: "o_Status demo_placed = ''pending''" by (simp add: demo_placed_def orderFromRequest_def)
  have "account (ow_wallets demo_open) (order_key demo_placed) = Some (2000, 500)" using demo_open_state(3) by simp
  from order_cancel_effect [OF demo_open_state(2) v demo_open_state(4) this k, of "\<lambda>_. False" "\<lambda>_. 10"]
  show ?thesis using c st by auto
qed

end
