(* ===== verification/TimeText.thy ===== *)
theory TimeText
  imports Strconv
begin

text \<open>
  \<^verbatim>\<open>time.Parse(time.RFC3339, s)\<close> as package \<^verbatim>\<open>time\<close> defines it for the layout
  \<^verbatim>\<open>2006-01-02T15:04:05Z07:00\<close>, used for request timestamps: the fields in order, an
  optional fraction after the seconds, and the zone. The result is the instant in
  nanoseconds since the Unix epoch.
\<close>

definition badTime :: go_error where "badTime = Plain ''parsing time''"

text \<open>Days from 1970-01-01 to a date of the proleptic Gregorian calendar.\<close>

definition isLeap :: "int \<Rightarrow> bool" where
  "isLeap y \<longleftrightarrow> y mod 4 = 0 \<and> (y mod 100 \<noteq> 0 \<or> y mod 400 = 0)"

definition daysIn :: "int \<Rightarrow> int \<Rightarrow> int" where
  "daysIn y m = (if m = 2 then (if isLeap y then 29 else 28)
     else if m = 4 \<or> m = 6 \<or> m = 9 \<or> m = 11 then 30 else 31)"

definition daysBeforeYear :: "int \<Rightarrow> int" where
  "daysBeforeYear y = 365 * y + (y + 3) div 4 - (y + 99) div 100 + (y + 399) div 400 - 719528"

fun daysBeforeMonth :: "int \<Rightarrow> nat \<Rightarrow> int" where
  "daysBeforeMonth y 0 = 0"
| "daysBeforeMonth y (Suc m) = daysBeforeMonth y m + daysIn y (int (Suc m))"

definition daysFromCivil :: "int \<Rightarrow> int \<Rightarrow> int \<Rightarrow> int" where
  "daysFromCivil y m d = daysBeforeYear y + daysBeforeMonth y (nat m - 1) + (d - 1)"

definition instant :: "int \<Rightarrow> int \<Rightarrow> int \<Rightarrow> int \<Rightarrow> int \<Rightarrow> int \<Rightarrow> int \<Rightarrow> int \<Rightarrow> int" where
  "instant y mo d h mi s ns zone =
     ((daysFromCivil y mo d * 86400 + h * 3600 + mi * 60 + s) - zone) * 1000000000 + ns"

text \<open>\<^verbatim>\<open>getnum\<close>: two digits, or one when the layout does not fix the width.\<close>

definition getnum :: "bool \<Rightarrow> string \<Rightarrow> (int \<times> string) res" where
  "getnum fixed s =
     (case s of
        [] \<Rightarrow> Inl badTime
      | a # rest \<Rightarrow>
          if \<not> is_digit a then Inl badTime
          else (case rest of
              b # rest' \<Rightarrow>
                if is_digit b then Inr (digits_val [a, b], rest')
                else if fixed then Inl badTime else Inr (digits_val [a], rest)
            | [] \<Rightarrow> if fixed then Inl badTime else Inr (digits_val [a], rest)))"

definition expect :: "char \<Rightarrow> string \<Rightarrow> string res" where
  "expect c s = (case s of [] \<Rightarrow> Inl badTime | a # rest \<Rightarrow> if a = c then Inr rest else Inl badTime)"

definition inRange :: "int \<Rightarrow> int \<Rightarrow> int \<Rightarrow> unit res" where
  "inRange lo n hi = (if lo \<le> n \<and> n \<le> hi then Inr () else Inl badTime)"

definition parseYear :: "string \<Rightarrow> (int \<times> string) res" where
  "parseYear s = (if length s < 4 \<or> \<not> list_all is_digit (take 4 s) then Inl badTime
     else Inr (digits_val (take 4 s), drop 4 s))"

text \<open>The fraction: at most nine digits count.\<close>

definition parseFraction :: "string \<Rightarrow> int \<times> string" where
  "parseFraction s =
     (case s of
        c # d # rest \<Rightarrow>
          if (c = CHR ''.'' \<or> c = CHR '','') \<and> is_digit d
          then let ds = d # takeWhile is_digit rest
               in (digits_val (take 9 (ds @ replicate 9 (CHR ''0''))), dropWhile is_digit rest)
          else (0, s)
      | _ \<Rightarrow> (0, s))"

definition parseZone :: "string \<Rightarrow> int res" where
  "parseZone s =
     (case s of
        [CHR ''Z''] \<Rightarrow> Inr 0
      | [sg, h1, h2, colon, m1, m2] \<Rightarrow>
          if colon \<noteq> CHR '':'' then Inl badTime
          else bind_res (getnum True [h1, h2]) (\<lambda>(hr, _).
               bind_res (getnum True [m1, m2]) (\<lambda>(mm, _).
               bind_res (inRange 0 hr 24) (\<lambda>_. bind_res (inRange 0 mm 60) (\<lambda>_.
                 if sg = CHR ''+'' then Inr ((hr * 60 + mm) * 60)
                 else if sg = CHR ''-'' then Inr (- ((hr * 60 + mm) * 60))
                 else Inl badTime))))
      | _ \<Rightarrow> Inl badTime)"

definition parseRFC3339 :: "string \<Rightarrow> int res" where
  "parseRFC3339 s0 =
     bind_res (parseYear s0) (\<lambda>(y, s1). bind_res (expect (CHR ''-'') s1) (\<lambda>s2.
     bind_res (getnum True s2) (\<lambda>(mo, s3). bind_res (inRange 1 mo 12) (\<lambda>_. bind_res (expect (CHR ''-'') s3) (\<lambda>s4.
     bind_res (getnum True s4) (\<lambda>(d, s5). bind_res (expect (CHR ''T'') s5) (\<lambda>s6.
     bind_res (getnum False s6) (\<lambda>(h, s7). bind_res (inRange 0 h 23) (\<lambda>_. bind_res (expect (CHR '':'') s7) (\<lambda>s8.
     bind_res (getnum True s8) (\<lambda>(mi, s9). bind_res (inRange 0 mi 59) (\<lambda>_. bind_res (expect (CHR '':'') s9) (\<lambda>s10.
     bind_res (getnum True s10) (\<lambda>(sec, s11). bind_res (inRange 0 sec 59) (\<lambda>_.
       case parseFraction s11 of (ns, s12) \<Rightarrow>
     bind_res (parseZone s12) (\<lambda>zone. bind_res (inRange 1 d (daysIn y mo)) (\<lambda>_.
       Inr (instant y mo d h mi sec ns zone))))))))))))))))))"

end
