(* ===== verification/Event.thy ===== *)
theory Event
  imports DomainTypes TimeText
begin

text \<open>
  \<^verbatim>\<open>internal/event/event.go\<close> and \<^verbatim>\<open>memory_repository.go\<close>: the event service over its
  in-memory repository, without a cache (the service that \<^verbatim>\<open>NewService\<close> builds has none).
  As for markets, an update reads the event and then commits against the status it read,
  so the runs at the end allow any other call in between.
\<close>

record eventRepo =
  er_byID :: "(string \<times> event) list"
  er_idBySource :: "string \<Rightarrow> string option"

definition newEventRepo :: eventRepo where
  "newEventRepo = \<lparr>er_byID = [], er_idBySource = Map.empty\<rparr>"

record eventCreateRequest =
  eq_SourceType :: string
  eq_SourceID :: string
  eq_Title :: string
  eq_Description :: string
  eq_Category :: string
  eq_EndTime :: string
  eq_ResolutionTime :: string

record eventSyncRequest =
  es_SourceID :: string
  es_Title :: string
  es_Description :: string
  es_Category :: string
  es_EndTime :: string
  es_ResolutionTime :: string
  es_Status :: string

record eventFilters =
  ef_Category :: string
  ef_Status :: string
  ef_Page :: int
  ef_Limit :: int

section \<open>The repository\<close>

definition sourceKey :: "string \<Rightarrow> string \<Rightarrow> string" where
  "sourceKey sourceType sourceID = sourceType @ [CHR 0x00] @ sourceID"

definition eventRepoCreate :: "bool \<Rightarrow> event \<Rightarrow> eventRepo \<Rightarrow> unit res \<times> eventRepo" where
  "eventRepoCreate ctxDone v r =
     (if ctxDone then (Inl CtxErr, r)
      else let key = sourceKey (e_SourceType v) (e_SourceID v) in
        if er_idBySource r key \<noteq> None then (Inl (Sentinel EventErrAlreadyExists), r)
        else if map_of (er_byID r) (e_ID v) \<noteq> None
          then (Inl (Plain (''event ID already exists: '' @ e_ID v)), r)
        else (Inr (), r\<lparr>er_byID := put (e_ID v) v (er_byID r),
                        er_idBySource := (er_idBySource r)(key \<mapsto> e_ID v)\<rparr>))"

definition eventRepoUpsertSource :: "bool \<Rightarrow> event \<Rightarrow> eventRepo \<Rightarrow> string res \<times> eventRepo" where
  "eventRepoUpsertSource ctxDone v r =
     (if ctxDone then (Inl CtxErr, r)
      else let key = sourceKey (e_SourceType v) (e_SourceID v) in
        (case er_idBySource r key of
          None \<Rightarrow>
            if map_of (er_byID r) (e_ID v) \<noteq> None
            then (Inl (Plain (''event ID already exists: '' @ e_ID v)), r)
            else (Inr (e_ID v), r\<lparr>er_byID := put (e_ID v) v (er_byID r),
                   er_idBySource := (er_idBySource r)(key \<mapsto> e_ID v)\<rparr>)
        | Some eventID \<Rightarrow> (case map_of (er_byID r) eventID of
            None \<Rightarrow> (Inl (Panic ''nil pointer''), r)
          | Some existing \<Rightarrow>
              let e1 = existing\<lparr>e_Title := e_Title v, e_Description := e_Description v,
                    e_Category := e_Category v, e_EndTime := e_EndTime v,
                    e_ResolutionTime := e_ResolutionTime v\<rparr>;
                  e2 = (if e_Status e1 \<noteq> ''closed'' \<and> e_Status e1 \<noteq> ''resolved''
                        then e1\<lparr>e_Status := e_Status v\<rparr> else e1);
                  e3 = e2\<lparr>e_UpdatedAt := e_UpdatedAt v\<rparr>
              in (Inr eventID, r\<lparr>er_byID := put eventID e3 (er_byID r)\<rparr>))))"

definition eventRepoGetByID :: "bool \<Rightarrow> string \<Rightarrow> eventRepo \<Rightarrow> event res" where
  "eventRepoGetByID ctxDone eventID r =
     (if ctxDone then Inl CtxErr
      else case map_of (er_byID r) eventID of None \<Rightarrow> Inl (Sentinel EventErrNotFound) | Some v \<Rightarrow> Inr v)"

definition eventRepoGetBySource :: "bool \<Rightarrow> string \<Rightarrow> string \<Rightarrow> eventRepo \<Rightarrow> event res" where
  "eventRepoGetBySource ctxDone sourceType sourceID r =
     (if ctxDone then Inl CtxErr
      else case er_idBySource r (sourceKey sourceType sourceID) of
          None \<Rightarrow> Inl (Sentinel EventErrNotFound)
        | Some eventID \<Rightarrow> (case map_of (er_byID r) eventID of
            None \<Rightarrow> Inl (Panic ''nil pointer'') | Some v \<Rightarrow> Inr v))"

definition eventsSoonestFirst :: "event \<Rightarrow> event \<Rightarrow> bool" where
  "eventsSoonestFirst a b = (if e_EndTime a = e_EndTime b then e_ID a < e_ID b
     else e_EndTime a < e_EndTime b)"

interpretation eventOrder: total_comparator eventsSoonestFirst "\<lambda>_. True" e_ID
  by unfold_locales (auto simp: eventsSoonestFirst_def split: if_splits)

definition eventMatches :: "eventFilters \<Rightarrow> event \<Rightarrow> bool" where
  "eventMatches filters v \<longleftrightarrow> (ef_Category filters = [] \<or> e_Category v = ef_Category filters)
     \<and> (ef_Status filters = [] \<or> e_Status v = ef_Status filters)"

definition eventRepoList :: "bool \<Rightarrow> eventFilters \<Rightarrow> eventRepo \<Rightarrow> (event list \<times> int) res" where
  "eventRepoList ctxDone filters r =
     (if ctxDone then Inl CtxErr
      else Inr (page_slice ((ef_Page filters - 1) * ef_Limit filters) (ef_Limit filters)
        (sort_by eventsSoonestFirst (filter (eventMatches filters) (map snd (er_byID r))))))"

definition eventRepoUpdateStatus ::
  "bool \<Rightarrow> string \<Rightarrow> string \<Rightarrow> string \<Rightarrow> time \<Rightarrow> eventRepo \<Rightarrow> unit res \<times> eventRepo" where
  "eventRepoUpdateStatus ctxDone eventID expectedStatus status updatedAt r =
     (if ctxDone then (Inl CtxErr, r)
      else case map_of (er_byID r) eventID of
          None \<Rightarrow> (Inl (Sentinel EventErrNotFound), r)
        | Some v \<Rightarrow>
            if e_Status v \<noteq> expectedStatus then (Inl (Sentinel EventErrInvalidTransition), r)
            else (Inr (), r\<lparr>er_byID := put eventID
                   (v\<lparr>e_Status := status, e_UpdatedAt := updatedAt\<rparr>) (er_byID r)\<rparr>))"

definition eventRepoResolve ::
  "bool \<Rightarrow> string \<Rightarrow> string \<Rightarrow> string \<Rightarrow> string \<Rightarrow> time \<Rightarrow> eventRepo \<Rightarrow> unit res \<times> eventRepo" where
  "eventRepoResolve ctxDone eventID expectedStatus outcome resolutionSource updatedAt r =
     (if ctxDone then (Inl CtxErr, r)
      else case map_of (er_byID r) eventID of
          None \<Rightarrow> (Inl (Sentinel EventErrNotFound), r)
        | Some v \<Rightarrow>
            if e_Status v \<noteq> expectedStatus then (Inl (Sentinel EventErrInvalidTransition), r)
            else if resolutionSource = [] then (Inl (Plain ''resolution source is required''), r)
            else (Inr (), r\<lparr>er_byID := put eventID (v\<lparr>e_Status := ''resolved'',
                   e_Outcome := Some outcome, e_UpdatedAt := updatedAt\<rparr>) (er_byID r)\<rparr>))"

section \<open>Validation\<close>

definition validSourceType :: "string \<Rightarrow> bool" where
  "validSourceType v \<longleftrightarrow> v = ''polymarket'' \<or> v = ''custom''"

definition eventValidStatus :: "string \<Rightarrow> bool" where
  "eventValidStatus v \<longleftrightarrow> v \<in> {''pending'', ''active'', ''closed'', ''resolved''}"

definition eventCanTransition :: "string \<Rightarrow> string \<Rightarrow> bool" where
  "eventCanTransition frm to =
     (if frm = ''pending'' then to = ''active'' \<or> to = ''closed''
      else if frm = ''active'' then to = ''closed''
      else False)"

definition eventValidateCreateRequest ::
  "eventCreateRequest option \<Rightarrow> (eventCreateRequest \<times> time \<times> time) res" where
  "eventValidateCreateRequest req =
     (case req of
        None \<Rightarrow> Inl (Validation ''request'' ''is required'')
      | Some req \<Rightarrow>
          let input = req\<lparr>eq_SourceType := toLower (trimSpace (eq_SourceType req)),
                eq_SourceID := trimSpace (eq_SourceID req), eq_Title := trimSpace (eq_Title req),
                eq_Description := trimSpace (eq_Description req),
                eq_Category := toLower (trimSpace (eq_Category req))\<rparr>
          in if \<not> validSourceType (eq_SourceType input)
               then Inl (Validation ''source_type'' ''must be polymarket or custom'')
             else if eq_SourceID input = [] then Inl (Validation ''source_id'' ''is required'')
             else if eq_Title input = [] then Inl (Validation ''title'' ''is required'')
             else if eq_Category input = [] then Inl (Validation ''category'' ''is required'')
             else (case parseRFC3339 (trimSpace (eq_EndTime input)) of
                 Inl err \<Rightarrow> Inl (Validation ''end_time'' ''must be an RFC3339 timestamp'')
               | Inr endTime \<Rightarrow> (case parseRFC3339 (trimSpace (eq_ResolutionTime input)) of
                   Inl err \<Rightarrow> Inl (Validation ''resolution_time'' ''must be an RFC3339 timestamp'')
                 | Inr resolutionTime \<Rightarrow>
                     if resolutionTime < endTime
                     then Inl (Validation ''resolution_time'' ''must not be before end_time'')
                     else Inr (input, endTime, resolutionTime))))"

definition validateSyncRequest ::
  "eventSyncRequest option \<Rightarrow> (eventSyncRequest \<times> time \<times> time) res" where
  "validateSyncRequest req =
     (case req of
        None \<Rightarrow> Inl (Validation ''request'' ''is required'')
      | Some input \<Rightarrow>
          bind_res (eventValidateCreateRequest (Some \<lparr>eq_SourceType = ''polymarket'',
            eq_SourceID = es_SourceID input, eq_Title = es_Title input,
            eq_Description = es_Description input, eq_Category = es_Category input,
            eq_EndTime = es_EndTime input, eq_ResolutionTime = es_ResolutionTime input\<rparr>))
          (\<lambda>(normalized, endTime, resolutionTime).
            let status = toLower (trimSpace (es_Status input)) in
            if status = ''pending'' \<or> status = ''active'' \<or> status = ''closed''
            then Inr (\<lparr>es_SourceID = eq_SourceID normalized, es_Title = eq_Title normalized,
                   es_Description = eq_Description normalized, es_Category = eq_Category normalized,
                   es_EndTime = eq_EndTime normalized, es_ResolutionTime = eq_ResolutionTime normalized,
                   es_Status = status\<rparr>, endTime, resolutionTime)
            else Inl (Validation ''status'' ''must be pending, active, or closed'')))"

definition eventNormalizeFilters :: "eventFilters option \<Rightarrow> eventFilters res" where
  "eventNormalizeFilters filters =
     (let v0 = (case filters of None \<Rightarrow> \<lparr>ef_Category = [], ef_Status = [], ef_Page = 0, ef_Limit = 0\<rparr>
                | Some f \<Rightarrow> f);
          v = v0\<lparr>ef_Category := toLower (trimSpace (ef_Category v0)),
                 ef_Status := toLower (trimSpace (ef_Status v0))\<rparr>
      in if ef_Status v \<noteq> [] \<and> \<not> eventValidStatus (ef_Status v)
           then Inl (Validation ''status'' ''is not supported'')
         else bind_res (normalizePagination ''must not exceed 1000'' (ef_Page v) (ef_Limit v))
           (\<lambda>(page, limit). Inr (v\<lparr>ef_Page := page, ef_Limit := limit\<rparr>)))"

section \<open>The service\<close>

definition eventCreate ::
  "bool \<Rightarrow> eventCreateRequest option \<Rightarrow> byte list \<Rightarrow> time \<Rightarrow> eventRepo \<Rightarrow> event res \<times> eventRepo" where
  "eventCreate ctxDone req random now r =
     (case eventValidateCreateRequest req of
        Inl err \<Rightarrow> (Inl err, r)
      | Inr (input, endTime, resolutionTime) \<Rightarrow> (case fst (generateUUID random) of
          Inl err \<Rightarrow> (Inl (Wrapped ''generate event ID'' err), r)
        | Inr eventID \<Rightarrow>
            let v = \<lparr>e_ID = eventID, e_SourceType = eq_SourceType input, e_SourceID = eq_SourceID input,
                  e_Title = eq_Title input, e_Description = eq_Description input,
                  e_Category = eq_Category input, e_EndTime = endTime, e_ResolutionTime = resolutionTime,
                  e_Status = ''pending'', e_Outcome = None, e_CreatedAt = now, e_UpdatedAt = now\<rparr>
            in (case eventRepoCreate ctxDone v r of
                  (Inl err, r') \<Rightarrow> (Inl (Wrapped ''create event'' err), r')
                | (Inr _, r') \<Rightarrow> (Inr v, r'))))"

definition eventSyncSource ::
  "bool \<Rightarrow> eventSyncRequest option \<Rightarrow> byte list \<Rightarrow> time \<Rightarrow> eventRepo \<Rightarrow> unit res \<times> eventRepo" where
  "eventSyncSource ctxDone req random now r =
     (case validateSyncRequest req of
        Inl err \<Rightarrow> (Inl err, r)
      | Inr (input, endTime, resolutionTime) \<Rightarrow> (case fst (generateUUID random) of
          Inl err \<Rightarrow> (Inl (Wrapped ''generate synced event ID'' err), r)
        | Inr eventID \<Rightarrow>
            let v = \<lparr>e_ID = eventID, e_SourceType = ''polymarket'', e_SourceID = es_SourceID input,
                  e_Title = es_Title input, e_Description = es_Description input,
                  e_Category = es_Category input, e_EndTime = endTime, e_ResolutionTime = resolutionTime,
                  e_Status = es_Status input, e_Outcome = None, e_CreatedAt = now, e_UpdatedAt = now\<rparr>
            in (case eventRepoUpsertSource ctxDone v r of
                  (Inl err, r') \<Rightarrow> (Inl (wrap_error ''upsert synced event'' err), r')
                | (Inr _, r') \<Rightarrow> (Inr (), r'))))"

definition eventGet :: "bool \<Rightarrow> string \<Rightarrow> eventRepo \<Rightarrow> event res" where
  "eventGet ctxDone eventID0 r =
     (let eventID = trimSpace eventID0 in
      if eventID = [] then Inl (Validation ''event_id'' ''is required'')
      else case eventRepoGetByID ctxDone eventID r of
          Inl err \<Rightarrow> Inl (Wrapped ''get event'' err) | Inr v \<Rightarrow> Inr v)"

definition eventList :: "bool \<Rightarrow> eventFilters option \<Rightarrow> eventRepo \<Rightarrow> (event list \<times> int) res" where
  "eventList ctxDone filters r =
     bind_res (eventNormalizeFilters filters) (\<lambda>normalized.
       case eventRepoList ctxDone normalized r of
         Inl err \<Rightarrow> Inl (Wrapped ''list events'' err) | Inr x \<Rightarrow> Inr x)"

text \<open>\<open>seen\<close> is the store at the read, \<open>r\<close> the store at the commit.\<close>

definition eventUpdateStatus ::
  "(nat \<Rightarrow> bool) \<Rightarrow> string \<Rightarrow> string \<Rightarrow> time \<Rightarrow> eventRepo \<Rightarrow> eventRepo \<Rightarrow> unit res \<times> eventRepo" where
  "eventUpdateStatus ctx eventID0 status0 now seen r =
     (let eventID = trimSpace eventID0; status = toLower (trimSpace status0) in
      if eventID = [] then (Inl (Validation ''event_id'' ''is required''), r)
      else if status = ''resolved'' \<or> \<not> eventValidStatus status
        then (Inl (Validation ''status'' ''is not supported''), r)
      else (case eventRepoGetByID (ctx 0) eventID seen of
          Inl err \<Rightarrow> (Inl (Wrapped ''get event for status update'' err), r)
        | Inr v \<Rightarrow>
            if \<not> eventCanTransition (e_Status v) status
            then (Inl (Wrapped (e_Status v @ '' to '' @ status) (Sentinel EventErrInvalidTransition)), r)
            else (case eventRepoUpdateStatus (ctx 1) eventID (e_Status v) status now r of
                (Inl err, r') \<Rightarrow> (Inl (Wrapped ''update event status'' err), r')
              | (Inr _, r') \<Rightarrow> (Inr (), r'))))"

definition event_resolve ::
  "(nat \<Rightarrow> bool) \<Rightarrow> string \<Rightarrow> string \<Rightarrow> string \<Rightarrow> time \<Rightarrow> eventRepo \<Rightarrow> eventRepo \<Rightarrow> unit res \<times> eventRepo" where
  "event_resolve ctx eventID0 outcome0 resolutionSource now seen r =
     (let eventID = trimSpace eventID0; outcome = trimSpace outcome0 in
      if eventID = [] then (Inl (Validation ''event_id'' ''is required''), r)
      else if outcome = [] then (Inl (Validation ''outcome'' ''is required''), r)
      else (case eventRepoGetByID (ctx 0) eventID seen of
          Inl err \<Rightarrow> (Inl (Wrapped ''get event for resolution'' err), r)
        | Inr v \<Rightarrow>
            if e_Status v \<noteq> ''closed''
            then (Inl (Wrapped (e_Status v @ '' to resolved'') (Sentinel EventErrInvalidTransition)), r)
            else (case eventRepoResolve (ctx 1) eventID (e_Status v) outcome resolutionSource now r of
                (Inl err, r') \<Rightarrow> (Inl (Wrapped ''resolve event'' err), r')
              | (Inr _, r') \<Rightarrow> (Inr (), r'))))"

definition eventResolve ::
  "(nat \<Rightarrow> bool) \<Rightarrow> string \<Rightarrow> string \<Rightarrow> time \<Rightarrow> eventRepo \<Rightarrow> eventRepo \<Rightarrow> unit res \<times> eventRepo" where
  "eventResolve ctx eventID outcome now seen r = event_resolve ctx eventID outcome ''manual'' now seen r"

definition eventResolveSource ::
  "(nat \<Rightarrow> bool) \<Rightarrow> string \<Rightarrow> string \<Rightarrow> time \<Rightarrow> eventRepo \<Rightarrow> eventRepo \<Rightarrow> eventRepo \<Rightarrow> unit res \<times> eventRepo" where
  "eventResolveSource ctx sourceID0 outcome0 now found seen r =
     (let sourceID = trimSpace sourceID0; outcome = trimSpace outcome0 in
      if sourceID = [] then (Inl (Validation ''source_id'' ''is required''), r)
      else if outcome = [] then (Inl (Validation ''outcome'' ''is required''), r)
      else (case eventRepoGetBySource (ctx 0) ''polymarket'' sourceID found of
          Inl err \<Rightarrow> (Inl (wrap_error ''get event for source resolution'' err), r)
        | Inr v \<Rightarrow>
            if e_Status v = ''resolved'' then (Inr (), r)
            else event_resolve (\<lambda>n. ctx (Suc n)) (e_ID v) outcome ''polymarket'' now seen r))"

section \<open>Runs\<close>

inductive event_step :: "eventRepo \<Rightarrow> eventRepo \<Rightarrow> bool" where
  create: "event_step r (snd (eventCreate d req random now r))"
| sync: "event_step r (snd (eventSyncSource d sreq random now r))"
| status: "event_step r (snd (eventUpdateStatus ctx i st now seen r))"
| resolve: "event_step r (snd (eventResolve ctx i outcome now seen r))"
| resolveSource: "event_step r (snd (eventResolveSource ctx sid outcome now found seen r))"

text \<open>The moves of a status: the service's transitions, a sync of an event that is not over, a resolution.\<close>

definition event_move :: "event \<Rightarrow> event \<Rightarrow> bool" where
  "event_move v v' \<longleftrightarrow>
     (e_Status v' = e_Status v \<and> e_Outcome v' = e_Outcome v)
     \<or> (eventCanTransition (e_Status v) (e_Status v') \<and> e_Outcome v' = e_Outcome v)
     \<or> (e_Status v \<notin> {''closed'', ''resolved''} \<and> e_Status v' \<in> {''pending'', ''active'', ''closed''}
        \<and> e_Outcome v' = e_Outcome v)
     \<or> (e_Status v = ''closed'' \<and> e_Status v' = ''resolved'' \<and> (\<exists>x. e_Outcome v' = Some x \<and> x \<noteq> []))"

definition same_event :: "event \<Rightarrow> event \<Rightarrow> bool" where
  "same_event v v' \<longleftrightarrow> e_ID v' = e_ID v \<and> e_SourceType v' = e_SourceType v
     \<and> e_SourceID v' = e_SourceID v \<and> e_CreatedAt v' = e_CreatedAt v"

definition fresh_event :: "event \<Rightarrow> bool" where
  "fresh_event v \<longleftrightarrow> e_Outcome v = None \<and> e_Status v \<in> {''pending'', ''active'', ''closed''}"

text \<open>What a commit does to every entry: keep it, move it, or add a new one.\<close>

definition event_commit :: "eventRepo \<Rightarrow> eventRepo \<Rightarrow> bool" where
  "event_commit r r' \<longleftrightarrow>
     (\<forall>k v. map_of (er_byID r) k = Some v \<longrightarrow>
        (\<exists>v'. map_of (er_byID r') k = Some v' \<and> event_move v v' \<and> same_event v v'))
     \<and> (\<forall>k v'. map_of (er_byID r) k = None \<longrightarrow> map_of (er_byID r') k = Some v' \<longrightarrow> fresh_event v')"

lemma event_move_refl [simp]: "event_move v v"
  by (simp add: event_move_def)

lemma same_event_refl [simp]: "same_event v v"
  by (simp add: same_event_def)

lemma event_commit_refl [simp]: "event_commit r r"
  by (auto simp: event_commit_def)

lemma event_commit_put:
  assumes "map_of (er_byID r) i = Some v" "event_move v v'" "same_event v v'"
  shows "event_commit r (r\<lparr>er_byID := put i v' (er_byID r)\<rparr>)"
  using assms by (auto simp: event_commit_def)

lemma event_commit_add:
  assumes "map_of (er_byID r) i = None" "fresh_event v"
  shows "event_commit r (r\<lparr>er_byID := put i v (er_byID r), er_idBySource := m\<rparr>)"
  using assms by (auto simp: event_commit_def)

lemma commit_repoCreate: "fresh_event v \<Longrightarrow> event_commit r (snd (eventRepoCreate d v r))"
  by (auto simp: eventRepoCreate_def Let_def intro: event_commit_add)

lemma commit_repoUpsert:
  assumes "fresh_event v"
  shows "event_commit r (snd (eventRepoUpsertSource d v r))"
proof -
  have "event_commit r (snd (eventRepoUpsertSource False v r))"
  proof (cases "er_idBySource r (sourceKey (e_SourceType v) (e_SourceID v))")
    case None
    then show ?thesis using assms by (auto simp: eventRepoUpsertSource_def Let_def intro: event_commit_add)
  next
    case (Some i)
    show ?thesis
    proof (cases "map_of (er_byID r) i")
      case None
      then show ?thesis using Some by (simp add: eventRepoUpsertSource_def)
    next
      case (Some e)
      show ?thesis
        using assms \<open>er_idBySource r _ = Some i\<close> Some
        by (auto simp: eventRepoUpsertSource_def Let_def event_move_def same_event_def fresh_event_def
            intro!: event_commit_put [OF Some])
    qed
  qed
  then show ?thesis by (simp add: eventRepoUpsertSource_def)
qed

lemma commit_repoStatus:
  "eventCanTransition e st \<Longrightarrow> event_commit r (snd (eventRepoUpdateStatus d i e st now r))"
  by (auto simp: eventRepoUpdateStatus_def event_move_def same_event_def
      intro!: event_commit_put split: option.split)

lemma commit_repoResolve:
  "x \<noteq> [] \<Longrightarrow> event_commit r (snd (eventRepoResolve d i ''closed'' x src now r))"
  by (auto simp: eventRepoResolve_def event_move_def same_event_def
      intro!: event_commit_put split: option.split)

lemma commit_create: "event_commit r (snd (eventCreate d req random now r))"
  unfolding eventCreate_def Let_def
  by (auto simp: snd_plain_result fresh_event_def intro!: commit_repoCreate split: sum.split prod.split)

lemma validateSync_status:
  "validateSyncRequest req = Inr (input, a, b) \<Longrightarrow> es_Status input \<in> {''pending'', ''active'', ''closed''}"
  by (auto simp: validateSyncRequest_def bind_res_Inr_iff Let_def split: option.splits prod.splits if_splits)

lemma commit_sync: "event_commit r (snd (eventSyncSource d req random now r))"
  unfolding eventSyncSource_def Let_def
  by (auto simp: snd_plain_result fresh_event_def intro!: commit_repoUpsert
      dest: validateSync_status split: sum.split prod.split)

lemma commit_status: "event_commit r (snd (eventUpdateStatus ctx i st now seen r))"
  unfolding eventUpdateStatus_def Let_def
  by (auto simp: snd_plain_result intro!: commit_repoStatus split: sum.split)

lemma commit_resolve: "event_commit r (snd (event_resolve ctx i x src now seen r))"
  unfolding event_resolve_def Let_def
  by (auto simp: snd_plain_result intro!: commit_repoResolve split: sum.split)

lemma event_step_commit: "event_step r r' \<Longrightarrow> event_commit r r'"
proof (induction rule: event_step.induct)
  case (resolveSource r ctx sid outcome now found seen)
  then show ?case
    by (auto simp: eventResolveSource_def Let_def intro!: commit_resolve split: sum.split)
qed (simp_all add: commit_create commit_sync commit_status commit_resolve eventResolve_def)

definition outcome_ok :: "event \<Rightarrow> bool" where
  "outcome_ok v \<longleftrightarrow> (e_Outcome v \<noteq> None \<longleftrightarrow> e_Status v = ''resolved'')
     \<and> e_Outcome v \<noteq> Some [] \<and> eventValidStatus (e_Status v)"

lemma outcome_ok_move: "event_move v v' \<Longrightarrow> outcome_ok v \<Longrightarrow> outcome_ok v'"
  by (auto simp: event_move_def outcome_ok_def eventCanTransition_def eventValidStatus_def split: if_splits)

lemma outcome_ok_commit:
  assumes "event_commit r r'" "\<forall>k v. map_of (er_byID r) k = Some v \<longrightarrow> outcome_ok v"
    "map_of (er_byID r') k = Some v'"
  shows "outcome_ok v'"
proof (cases "map_of (er_byID r) k")
  case None
  then have "fresh_event v'" using assms(1,3) by (auto simp: event_commit_def)
  then show ?thesis by (auto simp: fresh_event_def outcome_ok_def eventValidStatus_def)
next
  case (Some v)
  then obtain w where "map_of (er_byID r') k = Some w" "event_move v w"
    using assms(1) unfolding event_commit_def by blast
  then show ?thesis using outcome_ok_move [of v w] assms(2,3) Some by auto
qed

section \<open>Properties\<close>

text \<open>
  In every store the event service can reach, whatever calls run concurrently, an
  event has an outcome exactly when it is resolved, and the outcome is not empty.
\<close>

theorem event_outcome_iff_resolved:
  assumes "event_step\<^sup>*\<^sup>* newEventRepo r" "map_of (er_byID r) k = Some v"
  shows "(e_Outcome v \<noteq> None \<longleftrightarrow> e_Status v = ''resolved'') \<and> e_Outcome v \<noteq> Some []"
proof -
  have "\<forall>k v. map_of (er_byID r) k = Some v \<longrightarrow> outcome_ok v" using assms(1)
  proof (induction rule: rtranclp_induct)
    case base
    show ?case by (simp add: newEventRepo_def)
  next
    case (step y z)
    then show ?case using outcome_ok_commit [OF event_step_commit [OF step(2)] step(3)] by blast
  qed
  then show ?thesis using assms(2) by (auto simp: outcome_ok_def)
qed

definition demo_event_request :: eventCreateRequest where
  "demo_event_request = \<lparr>eq_SourceType = ''custom'', eq_SourceID = ''s'', eq_Title = ''t'',
     eq_Description = [], eq_Category = ''c'', eq_EndTime = ''2026-01-01T00:00:00Z'',
     eq_ResolutionTime = ''2026-01-02T00:00:00Z''\<rparr>"

definition demo_event_id :: string where "demo_event_id = ''00000000-0000-4000-8000-000000000000''"

definition demo_events :: eventRepo where
  "demo_events = snd (eventCreate False (Some demo_event_request) (replicate 16 0) 5 newEventRepo)"

definition demo_closed :: eventRepo where
  "demo_closed = snd (eventUpdateStatus (\<lambda>_. False) demo_event_id ''closed'' 6 demo_events demo_events)"

definition demo_resolved :: eventRepo where
  "demo_resolved = snd (eventResolve (\<lambda>_. False) demo_event_id ''Yes'' 7 demo_closed demo_closed)"

lemma demo_event_run: "event_step\<^sup>*\<^sup>* newEventRepo demo_resolved"
proof -
  have "event_step newEventRepo demo_events" unfolding demo_events_def by (rule event_step.create)
  moreover have "event_step demo_events demo_closed" unfolding demo_closed_def by (rule event_step.status)
  moreover have "event_step demo_closed demo_resolved" unfolding demo_resolved_def by (rule event_step.resolve)
  ultimately show ?thesis by (meson converse_rtranclp_into_rtranclp rtranclp.rtrancl_refl)
qed

lemma demo_event_outcome: "map_option e_Outcome (map_of (er_byID demo_resolved) demo_event_id) = Some (Some ''Yes'')"
  by code_simp

theorem event_outcome_iff_resolved_witness:
  "\<exists>v. map_of (er_byID demo_resolved) demo_event_id = Some v \<and> e_Status v = ''resolved''"
proof -
  obtain v where "map_of (er_byID demo_resolved) demo_event_id = Some v" "e_Outcome v = Some ''Yes''"
    using demo_event_outcome by auto
  then show ?thesis using event_outcome_iff_resolved [OF demo_event_run] by auto
qed

text \<open>
  A resolved event keeps its status and its outcome through every further run, manual
  resolutions and source resolutions and syncs included.
\<close>

theorem event_outcome_final:
  assumes "event_step\<^sup>*\<^sup>* r r'" "map_of (er_byID r) k = Some v" "e_Status v = ''resolved''"
  shows "\<exists>v'. map_of (er_byID r') k = Some v' \<and> e_Status v' = ''resolved'' \<and> e_Outcome v' = e_Outcome v"
  using assms(1)
proof (induction rule: rtranclp_induct)
  case base
  then show ?case using assms by simp
next
  case (step y z)
  then obtain w where w: "map_of (er_byID y) k = Some w" "e_Status w = ''resolved''" "e_Outcome w = e_Outcome v"
    by blast
  then obtain w' where "map_of (er_byID z) k = Some w'" "event_move w w'"
    using event_step_commit [OF step(2)] unfolding event_commit_def by blast
  then show ?case using w by (auto simp: event_move_def eventCanTransition_def)
qed

theorem event_outcome_final_witness:
  "\<exists>v'. map_of (er_byID (snd (eventResolve (\<lambda>_. False) demo_event_id ''No'' 8 demo_closed demo_resolved)))
     demo_event_id = Some v' \<and> e_Outcome v' = Some ''Yes''"
proof -
  have "event_step\<^sup>*\<^sup>* demo_resolved (snd (eventResolve (\<lambda>_. False) demo_event_id ''No'' 8 demo_closed demo_resolved))"
    by (rule r_into_rtranclp) (rule event_step.resolve)
  moreover obtain v where "map_of (er_byID demo_resolved) demo_event_id = Some v" "e_Outcome v = Some ''Yes''"
    using demo_event_outcome by auto
  moreover have "map_option e_Status (map_of (er_byID demo_resolved) demo_event_id) = Some ''resolved''"
    by code_simp
  ultimately show ?thesis using event_outcome_final by fastforce
qed

end
