(* ===== verification/TimeFormat.thy ===== *)
theory TimeFormat
  imports TimeText
begin

text \<open>
  \<^verbatim>\<open>t.UTC().Format(time.RFC3339Nano)\<close> for an instant in nanoseconds since the Unix epoch, and its
  round trip through the parser of \<open>TimeText\<close> for the years 0 to 9999, where Go writes four digits.
\<close>

section \<open>The date of a day\<close>

text \<open>The average year has 146097 / 400 days; the estimate is off by one at most.\<close>

definition yearOfDay :: "int \<Rightarrow> int" where
  "yearOfDay n = (let y = 400 * (n + 719528) div 146097 in
     if n < daysBeforeYear y then y - 1 else if daysBeforeYear (y + 1) \<le> n then y + 1 else y)"

fun monthOfDay :: "int \<Rightarrow> nat \<Rightarrow> int \<Rightarrow> nat \<Rightarrow> int" where
  "monthOfDay y m k 0 = int m"
| "monthOfDay y m k (Suc fuel) =
     (if k < daysBeforeMonth y m then int m else monthOfDay y (Suc m) k fuel)"

definition civilDate :: "int \<Rightarrow> int \<times> int \<times> int" where
  "civilDate n = (let y = yearOfDay n; k = n - daysBeforeYear y; m = monthOfDay y 1 k 11
     in (y, m, k - daysBeforeMonth y (nat m - 1) + 1))"

section \<open>Format\<close>

definition padded :: "nat \<Rightarrow> int \<Rightarrow> string" where
  "padded w n = (let ds = dec_of \<bar>n\<bar> in (if n < 0 then ''-'' else []) @ zeros (w - length ds) @ ds)"

definition trimZeros :: "string \<Rightarrow> string" where
  "trimZeros s = rev (dropWhile (\<lambda>c. c = CHR ''0'') (rev s))"

definition fractionText :: "int \<Rightarrow> string" where
  "fractionText ns = (if ns = 0 then [] else ''.'' @ trimZeros (padded 9 ns))"

definition formatRFC3339Nano :: "int \<Rightarrow> string" where
  "formatRFC3339Nano t =
     (let s = t div 1000000000; k = s mod 86400 in
      case civilDate (s div 86400) of (y, mo, d) \<Rightarrow>
        padded 4 y @ ''-'' @ padded 2 mo @ ''-'' @ padded 2 d @ ''T'' @ padded 2 (k div 3600) @ '':''
        @ padded 2 (k div 60 mod 60) @ '':'' @ padded 2 (k mod 60) @ fractionText (t mod 1000000000) @ ''Z'')"

section \<open>Civil dates\<close>

lemma div_step:
  assumes "0 < (k :: int)" "j = k - 1"
  shows "(y + k) div k = (y + j) div k + (if y mod k = 0 then 1 else 0)"
proof -
  define q r where "q = y div k" and "r = y mod k"
  have y: "y = r + k * q" and r: "0 \<le> r" "r < k" using assms by (simp_all add: q_def r_def)
  have "y + (k - 1) = (r + (k - 1)) + q * k" by (simp add: y)
  then have "(y + (k - 1)) div k = (r + (k - 1)) div k + q" using assms by (simp only: div_mult_self1)
  moreover have "(r + (k - 1)) div k = (if r = 0 then 0 else 1)"
  proof (cases "r = 0")
    case False
    then have "(r - 1) div k = 0" using r by (intro div_pos_pos_trivial) simp_all
    moreover have "r + (k - 1) = (r - 1) + k" by simp
    ultimately show ?thesis using False assms by (simp only: div_add_self2) simp
  qed (use assms in simp)
  moreover have "(y + k) div k = q + 1" using assms q_def by simp
  ultimately show ?thesis by (simp add: r_def assms(2))
qed

lemma daysBeforeYear_step: "daysBeforeYear (y + 1) = daysBeforeYear y + (if isLeap y then 366 else 365)"
proof -
  have "(y + 4) div 4 = (y + 3) div 4 + (if y mod 4 = 0 then 1 else 0)"
    "(y + 100) div 100 = (y + 99) div 100 + (if y mod 100 = 0 then 1 else 0)"
    "(y + 400) div 400 = (y + 399) div 400 + (if y mod 400 = 0 then 1 else 0)"
    by (rule div_step; simp)+
  moreover have d: "100 dvd (400 :: int)" "4 dvd (100 :: int)" by simp_all
  have "y mod 400 = 0 \<Longrightarrow> y mod 100 = 0" using dvd_trans [OF d(1), of y] by (simp only: mod_eq_0_iff_dvd)
  moreover have "y mod 100 = 0 \<Longrightarrow> y mod 4 = 0" using dvd_trans [OF d(2), of y] by (simp only: mod_eq_0_iff_dvd)
  moreover have "y + 1 + 3 = y + 4" "y + 1 + 99 = y + 100" "y + 1 + 399 = y + 400" by simp_all
  ultimately have "(y + 1 + 3) div 4 - (y + 1 + 99) div 100 + (y + 1 + 399) div 400
      = (y + 3) div 4 - (y + 99) div 100 + (y + 399) div 400 + (if isLeap y then 1 else 0)"
    unfolding isLeap_def by (simp only:) presburger
  then show ?thesis unfolding daysBeforeYear_def by (simp split: if_splits)
qed

lemma div_bounds:
  assumes "0 < (k :: int)"
  shows "k * (x div k) \<le> x" "x < k * (x div k) + k"
  using pos_mod_bound [of k x] pos_mod_sign [of k x] mult_div_mod_eq [of k x] assms by linarith+

lemma year_estimate:
  assumes "y = 400 * (n + 719528) div 146097"
  shows "daysBeforeYear (y - 1) \<le> n" "n < daysBeforeYear (y + 1 + 1)"
proof -
  have y: "146097 * y \<le> 400 * (n + 719528)" "400 * (n + 719528) < 146097 * y + 146097"
    using div_bounds [of 146097 "400 * (n + 719528)"] assms by simp_all
  have p: "(0 :: int) < 4" "(0 :: int) < 100" "(0 :: int) < 400" by simp_all
  have b: "400 * daysBeforeYear z \<le> 146097 * z + 800 - 400 * 719528 \<and> 146097 * z - 400 * 719529 \<le> 400 * daysBeforeYear z" for z
  proof -
    define a b c where "a = (z + 3) div 4" and "b = (z + 99) div 100" and "c = (z + 399) div 400"
    have "4 * a \<le> z + 3" "z + 3 < 4 * a + 4" "100 * b \<le> z + 99" "z + 99 < 100 * b + 100"
      "400 * c \<le> z + 399" "z + 399 < 400 * c + 400"
      unfolding a_def b_def c_def using div_bounds [OF p(1)] div_bounds [OF p(2)] div_bounds [OF p(3)] by blast+
    moreover have "daysBeforeYear z = 365 * z + a - b + c - 719528" by (simp add: daysBeforeYear_def a_def b_def c_def)
    ultimately show ?thesis by linarith
  qed
  show "daysBeforeYear (y - 1) \<le> n" using y b [THEN conjunct1, of "y - 1"] by simp
  show "n < daysBeforeYear (y + 1 + 1)" using y b [THEN conjunct2, of "y + 1 + 1"] by simp
qed

lemma yearOfDay_bounds: "daysBeforeYear (yearOfDay n) \<le> n" "n < daysBeforeYear (yearOfDay n + 1)"
proof -
  define y where "y = 400 * (n + 719528) div 146097"
  note e = year_estimate [OF y_def]
  have "yearOfDay n = (if n < daysBeforeYear y then y - 1 else if daysBeforeYear (y + 1) \<le> n then y + 1 else y)"
    by (simp add: yearOfDay_def y_def Let_def)
  then show "daysBeforeYear (yearOfDay n) \<le> n" "n < daysBeforeYear (yearOfDay n + 1)" using e by auto
qed

lemma daysIn_bounds: "28 \<le> daysIn y m" "daysIn y m \<le> 31" by (auto simp: daysIn_def)

lemma daysBeforeMonth_12: "daysBeforeMonth y 12 = (if isLeap y then 366 else 365)"
  by (simp add: numeral_eq_Suc daysIn_def)

lemma monthOfDay_bounds:
  assumes "1 \<le> m" "daysBeforeMonth y (m - 1) \<le> k" "k < daysBeforeMonth y (m + fuel)"
  shows "\<exists>i. monthOfDay y m k fuel = int i \<and> m \<le> i \<and> i \<le> m + fuel \<and> daysBeforeMonth y (i - 1) \<le> k \<and> k < daysBeforeMonth y i"
  using assms
proof (induction fuel arbitrary: m)
  case (Suc fuel)
  show ?case
  proof (cases "k < daysBeforeMonth y m")
    case False
    then obtain i where "monthOfDay y (Suc m) k fuel = int i" "Suc m \<le> i" "i \<le> Suc m + fuel"
      "daysBeforeMonth y (i - 1) \<le> k" "k < daysBeforeMonth y i"
      using Suc.IH [of "Suc m"] Suc.prems by auto
    then show ?thesis using False by auto
  qed (use Suc.prems in auto)
qed auto

lemma civilDate_ok:
  assumes "civilDate n = (y, mo, d)"
  shows "1 \<le> mo \<and> mo \<le> 12 \<and> 1 \<le> d \<and> d \<le> daysIn y mo \<and> daysFromCivil y mo d = n \<and> y = yearOfDay n"
proof -
  define k where "k = n - daysBeforeYear y"
  have y: "y = yearOfDay n" and mo: "mo = monthOfDay y 1 k 11" and d: "d = k - daysBeforeMonth y (nat mo - 1) + 1"
    using assms by (auto simp: civilDate_def Let_def k_def)
  have k: "0 \<le> k" "k < daysBeforeMonth y (1 + 11)"
    using yearOfDay_bounds [of n] daysBeforeYear_step [of y] daysBeforeMonth_12 [of y] y by (auto simp: k_def)
  then obtain i where i: "monthOfDay y 1 k 11 = int i" "1 \<le> i" "i \<le> 12" "daysBeforeMonth y (i - 1) \<le> k" "k < daysBeforeMonth y i"
    using monthOfDay_bounds [of 1 y k 11] by auto
  then have "daysBeforeMonth y i = daysBeforeMonth y (i - 1) + daysIn y (int i)" by (cases i) auto
  then show ?thesis using i mo d y by (auto simp: daysFromCivil_def k_def)
qed

section \<open>The format reads back\<close>

text \<open>The years for which Go writes four digits.\<close>

definition plain_time :: "int \<Rightarrow> bool" where
  "plain_time t \<longleftrightarrow> 0 \<le> yearOfDay (t div 1000000000 div 86400) \<and> yearOfDay (t div 1000000000 div 86400) < 10000"

lemma padded_digits:
  assumes "0 \<le> n" "n < 10 ^ w" "0 < w"
  shows "length (padded w n) = w" "list_all is_digit (padded w n)" "digits_val (padded w n) = n"
  using length_dec_of [OF assms(3,2)] digits_dec_of [OF assms(1)] digits_zeros assms(1)
  by (simp_all add: padded_def Let_def digits_val_append)

lemma two_digits:
  assumes "0 \<le> n" "n < 100"
  obtains a b where "padded 2 n = [a, b]" "is_digit a" "is_digit b" "digits_val [a, b] = n"
proof -
  note d = padded_digits [of n 2]
  have "length (padded 2 n) = 2" using d(1) assms by simp
  then obtain a b where "padded 2 n = [a, b]" by (auto simp: numeral_eq_Suc length_Suc_conv)
  then show ?thesis using that d(2,3) assms by simp
qed

lemma four_digits:
  assumes "0 \<le> n" "n < 10000"
  obtains a b c d where "padded 4 n = [a, b, c, d]" "list_all is_digit [a, b, c, d]" "digits_val [a, b, c, d] = n"
proof -
  note e = padded_digits [of n 4]
  have "length (padded 4 n) = 4" using e(1) assms by simp
  then obtain a b c d where "padded 4 n = [a, b, c, d]" by (auto simp: numeral_eq_Suc length_Suc_conv)
  then show ?thesis using that e(2,3) assms by simp
qed

lemma trimZeros_append: "trimZeros s @ replicate (length s - length (trimZeros s)) (CHR ''0'') = s"
proof -
  let ?z = "takeWhile (\<lambda>c. c = CHR ''0'') (rev s)"
  have "?z = replicate (length ?z) (CHR ''0'')"
    by (intro replicate_eqI) (auto dest: set_takeWhileD)
  then have z: "rev ?z = replicate (length ?z) (CHR ''0'')" by (metis rev_replicate)
  have s: "s = trimZeros s @ rev ?z"
    by (metis rev_append rev_rev_ident takeWhile_dropWhile_id trimZeros_def)
  then have "length ?z = length s - length (trimZeros s)" by (metis add_diff_cancel_left' length_append length_rev)
  then show ?thesis using s z by simp
qed

lemma parseFraction_text:
  assumes "0 \<le> ns" "ns < 1000000000"
  shows "parseFraction (fractionText ns @ ''Z'') = (ns, ''Z'')"
proof (cases "ns = 0")
  case False
  let ?p = "padded 9 ns" and ?t = "trimZeros (padded 9 ns)"
  have p: "length ?p = 9" "list_all is_digit ?p" "digits_val ?p = ns" using padded_digits [of ns 9] assms by simp_all
  have app: "?t @ replicate (9 - length ?t) (CHR ''0'') = ?p" using trimZeros_append [of ?p] p(1) by simp
  have "?t \<noteq> []"
  proof
    assume "?t = []"
    then have "digits_val ?p = 0" using app digits_val_zeros [of 9] by (simp add: zeros_def)
    then show False using p(3) False by simp
  qed
  then obtain d rest where t: "?t = d # rest" by (cases ?t) auto
  have dig: "list_all is_digit ?t" using p(2) app by (metis list_all_append)
  have len: "length ?t \<le> 9" using app p(1) by (metis length_append le_add1)
  have "take 9 (?t @ replicate 9 (CHR ''0'')) = ?t @ replicate (9 - length ?t) (CHR ''0'')" using len by simp
  then have v: "digits_val (take 9 (?t @ replicate 9 (CHR ''0''))) = ns" using app p(3) by simp
  have "\<not> is_digit (CHR ''Z'')" by code_simp
  then have "takeWhile is_digit (rest @ ''Z'') = rest" "dropWhile is_digit (rest @ ''Z'') = ''Z''"
    using dig t by (auto simp: list_all_iff takeWhile_append2 dropWhile_append2)
  then show ?thesis using False v dig by (simp add: fractionText_def parseFraction_def t)
qed (simp add: fractionText_def parseFraction_def)

lemma parse_steps:
  "is_digit a \<Longrightarrow> is_digit b \<Longrightarrow> getnum w (a # b # r) = Inr (digits_val [a, b], r)"
  "expect c (c # r) = Inr r"
  "lo \<le> n \<Longrightarrow> n \<le> hi \<Longrightarrow> inRange lo n hi = Inr ()"
  "list_all is_digit [a, b, c, d] \<Longrightarrow> parseYear (a # b # c # d # r) = Inr (digits_val [a, b, c, d], r)"
  by (simp_all add: getnum_def expect_def inRange_def parseYear_def numeral_eq_Suc)

lemma parse_format_time:
  assumes "plain_time t"
  shows "parseRFC3339 (formatRFC3339Nano t) = Inr t"
proof -
  define s k ns where "s = t div 1000000000" and "k = s mod 86400" and "ns = t mod 1000000000"
  obtain y mo d where c: "civilDate (s div 86400) = (y, mo, d)" by (metis prod_cases3)
  note ok = civilDate_ok [OF c]
  have r: "0 \<le> k" "k < 86400" "0 \<le> ns" "ns < 1000000000" by (simp_all add: k_def ns_def)
  have y: "0 \<le> y" "y < 10000" using assms ok by (simp_all add: plain_time_def s_def)
  have d: "0 \<le> d" "d < 100" using ok daysIn_bounds [of y mo] by linarith+
  have mo: "0 \<le> mo" "mo < 100" using ok by linarith+
  have h: "0 \<le> k div 3600" "k div 3600 < 100" "k div 3600 \<le> 23" using r by (simp_all add: div_less_iff_less_mult)
  have mi: "0 \<le> k div 60 mod 60" "k div 60 mod 60 < 100" "k div 60 mod 60 \<le> 59"
    using pos_mod_bound [of 60 "k div 60"] by auto
  have sc: "0 \<le> k mod 60" "k mod 60 < 100" "k mod 60 \<le> 59" using pos_mod_bound [of 60 k] by auto
  obtain y1 y2 y3 y4 where Y: "padded 4 y = [y1, y2, y3, y4]" "list_all is_digit [y1, y2, y3, y4]" "digits_val [y1, y2, y3, y4] = y"
    by (rule four_digits [OF y])
  obtain m1 m2 where M: "padded 2 mo = [m1, m2]" "is_digit m1" "is_digit m2" "digits_val [m1, m2] = mo" by (rule two_digits [OF mo])
  obtain d1 d2 where D: "padded 2 d = [d1, d2]" "is_digit d1" "is_digit d2" "digits_val [d1, d2] = d" by (rule two_digits [OF d])
  obtain h1 h2 where H: "padded 2 (k div 3600) = [h1, h2]" "is_digit h1" "is_digit h2" "digits_val [h1, h2] = k div 3600"
    by (rule two_digits [OF h(1,2)])
  obtain i1 i2 where I: "padded 2 (k div 60 mod 60) = [i1, i2]" "is_digit i1" "is_digit i2" "digits_val [i1, i2] = k div 60 mod 60"
    by (rule two_digits [OF mi(1,2)])
  obtain s1 s2 where S: "padded 2 (k mod 60) = [s1, s2]" "is_digit s1" "is_digit s2" "digits_val [s1, s2] = k mod 60"
    by (rule two_digits [OF sc(1,2)])
  have shown: "formatRFC3339Nano t = [y1, y2, y3, y4, CHR ''-'', m1, m2, CHR ''-'', d1, d2, CHR ''T'', h1, h2, CHR '':'',
      i1, i2, CHR '':'', s1, s2] @ fractionText ns @ ''Z''"
    unfolding formatRFC3339Nano_def Let_def s_def [symmetric] k_def [symmetric] ns_def [symmetric] c prod.case
    by (simp add: Y(1) M(1) D(1) H(1) I(1) S(1))
  have "parseRFC3339 (formatRFC3339Nano t) = Inr (instant y mo d (k div 3600) (k div 60 mod 60) (k mod 60) ns 0)"
  proof -
    have dd: "1 \<le> mo" "mo \<le> 12" "1 \<le> d" "d \<le> daysIn y mo" using ok by blast+
    show ?thesis
      unfolding shown parseRFC3339_def append.simps parse_steps(4) [OF Y(2)] bind_res_simps prod.case parse_steps(2)
        parse_steps(1) [OF M(2,3)] parse_steps(1) [OF D(2,3)] parse_steps(1) [OF H(2,3)] parse_steps(1) [OF I(2,3)]
        parse_steps(1) [OF S(2,3)] Y(3) M(4) D(4) H(4) I(4) S(4) parse_steps(3) [OF dd(1,2)] parse_steps(3) [OF h(1,3)]
        parse_steps(3) [OF mi(1,3)] parse_steps(3) [OF sc(1,3)] parseFraction_text [OF r(3,4)]
      by (simp add: parseZone_def parse_steps(3) [OF dd(3,4)])
  qed
  also have "instant y mo d (k div 3600) (k div 60 mod 60) (k mod 60) ns 0 = t"
  proof -
    have "k div 3600 = k div 60 div 60" using zdiv_zmult2_eq [of 60 k 60] by simp
    then have "k div 3600 * 3600 + k div 60 mod 60 * 60 + k mod 60 = k"
      using mult_div_mod_eq [of 60 k] mult_div_mod_eq [of 60 "k div 60"] by linarith
    moreover have "s div 86400 * 86400 + k = s" by (simp add: k_def)
    ultimately have e: "s div 86400 * 86400 + k div 3600 * 3600 + k div 60 mod 60 * 60 + k mod 60 - 0 = s" by linarith
    have days: "daysFromCivil y mo d = s div 86400" using ok by blast
    show ?thesis unfolding instant_def days e by (simp add: s_def ns_def)
  qed
  finally show ?thesis .
qed

end
