(* ===== verification/Base64.thy ===== *)
theory Base64
  imports Prelude
begin

text \<open>
  Package \<^verbatim>\<open>encoding/base64\<close>, as far as dead letters and order cursors use it:
  \<^verbatim>\<open>StdEncoding\<close> with padding and \<^verbatim>\<open>RawURLEncoding\<close> without. A string is its bytes.
\<close>

definition stdAlphabet :: string where
  "stdAlphabet = ''ABCDEFGHIJKLMNOPQRSTUVWXYZabcdefghijklmnopqrstuvwxyz0123456789+/''"

definition urlAlphabet :: string where
  "urlAlphabet = ''ABCDEFGHIJKLMNOPQRSTUVWXYZabcdefghijklmnopqrstuvwxyz0123456789-_''"

fun encodeBytes :: "string \<Rightarrow> bool \<Rightarrow> nat list \<Rightarrow> string" where
  "encodeBytes alphabet pad (a # b # c # bs) =
     [alphabet ! (a div 4), alphabet ! (a mod 4 * 16 + b div 16), alphabet ! (b mod 16 * 4 + c div 64),
      alphabet ! (c mod 64)] @ encodeBytes alphabet pad bs"
| "encodeBytes alphabet pad [a, b] =
     [alphabet ! (a div 4), alphabet ! (a mod 4 * 16 + b div 16), alphabet ! (b mod 16 * 4)]
     @ (if pad then ''='' else [])"
| "encodeBytes alphabet pad [a] =
     [alphabet ! (a div 4), alphabet ! (a mod 4 * 16)] @ (if pad then ''=='' else [])"
| "encodeBytes alphabet pad [] = []"

definition base64Encode :: "string \<Rightarrow> bool \<Rightarrow> string \<Rightarrow> string" where
  "base64Encode alphabet pad s = encodeBytes alphabet pad (map of_char s)"

fun indexOf :: "'a \<Rightarrow> 'a list \<Rightarrow> nat option" where
  "indexOf x [] = None"
| "indexOf x (y # ys) = (if x = y then Some 0 else map_option Suc (indexOf x ys))"

definition opt_map :: "('a \<Rightarrow> 'b option) \<Rightarrow> 'a list \<Rightarrow> 'b list option" where
  "opt_map f xs = (if list_all (\<lambda>x. f x \<noteq> None) xs then Some (map (\<lambda>x. the (f x)) xs) else None)"

text \<open>Sextets back to bytes; the unused low bits of the last one are not checked.\<close>

fun decodeSextets :: "nat list \<Rightarrow> nat list option" where
  "decodeSextets (p # q # r # s # ns) = map_option (\<lambda>bs.
     (p * 4 + q div 16) # (q mod 16 * 16 + r div 4) # (r mod 4 * 64 + s) # bs) (decodeSextets ns)"
| "decodeSextets [p, q, r] = Some [p * 4 + q div 16, q mod 16 * 16 + r div 4]"
| "decodeSextets [p, q] = Some [p * 4 + q div 16]"
| "decodeSextets [p] = None"
| "decodeSextets [] = Some []"

text \<open>\<^verbatim>\<open>DecodeString\<close> skips line breaks; padding stands only at the end and fills the last four characters.\<close>

definition stripPadding :: "string \<Rightarrow> string option" where
  "stripPadding s =
     (if length s mod 4 \<noteq> 0 then None
      else if drop (length s - 2) s = ''=='' \<and> s \<noteq> [] then Some (take (length s - 2) s)
      else if drop (length s - 1) s = ''='' then Some (take (length s - 1) s)
      else Some s)"

definition base64Decode :: "string \<Rightarrow> bool \<Rightarrow> string \<Rightarrow> string option" where
  "base64Decode alphabet pad s0 =
     (let s = filter (\<lambda>c. c \<noteq> CHR 0x0A \<and> c \<noteq> CHR 0x0D) s0 in
      Option.bind (if pad then stripPadding s else Some s) (\<lambda>digits.
      Option.bind (opt_map (\<lambda>c. indexOf c alphabet) digits) (\<lambda>sextets.
      map_option (map char_of) (decodeSextets sextets))))"

section \<open>Round trip\<close>

definition good_alphabet :: "string \<Rightarrow> bool" where
  "good_alphabet a \<longleftrightarrow> length a = 64 \<and> distinct a \<and> list_all (\<lambda>c. c \<noteq> CHR 0x0A \<and> c \<noteq> CHR 0x0D \<and> c \<noteq> CHR ''='') a"

lemma good_alphabets: "good_alphabet stdAlphabet" "good_alphabet urlAlphabet" by code_simp+

lemma indexOf_nth: "distinct xs \<Longrightarrow> i < length xs \<Longrightarrow> indexOf (xs ! i) xs = Some i"
proof (induction xs arbitrary: i)
  case (Cons x xs)
  then show ?case by (cases i) auto
qed simp

fun sextets :: "nat list \<Rightarrow> nat list" where
  "sextets (a # b # c # bs) = [a div 4, a mod 4 * 16 + b div 16, b mod 16 * 4 + c div 64, c mod 64] @ sextets bs"
| "sextets [a, b] = [a div 4, a mod 4 * 16 + b div 16, b mod 16 * 4]"
| "sextets [a] = [a div 4, a mod 4 * 16]"
| "sextets [] = []"

lemma encodeBytes_raw: "encodeBytes alphabet False bs = map (\<lambda>i. alphabet ! i) (sextets bs)"
  by (induction alphabet False bs rule: encodeBytes.induct) simp_all

lemma sextets_less: "list_all (\<lambda>b. b < 256) bs \<Longrightarrow> list_all (\<lambda>i. i < 64) (sextets bs)"
  by (induction bs rule: sextets.induct) auto

lemma decodeSextets_sextets: "list_all (\<lambda>b. b < 256) bs \<Longrightarrow> decodeSextets (sextets bs) = Some bs"
proof (induction bs rule: sextets.induct)
  case (1 a b c bs)
  have "b div 16 < 16" "c div 64 < 4" using 1 by auto
  then have "(a mod 4 * 16 + b div 16) div 16 = a mod 4" "(a mod 4 * 16 + b div 16) mod 16 = b div 16"
    "(b mod 16 * 4 + c div 64) div 4 = b mod 16" "(b mod 16 * 4 + c div 64) mod 4 = c div 64" by simp_all
  then show ?case using 1 by (simp add: mult.commute [of _ "4 :: nat"])
next
  case (2 a b)
  have "b div 16 < 16" using 2 by auto
  then have "(a mod 4 * 16 + b div 16) div 16 = a mod 4" "(a mod 4 * 16 + b div 16) mod 16 = b div 16" by simp_all
  then show ?case by simp
qed auto

lemma opt_map_Some: "(\<And>x. x \<in> set xs \<Longrightarrow> f (g x) = Some x) \<Longrightarrow> opt_map f (map g xs) = Some xs"
  by (simp add: opt_map_def list_all_iff map_idI)

lemma base64_raw_roundtrip:
  assumes "good_alphabet alphabet"
  shows "base64Decode alphabet False (base64Encode alphabet False s) = Some s"
proof -
  let ?bs = "map of_char s :: nat list"
  have b: "list_all (\<lambda>b. b < 256) ?bs" by (simp add: list_all_iff nat_of_char_less_256)
  have al: "length alphabet = 64" "distinct alphabet" "\<And>c. c \<in> set alphabet \<Longrightarrow> c \<noteq> CHR 0x0A \<and> c \<noteq> CHR 0x0D"
    using assms by (auto simp: good_alphabet_def list_all_iff)
  have i: "i < 64" if "i \<in> set (sextets ?bs)" for i using sextets_less [OF b] that by (auto simp: list_all_iff)
  have "filter (\<lambda>c. c \<noteq> CHR 0x0A \<and> c \<noteq> CHR 0x0D) (map (\<lambda>i. alphabet ! i) (sextets ?bs)) = map (\<lambda>i. alphabet ! i) (sextets ?bs)"
    using i al(1,3) by (auto simp: filter_id_conv)
  moreover have "opt_map (\<lambda>c. indexOf c alphabet) (map (\<lambda>i. alphabet ! i) (sextets ?bs)) = Some (sextets ?bs)"
    using i al(1,2) by (intro opt_map_Some) (simp add: indexOf_nth)
  ultimately show ?thesis
    by (simp add: base64Decode_def base64Encode_def encodeBytes_raw decodeSextets_sextets [OF b] o_def)
qed

text \<open>With padding.\<close>

definition padding :: "nat list \<Rightarrow> string" where
  "padding bs = (if length bs mod 3 = 0 then [] else if length bs mod 3 = 1 then ''=='' else ''='')"

lemma encodeBytes_pad: "encodeBytes alphabet True bs = encodeBytes alphabet False bs @ padding bs"
proof (induction alphabet True bs rule: encodeBytes.induct)
  case (1 alphabet a b c bs)
  have "padding (a # b # c # bs) = padding bs" by (simp add: padding_def mod_Suc)
  then show ?case using 1 by simp
qed (simp_all add: padding_def)

lemma length_sextets: "length (sextets bs) mod 4 = (if length bs mod 3 = 0 then 0 else length bs mod 3 + 1)"
proof (induction bs rule: sextets.induct)
  case (1 a b c bs)
  have "length (a # b # c # bs) = length bs + 3" "length (sextets (a # b # c # bs)) = length (sextets bs) + 4" by simp_all
  then show ?case using 1 by (simp only: mod_add_self2)
qed simp_all

lemma stripPadding_none: "CHR ''='' \<notin> set r \<Longrightarrow> length r mod 4 = 0 \<Longrightarrow> stripPadding r = Some r"
proof (cases r rule: rev_cases)
  case (snoc r' x)
  assume a: "CHR ''='' \<notin> set r" "length r mod 4 = 0"
  then have x: "x \<noteq> CHR ''=''" using snoc by auto
  have "drop (length r - 1) r = [x]" using snoc by simp
  moreover have "last (drop (length r - 2) r) = x" using snoc by simp
  then have "drop (length r - 2) r \<noteq> ''==''" using x by auto
  ultimately show ?thesis using a x by (simp add: stripPadding_def)
qed (simp add: stripPadding_def)

lemma stripPadding_two: "length r mod 4 = 2 \<Longrightarrow> stripPadding (r @ ''=='') = Some r"
proof -
  assume "length r mod 4 = 2"
  then have "Suc (Suc (length r)) mod 4 = 0" by presburger
  then show ?thesis by (simp add: stripPadding_def)
qed

lemma stripPadding_one: "CHR ''='' \<notin> set r \<Longrightarrow> length r mod 4 = 3 \<Longrightarrow> stripPadding (r @ ''='') = Some r"
proof (cases r rule: rev_cases)
  case (snoc r' x)
  assume a: "CHR ''='' \<notin> set r" "length r mod 4 = 3"
  then have x: "x \<noteq> CHR ''=''" using snoc by auto
  have m: "Suc (length r) mod 4 = 0" using a(2) by presburger
  have "drop (length (r @ ''='') - 2) (r @ ''='') = [x, CHR ''='']" using snoc by simp
  then show ?thesis using x m by (simp add: stripPadding_def)
qed simp

lemma stripPadding_encode:
  assumes "good_alphabet alphabet" "list_all (\<lambda>b. b < 256) bs"
  shows "stripPadding (encodeBytes alphabet True bs) = Some (encodeBytes alphabet False bs)"
proof -
  let ?r = "encodeBytes alphabet False bs"
  have i: "i < 64" if "i \<in> set (sextets bs)" for i using sextets_less [OF assms(2)] that by (auto simp: list_all_iff)
  have al: "length alphabet = 64" "\<And>c. c \<in> set alphabet \<Longrightarrow> c \<noteq> CHR ''=''"
    using assms(1) by (auto simp: good_alphabet_def list_all_iff)
  have eq: "CHR ''='' \<notin> set ?r"
  proof
    assume "CHR ''='' \<in> set ?r"
    then obtain j where j: "j \<in> set (sextets bs)" "CHR ''='' = alphabet ! j" by (auto simp: encodeBytes_raw)
    then have "CHR ''='' \<in> set alphabet" using i al(1) nth_mem by metis
    then show False using al(2) by blast
  qed
  have len: "length ?r mod 4 = (if length bs mod 3 = 0 then 0 else length bs mod 3 + 1)"
    by (simp add: encodeBytes_raw length_sextets)
  consider "length bs mod 3 = 0" | "length bs mod 3 = 1" | "length bs mod 3 = 2" by linarith
  then show ?thesis
  proof cases
    case 1
    then have "length ?r mod 4 = 0" using len by simp
    then show ?thesis using 1 stripPadding_none [OF eq] by (simp add: encodeBytes_pad padding_def)
  next
    case 2
    then have "length ?r mod 4 = 2" using len by simp
    then show ?thesis using 2 stripPadding_two by (simp add: encodeBytes_pad padding_def)
  next
    case 3
    then have "length ?r mod 4 = 3" using len by simp
    then show ?thesis using 3 stripPadding_one [OF eq] by (simp add: encodeBytes_pad padding_def)
  qed
qed

lemma base64_padded_roundtrip:
  assumes "good_alphabet alphabet"
  shows "base64Decode alphabet True (base64Encode alphabet True s) = Some s"
proof -
  let ?bs = "map of_char s :: nat list"
  have b: "list_all (\<lambda>b. b < 256) ?bs" by (simp add: list_all_iff nat_of_char_less_256)
  have al: "length alphabet = 64" "\<And>c. c \<in> set alphabet \<Longrightarrow> c \<noteq> CHR 0x0A \<and> c \<noteq> CHR 0x0D"
    using assms by (auto simp: good_alphabet_def list_all_iff)
  have i: "i < 64" if "i \<in> set (sextets ?bs)" for i using sextets_less [OF b] that by (auto simp: list_all_iff)
  have "c \<noteq> CHR 0x0A \<and> c \<noteq> CHR 0x0D" if "c \<in> set (encodeBytes alphabet True ?bs)" for c
    using that i al by (auto simp: encodeBytes_pad encodeBytes_raw padding_def split: if_splits)
  then have f: "filter (\<lambda>c. c \<noteq> CHR 0x0A \<and> c \<noteq> CHR 0x0D) (encodeBytes alphabet True ?bs) = encodeBytes alphabet True ?bs"
    by (auto simp: filter_id_conv)
  have "c \<noteq> CHR 0x0A \<and> c \<noteq> CHR 0x0D" if "c \<in> set (encodeBytes alphabet False ?bs)" for c
    using that i al by (auto simp: encodeBytes_raw)
  then have "filter (\<lambda>c. c \<noteq> CHR 0x0A \<and> c \<noteq> CHR 0x0D) (encodeBytes alphabet False ?bs) = encodeBytes alphabet False ?bs"
    by (auto simp: filter_id_conv)
  then show ?thesis
    using base64_raw_roundtrip [OF assms, of s]
    by (simp add: base64Decode_def base64Encode_def Let_def f stripPadding_encode [OF assms b])
qed

end
