(* ===== verification/Database.thy ===== *)
theory Database
  imports DomainTypes
begin

text \<open>
  The PostgreSQL tables of \<^verbatim>\<open>migrations/\<close> that the repositories read and write, as lists of
  rows, and the rules of SQL the statements use: numeric columns are exact decimals, kept
  as the integer of their last decimal place; a value is written as text and read back
  through a cast; a timestamp keeps microseconds; a transaction whose body fails leaves no
  trace. The server, the driver and the network are outside the repository: a parameter
  \<open>fault\<close> says which statements they make fail. A commit that reports an error is taken as
  not done. Identifiers are in the lower-case form that the services generate.
\<close>

section \<open>Rows\<close>

record marketRow =
  mr_id :: string
  mr_merchant_id :: string
  mr_event_id :: string
  mr_type :: string
  mr_question :: string
  mr_options :: "string list"
  mr_status :: string
  mr_total_volume :: int
  mr_liquidity_pool :: int
  mr_created_at :: time
  mr_settled_at :: "time option"

record orderRow =
  or_id :: string
  or_merchant_id :: string
  or_user_id :: string
  or_market_id :: string
  or_type :: string
  or_option :: string
  or_amount :: int
  or_filled_amount :: int
  or_currency :: string
  or_price :: int
  or_time_in_force :: string
  or_status :: string
  or_idempotency_key :: "string option"
  or_created_at :: time
  or_filled_at :: "time option"

record tradeRow =
  tr_id :: string
  tr_market_id :: string
  tr_maker_order_id :: string
  tr_taker_order_id :: string
  tr_shares :: int
  tr_matched_price :: int
  tr_created_at :: time

record walletRow =
  wl_id :: string
  wl_merchant_id :: string
  wl_user_id :: string
  wl_currency :: string
  wl_balance :: int
  wl_locked_balance :: int
  wl_updated_at :: time

record transactionRow =
  tx_id :: string
  tx_wallet_id :: string
  tx_type :: string
  tx_amount :: int
  tx_currency :: string
  tx_related_order_id :: "string option"
  tx_idempotency_key :: "string option"
  tx_status :: string
  tx_created_at :: time

record settlementRow =
  sr_market_id :: string
  sr_event_id :: string
  sr_winning_option :: string
  sr_settled_at :: time

record payoutRow =
  pr_market_id :: string
  pr_order_id :: string
  pr_wallet_id :: string
  pr_currency :: string
  pr_stake :: int
  pr_payout :: int
  pr_created_at :: time

record auditRow =
  ar_event_id :: string
  ar_outcome :: string
  ar_resolution_source :: string
  ar_resolved_at :: time

record outboxRow =
  ob_id :: string
  ob_event_id :: string
  ob_event_type :: string
  ob_topic :: string
  ob_payload :: string
  ob_created_at :: time
  ob_published_at :: "time option"

text \<open>\<open>db_now\<close> is the server's clock, \<open>db_uuids\<close> the values \<^verbatim>\<open>gen_random_uuid()\<close> will return.\<close>

record db =
  db_merchants :: "(string \<times> string) list"
  db_events :: "event list"
  db_markets :: "marketRow list"
  db_orders :: "orderRow list"
  db_trades :: "tradeRow list"
  db_wallets :: "walletRow list"
  db_transactions :: "transactionRow list"
  db_settlements :: "settlementRow list"
  db_payouts :: "payoutRow list"
  db_audits :: "auditRow list"
  db_outbox :: "outboxRow list"
  db_now :: time
  db_uuids :: "nat \<Rightarrow> string"
  db_uuid_next :: nat

section \<open>Statements\<close>

type_synonym faults = "string \<Rightarrow> string \<Rightarrow> bool"

definition dbError :: go_error where
  "dbError = External ''database''"

text \<open>A server that refuses nothing.\<close>

definition all_fine :: faults where "all_fine = (\<lambda>_ _. False)"

lemma all_fine_simps [simp]: "\<not> all_fine s k" by (simp add: all_fine_def)

text \<open>A statement, named by its label and its key, that the server may refuse.\<close>

definition execute :: "faults \<Rightarrow> string \<Rightarrow> string \<Rightarrow> string \<Rightarrow> unit res" where
  "execute fault stmt key message =
     (if fault stmt key then Inl (Wrapped message dbError) else Inr ())"

definition inTx ::
  "faults \<Rightarrow> string \<Rightarrow> string \<Rightarrow> string \<Rightarrow> (db \<Rightarrow> 'a res \<times> db) \<Rightarrow> db \<Rightarrow> 'a res \<times> db" where
  "inTx fault key beginMessage commitMessage body d =
     (case execute fault ''begin'' key beginMessage of
        Inl err \<Rightarrow> (Inl err, d)
      | Inr _ \<Rightarrow> (case body d of
          (Inl err, d') \<Rightarrow> (Inl err, d)
        | (Inr x, d') \<Rightarrow> (case execute fault ''commit'' key commitMessage of
            Inl err \<Rightarrow> (Inl err, d)
          | Inr _ \<Rightarrow> (Inr x, d'))))"

text \<open>Sequencing inside a transaction.\<close>

definition andThen :: "'a res \<times> 's \<Rightarrow> ('a \<Rightarrow> 's \<Rightarrow> 'b res \<times> 's) \<Rightarrow> 'b res \<times> 's" where
  "andThen p k = (case p of (Inl err, s) \<Rightarrow> (Inl err, s) | (Inr x, s) \<Rightarrow> k x s)"

lemma andThen_simps [simp]:
  "andThen (Inl err, s) k = (Inl err, s)" "andThen (Inr x, s) k = k x s"
  by (simp_all add: andThen_def)

lemma andThen_Inr:
  "andThen p k = (Inr y, s') \<longleftrightarrow> (\<exists>x s. p = (Inr x, s) \<and> k x s = (Inr y, s'))"
  by (cases p; cases "fst p") (auto simp: andThen_def)

lemma inTx_Inl: "fst (inTx fault key m1 m2 body d) = Inl err \<Longrightarrow> snd (inTx fault key m1 m2 body d) = d"
  by (auto simp: inTx_def split: sum.splits prod.splits)

lemma inTx_Inr:
  "inTx fault key m1 m2 body d = (Inr x, d') \<longleftrightarrow>
     \<not> fault ''begin'' key \<and> \<not> fault ''commit'' key \<and> body d = (Inr x, d')"
  by (auto simp: inTx_def execute_def split: sum.splits prod.splits)

lemma inTx_ok:
  "\<not> fault ''begin'' key \<Longrightarrow> \<not> fault ''commit'' key \<Longrightarrow>
    inTx fault key m1 m2 body d = (case body d of (Inl err, _) \<Rightarrow> (Inl err, d) | (Inr x, d') \<Rightarrow> (Inr x, d'))"
  by (auto simp: inTx_def execute_def split: sum.split prod.split)

section \<open>Values\<close>

text \<open>A timestamp column keeps microseconds.\<close>

definition stamp :: "time \<Rightarrow> time" where
  "stamp t = t div 1000 * 1000"

lemma stamp_stamp [simp]: "stamp (stamp t) = stamp t" by (simp add: stamp_def)

text \<open>\<^verbatim>\<open>x::text\<close> of a numeric column with \<open>places\<close> decimals, and the cast of such a text back.\<close>

definition numericText :: "nat \<Rightarrow> int \<Rightarrow> string" where
  "numericText places u =
     (let v = \<bar>u\<bar>; fraction = dec_of (v mod 10 ^ places)
      in (if u < 0 then ''-'' else []) @ dec_of (v div 10 ^ places) @ ''.''
         @ zeros (places - length fraction) @ fraction)"

definition castNumeric :: "nat \<Rightarrow> string \<Rightarrow> int option" where
  "castNumeric places s =
     (case split_on (CHR ''.'') s of
        [whole, fraction] \<Rightarrow>
          if length fraction = places \<and> list_all is_digit fraction then setString (whole @ fraction) else None
      | _ \<Rightarrow> None)"

text \<open>
  A numeric column scanned into a \<^verbatim>\<open>float64\<close>: the driver hands over its text, which
  \<^verbatim>\<open>strconv.ParseFloat\<close> rounds to the nearest float.
\<close>

definition numericFloat :: "nat \<Rightarrow> int \<Rightarrow> float64" where
  "numericFloat places u = f64 (of_int u / 10 ^ places)"

definition freshUUID :: "db \<Rightarrow> string \<times> db" where
  "freshUUID d = (db_uuids d (db_uuid_next d), d\<lparr>db_uuid_next := Suc (db_uuid_next d)\<rparr>)"

text \<open>\<^verbatim>\<open>UPDATE ... SET ... WHERE p\<close>: the new rows and the number of rows affected.\<close>

definition updateWhere :: "('r \<Rightarrow> bool) \<Rightarrow> ('r \<Rightarrow> 'r) \<Rightarrow> 'r list \<Rightarrow> 'r list" where
  "updateWhere p f rows = map (\<lambda>r. if p r then f r else r) rows"

definition rowsAffected :: "('r \<Rightarrow> bool) \<Rightarrow> 'r list \<Rightarrow> nat" where
  "rowsAffected p rows = length (filter p rows)"

lemma updateWhere_length [simp]: "length (updateWhere p f rows) = length rows"
  by (simp add: updateWhere_def)

lemma updateWhere_none: "rowsAffected p rows = 0 \<Longrightarrow> updateWhere p f rows = rows"
  by (induction rows) (auto simp: updateWhere_def rowsAffected_def split: if_splits)

lemma updateWhere_append [simp]: "updateWhere p f (xs @ ys) = updateWhere p f xs @ updateWhere p f ys"
  by (simp add: updateWhere_def)

text \<open>Printing a non-negative number of units and casting it back gives the number.\<close>

lemma fraction_digits:
  assumes "0 \<le> v" "0 < places"
  shows "length (zeros (places - length (dec_of (v mod 10 ^ places))) @ dec_of (v mod 10 ^ places)) = places"
    and "list_all is_digit (zeros (places - length (dec_of (v mod 10 ^ places))) @ dec_of (v mod 10 ^ places))"
    and "digits_val (zeros (places - length (dec_of (v mod 10 ^ places))) @ dec_of (v mod 10 ^ places)) = v mod 10 ^ places"
proof -
  have b: "0 \<le> v mod 10 ^ places" "v mod 10 ^ places < 10 ^ places" using assms(1) by simp_all
  show "length (zeros (places - length (dec_of (v mod 10 ^ places))) @ dec_of (v mod 10 ^ places)) = places"
    using length_dec_of [OF assms(2) b(2)] by simp
  show "list_all is_digit (zeros (places - length (dec_of (v mod 10 ^ places))) @ dec_of (v mod 10 ^ places))"
    using digits_dec_of [OF b(1)] digits_zeros by simp
  show "digits_val (zeros (places - length (dec_of (v mod 10 ^ places))) @ dec_of (v mod 10 ^ places)) = v mod 10 ^ places"
    using b(1) by (simp add: digits_val_append)
qed

lemma decimal_parts:
  assumes "0 \<le> v" "0 < places"
    and "fr = zeros (places - length (dec_of (v mod 10 ^ places))) @ dec_of (v mod 10 ^ places)"
  shows "split_on (CHR ''.'') (dec_of (v div 10 ^ places) @ ''.'' @ fr) = [dec_of (v div 10 ^ places), fr]"
    and "setString (dec_of (v div 10 ^ places) @ fr) = Some v"
    and "length fr = places" "list_all is_digit fr"
proof -
  note f = fraction_digits [OF assms(1,2), folded assms(3)]
  have w: "0 \<le> v div 10 ^ places" using assms(1) by (simp add: pos_imp_zdiv_nonneg_iff)
  have d: "list_all is_digit (dec_of (v div 10 ^ places))" using digits_dec_of [OF w] .
  show "split_on (CHR ''.'') (dec_of (v div 10 ^ places) @ ''.'' @ fr) = [dec_of (v div 10 ^ places), fr]"
    using split_on_one [OF digits_no_point [OF d] digits_no_point [OF f(2)]] by simp
  have "setString (dec_of (v div 10 ^ places) @ fr)
      = Some (digits_val (dec_of (v div 10 ^ places)) * 10 ^ places + v mod 10 ^ places)"
    using setString_digits [of "dec_of (v div 10 ^ places) @ fr"] d f by (simp add: digits_val_append)
  then show "setString (dec_of (v div 10 ^ places) @ fr) = Some v"
    using w by (simp add: mult.commute)
  show "length fr = places" "list_all is_digit fr" using f by simp_all
qed

lemma castNumeric_numericText: "0 \<le> u \<Longrightarrow> 0 < places \<Longrightarrow> castNumeric places (numericText places u) = Some u"
  using decimal_parts [of u places, OF _ _ refl]
  by (simp add: castNumeric_def numericText_def Let_def)

end
