(* ===== verification/Settlement.thy ===== *)
theory Settlement
  imports Database
begin

text \<open>
  \<^verbatim>\<open>internal/settlement/settlement.go\<close> and \<^verbatim>\<open>postgres_repository.go\<close>: settling the markets
  of a resolved event, one transaction for each market. Amounts are \<^verbatim>\<open>big.Int\<close>, here
  \<open>int\<close>; the shared \<^verbatim>\<open>*settlementOrder\<close> pointers of the slice and of \<^verbatim>\<open>ordersByID\<close> are one
  list of records, updated by identifier. Where Go iterates a map to report one of several
  errors the model reports the first in list order.
\<close>

section \<open>Fixed-point text\<close>

definition parseFixed :: "string \<Rightarrow> nat \<Rightarrow> int res" where
  "parseFixed input decimals =
     (let parts = split_on (CHR ''.'') input in
      if length parts > 2 \<or> parts ! 0 = [] then Inl (Plain ''invalid fixed-point value'')
      else let fraction = (if length parts = 2 then parts ! 1 else []) in
        if length fraction > decimals then Inl (Plain ''fixed-point value has more decimals'')
        else let padded = fraction @ zeros (decimals - length fraction) in
          (case setString (parts ! 0 @ padded) of
            None \<Rightarrow> Inl (Plain ''invalid fixed-point value'')
          | Some v \<Rightarrow> if v < 0 then Inl (Plain ''invalid fixed-point value'') else Inr v))"

definition parseCents :: "string \<Rightarrow> int res" where
  "parseCents v = parseFixed v 2"

definition parseShares :: "string \<Rightarrow> int res" where
  "parseShares v = parseFixed v 6"

definition shareScale :: int where "shareScale = 1000000"
definition priceScale :: int where "priceScale = 1000000"
definition centsScale :: int where "centsScale = 100"

definition bigDivideRounded :: "int \<Rightarrow> int \<Rightarrow> int" where
  "bigDivideRounded v denominator =
     (let quotient = v sdiv denominator; remainder = v smod denominator
      in if denominator \<le> push_bit 1 remainder then quotient + 1 else quotient)"

definition collateralCents :: "string \<Rightarrow> int \<Rightarrow> int \<Rightarrow> int" where
  "collateralCents side shares price =
     (let exposurePrice = (if side = ''sell'' then priceScale - price else price)
      in bigDivideRounded (shares * exposurePrice * centsScale) (shareScale * priceScale))"

definition payoutCents :: "int \<Rightarrow> int" where
  "payoutCents shares = bigDivideRounded (shares * centsScale) shareScale"

definition formatCents :: "int \<Rightarrow> string" where
  "formatCents cents =
     (let v0 = formatInt cents;
          v = (if length v0 < 3 then zeros (3 - length v0) @ v0 else v0)
      in take (length v - 2) v @ ''.'' @ drop (length v - 2) v)"

section \<open>Payouts\<close>

record settlementOrder =
  so_id :: string
  so_walletID :: string
  so_side :: string
  so_option :: string
  so_currency :: string
  so_status :: string
  so_amount :: int
  so_filled :: int
  so_price :: int
  so_stake :: int
  so_payout :: int
  so_refund :: int
  so_lockedUse :: int

definition orderWins :: "settlementOrder \<Rightarrow> string \<Rightarrow> bool" where
  "orderWins v winningOption \<longleftrightarrow>
     (so_side v = ''buy'' \<and> so_option v = winningOption)
     \<or> (so_side v = ''sell'' \<and> so_option v \<noteq> winningOption)"

definition orderPayout :: "string \<Rightarrow> settlementOrder \<Rightarrow> settlementOrder" where
  "orderPayout winningOption v0 =
     (let v1 = v0\<lparr>so_payout := 0, so_refund := 0, so_lockedUse := so_stake v0\<rparr>;
          unfilledShares = so_amount v1 - so_filled v1;
          v2 = (if unfilledShares > 0
                then let refund = collateralCents (so_side v1) unfilledShares (so_price v1)
                     in v1\<lparr>so_refund := refund, so_lockedUse := so_lockedUse v1 + refund\<rparr>
                else v1)
      in if orderWins v2 winningOption then v2\<lparr>so_payout := payoutCents (so_filled v2)\<rparr> else v2)"

definition calculatePayouts :: "settlementOrder list \<Rightarrow> string \<Rightarrow> settlementOrder list" where
  "calculatePayouts orders winningOption = map (orderPayout winningOption) orders"

definition stakeOf :: "settlementOrder list \<Rightarrow> string \<Rightarrow> int" where
  "stakeOf orders currency = (\<Sum>v \<leftarrow> filter (\<lambda>v. so_currency v = currency) orders. so_stake v)"

definition payoutOf :: "settlementOrder list \<Rightarrow> string \<Rightarrow> int" where
  "payoutOf orders currency = (\<Sum>v \<leftarrow> filter (\<lambda>v. so_currency v = currency) orders. so_payout v)"

definition assertPayoutConservation :: "settlementOrder list \<Rightarrow> unit res" where
  "assertPayoutConservation orders =
     (case find (\<lambda>currency. stakeOf orders currency \<noteq> payoutOf orders currency)
             (remdups (map so_currency orders)) of
        Some currency \<Rightarrow> Inl (Plain (''settlement payout does not conserve the pool of '' @ currency))
      | None \<Rightarrow> Inr ())"

section \<open>Reading an event and its markets\<close>

definition resolvedEventOutcome :: "faults \<Rightarrow> string \<Rightarrow> db \<Rightarrow> string res" where
  "resolvedEventOutcome fault eventID d =
     (if fault ''select event'' eventID \<or> \<not> uuidText eventID then Inl (Wrapped ''get settlement event'' dbError)
      else case find (\<lambda>e. e_ID e = eventID) (db_events d) of
          None \<Rightarrow> Inl (Sentinel SettlementErrEventNotFound)
        | Some e \<Rightarrow>
            let outcome = (case e_Outcome e of None \<Rightarrow> [] | Some v \<Rightarrow> v) in
            if e_Status e \<noteq> ''resolved'' \<or> outcome = [] then Inl (Sentinel SettlementErrEventUnresolved)
            else Inr outcome)"

definition isSettled :: "db \<Rightarrow> string \<Rightarrow> bool" where
  "isSettled d marketID = list_ex (\<lambda>s. sr_market_id s = marketID) (db_settlements d)"

definition unsettledMarketIDs :: "faults \<Rightarrow> string \<Rightarrow> db \<Rightarrow> string list res" where
  "unsettledMarketIDs fault eventID d =
     (if fault ''select unsettled markets'' eventID then Inl (Wrapped ''list unsettled markets'' dbError)
      else Inr (sort (map mr_id
        (filter (\<lambda>m. mr_event_id m = eventID \<and> \<not> isSettled d (mr_id m)) (db_markets d)))))"

definition lockMarketForSettlement :: "faults \<Rightarrow> string \<Rightarrow> string \<Rightarrow> string \<Rightarrow> db \<Rightarrow> bool res" where
  "lockMarketForSettlement fault marketID eventID winningOption d =
     (if fault ''select market'' marketID then Inl (Wrapped ''lock settlement market'' dbError)
      else case find (\<lambda>m. mr_id m = marketID \<and> mr_event_id m = eventID) (db_markets d) of
          None \<Rightarrow> Inr True
        | Some m \<Rightarrow>
            if winningOption \<notin> set (mr_options m)
            then Inl (Wrapped (''market '' @ marketID) (Sentinel SettlementErrOutcomeNotOption))
            else if fault ''select settlement'' marketID then Inl (Wrapped ''check market settlement'' dbError)
            else Inr (isSettled d marketID))"

section \<open>Reading the orders and trades of a market\<close>

definition orderWallet :: "db \<Rightarrow> orderRow \<Rightarrow> walletRow option" where
  "orderWallet d r = find (\<lambda>w. wl_merchant_id w = or_merchant_id r \<and> wl_user_id w = or_user_id r
     \<and> wl_currency w = or_currency r) (db_wallets d)"

definition scanSettlementOrder :: "db \<Rightarrow> orderRow \<Rightarrow> settlementOrder res" where
  "scanSettlementOrder d r =
     (case orderWallet d r of
        None \<Rightarrow> Inl (Wrapped (''order '' @ or_id r) (Sentinel SettlementErrOrderWalletNotFound))
      | Some w \<Rightarrow>
          bind_res (parseShares (numericText 6 (or_amount r))) (\<lambda>amount.
          bind_res (parseShares (numericText 6 (or_filled_amount r))) (\<lambda>filled.
          bind_res (parseFixed (numericText 6 (or_price r)) 6) (\<lambda>p.
            Inr \<lparr>so_id = or_id r, so_walletID = wl_id w, so_side = or_type r, so_option = or_option r,
              so_currency = or_currency r, so_status = or_status r, so_amount = amount,
              so_filled = filled, so_price = p, so_stake = 0, so_payout = 0, so_refund = 0,
              so_lockedUse = 0\<rparr>))))"

fun scanAll :: "('r \<Rightarrow> 'a res) \<Rightarrow> 'r list \<Rightarrow> 'a list res" where
  "scanAll scan [] = Inr []"
| "scanAll scan (r # rows) = bind_res (scan r) (\<lambda>v. bind_res (scanAll scan rows) (\<lambda>vs. Inr (v # vs)))"

definition lockSettlementWallets :: "faults \<Rightarrow> string \<Rightarrow> settlementOrder list \<Rightarrow> db \<Rightarrow> unit res" where
  "lockSettlementWallets fault marketID orders d =
     (let walletIDs = sort (remdups (map so_walletID orders)) in
      if walletIDs = [] then Inr ()
      else if fault ''lock wallets'' marketID then Inl (Wrapped ''lock settlement wallets'' dbError)
      else let lockedWallets = remdups (filter (\<lambda>i. i \<in> set walletIDs) (map wl_id (db_wallets d)))
        in if length lockedWallets \<noteq> length walletIDs
           then Inl (Sentinel SettlementErrOrderWalletNotFound) else Inr ())"

definition orderByID :: "string \<Rightarrow> settlementOrder list \<Rightarrow> settlementOrder option" where
  "orderByID i orders = find (\<lambda>v. so_id v = i) orders"

definition tradeParties ::
  "settlementOrder \<Rightarrow> settlementOrder \<Rightarrow> (settlementOrder \<times> settlementOrder) res" where
  "tradeParties maker taker =
     (if so_side maker = ''buy'' \<and> so_side taker = ''sell'' then Inr (maker, taker)
      else if so_side maker = ''sell'' \<and> so_side taker = ''buy'' then Inr (taker, maker)
      else Inl (Plain ''settlement trade does not have a buy and a sell order''))"

definition addStake :: "string \<Rightarrow> int \<Rightarrow> settlementOrder list \<Rightarrow> settlementOrder list" where
  "addStake i stake orders = map (\<lambda>v. if so_id v = i then v\<lparr>so_stake := so_stake v + stake\<rparr> else v) orders"

definition addMatchedShares :: "(string \<Rightarrow> int) \<Rightarrow> string \<Rightarrow> int \<Rightarrow> string \<Rightarrow> int" where
  "addMatchedShares matched i n = matched(i := matched i + n)"

text \<open>One row of the trade loop.\<close>

definition stakeTrade ::
  "tradeRow \<Rightarrow> settlementOrder list \<times> (string \<Rightarrow> int) \<Rightarrow> (settlementOrder list \<times> (string \<Rightarrow> int)) res" where
  "stakeTrade t s = (case s of (orders, matched) \<Rightarrow>
     (case (orderByID (tr_maker_order_id t) orders, orderByID (tr_taker_order_id t) orders) of
        (Some maker, Some taker) \<Rightarrow>
          bind_res (parseShares (numericText 6 (tr_shares t))) (\<lambda>shares.
          bind_res (parseFixed (numericText 6 (tr_matched_price t)) 6) (\<lambda>matchedPrice.
          bind_res (tradeParties maker taker) (\<lambda>(buyer, seller).
            let buyerStake = collateralCents ''buy'' shares matchedPrice;
                sellerStake = payoutCents shares - buyerStake
            in Inr (addStake (so_id seller) sellerStake (addStake (so_id buyer) buyerStake orders),
                    addMatchedShares (addMatchedShares matched (so_id buyer) shares) (so_id seller) shares))))
      | _ \<Rightarrow> Inl (Plain ''settlement trade references an order outside its market'')))"

fun stakeTrades ::
  "tradeRow list \<Rightarrow> settlementOrder list \<times> (string \<Rightarrow> int) \<Rightarrow> (settlementOrder list \<times> (string \<Rightarrow> int)) res" where
  "stakeTrades [] s = Inr s"
| "stakeTrades (t # ts) s = bind_res (stakeTrade t s) (stakeTrades ts)"

definition checkMatched :: "settlementOrder list \<Rightarrow> (string \<Rightarrow> int) \<Rightarrow> unit res" where
  "checkMatched orders matched =
     (case find (\<lambda>v. matched (so_id v) \<noteq> so_filled v) orders of
        Some v \<Rightarrow> Inl (Plain (''order '' @ so_id v @ '' filled shares do not match its persisted trades''))
      | None \<Rightarrow> Inr ())"

definition lockTradeStakes ::
  "faults \<Rightarrow> string \<Rightarrow> settlementOrder list \<Rightarrow> db \<Rightarrow> settlementOrder list res" where
  "lockTradeStakes fault marketID orders d =
     (if fault ''lock trades'' marketID then Inl (Wrapped ''lock settlement trades'' dbError)
      else bind_res (stakeTrades (sort_key tr_id (filter (\<lambda>t. tr_market_id t = marketID) (db_trades d)))
          (orders, \<lambda>_. 0)) (\<lambda>(orders', matched).
        bind_res (checkMatched orders' matched) (\<lambda>_. Inr orders')))"

definition lockSettlementOrders :: "faults \<Rightarrow> string \<Rightarrow> db \<Rightarrow> settlementOrder list res" where
  "lockSettlementOrders fault marketID d =
     (if fault ''lock orders'' marketID then Inl (Wrapped ''lock settlement orders'' dbError)
      else bind_res (scanAll (scanSettlementOrder d)
          (sort_key or_id (filter (\<lambda>v. or_market_id v = marketID) (db_orders d)))) (\<lambda>orders.
        bind_res (lockSettlementWallets fault marketID orders d) (\<lambda>_.
          lockTradeStakes fault marketID orders d)))"

section \<open>Writing a settlement\<close>

definition castCents :: "string \<Rightarrow> string \<Rightarrow> int res" where
  "castCents message text = (case castNumeric 2 text of
      None \<Rightarrow> Inl (Wrapped message dbError) | Some c \<Rightarrow> Inr c)"

definition insertSettlementTransaction ::
  "faults \<Rightarrow> string \<Rightarrow> string \<Rightarrow> int \<Rightarrow> string \<Rightarrow> string \<Rightarrow> time \<Rightarrow> db \<Rightarrow> unit res \<times> db" where
  "insertSettlementTransaction fault walletID typeName amount currency orderID createdAt d =
     (case freshUUID d of (i, d1) \<Rightarrow>
        if fault (''insert '' @ typeName) orderID \<or> list_ex (\<lambda>t. tx_id t = i) (db_transactions d)
        then (Inl (Wrapped (''insert '' @ typeName @ '' settlement transaction'') dbError), d)
        else (case castCents (''insert '' @ typeName @ '' settlement transaction'') (formatCents amount) of
            Inl err \<Rightarrow> (Inl err, d)
          | Inr c \<Rightarrow> (Inr (), d1\<lparr>db_transactions := db_transactions d1 @
              [\<lparr>tx_id = i, tx_wallet_id = walletID, tx_type = typeName, tx_amount = c, tx_currency = currency,
                tx_related_order_id = Some orderID, tx_idempotency_key = None, tx_status = ''completed'',
                tx_created_at = stamp createdAt\<rparr>]\<rparr>)))"

definition payWallet :: "faults \<Rightarrow> settlementOrder \<Rightarrow> db \<Rightarrow> unit res \<times> db" where
  "payWallet fault v d =
     (if so_lockedUse v > 0 \<or> so_refund v > 0 \<or> so_payout v > 0 then
        if fault ''update wallet'' (so_id v)
        then (Inl (Wrapped (''update settled wallet for order '' @ so_id v) dbError), d)
        else (case bind_res (castCents (''update settled wallet for order '' @ so_id v) (formatCents (so_refund v))) (\<lambda>refund.
                bind_res (castCents (''update settled wallet for order '' @ so_id v) (formatCents (so_payout v))) (\<lambda>payout.
                bind_res (castCents (''update settled wallet for order '' @ so_id v) (formatCents (so_lockedUse v))) (\<lambda>used.
                  Inr (refund, payout, used)))) of
            Inl err \<Rightarrow> (Inl err, d)
          | Inr (refund, payout, used) \<Rightarrow>
              let p = (\<lambda>w. wl_id w = so_walletID v \<and> wl_locked_balance w \<ge> used)
              in if rowsAffected p (db_wallets d) \<noteq> 1
                 then (Inl (Plain (''settled wallet for order '' @ so_id v @ '' has insufficient locked balance'')), d)
                 else (Inr (), d\<lparr>db_wallets := updateWhere p
                   (\<lambda>w. w\<lparr>wl_balance := wl_balance w + refund + payout,
                          wl_locked_balance := wl_locked_balance w - used,
                          wl_updated_at := db_now d\<rparr>) (db_wallets d)\<rparr>))
      else (Inr (), d))"

definition cancelRemainder :: "faults \<Rightarrow> settlementOrder \<Rightarrow> db \<Rightarrow> unit res \<times> db" where
  "cancelRemainder fault v d =
     (if so_status v = ''pending'' \<or> so_status v = ''partial'' then
        if fault ''cancel order'' (so_id v) then (Inl (Wrapped ''cancel settled order remainder'' dbError), d)
        else (Inr (), d\<lparr>db_orders := updateWhere (\<lambda>r. or_id r = so_id v)
               (\<lambda>r. r\<lparr>or_status := ''cancelled''\<rparr>) (db_orders d)\<rparr>)
      else (Inr (), d))"

definition insertPayout :: "faults \<Rightarrow> string \<Rightarrow> settlementOrder \<Rightarrow> time \<Rightarrow> db \<Rightarrow> unit res \<times> db" where
  "insertPayout fault marketID v settledAt d =
     (if fault ''insert payout'' (so_id v)
         \<or> list_ex (\<lambda>p. pr_market_id p = marketID \<and> pr_order_id p = so_id v) (db_payouts d)
      then (Inl (Wrapped ''insert order settlement payout'' dbError), d)
      else (case bind_res (castCents ''insert order settlement payout'' (formatCents (so_stake v))) (\<lambda>stake.
              bind_res (castCents ''insert order settlement payout'' (formatCents (so_payout v))) (\<lambda>payout.
                Inr (stake, payout))) of
          Inl err \<Rightarrow> (Inl err, d)
        | Inr (stake, payout) \<Rightarrow> (Inr (), d\<lparr>db_payouts := db_payouts d @
            [\<lparr>pr_market_id = marketID, pr_order_id = so_id v, pr_wallet_id = so_walletID v,
              pr_currency = so_currency v, pr_stake = stake, pr_payout = payout,
              pr_created_at = stamp settledAt\<rparr>]\<rparr>)))"

definition applyOrderSettlement ::
  "faults \<Rightarrow> string \<Rightarrow> settlementOrder \<Rightarrow> time \<Rightarrow> db \<Rightarrow> unit res \<times> db" where
  "applyOrderSettlement fault marketID v settledAt d =
     andThen (payWallet fault v d) (\<lambda>_ d1.
     andThen (cancelRemainder fault v d1) (\<lambda>_ d2.
       if so_filled v = 0 then (Inr (), d2)
       else andThen (insertPayout fault marketID v settledAt d2) (\<lambda>_ d3.
         andThen (insertSettlementTransaction fault (so_walletID v) ''bet'' (so_stake v) (so_currency v)
             (so_id v) settledAt d3) (\<lambda>_ d4.
           if so_payout v > 0
           then insertSettlementTransaction fault (so_walletID v) ''win'' (so_payout v) (so_currency v)
             (so_id v) settledAt d4
           else (Inr (), d4)))))"

fun applySettlements :: "faults \<Rightarrow> string \<Rightarrow> settlementOrder list \<Rightarrow> time \<Rightarrow> db \<Rightarrow> unit res \<times> db" where
  "applySettlements fault marketID [] settledAt d = (Inr (), d)"
| "applySettlements fault marketID (v # vs) settledAt d =
     andThen (applyOrderSettlement fault marketID v settledAt d)
       (\<lambda>_ d'. applySettlements fault marketID vs settledAt d')"

definition recordSettlement ::
  "faults \<Rightarrow> string \<Rightarrow> string \<Rightarrow> string \<Rightarrow> time \<Rightarrow> db \<Rightarrow> unit res \<times> db" where
  "recordSettlement fault marketID eventID winningOption settledAt d =
     (if fault ''insert settlement'' marketID \<or> isSettled d marketID
      then (Inl (Wrapped ''insert market settlement'' dbError), d)
      else let d1 = d\<lparr>db_settlements := db_settlements d @ [\<lparr>sr_market_id = marketID, sr_event_id = eventID,
                   sr_winning_option = winningOption, sr_settled_at = stamp settledAt\<rparr>]\<rparr>
        in if fault ''mark market'' marketID then (Inl (Wrapped ''mark market settled'' dbError), d1)
           else (Inr (), d1\<lparr>db_markets := updateWhere (\<lambda>m. mr_id m = marketID)
             (\<lambda>m. m\<lparr>mr_status := ''settled'', mr_settled_at := Some (stamp settledAt)\<rparr>) (db_markets d1)\<rparr>))"

text \<open>The function \<^verbatim>\<open>settleMarket\<close>, run inside the transaction of the method of that name.\<close>

definition settleMarketTx ::
  "faults \<Rightarrow> string \<Rightarrow> string \<Rightarrow> string \<Rightarrow> time \<Rightarrow> db \<Rightarrow> unit res \<times> db" where
  "settleMarketTx fault marketID eventID winningOption settledAt d =
     (case lockSettlementOrders fault marketID d of
        Inl err \<Rightarrow> (Inl err, d)
      | Inr orders0 \<Rightarrow>
          let orders = calculatePayouts orders0 winningOption in
          (case assertPayoutConservation orders of
            Inl err \<Rightarrow> (Inl err, d)
          | Inr _ \<Rightarrow> andThen (applySettlements fault marketID orders settledAt d)
              (\<lambda>_ d'. recordSettlement fault marketID eventID winningOption settledAt d')))"

definition settleMarket ::
  "faults \<Rightarrow> string \<Rightarrow> string \<Rightarrow> string \<Rightarrow> time \<Rightarrow> db \<Rightarrow> unit res \<times> db" where
  "settleMarket fault marketID eventID winningOption settledAt d =
     (if fault ''begin'' marketID then (Inl (Wrapped ''begin market settlement'' dbError), d)
      else case lockMarketForSettlement fault marketID eventID winningOption d of
          Inl err \<Rightarrow> (Inl err, d)
        | Inr True \<Rightarrow> (Inr (), d)
        | Inr False \<Rightarrow> (case settleMarketTx fault marketID eventID winningOption settledAt d of
            (Inl err, d') \<Rightarrow> (Inl err, d)
          | (Inr _, d') \<Rightarrow>
              if fault ''commit'' marketID then (Inl (Wrapped ''commit market settlement'' dbError), d)
              else (Inr (), d')))"

text \<open>\<^verbatim>\<open>errors.Join(acc, err)\<close> with \<^verbatim>\<open>acc\<close> possibly nil.\<close>

definition joinErrors :: "go_error option \<Rightarrow> go_error \<Rightarrow> go_error option" where
  "joinErrors acc err = Some (Joined (case acc of None \<Rightarrow> [err] | Some a \<Rightarrow> [a, err]))"

fun settleMarkets ::
  "faults \<Rightarrow> string list \<Rightarrow> string \<Rightarrow> string \<Rightarrow> time \<Rightarrow> go_error option \<Rightarrow> db \<Rightarrow> unit res \<times> db" where
  "settleMarkets fault [] eventID winningOption settledAt acc d =
     ((case acc of None \<Rightarrow> Inr () | Some err \<Rightarrow> Inl err), d)"
| "settleMarkets fault (marketID # ids) eventID winningOption settledAt acc d =
     (case settleMarket fault marketID eventID winningOption settledAt d of
        (Inl err, d') \<Rightarrow>
          if errorsIs err SettlementErrOutcomeNotOption \<or> errorsIs err SettlementErrOrderWalletNotFound
          then settleMarkets fault ids eventID winningOption settledAt (joinErrors acc err) d'
          else (Inl err, d')
      | (Inr _, d') \<Rightarrow> settleMarkets fault ids eventID winningOption settledAt acc d')"

definition settlementRepoSettleEvent :: "faults \<Rightarrow> string \<Rightarrow> time \<Rightarrow> db \<Rightarrow> unit res \<times> db" where
  "settlementRepoSettleEvent fault eventID settledAt d =
     (case resolvedEventOutcome fault eventID d of
        Inl err \<Rightarrow> (Inl err, d)
      | Inr winningOption \<Rightarrow> (case unsettledMarketIDs fault eventID d of
          Inl err \<Rightarrow> (Inl err, d)
        | Inr marketIDs \<Rightarrow> settleMarkets fault marketIDs eventID winningOption settledAt None d))"

definition settleEvent :: "faults \<Rightarrow> string \<Rightarrow> time \<Rightarrow> db \<Rightarrow> unit res \<times> db" where
  "settleEvent fault eventID0 now d =
     (let eventID = trimSpace eventID0 in
      if \<not> isUUID eventID then (Inl (Plain ''invalid event_id: must be a UUID''), d)
      else case settlementRepoSettleEvent fault eventID now d of
          (Inl err, d') \<Rightarrow> (Inl (wrap_error ''settle event'' err), d')
        | (Inr _, d') \<Rightarrow> (Inr (), d'))"

end
