(* ===== verification/SettlementWorker.thy ===== *)
theory SettlementWorker
  imports Base64 Settlement
begin

text \<open>
  \<^verbatim>\<open>internal/settlementworker\<close> and the message types of \<^verbatim>\<open>internal/messaging\<close>: the dispatcher
  that publishes the outbox and the consumer that settles resolved events, retries with a
  growing delay and moves what it cannot settle to the dead-letter topic. The event stream is
  outside the repository: a parameter says whether it refuses a publication or an
  acknowledgement, and what was published stays published when the database transaction
  around it is rolled back. \<^verbatim>\<open>encoding/json\<close> is a parameter too: \<open>unmarshal\<close> turns the bytes of a
  message into an envelope or fails, and a dead letter is kept as the record it is the
  document of. Its reason is the error itself, not its text.
\<close>

section \<open>Messages\<close>

definition EventResolvedType :: string where "EventResolvedType = ''event_resolved''"
definition EventResolvedTopic :: string where "EventResolvedTopic = ''predictmarket.event_resolved''"
definition DeadLetterTopic :: string where "DeadLetterTopic = ''predictmarket.event_resolved.dead_letter''"

record envelope =
  en_Type :: string
  en_Timestamp :: time
  en_EventID :: string
  en_Outcome :: string

definition NewEventResolved :: "string \<Rightarrow> string \<Rightarrow> time \<Rightarrow> envelope" where
  "NewEventResolved eventID outcome timestamp =
     \<lparr>en_Type = EventResolvedType, en_Timestamp = timestamp, en_EventID = eventID, en_Outcome = outcome\<rparr>"

record deadLetter =
  dl_SourceTopic :: string
  dl_PayloadBase64 :: string
  dl_Reason :: go_error
  dl_FailedAt :: time

definition NewDeadLetter :: "string \<Rightarrow> string \<Rightarrow> go_error \<Rightarrow> time \<Rightarrow> deadLetter" where
  "NewDeadLetter sourceTopic payload reason failedAt =
     \<lparr>dl_SourceTopic = sourceTopic, dl_PayloadBase64 = base64Encode stdAlphabet True payload,
      dl_Reason = reason, dl_FailedAt = failedAt\<rparr>"

section \<open>The outbox dispatcher\<close>

record outboxMessage =
  om_id :: string
  om_topic :: string
  om_payload :: string

definition outboxBefore :: "outboxRow \<Rightarrow> outboxRow \<Rightarrow> bool" where
  "outboxBefore a b = (if ob_created_at a = ob_created_at b then ob_id a < ob_id b
     else ob_created_at a < ob_created_at b)"

text \<open>\<open>busy\<close> are the rows that another dispatcher holds locked.\<close>

definition lockPendingMessages ::
  "faults \<Rightarrow> (string \<Rightarrow> bool) \<Rightarrow> nat \<Rightarrow> db \<Rightarrow> outboxMessage list res" where
  "lockPendingMessages fault busy limit d =
     (if fault ''lock outbox'' [] then Inl (Wrapped ''lock pending outbox messages'' dbError)
      else Inr (map (\<lambda>r. \<lparr>om_id = ob_id r, om_topic = ob_topic r, om_payload = ob_payload r\<rparr>)
        (take limit (sort_by outboxBefore
          (filter (\<lambda>r. ob_published_at r = None \<and> \<not> busy (ob_id r)) (db_outbox d))))))"

definition markPublished :: "string \<Rightarrow> time \<Rightarrow> db \<Rightarrow> db" where
  "markPublished messageID now d = d\<lparr>db_outbox := updateWhere (\<lambda>r. ob_id r = messageID)
     (\<lambda>r. r\<lparr>ob_published_at := Some (stamp now)\<rparr>) (db_outbox d)\<rparr>"

type_synonym stream = "(string \<times> string) list"

text \<open>The loop over the messages; \<open>refuse\<close> are the messages the stream does not take.\<close>

fun publishMessages ::
  "faults \<Rightarrow> (string \<Rightarrow> bool) \<Rightarrow> (string \<Rightarrow> time) \<Rightarrow> outboxMessage list \<Rightarrow> db \<Rightarrow> stream \<Rightarrow> unit res \<times> db \<times> stream" where
  "publishMessages fault refuse now [] d sent = (Inr (), d, sent)"
| "publishMessages fault refuse now (m # ms) d sent =
     (if refuse (om_id m)
      then (Inl (Wrapped (''publish outbox message '' @ om_id m) (External ''publish'')), d, sent)
      else let sent' = sent @ [(om_topic m, om_payload m)] in
        if fault ''mark published'' (om_id m)
        then (Inl (Wrapped (''mark outbox message '' @ om_id m @ '' published'') dbError), d, sent')
        else publishMessages fault refuse now ms (markPublished (om_id m) (now (om_id m)) d) sent')"

definition outboxDispatch ::
  "faults \<Rightarrow> (string \<Rightarrow> bool) \<Rightarrow> (string \<Rightarrow> bool) \<Rightarrow> (string \<Rightarrow> time) \<Rightarrow> nat \<Rightarrow> db \<Rightarrow> stream \<Rightarrow> nat res \<times> db \<times> stream" where
  "outboxDispatch fault refuse busy now limit d sent =
     (if fault ''begin'' [] then (Inl (Wrapped ''begin outbox dispatch'' dbError), d, sent)
      else case lockPendingMessages fault busy limit d of
          Inl err \<Rightarrow> (Inl err, d, sent)
        | Inr messages \<Rightarrow> (case publishMessages fault refuse now messages d sent of
            (Inl err, _, sent') \<Rightarrow> (Inl err, d, sent')
          | (Inr _, d', sent') \<Rightarrow>
              if fault ''commit'' [] then (Inl (Wrapped ''commit outbox dispatch'' dbError), d, sent')
              else (Inr (length messages), d', sent')))"

definition outboxBatchSize :: nat where "outboxBatchSize = 20"

definition workerDispatch ::
  "faults \<Rightarrow> (string \<Rightarrow> bool) \<Rightarrow> (string \<Rightarrow> bool) \<Rightarrow> (string \<Rightarrow> time) \<Rightarrow> db \<Rightarrow> stream \<Rightarrow> nat res \<times> db \<times> stream" where
  "workerDispatch fault refuse busy now d sent =
     (case outboxDispatch fault refuse busy now outboxBatchSize d sent of
        (Inl err, s) \<Rightarrow> (Inl (Wrapped ''dispatch resolved event outbox'' err), s)
      | (Inr n, s) \<Rightarrow> (Inr n, s))"

section \<open>The consumer\<close>

definition second :: int where "second = 1000000000"

record workerConfig =
  wc_topic :: string
  wc_deadLetterTopic :: string
  wc_consumer :: string
  wc_interval :: int
  wc_retryInitial :: int
  wc_retryMaxDelay :: int
  wc_retryAttempts :: int

definition newService :: workerConfig where
  "newService = \<lparr>wc_topic = EventResolvedTopic, wc_deadLetterTopic = DeadLetterTopic,
     wc_consumer = ''market-settlement'', wc_interval = second, wc_retryInitial = second,
     wc_retryMaxDelay = 30 * second, wc_retryAttempts = 5\<rparr>"

text \<open>The defaults that \<^verbatim>\<open>Init\<close> fills in before it subscribes.\<close>

definition workerInit :: "workerConfig \<Rightarrow> workerConfig" where
  "workerInit c = \<lparr>wc_topic = (if wc_topic c = [] then EventResolvedTopic else wc_topic c),
     wc_deadLetterTopic = (if wc_deadLetterTopic c = [] then DeadLetterTopic else wc_deadLetterTopic c),
     wc_consumer = (if wc_consumer c = [] then ''market-settlement'' else wc_consumer c),
     wc_interval = (if wc_interval c \<le> 0 then second else wc_interval c),
     wc_retryInitial = (if wc_retryInitial c \<le> 0 then second else wc_retryInitial c),
     wc_retryMaxDelay = (if wc_retryMaxDelay c \<le> 0 then 30 * second else wc_retryMaxDelay c),
     wc_retryAttempts = (if wc_retryAttempts c \<le> 0 then 5 else wc_retryAttempts c)\<rparr>"

definition isPermanentSettlementError :: "go_error \<Rightarrow> bool" where
  "isPermanentSettlementError err \<longleftrightarrow>
     errorsIs err SettlementErrEventNotFound \<or> errorsIs err SettlementErrEventUnresolved
     \<or> errorsIs err SettlementErrOutcomeNotOption \<or> errorsIs err SettlementErrOrderWalletNotFound"

definition decodeResolvedEvent :: "(string \<Rightarrow> envelope option) \<Rightarrow> string \<Rightarrow> envelope res" where
  "decodeResolvedEvent unmarshal message =
     (case unmarshal message of
        None \<Rightarrow> Inl (Wrapped ''decode JSON'' (Sentinel WorkerErrInvalidMessage))
      | Some e \<Rightarrow>
          if en_Type e = EventResolvedType \<and> en_EventID e \<noteq> [] \<and> en_Outcome e \<noteq> []
             \<and> en_Timestamp e \<noteq> zero_time
          then Inr e else Inl (Sentinel WorkerErrInvalidMessage))"

text \<open>
  What the outside does while one message is processed: the statements that fail and the clock
  at each attempt, whether the context is cancelled during the wait after it, and whether the
  stream takes the dead letter and the acknowledgement.
\<close>

record workerEnv =
  we_fault :: "nat \<Rightarrow> faults"
  we_now :: "nat \<Rightarrow> time"
  we_cancelled :: "nat \<Rightarrow> bool"
  we_publishFails :: bool
  we_ackFails :: bool
  we_failedAt :: time

record workerState =
  ww_db :: db
  ww_dead :: "(string \<times> deadLetter) list"
  ww_acks :: nat
  ww_waits :: "int list"

definition subscriptionAck :: "workerEnv \<Rightarrow> string \<Rightarrow> workerState \<Rightarrow> unit res \<times> workerState" where
  "subscriptionAck env message s =
     (if we_ackFails env then (Inl (Wrapped message (External ''ack'')), s)
      else (Inr (), s\<lparr>ww_acks := Suc (ww_acks s)\<rparr>))"

definition deadLetterAndAcknowledge ::
  "workerConfig \<Rightarrow> workerEnv \<Rightarrow> string \<Rightarrow> go_error \<Rightarrow> workerState \<Rightarrow> unit res \<times> workerState" where
  "deadLetterAndAcknowledge c env message reason s =
     (let deadLetter = NewDeadLetter (wc_topic c) message reason (we_failedAt env) in
      if we_publishFails env then (Inl (Wrapped ''publish settlement dead letter'' (External ''publish'')), s)
      else subscriptionAck env ''acknowledge dead-lettered settlement event''
        (s\<lparr>ww_dead := ww_dead s @ [(wc_deadLetterTopic c, deadLetter)]\<rparr>))"

text \<open>The retry loop from attempt number \<open>attempt\<close> on, to wait \<open>delay\<close> before the next one.\<close>

function settleAttempts ::
  "workerConfig \<Rightarrow> workerEnv \<Rightarrow> string \<Rightarrow> string \<Rightarrow> int \<Rightarrow> int \<Rightarrow> workerState \<Rightarrow> unit res \<times> workerState" where
  "settleAttempts c env message eventID attempt delay s =
     (if attempt > wc_retryAttempts c then (Inl (Plain ''settlement retry loop exited unexpectedly''), s)
      else case settleEvent (we_fault env (nat attempt)) eventID (we_now env (nat attempt)) (ww_db s) of
          (Inr _, d) \<Rightarrow> subscriptionAck env ''acknowledge settled event'' (s\<lparr>ww_db := d\<rparr>)
        | (Inl err, d) \<Rightarrow>
            let s1 = s\<lparr>ww_db := d\<rparr>; permanent = isPermanentSettlementError err;
                lastAttempt = (attempt = wc_retryAttempts c) in
            if permanent \<or> lastAttempt
            then deadLetterAndAcknowledge c env message
              (if lastAttempt \<and> \<not> permanent then Wrapped ''settlement retry limit reached'' err else err) s1
            else let s2 = s1\<lparr>ww_waits := ww_waits s1 @ [delay]\<rparr> in
              if we_cancelled env (nat attempt) then (Inl CtxErr, s2)
              else settleAttempts c env message eventID (attempt + 1)
                (min (i64 (delay * 2)) (wc_retryMaxDelay c)) s2)"
  by pat_completeness auto
termination
  by (relation "measure (\<lambda>(c, env, message, eventID, attempt, delay, s). nat (wc_retryAttempts c + 1 - attempt))") auto

declare settleAttempts.simps [simp del]

definition processUntilAcknowledged ::
  "(string \<Rightarrow> envelope option) \<Rightarrow> workerConfig \<Rightarrow> workerEnv \<Rightarrow> string \<Rightarrow> workerState \<Rightarrow> unit res \<times> workerState" where
  "processUntilAcknowledged unmarshal c env message s =
     (case decodeResolvedEvent unmarshal message of
        Inl err \<Rightarrow> deadLetterAndAcknowledge c env message err s
      | Inr e \<Rightarrow> settleAttempts c env message (en_EventID e) 1 (wc_retryInitial c) s)"

end
