(* ===== verification/SettlementInv.thy ===== *)
theory SettlementInv
  imports Settlement
begin

text \<open>
  What a settlement transaction does to the tables: the amounts it computes are the rounded
  amounts the order service locked, the text it writes is read back as the same cents, and
  the wallets, orders and payouts change order by order.
\<close>

lemma find_SomeD: "find p xs = Some x \<Longrightarrow> x \<in> set xs \<and> p x"
  by (auto simp: find_Some_iff)

section \<open>Amounts\<close>

lemma bigDivideRounded_half_up:
  assumes "0 \<le> a" "0 < d"
  shows "bigDivideRounded a d = half_up a d"
proof -
  have "sgn a * sgn d = 1 \<or> a = 0" using assms by (simp add: sgn_if)
  then have "a sdiv d = a div d" "a smod d = a mod d"
    using assms by (auto simp: signed_divide_int_def signed_modulo_int_def)
  then show ?thesis
    using half_up_div_mod [OF assms(2)]
    by (simp add: bigDivideRounded_def Let_def push_bit_eq_mult mult.commute)
qed

lemma half_up_scale: "0 < k \<Longrightarrow> half_up (a * k) (d * k) = half_up a d"
proof -
  assume k: "0 < k"
  have "2 * (a * k) + d * k = (2 * a + d) * k" "2 * (d * k) = (2 * d) * k" by (simp_all add: algebra_simps)
  then show ?thesis unfolding half_up_def using k by (metis div_mult_mult2 less_irrefl)
qed

lemma collateralCents_half_up:
  assumes "0 \<le> n" "valid_price p"
  shows "collateralCents side n p = half_up (n * exposure side p * 100) (10 ^ 12)"
proof -
  have e: "(if side = ''sell'' then priceScale - p else p) = exposure side p"
    by (simp add: exposure_def priceScale_def scale_defs)
  have "0 \<le> exposure side p" using exposure_range [OF assms(2), of side] by (simp add: valid_price_def)
  then have "0 \<le> n * exposure side p * 100" using assms(1) by simp
  then show ?thesis
    using bigDivideRounded_half_up [of "n * exposure side p * 100" "10 ^ 12"]
    by (simp add: collateralCents_def Let_def e shareScale_def priceScale_def centsScale_def)
qed

lemma payoutCents_half_up: "0 \<le> n \<Longrightarrow> payoutCents n = half_up (n * 100) 1000000"
  by (simp add: payoutCents_def centsScale_def shareScale_def bigDivideRounded_half_up)

lemma collateralCents_nonneg: "0 \<le> n \<Longrightarrow> valid_price p \<Longrightarrow> 0 \<le> collateralCents side n p"
  using exposure_range [of p side] by (simp add: collateralCents_half_up half_up_nonneg valid_price_def)

lemma payoutCents_nonneg: "0 \<le> n \<Longrightarrow> 0 \<le> payoutCents n"
  by (simp add: payoutCents_half_up half_up_nonneg)

lemma collateral_le_payout:
  assumes "0 \<le> n" "valid_price p"
  shows "collateralCents side n p \<le> payoutCents n"
proof -
  have "n * exposure side p \<le> n * 1000000"
    using assms(1) exposure_range [OF assms(2), of side]
    by (intro mult_left_mono) (simp_all add: valid_price_def scale_defs)
  then have "half_up (n * exposure side p * 100) (10 ^ 12) \<le> half_up (n * 100 * 1000000) (1000000 * 1000000)"
    using half_up_mono [of "10 ^ 12" "n * exposure side p * 100" "n * 100 * 1000000"] by simp
  also have "\<dots> = half_up (n * 100) 1000000" by (rule half_up_scale) simp
  finally show ?thesis using assms by (simp add: collateralCents_half_up payoutCents_half_up)
qed

section \<open>Text\<close>

lemma parseFixed_numericText:
  assumes "0 \<le> u" "0 < places"
  shows "parseFixed (numericText places u) places = Inr u"
proof -
  note d = decimal_parts [OF assms refl]
  show ?thesis using assms(1) d by (simp add: parseFixed_def numericText_def Let_def zeros_def)
qed

lemma parseFixed_nonneg: "parseFixed s n = Inr u \<Longrightarrow> 0 \<le> u"
  by (auto simp: parseFixed_def Let_def split: if_splits option.splits)

lemma formatInt_small: "0 \<le> c \<Longrightarrow> formatInt c = dec_of c" by (simp add: formatInt_def)

lemma formatCents_digits:
  assumes "0 \<le> c"
  shows "\<exists>w f. formatCents c = w @ ''.'' @ f \<and> length f = 2 \<and> w \<noteq> [] \<and> list_all is_digit (w @ f)
    \<and> digits_val (w @ f) = c"
proof -
  define v where "v = (if length (dec_of c) < 3 then zeros (3 - length (dec_of c)) @ dec_of c else dec_of c)"
  have l: "3 \<le> length v" by (simp add: v_def)
  have d: "list_all is_digit v" using digits_dec_of [OF assms] digits_zeros by (simp add: v_def)
  have val: "digits_val v = c" using assms by (simp add: v_def digits_val_append)
  have "formatCents c = take (length v - 2) v @ ''.'' @ drop (length v - 2) v"
    by (simp add: formatCents_def formatInt_small [OF assms] Let_def v_def)
  moreover have "length (drop (length v - 2) v) = 2" "take (length v - 2) v \<noteq> []" using l by auto
  moreover have "take (length v - 2) v @ drop (length v - 2) v = v" by (rule append_take_drop_id)
  ultimately show ?thesis using d val by metis
qed

lemma castNumeric_formatCents:
  assumes "0 \<le> c"
  shows "castNumeric 2 (formatCents c) = Some c"
proof -
  obtain w f where wf: "formatCents c = w @ ''.'' @ f" "length f = 2" "w \<noteq> []" "list_all is_digit (w @ f)"
    "digits_val (w @ f) = c"
    using formatCents_digits [OF assms] by blast
  have "split_on (CHR ''.'') (w @ ''.'' @ f) = [w, f]"
    using wf(4) split_on_one [of "CHR ''.''" w f] digits_no_point by simp
  then show ?thesis using wf setString_digits [of "w @ f"] by (simp add: castNumeric_def)
qed

lemma castCents_formatCents [simp]: "0 \<le> c \<Longrightarrow> castCents m (formatCents c) = Inr c"
  by (simp add: castCents_def castNumeric_formatCents)

section \<open>The tables a settlement may meet\<close>

text \<open>Primary keys and the checks of the schema: amounts are not negative, prices lie between 0 and 1.\<close>

definition db_ok :: "db \<Rightarrow> bool" where
  "db_ok d \<longleftrightarrow> distinct (map wl_id (db_wallets d)) \<and> distinct (map or_id (db_orders d))
     \<and> (\<forall>r \<in> set (db_orders d). 0 \<le> or_amount r \<and> 0 \<le> or_filled_amount r \<and> valid_price (or_price r))
     \<and> (\<forall>t \<in> set (db_trades d). 0 < tr_shares t \<and> valid_price (tr_matched_price t))"

definition market_orders :: "db \<Rightarrow> string \<Rightarrow> orderRow list" where
  "market_orders d marketID = sort_key or_id (filter (\<lambda>r. or_market_id r = marketID) (db_orders d))"

definition market_trades :: "db \<Rightarrow> string \<Rightarrow> tradeRow list" where
  "market_trades d marketID = sort_key tr_id (filter (\<lambda>t. tr_market_id t = marketID) (db_trades d))"

text \<open>The rows of a market as settlement orders.\<close>

definition row_order :: "walletRow \<Rightarrow> orderRow \<Rightarrow> settlementOrder" where
  "row_order w r = \<lparr>so_id = or_id r, so_walletID = wl_id w, so_side = or_type r, so_option = or_option r,
     so_currency = or_currency r, so_status = or_status r, so_amount = or_amount r,
     so_filled = or_filled_amount r, so_price = or_price r, so_stake = 0, so_payout = 0, so_refund = 0,
     so_lockedUse = 0\<rparr>"

lemma scan_row:
  assumes "0 \<le> or_amount r" "0 \<le> or_filled_amount r" "valid_price (or_price r)"
  shows "scanSettlementOrder d r = (case orderWallet d r of
      None \<Rightarrow> Inl (Wrapped (''order '' @ or_id r) (Sentinel SettlementErrOrderWalletNotFound))
    | Some w \<Rightarrow> Inr (row_order w r))"
  using assms
  by (simp add: scanSettlementOrder_def parseShares_def parseFixed_numericText valid_price_def row_order_def
      split: option.split)

lemma scanAll_Inr:
  "scanAll scan rows = Inr vs \<longleftrightarrow> length vs = length rows \<and> (\<forall>i < length rows. scan (rows ! i) = Inr (vs ! i))"
proof (induction rows arbitrary: vs)
  case (Cons r rows)
  show ?case
  proof (cases vs)
    case (Cons v vs')
    then show ?thesis using Cons.IH [of vs'] by (auto simp: bind_res_Inr_iff nth_Cons split: nat.split)
  qed (auto simp: bind_res_Inr_iff)
qed auto

lemma orderWallet_row:
  "orderWallet d r = Some w \<Longrightarrow> w \<in> set (db_wallets d) \<and> wl_merchant_id w = or_merchant_id r
    \<and> wl_user_id w = or_user_id r \<and> wl_currency w = or_currency r"
  by (auto simp: orderWallet_def find_Some_iff in_set_conv_nth)

section \<open>Stakes\<close>

text \<open>What one trade stakes for an order: the buyer the price, the seller the rest of the payout.\<close>

definition trade_stake :: "settlementOrder \<Rightarrow> tradeRow \<Rightarrow> int" where
  "trade_stake v t =
     (if tr_maker_order_id t = so_id v \<or> tr_taker_order_id t = so_id v
      then (if so_side v = ''buy'' then collateralCents ''buy'' (tr_shares t) (tr_matched_price t)
            else payoutCents (tr_shares t) - collateralCents ''buy'' (tr_shares t) (tr_matched_price t))
      else 0)"

definition trade_shares :: "string \<Rightarrow> tradeRow \<Rightarrow> int" where
  "trade_shares i t = (if tr_maker_order_id t = i \<or> tr_taker_order_id t = i then tr_shares t else 0)"

definition valid_trade :: "tradeRow \<Rightarrow> bool" where
  "valid_trade t \<longleftrightarrow> 0 < tr_shares t \<and> valid_price (tr_matched_price t)"

lemma trade_stake_nonneg: "valid_trade t \<Longrightarrow> 0 \<le> trade_stake v t"
  using collateral_le_payout [of "tr_shares t" "tr_matched_price t"] collateralCents_nonneg
  by (simp add: trade_stake_def valid_trade_def)

lemma trade_stake_stake [simp]: "trade_stake (v\<lparr>so_stake := x\<rparr>) = trade_stake v"
  by (simp add: trade_stake_def fun_eq_iff)

lemma addStake_map:
  "addStake i s vs = map (\<lambda>v. v\<lparr>so_stake := so_stake v + (if so_id v = i then s else 0)\<rparr>) vs"
  by (simp add: addStake_def)

lemma orderByID_Some: "orderByID i vs = Some v \<Longrightarrow> v \<in> set vs \<and> so_id v = i"
  by (auto simp: orderByID_def find_Some_iff in_set_conv_nth)

lemma stakeTrade_spec:
  assumes "stakeTrade t (vs, m) = Inr (vs', m')" "distinct (map so_id vs)" "valid_trade t"
  shows "vs' = map (\<lambda>v. v\<lparr>so_stake := so_stake v + trade_stake v t\<rparr>) vs"
    "m' = (\<lambda>i. m i + trade_shares i t)"
proof -
  let ?n = "tr_shares t" and ?p = "tr_matched_price t"
  obtain a b where ab: "orderByID (tr_maker_order_id t) vs = Some a" "orderByID (tr_taker_order_id t) vs = Some b"
    using assms(1) by (auto simp: stakeTrade_def split: option.splits)
  have p: "parseShares (numericText 6 ?n) = Inr ?n" "parseFixed (numericText 6 ?p) 6 = Inr ?p"
    using assms(3) by (simp_all add: parseShares_def valid_trade_def valid_price_def parseFixed_numericText)
  obtain buyer seller where bs: "tradeParties a b = Inr (buyer, seller)"
    using assms(1) ab p by (auto simp: stakeTrade_def bind_res_Inr_iff)
  have q: "vs' = addStake (so_id seller) (payoutCents ?n - collateralCents ''buy'' ?n ?p)
        (addStake (so_id buyer) (collateralCents ''buy'' ?n ?p) vs)"
      "m' = addMatchedShares (addMatchedShares m (so_id buyer) ?n) (so_id seller) ?n"
    using assms(1) ab p bs by (simp_all add: stakeTrade_def Let_def)
  have m: "so_id a = tr_maker_order_id t" "so_id b = tr_taker_order_id t" "a \<in> set vs" "b \<in> set vs"
    using orderByID_Some [OF ab(1)] orderByID_Some [OF ab(2)] by simp_all
  have s: "buyer \<in> set vs" "seller \<in> set vs" "so_side buyer = ''buy''" "so_side seller = ''sell''"
    "{so_id buyer, so_id seller} = {tr_maker_order_id t, tr_taker_order_id t}"
    using bs m by (auto simp: tradeParties_def split: if_splits)
  have same: "v = w" if "v \<in> set vs" "w \<in> set vs" "so_id v = so_id w" for v w
    using that assms(2) by (auto simp: distinct_map dest: inj_onD)
  have ne: "so_id buyer \<noteq> so_id seller" using same [OF s(1,2)] s(3,4) by auto
  have hit: "tr_maker_order_id t = i \<or> tr_taker_order_id t = i \<longleftrightarrow> i = so_id buyer \<or> i = so_id seller" for i
    using s(5) by (auto simp: doubleton_eq_iff)
  show "m' = (\<lambda>i. m i + trade_shares i t)"
    using ne hit by (auto simp: q(2) addMatchedShares_def trade_shares_def fun_eq_iff)
  have "(if so_id v = so_id seller then payoutCents ?n - collateralCents ''buy'' ?n ?p else 0)
      + (if so_id v = so_id buyer then collateralCents ''buy'' ?n ?p else 0) = trade_stake v t" if "v \<in> set vs" for v
    using same [OF that s(1)] same [OF that s(2)] s(3,4) ne hit by (auto simp: trade_stake_def)
  then show "vs' = map (\<lambda>v. v\<lparr>so_stake := so_stake v + trade_stake v t\<rparr>) vs"
    unfolding q(1) addStake_map map_map by (intro map_cong refl) (simp add: add_ac)
qed

lemma stakeTrades_spec:
  assumes "stakeTrades ts (vs, m) = Inr (vs', m')" "distinct (map so_id vs)" "\<forall>t \<in> set ts. valid_trade t"
  shows "vs' = map (\<lambda>v. v\<lparr>so_stake := so_stake v + (\<Sum>t \<leftarrow> ts. trade_stake v t)\<rparr>) vs
    \<and> m' = (\<lambda>i. m i + (\<Sum>t \<leftarrow> ts. trade_shares i t))"
  using assms
proof (induction ts arbitrary: vs m)
  case Nil
  then show ?case by simp
next
  case (Cons t ts)
  obtain vs1 m1 where s1: "stakeTrade t (vs, m) = Inr (vs1, m1)" "stakeTrades ts (vs1, m1) = Inr (vs', m')"
    using Cons.prems(1) by (auto simp: bind_res_Inr_iff)
  have e: "vs1 = map (\<lambda>v. v\<lparr>so_stake := so_stake v + trade_stake v t\<rparr>) vs"
    "m1 = (\<lambda>i. m i + trade_shares i t)"
    using stakeTrade_spec [OF s1(1) Cons.prems(2)] Cons.prems(3) by simp_all
  have "map so_id vs1 = map so_id vs" by (simp add: e(1) o_def)
  then have "distinct (map so_id vs1)" using Cons.prems(2) by simp
  from Cons.IH [OF s1(2) this] Cons.prems(3) show ?case
    by (simp add: e o_def add.assoc)
qed

definition staked_order :: "db \<Rightarrow> string \<Rightarrow> orderRow \<Rightarrow> settlementOrder" where
  "staked_order d marketID r = (let v = row_order (the (orderWallet d r)) r
     in v\<lparr>so_stake := (\<Sum>t \<leftarrow> market_trades d marketID. trade_stake v t)\<rparr>)"

lemma db_okD:
  assumes "db_ok d"
  shows "distinct (map wl_id (db_wallets d))" "distinct (map or_id (db_orders d))"
    "r \<in> set (market_orders d m) \<Longrightarrow> 0 \<le> or_amount r \<and> 0 \<le> or_filled_amount r \<and> valid_price (or_price r)"
    "t \<in> set (market_trades d m) \<Longrightarrow> valid_trade t"
  using assms by (auto simp: db_ok_def market_orders_def market_trades_def valid_trade_def)

lemma distinct_market_orders: "db_ok d \<Longrightarrow> distinct (map or_id (market_orders d m))"
proof -
  assume "db_ok d"
  then have "distinct (map or_id (filter (\<lambda>r. or_market_id r = m) (db_orders d)))"
    using db_okD(2) distinct_map_filter by blast
  moreover have "mset (map or_id (market_orders d m)) = mset (map or_id (filter (\<lambda>r. or_market_id r = m) (db_orders d)))"
    by (simp add: market_orders_def)
  ultimately show ?thesis using mset_eq_imp_distinct_iff by blast
qed

lemma checkMatched_Inr: "checkMatched vs m = Inr () \<longleftrightarrow> (\<forall>v \<in> set vs. m (so_id v) = so_filled v)"
proof (cases "find (\<lambda>v. m (so_id v) \<noteq> so_filled v) vs")
  case None
  moreover have "\<forall>v \<in> set vs. m (so_id v) = so_filled v" using None by (auto simp: find_None_iff)
  ultimately show ?thesis by (simp add: checkMatched_def)
next
  case (Some v)
  then have "v \<in> set vs" "m (so_id v) \<noteq> so_filled v" by (auto simp: find_Some_iff)
  then show ?thesis using Some by (auto simp: checkMatched_def)
qed

lemma lockSettlementOrders_spec:
  assumes "db_ok d" "lockSettlementOrders fault m d = Inr vs"
  shows "vs = map (staked_order d m) (market_orders d m)"
    "\<forall>r \<in> set (market_orders d m). \<exists>w. orderWallet d r = Some w"
    "\<forall>r \<in> set (market_orders d m). or_filled_amount r = (\<Sum>t \<leftarrow> market_trades d m. trade_shares (or_id r) t)"
proof -
  let ?rows = "market_orders d m"
  have l: "\<not> fault ''lock orders'' m" using assms(2) by (auto simp: lockSettlementOrders_def)
  obtain us matched where us: "scanAll (scanSettlementOrder d) ?rows = Inr us"
    "stakeTrades (market_trades d m) (us, \<lambda>_. 0) = Inr (vs, matched)" "checkMatched vs matched = Inr ()"
    using assms(2) l
    by (auto simp: lockSettlementOrders_def lockTradeStakes_def bind_res_Inr_iff market_orders_def
        market_trades_def split: if_splits)
  have row: "\<exists>w. orderWallet d r = Some w \<and> scanSettlementOrder d r = Inr (row_order w r)"
    if r: "r \<in> set ?rows" for r
  proof -
    obtain i where "i < length ?rows" "r = ?rows ! i" using r by (metis in_set_conv_nth)
    then have "\<exists>u. scanSettlementOrder d r = Inr u" using us(1) by (auto simp: scanAll_Inr)
    then show ?thesis using scan_row db_okD(3) [OF assms(1) r] by (auto split: option.splits)
  qed
  then show "\<forall>r \<in> set ?rows. \<exists>w. orderWallet d r = Some w" by blast
  have "us = map (\<lambda>r. row_order (the (orderWallet d r)) r) ?rows"
  proof (rule nth_equalityI)
    show "length us = length (map (\<lambda>r. row_order (the (orderWallet d r)) r) ?rows)"
      using us(1) by (simp add: scanAll_Inr)
    fix i assume i: "i < length us"
    then have "scanSettlementOrder d (?rows ! i) = Inr (us ! i)" using us(1) by (auto simp: scanAll_Inr)
    then show "us ! i = map (\<lambda>r. row_order (the (orderWallet d r)) r) ?rows ! i"
      using row [of "?rows ! i"] i us(1) by (auto simp: scanAll_Inr)
  qed
  then have ids: "map so_id us = map or_id ?rows"
    and us': "us = map (\<lambda>r. row_order (the (orderWallet d r)) r) ?rows"
    by (simp_all add: row_order_def o_def)
  have "distinct (map so_id us)" using ids distinct_market_orders [OF assms(1)] by simp
  then have sp: "vs = map (\<lambda>v. v\<lparr>so_stake := so_stake v + (\<Sum>t \<leftarrow> market_trades d m. trade_stake v t)\<rparr>) us"
    "matched = (\<lambda>i. 0 + (\<Sum>t \<leftarrow> market_trades d m. trade_shares i t))"
    using stakeTrades_spec [OF us(2)] db_okD(4) [OF assms(1)] by blast+
  show "vs = map (staked_order d m) ?rows"
    by (simp add: sp(1) us' staked_order_def Let_def o_def) (simp add: row_order_def)
  then show "\<forall>r \<in> set ?rows. or_filled_amount r = (\<Sum>t \<leftarrow> market_trades d m. trade_shares (or_id r) t)"
    using us(3) by (auto simp: checkMatched_Inr sp(2) staked_order_def row_order_def Let_def)
qed

section \<open>One settled order\<close>

definition settled_order :: "db \<Rightarrow> string \<Rightarrow> string \<Rightarrow> orderRow \<Rightarrow> settlementOrder" where
  "settled_order d marketID winningOption r = orderPayout winningOption (staked_order d marketID r)"

definition settled_ok :: "settlementOrder \<Rightarrow> bool" where
  "settled_ok v \<longleftrightarrow> 0 \<le> so_stake v \<and> 0 \<le> so_refund v \<and> 0 \<le> so_payout v \<and> 0 \<le> so_filled v
     \<and> so_lockedUse v = so_stake v + so_refund v"

lemma orderPayout_fields:
  "so_id (orderPayout w v) = so_id v" "so_walletID (orderPayout w v) = so_walletID v"
  "so_currency (orderPayout w v) = so_currency v" "so_stake (orderPayout w v) = so_stake v"
  "so_status (orderPayout w v) = so_status v" "so_filled (orderPayout w v) = so_filled v"
  "so_payout (orderPayout w v) = (if orderWins v w then payoutCents (so_filled v) else 0)"
  "so_refund (orderPayout w v) = (if so_amount v > so_filled v
     then collateralCents (so_side v) (so_amount v - so_filled v) (so_price v) else 0)"
  "so_lockedUse (orderPayout w v) = so_stake (orderPayout w v) + so_refund (orderPayout w v)"
  by (cases "so_side v = ''buy''"; auto simp: orderPayout_def Let_def orderWins_def)+

lemma settled_order_ok:
  assumes "db_ok d" "r \<in> set (market_orders d m)"
  shows "settled_ok (settled_order d m w r)"
proof -
  note r = db_okD(3) [OF assms]
  have "0 \<le> (\<Sum>t \<leftarrow> market_trades d m. trade_stake v t)" for v
    using db_okD(4) [OF assms(1)] trade_stake_nonneg by (intro sum_list_nonneg) auto
  then show ?thesis
    using r collateralCents_nonneg [of "or_amount r - or_filled_amount r" "or_price r" "or_type r"] payoutCents_nonneg
    by (simp add: settled_ok_def settled_order_def orderPayout_fields staked_order_def row_order_def Let_def)
qed

section \<open>Money\<close>

definition pool :: "walletRow list \<Rightarrow> string \<Rightarrow> int" where
  "pool ws c = (\<Sum>w \<leftarrow> filter (\<lambda>w. wl_currency w = c) ws. wl_balance w + wl_locked_balance w)"

definition wallet_keys :: "walletRow list \<Rightarrow> (string \<times> string \<times> string \<times> string) list" where
  "wallet_keys ws = map (\<lambda>w. (wl_id w, wl_merchant_id w, wl_user_id w, wl_currency w)) ws"

lemma wallet_keys_ids: "map wl_id ws = map fst (wallet_keys ws)"
  by (simp add: wallet_keys_def o_def)

lemma wallet_keys_currency:
  "wallet_keys ws' = wallet_keys ws \<Longrightarrow> (\<forall>w \<in> set ws. wl_id w = i \<longrightarrow> wl_currency w = c) \<longleftrightarrow>
    (\<forall>w \<in> set ws'. wl_id w = i \<longrightarrow> wl_currency w = c)"
proof -
  assume e: "wallet_keys ws' = wallet_keys ws"
  have *: "(\<forall>w \<in> set us. wl_id w = i \<longrightarrow> wl_currency w = c) \<longleftrightarrow>
      (\<forall>x \<in> set (wallet_keys us). fst x = i \<longrightarrow> snd (snd (snd x)) = c)" for us
    by (auto simp: wallet_keys_def)
  show ?thesis using e by (simp only: *)
qed

lemma one_row:
  "rowsAffected p rows = 1 \<Longrightarrow> \<exists>xs r ys. rows = xs @ r # ys \<and> p r \<and> updateWhere p f rows = xs @ f r # ys"
proof (induction rows)
  case (Cons a rows)
  show ?case
  proof (cases "p a")
    case True
    then have "rowsAffected p rows = 0" using Cons.prems by (simp add: rowsAffected_def)
    then have "updateWhere p f (a # rows) = [] @ f a # rows"
      using True updateWhere_none [of p rows f] by (simp add: updateWhere_def)
    then show ?thesis using True by blast
  next
    case False
    then obtain xs r ys where "rows = xs @ r # ys" "p r" "updateWhere p f rows = xs @ f r # ys"
      using Cons by (auto simp: rowsAffected_def)
    then have "a # rows = (a # xs) @ r # ys" "updateWhere p f (a # rows) = (a # xs) @ f r # ys"
      using False by (simp_all add: updateWhere_def)
    then show ?thesis using \<open>p r\<close> by blast
  qed
qed (simp add: rowsAffected_def)

lemma payWallet_effect:
  assumes "payWallet fault v d = (Inr (), d')" "settled_ok v"
  shows "db_wallets d' = db_wallets d \<and> so_stake v = 0 \<and> so_refund v = 0 \<and> so_payout v = 0
    \<or> (\<exists>xs w ys. db_wallets d = xs @ w # ys \<and> wl_id w = so_walletID v \<and> so_lockedUse v \<le> wl_locked_balance w
        \<and> db_wallets d' = xs @ w\<lparr>wl_balance := wl_balance w + so_refund v + so_payout v,
            wl_locked_balance := wl_locked_balance w - so_lockedUse v, wl_updated_at := db_now d\<rparr> # ys)"
proof (cases "so_lockedUse v > 0 \<or> so_refund v > 0 \<or> so_payout v > 0")
  case False
  then show ?thesis using assms by (auto simp: payWallet_def settled_ok_def)
next
  case True
  note ok = assms(2) [unfolded settled_ok_def]
  let ?p = "\<lambda>w. wl_id w = so_walletID v \<and> wl_locked_balance w \<ge> so_lockedUse v"
  let ?f = "\<lambda>w. w\<lparr>wl_balance := wl_balance w + so_refund v + so_payout v,
      wl_locked_balance := wl_locked_balance w - so_lockedUse v, wl_updated_at := db_now d\<rparr>"
  have n: "\<not> fault ''update wallet'' (so_id v)" using assms(1) True by (auto simp: payWallet_def)
  then have one: "rowsAffected ?p (db_wallets d) = 1"
    and d': "db_wallets d' = updateWhere ?p ?f (db_wallets d)"
    using assms(1) True ok by (auto simp: payWallet_def Let_def split: if_splits)
  show ?thesis using one_row [OF one, of ?f] d' by auto
qed

lemma payWallet_pool:
  assumes "payWallet fault v d = (Inr (), d')" "settled_ok v"
    "\<forall>w \<in> set (db_wallets d). wl_id w = so_walletID v \<longrightarrow> wl_currency w = so_currency v"
  shows "pool (db_wallets d') c = pool (db_wallets d) c + (if c = so_currency v then so_payout v - so_stake v else 0)"
    "wallet_keys (db_wallets d') = wallet_keys (db_wallets d)"
    "(\<forall>w \<in> set (db_wallets d). 0 \<le> wl_locked_balance w) \<longrightarrow> (\<forall>w \<in> set (db_wallets d'). 0 \<le> wl_locked_balance w)"
  using payWallet_effect [OF assms(1,2)] assms(2,3) by (auto simp: pool_def wallet_keys_def settled_ok_def)

section \<open>All the orders of a market\<close>

text \<open>What a list of settled orders does to the tables.\<close>

definition wallet_view :: "walletRow \<Rightarrow> string \<times> string \<times> int \<times> int" where
  "wallet_view w = (wl_id w, wl_currency w, wl_balance w, wl_locked_balance w)"

definition paid_view :: "settlementOrder list \<Rightarrow> walletRow \<Rightarrow> string \<times> string \<times> int \<times> int" where
  "paid_view vs w = (let us = filter (\<lambda>v. so_walletID v = wl_id w) vs in
     (wl_id w, wl_currency w, wl_balance w + (\<Sum>v \<leftarrow> us. so_refund v + so_payout v),
      wl_locked_balance w - (\<Sum>v \<leftarrow> us. so_lockedUse v)))"

definition open_so :: "settlementOrder \<Rightarrow> bool" where
  "open_so v \<longleftrightarrow> so_status v = ''pending'' \<or> so_status v = ''partial''"

definition closed_row :: "settlementOrder list \<Rightarrow> orderRow \<Rightarrow> orderRow" where
  "closed_row vs r = (if \<exists>v \<in> set vs. so_id v = or_id r \<and> open_so v then r\<lparr>or_status := ''cancelled''\<rparr> else r)"

definition payout_row :: "string \<Rightarrow> time \<Rightarrow> settlementOrder \<Rightarrow> payoutRow" where
  "payout_row m now v = \<lparr>pr_market_id = m, pr_order_id = so_id v, pr_wallet_id = so_walletID v,
     pr_currency = so_currency v, pr_stake = so_stake v, pr_payout = so_payout v, pr_created_at = stamp now\<rparr>"

text \<open>A transaction without its generated identifier.\<close>

definition tx_view :: "transactionRow \<Rightarrow> string \<times> string \<times> int \<times> string \<times> string option" where
  "tx_view t = (tx_wallet_id t, tx_type t, tx_amount t, tx_currency t, tx_related_order_id t)"

definition paid_txs :: "settlementOrder \<Rightarrow> (string \<times> string \<times> int \<times> string \<times> string option) list" where
  "paid_txs v = (if so_filled v = 0 then [] else
     (so_walletID v, ''bet'', so_stake v, so_currency v, Some (so_id v)) #
     (if so_payout v > 0 then [(so_walletID v, ''win'', so_payout v, so_currency v, Some (so_id v))] else []))"

text \<open>The tables a settlement transaction does not write before it records the settlement.\<close>

definition same_rest :: "db \<Rightarrow> db \<Rightarrow> bool" where
  "same_rest d d' \<longleftrightarrow> db_merchants d' = db_merchants d \<and> db_events d' = db_events d \<and> db_trades d' = db_trades d
     \<and> db_audits d' = db_audits d \<and> db_outbox d' = db_outbox d \<and> db_now d' = db_now d \<and> db_uuids d' = db_uuids d"

lemma same_rest_refl [simp]: "same_rest d d" by (simp add: same_rest_def)
lemma same_rest_trans: "same_rest d d' \<Longrightarrow> same_rest d' d'' \<Longrightarrow> same_rest d d''" by (simp add: same_rest_def)

lemma payWallet_rest:
  "payWallet fault v d = (x, d') \<Longrightarrow> \<exists>ws. d' = d\<lparr>db_wallets := ws\<rparr>"
  by (auto simp: payWallet_def Let_def split: if_splits sum.splits prod.splits intro: exI [of _ "db_wallets d"])

lemma cancelRemainder_Inr:
  assumes "cancelRemainder fault v d = (Inr (), d')"
  shows "d' = d\<lparr>db_orders := map (closed_row [v]) (db_orders d)\<rparr>"
proof -
  have id: "map (\<lambda>r. r) rs = rs" for rs :: "orderRow list" by simp
  show ?thesis using assms
    by (auto simp: cancelRemainder_def closed_row_def [abs_def] open_so_def updateWhere_def id
        split: if_splits intro!: arg_cong [where f = "\<lambda>x. d\<lparr>db_orders := x\<rparr>"])
qed

lemma insertPayout_Inr:
  assumes "insertPayout fault m v now d = (Inr (), d')" "settled_ok v"
  shows "d' = d\<lparr>db_payouts := db_payouts d @ [payout_row m now v]\<rparr>"
    "\<forall>p \<in> set (db_payouts d). \<not> (pr_market_id p = m \<and> pr_order_id p = so_id v)"
  using assms by (auto simp: insertPayout_def payout_row_def settled_ok_def list_ex_iff split: if_splits)

lemma insertSettlementTransaction_Inr:
  assumes "insertSettlementTransaction fault w ty a c i now d = (Inr (), d')" "0 \<le> a"
  shows "\<exists>t n. d' = d\<lparr>db_transactions := db_transactions d @ [t], db_uuid_next := n\<rparr>
    \<and> tx_view t = (w, ty, a, c, Some i)"
proof -
  let ?t = "\<lparr>tx_id = db_uuids d (db_uuid_next d), tx_wallet_id = w, tx_type = ty, tx_amount = a, tx_currency = c,
    tx_related_order_id = Some i, tx_idempotency_key = None, tx_status = ''completed'', tx_created_at = stamp now\<rparr>"
  have "d' = d\<lparr>db_uuid_next := Suc (db_uuid_next d), db_transactions := db_transactions d @ [?t]\<rparr>"
    using assms by (auto simp: insertSettlementTransaction_def freshUUID_def split: if_splits)
  then have "d' = d\<lparr>db_transactions := db_transactions d @ [?t], db_uuid_next := Suc (db_uuid_next d)\<rparr>" by simp
  then show ?thesis by (intro exI [of _ ?t] exI [of _ "Suc (db_uuid_next d)"]) (simp add: tx_view_def)
qed

text \<open>One order.\<close>

lemma applyOrderSettlement_Inr:
  assumes "applyOrderSettlement fault m v now d = (Inr (), d')" "settled_ok v"
  shows "same_rest d d'" "db_markets d' = db_markets d" "db_settlements d' = db_settlements d"
    "\<exists>d1. payWallet fault v d = (Inr (), d1) \<and> db_wallets d' = db_wallets d1"
    "db_orders d' = map (closed_row [v]) (db_orders d)"
    "db_payouts d' = db_payouts d @ map (payout_row m now) (filter (\<lambda>v. so_filled v \<noteq> 0) [v])"
    "map tx_view (db_transactions d') = map tx_view (db_transactions d) @ paid_txs v"
    "so_filled v \<noteq> 0 \<longrightarrow> (\<forall>p \<in> set (db_payouts d). \<not> (pr_market_id p = m \<and> pr_order_id p = so_id v))"
proof -
  obtain d1 d2 where d1: "payWallet fault v d = (Inr (), d1)" and d2: "cancelRemainder fault v d1 = (Inr (), d2)"
    using assms(1) by (auto simp: applyOrderSettlement_def andThen_Inr)
  obtain ws where w: "d1 = d\<lparr>db_wallets := ws\<rparr>" using payWallet_rest [OF d1] by blast
  note c = cancelRemainder_Inr [OF d2]
  have *: "\<exists>ts n. d' = d2\<lparr>db_payouts := db_payouts d @ map (payout_row m now) (filter (\<lambda>v. so_filled v \<noteq> 0) [v]),
      db_transactions := db_transactions d @ ts, db_uuid_next := n\<rparr> \<and> map tx_view ts = paid_txs v
    \<and> (so_filled v \<noteq> 0 \<longrightarrow> (\<forall>p \<in> set (db_payouts d). \<not> (pr_market_id p = m \<and> pr_order_id p = so_id v)))"
  proof (cases "so_filled v = 0")
    case True
    then have "d' = d2" using assms(1) d1 d2 by (simp add: applyOrderSettlement_def)
    then show ?thesis using True c w
      by (intro exI [of _ "[]"] exI [of _ "db_uuid_next d"]) (simp add: paid_txs_def)
  next
    case False
    then obtain d3 d4 where d3: "insertPayout fault m v now d2 = (Inr (), d3)"
      and d4: "insertSettlementTransaction fault (so_walletID v) ''bet'' (so_stake v) (so_currency v) (so_id v) now d3
        = (Inr (), d4)"
      and d5: "(if so_payout v > 0 then insertSettlementTransaction fault (so_walletID v) ''win'' (so_payout v)
        (so_currency v) (so_id v) now d4 else (Inr (), d4)) = (Inr (), d')"
      using assms(1) d1 d2 by (auto simp: applyOrderSettlement_def andThen_Inr)
    note p = insertPayout_Inr [OF d3 assms(2)]
    obtain t n where t: "d4 = d3\<lparr>db_transactions := db_transactions d3 @ [t], db_uuid_next := n\<rparr>"
      "tx_view t = (so_walletID v, ''bet'', so_stake v, so_currency v, Some (so_id v))"
      using insertSettlementTransaction_Inr [OF d4] assms(2) by (auto simp: settled_ok_def)
    show ?thesis
    proof (cases "so_payout v > 0")
      case True
      then obtain t' n' where t': "d' = d4\<lparr>db_transactions := db_transactions d4 @ [t'], db_uuid_next := n'\<rparr>"
        "tx_view t' = (so_walletID v, ''win'', so_payout v, so_currency v, Some (so_id v))"
        using insertSettlementTransaction_Inr [of fault "so_walletID v" "''win''"] d5 by force
      then show ?thesis using True False t p c w
        by (intro exI [of _ "[t, t']"] exI [of _ n']) (simp add: paid_txs_def)
    next
      case no: False
      then show ?thesis using False t p c w d5
        by (intro exI [of _ "[t]"] exI [of _ n]) (simp add: paid_txs_def)
    qed
  qed
  then show "same_rest d d'" "db_markets d' = db_markets d" "db_settlements d' = db_settlements d"
    "db_orders d' = map (closed_row [v]) (db_orders d)"
    "db_payouts d' = db_payouts d @ map (payout_row m now) (filter (\<lambda>v. so_filled v \<noteq> 0) [v])"
    "map tx_view (db_transactions d') = map tx_view (db_transactions d) @ paid_txs v"
    "so_filled v \<noteq> 0 \<longrightarrow> (\<forall>p \<in> set (db_payouts d). \<not> (pr_market_id p = m \<and> pr_order_id p = so_id v))"
    by (auto simp: c w same_rest_def)
  show "\<exists>d1. payWallet fault v d = (Inr (), d1) \<and> db_wallets d' = db_wallets d1"
    using * d1 by (auto simp: c)
qed

lemma payWallet_view:
  assumes "payWallet fault v d = (Inr (), d')" "settled_ok v" "distinct (map wl_id (db_wallets d))"
  shows "map wallet_view (db_wallets d') = map (paid_view [v]) (db_wallets d)"
  using payWallet_effect [OF assms(1,2)]
proof
  assume "db_wallets d' = db_wallets d \<and> so_stake v = 0 \<and> so_refund v = 0 \<and> so_payout v = 0"
  then show ?thesis using assms(2) by (auto simp: wallet_view_def paid_view_def settled_ok_def)
next
  assume "\<exists>xs w ys. db_wallets d = xs @ w # ys \<and> wl_id w = so_walletID v \<and> so_lockedUse v \<le> wl_locked_balance w
        \<and> db_wallets d' = xs @ w\<lparr>wl_balance := wl_balance w + so_refund v + so_payout v,
            wl_locked_balance := wl_locked_balance w - so_lockedUse v, wl_updated_at := db_now d\<rparr> # ys"
  then obtain xs w ys where w: "db_wallets d = xs @ w # ys" "wl_id w = so_walletID v"
    "db_wallets d' = xs @ w\<lparr>wl_balance := wl_balance w + so_refund v + so_payout v,
            wl_locked_balance := wl_locked_balance w - so_lockedUse v, wl_updated_at := db_now d\<rparr> # ys" by blast
  have "so_walletID v \<noteq> wl_id u" if "u \<in> set xs \<union> set ys" for u
    using assms(3) that w(2) by (auto simp: w(1))
  then show ?thesis by (auto simp: w wallet_view_def paid_view_def)
qed

lemma paid_view_append:
  "wallet_view w' = paid_view us w \<Longrightarrow> paid_view vs w' = paid_view (us @ vs) w"
  by (auto simp: wallet_view_def paid_view_def Let_def algebra_simps)

lemma closed_row_Cons: "closed_row vs (closed_row [v] r) = closed_row (v # vs) r"
  by (auto simp: closed_row_def)

lemma closed_row_Nil [simp]: "closed_row [] = id" by (simp add: closed_row_def fun_eq_iff)

definition gain :: "settlementOrder list \<Rightarrow> string \<Rightarrow> int" where
  "gain vs c = payoutOf vs c - stakeOf vs c"

definition wallet_of_currency :: "db \<Rightarrow> settlementOrder \<Rightarrow> bool" where
  "wallet_of_currency d v \<longleftrightarrow> (\<forall>w \<in> set (db_wallets d). wl_id w = so_walletID v \<longrightarrow> wl_currency w = so_currency v)"

lemma map_eq_mono: "map f xs = map g ys \<Longrightarrow> (\<And>x y. f x = g y \<Longrightarrow> f' x = g' y) \<Longrightarrow> map f' xs = map g' ys"
proof -
  assume a: "map f xs = map g ys" and b: "\<And>x y. f x = g y \<Longrightarrow> f' x = g' y"
  have l: "length xs = length ys" using a by (metis length_map)
  show ?thesis
  proof (rule nth_equalityI)
    fix i assume i: "i < length (map f' xs)"
    then have "f (xs ! i) = g (ys ! i)" using a l by (metis length_map nth_map)
    then show "map f' xs ! i = map g' ys ! i" using b i l by simp
  qed (simp add: l)
qed

lemma applySettlements_Inr:
  assumes "applySettlements fault m vs now d = (Inr (), d')" "\<forall>v \<in> set vs. settled_ok v \<and> wallet_of_currency d v"
    "distinct (map wl_id (db_wallets d))"
  shows "same_rest d d' \<and> db_markets d' = db_markets d \<and> db_settlements d' = db_settlements d
    \<and> wallet_keys (db_wallets d') = wallet_keys (db_wallets d)
    \<and> map wallet_view (db_wallets d') = map (paid_view vs) (db_wallets d)
    \<and> pool (db_wallets d') c = pool (db_wallets d) c + gain vs c
    \<and> ((\<forall>w \<in> set (db_wallets d). 0 \<le> wl_locked_balance w) \<longrightarrow> (\<forall>w \<in> set (db_wallets d'). 0 \<le> wl_locked_balance w))
    \<and> db_orders d' = map (closed_row vs) (db_orders d)
    \<and> db_payouts d' = db_payouts d @ map (payout_row m now) (filter (\<lambda>v. so_filled v \<noteq> 0) vs)
    \<and> map tx_view (db_transactions d') = map tx_view (db_transactions d) @ concat (map paid_txs vs)
    \<and> (\<forall>v \<in> set vs. so_filled v \<noteq> 0 \<longrightarrow> (\<forall>p \<in> set (db_payouts d). \<not> (pr_market_id p = m \<and> pr_order_id p = so_id v)))"
  using assms
proof (induction vs arbitrary: d)
  case Nil
  then have "d' = d" by simp
  moreover have "map (paid_view []) ws = map wallet_view ws" for ws by (simp add: paid_view_def wallet_view_def)
  ultimately show ?case by (simp add: gain_def payoutOf_def stakeOf_def)
next
  case (Cons v vs)
  obtain d1 where s1: "applyOrderSettlement fault m v now d = (Inr (), d1)"
    and s2: "applySettlements fault m vs now d1 = (Inr (), d')"
    using Cons.prems(1) by (auto simp: andThen_Inr)
  have ok: "settled_ok v" "\<forall>w \<in> set (db_wallets d). wl_id w = so_walletID v \<longrightarrow> wl_currency w = so_currency v"
    using Cons.prems(2) by (simp_all add: wallet_of_currency_def)
  note o1 = applyOrderSettlement_Inr [OF s1 ok(1)]
  obtain dp where dp: "payWallet fault v d = (Inr (), dp)" "db_wallets d1 = db_wallets dp" using o1(4) by blast
  note pw = payWallet_pool [OF dp(1) ok, folded dp(2)]
  have dis: "distinct (map wl_id (db_wallets d1))" using Cons.prems(3) pw(2) by (simp add: wallet_keys_ids)
  have wc: "\<forall>v \<in> set vs. settled_ok v \<and> wallet_of_currency d1 v"
    using Cons.prems(2) wallet_keys_currency [OF pw(2)] by (simp add: wallet_of_currency_def)
  note ih = Cons.IH [OF s2 wc dis]
  have view: "map wallet_view (db_wallets d1) = map (paid_view [v]) (db_wallets d)"
    using payWallet_view [OF dp(1) ok(1) Cons.prems(3)] dp(2) by simp
  have "map (paid_view vs) (db_wallets d1) = map (paid_view (v # vs)) (db_wallets d)"
    using paid_view_append [of _ "[v]" _ vs] by (intro map_eq_mono [OF view]) simp
  then have g1: "map wallet_view (db_wallets d') = map (paid_view (v # vs)) (db_wallets d)" using ih by simp
  have g2: "pool (db_wallets d') c = pool (db_wallets d) c + gain (v # vs) c"
    using ih pw(1) by (simp add: gain_def payoutOf_def stakeOf_def)
  have g3: "db_orders d' = map (closed_row (v # vs)) (db_orders d)"
    using ih o1(5) by (simp add: closed_row_Cons)
  have g4: "db_payouts d' = db_payouts d @ map (payout_row m now) (filter (\<lambda>v. so_filled v \<noteq> 0) (v # vs))"
    using ih o1(6) by simp
  have g5: "map tx_view (db_transactions d') = map tx_view (db_transactions d) @ concat (map paid_txs (v # vs))"
    using ih o1(7) by simp
  have g6: "\<forall>u \<in> set (v # vs). so_filled u \<noteq> 0 \<longrightarrow> (\<forall>p \<in> set (db_payouts d). \<not> (pr_market_id p = m \<and> pr_order_id p = so_id u))"
    using ih o1(6,8) by auto
  have g7: "same_rest d d'" using ih same_rest_trans [OF o1(1)] by blast
  have g8: "db_markets d' = db_markets d \<and> db_settlements d' = db_settlements d" using ih o1(2,3) by simp
  have g9: "wallet_keys (db_wallets d') = wallet_keys (db_wallets d)" using ih pw(2) by simp
  have g10: "(\<forall>w \<in> set (db_wallets d). 0 \<le> wl_locked_balance w) \<longrightarrow> (\<forall>w \<in> set (db_wallets d'). 0 \<le> wl_locked_balance w)"
    using ih pw(3) by blast
  show ?case using g1 g2 g3 g4 g5 g6 g7 g8 g9 g10 by blast
qed

section \<open>A market\<close>

text \<open>The settled orders of a market.\<close>

definition settled_orders :: "db \<Rightarrow> string \<Rightarrow> string \<Rightarrow> settlementOrder list" where
  "settled_orders d m winner = map (settled_order d m winner) (market_orders d m)"

lemma assertPayoutConservation_Inr:
  "assertPayoutConservation vs = Inr () \<longleftrightarrow> (\<forall>c. stakeOf vs c = payoutOf vs c)"
proof (cases "find (\<lambda>c. stakeOf vs c \<noteq> payoutOf vs c) (remdups (map so_currency vs))")
  case None
  have "stakeOf vs c = payoutOf vs c" for c
  proof (cases "c \<in> so_currency ` set vs")
    case True
    then show ?thesis using None by (auto simp: find_None_iff)
  next
    case False
    then have "filter (\<lambda>v. so_currency v = c) vs = []" by (auto simp: filter_empty_conv)
    then show ?thesis by (simp add: stakeOf_def payoutOf_def)
  qed
  then show ?thesis using None by (simp add: assertPayoutConservation_def)
next
  case (Some c)
  then have "stakeOf vs c \<noteq> payoutOf vs c" by (auto simp: find_Some_iff)
  then show ?thesis using Some by (auto simp: assertPayoutConservation_def)
qed

lemma same_id_same_wallet:
  "distinct (map wl_id ws) \<Longrightarrow> a \<in> set ws \<Longrightarrow> b \<in> set ws \<Longrightarrow> wl_id a = wl_id b \<Longrightarrow> a = b"
  by (auto simp: distinct_map dest: inj_onD)

lemma settled_orders_ok:
  assumes "db_ok d" "\<forall>r \<in> set (market_orders d m). \<exists>w. orderWallet d r = Some w"
  shows "\<forall>v \<in> set (settled_orders d m winner). settled_ok v \<and> wallet_of_currency d v"
proof
  fix v assume "v \<in> set (settled_orders d m winner)"
  then obtain r where r: "r \<in> set (market_orders d m)" "v = settled_order d m winner r"
    by (auto simp: settled_orders_def)
  obtain w where w: "orderWallet d r = Some w" using assms(2) r(1) by blast
  note wr = orderWallet_row [OF w]
  have "so_walletID v = wl_id w" "so_currency v = wl_currency w"
    using w wr by (simp_all add: r(2) settled_order_def orderPayout_fields staked_order_def row_order_def Let_def)
  then have "wallet_of_currency d v"
    using same_id_same_wallet [OF db_okD(1) [OF assms(1)]] wr by (auto simp: wallet_of_currency_def)
  then show "settled_ok v \<and> wallet_of_currency d v" using settled_order_ok [OF assms(1) r(1)] r(2) by simp
qed

text \<open>What a committed settlement of an unsettled market has done.\<close>

definition settled_effect :: "string \<Rightarrow> string \<Rightarrow> string \<Rightarrow> time \<Rightarrow> db \<Rightarrow> db \<Rightarrow> bool" where
  "settled_effect m e winner now d d' \<longleftrightarrow> (let vs = settled_orders d m winner in
     (\<forall>c. stakeOf vs c = payoutOf vs c)
     \<and> (\<forall>r \<in> set (market_orders d m). (\<exists>w. orderWallet d r = Some w)
          \<and> or_filled_amount r = (\<Sum>t \<leftarrow> market_trades d m. trade_shares (or_id r) t))
     \<and> map wallet_view (db_wallets d') = map (paid_view vs) (db_wallets d)
     \<and> db_orders d' = map (closed_row vs) (db_orders d)
     \<and> db_payouts d' = db_payouts d @ map (payout_row m now) (filter (\<lambda>v. so_filled v \<noteq> 0) vs)
     \<and> map tx_view (db_transactions d') = map tx_view (db_transactions d) @ concat (map paid_txs vs)
     \<and> db_settlements d' = db_settlements d @ [\<lparr>sr_market_id = m, sr_event_id = e, sr_winning_option = winner,
          sr_settled_at = stamp now\<rparr>]
     \<and> db_markets d' = updateWhere (\<lambda>r. mr_id r = m)
          (\<lambda>r. r\<lparr>mr_status := ''settled'', mr_settled_at := Some (stamp now)\<rparr>) (db_markets d)
     \<and> wallet_keys (db_wallets d') = wallet_keys (db_wallets d)
     \<and> same_rest d d')"

definition holdings_kept :: "db \<Rightarrow> db \<Rightarrow> bool" where
  "holdings_kept d d' \<longleftrightarrow> (\<forall>c. pool (db_wallets d') c = pool (db_wallets d) c)
     \<and> ((\<forall>w \<in> set (db_wallets d). 0 \<le> wl_locked_balance w) \<longrightarrow> (\<forall>w \<in> set (db_wallets d'). 0 \<le> wl_locked_balance w))"

lemma holdings_kept_refl [simp]: "holdings_kept d d" by (simp add: holdings_kept_def)
lemma holdings_kept_trans: "holdings_kept d d' \<Longrightarrow> holdings_kept d' d'' \<Longrightarrow> holdings_kept d d''"
  by (simp add: holdings_kept_def)

lemma settleMarketTx_Inr:
  assumes "db_ok d" "settleMarketTx fault m e winner now d = (Inr (), d')"
  shows "settled_effect m e winner now d d'" "holdings_kept d d'" "\<not> isSettled d m"
proof -
  obtain us where us: "lockSettlementOrders fault m d = Inr us"
    using assms(2) by (auto simp: settleMarketTx_def split: sum.splits)
  note l = lockSettlementOrders_spec [OF assms(1) us]
  let ?vs = "settled_orders d m winner"
  have vs: "calculatePayouts us winner = ?vs"
    by (simp add: l(1) calculatePayouts_def settled_orders_def settled_order_def)
  obtain d1 where d1: "assertPayoutConservation ?vs = Inr ()" "applySettlements fault m ?vs now d = (Inr (), d1)"
    "recordSettlement fault m e winner now d1 = (Inr (), d')"
    using assms(2) us vs by (auto simp: settleMarketTx_def Let_def andThen_Inr split: sum.splits)
  have conserve: "\<forall>c. stakeOf ?vs c = payoutOf ?vs c" using d1(1) by (simp add: assertPayoutConservation_Inr)
  note a = applySettlements_Inr [OF d1(2) settled_orders_ok [OF assms(1) l(2)] db_okD(1) [OF assms(1)]]
  have r: "\<not> isSettled d1 m"
    "d' = d1\<lparr>db_settlements := db_settlements d1 @ [\<lparr>sr_market_id = m, sr_event_id = e, sr_winning_option = winner,
          sr_settled_at = stamp now\<rparr>],
        db_markets := updateWhere (\<lambda>r. mr_id r = m)
          (\<lambda>r. r\<lparr>mr_status := ''settled'', mr_settled_at := Some (stamp now)\<rparr>) (db_markets d1)\<rparr>"
    using d1(3) by (auto simp: recordSettlement_def Let_def split: if_splits)
  show "settled_effect m e winner now d d'"
    unfolding settled_effect_def Let_def r(2)
    using conserve l(2,3) a by (simp add: same_rest_def)
  show "holdings_kept d d'"
    using a conserve by (simp add: holdings_kept_def r(2) gain_def)
  show "\<not> isSettled d m" using r(1) a by (simp add: isSettled_def)
qed

text \<open>The cases of \<open>settleMarket\<close>: refused and rolled back, nothing to do, or settled.\<close>

lemma settleMarket_cases:
  assumes "settleMarket fault m e winner now d = (x, d')"
  obtains (failed) err where "x = Inl err" "d' = d"
  | (skipped) "x = Inr ()" "d' = d" "isSettled d m \<or> \<not> (\<exists>r \<in> set (db_markets d). mr_id r = m \<and> mr_event_id r = e)"
  | (settled) "x = Inr ()" "settleMarketTx fault m e winner now d = (Inr (), d')" "\<not> isSettled d m"
      "\<exists>r \<in> set (db_markets d). mr_id r = m \<and> mr_event_id r = e \<and> winner \<in> set (mr_options r)"
proof -
  consider "fault ''begin'' m"
    | err where "\<not> fault ''begin'' m" "lockMarketForSettlement fault m e winner d = Inl err"
    | "\<not> fault ''begin'' m" "lockMarketForSettlement fault m e winner d = Inr True"
    | "\<not> fault ''begin'' m" "lockMarketForSettlement fault m e winner d = Inr False"
    by (cases "lockMarketForSettlement fault m e winner d") auto
  then show ?thesis
  proof cases
    case 1
    then show ?thesis using assms failed by (auto simp: settleMarket_def)
  next
    case 2
    then show ?thesis using assms failed by (auto simp: settleMarket_def)
  next
    case 3
    have "isSettled d m \<or> \<not> (\<exists>r \<in> set (db_markets d). mr_id r = m \<and> mr_event_id r = e)"
      using 3(2) by (auto simp: lockMarketForSettlement_def find_None_iff split: if_splits option.splits)
    then show ?thesis using 3 assms skipped by (auto simp: settleMarket_def)
  next
    case 4
    have m: "\<not> isSettled d m" "\<exists>r \<in> set (db_markets d). mr_id r = m \<and> mr_event_id r = e \<and> winner \<in> set (mr_options r)"
      using 4(2) by (auto simp: lockMarketForSettlement_def find_Some_iff split: if_splits option.splits)
    obtain y d1 where y: "settleMarketTx fault m e winner now d = (y, d1)" by force
    show ?thesis
    proof (cases y)
      case (Inl err)
      then show ?thesis using 4 y assms failed by (auto simp: settleMarket_def)
    next
      case (Inr u)
      then show ?thesis using 4 y assms failed settled m
        by (auto simp: settleMarket_def split: if_splits)
    qed
  qed
qed

end
