(* ===== verification/EventPostgres.thy ===== *)
theory EventPostgres
  imports Event TimeFormat SettlementWorker SettlementInv
begin

text \<open>
  \<^verbatim>\<open>internal/event/postgres_repository.go\<close>: the event repository over the tables \<^verbatim>\<open>events\<close>,
  \<^verbatim>\<open>event_resolution_audits\<close> and \<^verbatim>\<open>event_outbox\<close>. The trigger of the schema sets
  \<^verbatim>\<open>updated_at\<close> to the server's clock on every update. \<open>marshal\<close> is \<^verbatim>\<open>json.Marshal\<close> of an
  envelope and the \<^verbatim>\<open>JSONB\<close> column that keeps it: the text the server prints for the stored value.
  The count of updated rows is always available. The second half shows that the tables, seen as a
  store of events, behave as the in-memory repository does.
\<close>

definition stampEvent :: "event \<Rightarrow> event" where
  "stampEvent v = v\<lparr>e_EndTime := stamp (e_EndTime v), e_ResolutionTime := stamp (e_ResolutionTime v),
     e_CreatedAt := stamp (e_CreatedAt v), e_UpdatedAt := stamp (e_UpdatedAt v)\<rparr>"

definition sameSource :: "event \<Rightarrow> event \<Rightarrow> bool" where
  "sameSource a b \<longleftrightarrow> e_SourceType a = e_SourceType b \<and> e_SourceID a = e_SourceID b"

definition eventPgCreate :: "faults \<Rightarrow> event \<Rightarrow> db \<Rightarrow> unit res \<times> db" where
  "eventPgCreate fault v d =
     (if fault ''insert event'' (e_ID v) \<or> \<not> uuidText (e_ID v) then (Inl (Wrapped ''insert event'' dbError), d)
      else if list_ex (\<lambda>e. e_ID e = e_ID v \<or> sameSource e v) (db_events d)
      then (Inl (Sentinel EventErrAlreadyExists), d)
      else (Inr (), d\<lparr>db_events := db_events d @ [stampEvent v]\<rparr>))"

definition eventPgUpsertSource :: "faults \<Rightarrow> event \<Rightarrow> db \<Rightarrow> string res \<times> db" where
  "eventPgUpsertSource fault v d =
     (if fault ''upsert event'' (e_ID v) \<or> \<not> uuidText (e_ID v) then (Inl (Wrapped ''upsert source event'' dbError), d)
      else case find (\<lambda>e. sameSource e v) (db_events d) of
          None \<Rightarrow>
            if list_ex (\<lambda>e. e_ID e = e_ID v) (db_events d)
            then (Inl (Wrapped ''upsert source event'' dbError), d)
            else (Inr (e_ID v), d\<lparr>db_events := db_events d @ [stampEvent v]\<rparr>)
        | Some existing \<Rightarrow> (Inr (e_ID existing), d\<lparr>db_events := updateWhere (\<lambda>e. sameSource e v)
            (\<lambda>e. e\<lparr>e_Title := e_Title v, e_Description := e_Description v, e_Category := e_Category v,
                 e_EndTime := stamp (e_EndTime v), e_ResolutionTime := stamp (e_ResolutionTime v),
                 e_Status := (if e_Status e = ''closed'' \<or> e_Status e = ''resolved'' then e_Status e else e_Status v),
                 e_UpdatedAt := db_now d\<rparr>) (db_events d)\<rparr>))"

definition scanEvent :: "event option \<Rightarrow> event res" where
  "scanEvent row = (case row of None \<Rightarrow> Inl (Sentinel EventErrNotFound) | Some v \<Rightarrow> Inr v)"

definition eventPgGetByID :: "faults \<Rightarrow> string \<Rightarrow> db \<Rightarrow> event res" where
  "eventPgGetByID fault eventID d =
     (if fault ''select event'' eventID \<or> \<not> uuidText eventID then Inl (Wrapped ''scan event'' dbError)
      else scanEvent (find (\<lambda>e. e_ID e = eventID) (db_events d)))"

definition eventPgGetBySource :: "faults \<Rightarrow> string \<Rightarrow> string \<Rightarrow> db \<Rightarrow> event res" where
  "eventPgGetBySource fault sourceType sourceID d =
     (if fault ''select source event'' sourceID then Inl (Wrapped ''scan event'' dbError)
      else scanEvent (find (\<lambda>e. e_SourceType e = sourceType \<and> e_SourceID e = sourceID) (db_events d)))"

definition eventPgList :: "faults \<Rightarrow> eventFilters \<Rightarrow> db \<Rightarrow> (event list \<times> int) res" where
  "eventPgList fault filters d =
     (if fault ''count events'' [] then Inl (Wrapped ''count events'' dbError)
      else let rows = filter (eventMatches filters) (db_events d);
               total = int (length rows);
               offset = (ef_Page filters - 1) * ef_Limit filters
        in if fault ''query events'' [] then Inl (Wrapped ''query events'' dbError)
           else if fault ''iterate events'' [] then Inl (Wrapped ''iterate events'' dbError)
           else Inr (take (nat (ef_Limit filters)) (drop (nat offset) (sort_by eventsSoonestFirst rows)), total))"

definition requireUpdatedRow :: "nat \<Rightarrow> unit res" where
  "requireUpdatedRow n = (if n = 0 then Inl (Sentinel EventErrInvalidTransition) else Inr ())"

definition eventPgUpdateStatus :: "faults \<Rightarrow> string \<Rightarrow> string \<Rightarrow> string \<Rightarrow> db \<Rightarrow> unit res \<times> db" where
  "eventPgUpdateStatus fault eventID expectedStatus status d =
     (if fault ''update event status'' eventID \<or> \<not> uuidText eventID then (Inl (Wrapped ''update event status row'' dbError), d)
      else let p = (\<lambda>e. e_ID e = eventID \<and> e_Status e = expectedStatus) in
        (requireUpdatedRow (rowsAffected p (db_events d)),
         d\<lparr>db_events := updateWhere p (\<lambda>e. e\<lparr>e_Status := status, e_UpdatedAt := db_now d\<rparr>) (db_events d)\<rparr>))"

definition insertOutbox :: "faults \<Rightarrow> string \<Rightarrow> string \<Rightarrow> time \<Rightarrow> db \<Rightarrow> unit res \<times> db" where
  "insertOutbox fault eventID payload createdAt d =
     (case freshUUID d of (i, d') \<Rightarrow>
        if fault ''insert outbox'' eventID
        then (Inl (Wrapped ''insert resolved event outbox message'' dbError), d)
        else if list_ex (\<lambda>r. ob_event_id r = eventID \<and> ob_event_type r = EventResolvedType) (db_outbox d) then (Inr (), d)
        else if list_ex (\<lambda>r. ob_id r = i) (db_outbox d)
        then (Inl (Wrapped ''insert resolved event outbox message'' dbError), d)
        else (Inr (), d'\<lparr>db_outbox := db_outbox d' @ [\<lparr>ob_id = i, ob_event_id = eventID,
          ob_event_type = EventResolvedType, ob_topic = EventResolvedTopic, ob_payload = payload,
          ob_created_at = stamp createdAt, ob_published_at = None\<rparr>]\<rparr>))"

text \<open>\<^verbatim>\<open>json.Marshal\<close> refuses a time whose year has not four digits.\<close>

definition resolveTx ::
  "(envelope \<Rightarrow> string) \<Rightarrow> faults \<Rightarrow> string \<Rightarrow> string \<Rightarrow> string \<Rightarrow> string \<Rightarrow> time \<Rightarrow> db \<Rightarrow> unit res \<times> db" where
  "resolveTx marshal fault eventID expectedStatus outcome resolutionSource updatedAt d =
     (if fault ''resolve event'' eventID \<or> \<not> uuidText eventID then (Inl (Wrapped ''resolve event row'' dbError), d)
      else let p = (\<lambda>e. e_ID e = eventID \<and> e_Status e = expectedStatus);
               d1 = d\<lparr>db_events := updateWhere p (\<lambda>e. e\<lparr>e_Status := ''resolved'', e_Outcome := Some outcome,
                 e_UpdatedAt := db_now d\<rparr>) (db_events d)\<rparr> in
        case requireUpdatedRow (rowsAffected p (db_events d)) of
          Inl err \<Rightarrow> (Inl err, d1)
        | Inr _ \<Rightarrow>
            if fault ''insert audit'' eventID \<or> resolutionSource \<notin> {''manual'', ''polymarket''}
            then (Inl (Wrapped ''insert event resolution audit'' dbError), d1)
            else let d2 = d1\<lparr>db_audits := db_audits d1 @ [\<lparr>ar_event_id = eventID, ar_outcome = outcome,
                       ar_resolution_source = resolutionSource, ar_resolved_at = stamp updatedAt\<rparr>]\<rparr>;
                     payload = marshal (NewEventResolved eventID outcome updatedAt)
              in if \<not> plain_time updatedAt
                 then (Inl (Wrapped ''marshal resolved event outbox payload'' (External ''json'')), d2)
                 else insertOutbox fault eventID payload updatedAt d2)"

definition eventPgResolve ::
  "(envelope \<Rightarrow> string) \<Rightarrow> faults \<Rightarrow> string \<Rightarrow> string \<Rightarrow> string \<Rightarrow> string \<Rightarrow> time \<Rightarrow> db \<Rightarrow> unit res \<times> db" where
  "eventPgResolve marshal fault eventID expectedStatus outcome resolutionSource updatedAt =
     inTx fault eventID ''begin event resolution'' ''commit event resolution''
       (resolveTx marshal fault eventID expectedStatus outcome resolutionSource updatedAt)"

section \<open>The tables as a store\<close>

text \<open>Up to \<^verbatim>\<open>updated_at\<close>, which the trigger sets.\<close>

definition untimed :: "event \<Rightarrow> event" where "untimed e = e\<lparr>e_UpdatedAt := 0\<rparr>"

definition eventStore :: "db \<Rightarrow> eventRepo" where
  "eventStore d = \<lparr>er_byID = map (\<lambda>e. (e_ID e, untimed e)) (db_events d),
     er_idBySource = (\<lambda>k. map_option e_ID (find (\<lambda>e. sourceKey (e_SourceType e) (e_SourceID e) = k) (db_events d)))\<rparr>"

text \<open>Primary key, unique source, and text without the zero byte.\<close>

definition plain_type :: "event \<Rightarrow> bool" where "plain_type e \<longleftrightarrow> CHR 0x00 \<notin> set (e_SourceType e)"

definition events_ok :: "db \<Rightarrow> bool" where
  "events_ok d \<longleftrightarrow> distinct (map e_ID (db_events d))
     \<and> distinct (map (\<lambda>e. (e_SourceType e, e_SourceID e)) (db_events d)) \<and> list_all plain_type (db_events d)"

lemma sourceKey_inj:
  assumes "CHR 0x00 \<notin> set t" "CHR 0x00 \<notin> set t'"
  shows "sourceKey t s = sourceKey t' s' \<longleftrightarrow> t = t' \<and> s = s'"
proof -
  have "takeWhile (\<lambda>c. c \<noteq> CHR 0x00) (sourceKey t s) = t" if "CHR 0x00 \<notin> set t" for t s
    using that unfolding sourceKey_def by (subst takeWhile_append2) auto
  then show ?thesis using assms by (metis append_same_eq same_append_eq sourceKey_def)
qed

lemma untimed_simps [simp]:
  "e_ID (untimed e) = e_ID e" "e_SourceType (untimed e) = e_SourceType e" "e_SourceID (untimed e) = e_SourceID e"
  "e_Title (untimed e) = e_Title e" "e_Description (untimed e) = e_Description e" "e_Category (untimed e) = e_Category e"
  "e_EndTime (untimed e) = e_EndTime e" "e_ResolutionTime (untimed e) = e_ResolutionTime e"
  "e_Status (untimed e) = e_Status e" "e_Outcome (untimed e) = e_Outcome e" "e_CreatedAt (untimed e) = e_CreatedAt e"
  "e_UpdatedAt (untimed e) = 0" "plain_type (untimed e) = plain_type e"
  by (simp_all add: untimed_def plain_type_def)

lemma map_of_store [simp]:
  "map_of (map (\<lambda>e. (e_ID e, untimed e)) es) i = map_option untimed (find (\<lambda>e. e_ID e = i) es)"
  by (induction es) auto

lemma put_store:
  assumes "distinct (map e_ID es)" "find (\<lambda>e. e_ID e = i) es = Some v" "e_ID (f v) = i" "untimed (f v) = w"
  shows "put i w (map (\<lambda>e. (e_ID e, untimed e)) es) = map (\<lambda>e. (e_ID e, untimed e)) (updateWhere (\<lambda>e. e_ID e = i) f es)"
  using assms
proof (induction es)
  case (Cons e es)
  show ?case
  proof (cases "e_ID e = i")
    case True
    then have "\<forall>u \<in> set es. e_ID u \<noteq> i" using Cons.prems(1) by (auto simp: image_iff)
    then have "updateWhere (\<lambda>e. e_ID e = i) f es = es" by (simp add: updateWhere_def map_idI)
    then show ?thesis using True Cons.prems by (simp add: updateWhere_def)
  next
    case False
    then show ?thesis using Cons by (simp add: updateWhere_def)
  qed
qed simp

lemma find_unique:
  assumes "distinct (map k es)" "v \<in> set es"
  shows "find (\<lambda>e. k e = k v) es = Some v"
  using assms by (induction es) (auto simp: rev_image_eqI)

lemma find_ID: "events_ok d \<Longrightarrow> v \<in> set (db_events d) \<Longrightarrow> find (\<lambda>e. e_ID e = e_ID v) (db_events d) = Some v"
  by (rule find_unique) (simp_all add: events_ok_def)

lemma updateWhere_ID:
  assumes "events_ok d" "v \<in> set (db_events d)" "p v"
    and "\<And>e. e \<in> set (db_events d) \<Longrightarrow> p e \<Longrightarrow> e = v"
  shows "updateWhere p f (db_events d) = updateWhere (\<lambda>e. e_ID e = e_ID v) f (db_events d)"
    "rowsAffected p (db_events d) \<noteq> 0"
proof -
  have "p e \<longleftrightarrow> e_ID e = e_ID v" if e: "e \<in> set (db_events d)" for e
  proof
    assume "e_ID e = e_ID v"
    then have "e = v" using assms(1,2) e by (auto simp: events_ok_def distinct_map dest: inj_onD)
    then show "p e" using assms(3) by simp
  qed (use assms(4) e in blast)
  then show "updateWhere p f (db_events d) = updateWhere (\<lambda>e. e_ID e = e_ID v) f (db_events d)"
    by (auto simp: updateWhere_def)
  show "rowsAffected p (db_events d) \<noteq> 0" using assms(2,3) by (auto simp: rowsAffected_def filter_empty_conv)
qed

lemma by_source:
  assumes "events_ok d" "CHR 0x00 \<notin> set t"
  shows "er_idBySource (eventStore d) (sourceKey t s)
    = map_option e_ID (find (\<lambda>e. e_SourceType e = t \<and> e_SourceID e = s) (db_events d))"
proof -
  have "find (\<lambda>e. sourceKey (e_SourceType e) (e_SourceID e) = sourceKey t s) es
      = find (\<lambda>e. e_SourceType e = t \<and> e_SourceID e = s) es" if "list_all plain_type es" for es
    using that assms(2) by (induction es) (auto simp: sourceKey_inj plain_type_def)
  then show ?thesis using assms(1) by (simp add: eventStore_def events_ok_def)
qed

text \<open>An update of rows that keeps identifiers and sources.\<close>

lemma events_ok_update:
  assumes "events_ok d" "\<And>e. e_ID (f e) = e_ID e \<and> e_SourceType (f e) = e_SourceType e \<and> e_SourceID (f e) = e_SourceID e"
  shows "events_ok (d\<lparr>db_events := updateWhere p f (db_events d)\<rparr>)"
    "er_idBySource (eventStore (d\<lparr>db_events := updateWhere p f (db_events d)\<rparr>)) = er_idBySource (eventStore d)"
proof -
  have m: "map e_ID (updateWhere p f es) = map e_ID es"
    "map (\<lambda>e. (e_SourceType e, e_SourceID e)) (updateWhere p f es) = map (\<lambda>e. (e_SourceType e, e_SourceID e)) es"
    "list_all plain_type (updateWhere p f es) = list_all plain_type es" for es
    using assms(2) by (induction es) (auto simp: updateWhere_def plain_type_def)
  then show "events_ok (d\<lparr>db_events := updateWhere p f (db_events d)\<rparr>)" using assms(1) by (simp add: events_ok_def)
  have "map_option e_ID (find q (updateWhere p f es)) = map_option e_ID (find q es)"
    if "\<And>e. q (f e) = q e" for q es
    using assms(2) that by (induction es) (auto simp: updateWhere_def)
  then show "er_idBySource (eventStore (d\<lparr>db_events := updateWhere p f (db_events d)\<rparr>)) = er_idBySource (eventStore d)"
    using assms(2) by (simp add: eventStore_def)
qed

lemma store_update:
  assumes "events_ok d" "find (\<lambda>e. e_ID e = i) (db_events d) = Some v" "e_ID (f v) = i"
    "\<And>e. e_ID (f e) = e_ID e \<and> e_SourceType (f e) = e_SourceType e \<and> e_SourceID (f e) = e_SourceID e"
  shows "eventStore (d\<lparr>db_events := updateWhere (\<lambda>e. e_ID e = i) f (db_events d)\<rparr>)
    = eventStore d\<lparr>er_byID := put i (untimed (f v)) (er_byID (eventStore d))\<rparr>"
proof -
  have "put i (untimed (f v)) (er_byID (eventStore d))
      = er_byID (eventStore (d\<lparr>db_events := updateWhere (\<lambda>e. e_ID e = i) f (db_events d)\<rparr>))"
    using put_store [of "db_events d" i v f "untimed (f v)", OF _ assms(2,3)] assms(1) by (simp add: eventStore_def events_ok_def)
  then show ?thesis
    using events_ok_update(2) [OF assms(1,4), of "\<lambda>e. e_ID e = i"] by simp
qed

lemma store_append:
  assumes "events_ok d" "find (\<lambda>e. e_ID e = e_ID v) (db_events d) = None"
    "find (\<lambda>e. sameSource e v) (db_events d) = None" "plain_type v"
  shows "eventStore (d\<lparr>db_events := db_events d @ [v]\<rparr>) = eventStore d\<lparr>er_byID := put (e_ID v) (untimed v) (er_byID (eventStore d)),
      er_idBySource := (er_idBySource (eventStore d))(sourceKey (e_SourceType v) (e_SourceID v) \<mapsto> e_ID v)\<rparr>"
    "events_ok (d\<lparr>db_events := db_events d @ [v]\<rparr>)"
proof -
  have fresh: "e_ID v \<notin> keys (er_byID (eventStore d))"
    using assms(2) by (auto simp: eventStore_def keys_def find_None_iff)
  have "find (\<lambda>e. sourceKey (e_SourceType e) (e_SourceID e) = sourceKey (e_SourceType v) (e_SourceID v)) (db_events d) = None"
    using assms(1,3,4) by (auto simp: find_None_iff sameSource_def sourceKey_inj events_ok_def list_all_iff plain_type_def)
  moreover have "find q (es @ [v]) = (case find q es of None \<Rightarrow> if q v then Some v else None | Some x \<Rightarrow> Some x)" for q es
    by (induction es) auto
  ultimately have "er_idBySource (eventStore (d\<lparr>db_events := db_events d @ [v]\<rparr>))
      = (er_idBySource (eventStore d))(sourceKey (e_SourceType v) (e_SourceID v) \<mapsto> e_ID v)"
    by (auto simp: eventStore_def fun_eq_iff split: option.split)
  moreover have "er_byID (eventStore (d\<lparr>db_events := db_events d @ [v]\<rparr>)) = put (e_ID v) (untimed v) (er_byID (eventStore d))"
    using put_fresh [OF fresh] by (simp add: eventStore_def)
  ultimately show "eventStore (d\<lparr>db_events := db_events d @ [v]\<rparr>) = eventStore d\<lparr>er_byID := put (e_ID v) (untimed v) (er_byID (eventStore d)),
      er_idBySource := (er_idBySource (eventStore d))(sourceKey (e_SourceType v) (e_SourceID v) \<mapsto> e_ID v)\<rparr>" by simp
  show "events_ok (d\<lparr>db_events := db_events d @ [v]\<rparr>)"
    using assms by (auto simp: events_ok_def find_None_iff sameSource_def)
qed

text \<open>
  The two repositories agree: one result, where the error \<open>err\<close> of the in-memory one is the error
  \<open>g err\<close> of the tables, and one store. The errors differ in two places: an identifier in use is a
  plain error in memory and a unique violation in the tables, and a missing event cannot be told
  from one in another status by the count of updated rows.
\<close>

definition event_sim :: "(go_error \<Rightarrow> go_error) \<Rightarrow> 'a res \<times> db \<Rightarrow> 'a res \<times> eventRepo \<Rightarrow> bool" where
  "event_sim g p m \<longleftrightarrow> fst p = map_sum g id (fst m) \<and> eventStore (snd p) = snd m \<and> events_ok (snd p)"

lemma event_sim_simps [simp]:
  "event_sim g (Inr x, d) (Inr y, r) \<longleftrightarrow> x = y \<and> eventStore d = r \<and> events_ok d"
  "event_sim g (Inl e, d) (Inl e', r) \<longleftrightarrow> e = g e' \<and> eventStore d = r \<and> events_ok d"
  by (auto simp: event_sim_def)

definition createError :: "go_error \<Rightarrow> go_error" where
  "createError err = (case err of Plain _ \<Rightarrow> Sentinel EventErrAlreadyExists | _ \<Rightarrow> err)"

definition upsertError :: "go_error \<Rightarrow> go_error" where
  "upsertError err = (case err of Plain _ \<Rightarrow> Wrapped ''upsert source event'' dbError | _ \<Rightarrow> err)"

definition updateError :: "go_error \<Rightarrow> go_error" where
  "updateError err = (if err = Sentinel EventErrNotFound then Sentinel EventErrInvalidTransition else err)"

lemma event_errors [simp]:
  "createError (Plain m) = Sentinel EventErrAlreadyExists" "createError (Sentinel t) = Sentinel t"
  "upsertError (Plain m) = Wrapped ''upsert source event'' dbError"
  "updateError (Sentinel EventErrNotFound) = Sentinel EventErrInvalidTransition"
  "updateError (Sentinel EventErrInvalidTransition) = Sentinel EventErrInvalidTransition"
  by (simp_all add: createError_def upsertError_def updateError_def)

lemma stampEvent_simps [simp]:
  "e_ID (stampEvent v) = e_ID v" "e_SourceType (stampEvent v) = e_SourceType v" "e_SourceID (stampEvent v) = e_SourceID v"
  "e_Status (stampEvent v) = e_Status v" "e_Outcome (stampEvent v) = e_Outcome v" "plain_type (stampEvent v) = plain_type v"
  "e_Title (stampEvent v) = e_Title v" "e_Description (stampEvent v) = e_Description v" "e_Category (stampEvent v) = e_Category v"
  "e_EndTime (stampEvent v) = stamp (e_EndTime v)" "e_ResolutionTime (stampEvent v) = stamp (e_ResolutionTime v)"
  "sameSource e (stampEvent v) = sameSource e v"
  by (simp_all add: stampEvent_def plain_type_def sameSource_def)

lemma list_ex_find: "list_ex p xs \<longleftrightarrow> find p xs \<noteq> None"
  by (auto simp: list_ex_iff find_None_iff)

lemma lookup_store [simp]:
  "map_of (er_byID (eventStore d)) i = map_option untimed (find (\<lambda>e. e_ID e = i) (db_events d))"
  by (simp add: eventStore_def)

lemma source_store:
  "events_ok d \<Longrightarrow> plain_type v \<Longrightarrow> er_idBySource (eventStore d) (sourceKey (e_SourceType v) (e_SourceID v))
    = map_option e_ID (find (\<lambda>e. sameSource e v) (db_events d))"
  using by_source [of d "e_SourceType v" "e_SourceID v"] by (simp add: plain_type_def sameSource_def)

lemma sim_create:
  assumes "events_ok d" "plain_type v" "uuidText (e_ID v)"
  shows "event_sim createError (eventPgCreate all_fine v d) (eventRepoCreate False (untimed (stampEvent v)) (eventStore d))"
proof (cases "find (\<lambda>e. sameSource e v) (db_events d)")
  case (Some e)
  then have "list_ex (\<lambda>e. e_ID e = e_ID v \<or> sameSource e v) (db_events d)"
    using find_SomeD [OF Some] by (auto simp: list_ex_iff)
  then show ?thesis
    using Some assms by (simp add: eventPgCreate_def eventRepoCreate_def Let_def source_store)
next
  case s: None
  show ?thesis
  proof (cases "find (\<lambda>e. e_ID e = e_ID v) (db_events d)")
    case (Some e)
    then have "list_ex (\<lambda>e. e_ID e = e_ID v \<or> sameSource e v) (db_events d)"
      using find_SomeD [OF Some] by (auto simp: list_ex_iff)
    then show ?thesis
      using s Some assms by (simp add: eventPgCreate_def eventRepoCreate_def Let_def source_store)
  next
    case None
    then have "\<not> list_ex (\<lambda>e. e_ID e = e_ID v \<or> sameSource e v) (db_events d)"
      using s by (auto simp: list_ex_iff find_None_iff)
    then show ?thesis
      using s None assms store_append [OF assms(1), of "stampEvent v"]
      by (simp add: eventPgCreate_def eventRepoCreate_def Let_def source_store)
  qed
qed

lemma sim_upsert:
  assumes "events_ok d" "plain_type v" "uuidText (e_ID v)"
  shows "event_sim upsertError (eventPgUpsertSource all_fine v d) (eventRepoUpsertSource False (untimed (stampEvent v)) (eventStore d))"
proof (cases "find (\<lambda>e. sameSource e v) (db_events d)")
  case None
  then show ?thesis
    using assms store_append [OF assms(1), of "stampEvent v"]
    by (auto simp: eventPgUpsertSource_def eventRepoUpsertSource_def Let_def source_store list_ex_find split: option.split)
next
  case (Some w)
  let ?f = "\<lambda>e. e\<lparr>e_Title := e_Title v, e_Description := e_Description v, e_Category := e_Category v,
                 e_EndTime := stamp (e_EndTime v), e_ResolutionTime := stamp (e_ResolutionTime v),
                 e_Status := (if e_Status e = ''closed'' \<or> e_Status e = ''resolved'' then e_Status e else e_Status v),
                 e_UpdatedAt := db_now d\<rparr>"
  have w: "w \<in> set (db_events d)" "sameSource w v" using find_SomeD [OF Some] by simp_all
  have only: "e = w" if "e \<in> set (db_events d)" "sameSource e v" for e
  proof -
    have "inj_on (\<lambda>e. (e_SourceType e, e_SourceID e)) (set (db_events d))"
      using assms(1) by (simp add: events_ok_def distinct_map)
    moreover have "(e_SourceType e, e_SourceID e) = (e_SourceType w, e_SourceID w)"
      using that w by (simp add: sameSource_def)
    ultimately show ?thesis using that(1) w(1) by (meson inj_onD)
  qed
  have u: "updateWhere (\<lambda>e. sameSource e v) ?f (db_events d) = updateWhere (\<lambda>e. e_ID e = e_ID w) ?f (db_events d)"
    by (rule updateWhere_ID(1) [OF assms(1) w(1), where p = "\<lambda>e. sameSource e v", OF w(2) only])
  have fw: "find (\<lambda>e. e_ID e = e_ID w) (db_events d) = Some w" by (rule find_ID [OF assms(1) w(1)])
  have keep: "e_ID (?f e) = e_ID e \<and> e_SourceType (?f e) = e_SourceType e \<and> e_SourceID (?f e) = e_SourceID e" for e by simp
  have "eventStore (d\<lparr>db_events := updateWhere (\<lambda>e. e_ID e = e_ID w) ?f (db_events d)\<rparr>)
      = eventStore d\<lparr>er_byID := put (e_ID w) (untimed (?f w)) (er_byID (eventStore d))\<rparr>"
    by (rule store_update [OF assms(1) fw]) simp_all
  moreover have "events_ok (d\<lparr>db_events := updateWhere (\<lambda>e. e_ID e = e_ID w) ?f (db_events d)\<rparr>)"
    by (rule events_ok_update(1) [OF assms(1) keep])
  ultimately show ?thesis
    using Some assms fw u
    by (simp add: eventPgUpsertSource_def eventRepoUpsertSource_def Let_def source_store) (simp add: untimed_def)
qed

lemma sim_update:
  assumes "events_ok d" "find (\<lambda>e. e_ID e = i) (db_events d) = Some w" "e_Status w = expected" "e_ID (f w) = i"
    "\<And>e. e_ID (f e) = e_ID e \<and> e_SourceType (f e) = e_SourceType e \<and> e_SourceID (f e) = e_SourceID e"
  shows "rowsAffected (\<lambda>e. e_ID e = i \<and> e_Status e = expected) (db_events d) \<noteq> 0"
    "eventStore (d\<lparr>db_events := updateWhere (\<lambda>e. e_ID e = i \<and> e_Status e = expected) f (db_events d)\<rparr>)
      = eventStore d\<lparr>er_byID := put i (untimed (f w)) (er_byID (eventStore d))\<rparr>"
    "events_ok (d\<lparr>db_events := updateWhere (\<lambda>e. e_ID e = i \<and> e_Status e = expected) f (db_events d)\<rparr>)"
proof -
  have w: "w \<in> set (db_events d)" "e_ID w = i" using find_SomeD [OF assms(2)] by simp_all
  have only: "e = w" if "e \<in> set (db_events d)" "e_ID e = i \<and> e_Status e = expected" for e
    using assms(1) that w by (auto simp: events_ok_def distinct_map dest: inj_onD)
  have p: "e_ID w = i \<and> e_Status w = expected" using w assms(3) by simp
  note u = updateWhere_ID(1) [OF assms(1) w(1), where p = "\<lambda>e. e_ID e = i \<and> e_Status e = expected" and f = f, OF p only]
  note n = updateWhere_ID(2) [OF assms(1) w(1), where p = "\<lambda>e. e_ID e = i \<and> e_Status e = expected", OF p only]
  show "rowsAffected (\<lambda>e. e_ID e = i \<and> e_Status e = expected) (db_events d) \<noteq> 0" by (rule n)
  show "eventStore (d\<lparr>db_events := updateWhere (\<lambda>e. e_ID e = i \<and> e_Status e = expected) f (db_events d)\<rparr>)
      = eventStore d\<lparr>er_byID := put i (untimed (f w)) (er_byID (eventStore d))\<rparr>"
  proof -
    have "updateWhere (\<lambda>e. e_ID e = i \<and> e_Status e = expected) f (db_events d) = updateWhere (\<lambda>e. e_ID e = i) f (db_events d)"
      using u unfolding w(2) .
    then show ?thesis by (simp only: store_update [OF assms(1,2,4,5)])
  qed
  show "events_ok (d\<lparr>db_events := updateWhere (\<lambda>e. e_ID e = i \<and> e_Status e = expected) f (db_events d)\<rparr>)"
    by (rule events_ok_update(1) [OF assms(1,5)])
qed

lemma no_update:
  assumes "events_ok d" "\<And>w. find (\<lambda>e. e_ID e = i) (db_events d) = Some w \<Longrightarrow> e_Status w \<noteq> expected"
  shows "rowsAffected (\<lambda>e. e_ID e = i \<and> e_Status e = expected) (db_events d) = 0"
    "updateWhere (\<lambda>e. e_ID e = i \<and> e_Status e = expected) f (db_events d) = db_events d"
proof -
  have "\<not> (e_ID e = i \<and> e_Status e = expected)" if "e \<in> set (db_events d)" for e
    using assms(2) find_ID [OF assms(1) that] by auto
  then show z: "rowsAffected (\<lambda>e. e_ID e = i \<and> e_Status e = expected) (db_events d) = 0"
    by (auto simp: rowsAffected_def filter_empty_conv)
  show "updateWhere (\<lambda>e. e_ID e = i \<and> e_Status e = expected) f (db_events d) = db_events d"
    by (rule updateWhere_none [OF z])
qed

lemma sim_updateStatus:
  assumes "events_ok d" "uuidText i"
  shows "event_sim updateError (eventPgUpdateStatus all_fine i expected st d) (eventRepoUpdateStatus False i expected st 0 (eventStore d))"
proof (cases "\<exists>w. find (\<lambda>e. e_ID e = i) (db_events d) = Some w \<and> e_Status w = expected")
  case True
  then obtain w where w: "find (\<lambda>e. e_ID e = i) (db_events d) = Some w" "e_Status w = expected" by blast
  let ?f = "\<lambda>e. e\<lparr>e_Status := st, e_UpdatedAt := db_now d\<rparr>"
  have i: "e_ID (?f w) = i" using find_SomeD [OF w(1)] by simp
  note u = sim_update [where f = ?f, OF assms(1) w i, simplified]
  show ?thesis using u w assms(2)
    by (simp add: eventPgUpdateStatus_def eventRepoUpdateStatus_def Let_def requireUpdatedRow_def) (simp add: untimed_def)
next
  case False
  then have n: "\<And>w. find (\<lambda>e. e_ID e = i) (db_events d) = Some w \<Longrightarrow> e_Status w \<noteq> expected" by blast
  show ?thesis
    using no_update [OF assms(1) n] n assms
    by (auto simp: eventPgUpdateStatus_def eventRepoUpdateStatus_def Let_def requireUpdatedRow_def split: option.split)
qed

definition fresh_message :: "db \<Rightarrow> bool" where
  "fresh_message d \<longleftrightarrow> db_uuids d (db_uuid_next d) \<notin> ob_id ` set (db_outbox d)"

lemma insertOutbox_ok:
  "fresh_message d \<Longrightarrow> \<exists>d'. insertOutbox all_fine i p t d = (Inr (), d') \<and> db_events d' = db_events d"
  by (auto simp: insertOutbox_def freshUUID_def fresh_message_def list_ex_iff image_iff)

lemma eventStore_events: "db_events d = db_events d' \<Longrightarrow> eventStore d = eventStore d' \<and> events_ok d = events_ok d'"
  by (simp add: eventStore_def events_ok_def)

lemma sim_resolve:
  assumes "events_ok d" "src = ''manual'' \<or> src = ''polymarket''" "fresh_message d" "uuidText i" "plain_time now"
  shows "event_sim updateError (eventPgResolve marshal all_fine i expected outcome src now d)
    (eventRepoResolve False i expected outcome src 0 (eventStore d))"
proof (cases "\<exists>w. find (\<lambda>e. e_ID e = i) (db_events d) = Some w \<and> e_Status w = expected")
  case True
  then obtain w where w: "find (\<lambda>e. e_ID e = i) (db_events d) = Some w" "e_Status w = expected" by blast
  let ?f = "\<lambda>e. e\<lparr>e_Status := ''resolved'', e_Outcome := Some outcome, e_UpdatedAt := db_now d\<rparr>"
  have i: "e_ID (?f w) = i" using find_SomeD [OF w(1)] by simp
  note u = sim_update [where f = ?f, OF assms(1) w i, simplified]
  obtain d' where d': "eventPgResolve marshal all_fine i expected outcome src now d = (Inr (), d')"
    "db_events d' = updateWhere (\<lambda>e. e_ID e = i \<and> e_Status e = expected) ?f (db_events d)"
  proof -
    let ?d1 = "d\<lparr>db_events := updateWhere (\<lambda>e. e_ID e = i \<and> e_Status e = expected) ?f (db_events d)\<rparr>"
    let ?d2 = "?d1\<lparr>db_audits := db_audits ?d1 @ [\<lparr>ar_event_id = i, ar_outcome = outcome,
                       ar_resolution_source = src, ar_resolved_at = stamp now\<rparr>]\<rparr>"
    have "fresh_message ?d2" using assms(3) by (simp add: fresh_message_def)
    from insertOutbox_ok [OF this, of i "marshal (NewEventResolved i outcome now)" now]
    obtain d' where d': "insertOutbox all_fine i (marshal (NewEventResolved i outcome now)) now ?d2 = (Inr (), d')"
      "db_events d' = db_events ?d2" by blast
    have "eventPgResolve marshal all_fine i expected outcome src now d = (Inr (), d')"
      using u(1) assms(2,4,5) d'(1) by (auto simp: eventPgResolve_def inTx_ok resolveTx_def Let_def requireUpdatedRow_def)
    then show ?thesis using that d'(2) by simp
  qed
  have "eventStore d' = eventStore (d\<lparr>db_events := updateWhere (\<lambda>e. e_ID e = i \<and> e_Status e = expected) ?f (db_events d)\<rparr>)
      \<and> events_ok d'"
    using eventStore_events [of d' "d\<lparr>db_events := updateWhere (\<lambda>e. e_ID e = i \<and> e_Status e = expected) ?f (db_events d)\<rparr>"]
      d'(2) u(3) by simp
  then show ?thesis using u w assms(2)
    by (auto simp: d'(1) eventRepoResolve_def) (simp_all add: untimed_def)
next
  case False
  then have n: "\<And>w. find (\<lambda>e. e_ID e = i) (db_events d) = Some w \<Longrightarrow> e_Status w \<noteq> expected" by blast
  show ?thesis
    using no_update [OF assms(1) n] n assms(1,4)
    by (auto simp: eventPgResolve_def inTx_ok resolveTx_def eventRepoResolve_def Let_def requireUpdatedRow_def split: option.split)
qed

lemma sim_list:
  assumes "1 \<le> ef_Page filters" "0 \<le> ef_Limit filters"
  shows "map_sum id (map_prod (map untimed) id) (eventPgList all_fine filters d) = eventRepoList False filters (eventStore d)"
proof -
  have "filter (eventMatches filters) (map untimed es) = map untimed (filter (eventMatches filters) es)" for es
    by (induction es) (simp_all add: eventMatches_def)
  moreover have "sort_by eventsSoonestFirst (map untimed es) = map untimed (sort_by eventsSoonestFirst es)" for es
    by (rule sort_by_map) (simp add: eventsSoonestFirst_def)
  moreover have "0 \<le> (ef_Page filters - 1) * ef_Limit filters" using assms by simp
  moreover have "snd (page_slice a b xs) = int (length xs)" for a b and xs :: "event list"
    by (simp add: page_slice_def Let_def)
  ultimately show ?thesis
    using assms page_slice_take_drop [where 'a = event, of "(ef_Page filters - 1) * ef_Limit filters" "ef_Limit filters"]
    by (simp add: eventPgList_def eventRepoList_def Let_def eventStore_def o_def prod_eq_iff take_map drop_map)
qed


end
