(* ===== verification/SettlementProps.thy ===== *)
theory SettlementProps
  imports SettlementInv
begin

text \<open>
  What settling promises: money is conserved, a market is paid once, a committed settlement
  pays each order its rounded stake and payout, a completed event has no unsettled market,
  and markets that can never be settled do not hold up the others.
\<close>

section \<open>What a settlement means for a row\<close>

text \<open>The abstract amounts, over rows and rational rounding only.\<close>

definition row_stake :: "db \<Rightarrow> orderRow \<Rightarrow> int" where
  "row_stake d r = (\<Sum>t \<leftarrow> filter (\<lambda>t. tr_market_id t = or_market_id r
       \<and> (tr_maker_order_id t = or_id r \<or> tr_taker_order_id t = or_id r)) (db_trades d).
     let bought = half_up (tr_shares t * tr_matched_price t * 100) (10 ^ 12)
     in if or_type r = ''buy'' then bought else half_up (tr_shares t * 100) 1000000 - bought)"

definition row_refund :: "orderRow \<Rightarrow> int" where
  "row_refund r = (if or_amount r > or_filled_amount r
     then half_up ((or_amount r - or_filled_amount r) * exposure (or_type r) (or_price r) * 100) (10 ^ 12) else 0)"

definition row_wins :: "string \<Rightarrow> orderRow \<Rightarrow> bool" where
  "row_wins winner r \<longleftrightarrow> or_type r = ''buy'' \<and> or_option r = winner \<or> or_type r = ''sell'' \<and> or_option r \<noteq> winner"

definition row_payout :: "string \<Rightarrow> orderRow \<Rightarrow> int" where
  "row_payout winner r = (if row_wins winner r then half_up (or_filled_amount r * 100) 1000000 else 0)"

lemma sum_list_sort_key: "(\<Sum>x \<leftarrow> sort_key k xs. f x) = (\<Sum>x \<leftarrow> xs. f x)" for f :: "'a \<Rightarrow> int"
  by (metis mset_map mset_sort sum_mset_sum_list)

lemma sum_list_filter_if: "(\<Sum>x \<leftarrow> filter p xs. f x) = (\<Sum>x \<leftarrow> xs. if p x then f x else 0)" for f :: "'a \<Rightarrow> int"
  by (induction xs) auto

lemma row_stake_eq:
  assumes "db_ok d" "r \<in> set (market_orders d m)"
  shows "(\<Sum>t \<leftarrow> market_trades d m. trade_stake (row_order w r) t) = row_stake d r"
proof -
  have m: "or_market_id r = m" using assms(2) by (simp add: market_orders_def)
  have v: "valid_trade t" if "t \<in> set (db_trades d)" for t
    using assms(1) that by (auto simp: db_ok_def valid_trade_def)
  have "(\<Sum>t \<leftarrow> market_trades d m. trade_stake (row_order w r) t)
      = (\<Sum>t \<leftarrow> db_trades d. if tr_market_id t = m then trade_stake (row_order w r) t else 0)"
    by (simp add: market_trades_def sum_list_sort_key sum_list_filter_if)
  also have "\<dots> = row_stake d r"
  proof -
    have "collateralCents ''buy'' (tr_shares t) (tr_matched_price t) = half_up (tr_shares t * tr_matched_price t * 100) (10 ^ 12)"
      "payoutCents (tr_shares t) = half_up (tr_shares t * 100) 1000000" if "t \<in> set (db_trades d)" for t
      using v [OF that] collateralCents_half_up [of "tr_shares t" "tr_matched_price t" "''buy''"]
      by (simp_all add: valid_trade_def exposure_def payoutCents_half_up)
    then show ?thesis
      unfolding row_stake_def sum_list_filter_if
      by (intro arg_cong [where f = sum_list] map_cong) (auto simp: m trade_stake_def row_order_def Let_def)
  qed
  finally show ?thesis .
qed

lemma settled_order_row:
  assumes "db_ok d" "r \<in> set (market_orders d m)" "orderWallet d r = Some w"
  shows "so_id (settled_order d m winner r) = or_id r" "so_walletID (settled_order d m winner r) = wl_id w"
    "so_currency (settled_order d m winner r) = or_currency r" "so_status (settled_order d m winner r) = or_status r"
    "so_filled (settled_order d m winner r) = or_filled_amount r"
    "so_stake (settled_order d m winner r) = row_stake d r" "so_refund (settled_order d m winner r) = row_refund r"
    "so_payout (settled_order d m winner r) = row_payout winner r"
    "so_lockedUse (settled_order d m winner r) = row_stake d r + row_refund r"
proof -
  note r = db_okD(3) [OF assms(1,2)]
  let ?v = "staked_order d m r"
  have v: "so_id ?v = or_id r" "so_walletID ?v = wl_id w" "so_currency ?v = or_currency r" "so_status ?v = or_status r"
    "so_filled ?v = or_filled_amount r" "so_amount ?v = or_amount r" "so_side ?v = or_type r"
    "so_option ?v = or_option r" "so_price ?v = or_price r" "so_stake ?v = row_stake d r"
    using row_stake_eq [OF assms(1,2), of w] assms(3)
    by (simp_all add: staked_order_def Let_def) (simp_all add: row_order_def)
  show "so_id (settled_order d m winner r) = or_id r" "so_walletID (settled_order d m winner r) = wl_id w"
    "so_currency (settled_order d m winner r) = or_currency r" "so_status (settled_order d m winner r) = or_status r"
    "so_filled (settled_order d m winner r) = or_filled_amount r"
    "so_stake (settled_order d m winner r) = row_stake d r"
    by (simp_all add: settled_order_def orderPayout_fields v)
  show ref: "so_refund (settled_order d m winner r) = row_refund r"
    using r by (simp add: settled_order_def orderPayout_fields v row_refund_def collateralCents_half_up)
  show "so_payout (settled_order d m winner r) = row_payout winner r"
    using r by (simp add: settled_order_def orderPayout_fields v row_payout_def row_wins_def orderWins_def payoutCents_half_up)
  show "so_lockedUse (settled_order d m winner r) = row_stake d r + row_refund r"
    using ref unfolding settled_order_def orderPayout_fields(9) by (simp add: orderPayout_fields v)
qed

lemma settled_effect_order:
  assumes "db_ok d" "settled_effect m e winner now d d'" "r \<in> set (market_orders d m)"
  shows "so_id (settled_order d m winner r) = or_id r"
    "so_walletID (settled_order d m winner r) = wl_id (the (orderWallet d r))"
    "so_currency (settled_order d m winner r) = or_currency r" "so_status (settled_order d m winner r) = or_status r"
    "so_filled (settled_order d m winner r) = or_filled_amount r"
    "so_stake (settled_order d m winner r) = row_stake d r" "so_refund (settled_order d m winner r) = row_refund r"
    "so_payout (settled_order d m winner r) = row_payout winner r"
    "so_lockedUse (settled_order d m winner r) = row_stake d r + row_refund r"
proof -
  have "\<exists>w. orderWallet d r = Some w" using assms(2,3) by (auto simp: settled_effect_def Let_def)
  then obtain w where w: "orderWallet d r = Some w" by blast
  note row = settled_order_row [OF assms(1,3) w]
  show "so_id (settled_order d m winner r) = or_id r"
    "so_walletID (settled_order d m winner r) = wl_id (the (orderWallet d r))"
    "so_currency (settled_order d m winner r) = or_currency r" "so_status (settled_order d m winner r) = or_status r"
    "so_filled (settled_order d m winner r) = or_filled_amount r"
    "so_stake (settled_order d m winner r) = row_stake d r" "so_refund (settled_order d m winner r) = row_refund r"
    "so_payout (settled_order d m winner r) = row_payout winner r"
    "so_lockedUse (settled_order d m winner r) = row_stake d r + row_refund r"
    using row w by simp_all
qed

text \<open>The tables after a committed settlement, in terms of the rows before it.\<close>

lemma settled_effect_rows:
  assumes "db_ok d" "settled_effect m e winner now d d'"
  shows "db_payouts d' = db_payouts d @ map (\<lambda>r. \<lparr>pr_market_id = m, pr_order_id = or_id r,
        pr_wallet_id = wl_id (the (orderWallet d r)), pr_currency = or_currency r, pr_stake = row_stake d r,
        pr_payout = row_payout winner r, pr_created_at = stamp now\<rparr>)
        (filter (\<lambda>r. or_filled_amount r \<noteq> 0) (market_orders d m))"
    "map wallet_view (db_wallets d') = map (\<lambda>w. let rs = filter (\<lambda>r. orderWallet d r = Some w) (market_orders d m) in
        (wl_id w, wl_currency w, wl_balance w + (\<Sum>r \<leftarrow> rs. row_refund r + row_payout winner r),
         wl_locked_balance w - (\<Sum>r \<leftarrow> rs. row_stake d r + row_refund r))) (db_wallets d)"
    "db_orders d' = map (\<lambda>r. if or_market_id r = m \<and> (or_status r = ''pending'' \<or> or_status r = ''partial'')
        then r\<lparr>or_status := ''cancelled''\<rparr> else r) (db_orders d)"
proof -
  note eff = assms(2) [unfolded settled_effect_def Let_def settled_orders_def]
  have w: "\<exists>w. orderWallet d r = Some w" if "r \<in> set (market_orders d m)" for r using eff that by blast
  note row = settled_effect_order [OF assms(1,2)]
  show "db_payouts d' = db_payouts d @ map (\<lambda>r. \<lparr>pr_market_id = m, pr_order_id = or_id r,
        pr_wallet_id = wl_id (the (orderWallet d r)), pr_currency = or_currency r, pr_stake = row_stake d r,
        pr_payout = row_payout winner r, pr_created_at = stamp now\<rparr>)
        (filter (\<lambda>r. or_filled_amount r \<noteq> 0) (market_orders d m))"
  proof -
    have "map (payout_row m now) (filter (\<lambda>v. so_filled v \<noteq> 0) (map (settled_order d m winner) (market_orders d m)))
      = map (\<lambda>r. \<lparr>pr_market_id = m, pr_order_id = or_id r,
        pr_wallet_id = wl_id (the (orderWallet d r)), pr_currency = or_currency r, pr_stake = row_stake d r,
        pr_payout = row_payout winner r, pr_created_at = stamp now\<rparr>)
        (filter (\<lambda>r. or_filled_amount r \<noteq> 0) (market_orders d m))"
    proof -
      have f: "filter (\<lambda>r. so_filled (settled_order d m winner r) \<noteq> 0) (market_orders d m)
        = filter (\<lambda>r. or_filled_amount r \<noteq> 0) (market_orders d m)"
        using row(5) by (intro filter_cong) auto
      have "payout_row m now (settled_order d m winner r) = \<lparr>pr_market_id = m, pr_order_id = or_id r,
        pr_wallet_id = wl_id (the (orderWallet d r)), pr_currency = or_currency r, pr_stake = row_stake d r,
        pr_payout = row_payout winner r, pr_created_at = stamp now\<rparr>" if r: "r \<in> set (market_orders d m)" for r
        using row [OF r] by (simp add: payout_row_def)
      then show ?thesis by (simp add: filter_map o_def f)
    qed
    then show ?thesis using eff by simp
  qed
  show "map wallet_view (db_wallets d') = map (\<lambda>w. let rs = filter (\<lambda>r. orderWallet d r = Some w) (market_orders d m) in
        (wl_id w, wl_currency w, wl_balance w + (\<Sum>r \<leftarrow> rs. row_refund r + row_payout winner r),
         wl_locked_balance w - (\<Sum>r \<leftarrow> rs. row_stake d r + row_refund r))) (db_wallets d)"
  proof -
    have "paid_view (map (settled_order d m winner) (market_orders d m)) u = (let rs = filter (\<lambda>r. orderWallet d r = Some u) (market_orders d m) in
        (wl_id u, wl_currency u, wl_balance u + (\<Sum>r \<leftarrow> rs. row_refund r + row_payout winner r),
         wl_locked_balance u - (\<Sum>r \<leftarrow> rs. row_stake d r + row_refund r)))" if u: "u \<in> set (db_wallets d)" for u
    proof -
      have f: "filter (\<lambda>r. so_walletID (settled_order d m winner r) = wl_id u) (market_orders d m)
          = filter (\<lambda>r. orderWallet d r = Some u) (market_orders d m)"
      proof (intro filter_cong refl)
        fix r assume r: "r \<in> set (market_orders d m)"
        obtain w where "orderWallet d r = Some w" using w [OF r] by blast
        then show "so_walletID (settled_order d m winner r) = wl_id u \<longleftrightarrow> orderWallet d r = Some u"
          using row(2) [OF r] same_id_same_wallet [OF db_okD(1) [OF assms(1)] _ u, of w] orderWallet_row by auto
      qed
      have "(\<Sum>r \<leftarrow> filter (\<lambda>r. orderWallet d r = Some u) (market_orders d m).
            so_refund (settled_order d m winner r) + so_payout (settled_order d m winner r))
          = (\<Sum>r \<leftarrow> filter (\<lambda>r. orderWallet d r = Some u) (market_orders d m). row_refund r + row_payout winner r)"
        "(\<Sum>r \<leftarrow> filter (\<lambda>r. orderWallet d r = Some u) (market_orders d m). so_lockedUse (settled_order d m winner r))
          = (\<Sum>r \<leftarrow> filter (\<lambda>r. orderWallet d r = Some u) (market_orders d m). row_stake d r + row_refund r)"
        using row(7,8,9) by (intro arg_cong [where f = sum_list] map_cong; auto)+
      then show ?thesis by (simp add: paid_view_def Let_def filter_map o_def f)
    qed
    then show ?thesis using eff by simp
  qed
  show "db_orders d' = map (\<lambda>r. if or_market_id r = m \<and> (or_status r = ''pending'' \<or> or_status r = ''partial'')
        then r\<lparr>or_status := ''cancelled''\<rparr> else r) (db_orders d)"
  proof -
    have "closed_row (map (settled_order d m winner) (market_orders d m)) r
      = (if or_market_id r = m \<and> (or_status r = ''pending'' \<or> or_status r = ''partial'')
        then r\<lparr>or_status := ''cancelled''\<rparr> else r)" if r: "r \<in> set (db_orders d)" for r
    proof -
      have same: "q = r" if "q \<in> set (db_orders d)" "or_id q = or_id r" for q
        using that r db_okD(2) [OF assms(1)] by (auto simp: distinct_map dest: inj_onD)
      have "(\<exists>q \<in> set (market_orders d m). so_id (settled_order d m winner q) = or_id r \<and> open_so (settled_order d m winner q))
        \<longleftrightarrow> (\<exists>q \<in> set (market_orders d m). or_id q = or_id r \<and> (or_status q = ''pending'' \<or> or_status q = ''partial''))"
        using row(1,4) by (intro bex_cong refl) (simp add: open_so_def)
      also have "\<dots> \<longleftrightarrow> or_market_id r = m \<and> (or_status r = ''pending'' \<or> or_status r = ''partial'')"
        using same r by (auto simp: market_orders_def)
      finally show ?thesis by (simp add: closed_row_def)
    qed
    then show ?thesis using eff by simp
  qed
qed

lemma settled_effect_ok:
  assumes "db_ok d" "settled_effect m e winner now d d'"
  shows "db_ok d'"
proof -
  note eff = assms(2) [unfolded settled_effect_def Let_def]
  have o: "db_orders d' = map (closed_row (settled_orders d m winner)) (db_orders d)" using eff by blast
  have "or_id (closed_row vs r) = or_id r" "or_amount (closed_row vs r) = or_amount r"
    "or_filled_amount (closed_row vs r) = or_filled_amount r" "or_price (closed_row vs r) = or_price r" for vs r
    by (simp_all add: closed_row_def)
  moreover have "map wl_id (db_wallets d') = map wl_id (db_wallets d)"
    using eff unfolding wallet_keys_ids by simp
  moreover have "db_trades d' = db_trades d" using eff by (simp add: same_rest_def)
  ultimately show ?thesis using assms(1) by (simp add: db_ok_def o o_def)
qed

section \<open>Runs\<close>

lemma settleMarket_keeps:
  assumes step: "\<And>d d'. P d \<Longrightarrow> \<exists>r \<in> set (db_markets d). mr_id r = m \<Longrightarrow> settleMarketTx fault m e winner now d = (Inr (), d') \<Longrightarrow> P d'"
    and "P d"
  shows "P (snd (settleMarket fault m e winner now d))"
proof -
  obtain x d' where x: "settleMarket fault m e winner now d = (x, d')" by force
  then have "P d'" using assms by (cases rule: settleMarket_cases) auto
  then show ?thesis using x by simp
qed

lemma settleMarkets_keeps:
  assumes step: "\<And>m d d'. P d \<Longrightarrow> \<exists>r \<in> set (db_markets d). mr_id r = m \<Longrightarrow> settleMarketTx fault m e winner now d = (Inr (), d') \<Longrightarrow> P d'"
  shows "P d \<Longrightarrow> P (snd (settleMarkets fault ids e winner now acc d))"
proof (induction ids arbitrary: acc d)
  case (Cons m ids)
  obtain x d' where x: "settleMarket fault m e winner now d = (x, d')" by force
  have "P d'" using settleMarket_keeps [of P m fault e winner now d] step Cons.prems x by auto
  then show ?case using Cons.IH x by (cases x) auto
qed simp

lemma settleEvent_keeps:
  assumes step: "\<And>m e w d d'. P d \<Longrightarrow> \<exists>r \<in> set (db_markets d). mr_id r = m \<Longrightarrow> settleMarketTx fault m e w now d = (Inr (), d') \<Longrightarrow> P d'"
    and "P d"
  shows "P (snd (settleEvent fault i now d))"
proof -
  have "P (snd (settlementRepoSettleEvent fault (trimSpace i) now d))"
    using settleMarkets_keeps [of P fault _ _ now] assms
    by (auto simp: settlementRepoSettleEvent_def split: sum.split)
  then show ?thesis using assms(2) by (auto simp: settleEvent_def Let_def split: prod.split sum.split)
qed

text \<open>Any number of settlement calls, each with its own failures and clock.\<close>

inductive settlement_run :: "db \<Rightarrow> db \<Rightarrow> bool" where
  start: "settlement_run d d"
| step: "settlement_run d d' \<Longrightarrow> settlement_run d (snd (settleEvent fault i now d'))"

lemma settlement_run_ok: "settlement_run d d' \<Longrightarrow> db_ok d \<Longrightarrow> db_ok d' \<and> holdings_kept d d'"
proof (induction rule: settlement_run.induct)
  case (step d d' fault i now)
  have "db_ok y \<and> holdings_kept d y"
    if "db_ok x \<and> holdings_kept d x" "settleMarketTx fault m e w now x = (Inr (), y)" for m e w x y
    using that settleMarketTx_Inr(1,2) [OF _ that(2)] settled_effect_ok holdings_kept_trans by blast
  then show ?case
    using settleEvent_keeps [where P = "\<lambda>x. db_ok x \<and> holdings_kept d x"] step by blast
qed simp

text \<open>
  C20: settling conserves money. After any sequence of settlement calls, whatever statements
  failed, each currency holds in total what it held before, no locked balance has become
  negative, and the tables are still well formed.
\<close>

theorem settlement_conserves_money:
  assumes "db_ok d" "\<forall>w \<in> set (db_wallets d). 0 \<le> wl_locked_balance w" "settlement_run d d'"
  shows "pool (db_wallets d') c = pool (db_wallets d) c \<and> (\<forall>w \<in> set (db_wallets d'). 0 \<le> wl_locked_balance w)
    \<and> db_ok d'"
  using settlement_run_ok [OF assms(3,1)] assms(2) by (simp add: holdings_kept_def)

text \<open>
  C21: a settlement that commits pays exactly. Every order of the market with filled shares
  gets one payout row with its rounded stake and, if it wins, its rounded payout; each wallet
  receives refunds and payouts and loses from its locked balance the stakes and refunds of its
  orders; every open order of the market is cancelled, no other order is touched, and stakes
  and payouts agree in every currency.
\<close>

theorem settle_market_pays:
  assumes "db_ok d" "settleMarket fault m e winner now d = (Inr (), d')" "\<not> isSettled d m"
    "\<exists>r \<in> set (db_markets d). mr_id r = m \<and> mr_event_id r = e"
  shows "db_payouts d' = db_payouts d @ map (\<lambda>r. \<lparr>pr_market_id = m, pr_order_id = or_id r,
        pr_wallet_id = wl_id (the (orderWallet d r)), pr_currency = or_currency r, pr_stake = row_stake d r,
        pr_payout = row_payout winner r, pr_created_at = stamp now\<rparr>)
        (filter (\<lambda>r. or_filled_amount r \<noteq> 0) (market_orders d m))
    \<and> map wallet_view (db_wallets d') = map (\<lambda>w. let rs = filter (\<lambda>r. orderWallet d r = Some w) (market_orders d m) in
        (wl_id w, wl_currency w, wl_balance w + (\<Sum>r \<leftarrow> rs. row_refund r + row_payout winner r),
         wl_locked_balance w - (\<Sum>r \<leftarrow> rs. row_stake d r + row_refund r))) (db_wallets d)
    \<and> db_orders d' = map (\<lambda>r. if or_market_id r = m \<and> (or_status r = ''pending'' \<or> or_status r = ''partial'')
        then r\<lparr>or_status := ''cancelled''\<rparr> else r) (db_orders d)
    \<and> isSettled d' m
    \<and> (\<Sum>r \<leftarrow> filter (\<lambda>r. or_currency r = c) (market_orders d m). row_stake d r)
        = (\<Sum>r \<leftarrow> filter (\<lambda>r. or_currency r = c) (market_orders d m). row_payout winner r)"
proof -
  from assms(2) have "settleMarketTx fault m e winner now d = (Inr (), d')"
    using assms(3,4) by (cases rule: settleMarket_cases) auto
  then have eff: "settled_effect m e winner now d d'" by (rule settleMarketTx_Inr(1) [OF assms(1)])
  note e = eff [unfolded settled_effect_def Let_def settled_orders_def]
  have "isSettled d' m" using e by (simp add: isSettled_def)
  moreover have "(\<Sum>r \<leftarrow> filter (\<lambda>r. or_currency r = c) (market_orders d m). row_stake d r)
      = (\<Sum>r \<leftarrow> filter (\<lambda>r. or_currency r = c) (market_orders d m). row_payout winner r)"
  proof -
    note row = settled_effect_order [OF assms(1) eff]
    have f: "filter (\<lambda>r. so_currency (settled_order d m winner r) = c) (market_orders d m)
        = filter (\<lambda>r. or_currency r = c) (market_orders d m)"
      using row(3) by (intro filter_cong) auto
    have s: "(\<Sum>r \<leftarrow> filter (\<lambda>r. or_currency r = c) (market_orders d m). so_stake (settled_order d m winner r))
        = (\<Sum>r \<leftarrow> filter (\<lambda>r. or_currency r = c) (market_orders d m). row_stake d r)"
      "(\<Sum>r \<leftarrow> filter (\<lambda>r. or_currency r = c) (market_orders d m). so_payout (settled_order d m winner r))
        = (\<Sum>r \<leftarrow> filter (\<lambda>r. or_currency r = c) (market_orders d m). row_payout winner r)"
      using row(6,8) by (intro arg_cong [where f = sum_list] map_cong; simp)+
    have "stakeOf (map (settled_order d m winner) (market_orders d m)) c
        = payoutOf (map (settled_order d m winner) (market_orders d m)) c" using e by blast
    then show ?thesis by (simp add: stakeOf_def payoutOf_def filter_map o_def f s)
  qed
  ultimately show ?thesis using settled_effect_rows [OF assms(1) eff] by blast
qed

text \<open>
  Settlement calls among other calls that leave alone the records of settlements and payouts;
  only this component writes them.
\<close>

inductive settling :: "db \<Rightarrow> db \<Rightarrow> bool" where
  start: "settling d d"
| settle: "settling d d' \<Longrightarrow> settling d (snd (settleEvent fault i now d'))"
| other: "settling d d' \<Longrightarrow> db_settlements d'' = db_settlements d' \<Longrightarrow> db_payouts d'' = db_payouts d'
    \<Longrightarrow> db_ok d'' \<Longrightarrow> settling d d''"

definition market_payouts :: "db \<Rightarrow> string \<Rightarrow> payoutRow list" where
  "market_payouts d m = filter (\<lambda>p. pr_market_id p = m) (db_payouts d)"

definition paid_once :: "db \<Rightarrow> bool" where
  "paid_once d \<longleftrightarrow> distinct (map sr_market_id (db_settlements d))
     \<and> distinct (map (\<lambda>p. (pr_market_id p, pr_order_id p)) (db_payouts d))
     \<and> (\<forall>p \<in> set (db_payouts d). isSettled d (pr_market_id p))"

lemma settled_effect_once:
  assumes "db_ok d" "settled_effect m e winner now d d'" "\<not> isSettled d m"
  shows "isSettled d' x \<longleftrightarrow> isSettled d x \<or> x = m"
    "isSettled d x \<Longrightarrow> market_payouts d' x = market_payouts d x \<and> filter (\<lambda>s. sr_market_id s = x) (db_settlements d')
       = filter (\<lambda>s. sr_market_id s = x) (db_settlements d)"
    "paid_once d \<Longrightarrow> paid_once d'"
proof -
  have st: "db_settlements d' = db_settlements d @ [\<lparr>sr_market_id = m, sr_event_id = e, sr_winning_option = winner,
      sr_settled_at = stamp now\<rparr>]"
    using assms(2) by (simp add: settled_effect_def Let_def)
  note rows = settled_effect_rows(1) [OF assms(1,2)]
  let ?rs = "filter (\<lambda>r. or_filled_amount r \<noteq> 0) (market_orders d m)"
  have s: "isSettled d' x \<longleftrightarrow> isSettled d x \<or> x = m" for x by (auto simp: isSettled_def st)
  then show "isSettled d' x \<longleftrightarrow> isSettled d x \<or> x = m" .
  show "market_payouts d' x = market_payouts d x \<and> filter (\<lambda>s. sr_market_id s = x) (db_settlements d')
       = filter (\<lambda>s. sr_market_id s = x) (db_settlements d)" if "isSettled d x"
    using that assms(3) by (auto simp: market_payouts_def rows st filter_empty_conv)
  assume once: "paid_once d"
  have "distinct (map or_id ?rs)" using distinct_market_orders [OF assms(1)] distinct_map_filter by blast
  then have "distinct (map (\<lambda>r. (m, or_id r)) ?rs)" by (auto simp: distinct_map inj_on_def)
  moreover have "pr_market_id p \<noteq> m" if "p \<in> set (db_payouts d)" for p
    using once that assms(3) by (auto simp: paid_once_def)
  ultimately have "distinct (map (\<lambda>p. (pr_market_id p, pr_order_id p)) (db_payouts d'))"
    using once by (auto simp: paid_once_def rows o_def)
  moreover have "distinct (map sr_market_id (db_settlements d'))"
    using once assms(3) by (auto simp: paid_once_def isSettled_def list_ex_iff st)
  moreover have "\<forall>p \<in> set (db_payouts d'). isSettled d' (pr_market_id p)"
    using once s by (auto simp: paid_once_def rows)
  ultimately show "paid_once d'" by (simp add: paid_once_def)
qed

text \<open>
  A market is settled once. From the moment a settlement of a market is recorded, no
  sequence of settlement calls and other work adds, changes or drops one of its payouts or its
  settlement record, a call that finds it settled changes no table at all, and no two payout
  rows are for the same market and order.
\<close>

theorem settled_once:
  assumes "db_ok d" "paid_once d" "settling d d'" "isSettled d m"
  shows "market_payouts d' m = market_payouts d m \<and> isSettled d' m \<and> paid_once d'
    \<and> snd (settleMarket fault m e winner now d') = d'"
proof -
  let ?P = "\<lambda>x. db_ok x \<and> paid_once x \<and> isSettled x m \<and> market_payouts x m = market_payouts d m"
  have "?P d'" using assms(3,1,2,4)
  proof (induction rule: settling.induct)
    case (settle d d' fault i now)
    have "db_ok y \<and> paid_once y \<and> isSettled y m \<and> market_payouts y m = market_payouts d m"
      if "db_ok x \<and> paid_once x \<and> isSettled x m \<and> market_payouts x m = market_payouts d m"
        "settleMarketTx fault k e w now x = (Inr (), y)" for k e w x y
      using that settleMarketTx_Inr(1,3) [OF _ that(2)] settled_effect_ok settled_effect_once by metis
    then show ?case
      using settleEvent_keeps [where P = "\<lambda>x. db_ok x \<and> paid_once x \<and> isSettled x m \<and> market_payouts x m = market_payouts d m"]
        settle by blast
  next
    case (other d d' d'')
    then show ?case by (simp add: paid_once_def isSettled_def market_payouts_def)
  qed simp
  moreover have "snd (settleMarket fault m e winner now d') = d'" if "isSettled d' m"
  proof -
    obtain x y where x: "settleMarket fault m e winner now d' = (x, y)" by force
    then have "y = d'" using that by (cases rule: settleMarket_cases) auto
    then show ?thesis using x by simp
  qed
  ultimately show ?thesis by blast
qed

section \<open>Errors and completion\<close>

text \<open>The errors that \<^verbatim>\<open>SettleEvent\<close> sets aside to go on with the next market.\<close>

definition set_aside :: "go_error \<Rightarrow> bool" where
  "set_aside err \<longleftrightarrow> errorsIs err SettlementErrOutcomeNotOption \<or> errorsIs err SettlementErrOrderWalletNotFound"

lemma set_aside_simps [simp]:
  "\<not> set_aside (Plain s)" "set_aside (Wrapped s err) = set_aside err" "\<not> set_aside dbError"
  "set_aside (Joined es) = list_ex set_aside es"
  by (auto simp: set_aside_def dbError_def list_ex_iff)

lemma parse_not_set_aside: "parseFixed s n = Inl err \<Longrightarrow> \<not> set_aside err"
  by (auto simp: parseFixed_def Let_def split: if_splits option.splits)

text \<open>The keys of the rows, which no settlement changes.\<close>

definition row_keys where
  "row_keys d = (map (\<lambda>r. (mr_id r, mr_event_id r, mr_options r)) (db_markets d),
     map (\<lambda>r. (or_market_id r, or_merchant_id r, or_user_id r, or_currency r)) (db_orders d),
     wallet_keys (db_wallets d), db_events d)"

text \<open>A market that cannot be settled: the outcome is not one of its options, or an order has no wallet.\<close>

definition refused :: "db \<Rightarrow> string \<Rightarrow> string \<Rightarrow> string \<Rightarrow> bool" where
  "refused d m e winner \<longleftrightarrow> (\<exists>r \<in> set (db_markets d). mr_id r = m \<and> mr_event_id r = e \<and> winner \<notin> set (mr_options r))
     \<or> (\<exists>r \<in> set (db_orders d). or_market_id r = m \<and> orderWallet d r = None)"

lemma orderWallet_None: "orderWallet d r = None \<longleftrightarrow>
    (\<forall>k \<in> set (wallet_keys (db_wallets d)). snd k \<noteq> (or_merchant_id r, or_user_id r, or_currency r))"
  by (auto simp: orderWallet_def find_None_iff wallet_keys_def)

lemma refused_keys: "row_keys d' = row_keys d \<Longrightarrow> refused d' m e winner = refused d m e winner"
proof -
  have *: "refused d m e winner \<longleftrightarrow> (\<exists>k \<in> set (fst (row_keys d)). fst k = m \<and> fst (snd k) = e \<and> winner \<notin> set (snd (snd k)))
     \<or> (\<exists>k \<in> set (fst (snd (row_keys d))). fst k = m \<and> (\<forall>w \<in> set (fst (snd (snd (row_keys d)))). snd w \<noteq> snd k))" for d
    by (simp add: refused_def row_keys_def orderWallet_None)
  assume "row_keys d' = row_keys d"
  then show ?thesis by (simp only: *)
qed

lemma markets_keys: "row_keys d' = row_keys d \<Longrightarrow>
    (\<exists>r \<in> set (db_markets d'). mr_id r = m \<and> mr_event_id r = e) \<longleftrightarrow> (\<exists>r \<in> set (db_markets d). mr_id r = m \<and> mr_event_id r = e)"
proof -
  have *: "(\<exists>r \<in> set (db_markets d). mr_id r = m \<and> mr_event_id r = e)
      \<longleftrightarrow> (\<exists>k \<in> set (fst (row_keys d)). fst k = m \<and> fst (snd k) = e)" for d
    by (simp add: row_keys_def)
  assume "row_keys d' = row_keys d"
  then show ?thesis by (simp only: *)
qed

lemma settled_effect_keys:
  assumes "settled_effect m e winner now d d'"
  shows "row_keys d' = row_keys d"
proof -
  note eff = assms [unfolded settled_effect_def Let_def same_rest_def]
  have "map (\<lambda>r. (or_market_id r, or_merchant_id r, or_user_id r, or_currency r)) (db_orders d')
      = map (\<lambda>r. (or_market_id r, or_merchant_id r, or_user_id r, or_currency r)) (db_orders d)"
    using eff by (simp add: o_def) (simp add: closed_row_def)
  moreover have "map (\<lambda>r. (mr_id r, mr_event_id r, mr_options r)) (db_markets d')
      = map (\<lambda>r. (mr_id r, mr_event_id r, mr_options r)) (db_markets d)"
    using eff by (auto simp: updateWhere_def)
  ultimately show ?thesis using eff by (simp add: row_keys_def)
qed

text \<open>Where the errors that are set aside come from.\<close>

lemma applySettlements_error:
  "applySettlements fault m vs now d = (Inl err, d') \<Longrightarrow> \<not> set_aside err"
proof (induction vs arbitrary: d)
  case (Cons v vs)
  have c: "castCents s t = Inl e \<Longrightarrow> \<not> set_aside e" for s t e
    by (auto simp: castCents_def split: option.splits)
  have tx: "insertSettlementTransaction fault w ty a cu i now d1 = (Inl e, d2) \<Longrightarrow> \<not> set_aside e" for w ty a cu i d1 d2 e
    using c by (auto simp: insertSettlementTransaction_def split: if_splits sum.splits prod.splits)
  have "bind_res (castCents s a) (\<lambda>x. bind_res (castCents s b) (\<lambda>y. Inr (x, y))) = Inl e \<Longrightarrow> \<not> set_aside e" for s a b e
    using c by (cases "castCents s a"; cases "castCents s b") auto
  then have po: "insertPayout fault m v now d1 = (Inl e, d2) \<Longrightarrow> \<not> set_aside e" for d1 d2 e
    by (auto simp: insertPayout_def split: if_splits sum.splits prod.splits)
  have "bind_res (castCents s a) (\<lambda>x. bind_res (castCents s b) (\<lambda>y. bind_res (castCents s e) (\<lambda>z. Inr (x, y, z)))) = Inl er
      \<Longrightarrow> \<not> set_aside er" for s a b e er
    using c by (cases "castCents s a"; cases "castCents s b"; cases "castCents s e") auto
  then have pw: "payWallet fault v d1 = (Inl e, d2) \<Longrightarrow> \<not> set_aside e" for d1 d2 e
    by (auto simp: payWallet_def Let_def split: if_splits sum.splits prod.splits)
  have ca: "cancelRemainder fault v d1 = (Inl e, d2) \<Longrightarrow> \<not> set_aside e" for d1 d2 e
    by (auto simp: cancelRemainder_def split: if_splits)
  have "applyOrderSettlement fault m v now d = (Inl e, d2) \<Longrightarrow> \<not> set_aside e" for d2 e
    using tx po pw ca by (auto simp: applyOrderSettlement_def andThen_def split: sum.splits prod.splits if_splits)
  then show ?case using Cons by (auto simp: andThen_def split: sum.splits prod.splits)
qed simp

lemma scanAll_Inl: "scanAll scan rows = Inl err \<Longrightarrow> \<exists>r \<in> set rows. scan r = Inl err"
proof (induction rows)
  case (Cons r rows)
  then show ?case by (cases "scan r"; cases "scanAll scan rows") auto
qed simp

lemma scanned_wallets:
  assumes "scanAll (scanSettlementOrder d) rows = Inr vs" "v \<in> set vs"
  shows "so_walletID v \<in> set (map wl_id (db_wallets d))"
proof -
  obtain i where i: "i < length rows" "scanSettlementOrder d (rows ! i) = Inr v"
    using assms by (auto simp: scanAll_Inr in_set_conv_nth)
  then obtain w where "orderWallet d (rows ! i) = Some w" "so_walletID v = wl_id w"
    by (auto simp: scanSettlementOrder_def bind_res_Inr_iff split: option.splits)
  then show ?thesis using orderWallet_row by force
qed

lemma lockSettlementWallets_scanned:
  assumes "scanAll (scanSettlementOrder d) rows = Inr vs" "lockSettlementWallets fault m vs d = Inl err"
  shows "err = Wrapped ''lock settlement wallets'' dbError"
proof -
  let ?ids = "sort (remdups (map so_walletID vs))"
  have "set (map so_walletID vs) \<subseteq> set (map wl_id (db_wallets d))"
    using scanned_wallets [OF assms(1)] by auto
  then have "set (remdups (filter (\<lambda>i. i \<in> set ?ids) (map wl_id (db_wallets d)))) = set ?ids" by auto
  then have "length (remdups (filter (\<lambda>i. i \<in> set ?ids) (map wl_id (db_wallets d)))) = length ?ids"
    by (metis distinct_card distinct_remdups distinct_sort)
  then show ?thesis using assms(2) by (auto simp: lockSettlementWallets_def Let_def split: if_splits)
qed

lemma stakeTrades_error: "stakeTrades ts s = Inl err \<Longrightarrow> \<not> set_aside err"
proof (induction ts arbitrary: s)
  case (Cons t ts)
  have "\<not> set_aside e" if "stakeTrade t s = Inl e" for e
  proof -
    obtain vs m where s: "s = (vs, m)" by force
    show ?thesis
    proof (cases "orderByID (tr_maker_order_id t) vs = None \<or> orderByID (tr_taker_order_id t) vs = None")
      case True
      then show ?thesis using that by (auto simp: stakeTrade_def s split: option.splits)
    next
      case False
      then obtain a b where ab: "orderByID (tr_maker_order_id t) vs = Some a" "orderByID (tr_taker_order_id t) vs = Some b"
        by auto
      have party: "tradeParties a b = Inl x \<Longrightarrow> \<not> set_aside x" for x by (auto simp: tradeParties_def split: if_splits)
      show ?thesis
        using that ab parse_not_set_aside party
        by (cases "parseFixed (numericText 6 (tr_shares t)) 6"; cases "parseFixed (numericText 6 (tr_matched_price t)) 6";
            cases "tradeParties a b") (auto simp: stakeTrade_def s parseShares_def Let_def)
    qed
  qed
  then show ?case using Cons by (cases "stakeTrade t s") auto
qed simp

lemma lockTradeStakes_error: "lockTradeStakes fault m vs d = Inl err \<Longrightarrow> \<not> set_aside err"
proof -
  assume a: "lockTradeStakes fault m vs d = Inl err"
  let ?s = "stakeTrades (sort_key tr_id (filter (\<lambda>t. tr_market_id t = m) (db_trades d))) (vs, \<lambda>_. 0)"
  have c: "checkMatched us f = Inl e \<Longrightarrow> \<not> set_aside e" for us f e
    by (auto simp: checkMatched_def split: option.splits)
  show ?thesis
  proof (cases ?s)
    case (Inl e)
    then show ?thesis using a stakeTrades_error [OF Inl] by (auto simp: lockTradeStakes_def split: if_splits)
  next
    case (Inr p)
    obtain us f where p: "p = (us, f)" by force
    show ?thesis
      using a Inr p c [of us f] by (cases "checkMatched us f") (auto simp: lockTradeStakes_def split: if_splits)
  qed
qed

lemma scanSettlementOrder_error:
  assumes "scanSettlementOrder d r = Inl err" "set_aside err"
  shows "orderWallet d r = None"
proof (rule ccontr)
  assume "orderWallet d r \<noteq> None"
  then obtain w where w: "orderWallet d r = Some w" by blast
  show False
    using assms w parse_not_set_aside
    by (cases "parseFixed (numericText 6 (or_amount r)) 6"; cases "parseFixed (numericText 6 (or_filled_amount r)) 6";
        cases "parseFixed (numericText 6 (or_price r)) 6") (auto simp: scanSettlementOrder_def parseShares_def)
qed

lemma lockSettlementOrders_error:
  assumes "lockSettlementOrders fault m d = Inl err" "set_aside err"
  shows "\<exists>r \<in> set (db_orders d). or_market_id r = m \<and> orderWallet d r = None"
proof -
  let ?rows = "sort_key or_id (filter (\<lambda>v. or_market_id v = m) (db_orders d))"
  have l: "\<not> fault ''lock orders'' m" using assms by (auto simp: lockSettlementOrders_def)
  show ?thesis
  proof (cases "scanAll (scanSettlementOrder d) ?rows")
    case (Inl e)
    then have "e = err" using assms(1) l by (simp add: lockSettlementOrders_def)
    then show ?thesis using scanAll_Inl [OF Inl] scanSettlementOrder_error assms(2) by fastforce
  next
    case (Inr vs)
    have "lockSettlementWallets fault m vs d = Inr ()"
    proof (cases "lockSettlementWallets fault m vs d")
      case e: (Inl e)
      then have "e = err" using assms(1) Inr l by (simp add: lockSettlementOrders_def)
      then show ?thesis using lockSettlementWallets_scanned [OF Inr e] assms(2) set_aside_simps(2,3) by metis
    qed simp
    then have "lockTradeStakes fault m vs d = Inl err"
      using assms(1) Inr l by (simp add: lockSettlementOrders_def)
    then have "\<not> set_aside err" by (rule lockTradeStakes_error)
    then show ?thesis using assms(2) by simp
  qed
qed

lemma lockMarketForSettlement_error:
  assumes "lockMarketForSettlement fault m e winner d = Inl err" "set_aside err"
  shows "refused d m e winner"
proof (cases "find (\<lambda>m'. mr_id m' = m \<and> mr_event_id m' = e) (db_markets d)")
  case None
  then show ?thesis using assms by (auto simp: lockMarketForSettlement_def split: if_splits)
next
  case (Some r)
  then have "r \<in> set (db_markets d)" "mr_id r = m" "mr_event_id r = e" using find_SomeD [OF Some] by simp_all
  moreover have "winner \<notin> set (mr_options r)"
    using assms Some by (auto simp: lockMarketForSettlement_def split: if_splits)
  ultimately show ?thesis by (auto simp: refused_def)
qed

lemma settleMarket_error:
  assumes "settleMarket fault m e winner now d = (Inl err, d')" "set_aside err"
  shows "refused d m e winner"
proof (rule ccontr)
  assume n: "\<not> refused d m e winner"
  have b: "\<not> fault ''begin'' m" using assms by (auto simp: settleMarket_def)
  have "\<not> set_aside x" if "lockMarketForSettlement fault m e winner d = Inl x" for x
    using lockMarketForSettlement_error [OF that] n by blast
  then have "lockMarketForSettlement fault m e winner d = Inr False"
    using assms b by (auto simp: settleMarket_def split: sum.splits bool.splits)
  moreover have "\<not> set_aside x" if "settleMarketTx fault m e winner now d = (Inl x, y)" for x y
  proof -
    have as: "assertPayoutConservation vs = Inl x \<Longrightarrow> \<not> set_aside x" for vs
      by (auto simp: assertPayoutConservation_def split: option.splits)
    have re: "recordSettlement fault m e winner now d1 = (Inl x, y) \<Longrightarrow> \<not> set_aside x" for d1
      by (auto simp: recordSettlement_def Let_def split: if_splits)
    show ?thesis
    proof (cases "lockSettlementOrders fault m d")
      case (Inl z)
      then have "x = z" using that by (simp add: settleMarketTx_def)
      moreover have "\<not> set_aside z" using n lockSettlementOrders_error [OF Inl] unfolding refused_def by blast
      ultimately show ?thesis by simp
    next
      case (Inr vs)
      then show ?thesis using that as re applySettlements_error
        by (auto simp: settleMarketTx_def Let_def andThen_def split: sum.splits prod.splits)
    qed
  qed
  ultimately show False
    using assms b by (auto simp: settleMarket_def split: sum.splits prod.splits if_splits)
qed

lemma settleMarkets_progress:
  assumes "settleMarkets fault ids e winner now acc d = (x, d')" "db_ok d" "\<forall>a. acc = Some a \<longrightarrow> set_aside a"
  shows "db_ok d' \<and> row_keys d' = row_keys d \<and> (\<forall>k. isSettled d k \<longrightarrow> isSettled d' k)
    \<and> (x = Inr () \<longrightarrow> acc = None \<and> (\<forall>m \<in> set ids. (\<exists>r \<in> set (db_markets d). mr_id r = m \<and> mr_event_id r = e) \<longrightarrow> isSettled d' m))
    \<and> (\<forall>err. x = Inl err \<longrightarrow> set_aside err \<longrightarrow>
        (\<forall>m \<in> set ids. (\<exists>r \<in> set (db_markets d). mr_id r = m \<and> mr_event_id r = e) \<longrightarrow> isSettled d' m \<or> refused d m e winner))"
  using assms
proof (induction ids arbitrary: acc d)
  case Nil
  then show ?case by (auto split: option.splits)
next
  case (Cons m ids)
  obtain y d1 where y: "settleMarket fault m e winner now d = (y, d1)" by force
  have d1: "db_ok d1 \<and> row_keys d1 = row_keys d \<and> (\<forall>k. isSettled d k \<longrightarrow> isSettled d1 k)
    \<and> (y = Inr () \<longrightarrow> (\<exists>r \<in> set (db_markets d). mr_id r = m \<and> mr_event_id r = e) \<longrightarrow> isSettled d1 m)"
    using y
  proof (cases rule: settleMarket_cases)
    case settled
    note eff = settleMarketTx_Inr(1) [OF Cons.prems(2) settled(2)]
    show ?thesis
      using settled_effect_ok [OF Cons.prems(2) eff] settled_effect_keys [OF eff]
        settled_effect_once(1) [OF Cons.prems(2) eff settled(3)] by blast
  qed (use Cons.prems(2) in auto)
  show ?case
  proof (cases y)
    case (Inr u)
    then have "settleMarkets fault ids e winner now acc d1 = (x, d')" using Cons.prems(1) y by simp
    from Cons.IH [OF this _ Cons.prems(3)] d1 Inr show ?thesis
      using refused_keys [of d1 d] markets_keys [of d1 d] by auto
  next
    case (Inl err)
    show ?thesis
    proof (cases "set_aside err")
      case True
      then have "settleMarkets fault ids e winner now (joinErrors acc err) d1 = (x, d')"
        using Cons.prems(1) y Inl by (simp add: set_aside_def)
      moreover have "\<forall>a. joinErrors acc err = Some a \<longrightarrow> set_aside a"
        using True Cons.prems(3) by (auto simp: joinErrors_def split: option.splits)
      moreover have "joinErrors acc err \<noteq> None" by (simp add: joinErrors_def)
      moreover have "refused d m e winner" using settleMarket_error y Inl True by blast
      ultimately show ?thesis
        using Cons.IH [of "joinErrors acc err" d1] d1 refused_keys [of d1 d] markets_keys [of d1 d] by auto
    next
      case False
      then have "x = Inl err" "d' = d1" using Cons.prems(1) y Inl by (auto simp: set_aside_def)
      then show ?thesis using d1 False Inl by auto
    qed
  qed
qed

definition event_market :: "db \<Rightarrow> string \<Rightarrow> string \<Rightarrow> bool" where
  "event_market d e m \<longleftrightarrow> (\<exists>r \<in> set (db_markets d). mr_id r = m \<and> mr_event_id r = e)"

lemma settleMarkets_corollaries:
  assumes "settleMarkets fault ids e winner now None d = (x, d')" "db_ok d"
  shows "event_market d' k m = event_market d k m" "refused d' m k w = refused d m k w"
    "isSettled d m \<Longrightarrow> isSettled d' m"
    "x = Inr () \<Longrightarrow> m \<in> set ids \<Longrightarrow> event_market d e m \<Longrightarrow> isSettled d' m"
    "x = Inl err \<Longrightarrow> set_aside err \<Longrightarrow> m \<in> set ids \<Longrightarrow> event_market d e m \<Longrightarrow> isSettled d' m \<or> refused d m e winner"
proof -
  note p = settleMarkets_progress [OF assms, simplified]
  have k: "row_keys d' = row_keys d" using p by blast
  show "event_market d' k m = event_market d k m" unfolding event_market_def by (rule markets_keys [OF k])
  show "refused d' m k w = refused d m k w" by (rule refused_keys [OF k])
  show "isSettled d m \<Longrightarrow> isSettled d' m" using p by blast
  show "x = Inr () \<Longrightarrow> m \<in> set ids \<Longrightarrow> event_market d e m \<Longrightarrow> isSettled d' m"
    using p unfolding event_market_def by blast
  show "x = Inl err \<Longrightarrow> set_aside err \<Longrightarrow> m \<in> set ids \<Longrightarrow> event_market d e m \<Longrightarrow> isSettled d' m \<or> refused d m e winner"
    using p unfolding event_market_def by blast
qed

lemma settleEvent_cases:
  assumes "settleEvent fault i now d = (x, d')"
  obtains (stopped) err where "x = Inl err" "d' = d" "\<not> set_aside err"
  | (run) y winner ids where "unsettledMarketIDs fault (trimSpace i) d = Inr ids"
      "resolvedEventOutcome fault (trimSpace i) d = Inr winner"
      "settleMarkets fault ids (trimSpace i) winner now None d = (y, d')"
      "x = (case y of Inl err \<Rightarrow> Inl (wrap_error ''settle event'' err) | Inr _ \<Rightarrow> Inr ())"
proof (cases "isUUID (trimSpace i)")
  case False
  then show ?thesis using assms stopped by (auto simp: settleEvent_def)
next
  case u: True
  have w: "\<not> set_aside err \<Longrightarrow> \<not> set_aside (wrap_error m err)" for m err by simp
  show ?thesis
  proof (cases "resolvedEventOutcome fault (trimSpace i) d")
    case (Inl err)
    then have "\<not> set_aside err"
      by (auto simp: resolvedEventOutcome_def Let_def set_aside_def dbError_def split: if_splits option.splits)
    then have "\<not> set_aside (wrap_error ''settle event'' err)" by (rule w)
    moreover have "x = Inl (wrap_error ''settle event'' err)" "d' = d"
      using assms u Inl by (simp_all add: settleEvent_def Let_def settlementRepoSettleEvent_def del: wrap_error.simps)
    ultimately show ?thesis using stopped by blast
  next
    case r: (Inr winner)
    show ?thesis
    proof (cases "unsettledMarketIDs fault (trimSpace i) d")
      case (Inl err)
      then have "\<not> set_aside err" by (auto simp: unsettledMarketIDs_def split: if_splits)
      then have "\<not> set_aside (wrap_error ''settle event'' err)" by (rule w)
      moreover have "x = Inl (wrap_error ''settle event'' err)" "d' = d"
        using assms u Inl r by (simp_all add: settleEvent_def Let_def settlementRepoSettleEvent_def del: wrap_error.simps)
      ultimately show ?thesis using stopped by blast
    next
      case (Inr ids)
      obtain y e where y: "settleMarkets fault ids (trimSpace i) winner now None d = (y, e)" by force
      have "settleEvent fault i now d = (case y of Inl err \<Rightarrow> Inl (wrap_error ''settle event'' err) | Inr _ \<Rightarrow> Inr (), e)"
        by (cases y) (simp_all add: settleEvent_def u r Inr y settlementRepoSettleEvent_def del: wrap_error.simps)
      then have "x = (case y of Inl err \<Rightarrow> Inl (wrap_error ''settle event'' err) | Inr _ \<Rightarrow> Inr ())" "d' = e"
        using assms by simp_all
      then show ?thesis using run [OF Inr r] y by blast
    qed
  qed
qed

lemma unsettledMarketIDs_set:
  "unsettledMarketIDs fault e d = Inr ids \<Longrightarrow> set ids = {m. event_market d e m \<and> \<not> isSettled d m}"
  by (auto simp: unsettledMarketIDs_def event_market_def split: if_splits)

lemma settle_event_done:
  assumes "db_ok d" "settleEvent fault i now d = (Inr (), d')"
  shows "\<forall>m. event_market d' (trimSpace i) m \<longrightarrow> isSettled d' m"
  using assms(2)
proof (cases rule: settleEvent_cases)
  case (run y winner ids)
  have y: "y = Inr ()" using run(4) by (auto split: sum.splits)
  note p = settleMarkets_corollaries [OF run(3) assms(1)]
  show ?thesis
  proof (intro allI impI)
    fix m assume "event_market d' (trimSpace i) m"
    then have m: "event_market d (trimSpace i) m" using p(1) by blast
    then show "isSettled d' m" using p(3) [of m] p(4) [OF y] unsettledMarketIDs_set [OF run(1)] by blast
  qed
qed simp

lemma settle_event_idle:
  assumes "\<forall>m. event_market d (trimSpace i) m \<longrightarrow> isSettled d m"
  shows "snd (settleEvent fault i now d) = d"
proof -
  obtain x d' where x: "settleEvent fault i now d = (x, d')" by force
  then have "d' = d"
  proof (cases rule: settleEvent_cases)
    case (run y winner ids)
    have "set ids = {}" unfolding unsettledMarketIDs_set [OF run(1)] using assms by simp
    then show ?thesis using run(3) by simp
  qed simp
  then show ?thesis using x by simp
qed

text \<open>
  C22: success means completion. When \<^verbatim>\<open>SettleEvent\<close> reports success every market of the event
  is settled, and a repeated call, even with other failures and at another time, changes
  nothing.
\<close>

theorem settle_event_complete:
  assumes "db_ok d" "settleEvent fault i now d = (Inr (), d')"
  shows "(\<forall>m. event_market d' (trimSpace i) m \<longrightarrow> isSettled d' m) \<and> snd (settleEvent fault' i now' d') = d'"
  using settle_event_done [OF assms] settle_event_idle by blast

text \<open>
  The loop over the markets, cut where it stopped: those before are settled or refused, those from
  there on are as they were.
\<close>

lemma settleMarkets_prefix:
  assumes "settleMarkets fault ids e winner now acc d = (x, d')" "db_ok d" "\<forall>a. acc = Some a \<longrightarrow> set_aside a"
    "\<forall>m \<in> set ids. event_market d e m"
  shows "\<exists>done_ids rest. ids = done_ids @ rest \<and> (\<forall>m \<in> set done_ids. isSettled d' m \<or> refused d m e winner)
    \<and> (\<forall>m. m \<notin> set done_ids \<longrightarrow> isSettled d' m = isSettled d m)
    \<and> (if rest = [] then x = Inr () \<and> acc = None \<or> (\<exists>err. x = Inl err \<and> set_aside err)
       else \<exists>err. x = Inl err \<and> \<not> set_aside err)"
  using assms
proof (induction ids arbitrary: acc d)
  case Nil
  then show ?case by (auto split: option.splits)
next
  case (Cons m ids)
  obtain y d1 where y: "settleMarket fault m e winner now d = (y, d1)" by force
  have keep: "db_ok d1 \<and> row_keys d1 = row_keys d \<and> (\<forall>k. k \<noteq> m \<longrightarrow> isSettled d1 k = isSettled d k)
      \<and> (isSettled d m \<longrightarrow> isSettled d1 m) \<and> (\<forall>err. y = Inl err \<longrightarrow> d1 = d)
      \<and> (y = Inr () \<longrightarrow> isSettled d1 m)"
    using y
  proof (cases rule: settleMarket_cases)
    case settled
    note eff = settleMarketTx_Inr(1) [OF Cons.prems(2) settled(2)]
    show ?thesis
      using settled_effect_ok [OF Cons.prems(2) eff] settled_effect_keys [OF eff]
        settled_effect_once(1) [OF Cons.prems(2) eff settled(3)] settled(1) by simp
  qed (use Cons.prems(2,4) in \<open>auto simp: event_market_def\<close>)
  have em: "\<forall>m \<in> set ids. event_market d1 e m"
    using Cons.prems(4) keep markets_keys [of d1 d] unfolding event_market_def by simp
  have ref: "refused d1 k e winner = refused d k e winner" for k using refused_keys [of d1 d] keep by simp
  have step: ?case if "settleMarkets fault ids e winner now acc' d1 = (x, d')" "\<forall>a. acc' = Some a \<longrightarrow> set_aside a"
    "isSettled d1 m \<or> refused d m e winner" "acc' = None \<longrightarrow> acc = None" for acc'
  proof -
    from Cons.IH [OF that(1) _ that(2) em] keep obtain done_ids rest where ih: "ids = done_ids @ rest"
      "\<forall>m \<in> set done_ids. isSettled d' m \<or> refused d1 m e winner" "\<forall>m. m \<notin> set done_ids \<longrightarrow> isSettled d' m = isSettled d1 m"
      "if rest = [] then x = Inr () \<and> acc' = None \<or> (\<exists>err. x = Inl err \<and> set_aside err)
       else \<exists>err. x = Inl err \<and> \<not> set_aside err" by blast
    have "isSettled d' m \<or> refused d m e winner" using that(3) ih(2,3) ref by blast
    then show ?thesis using ih keep ref that(4)
      by (intro exI [of _ "m # done_ids"] exI [of _ rest]) (auto split: if_splits)
  qed
  show ?case
  proof (cases y)
    case (Inr u)
    then show ?thesis using step [of acc] Cons.prems(1,3) y keep by simp
  next
    case (Inl err)
    show ?thesis
    proof (cases "set_aside err")
      case True
      have j: "\<forall>a. joinErrors acc err = Some a \<longrightarrow> set_aside a" "joinErrors acc err = None \<longrightarrow> acc = None"
        using True Cons.prems(3) by (auto simp: joinErrors_def split: option.splits)
      have c: "settleMarkets fault ids e winner now (joinErrors acc err) d1 = (x, d')"
        using Cons.prems(1) y Inl True by (simp add: set_aside_def)
      have "refused d m e winner" using settleMarket_error y Inl True by blast
      then show ?thesis using step [OF c j(1) _ j(2)] by blast
    next
      case False
      then have "x = Inl err" "d' = d1" using Cons.prems(1) y Inl by (auto simp: set_aside_def)
      then show ?thesis using False keep Inl by (intro exI [of _ "[]"] exI [of _ "m # ids"]) simp
    qed
  qed
qed


section \<open>A demonstration\<close>

text \<open>
  A resolved event with one market: a partly filled bid of alice, a filled offer of bob and the
  trade between them.
\<close>

definition demo_settle_event :: string where "demo_settle_event = ''00000000-0000-4000-8000-0000000000e1''"

definition demo_settle_db :: db where
  "demo_settle_db = \<lparr>db_merchants = [(''c1'', ''active'')],
     db_events = [\<lparr>e_ID = demo_settle_event, e_SourceType = ''manual'', e_SourceID = ''s1'', e_Title = ''Final'',
       e_Description = [], e_Category = ''sports'', e_EndTime = 5, e_ResolutionTime = 6, e_Status = ''resolved'',
       e_Outcome = Some ''Yes'', e_CreatedAt = 1, e_UpdatedAt = 6\<rparr>],
     db_markets = [\<lparr>mr_id = ''m1'', mr_merchant_id = ''c1'', mr_event_id = demo_settle_event, mr_type = ''binary'',
       mr_question = ''Won?'', mr_options = [''Yes'', ''No''], mr_status = ''closed'', mr_total_volume = 0,
       mr_liquidity_pool = 0, mr_created_at = 1, mr_settled_at = None\<rparr>],
     db_orders = [\<lparr>or_id = ''o1'', or_merchant_id = ''c1'', or_user_id = ''alice'', or_market_id = ''m1'',
         or_type = ''buy'', or_option = ''Yes'', or_amount = 12000000, or_filled_amount = 10000000,
         or_currency = ''USD'', or_price = 400000, or_time_in_force = ''gtc'', or_status = ''partial'',
         or_idempotency_key = None, or_created_at = 2, or_filled_at = None\<rparr>,
       \<lparr>or_id = ''o2'', or_merchant_id = ''c1'', or_user_id = ''bob'', or_market_id = ''m1'',
         or_type = ''sell'', or_option = ''Yes'', or_amount = 10000000, or_filled_amount = 10000000,
         or_currency = ''USD'', or_price = 335000, or_time_in_force = ''gtc'', or_status = ''filled'',
         or_idempotency_key = None, or_created_at = 1, or_filled_at = Some 2\<rparr>],
     db_trades = [\<lparr>tr_id = ''t1'', tr_market_id = ''m1'', tr_maker_order_id = ''o2'', tr_taker_order_id = ''o1'',
       tr_shares = 10000000, tr_matched_price = 335000, tr_created_at = 2\<rparr>],
     db_wallets = [\<lparr>wl_id = ''w1'', wl_merchant_id = ''c1'', wl_user_id = ''alice'', wl_currency = ''USD'',
         wl_balance = 100, wl_locked_balance = 415, wl_updated_at = 2\<rparr>,
       \<lparr>wl_id = ''w2'', wl_merchant_id = ''c1'', wl_user_id = ''bob'', wl_currency = ''USD'',
         wl_balance = 0, wl_locked_balance = 665, wl_updated_at = 1\<rparr>],
     db_transactions = [], db_settlements = [], db_payouts = [], db_audits = [], db_outbox = [],
     db_now = 9000, db_uuids = (\<lambda>n. dec_of (int n)), db_uuid_next = 0\<rparr>"

definition no_faults :: faults where "no_faults = (\<lambda>_ _. False)"

definition demo_settled_db :: db where
  "demo_settled_db = snd (settleEvent no_faults demo_settle_event 8000 demo_settle_db)"

lemma demo_db_ok: "db_ok demo_settle_db" "\<forall>w \<in> set (db_wallets demo_settle_db). 0 \<le> wl_locked_balance w"
  by code_simp+

lemma demo_settles: "settleEvent no_faults demo_settle_event 8000 demo_settle_db = (Inr (), demo_settled_db)"
proof -
  have "fst (settleEvent no_faults demo_settle_event 8000 demo_settle_db) = Inr ()" by code_simp
  then show ?thesis by (simp add: demo_settled_db_def prod_eq_iff)
qed

lemma demo_market_settles:
  "settleMarket no_faults ''m1'' demo_settle_event ''Yes'' 8000 demo_settle_db
    = (Inr (), snd (settleMarket no_faults ''m1'' demo_settle_event ''Yes'' 8000 demo_settle_db))"
proof -
  have "fst (settleMarket no_faults ''m1'' demo_settle_event ''Yes'' 8000 demo_settle_db) = Inr ()" by code_simp
  then show ?thesis by (metis prod.collapse)
qed

theorem settlement_conserves_money_witness:
  "pool (db_wallets demo_settled_db) ''USD'' = 1180"
proof -
  have "settlement_run demo_settle_db demo_settled_db"
    unfolding demo_settled_db_def by (intro settlement_run.step settlement_run.start)
  from settlement_conserves_money [OF demo_db_ok this, of "''USD''"]
  show ?thesis by (simp add: pool_def demo_settle_db_def)
qed

theorem settle_market_pays_witness:
  "map pr_payout (db_payouts (snd (settleMarket no_faults ''m1'' demo_settle_event ''Yes'' 8000 demo_settle_db))) = [1000, 0]"
proof -
  have "\<not> isSettled demo_settle_db ''m1''"
    "\<exists>r \<in> set (db_markets demo_settle_db). mr_id r = ''m1'' \<and> mr_event_id r = demo_settle_event"
    by code_simp+
  note w = settle_market_pays [OF demo_db_ok(1) demo_market_settles this, THEN conjunct1]
  have "map (\<lambda>r. row_payout ''Yes'' r) (filter (\<lambda>r. or_filled_amount r \<noteq> 0) (market_orders demo_settle_db ''m1'')) = [1000, 0]"
    "db_payouts demo_settle_db = []"
    by code_simp+
  then show ?thesis by (subst w) (simp add: o_def)
qed

lemma demo_settled_ok: "db_ok demo_settled_db" "paid_once demo_settled_db" "isSettled demo_settled_db ''m1''"
  by code_simp+

theorem settled_once_witness:
  "snd (settleMarket no_faults ''m1'' demo_settle_event ''No''  9000
    (snd (settleEvent no_faults demo_settle_event 9000 demo_settled_db)))
   = snd (settleEvent no_faults demo_settle_event 9000 demo_settled_db)"
  using settled_once [OF demo_settled_ok(1,2) settling.settle [OF settling.start] demo_settled_ok(3)] by blast

theorem settle_event_complete_witness:
  "isSettled demo_settled_db ''m1'' \<and> snd (settleEvent no_faults demo_settle_event 9000 demo_settled_db) = demo_settled_db"
proof -
  have "event_market demo_settled_db (trimSpace demo_settle_event) ''m1''" by code_simp
  then show ?thesis using settle_event_complete [OF demo_db_ok(1) demo_settles] by blast
qed

text \<open>The same event with a second market that does not offer its outcome.\<close>

definition demo_mixed_db :: db where
  "demo_mixed_db = demo_settle_db\<lparr>db_markets := db_markets demo_settle_db @
     [\<lparr>mr_id = ''m0'', mr_merchant_id = ''c1'', mr_event_id = demo_settle_event, mr_type = ''binary'',
       mr_question = ''Score?'', mr_options = [''Over'', ''Under''], mr_status = ''closed'', mr_total_volume = 0,
       mr_liquidity_pool = 0, mr_created_at = 1, mr_settled_at = None\<rparr>]\<rparr>"

definition demo_mixed_error :: go_error where
  "demo_mixed_error = Wrapped ''settle event'' (Joined [Wrapped ''market m0'' (Sentinel SettlementErrOutcomeNotOption)])"


section \<open>Agreement with the order service\<close>

text \<open>
  C24: settlement and order placement round alike. On shares and prices the order service
  accepts, the \<^verbatim>\<open>big.Int\<close> functions of the settlement package give the cents that package
  \<^verbatim>\<open>fixed\<close>, with its 64-bit arithmetic, gave when the collateral was locked.
\<close>

theorem settlement_amounts_agree:
  assumes "valid_shares n" "valid_price p"
  shows "CollateralCents side n p = Inr (collateralCents side n p) \<and> PayoutCents n = Inr (payoutCents n)"
  using assms CollateralCents_spec [OF assms] PayoutCents_spec [OF assms(1)]
  by (simp add: collateralCents_half_up payoutCents_half_up valid_shares_def)

text \<open>
  amounts survive the text the statements carry. What a numeric column prints the
  settlement reads back exactly, and what the settlement prints the column, and the
  settlement itself, reads back exactly.
\<close>

theorem settlement_text_roundtrip:
  assumes "0 \<le> u"
  shows "parseShares (numericText 6 u) = Inr u \<and> parseCents (numericText 2 u) = Inr u
    \<and> castNumeric 2 (formatCents u) = Some u \<and> parseCents (formatCents u) = Inr u"
proof -
  obtain w f where wf: "formatCents u = w @ ''.'' @ f" "length f = 2" "w \<noteq> []" "list_all is_digit (w @ f)"
    "digits_val (w @ f) = u"
    using formatCents_digits [OF assms] by blast
  have "split_on (CHR ''.'') (w @ ''.'' @ f) = [w, f]"
    using wf(4) split_on_one [of "CHR ''.''" w f] digits_no_point by simp
  then have "parseCents (formatCents u) = Inr u"
    using wf assms setString_digits [of "w @ f"] by (simp add: parseCents_def parseFixed_def Let_def zeros_def)
  then show ?thesis
    using assms by (simp add: parseShares_def parseCents_def parseFixed_numericText castNumeric_formatCents)
qed

section \<open>Orders closed before settlement\<close>

text \<open>
  C25: what a settlement takes from the locked balance of a wallet. For every order of the market,
  whatever its status, it is the stake of its trades and the collateral of its unfilled part; where
  the locked balance does not cover the sum over the orders of the wallet, every attempt to settle
  the market fails and changes nothing. An order that was cancelled, and its collateral released
  then, counts like the others.
\<close>

theorem settlement_needs_locked_funds:
  assumes "db_ok d" "\<forall>w \<in> set (db_wallets d). 0 \<le> wl_locked_balance w"
    "w \<in> set (db_wallets d)" "event_market d e m" "\<not> isSettled d m"
    "wl_locked_balance w < (\<Sum>r \<leftarrow> filter (\<lambda>r. orderWallet d r = Some w) (market_orders d m). row_stake d r + row_refund r)"
  shows "\<exists>err. settleMarket fault m e winner now d = (Inl err, d)"
proof -
  obtain x d' where x: "settleMarket fault m e winner now d = (x, d')" by force
  then show ?thesis
  proof (cases rule: settleMarket_cases)
    case settled
    note eff = settleMarketTx_Inr(1,2) [OF assms(1) settled(2)]
    let ?f = "\<lambda>w. let rs = filter (\<lambda>r. orderWallet d r = Some w) (market_orders d m) in
        (wl_id w, wl_currency w, wl_balance w + (\<Sum>r \<leftarrow> rs. row_refund r + row_payout winner r),
         wl_locked_balance w - (\<Sum>r \<leftarrow> rs. row_stake d r + row_refund r))"
    have "?f w \<in> set (map wallet_view (db_wallets d'))"
      unfolding settled_effect_rows(2) [OF assms(1) eff(1)] set_map using assms(3) by (rule imageI)
    then obtain w' where w': "w' \<in> set (db_wallets d')" "wl_locked_balance w' = wl_locked_balance w
        - (\<Sum>r \<leftarrow> filter (\<lambda>r. orderWallet d r = Some w) (market_orders d m). row_stake d r + row_refund r)"
      by (auto simp: wallet_view_def Let_def)
    have "0 \<le> wl_locked_balance w'" using eff(2) assms(2) w'(1) by (auto simp: holdings_kept_def)
    then show ?thesis using w'(2) assms(6) by simp
  qed (use assms(4,5) x in \<open>auto simp: event_market_def\<close>)
qed

theorem settlement_amounts_agree_witness: "CollateralCents ''sell'' 10000000 335000 = Inr 665"
proof -
  have "valid_shares 10000000" "valid_price 335000" by (simp_all add: valid_shares_def valid_price_def scale_defs)
  from settlement_amounts_agree [OF this, of "''sell''", THEN conjunct1]
  have "CollateralCents ''sell'' 10000000 335000 = Inr (collateralCents ''sell'' 10000000 335000)" .
  also have "collateralCents ''sell'' 10000000 335000 = 665" by code_simp
  finally show ?thesis .
qed

theorem settlement_text_roundtrip_witness: "parseCents (formatCents 5) = Inr 5 \<and> formatCents 5 = ''0.05''"
proof -
  have "formatCents 5 = ''0.05''" by code_simp
  then show ?thesis using settlement_text_roundtrip [of 5] by simp
qed

text \<open>Bob has cancelled an unfilled offer, and its collateral is no longer locked.\<close>

definition demo_blocked_db :: db where
  "demo_blocked_db = demo_settle_db\<lparr>db_orders := db_orders demo_settle_db @
     [\<lparr>or_id = ''o3'', or_merchant_id = ''c1'', or_user_id = ''bob'', or_market_id = ''m1'', or_type = ''sell'',
       or_option = ''Yes'', or_amount = 20000000, or_filled_amount = 0, or_currency = ''USD'', or_price = 600000,
       or_time_in_force = ''gtc'', or_status = ''cancelled'', or_idempotency_key = None, or_created_at = 3,
       or_filled_at = None\<rparr>]\<rparr>"

theorem settlement_needs_locked_funds_witness:
  "or_status (db_orders demo_blocked_db ! 2) = ''cancelled''
    \<and> (\<exists>err. settleMarket no_faults ''m1'' demo_settle_event ''Yes'' 8000 demo_blocked_db = (Inl err, demo_blocked_db))"
proof -
  let ?w = "db_wallets demo_blocked_db ! 1"
  have "db_ok demo_blocked_db" "\<forall>w \<in> set (db_wallets demo_blocked_db). 0 \<le> wl_locked_balance w"
    "?w \<in> set (db_wallets demo_blocked_db)" "event_market demo_blocked_db demo_settle_event ''m1''"
    "\<not> isSettled demo_blocked_db ''m1''"
    "wl_locked_balance ?w < (\<Sum>r \<leftarrow> filter (\<lambda>r. orderWallet demo_blocked_db r = Some ?w) (market_orders demo_blocked_db ''m1'').
        row_stake demo_blocked_db r + row_refund r)"
    by code_simp+
  then have "\<exists>err. settleMarket no_faults ''m1'' demo_settle_event ''Yes'' 8000 demo_blocked_db = (Inl err, demo_blocked_db)"
    by (rule settlement_needs_locked_funds)
  moreover have "or_status (db_orders demo_blocked_db ! 2) = ''cancelled''" by code_simp
  ultimately show ?thesis by blast
qed

end
