(* ===== verification/WorkerProps.thy ===== *)
theory WorkerProps
  imports SettlementWorker SettlementProps
begin

text \<open>
  What the settlement worker promises: the outbox is published at least once and in order, every
  message is disposed of after at most the configured number of attempts, with bounded waits,
  and is acknowledged only when its event is settled or its dead letter is published.
\<close>

section \<open>The outbox\<close>

definition row_message :: "outboxRow \<Rightarrow> outboxMessage" where
  "row_message r = \<lparr>om_id = ob_id r, om_topic = ob_topic r, om_payload = ob_payload r\<rparr>"

definition sent_row :: "outboxRow \<Rightarrow> string \<times> string" where
  "sent_row r = (ob_topic r, ob_payload r)"

definition message_key :: "outboxRow \<Rightarrow> string \<times> string \<times> string" where
  "message_key r = (ob_id r, ob_topic r, ob_payload r)"

definition marked :: "string list \<Rightarrow> (string \<Rightarrow> time) \<Rightarrow> outboxRow \<Rightarrow> outboxRow" where
  "marked ids now r = (if ob_id r \<in> set ids then r\<lparr>ob_published_at := Some (stamp (now (ob_id r)))\<rparr> else r)"

lemma marked_Nil [simp]: "marked [] now = id" by (simp add: marked_def fun_eq_iff)
lemma marked_id [simp]: "ob_id (marked ids now r) = ob_id r" by (simp add: marked_def)
lemma marked_marked: "marked [i] now (marked ids now r) = marked (i # ids) now r" by (auto simp: marked_def)

lemma markPublished_marked:
  "markPublished i (now i) d = d\<lparr>db_outbox := map (marked [i] now) (db_outbox d)\<rparr>"
  by (auto simp: markPublished_def updateWhere_def marked_def intro!: arg_cong [where f = "\<lambda>x. d\<lparr>db_outbox := x\<rparr>"])

text \<open>The messages sent by a run of the loop are a prefix of its list, all of it when it succeeds.\<close>

lemma publishMessages_spec:
  assumes "publishMessages fault refuse now ms d sent = (x, d', sent')"
  shows "\<exists>k \<le> length ms. sent' = sent @ map (\<lambda>m. (om_topic m, om_payload m)) (take k ms)
    \<and> (x = Inr () \<longrightarrow> k = length ms \<and> d' = d\<lparr>db_outbox := map (marked (map om_id ms) now) (db_outbox d)\<rparr>)"
  using assms
proof (induction ms arbitrary: d sent)
  case Nil
  then show ?case by simp
next
  case (Cons m ms)
  show ?case
  proof (cases "refuse (om_id m)")
    case True
    then show ?thesis using Cons.prems by (intro exI [of _ 0]) auto
  next
    case no: False
    show ?thesis
    proof (cases "fault ''mark published'' (om_id m)")
      case True
      then show ?thesis using Cons.prems no by (intro exI [of _ 1]) (auto simp: Let_def)
    next
      case False
      then have p: "publishMessages fault refuse now ms (d\<lparr>db_outbox := map (marked [om_id m] now) (db_outbox d)\<rparr>)
          (sent @ [(om_topic m, om_payload m)]) = (x, d', sent')"
        using Cons.prems no by (simp add: Let_def markPublished_marked)
      obtain k where k: "k \<le> length ms"
        "sent' = (sent @ [(om_topic m, om_payload m)]) @ map (\<lambda>m. (om_topic m, om_payload m)) (take k ms)"
        "x = Inr () \<longrightarrow> k = length ms \<and> d' = d\<lparr>db_outbox := map (marked (map om_id ms) now)
            (map (marked [om_id m] now) (db_outbox d))\<rparr>"
        using Cons.IH [OF p] by auto
      have "marked ids now (marked [i] now r) = marked (i # ids) now r" for ids i r by (auto simp: marked_def)
      then show ?thesis using k by (intro exI [of _ "Suc k"]) (auto simp: o_def)
    qed
  qed
qed

definition pending :: "db \<Rightarrow> outboxRow list" where
  "pending d = sort_by outboxBefore (filter (\<lambda>r. ob_published_at r = None) (db_outbox d))"

text \<open>What one dispatch does to outbox and stream.\<close>

lemma outboxDispatch_cases:
  assumes "outboxDispatch fault refuse busy now limit d sent = (x, d', sent')"
  obtains (failed) err k where "x = Inl err" "d' = d"
      "sent' = sent @ map sent_row (take k (take limit (sort_by outboxBefore
        (filter (\<lambda>r. ob_published_at r = None \<and> \<not> busy (ob_id r)) (db_outbox d)))))"
  | (published) rows where "x = Inr (length rows)"
      "rows = take limit (sort_by outboxBefore (filter (\<lambda>r. ob_published_at r = None \<and> \<not> busy (ob_id r)) (db_outbox d)))"
      "d' = d\<lparr>db_outbox := map (marked (map ob_id rows) now) (db_outbox d)\<rparr>" "sent' = sent @ map sent_row rows"
proof -
  define rows where "rows = take limit (sort_by outboxBefore (filter (\<lambda>r. ob_published_at r = None \<and> \<not> busy (ob_id r)) (db_outbox d)))"
  have fail: thesis if "x = Inl err" "d' = d" "sent' = sent @ map sent_row (take k rows)" for err k
    using that failed unfolding rows_def by blast
  have m: "map (\<lambda>m. (om_topic m, om_payload m)) (take k (map row_message rows)) = map sent_row (take k rows)"
    "map om_id (map row_message rows) = map ob_id rows" for k
    by (simp_all add: take_map o_def row_message_def sent_row_def)
  have z: "sent = sent @ map sent_row (take 0 rows)" by simp
  consider "fault ''begin'' [] \<or> fault ''lock outbox'' []" | "\<not> fault ''begin'' []" "\<not> fault ''lock outbox'' []" by blast
  then show ?thesis
  proof cases
    case 1
    then have "d' = d" "sent' = sent @ map sent_row (take 0 rows)" "\<exists>err. x = Inl err"
      using assms by (auto simp: outboxDispatch_def lockPendingMessages_def split: if_splits)
    then show ?thesis using fail by blast
  next
    case 2
    obtain y e s where y: "publishMessages fault refuse now (map row_message rows) d sent = (y, e, s)" by (metis prod_cases3)
    obtain k where k: "s = sent @ map sent_row (take k rows)"
      "y = Inr () \<longrightarrow> k = length rows \<and> e = d\<lparr>db_outbox := map (marked (map ob_id rows) now) (db_outbox d)\<rparr>"
      using publishMessages_spec [OF y, unfolded m length_map] by blast
    have l: "lockPendingMessages fault busy limit d = Inr (map row_message rows)"
      using 2 by (simp add: lockPendingMessages_def row_message_def [abs_def] rows_def)
    show ?thesis
    proof (cases y)
      case (Inl err)
      then have "x = Inl err" "d' = d" "sent' = s" using assms 2 y l by (auto simp: outboxDispatch_def)
      then show ?thesis using fail k(1) by blast
    next
      case (Inr u)
      show ?thesis
      proof (cases "fault ''commit'' []")
        case True
        then have "x = Inl (Wrapped ''commit outbox dispatch'' dbError)" "d' = d" "sent' = s"
          using assms 2 y l Inr by (auto simp: outboxDispatch_def)
        then show ?thesis using fail k(1) by blast
      next
        case False
        then have "x = Inr (length rows)" "d' = e" "sent' = s" using assms 2 y l Inr by (auto simp: outboxDispatch_def)
        moreover have "y = Inr ()" using Inr by simp
        ultimately show ?thesis using published [OF _ rows_def] k by simp
      qed
    qed
  qed
qed

interpretation outboxOrder: total_comparator outboxBefore "\<lambda>_. True" ob_id
  by unfold_locales (auto simp: outboxBefore_def split: if_splits)

definition outbox_ok :: "db \<Rightarrow> bool" where
  "outbox_ok d \<longleftrightarrow> distinct (map ob_id (db_outbox d))"

lemma outbox_ok_marked [simp]: "outbox_ok (d\<lparr>db_outbox := map (marked ids now) (db_outbox d)\<rparr>) = outbox_ok d"
  by (simp add: outbox_ok_def o_def)

lemma filter_take_ids:
  "distinct (map k xs) \<Longrightarrow> filter (\<lambda>x. k x \<notin> set (map k (take n xs))) xs = drop n xs"
proof (induction xs arbitrary: n)
  case (Cons x xs)
  show ?case
  proof (cases n)
    case 0
    then show ?thesis by simp
  next
    case (Suc m)
    have "filter (\<lambda>y. k y \<notin> set (map k (take (Suc m) (x # xs)))) xs = filter (\<lambda>y. k y \<notin> set (map k (take m xs))) xs"
      using Cons.prems by (intro filter_cong HOL.refl) (metis (no_types, lifting) distinct.simps(2) imageI list.set_map list.simps(9) set_ConsD take_Suc_Cons list.set_intros(2))
    then show ?thesis using Suc Cons by simp
  qed
qed simp

lemma pending_update:
  "pending (d\<lparr>db_outbox := rs\<rparr>) = sort_by outboxBefore (filter (\<lambda>r. ob_published_at r = None) rs)"
  by (simp add: pending_def)

lemma pending_marked:
  assumes "outbox_ok d"
  shows "pending (d\<lparr>db_outbox := map (marked (map ob_id (take n (pending d))) now) (db_outbox d)\<rparr>) = drop n (pending d)"
proof -
  let ?ids = "map ob_id (take n (pending d))"
  let ?P = "\<lambda>r. ob_published_at r = None"
  have d: "distinct (map ob_id (filter ?P (db_outbox d)))"
    using assms distinct_map_filter by (auto simp: outbox_ok_def)
  have "filter ?P (map (marked ?ids now) (db_outbox d)) = filter (\<lambda>r. ob_id r \<notin> set ?ids) (filter ?P (db_outbox d))"
  proof -
    have "filter ?P (map (marked ids now) rs) = filter (\<lambda>r. ob_id r \<notin> set ids) (filter ?P rs)" for ids rs
      by (induction rs) (auto simp: marked_def)
    then show ?thesis .
  qed
  then have "pending (d\<lparr>db_outbox := map (marked ?ids now) (db_outbox d)\<rparr>)
      = sort_by outboxBefore (filter (\<lambda>r. ob_id r \<notin> set ?ids) (filter ?P (db_outbox d)))"
    by (simp only: pending_update)
  also have "\<dots> = filter (\<lambda>r. ob_id r \<notin> set ?ids) (pending d)"
    unfolding pending_def using d by (intro outboxOrder.sort_by_filter) simp_all
  also have "\<dots> = drop n (pending d)"
  proof (rule filter_take_ids)
    have "mset (map ob_id (pending d)) = mset (map ob_id (filter ?P (db_outbox d)))" by (simp add: pending_def)
    then show "distinct (map ob_id (pending d))" using d mset_eq_imp_distinct_iff by blast
  qed
  finally show ?thesis .
qed

text \<open>Dispatches that nothing refuses.\<close>

fun dispatches :: "(string \<Rightarrow> time) \<Rightarrow> nat \<Rightarrow> db \<times> stream \<Rightarrow> db \<times> stream" where
  "dispatches now 0 s = s"
| "dispatches now (Suc n) s =
     dispatches now n (snd (workerDispatch no_faults (\<lambda>_. False) (\<lambda>_. False) now (fst s) (snd s)))"

lemma workerDispatch_ok:
  "workerDispatch no_faults (\<lambda>_. False) (\<lambda>_. False) now d sent
    = (Inr (length (take 20 (pending d))), d\<lparr>db_outbox := map (marked (map ob_id (take 20 (pending d))) now) (db_outbox d)\<rparr>,
       sent @ map sent_row (take 20 (pending d)))"
proof -
  have ok: "\<exists>e s. publishMessages no_faults (\<lambda>_. False) now ms d sent = (Inr (), e, s)" for ms d sent
    by (induction ms arbitrary: d sent) (simp_all add: no_faults_def Let_def)
  obtain x d' sent' where x: "outboxDispatch no_faults (\<lambda>_. False) (\<lambda>_. False) now 20 d sent = (x, d', sent')"
    by (metis prod_cases3)
  obtain ms where ms: "lockPendingMessages no_faults (\<lambda>_. False) 20 d = Inr ms"
    by (simp add: lockPendingMessages_def no_faults_def)
  obtain e s where e: "publishMessages no_faults (\<lambda>_. False) now ms d sent = (Inr (), e, s)" using ok by blast
  have "x = Inr (length ms)" using x ms e by (simp add: outboxDispatch_def no_faults_def)
  with x have "x = Inr (length (take 20 (pending d)))"
    "d' = d\<lparr>db_outbox := map (marked (map ob_id (take 20 (pending d))) now) (db_outbox d)\<rparr>"
    "sent' = sent @ map sent_row (take 20 (pending d))"
    by (cases rule: outboxDispatch_cases; simp add: pending_def)+
  then show ?thesis by (simp add: workerDispatch_def outboxBatchSize_def x)
qed

lemma dispatches_drain:
  assumes "outbox_ok d" "dispatches now n (d, sent) = (d', sent')"
  shows "pending d' = drop (20 * n) (pending d) \<and> sent' = sent @ map sent_row (take (20 * n) (pending d))"
  using assms
proof (induction n arbitrary: d sent)
  case (Suc n)
  let ?d = "d\<lparr>db_outbox := map (marked (map ob_id (take 20 (pending d))) now) (db_outbox d)\<rparr>"
  have "dispatches now n (?d, sent @ map sent_row (take 20 (pending d))) = (d', sent')"
    using Suc.prems(2) by (simp add: workerDispatch_ok)
  from Suc.IH [OF _ this] Suc.prems(1)
  have "pending d' = drop (20 * n) (drop 20 (pending d))"
    "sent' = (sent @ map sent_row (take 20 (pending d))) @ map sent_row (take (20 * n) (drop 20 (pending d)))"
    by (simp_all add: pending_marked)
  then show ?case by (simp add: add.commute take_add)
qed simp

text \<open>
  C26: the outbox drains. Each dispatch that nothing refuses publishes the twenty oldest pending
  messages, in order and each once, so that after \<open>n\<close> dispatches exactly the first \<open>20 n\<close> have
  been published and enough dispatches leave nothing pending.
\<close>

theorem outbox_drains:
  assumes "outbox_ok d" "dispatches now n (d, sent) = (d', sent')"
  shows "pending d' = drop (20 * n) (pending d) \<and> sent' = sent @ map sent_row (take (20 * n) (pending d))"
  by (rule dispatches_drain [OF assms])

text \<open>
  Any dispatches, with any failures, among other work that adds messages to the outbox and
  touches it in no other way.
\<close>

inductive outbox_run :: "db \<times> stream \<Rightarrow> db \<times> stream \<Rightarrow> bool" where
  start: "outbox_run s s"
| dispatch: "outbox_run s (d, sent) \<Longrightarrow> outbox_run s (snd (workerDispatch fault refuse busy now d sent))"
| enqueue: "outbox_run s (d, sent) \<Longrightarrow> db_outbox d' = db_outbox d @ new
    \<Longrightarrow> \<forall>r \<in> set new. ob_published_at r = None \<Longrightarrow> outbox_ok d' \<Longrightarrow> outbox_run s (d', sent)"

definition published_sent :: "db \<times> stream \<Rightarrow> bool" where
  "published_sent s \<longleftrightarrow> (\<forall>r \<in> set (db_outbox (fst s)). ob_published_at r \<noteq> None \<longrightarrow> sent_row r \<in> set (snd s))"

lemma published_sent_dispatch:
  assumes "published_sent (d, sent)" "outbox_ok d" "set sent \<subseteq> T \<union> sent_row ` set (db_outbox d)"
    "workerDispatch fault refuse busy now d sent = (x, d', sent')"
  shows "published_sent (d', sent') \<and> outbox_ok d' \<and> map message_key (db_outbox d') = map message_key (db_outbox d)
    \<and> set sent' \<subseteq> T \<union> sent_row ` set (db_outbox d')"
proof -
  obtain y where y: "outboxDispatch fault refuse busy now 20 d sent = (y, d', sent')"
    using assms(4) by (auto simp: workerDispatch_def outboxBatchSize_def split: prod.splits sum.splits)
  then show ?thesis
  proof (cases rule: outboxDispatch_cases)
    case (failed err k)
    have "set (take k (take 20 (sort_by outboxBefore (filter (\<lambda>r. ob_published_at r = None \<and> \<not> busy (ob_id r)) (db_outbox d)))))
        \<subseteq> set (db_outbox d)"
      using set_take_subset set_sort_by by (metis (no_types, lifting) filter_is_subset subset_trans)
    then show ?thesis using failed assms(1-3) by (auto simp: published_sent_def)
  next
    case (published rows)
    have sub: "set rows \<subseteq> set (db_outbox d)"
      using published(2) set_take_subset set_sort_by by (metis (no_types, lifting) filter_is_subset subset_trans)
    have key: "message_key (marked ids now r) = message_key r" "sent_row (marked ids now r) = sent_row r" for ids r
      by (simp_all add: marked_def message_key_def sent_row_def)
    have "sent_row r \<in> set sent'" if r: "r \<in> set (db_outbox d)" "ob_published_at (marked (map ob_id rows) now r) \<noteq> None" for r
    proof (cases "ob_id r \<in> set (map ob_id rows)")
      case True
      then obtain q where q: "q \<in> set rows" "ob_id q = ob_id r" by auto
      then have "q = r" using sub r(1) assms(2) by (auto simp: outbox_ok_def distinct_map dest: inj_onD)
      then show ?thesis using q(1) published(4) by simp
    next
      case False
      then have "marked (map ob_id rows) now r = r" by (simp add: marked_def)
      then show ?thesis using r assms(1) published(4) by (simp add: published_sent_def)
    qed
    then have "published_sent (d', sent')" using published(3) key by (auto simp: published_sent_def)
    moreover have "set sent' \<subseteq> T \<union> sent_row ` set (db_outbox d')"
      using published(3,4) assms(3) sub key by (auto simp: image_image)
    ultimately show ?thesis using published(3) assms(2) key by (simp add: o_def)
  qed
qed

text \<open>
  C27: the outbox is delivered at least once. In every run a message that is marked as published
  is in the stream, whatever failed and was rolled back; no message disappears from the outbox,
  and the stream carries nothing that is not in the outbox.
\<close>

theorem outbox_at_least_once:
  assumes "outbox_run (d0, []) (d, sent)" "outbox_ok d0" "\<forall>r \<in> set (db_outbox d0). ob_published_at r = None"
  shows "(\<forall>r \<in> set (db_outbox d). ob_published_at r \<noteq> None \<longrightarrow> sent_row r \<in> set sent)
    \<and> (\<exists>new. map message_key (db_outbox d) = map message_key (db_outbox d0) @ new)
    \<and> set sent \<subseteq> sent_row ` set (db_outbox d)"
proof -
  let ?I = "\<lambda>s. published_sent s \<and> outbox_ok (fst s) \<and> (\<exists>new. map message_key (db_outbox (fst s)) = map message_key (db_outbox d0) @ new)
    \<and> set (snd s) \<subseteq> sent_row ` set (db_outbox (fst s))"
  have "?I s" if "outbox_run s0 s" "s0 = (d0, [])" for s0 s
    using that
  proof (induction rule: outbox_run.induct)
    case (start s)
    then show ?case using assms(2,3) by (auto simp: published_sent_def)
  next
    case (dispatch s d sent fault refuse busy now)
    obtain x d' sent' where x: "workerDispatch fault refuse busy now d sent = (x, d', sent')" by (metis prod_cases3)
    show ?case using dispatch published_sent_dispatch [of d sent "{}", OF _ _ _ x] x by auto
  next
    case (enqueue s d sent d' new)
    then show ?case by (auto simp: published_sent_def)
  qed
  from this [OF assms(1) HOL.refl] show ?thesis by (simp add: published_sent_def)
qed

section \<open>The consumer\<close>

fun backoff :: "workerConfig \<Rightarrow> nat \<Rightarrow> int \<Rightarrow> int list" where
  "backoff c 0 delay = []"
| "backoff c (Suc k) delay = delay # backoff c k (min (i64 (delay * 2)) (wc_retryMaxDelay c))"

text \<open>The ways in which a message leaves \<^verbatim>\<open>processUntilAcknowledged\<close>.\<close>

definition acked :: "workerEnv \<Rightarrow> workerState \<Rightarrow> unit res \<Rightarrow> workerState \<Rightarrow> bool" where
  "acked env s x s' \<longleftrightarrow> (if we_ackFails env then (\<exists>err. x = Inl err) \<and> ww_acks s' = ww_acks s
     else x = Inr () \<and> ww_acks s' = Suc (ww_acks s))"

definition settled_and_acked :: "workerEnv \<Rightarrow> string \<Rightarrow> workerState \<Rightarrow> unit res \<Rightarrow> workerState \<Rightarrow> bool" where
  "settled_and_acked env i s x s' \<longleftrightarrow> (\<exists>n d. settlement_run (ww_db s) d
       \<and> settleEvent (we_fault env n) i (we_now env n) d = (Inr (), ww_db s'))
     \<and> ww_dead s' = ww_dead s \<and> acked env s x s'"

definition dead_lettered :: "workerConfig \<Rightarrow> workerEnv \<Rightarrow> string \<Rightarrow> workerState \<Rightarrow> unit res \<Rightarrow> workerState \<Rightarrow> bool" where
  "dead_lettered c env message s x s' \<longleftrightarrow> settlement_run (ww_db s) (ww_db s')
     \<and> (if we_publishFails env then (\<exists>err. x = Inl err) \<and> ww_dead s' = ww_dead s \<and> ww_acks s' = ww_acks s
        else (\<exists>reason. ww_dead s' = ww_dead s @ [(wc_deadLetterTopic c, NewDeadLetter (wc_topic c) message reason (we_failedAt env))])
          \<and> acked env s x s')"

definition given_up :: "workerEnv \<Rightarrow> workerState \<Rightarrow> unit res \<Rightarrow> workerState \<Rightarrow> bool" where
  "given_up env s x s' \<longleftrightarrow> settlement_run (ww_db s) (ww_db s') \<and> (\<exists>n. we_cancelled env n) \<and> x = Inl CtxErr
     \<and> ww_dead s' = ww_dead s \<and> ww_acks s' = ww_acks s"

definition left_over :: "workerConfig \<Rightarrow> workerEnv \<Rightarrow> string \<Rightarrow> string \<Rightarrow> workerState \<Rightarrow> unit res \<Rightarrow> workerState \<Rightarrow> bool" where
  "left_over c env message i s x s' \<longleftrightarrow>
     settled_and_acked env i s x s' \<or> dead_lettered c env message s x s' \<or> given_up env s x s'"

lemma settlement_run_trans: "settlement_run a b \<Longrightarrow> settlement_run b c \<Longrightarrow> settlement_run a c"
  by (rotate_tac, induction rule: settlement_run.induct) (auto intro: settlement_run.intros)

lemma subscriptionAck_acked:
  "subscriptionAck env m s = (x, s') \<Longrightarrow> acked env s x s' \<and> ww_db s' = ww_db s \<and> ww_dead s' = ww_dead s \<and> ww_waits s' = ww_waits s"
  by (auto simp: subscriptionAck_def acked_def split: if_splits)

lemma deadLetter_dead:
  assumes "deadLetterAndAcknowledge c env message reason s = (x, s')"
  shows "dead_lettered c env message s x s'" "ww_waits s' = ww_waits s" "ww_db s' = ww_db s"
proof -
  have "ww_db s' = ww_db s \<and> ww_waits s' = ww_waits s \<and> dead_lettered c env message s x s'"
  proof (cases "we_publishFails env")
    case True
    then show ?thesis using assms
      by (auto simp: deadLetterAndAcknowledge_def Let_def dead_lettered_def intro: settlement_run.start)
  next
    case False
    let ?s = "s\<lparr>ww_dead := ww_dead s @ [(wc_deadLetterTopic c, NewDeadLetter (wc_topic c) message reason (we_failedAt env))]\<rparr>"
    have "subscriptionAck env ''acknowledge dead-lettered settlement event'' ?s = (x, s')"
      using assms False by (simp add: deadLetterAndAcknowledge_def Let_def)
    from subscriptionAck_acked [OF this] show ?thesis
      using False by (auto simp: dead_lettered_def acked_def intro: settlement_run.start)
  qed
  then show "dead_lettered c env message s x s'" "ww_waits s' = ww_waits s" "ww_db s' = ww_db s" by blast+
qed

lemma left_over_later:
  assumes "settlement_run (ww_db s) (ww_db s1)" "ww_dead s1 = ww_dead s" "ww_acks s1 = ww_acks s"
    "left_over c env message i s1 x s'"
  shows "left_over c env message i s x s'"
  using assms settlement_run_trans [OF assms(1)]
  unfolding left_over_def settled_and_acked_def dead_lettered_def given_up_def acked_def
  by (auto split: if_splits)

lemma settleAttempts_left_over:
  assumes "settleAttempts c env message i attempt delay s = (x, s')" "attempt \<le> wc_retryAttempts c"
  shows "left_over c env message i s x s'
    \<and> (\<exists>k. int k \<le> wc_retryAttempts c - attempt \<and> ww_waits s' = ww_waits s @ backoff c k delay)"
  using assms
proof (induction c env message i attempt delay s rule: settleAttempts.induct)
  case (1 c env message i attempt delay s)
  obtain y d where y: "settleEvent (we_fault env (nat attempt)) i (we_now env (nat attempt)) (ww_db s) = (y, d)" by force
  have run: "settlement_run (ww_db s) d"
    using settlement_run.step [OF settlement_run.start, of "ww_db s" "we_fault env (nat attempt)" i "we_now env (nat attempt)"] y
    by simp
  have start: "settlement_run (ww_db s) (ww_db s)" by (rule settlement_run.start)
  show ?case
  proof (cases y)
    case (Inr u)
    then have a: "subscriptionAck env ''acknowledge settled event'' (s\<lparr>ww_db := d\<rparr>) = (x, s')"
      using 1(2,3) y by (subst (asm) settleAttempts.simps) simp
    have "settled_and_acked env i s x s'"
      using subscriptionAck_acked [OF a] y Inr start by (auto simp: settled_and_acked_def acked_def)
    then show ?thesis using subscriptionAck_acked [OF a] 1(3)
      by (auto simp: left_over_def intro!: exI [of _ "0 :: nat"])
  next
    case (Inl err)
    let ?s1 = "s\<lparr>ww_db := d\<rparr>"
    show ?thesis
    proof (cases "isPermanentSettlementError err \<or> attempt = wc_retryAttempts c")
      case True
      then obtain reason where a: "deadLetterAndAcknowledge c env message reason ?s1 = (x, s')"
        using 1(2,3) y Inl by (subst (asm) settleAttempts.simps) (simp add: Let_def)
      have "left_over c env message i ?s1 x s'" using deadLetter_dead(1) [OF a] by (simp add: left_over_def)
      then have "left_over c env message i s x s'" by (rule left_over_later [rotated 3]) (simp_all add: run)
      then show ?thesis using deadLetter_dead(2) [OF a] 1(3) by (auto intro!: exI [of _ "0 :: nat"])
    next
      case False
      let ?s2 = "?s1\<lparr>ww_waits := ww_waits s @ [delay]\<rparr>"
      show ?thesis
      proof (cases "we_cancelled env (nat attempt)")
        case True
        then have "x = Inl CtxErr" "s' = ?s2"
          using 1(2,3) y Inl False by (subst (asm) settleAttempts.simps, simp add: Let_def)+
        then have "left_over c env message i s x s'"
          using run True by (auto simp: left_over_def given_up_def)
        then show ?thesis using \<open>s' = ?s2\<close> False 1(3) by (auto intro!: exI [of _ "1 :: nat"])
      next
        case go: False
        let ?delay = "min (i64 (delay * 2)) (wc_retryMaxDelay c)"
        have r: "settleAttempts c env message i (attempt + 1) ?delay ?s2 = (x, s')"
          using 1(2,3) y Inl False go by (subst (asm) settleAttempts.simps) (simp add: Let_def)
        have ih: "left_over c env message i ?s2 x s'
          \<and> (\<exists>k. int k \<le> wc_retryAttempts c - (attempt + 1) \<and> ww_waits s' = ww_waits ?s2 @ backoff c k ?delay)"
        proof (rule 1(1) [of y d err ?s1 "isPermanentSettlementError err" "attempt = wc_retryAttempts c" ?s2])
          show "settleAttempts c env message i (attempt + 1) (min (i64 (delay * 2)) (wc_retryMaxDelay c)) ?s2 = (x, s')" by (rule r)
        qed (use 1(3) y Inl False go in simp_all)
        then obtain k where "int k \<le> wc_retryAttempts c - (attempt + 1)" "ww_waits s' = ww_waits ?s2 @ backoff c k ?delay" by blast
        then have "int (Suc k) \<le> wc_retryAttempts c - attempt" "ww_waits s' = ww_waits s @ backoff c (Suc k) delay" by simp_all
        moreover have "left_over c env message i s x s'"
          using ih by (intro left_over_later [of s ?s2]) (simp_all add: run)
        ultimately show ?thesis by blast
      qed
    qed
  qed
qed

lemma process_left_over:
  assumes "processUntilAcknowledged unmarshal c env message s = (x, s')" "1 \<le> wc_retryAttempts c"
  shows "(\<exists>i. left_over c env message i s x s'
      \<and> (\<forall>e. decodeResolvedEvent unmarshal message = Inr e \<longrightarrow> i = en_EventID e)
      \<and> (\<forall>err. decodeResolvedEvent unmarshal message = Inl err \<longrightarrow> dead_lettered c env message s x s' \<and> ww_db s' = ww_db s))
    \<and> (\<exists>k. int k < wc_retryAttempts c \<and> ww_waits s' = ww_waits s @ backoff c k (wc_retryInitial c))"
proof (cases "decodeResolvedEvent unmarshal message")
  case (Inl err)
  then have a: "deadLetterAndAcknowledge c env message err s = (x, s')"
    using assms(1) by (simp add: processUntilAcknowledged_def)
  show ?thesis
    using deadLetter_dead [OF a] Inl assms(2) by (auto simp: left_over_def intro!: exI [of _ "0 :: nat"])
next
  case (Inr e)
  then have a: "settleAttempts c env message (en_EventID e) 1 (wc_retryInitial c) s = (x, s')"
    using assms(1) by (simp add: processUntilAcknowledged_def)
  from settleAttempts_left_over [OF a assms(2)]
  obtain k where "left_over c env message (en_EventID e) s x s'" "int k \<le> wc_retryAttempts c - 1"
    "ww_waits s' = ww_waits s @ backoff c k (wc_retryInitial c)" by blast
  then show ?thesis using Inr by auto
qed

lemma workerInit_attempts: "1 \<le> wc_retryAttempts (workerInit c)" by (simp add: workerInit_def)

text \<open>
  C28: every message is disposed of. However often the database fails, a worker whose stream
  works and whose context is not cancelled returns from a message, has acknowledged it exactly
  once, and has either completed the settlement of its event or published one dead letter that
  carries the message; a message that is not a valid event goes to the dead letters and touches
  no table.
\<close>

theorem worker_disposes:
  assumes "processUntilAcknowledged unmarshal (workerInit c) env message s = (x, s')"
    "\<not> we_publishFails env" "\<not> we_ackFails env" "\<forall>n. \<not> we_cancelled env n"
  shows "x = Inr () \<and> ww_acks s' = Suc (ww_acks s)
    \<and> (case decodeResolvedEvent unmarshal message of
         Inl _ \<Rightarrow> ww_db s' = ww_db s \<and> ww_dead s' \<noteq> ww_dead s
       | Inr e \<Rightarrow> ww_dead s' \<noteq> ww_dead s \<or>
           (db_ok (ww_db s) \<longrightarrow> (\<forall>m. event_market (ww_db s') (trimSpace (en_EventID e)) m \<longrightarrow> isSettled (ww_db s') m)))
    \<and> (ww_dead s' = ww_dead s \<or> (\<exists>v. ww_dead s' = ww_dead s @ [(wc_deadLetterTopic (workerInit c), v)]
          \<and> base64Decode stdAlphabet True (dl_PayloadBase64 v) = Some message))"
proof -
  note p = process_left_over [OF assms(1) workerInit_attempts]
  obtain i where i: "left_over (workerInit c) env message i s x s'"
    "\<forall>e. decodeResolvedEvent unmarshal message = Inr e \<longrightarrow> i = en_EventID e"
    "\<forall>err. decodeResolvedEvent unmarshal message = Inl err \<longrightarrow> dead_lettered (workerInit c) env message s x s' \<and> ww_db s' = ww_db s"
    using p by blast
  have ack: "x = Inr () \<and> ww_acks s' = Suc (ww_acks s)"
    using i(1) assms(2-4) by (auto simp: left_over_def settled_and_acked_def dead_lettered_def given_up_def acked_def)
  have b64: "base64Decode stdAlphabet True (dl_PayloadBase64 (NewDeadLetter t message r f)) = Some message" for t r f
    using base64_padded_roundtrip [OF good_alphabets(1)] by (simp add: NewDeadLetter_def)
  have dead: "\<exists>v. ww_dead s' = ww_dead s @ [(wc_deadLetterTopic (workerInit c), v)]
      \<and> base64Decode stdAlphabet True (dl_PayloadBase64 v) = Some message"
    if "dead_lettered (workerInit c) env message s x s'"
    using that assms(2) b64 by (auto simp: dead_lettered_def)
  have fin: "\<forall>m. event_market (ww_db s') (trimSpace i) m \<longrightarrow> isSettled (ww_db s') m"
    if "settled_and_acked env i s x s'" "db_ok (ww_db s)"
    using that settlement_run_ok settle_event_done unfolding settled_and_acked_def by blast
  from i(1) assms(4) consider "settled_and_acked env i s x s'" | "dead_lettered (workerInit c) env message s x s'"
    by (auto simp: left_over_def given_up_def)
  then show ?thesis
  proof cases
    case 1
    show ?thesis
    proof (cases "decodeResolvedEvent unmarshal message")
      case (Inl err)
      then show ?thesis using i(3) ack dead by fastforce
    next
      case (Inr e)
      then show ?thesis using 1 i(2) ack fin by (auto simp: settled_and_acked_def)
    qed
  next
    case 2
    then show ?thesis using i(3) ack dead [OF 2] by (auto split: sum.split)
  qed
qed

text \<open>
  C29: nothing is acknowledged unhandled. Whatever fails, a message whose acknowledgement count
  rises has either a completed settlement or a published dead letter, and a call that reports an
  error has acknowledged nothing, so that the stream delivers the message again.
\<close>

theorem worker_never_drops:
  assumes "processUntilAcknowledged unmarshal (workerInit c) env message s = (x, s')" "db_ok (ww_db s)"
  shows "(x \<noteq> Inr () \<longrightarrow> ww_acks s' = ww_acks s)
    \<and> (ww_acks s' \<noteq> ww_acks s \<longrightarrow>
        (\<exists>e. decodeResolvedEvent unmarshal message = Inr e
          \<and> (\<forall>m. event_market (ww_db s') (trimSpace (en_EventID e)) m \<longrightarrow> isSettled (ww_db s') m))
        \<or> (\<exists>reason. ww_dead s' = ww_dead s @ [(wc_deadLetterTopic (workerInit c),
              NewDeadLetter (wc_topic (workerInit c)) message reason (we_failedAt env))]))
    \<and> db_ok (ww_db s')"
proof -
  obtain i where i: "left_over (workerInit c) env message i s x s'"
    "\<forall>e. decodeResolvedEvent unmarshal message = Inr e \<longrightarrow> i = en_EventID e"
    "\<forall>err. decodeResolvedEvent unmarshal message = Inl err \<longrightarrow> dead_lettered (workerInit c) env message s x s' \<and> ww_db s' = ww_db s"
    using process_left_over [OF assms(1) workerInit_attempts] by blast
  have ack: "acked env s x s' \<Longrightarrow> x \<noteq> Inr () \<longrightarrow> ww_acks s' = ww_acks s" by (auto simp: acked_def split: if_splits)
  have dead: ?thesis if d: "dead_lettered (workerInit c) env message s x s'"
  proof -
    have "db_ok (ww_db s')" using d settlement_run_ok assms(2) unfolding dead_lettered_def by blast
    then show ?thesis using d ack unfolding dead_lettered_def by (auto split: if_splits)
  qed
  show ?thesis
  proof (cases "decodeResolvedEvent unmarshal message")
    case (Inl err)
    then show ?thesis using i(3) dead by blast
  next
    case (Inr e)
    from i(1) consider "settled_and_acked env i s x s'" | "dead_lettered (workerInit c) env message s x s'"
      | "given_up env s x s'" by (auto simp: left_over_def)
    then show ?thesis
    proof cases
      case 1
      then obtain n d where n: "settlement_run (ww_db s) d"
        "settleEvent (we_fault env n) i (we_now env n) d = (Inr (), ww_db s')" "acked env s x s'"
        by (auto simp: settled_and_acked_def)
      have d: "db_ok d" using settlement_run_ok n(1) assms(2) by blast
      have "settlement_run (ww_db s) (ww_db s')"
        using settlement_run.step [OF n(1), of "we_fault env n" i "we_now env n"] n(2) by simp
      then have "db_ok (ww_db s')" using settlement_run_ok assms(2) by blast
      then show ?thesis using settle_event_done [OF d n(2)] Inr i(2) ack [OF n(3)] by blast
    next
      case 3
      then show ?thesis using settlement_run_ok assms(2) by (auto simp: given_up_def)
    qed (rule dead)
  qed
qed

lemma backoff_max: "\<forall>w \<in> set (drop 1 (backoff c k d)). w \<le> wc_retryMaxDelay c"
proof -
  have all: "d \<le> wc_retryMaxDelay c \<Longrightarrow> \<forall>w \<in> set (backoff c k d). w \<le> wc_retryMaxDelay c" for k d
    by (induction c k d rule: backoff.induct) auto
  show ?thesis
  proof (cases k)
    case (Suc n)
    have "min (i64 (d * 2)) (wc_retryMaxDelay c) \<le> wc_retryMaxDelay c" by simp
    from all [OF this, of n] show ?thesis using Suc by simp
  qed simp
qed

lemma length_backoff [simp]: "length (backoff c k d) = k"
  by (induction c k d rule: backoff.induct) auto

lemma backoff_default:
  assumes "k < 5"
  shows "backoff newService k second = take k [second, 2 * second, 4 * second, 8 * second]"
    "sum_list (take k [second, 2 * second, 4 * second, 8 * second]) \<le> 15 * second"
proof -
  have "\<forall>k \<in> set [0..<5]. backoff newService k second = take k [second, 2 * second, 4 * second, 8 * second]
      \<and> sum_list (take k [second, 2 * second, 4 * second, 8 * second]) \<le> 15 * second"
    by code_simp
  then show "backoff newService k second = take k [second, 2 * second, 4 * second, 8 * second]"
    "sum_list (take k [second, 2 * second, 4 * second, 8 * second]) \<le> 15 * second"
    using assms by auto
qed

lemma workerInit_newService: "workerInit newService = newService" by code_simp

text \<open>
  C30: retries are few and their waits bounded. A message is tried at most five times by the
  service's own settings, waiting 1, 2, 4 and 8 seconds, fifteen in all; with other settings every
  wait after the first is at most the configured maximum and there is one wait fewer than
  attempts.
\<close>

theorem worker_backoff:
  assumes "processUntilAcknowledged unmarshal (workerInit c) env message s = (x, s')"
  shows "\<exists>waits. ww_waits s' = ww_waits s @ waits \<and> int (length waits) < wc_retryAttempts (workerInit c)
    \<and> (\<forall>w \<in> set (drop 1 waits). w \<le> wc_retryMaxDelay (workerInit c))
    \<and> (c = newService \<longrightarrow> (\<exists>k < 5. waits = take k [second, 2 * second, 4 * second, 8 * second]) \<and> sum_list waits \<le> 15 * second)"
proof -
  obtain k where k: "int k < wc_retryAttempts (workerInit c)"
    "ww_waits s' = ww_waits s @ backoff (workerInit c) k (wc_retryInitial (workerInit c))"
    using process_left_over [OF assms workerInit_attempts] by blast
  let ?w = "backoff (workerInit c) k (wc_retryInitial (workerInit c))"
  have "(\<exists>k < 5. ?w = take k [second, 2 * second, 4 * second, 8 * second]) \<and> sum_list ?w \<le> 15 * second" if c: "c = newService"
  proof -
    have n: "k < 5" using k(1) c by (simp add: workerInit_newService) (simp add: newService_def)
    have "?w = take k [second, 2 * second, 4 * second, 8 * second]"
      using backoff_default(1) [OF n] c by (simp add: workerInit_newService) (simp add: newService_def)
    moreover have "sum_list (take k [second, 2 * second, 4 * second, 8 * second]) \<le> 15 * second"
      by (rule backoff_default(2) [OF n])
    ultimately show ?thesis using n by auto
  qed
  then show ?thesis using k backoff_max [of "workerInit c" k] by (intro exI [of _ ?w]) simp
qed

section \<open>Demonstration\<close>

definition demo_outbox_db :: db where
  "demo_outbox_db = demo_settle_db\<lparr>db_outbox := [
     \<lparr>ob_id = ''b'', ob_event_id = demo_settle_event, ob_event_type = EventResolvedType, ob_topic = EventResolvedTopic,
       ob_payload = ''second'', ob_created_at = 7, ob_published_at = None\<rparr>,
     \<lparr>ob_id = ''a'', ob_event_id = ''e0'', ob_event_type = EventResolvedType, ob_topic = EventResolvedTopic,
       ob_payload = ''first'', ob_created_at = 3, ob_published_at = None\<rparr>]\<rparr>"

theorem outbox_drains_witness:
  "dispatches (\<lambda>_. 9000) 1 (demo_outbox_db, [])
    = (fst (dispatches (\<lambda>_. 9000) 1 (demo_outbox_db, [])), [(EventResolvedTopic, ''first''), (EventResolvedTopic, ''second'')])
   \<and> pending (fst (dispatches (\<lambda>_. 9000) 1 (demo_outbox_db, []))) = []"
proof -
  let ?s = "dispatches (\<lambda>_. 9000) 1 (demo_outbox_db, [])"
  have "outbox_ok demo_outbox_db" by code_simp
  from outbox_drains [OF this, of "\<lambda>_. 9000" 1 "[]" "fst ?s" "snd ?s"]
  have "pending (fst ?s) = drop 20 (pending demo_outbox_db) \<and> snd ?s = map sent_row (take 20 (pending demo_outbox_db))" by simp
  moreover have "drop 20 (pending demo_outbox_db) = []"
    "map sent_row (take 20 (pending demo_outbox_db)) = [(EventResolvedTopic, ''first''), (EventResolvedTopic, ''second'')]"
    by code_simp+
  ultimately show ?thesis by (simp add: prod_eq_iff)
qed

theorem outbox_at_least_once_witness:
  "set (snd (snd (workerDispatch no_faults (\<lambda>i. i = ''b'') (\<lambda>_. False) (\<lambda>_. 9000) demo_outbox_db [])))
    \<subseteq> {(EventResolvedTopic, ''first''), (EventResolvedTopic, ''second'')}"
proof -
  let ?s = "snd (workerDispatch no_faults (\<lambda>i. i = ''b'') (\<lambda>_. False) (\<lambda>_. 9000) demo_outbox_db [])"
  have "outbox_run (demo_outbox_db, []) ?s" by (intro outbox_run.dispatch outbox_run.start)
  then have run: "outbox_run (demo_outbox_db, []) (fst ?s, snd ?s)" by simp
  have "outbox_ok demo_outbox_db" "\<forall>r \<in> set (db_outbox demo_outbox_db). ob_published_at r = None" by code_simp+
  from outbox_at_least_once [OF run this] have "set (snd ?s) \<subseteq> sent_row ` set (db_outbox (fst ?s))" by blast
  moreover have "sent_row ` set (db_outbox (fst ?s)) \<subseteq> {(EventResolvedTopic, ''first''), (EventResolvedTopic, ''second'')}"
    by code_simp
  ultimately show ?thesis by blast
qed

text \<open>A stream that works, a database that fails in the first two attempts.\<close>

definition demo_unmarshal :: "string \<Rightarrow> envelope option" where
  "demo_unmarshal m = (if m = ''first'' then Some (NewEventResolved demo_settle_event ''Yes'' 5) else None)"

definition demo_env :: workerEnv where
  "demo_env = \<lparr>we_fault = (\<lambda>n stmt key. n < 3), we_now = (\<lambda>_. 8000), we_cancelled = (\<lambda>_. False),
     we_publishFails = False, we_ackFails = False, we_failedAt = 8000\<rparr>"

definition demo_worker :: workerState where
  "demo_worker = \<lparr>ww_db = demo_settle_db, ww_dead = [], ww_acks = 0, ww_waits = []\<rparr>"

definition demo_processed :: "string \<Rightarrow> unit res \<times> workerState" where
  "demo_processed message = processUntilAcknowledged demo_unmarshal (workerInit newService) demo_env message demo_worker"

lemma demo_processed_pair:
  "processUntilAcknowledged demo_unmarshal (workerInit newService) demo_env m demo_worker
    = (fst (demo_processed m), snd (demo_processed m))"
  by (simp add: demo_processed_def)

theorem worker_disposes_witness:
  "fst (demo_processed ''junk'') = Inr () \<and> ww_acks (snd (demo_processed ''junk'')) = 1"
  using worker_disposes [OF demo_processed_pair, of "''junk''"]
  by (simp add: demo_env_def demo_worker_def)

theorem worker_never_drops_witness: "isSettled (ww_db (snd (demo_processed ''first''))) ''m1''"
proof -
  have ok: "db_ok (ww_db demo_worker)" by code_simp
  have e: "ww_acks (snd (demo_processed ''first'')) \<noteq> ww_acks demo_worker" "ww_dead (snd (demo_processed ''first'')) = []"
    "ww_dead demo_worker = []"
    "event_market (ww_db (snd (demo_processed ''first''))) (trimSpace demo_settle_event) ''m1''"
    "decodeResolvedEvent demo_unmarshal ''first'' = Inr (NewEventResolved demo_settle_event ''Yes'' 5)"
    by code_simp+
  have "en_EventID (NewEventResolved demo_settle_event ''Yes'' 5) = demo_settle_event" by (simp add: NewEventResolved_def)
  moreover obtain e where "decodeResolvedEvent demo_unmarshal ''first'' = Inr e"
    "\<forall>m. event_market (ww_db (snd (demo_processed ''first''))) (trimSpace (en_EventID e)) m
      \<longrightarrow> isSettled (ww_db (snd (demo_processed ''first''))) m"
    using worker_never_drops [OF demo_processed_pair ok, of "''first''"] e(1-3) by auto
  ultimately show ?thesis using e(4,5) by simp
qed

theorem worker_backoff_witness: "sum_list (ww_waits (snd (demo_processed ''first''))) \<le> 15 * second"
  using worker_backoff [OF demo_processed_pair, of "''first''"] by (auto simp: demo_worker_def)

end
