(* ===== verification/Pipeline.thy ===== *)
theory Pipeline
  imports EventPostgres WorkerProps
begin

text \<open>
  From a resolution to its settlement: the event repository writes the outbox message in the
  transaction that resolves the event, the dispatcher publishes it, and the worker reads the
  event and its outcome back from it.
\<close>

section \<open>Witnesses for the event repository\<close>

definition demo_event_row :: event where
  "demo_event_row = (hd (db_events demo_settle_db))\<lparr>e_Status := ''closed'', e_Outcome := None, e_EndTime := 5000,
     e_ResolutionTime := 6000, e_CreatedAt := 1000, e_UpdatedAt := 2000\<rparr>"

definition demo_events_db :: db where
  "demo_events_db = demo_settle_db\<lparr>db_events := [demo_event_row]\<rparr>"


section \<open>Resolved events have a message\<close>

definition resolution_message :: "(envelope \<Rightarrow> string) \<Rightarrow> event \<Rightarrow> outboxRow \<Rightarrow> bool" where
  "resolution_message marshal e r \<longleftrightarrow> ob_event_id r = e_ID e \<and> ob_event_type r = EventResolvedType
     \<and> ob_topic r = EventResolvedTopic
     \<and> (\<exists>outcome t. e_Outcome e = Some outcome \<and> outcome \<noteq> [] \<and> t \<noteq> zero_time \<and> plain_time t \<and> uuidText (e_ID e)
         \<and> ob_payload r = marshal (NewEventResolved (e_ID e) outcome t))"

definition announced :: "(envelope \<Rightarrow> string) \<Rightarrow> db \<Rightarrow> bool" where
  "announced marshal d \<longleftrightarrow> events_ok d \<and> outbox_ok d
     \<and> (\<forall>e \<in> set (db_events d). e_Status e = ''resolved'' \<longrightarrow> (\<exists>r \<in> set (db_outbox d). resolution_message marshal e r))
     \<and> (\<forall>r \<in> set (db_outbox d). ob_event_type r = EventResolvedType \<longrightarrow>
          (\<exists>e \<in> set (db_events d). e_ID e = ob_event_id r \<and> e_Status e = ''resolved''))"

text \<open>
  Runs of the repository's operations with any failures, of dispatches, and of other work on the
  tables, among it settlements, that touches neither events nor outbox. The arguments are those
  the event service passes: new and updated events are not resolved, a resolution has an outcome
  and a time.
\<close>

inductive pipeline_run :: "(envelope \<Rightarrow> string) \<Rightarrow> db \<times> stream \<Rightarrow> bool" for marshal where
  start: "events_ok d \<Longrightarrow> \<forall>e \<in> set (db_events d). e_Status e \<noteq> ''resolved'' \<Longrightarrow> db_outbox d = [] \<Longrightarrow> pipeline_run marshal (d, [])"
| create: "pipeline_run marshal (d, sent) \<Longrightarrow> plain_type v \<Longrightarrow> e_Status v \<noteq> ''resolved''
    \<Longrightarrow> pipeline_run marshal (snd (eventPgCreate fault v d), sent)"
| upsert: "pipeline_run marshal (d, sent) \<Longrightarrow> plain_type v \<Longrightarrow> e_Status v \<noteq> ''resolved''
    \<Longrightarrow> pipeline_run marshal (snd (eventPgUpsertSource fault v d), sent)"
| status: "pipeline_run marshal (d, sent) \<Longrightarrow> eventCanTransition old new
    \<Longrightarrow> pipeline_run marshal (snd (eventPgUpdateStatus fault i old new d), sent)"
| resolve: "pipeline_run marshal (d, sent) \<Longrightarrow> i \<noteq> [] \<Longrightarrow> outcome \<noteq> [] \<Longrightarrow> now \<noteq> zero_time
    \<Longrightarrow> pipeline_run marshal (snd (eventPgResolve marshal fault i ''closed'' outcome src now d), sent)"
| dispatch: "pipeline_run marshal (d, sent) \<Longrightarrow> pipeline_run marshal (snd (workerDispatch fault refuse busy now' d sent))"
| other: "pipeline_run marshal (d, sent) \<Longrightarrow> db_events d' = db_events d \<Longrightarrow> db_outbox d' = db_outbox d
    \<Longrightarrow> pipeline_run marshal (d', sent)"

definition pipeline_ok :: "(envelope \<Rightarrow> string) \<Rightarrow> db \<times> stream \<Rightarrow> bool" where
  "pipeline_ok marshal s \<longleftrightarrow> announced marshal (fst s) \<and> published_sent s"

lemma announced_update:
  assumes "announced marshal d" "events_ok (d\<lparr>db_events := es\<rparr>)"
    "\<And>e. e \<in> set es \<Longrightarrow> e_Status e = ''resolved'' \<Longrightarrow>
      \<exists>o'. o' \<in> set (db_events d) \<and> e_Status o' = ''resolved'' \<and> e_ID o' = e_ID e \<and> e_Outcome o' = e_Outcome e"
    "\<And>o'. o' \<in> set (db_events d) \<Longrightarrow> e_Status o' = ''resolved'' \<Longrightarrow>
      \<exists>e. e \<in> set es \<and> e_Status e = ''resolved'' \<and> e_ID e = e_ID o'"
  shows "announced marshal (d\<lparr>db_events := es\<rparr>)"
proof -
  have "\<exists>r \<in> set (db_outbox d). resolution_message marshal e r" if e: "e \<in> set es" "e_Status e = ''resolved''" for e
  proof -
    obtain o' where o': "o' \<in> set (db_events d)" "e_Status o' = ''resolved''" "e_ID o' = e_ID e" "e_Outcome o' = e_Outcome e"
      using assms(3) [OF e] by blast
    then obtain r where "r \<in> set (db_outbox d)" "resolution_message marshal o' r"
      using assms(1) by (auto simp: announced_def)
    then show ?thesis using o' by (auto simp: resolution_message_def)
  qed
  moreover have "\<exists>e \<in> set es. e_ID e = ob_event_id r \<and> e_Status e = ''resolved''"
    if r: "r \<in> set (db_outbox d)" "ob_event_type r = EventResolvedType" for r
  proof -
    obtain o' where "o' \<in> set (db_events d)" "e_ID o' = ob_event_id r" "e_Status o' = ''resolved''"
      using assms(1) r by (auto simp: announced_def)
    then show ?thesis using assms(4) by metis
  qed
  ultimately show ?thesis using assms(1,2) by (auto simp: announced_def outbox_ok_def)
qed

lemma announced_append:
  assumes "announced marshal d" "events_ok (d\<lparr>db_events := db_events d @ [v]\<rparr>)" "e_Status v \<noteq> ''resolved''"
  shows "announced marshal (d\<lparr>db_events := db_events d @ [v]\<rparr>)"
  by (rule announced_update [OF assms(1,2)]) (use assms(3) in auto)

lemma announced_create:
  assumes "announced marshal d" "plain_type v" "e_Status v \<noteq> ''resolved''"
  shows "announced marshal (snd (eventPgCreate fault v d))"
proof (cases "fault ''insert event'' (e_ID v) \<or> list_ex (\<lambda>e. e_ID e = e_ID v \<or> sameSource e v) (db_events d)")
  case True
  then show ?thesis using assms(1) by (auto simp: eventPgCreate_def)
next
  case False
  have "events_ok (d\<lparr>db_events := db_events d @ [stampEvent v]\<rparr>)"
    using False assms by (intro store_append(2)) (auto simp: announced_def find_None_iff list_ex_iff)
  then show ?thesis using False announced_append [OF assms(1), of "stampEvent v"] assms(1,3)
    by (simp add: eventPgCreate_def)
qed

lemma announced_rows:
  assumes "announced marshal d"
    "\<And>e. e_ID (f e) = e_ID e \<and> e_SourceType (f e) = e_SourceType e \<and> e_SourceID (f e) = e_SourceID e"
    "\<And>e. e \<in> set (db_events d) \<Longrightarrow> p e \<Longrightarrow> e_Outcome (f e) = e_Outcome e
      \<and> (e_Status (f e) = ''resolved'' \<longleftrightarrow> e_Status e = ''resolved'')"
  shows "announced marshal (d\<lparr>db_events := updateWhere p f (db_events d)\<rparr>)"
proof (rule announced_update [OF assms(1)])
  show "events_ok (d\<lparr>db_events := updateWhere p f (db_events d)\<rparr>)"
    using assms(1) by (intro events_ok_update(1) assms(2)) (simp add: announced_def)
next
  fix e assume e: "e \<in> set (updateWhere p f (db_events d))" "e_Status e = ''resolved''"
  then obtain u where "u \<in> set (db_events d)" "e = (if p u then f u else u)" by (auto simp: updateWhere_def)
  then show "\<exists>o'. o' \<in> set (db_events d) \<and> e_Status o' = ''resolved'' \<and> e_ID o' = e_ID e \<and> e_Outcome o' = e_Outcome e"
    using e(2) assms(2) [of u] assms(3) [of u] by (intro exI [of _ u]) (auto split: if_splits)
next
  fix u assume u: "u \<in> set (db_events d)" "e_Status u = ''resolved''"
  then show "\<exists>e. e \<in> set (updateWhere p f (db_events d)) \<and> e_Status e = ''resolved'' \<and> e_ID e = e_ID u"
    using assms(2) [of u] assms(3) [of u] by (intro exI [of _ "if p u then f u else u"]) (auto simp: updateWhere_def)
qed

lemma announced_upsert:
  assumes "announced marshal d" "plain_type v" "e_Status v \<noteq> ''resolved''"
  shows "announced marshal (snd (eventPgUpsertSource fault v d))"
proof (cases "fault ''upsert event'' (e_ID v)")
  case True
  then show ?thesis using assms(1) by (simp add: eventPgUpsertSource_def)
next
  case no: False
  show ?thesis
  proof (cases "find (\<lambda>e. sameSource e v) (db_events d)")
    case None
    show ?thesis
    proof (cases "list_ex (\<lambda>e. e_ID e = e_ID v) (db_events d)")
      case True
      then show ?thesis using assms(1) no None by (simp add: eventPgUpsertSource_def)
    next
      case False
      have "events_ok (d\<lparr>db_events := db_events d @ [stampEvent v]\<rparr>)"
        using False None assms by (intro store_append(2)) (auto simp: announced_def find_None_iff list_ex_iff)
      then show ?thesis using False None no announced_append [OF assms(1), of "stampEvent v"] assms(1,3)
        by (simp add: eventPgUpsertSource_def)
    qed
  next
    case (Some w)
    have "announced marshal (d\<lparr>db_events := updateWhere (\<lambda>e. sameSource e v)
            (\<lambda>e. e\<lparr>e_Title := e_Title v, e_Description := e_Description v, e_Category := e_Category v,
                 e_EndTime := stamp (e_EndTime v), e_ResolutionTime := stamp (e_ResolutionTime v),
                 e_Status := (if e_Status e = ''closed'' \<or> e_Status e = ''resolved'' then e_Status e else e_Status v),
                 e_UpdatedAt := db_now d\<rparr>) (db_events d)\<rparr>)"
      by (rule announced_rows [OF assms(1)]) (use assms(3) in auto)
    then show ?thesis using no Some assms(1) by (simp add: eventPgUpsertSource_def)
  qed
qed

lemma announced_status:
  assumes "announced marshal d" "eventCanTransition old new"
  shows "announced marshal (snd (eventPgUpdateStatus fault i old new d))"
proof -
  have "old \<noteq> ''resolved''" "new \<noteq> ''resolved''" using assms(2) by (auto simp: eventCanTransition_def split: if_splits)
  then have "announced marshal (d\<lparr>db_events := updateWhere (\<lambda>e. e_ID e = i \<and> e_Status e = old)
      (\<lambda>e. e\<lparr>e_Status := new, e_UpdatedAt := db_now d\<rparr>) (db_events d)\<rparr>)"
    by (intro announced_rows [OF assms(1)]) auto
  then show ?thesis using assms(1) by (simp add: eventPgUpdateStatus_def Let_def)
qed

lemma resolve_cases:
  assumes "eventPgResolve marshal fault i expected outcome src now d = (x, d')"
  obtains (failed) err where "x = Inl err" "d' = d"
  | (resolved) r where "x = Inr ()" "uuidText i" "plain_time now"
      "rowsAffected (\<lambda>e. e_ID e = i \<and> e_Status e = expected) (db_events d) \<noteq> 0"
      "db_events d' = updateWhere (\<lambda>e. e_ID e = i \<and> e_Status e = expected)
        (\<lambda>e. e\<lparr>e_Status := ''resolved'', e_Outcome := Some outcome, e_UpdatedAt := db_now d\<rparr>) (db_events d)"
      "db_outbox d' = db_outbox d \<and> r \<in> set (db_outbox d) \<and> ob_event_id r = i \<and> ob_event_type r = EventResolvedType
       \<or> db_outbox d' = db_outbox d @ [r] \<and> ob_id r \<notin> ob_id ` set (db_outbox d) \<and> ob_event_id r = i
         \<and> ob_event_type r = EventResolvedType \<and> ob_topic r = EventResolvedTopic \<and> ob_published_at r = None
         \<and> ob_payload r = marshal (NewEventResolved i outcome now)"
proof -
  let ?p = "\<lambda>e. e_ID e = i \<and> e_Status e = expected"
  let ?f = "\<lambda>e. e\<lparr>e_Status := ''resolved'', e_Outcome := Some outcome, e_UpdatedAt := db_now d\<rparr>"
  let ?d2 = "d\<lparr>db_events := updateWhere ?p ?f (db_events d), db_audits := db_audits d @ [\<lparr>ar_event_id = i, ar_outcome = outcome,
                       ar_resolution_source = src, ar_resolved_at = stamp now\<rparr>]\<rparr>"
  show ?thesis
  proof (cases x)
    case (Inl err)
    then show ?thesis using failed inTx_Inl [of fault i "''begin event resolution''" "''commit event resolution''"
      "resolveTx marshal fault i expected outcome src now" d err] assms
      by (simp add: eventPgResolve_def)
  next
    case (Inr u)
    then have tx: "resolveTx marshal fault i expected outcome src now d = (Inr (), d')"
      using assms by (simp add: eventPgResolve_def inTx_Inr)
    then have n: "uuidText i" "plain_time now" "rowsAffected ?p (db_events d) \<noteq> 0"
      and ins: "insertOutbox fault i (marshal (NewEventResolved i outcome now)) now ?d2 = (Inr (), d')"
      by (auto simp: resolveTx_def Let_def requireUpdatedRow_def split: if_splits)
    show ?thesis
    proof (cases "list_ex (\<lambda>r. ob_event_id r = i \<and> ob_event_type r = EventResolvedType) (db_outbox d)")
      case True
      then obtain r where "r \<in> set (db_outbox d)" "ob_event_id r = i" "ob_event_type r = EventResolvedType"
        by (auto simp: list_ex_iff)
      moreover have "d' = ?d2" using ins True by (auto simp: insertOutbox_def freshUUID_def split: if_splits)
      ultimately show ?thesis using resolved [OF _ n, of r] Inr by simp
    next
      case False
      let ?r = "\<lparr>ob_id = db_uuids d (db_uuid_next d), ob_event_id = i, ob_event_type = EventResolvedType,
        ob_topic = EventResolvedTopic, ob_payload = marshal (NewEventResolved i outcome now),
        ob_created_at = stamp now, ob_published_at = None\<rparr>"
      have "db_outbox d' = db_outbox d @ [?r]" "db_events d' = updateWhere ?p ?f (db_events d)"
        "ob_id ?r \<notin> ob_id ` set (db_outbox d)"
        using ins False by (auto simp: insertOutbox_def freshUUID_def list_ex_iff image_iff split: if_splits)
      then show ?thesis using resolved [OF _ n, of ?r] Inr by simp
    qed
  qed
qed

lemma announced_resolve:
  assumes "announced marshal d" "i \<noteq> []" "outcome \<noteq> []" "now \<noteq> zero_time"
    "eventPgResolve marshal fault i ''closed'' outcome src now d = (x, d')"
  shows "announced marshal d'"
    "set (db_outbox d) \<subseteq> set (db_outbox d')" "\<forall>r \<in> set (db_outbox d') - set (db_outbox d). ob_published_at r = None"
proof -
  have "announced marshal d' \<and> set (db_outbox d) \<subseteq> set (db_outbox d')
      \<and> (\<forall>r \<in> set (db_outbox d') - set (db_outbox d). ob_published_at r = None)"
    using assms(5)
  proof (cases rule: resolve_cases)
    case failed
    then show ?thesis using assms(1) by simp
  next
    case (resolved r)
    let ?p = "\<lambda>e. e_ID e = i \<and> e_Status e = ''closed''"
    let ?f = "\<lambda>e. e\<lparr>e_Status := ''resolved'', e_Outcome := Some outcome, e_UpdatedAt := db_now d\<rparr>"
    have ok: "events_ok d" using assms(1) by (simp add: announced_def)
    obtain v where v: "v \<in> set (db_events d)" "?p v"
      using resolved(4) by (auto simp: rowsAffected_def filter_empty_conv)
    have only: "e = v" if "e \<in> set (db_events d)" "e_ID e = i" for e
      using ok v that by (auto simp: events_ok_def distinct_map dest: inj_onD)
    have none: "ob_event_type q \<noteq> EventResolvedType" if q: "q \<in> set (db_outbox d)" "ob_event_id q = i" for q
    proof
      assume "ob_event_type q = EventResolvedType"
      then obtain e where "e \<in> set (db_events d)" "e_ID e = i" "e_Status e = ''resolved''"
        using assms(1) q by (auto simp: announced_def)
      then show False using only v by auto
    qed
    have out: "db_outbox d' = db_outbox d @ [r]" "ob_id r \<notin> ob_id ` set (db_outbox d)" "ob_event_id r = i"
      "ob_event_type r = EventResolvedType" "ob_topic r = EventResolvedTopic" "ob_published_at r = None"
      "ob_payload r = marshal (NewEventResolved i outcome now)"
      using resolved(6) none by auto
    have ev: "set (db_events d') = insert (?f v) (set (db_events d) - {v})"
    proof -
      have "?p e \<longleftrightarrow> e = v" if "e \<in> set (db_events d)" for e using only that v by blast
      then have "set (db_events d') = (\<lambda>e. if e = v then ?f v else e) ` set (db_events d)"
        unfolding resolved(5) updateWhere_def set_map by (intro image_cong) auto
      then show ?thesis using v(1) by auto
    qed
    have "events_ok (d\<lparr>db_events := updateWhere ?p ?f (db_events d)\<rparr>)"
      by (rule events_ok_update(1) [OF ok]) simp
    then have "events_ok d'" using eventStore_events [of d' "d\<lparr>db_events := updateWhere ?p ?f (db_events d)\<rparr>"] resolved(5) by simp
    moreover have "outbox_ok d'" using assms(1) out(1,2) by (auto simp: announced_def outbox_ok_def)
    moreover have "\<exists>q \<in> set (db_outbox d'). resolution_message marshal e q"
      if e: "e \<in> set (db_events d')" "e_Status e = ''resolved''" for e
    proof (cases "e = ?f v")
      case True
      have "resolution_message marshal e r"
        using out True v assms(2-4) resolved(2,3) by (auto simp: resolution_message_def)
      then show ?thesis using out(1) by auto
    next
      case False
      then have "e \<in> set (db_events d)" using e(1) ev by auto
      then show ?thesis using e(2) assms(1) out(1) by (auto simp: announced_def)
    qed
    moreover have "\<exists>e \<in> set (db_events d'). e_ID e = ob_event_id q \<and> e_Status e = ''resolved''"
      if q: "q \<in> set (db_outbox d')" "ob_event_type q = EventResolvedType" for q
    proof (cases "q = r")
      case True
      then show ?thesis using ev v(2) out(3) by auto
    next
      case False
      then have "q \<in> set (db_outbox d)" using q(1) out(1) by auto
      then obtain e where "e \<in> set (db_events d)" "e_ID e = ob_event_id q" "e_Status e = ''resolved''"
        using assms(1) q(2) by (auto simp: announced_def)
      moreover from this v(2) have "e \<noteq> v" by auto
      ultimately show ?thesis using ev by auto
    qed
    ultimately show ?thesis using out(1,6) by (auto simp: announced_def)
  qed
  then show "announced marshal d'" "set (db_outbox d) \<subseteq> set (db_outbox d')"
    "\<forall>r \<in> set (db_outbox d') - set (db_outbox d). ob_published_at r = None" by blast+
qed

lemma pipeline_inv: "pipeline_run marshal s \<Longrightarrow> pipeline_ok marshal s"
proof (induction rule: pipeline_run.induct)
  case (start d)
  then show ?case by (simp add: pipeline_ok_def announced_def published_sent_def outbox_ok_def)
next
  case (create d sent v fault)
  have "db_outbox (snd (eventPgCreate fault v d)) = db_outbox d" by (simp add: eventPgCreate_def)
  then show ?case using create announced_create by (simp add: pipeline_ok_def published_sent_def)
next
  case (upsert d sent v fault)
  have "db_outbox (snd (eventPgUpsertSource fault v d)) = db_outbox d"
    by (simp add: eventPgUpsertSource_def split: option.split)
  then show ?case using upsert announced_upsert by (simp add: pipeline_ok_def published_sent_def)
next
  case (status d sent old new fault i)
  have "db_outbox (snd (eventPgUpdateStatus fault i old new d)) = db_outbox d"
    by (simp add: eventPgUpdateStatus_def Let_def)
  then show ?case using status announced_status by (simp add: pipeline_ok_def published_sent_def)
next
  case (resolve d sent i outcome now fault src)
  obtain x d' where x: "eventPgResolve marshal fault i ''closed'' outcome src now d = (x, d')" by force
  have "announced marshal d" using resolve.IH by (simp add: pipeline_ok_def)
  note a = announced_resolve [OF this resolve.hyps(2-4) x]
  show ?case using a resolve.IH x unfolding pipeline_ok_def published_sent_def by force
next
  case (dispatch d sent fault refuse busy now')
  obtain x d' sent' where x: "workerDispatch fault refuse busy now' d sent = (x, d', sent')" by (metis prod_cases3)
  have a: "announced marshal d" "published_sent (d, sent)" using dispatch.IH by (simp_all add: pipeline_ok_def)
  have "published_sent (d', sent') \<and> outbox_ok d' \<and> map message_key (db_outbox d') = map message_key (db_outbox d)"
    using published_sent_dispatch [OF a(2) _ _ x, of "set sent"] a(1) by (auto simp: announced_def)
  moreover have "db_events d' = db_events d \<and> (\<exists>ids. db_outbox d' = map (marked ids now') (db_outbox d))"
  proof -
    obtain y where "outboxDispatch fault refuse busy now' 20 d sent = (y, d', sent')"
      using x by (auto simp: workerDispatch_def outboxBatchSize_def split: prod.splits sum.splits)
    then show ?thesis
    proof (cases rule: outboxDispatch_cases)
      case (failed err k)
      then show ?thesis by (intro conjI exI [of _ "[]"]) simp_all
    qed auto
  qed
  then obtain ids where ids: "db_events d' = db_events d" "db_outbox d' = map (marked ids now') (db_outbox d)" by blast
  have m: "resolution_message marshal e (marked ids now' r) = resolution_message marshal e r"
    "ob_event_type (marked ids now' r) = ob_event_type r" "ob_event_id (marked ids now' r) = ob_event_id r" for e r
    by (simp_all add: marked_def resolution_message_def)
  ultimately have "announced marshal d'" using a(1) m by (auto simp: announced_def events_ok_def ids)
  then show ?case using x \<open>published_sent (d', sent') \<and> _\<close> by (simp add: pipeline_ok_def)
next
  case (other d sent d')
  then show ?case
    by (simp add: pipeline_ok_def announced_def published_sent_def outbox_ok_def events_ok_def)
qed

text \<open>
  What delivery relies on of \<^verbatim>\<open>encoding/json\<close> and of a \<^verbatim>\<open>JSONB\<close> column: an envelope with valid text and
  a time of a four-digit year reads back from the text the server prints for it.
\<close>

definition envelope_codec :: "(envelope \<Rightarrow> string) \<Rightarrow> (string \<Rightarrow> envelope option) \<Rightarrow> bool" where
  "envelope_codec marshal unmarshal \<longleftrightarrow> (\<forall>v. json_text (en_Type v) \<and> json_text (en_EventID v) \<and> json_text (en_Outcome v)
     \<and> plain_time (en_Timestamp v) \<longrightarrow> unmarshal (marshal v) = Some v)"

lemma json_text_uuid: "uuidText s \<Longrightarrow> json_text s"
  using printable_uuid by (intro json_text_printable) blast

lemma json_text_type: "json_text EventResolvedType"
  by code_simp

text \<open>
  C36: a resolution reaches the worker. In every run, whatever statements, publications and
  commits failed, each resolved event has its message in the outbox, and once the dispatcher has
  run often enough without failures the stream carries a message that the worker decodes to the
  event's identifier and outcome, where the outcome is valid text and JSON keeps such envelopes.
\<close>

theorem resolution_delivered:
  assumes "pipeline_run marshal (d, sent)" "e \<in> set (db_events d)" "e_Status e = ''resolved''"
    "envelope_codec marshal unmarshal" "\<forall>x. e_Outcome e = Some x \<longrightarrow> json_text x" "length (db_outbox d) \<le> 20 * n"
  shows "\<exists>payload v. (EventResolvedTopic, payload) \<in> set (snd (dispatches now n (d, sent)))
    \<and> decodeResolvedEvent unmarshal payload = Inr v \<and> en_EventID v = e_ID e \<and> e_Outcome e = Some (en_Outcome v)"
proof -
  have ok: "announced marshal d" "published_sent (d, sent)"
    using pipeline_inv [OF assms(1)] by (simp_all add: pipeline_ok_def)
  then obtain r where r: "r \<in> set (db_outbox d)" "resolution_message marshal e r"
    using assms(2,3) by (auto simp: announced_def)
  obtain outcome t where p: "e_Outcome e = Some outcome" "outcome \<noteq> []" "t \<noteq> zero_time" "plain_time t" "uuidText (e_ID e)"
    "ob_payload r = marshal (NewEventResolved (e_ID e) outcome t)" "ob_topic r = EventResolvedTopic"
    using r(2) by (auto simp: resolution_message_def)
  obtain d' sent' where s: "dispatches now n (d, sent) = (d', sent')" by force
  have drain: "sent' = sent @ map sent_row (take (20 * n) (pending d))"
    using dispatches_drain [OF _ s] ok(1) by (simp add: announced_def)
  have "length (pending d) \<le> 20 * n"
    unfolding pending_def length_sort_by by (rule order_trans [OF length_filter_le assms(6)])
  then have all: "sent' = sent @ map sent_row (pending d)" using drain by simp
  have "sent_row r \<in> set sent'"
  proof (cases "ob_published_at r")
    case None
    then have "r \<in> set (pending d)" using r(1) by (simp add: pending_def)
    then show ?thesis by (simp add: all)
  next
    case (Some x)
    then show ?thesis using ok(2) r(1) by (auto simp: published_sent_def all)
  qed
  then have "(EventResolvedTopic, marshal (NewEventResolved (e_ID e) outcome t)) \<in> set sent'"
    using p(6,7) by (simp add: sent_row_def)
  moreover have "e_ID e \<noteq> []" using p(5) by (auto simp: uuidText_def)
  then have "decodeResolvedEvent unmarshal (marshal (NewEventResolved (e_ID e) outcome t))
      = Inr (NewEventResolved (e_ID e) outcome t)"
    using assms(4,5) p(1-5) json_text_uuid [OF p(5)] json_text_type
    by (simp add: decodeResolvedEvent_def NewEventResolved_def envelope_codec_def)
  ultimately show ?thesis using p(1) s
    by (intro exI [of _ "marshal (NewEventResolved (e_ID e) outcome t)"] exI [of _ "NewEventResolved (e_ID e) outcome t"])
      (simp add: NewEventResolved_def)
qed

text \<open>A concrete codec, in the place of JSON: each character marked, each field closed.\<close>

fun encStr :: "string \<Rightarrow> string" where
  "encStr [] = ''e''"
| "encStr (c # s) = CHR ''x'' # c # encStr s"

fun decStr :: "string \<Rightarrow> (string \<times> string) option" where
  "decStr [] = None"
| "decStr [m] = (if m = CHR ''e'' then Some ([], []) else None)"
| "decStr (m # c # r) = (if m = CHR ''e'' then Some ([], c # r)
     else map_option (\<lambda>(s, r'). (c # s, r')) (decStr r))"

lemma decStr_encStr [simp]: "decStr (encStr s @ r) = Some (s, r)"
proof (induction s)
  case Nil
  then show ?case by (cases r) simp_all
qed simp

definition demo_marshal :: "envelope \<Rightarrow> string" where
  "demo_marshal v = encStr (en_Type v) @ encStr (en_EventID v) @ encStr (en_Outcome v)
     @ encStr (if en_Timestamp v < 0 then ''-'' else []) @ encStr (dec_of \<bar>en_Timestamp v\<bar>)"

definition demo_parse :: "string \<Rightarrow> envelope option" where
  "demo_parse s0 = Option.bind (decStr s0) (\<lambda>(ty, s1). Option.bind (decStr s1) (\<lambda>(i, s2).
     Option.bind (decStr s2) (\<lambda>(outcome, s3). Option.bind (decStr s3) (\<lambda>(sign, s4).
     map_option (\<lambda>(t, _). \<lparr>en_Type = ty, en_Timestamp = (if sign = [] then digits_val t else - digits_val t),
       en_EventID = i, en_Outcome = outcome\<rparr>) (decStr s4)))))"

lemma demo_codec: "demo_parse (demo_marshal v) = Some v"
proof -
  have "decStr (encStr s) = Some (s, [])" for s using decStr_encStr [of s "[]"] by simp
  then show ?thesis by (cases v) (simp add: demo_parse_def demo_marshal_def)
qed

definition demo_resolved_db :: db where
  "demo_resolved_db = snd (eventPgResolve demo_marshal all_fine demo_settle_event ''closed'' ''Yes'' ''manual'' 7000 demo_events_db)"

theorem resolution_delivered_witness:
  "\<exists>payload v. (EventResolvedTopic, payload) \<in> set (snd (dispatches (\<lambda>_. 8000) 1 (demo_resolved_db, [])))
    \<and> decodeResolvedEvent demo_parse payload = Inr v \<and> en_EventID v = demo_settle_event \<and> en_Outcome v = ''Yes''"
proof -
  have "events_ok demo_events_db" "\<forall>e \<in> set (db_events demo_events_db). e_Status e \<noteq> ''resolved''" "db_outbox demo_events_db = []"
    by code_simp+
  then have "pipeline_run demo_marshal (demo_events_db, [])" by (rule pipeline_run.start)
  then have run: "pipeline_run demo_marshal (demo_resolved_db, [])"
    unfolding demo_resolved_db_def
    by (rule pipeline_run.resolve) (simp_all add: demo_settle_event_def zero_time_def)
  have e: "hd (db_events demo_resolved_db) \<in> set (db_events demo_resolved_db)"
    "e_Status (hd (db_events demo_resolved_db)) = ''resolved''" "length (db_outbox demo_resolved_db) \<le> 20 * 1"
    "e_ID (hd (db_events demo_resolved_db)) = demo_settle_event" "e_Outcome (hd (db_events demo_resolved_db)) = Some ''Yes''"
    by code_simp+
  have c: "envelope_codec demo_marshal demo_parse" using demo_codec by (simp add: envelope_codec_def)
  have "json_text ''Yes''" by code_simp
  then have "\<forall>x. e_Outcome (hd (db_events demo_resolved_db)) = Some x \<longrightarrow> json_text x" using e(5) by simp
  from resolution_delivered [OF run e(1,2) c this e(3), of "\<lambda>_. 8000"] e(4,5) show ?thesis
    by (simp add: eq_commute [of "''Yes''"])
qed

end
