(* ===== verification/OrderPostgres.thy ===== *)
theory OrderPostgres
  imports OrderService SettlementInv
begin

text \<open>
  \<^verbatim>\<open>internal/order/postgres_repository.go\<close>: the order repository over the tables \<^verbatim>\<open>orders\<close>,
  \<^verbatim>\<open>trades\<close>, \<^verbatim>\<open>markets\<close> and \<^verbatim>\<open>wallets\<close>. A placement locks the collateral, inserts the order,
  matches it against the book and releases what is left over in one transaction; a
  cancellation does the same with its unlock. The advisory lock of the book and the row
  locks make transactions run one after another, which is how they are modelled. A panic
  unwinds through the deferred roll-back.
\<close>

section \<open>Rows and structs\<close>

definition castUnits :: "string \<Rightarrow> string \<Rightarrow> int res" where
  "castUnits message text = (case castNumeric 6 text of
      None \<Rightarrow> Inl (Wrapped message dbError) | Some u \<Rightarrow> Inr u)"

definition nullableIdempotencyKey :: "string \<Rightarrow> string option" where
  "nullableIdempotencyKey key = (if key = [] then None else Some key)"

definition scanOrderRow :: "orderRow \<Rightarrow> order res" where
  "scanOrderRow r =
     bind_res (storedShareUnits (numericFloat 6 (or_amount r))) (\<lambda>amount.
     bind_res (storedShareUnits (numericFloat 6 (or_filled_amount r))) (\<lambda>filled.
     bind_res (storedPriceUnits (numericFloat 6 (or_price r))) (\<lambda>p.
       Inr \<lparr>o_ID = or_id r, o_MerchantID = or_merchant_id r, o_UserID = or_user_id r,
         o_MarketID = or_market_id r, o_Type = or_type r, o_Option = or_option r,
         o_Amount = SharesToFloat amount, o_FilledAmount = SharesToFloat filled,
         o_Currency = or_currency r, o_Price = PriceToFloat p, o_TimeInForce = or_time_in_force r,
         o_Status = or_status r,
         o_IdempotencyKey = (case or_idempotency_key r of None \<Rightarrow> [] | Some k \<Rightarrow> k),
         o_CreatedAt = or_created_at r, o_FilledAt = or_filled_at r\<rparr>)))"

definition scanOrder :: "orderRow option \<Rightarrow> order res" where
  "scanOrder row = (case row of None \<Rightarrow> Inl (Sentinel OrderErrNotFound) | Some r \<Rightarrow> scanOrderRow r)"

section \<open>Statements of a placement\<close>

definition orderTaken :: "order \<Rightarrow> orderRow \<Rightarrow> bool" where
  "orderTaken v r \<longleftrightarrow> or_id r = o_ID v \<or> (or_merchant_id r = o_MerchantID v
     \<and> or_idempotency_key r \<noteq> None \<and> or_idempotency_key r = nullableIdempotencyKey (o_IdempotencyKey v))"

definition insertOrder :: "faults \<Rightarrow> order \<Rightarrow> db \<Rightarrow> unit res \<times> db" where
  "insertOrder fault v d =
     (case bind_res (storedShareUnits (o_Amount v)) (\<lambda>amount.
           bind_res (storedShareUnits (o_FilledAmount v)) (\<lambda>filled.
           bind_res (storedPriceUnits (o_Price v)) (\<lambda>p.
           if fault ''insert order'' (o_ID v) then Inl (Wrapped ''insert order'' dbError)
           else
             bind_res (castUnits ''insert order'' (FormatShares amount)) (\<lambda>a.
             bind_res (castUnits ''insert order'' (FormatShares filled)) (\<lambda>f.
             bind_res (castUnits ''insert order'' (FormatPrice p)) (\<lambda>q.
             if list_ex (orderTaken v) (db_orders d) then Inl (Sentinel OrderErrAlreadyExists)
             else Inr \<lparr>or_id = o_ID v, or_merchant_id = o_MerchantID v, or_user_id = o_UserID v,
               or_market_id = o_MarketID v, or_type = o_Type v, or_option = o_Option v, or_amount = a,
               or_filled_amount = f, or_currency = o_Currency v, or_price = q,
               or_time_in_force = o_TimeInForce v, or_status = o_Status v,
               or_idempotency_key = nullableIdempotencyKey (o_IdempotencyKey v),
               or_created_at = stamp (o_CreatedAt v),
               or_filled_at = map_option stamp (o_FilledAt v)\<rparr>)))))) of
        Inl err \<Rightarrow> (Inl err, d)
      | Inr row \<Rightarrow> (Inr (), d\<lparr>db_orders := db_orders d @ [row]\<rparr>))"

definition insertTrade ::
  "faults \<Rightarrow> string \<Rightarrow> string \<Rightarrow> string \<Rightarrow> int \<Rightarrow> int \<Rightarrow> time \<Rightarrow> db \<Rightarrow> unit res \<times> db" where
  "insertTrade fault marketID makerOrderID takerOrderID n0 matchedPrice createdAt d =
     (case freshUUID d of (i, d1) \<Rightarrow>
        (case bind_res (castUnits ''insert matched trade'' (FormatShares n0)) (\<lambda>n.
              bind_res (castUnits ''insert matched trade'' (FormatPrice matchedPrice)) (\<lambda>p.
              if fault ''insert trade'' makerOrderID \<or> \<not> 0 < n \<or> \<not> (0 < p \<and> p < PriceScale)
                 \<or> makerOrderID = takerOrderID \<or> list_ex (\<lambda>t. tr_id t = i) (db_trades d)
              then Inl (Wrapped ''insert matched trade'' dbError) else Inr (n, p))) of
          Inl err \<Rightarrow> (Inl err, d)
        | Inr (n, p) \<Rightarrow> (Inr (), d1\<lparr>db_trades := db_trades d1 @ [\<lparr>tr_id = i, tr_market_id = marketID,
            tr_maker_order_id = makerOrderID, tr_taker_order_id = takerOrderID, tr_shares = n,
            tr_matched_price = p, tr_created_at = stamp createdAt\<rparr>]\<rparr>)))"

definition matchesRow :: "order \<Rightarrow> int \<Rightarrow> orderRow \<Rightarrow> bool" where
  "matchesRow incoming limit r \<longleftrightarrow>
     or_merchant_id r = o_MerchantID incoming \<and> or_market_id r = o_MarketID incoming
     \<and> or_option r = o_Option incoming \<and> or_currency r = o_Currency incoming
     \<and> or_user_id r \<noteq> o_UserID incoming \<and> or_type r \<noteq> o_Type incoming
     \<and> (or_status r = ''pending'' \<or> or_status r = ''partial'')
     \<and> (if o_Type incoming = ''sell'' then limit \<le> or_price r else or_price r \<le> limit)"

definition matchedBefore :: "string \<Rightarrow> orderRow \<Rightarrow> orderRow \<Rightarrow> bool" where
  "matchedBefore side a b =
     (if or_price a = or_price b
      then (if or_created_at a = or_created_at b then or_id a < or_id b else or_created_at a < or_created_at b)
      else if side = ''sell'' then or_price b < or_price a
      else or_price a < or_price b)"

definition queryMatchingOrders :: "faults \<Rightarrow> order \<Rightarrow> db \<Rightarrow> order list res" where
  "queryMatchingOrders fault incoming d =
     bind_res (storedPriceUnits (o_Price incoming)) (\<lambda>p.
     if fault ''query matching'' (o_ID incoming) then Inl (Wrapped ''query matching orders'' dbError)
     else bind_res (castUnits ''query matching orders'' (FormatPrice p)) (\<lambda>limit.
     bind_res (scanAll scanOrderRow (sort_by (matchedBefore (o_Type incoming))
       (filter (matchesRow incoming limit) (db_orders d)))) (\<lambda>values.
     if fault ''iterate matching'' (o_ID incoming) then Inl (Wrapped ''iterate matching orders'' dbError)
     else Inr values)))"

definition updateStoredOrder :: "faults \<Rightarrow> order \<Rightarrow> db \<Rightarrow> unit res \<times> db" where
  "updateStoredOrder fault v d =
     (case bind_res (storedShareUnits (o_FilledAmount v)) (\<lambda>filled.
           if fault ''update order'' (o_ID v) then Inl (Wrapped ''update matched order'' dbError)
           else castUnits ''update matched order'' (FormatShares filled)) of
        Inl err \<Rightarrow> (Inl err, d)
      | Inr f \<Rightarrow> (Inr (), d\<lparr>db_orders := updateWhere (\<lambda>r. or_id r = o_ID v)
          (\<lambda>r. r\<lparr>or_filled_amount := f, or_status := o_Status v, or_filled_at := map_option stamp (o_FilledAt v)\<rparr>)
          (db_orders d)\<rparr>))"

section \<open>The wallet of an order\<close>

definition ownWallet :: "order \<Rightarrow> walletRow \<Rightarrow> bool" where
  "ownWallet v w \<longleftrightarrow> wl_merchant_id w = o_MerchantID v \<and> wl_user_id w = o_UserID v
     \<and> wl_currency w = o_Currency v"

definition requireOrderWalletUpdate :: "faults \<Rightarrow> nat \<Rightarrow> order \<Rightarrow> bool \<Rightarrow> db \<Rightarrow> unit res" where
  "requireOrderWalletUpdate fault affected v locked d =
     (if affected > 0 then Inr ()
      else if fault ''classify wallet'' (o_ID v) then Inl (Wrapped ''classify order wallet update'' dbError)
      else case find (ownWallet v) (db_wallets d) of
          None \<Rightarrow> Inl (Sentinel WalletErrNotFound)
        | Some w \<Rightarrow> Inl (Sentinel (if locked then WalletErrInsufficientLocked else WalletErrInsufficientBalance)))"

definition lockOrderWallet :: "faults \<Rightarrow> order \<Rightarrow> int \<Rightarrow> db \<Rightarrow> unit res \<times> db" where
  "lockOrderWallet fault v collateral d =
     (case (if fault ''lock wallet'' (o_ID v) then Inl (Wrapped ''lock order wallet'' dbError)
            else castCents ''lock order wallet'' (FormatCents collateral)) of
        Inl err \<Rightarrow> (Inl err, d)
      | Inr c \<Rightarrow>
          let p = (\<lambda>w. ownWallet v w \<and> c \<le> wl_balance w);
              d' = d\<lparr>db_wallets := updateWhere p (\<lambda>w. w\<lparr>wl_balance := wl_balance w - c,
                wl_locked_balance := wl_locked_balance w + c, wl_updated_at := db_now d\<rparr>) (db_wallets d)\<rparr>
          in (requireOrderWalletUpdate fault (rowsAffected p (db_wallets d)) v False d', d'))"

definition unlockOrderWallet :: "faults \<Rightarrow> order \<Rightarrow> int \<Rightarrow> db \<Rightarrow> unit res \<times> db" where
  "unlockOrderWallet fault v collateral d =
     (case (if fault ''unlock wallet'' (o_ID v) then Inl (Wrapped ''unlock order wallet'' dbError)
            else castCents ''unlock order wallet'' (FormatCents collateral)) of
        Inl err \<Rightarrow> (Inl err, d)
      | Inr c \<Rightarrow>
          let p = (\<lambda>w. ownWallet v w \<and> c \<le> wl_locked_balance w);
              d' = d\<lparr>db_wallets := updateWhere p (\<lambda>w. w\<lparr>wl_balance := wl_balance w + c,
                wl_locked_balance := wl_locked_balance w - c, wl_updated_at := db_now d\<rparr>) (db_wallets d)\<rparr>
          in (requireOrderWalletUpdate fault (rowsAffected p (db_wallets d)) v True d', d'))"

section \<open>Placing an order\<close>

text \<open>One candidate of the match: the refund of the fill and the taker as it is left.\<close>

definition placeFill :: "faults \<Rightarrow> int \<Rightarrow> order \<Rightarrow> order \<Rightarrow> db \<Rightarrow> (int \<times> order) res \<times> db" where
  "placeFill fault incomingRemaining incoming maker d =
     (case bind_res (remainingUnits (o_Amount maker) (o_FilledAmount maker)) (\<lambda>makerRemaining.
           bind_res (storedPriceUnits (o_Price maker)) (\<lambda>matchedPrice.
             Inr (min incomingRemaining makerRemaining, matchedPrice))) of
        Inl err \<Rightarrow> (Inl err, d)
      | Inr (fillAmount, matchedPrice) \<Rightarrow>
          andThen (insertTrade fault (o_MarketID incoming) (o_ID maker) (o_ID incoming) fillAmount
              matchedPrice (o_CreatedAt incoming) d) (\<lambda>_ d1.
            case bind_res (priceImprovementRefundCents (o_Type incoming) (SharesToFloat fillAmount)
                   (o_Price incoming) (o_Price maker)) (\<lambda>refund.
                 bind_res (storedShareUnits (o_FilledAmount maker)) (\<lambda>mf.
                 bind_res (storedShareUnits (o_FilledAmount incoming)) (\<lambda>f.
                   Inr (refund, maker\<lparr>o_FilledAmount := SharesToFloat (i64 (mf + fillAmount))\<rparr>,
                     incoming\<lparr>o_FilledAmount := SharesToFloat (i64 (f + fillAmount))\<rparr>)))) of
              Inl err \<Rightarrow> (Inl err, d1)
            | Inr (refund, maker1, incoming1) \<Rightarrow>
                (case updateOrderFillStatus (o_CreatedAt incoming1) maker1 of
                  (Inl err, _) \<Rightarrow> (Inl err, d1)
                | (Inr _, maker2) \<Rightarrow>
                    andThen (updateStoredOrder fault maker2 d1) (\<lambda>_ d2. (Inr (refund, incoming1), d2)))))"

fun placeMakers :: "faults \<Rightarrow> order list \<Rightarrow> order \<Rightarrow> int \<Rightarrow> db \<Rightarrow> (int \<times> order) res \<times> db" where
  "placeMakers fault [] incoming priceImprovement d = (Inr (priceImprovement, incoming), d)"
| "placeMakers fault (maker # makers) incoming priceImprovement d =
     (case remainingUnits (o_Amount incoming) (o_FilledAmount incoming) of
        Inl err \<Rightarrow> (Inl err, d)
      | Inr incomingRemaining \<Rightarrow>
          if incomingRemaining = 0 then (Inr (priceImprovement, incoming), d)
          else andThen (placeFill fault incomingRemaining incoming maker d) (\<lambda>(refund, incoming1) d1.
            placeMakers fault makers incoming1 (i64 (priceImprovement + refund)) d1))"

definition lockOrderMarket :: "faults \<Rightarrow> order \<Rightarrow> db \<Rightarrow> unit res" where
  "lockOrderMarket fault incoming d =
     (if fault ''lock book'' (o_ID incoming) then Inl (Wrapped ''lock order book'' dbError)
      else if fault ''lock market'' (o_ID incoming) then Inl (Wrapped ''lock order market'' dbError)
      else case find (\<lambda>m. mr_id m = o_MarketID incoming) (db_markets d) of
          None \<Rightarrow> Inl (Sentinel OrderErrInvalidMarket)
        | Some m \<Rightarrow> if mr_status m = ''active'' \<and> mr_merchant_id m = o_MerchantID incoming then Inr ()
            else Inl (Sentinel OrderErrInvalidMarket))"

definition addMatchedVolume :: "faults \<Rightarrow> order \<Rightarrow> db \<Rightarrow> unit res \<times> db" where
  "addMatchedVolume fault v d =
     (case storedShareUnits (o_FilledAmount v) of
        Inl err \<Rightarrow> (Inl err, d)
      | Inr filled \<Rightarrow>
          if filled > 0 then
            (case (if fault ''update volume'' (o_ID v) then Inl (Wrapped ''update matched market volume'' dbError)
                   else castUnits ''update matched market volume'' (FormatShares filled)) of
              Inl err \<Rightarrow> (Inl err, d)
            | Inr n \<Rightarrow> (Inr (), d\<lparr>db_markets := updateWhere (\<lambda>m. mr_id m = o_MarketID v)
                (\<lambda>m. m\<lparr>mr_total_volume := mr_total_volume m + n\<rparr>) (db_markets d)\<rparr>))
          else (Inr (), d))"

definition releaseUnused :: "faults \<Rightarrow> order \<Rightarrow> int \<Rightarrow> db \<Rightarrow> unit res \<times> db" where
  "releaseUnused fault v priceImprovement d =
     (case (if o_Status v = ''cancelled'' then
              bind_res (remainingShares (o_Amount v) (o_FilledAmount v)) (\<lambda>remaining.
              bind_res (requiredCollateralCents (o_Type v) remaining (o_Price v)) (\<lambda>c.
                Inr (i64 (priceImprovement + c))))
            else Inr priceImprovement) of
        Inl err \<Rightarrow> (Inl err, d)
      | Inr refundCents \<Rightarrow> if refundCents > 0 then unlockOrderWallet fault v refundCents d else (Inr (), d))"

definition placeTx :: "faults \<Rightarrow> order \<Rightarrow> int \<Rightarrow> bool \<Rightarrow> db \<Rightarrow> (float64 \<times> order) res \<times> db" where
  "placeTx fault incoming collateral lockCollateral d =
     andThen (lockOrderMarket fault incoming d, d) (\<lambda>_ d0.
     andThen (if lockCollateral then lockOrderWallet fault incoming collateral d0 else (Inr (), d0)) (\<lambda>_ d1.
     andThen (insertOrder fault incoming d1) (\<lambda>_ d2.
     andThen (queryMatchingOrders fault incoming d2, d2) (\<lambda>candidates d3.
     andThen (placeMakers fault candidates incoming 0 d3) (\<lambda>(priceImprovement, incoming1) d4.
     andThen (case settleTaker incoming1 of (r, v) \<Rightarrow> (map_sum id (\<lambda>_. v) r, d4)) (\<lambda>incoming2 d5.
     andThen (updateStoredOrder fault incoming2 d5) (\<lambda>_ d6.
     andThen (addMatchedVolume fault incoming2 d6) (\<lambda>_ d7.
     andThen (if lockCollateral then releaseUnused fault incoming2 priceImprovement d7 else (Inr (), d7)) (\<lambda>_ d8.
       (Inr (CentsToFloat priceImprovement, incoming2), d8))))))))))"

definition orderPgPlaceCollateral ::
  "faults \<Rightarrow> order \<Rightarrow> int \<Rightarrow> bool \<Rightarrow> db \<Rightarrow> (float64 \<times> order) res \<times> db" where
  "orderPgPlaceCollateral fault incoming collateral lockCollateral =
     inTx fault (o_ID incoming) ''begin order placement'' ''commit order placement''
       (placeTx fault incoming collateral lockCollateral)"

definition orderPgPlace :: "faults \<Rightarrow> order \<Rightarrow> db \<Rightarrow> (float64 \<times> order) res \<times> db" where
  "orderPgPlace fault incoming = orderPgPlaceCollateral fault incoming 0 False"

definition placeWithLockedCollateral :: "faults \<Rightarrow> order \<Rightarrow> int \<Rightarrow> db \<Rightarrow> order res \<times> db" where
  "placeWithLockedCollateral fault incoming collateral d =
     map_prod (map_sum id snd) id (orderPgPlaceCollateral fault incoming collateral True d)"

section \<open>Cancelling\<close>

definition cancelTx :: "faults \<Rightarrow> string \<Rightarrow> bool \<Rightarrow> db \<Rightarrow> (order \<times> float64) res \<times> db" where
  "cancelTx fault orderID unlockCollateral d =
     andThen (if fault ''lock order'' orderID then Inl (Wrapped ''scan order'' dbError)
              else bind_res (scanOrder (find (\<lambda>r. or_id r = orderID) (db_orders d))) (\<lambda>v.
                if o_Status v \<noteq> ''pending'' \<and> o_Status v \<noteq> ''partial''
                then Inl (Sentinel OrderErrNotCancellable)
                else bind_res (remainingShares (o_Amount v) (o_FilledAmount v)) (\<lambda>remaining.
                  Inr (v\<lparr>o_Status := ''cancelled''\<rparr>, remaining))), d) (\<lambda>(v, remaining) d0.
     andThen (updateStoredOrder fault v d0) (\<lambda>_ d1.
     andThen (if unlockCollateral
              then (case requiredCollateralCents (o_Type v) remaining (o_Price v) of
                  Inl err \<Rightarrow> (Inl err, d1)
                | Inr c \<Rightarrow> if c > 0 then unlockOrderWallet fault v c d1 else (Inr (), d1))
              else (Inr (), d1)) (\<lambda>_ d2.
       (Inr (v, remaining), d2))))"

definition orderPgCancelCollateral ::
  "faults \<Rightarrow> string \<Rightarrow> bool \<Rightarrow> db \<Rightarrow> (order \<times> float64) res \<times> db" where
  "orderPgCancelCollateral fault orderID unlockCollateral =
     inTx fault orderID ''begin order cancellation'' ''commit order cancellation''
       (cancelTx fault orderID unlockCollateral)"

definition orderPgCancel :: "faults \<Rightarrow> string \<Rightarrow> db \<Rightarrow> (order \<times> float64) res \<times> db" where
  "orderPgCancel fault orderID = orderPgCancelCollateral fault orderID False"

definition cancelWithUnlock :: "faults \<Rightarrow> string \<Rightarrow> db \<Rightarrow> unit res \<times> db" where
  "cancelWithUnlock fault orderID d =
     map_prod (map_sum id (\<lambda>_. ())) id (orderPgCancelCollateral fault orderID True d)"

section \<open>Reads\<close>

definition orderPgGet :: "faults \<Rightarrow> string \<Rightarrow> db \<Rightarrow> order res" where
  "orderPgGet fault orderID d =
     (if fault ''select order'' orderID then Inl (Wrapped ''scan order'' dbError)
      else scanOrder (find (\<lambda>r. or_id r = orderID) (db_orders d)))"

definition orderPgGetByIdempotency :: "faults \<Rightarrow> string \<Rightarrow> string \<Rightarrow> db \<Rightarrow> order res" where
  "orderPgGetByIdempotency fault merchantID key d =
     (if fault ''select idempotent order'' key then Inl (Wrapped ''scan order'' dbError)
      else scanOrder (find (\<lambda>r. or_merchant_id r = merchantID \<and> or_idempotency_key r = Some key) (db_orders d)))"

definition matchesFilterRow :: "listFilters \<Rightarrow> orderRow \<Rightarrow> bool" where
  "matchesFilterRow filters r \<longleftrightarrow>
     (lf_MerchantID filters = [] \<or> or_merchant_id r = lf_MerchantID filters)
     \<and> (lf_UserID filters = [] \<or> or_user_id r = lf_UserID filters)
     \<and> (lf_MarketID filters = [] \<or> or_market_id r = lf_MarketID filters)
     \<and> (lf_Status filters = [] \<or> or_status r = lf_Status filters)"

definition rowsNewestFirst :: "orderRow \<Rightarrow> orderRow \<Rightarrow> bool" where
  "rowsNewestFirst a b = (if or_created_at a = or_created_at b then or_id a < or_id b
     else or_created_at b < or_created_at a)"

definition rowsCursorFirst :: "orderRow \<Rightarrow> orderRow \<Rightarrow> bool" where
  "rowsCursorFirst a b = (if or_created_at a = or_created_at b then or_id b < or_id a
     else or_created_at b < or_created_at a)"

definition orderPgList :: "faults \<Rightarrow> listFilters \<Rightarrow> db \<Rightarrow> (order list \<times> int) res" where
  "orderPgList fault filters d =
     (if fault ''count orders'' [] then Inl (Wrapped ''count orders'' dbError)
      else let rows = filter (matchesFilterRow filters) (db_orders d);
               total = int (length rows);
               offset = (lf_Page filters - 1) * lf_Limit filters
        in if fault ''query orders'' [] then Inl (Wrapped ''query orders'' dbError)
           else bind_res (scanAll scanOrderRow
               (take (nat (lf_Limit filters)) (drop (nat offset) (sort_by rowsNewestFirst rows)))) (\<lambda>values.
             if fault ''iterate orders'' [] then Inl (Wrapped ''iterate orders'' dbError)
             else Inr (values, total)))"

definition rowAfterCursor :: "cursor option \<Rightarrow> orderRow \<Rightarrow> bool" where
  "rowAfterCursor c r = (case c of
      None \<Rightarrow> True
    | Some cur \<Rightarrow> or_created_at r < stamp (cu_CreatedAt cur)
        \<or> (or_created_at r = stamp (cu_CreatedAt cur) \<and> or_id r < cu_ID cur))"

definition orderPgListAfter :: "faults \<Rightarrow> listFilters \<Rightarrow> cursor option \<Rightarrow> db \<Rightarrow> order list res" where
  "orderPgListAfter fault filters c d =
     (if fault ''query orders by cursor'' [] then Inl (Wrapped ''query orders by cursor'' dbError)
      else bind_res (scanAll scanOrderRow (take (nat (lf_Limit filters + 1)) (sort_by rowsCursorFirst
          (filter (\<lambda>r. matchesFilterRow filters r \<and> rowAfterCursor c r) (db_orders d))))) (\<lambda>values.
        if fault ''iterate cursor orders'' [] then Inl (Wrapped ''iterate cursor orders'' dbError)
        else Inr values))"

text \<open>
  The levels of the book: one group for each side, option and price. The statement gives no
  order to the groups; the model takes them by their first row, and they are sorted after.
\<close>

definition levelKey :: "orderRow \<Rightarrow> string \<times> string \<times> int" where
  "levelKey r = (or_type r, or_option r, or_price r)"

definition scanLevel :: "orderRow list \<Rightarrow> string \<times> string \<times> int \<Rightarrow> (string \<times> orderBookEntry) res" where
  "scanLevel rows k = (case k of (side, opt, p) \<Rightarrow>
     let group = filter (\<lambda>r. levelKey r = k) rows in
     bind_res (storedShareUnits (numericFloat 6 (\<Sum>r \<leftarrow> group. or_amount r - or_filled_amount r))) (\<lambda>amount.
     bind_res (storedPriceUnits (numericFloat 6 p)) (\<lambda>q.
       Inr (side, \<lparr>be_Option = opt, be_Price = PriceToFloat q, be_Amount = SharesToFloat amount,
         be_Orders = int (length group)\<rparr>))))"

definition orderPgGetOrderBook :: "faults \<Rightarrow> string \<Rightarrow> db \<Rightarrow> orderBook res" where
  "orderPgGetOrderBook fault marketID d =
     (if fault ''query book'' marketID then Inl (Wrapped ''query order book levels'' dbError)
      else let rows = filter (\<lambda>r. or_market_id r = marketID
                 \<and> (or_status r = ''pending'' \<or> or_status r = ''partial'')) (db_orders d)
        in bind_res (scanAll (scanLevel rows) (remdups (map levelKey rows))) (\<lambda>entries.
          if fault ''iterate book'' marketID then Inl (Wrapped ''iterate order book levels'' dbError)
          else Inr \<lparr>ob_MarketID = marketID,
            ob_Bids = sort_by (levelBefore True) (map snd (filter (\<lambda>e. fst e = ''buy'') entries)),
            ob_Asks = sort_by (levelBefore False) (map snd (filter (\<lambda>e. fst e \<noteq> ''buy'') entries))\<rparr>))"

end
