(* ===== verification/OrderPgInv.thy ===== *)
theory OrderPgInv
  imports OrderPostgres OrderMoney
begin

text \<open>
  What the statements of \<open>OrderPostgres\<close> do to well-formed rows: a row as an order of the
  in-memory store, the effect of each statement that succeeds, and the placement as one
  update of the book, the trades and the wallet.
\<close>

section \<open>Text of units\<close>

lemma formatScaled_numericText:
  assumes "0 \<le> u" "0 < n" "s = 10 ^ n"
  shows "formatScaled u s n = numericText n u"
proof -
  have s: "0 < s" using assms(3) by simp
  then have "0 \<le> u div s" "0 \<le> u mod s" using assms(1) by (simp_all add: pos_imp_zdiv_nonneg_iff)
  then show ?thesis
    using assms s
    by (simp add: formatScaled_def numericText_def formatInt_small signed_divide_int_def signed_modulo_int_def
        sgn_if Let_def)
qed

lemma castNumeric_format [simp]:
  "0 \<le> u \<Longrightarrow> castUnits m (FormatShares u) = Inr u"
  "0 \<le> u \<Longrightarrow> castUnits m (FormatPrice u) = Inr u"
  "0 \<le> u \<Longrightarrow> castCents m (FormatCents u) = Inr u"
  by (simp_all add: castUnits_def castCents_def FormatShares_def FormatPrice_def FormatCents_def
      formatScaled_numericText castNumeric_numericText scale_defs)

lemma numericFloat_units:
  assumes "0 \<le> u" "u < 2 ^ 53"
  shows "numericFloat 6 u = SharesToFloat u" "numericFloat 6 u = PriceToFloat u"
  using assms by (simp_all add: numericFloat_def SharesToFloat_def PriceToFloat_def f_of_int_exact scale_defs)

section \<open>Rows as orders\<close>

definition remaining :: "orderRow \<Rightarrow> int" where
  "remaining r = or_amount r - or_filled_amount r"

definition row_status_ok :: "orderRow \<Rightarrow> bool" where
  "row_status_ok r \<longleftrightarrow> (or_status r = ''pending'' \<and> or_filled_amount r = 0)
     \<or> (or_status r = ''partial'' \<and> 0 < or_filled_amount r \<and> or_filled_amount r < or_amount r)
     \<or> (or_status r = ''filled'' \<and> or_filled_amount r = or_amount r)
     \<or> (or_status r = ''cancelled'' \<and> or_filled_amount r < or_amount r)"

definition row_ok :: "orderRow \<Rightarrow> bool" where
  "row_ok r \<longleftrightarrow> 0 < or_amount r \<and> or_amount r < shareCap \<and> 0 \<le> or_filled_amount r
     \<and> or_filled_amount r \<le> or_amount r \<and> 0 < or_price r \<and> or_price r < PriceScale
     \<and> (or_type r = ''buy'' \<or> or_type r = ''sell'') \<and> row_status_ok r
     \<and> map_option stamp (or_filled_at r) = or_filled_at r"

definition open_row :: "orderRow \<Rightarrow> bool" where
  "open_row r \<longleftrightarrow> or_status r = ''pending'' \<or> or_status r = ''partial''"

definition order_of_row :: "orderRow \<Rightarrow> order" where
  "order_of_row r =
     \<lparr>o_ID = or_id r, o_MerchantID = or_merchant_id r, o_UserID = or_user_id r,
      o_MarketID = or_market_id r, o_Type = or_type r, o_Option = or_option r,
      o_Amount = SharesToFloat (or_amount r), o_FilledAmount = SharesToFloat (or_filled_amount r),
      o_Currency = or_currency r, o_Price = PriceToFloat (or_price r), o_TimeInForce = or_time_in_force r,
      o_Status = or_status r,
      o_IdempotencyKey = (case or_idempotency_key r of None \<Rightarrow> [] | Some k \<Rightarrow> k),
      o_CreatedAt = or_created_at r, o_FilledAt = or_filled_at r\<rparr>"

lemma order_of_row_simps [simp]:
  "o_ID (order_of_row r) = or_id r" "o_MerchantID (order_of_row r) = or_merchant_id r"
  "o_UserID (order_of_row r) = or_user_id r" "o_MarketID (order_of_row r) = or_market_id r"
  "o_Type (order_of_row r) = or_type r" "o_Option (order_of_row r) = or_option r"
  "o_Currency (order_of_row r) = or_currency r" "o_Status (order_of_row r) = or_status r"
  "o_CreatedAt (order_of_row r) = or_created_at r" "o_FilledAt (order_of_row r) = or_filled_at r"
  "o_TimeInForce (order_of_row r) = or_time_in_force r"
  "is_open (order_of_row r) = open_row r"
  by (simp_all add: order_of_row_def is_open_def open_row_def)

lemma row_order_ok:
  assumes "row_ok r"
  shows "order_ok (order_of_row r)" "amt (order_of_row r) = or_amount r"
    "fil (order_of_row r) = or_filled_amount r" "prc (order_of_row r) = or_price r"
    "rem (order_of_row r) = remaining r"
proof -
  have s: "shares (o_Amount (order_of_row r)) (or_amount r)"
    "shares (o_FilledAmount (order_of_row r)) (or_filled_amount r)" "price (o_Price (order_of_row r)) (or_price r)"
    using assms by (simp_all add: order_of_row_def row_ok_def price_def)
  note e = exactI [OF s]
  show a: "amt (order_of_row r) = or_amount r" "fil (order_of_row r) = or_filled_amount r"
    "prc (order_of_row r) = or_price r"
    using e assms by (simp_all add: row_ok_def)
  show "rem (order_of_row r) = remaining r" using a by (simp add: rem_def remaining_def)
  show "order_ok (order_of_row r)"
    using e(1) assms a by (simp add: order_ok_def status_ok_def row_ok_def row_status_ok_def)
qed

lemma row_exact: "row_ok r \<Longrightarrow> exact (order_of_row r)"
  using row_order_ok(1) by (simp add: order_ok_def)

lemma scan_row_ok:
  assumes "row_ok r"
  shows "scanOrderRow r = Inr (order_of_row r)"
proof -
  have cap: "shareCap \<le> 2 ^ 53" "PriceScale \<le> 2 ^ 53" by (simp_all add: shareCap_def PriceScale_def)
  have n: "numericFloat 6 (or_amount r) = SharesToFloat (or_amount r)"
    "numericFloat 6 (or_filled_amount r) = SharesToFloat (or_filled_amount r)"
    "numericFloat 6 (or_price r) = PriceToFloat (or_price r)"
    using assms cap by (auto simp: row_ok_def intro!: numericFloat_units)
  have "storedShareUnits (SharesToFloat (or_amount r)) = Inr (or_amount r)"
    "storedShareUnits (SharesToFloat (or_filled_amount r)) = Inr (or_filled_amount r)"
    "storedPriceUnits (PriceToFloat (or_price r)) = Inr (or_price r)"
    using assms
    by (auto simp: row_ok_def price_def intro!: storedShareUnits_SharesToFloat price_stored)
  then show ?thesis by (simp add: scanOrderRow_def n order_of_row_def)
qed

lemma scanAll_rows: "\<forall>r \<in> set rs. row_ok r \<Longrightarrow> scanAll scanOrderRow rs = Inr (map order_of_row rs)"
  by (induction rs) (simp_all add: scan_row_ok)

text \<open>The book of the table, as the in-memory store has it.\<close>

definition book :: "db \<Rightarrow> orders" where
  "book d = map (\<lambda>r. (or_id r, order_of_row r)) (db_orders d)"

definition rows_ok :: "orderRow list \<Rightarrow> bool" where
  "rows_ok rows \<longleftrightarrow> distinct (map or_id rows) \<and> (\<forall>r \<in> set rows. row_ok r \<and> or_idempotency_key r \<noteq> Some [])"

lemma book_keys: "map fst (book d) = map or_id (db_orders d)"
  by (simp add: book_def o_def)

lemma map_snd_book: "map snd (book d) = map order_of_row (db_orders d)"
  by (simp add: book_def o_def)

lemma rows_okD: "rows_ok (db_orders d) \<Longrightarrow> r \<in> set (db_orders d) \<Longrightarrow> row_ok r"
  by (simp add: rows_ok_def)

lemma map_of_book:
  assumes "rows_ok (db_orders d)"
  shows "map_of (book d) k = map_option order_of_row (find (\<lambda>r. or_id r = k) (db_orders d))"
proof -
  have "map_of (map (\<lambda>r. (or_id r, order_of_row r)) rs) k = map_option order_of_row (find (\<lambda>r. or_id r = k) rs)" for rs
    by (induction rs) auto
  then show ?thesis by (simp add: book_def)
qed

lemma map_of_book_row: "rows_ok (db_orders d) \<Longrightarrow> r \<in> set (db_orders d) \<Longrightarrow> map_of (book d) (or_id r) = Some (order_of_row r)"
  by (rule map_of_is_SomeI) (simp_all add: book_keys rows_ok_def, force simp: book_def)

lemma map_of_bookD: "map_of (book d) k = Some w \<Longrightarrow> \<exists>r \<in> set (db_orders d). or_id r = k \<and> w = order_of_row r"
  by (auto simp: book_def dest!: map_of_SomeD)

lemma book_ok: "rows_ok (db_orders d) \<Longrightarrow> entries_ok (book d)"
proof -
  assume ok: "rows_ok (db_orders d)"
  have "o_ID w = k \<and> order_ok w" if m: "map_of (book d) k = Some w" for k w
    using map_of_bookD [OF m] row_order_ok(1) [OF rows_okD [OF ok]] by auto
  then show ?thesis using ok by (simp add: entries_ok_def distinct_keys_def book_keys rows_ok_def)
qed

section \<open>Statements that succeed\<close>

definition store_row :: "order \<Rightarrow> orderRow \<Rightarrow> orderRow" where
  "store_row v r = r\<lparr>or_filled_amount := fil v, or_status := o_Status v,
     or_filled_at := map_option stamp (o_FilledAt v)\<rparr>"

lemma updateStoredOrder_exact:
  assumes "exact v"
  shows "updateStoredOrder fault v d =
    (if fault ''update order'' (o_ID v) then (Inl (Wrapped ''update matched order'' dbError), d)
     else (Inr (), d\<lparr>db_orders := updateWhere (\<lambda>r. or_id r = o_ID v) (store_row v) (db_orders d)\<rparr>))"
proof -
  have "storedShareUnits (o_FilledAmount v) = Inr (fil v)" "0 \<le> fil v"
    using assms by (auto simp: exact_def shares_def intro: shares_stored)
  then show ?thesis by (simp add: updateStoredOrder_def store_row_def [abs_def])
qed

definition trade_view :: "tradeRow \<Rightarrow> string \<times> string \<times> string \<times> int \<times> int" where
  "trade_view t = (tr_market_id t, tr_maker_order_id t, tr_taker_order_id t, tr_shares t, tr_matched_price t)"

lemma insertTrade_Inr:
  assumes "insertTrade fault m i j n p t d = (Inr (), d')" "0 \<le> n" "0 \<le> p"
  shows "\<exists>r k. d' = d\<lparr>db_trades := db_trades d @ [r], db_uuid_next := k\<rparr> \<and> trade_view r = (m, i, j, n, p)"
    and "i \<noteq> j" "0 < n" "0 < p" "p < PriceScale"
proof -
  define r where "r = \<lparr>tr_id = db_uuids d (db_uuid_next d), tr_market_id = m, tr_maker_order_id = i,
    tr_taker_order_id = j, tr_shares = n, tr_matched_price = p, tr_created_at = stamp t\<rparr>"
  have d': "d' = d\<lparr>db_trades := db_trades d @ [r], db_uuid_next := Suc (db_uuid_next d)\<rparr>"
    and s: "i \<noteq> j" "0 < n" "0 < p" "p < PriceScale"
    using assms by (auto simp: insertTrade_def freshUUID_def r_def split: if_splits)
  from d' show "\<exists>r k. d' = d\<lparr>db_trades := db_trades d @ [r], db_uuid_next := k\<rparr> \<and> trade_view r = (m, i, j, n, p)"
    by (intro exI [of _ r] exI [of _ "Suc (db_uuid_next d)"]) (simp add: trade_view_def r_def)
  from s show "i \<noteq> j" "0 < n" "0 < p" "p < PriceScale" .
qed

definition fill_row :: "time \<Rightarrow> int \<Rightarrow> orderRow \<Rightarrow> orderRow" where
  "fill_row t x r =
     (if x = 0 then r
      else if or_filled_amount r + x < or_amount r
      then r\<lparr>or_filled_amount := or_filled_amount r + x, or_status := ''partial''\<rparr>
      else r\<lparr>or_filled_amount := or_filled_amount r + x, or_status := ''filled'', or_filled_at := Some (stamp t)\<rparr>)"

lemma fill_row_0 [simp]: "fill_row t 0 r = r" by (simp add: fill_row_def)

lemma fill_row_simps [simp]:
  "or_id (fill_row t x r) = or_id r" "or_amount (fill_row t x r) = or_amount r"
  "or_price (fill_row t x r) = or_price r" "or_type (fill_row t x r) = or_type r"
  "or_market_id (fill_row t x r) = or_market_id r" "or_merchant_id (fill_row t x r) = or_merchant_id r"
  "or_user_id (fill_row t x r) = or_user_id r" "or_currency (fill_row t x r) = or_currency r"
  "or_option (fill_row t x r) = or_option r" "or_filled_amount (fill_row t x r) = or_filled_amount r + x"
  "or_idempotency_key (fill_row t x r) = or_idempotency_key r"
  "or_created_at (fill_row t x r) = or_created_at r" "or_time_in_force (fill_row t x r) = or_time_in_force r"
  by (simp_all add: fill_row_def)

lemma fill_row_ok: "row_ok r \<Longrightarrow> 0 \<le> x \<Longrightarrow> x \<le> remaining r \<Longrightarrow> row_ok (fill_row t x r)"
  by (cases "x = 0") (auto simp: fill_row_def row_ok_def row_status_ok_def remaining_def)

lemma order_of_fill_row:
  assumes "row_ok r" "0 \<le> x" "x \<le> remaining r" "stamp t = t"
  shows "order_of_row (fill_row t x r) = apply_fill t x (order_of_row r)"
  using assms row_order_ok [OF assms(1)]
  by (simp add: fill_row_def apply_fill_def add_fill_def) (simp add: order_of_row_def)

lemma store_fill:
  assumes "row_ok r" "0 < x" "x \<le> remaining r"
  shows "store_row (apply_fill t x (order_of_row r)) r = fill_row t x r"
proof -
  note o = row_order_ok [OF assms(1)]
  have "exact (order_of_row r)" using row_exact [OF assms(1)] .
  then have f: "fil (add_fill x (order_of_row r)) = or_filled_amount r + x"
    using add_fill_exact(3) [of "order_of_row r" x] assms o by simp
  have "map_option stamp (or_filled_at r) = or_filled_at r" using assms(1) by (simp add: row_ok_def)
  then show ?thesis using assms(2) f o
    by (simp add: store_row_def fill_row_def apply_fill_def fil_def, simp add: add_fill_def)
qed

lemma updateWhere_id:
  fixes f g :: "orderRow \<Rightarrow> orderRow"
  assumes "distinct (map or_id rows)" "r \<in> set rows" "f r = g r"
  shows "updateWhere (\<lambda>r'. or_id r' = or_id r) f rows = updateWhere (\<lambda>r'. or_id r' = or_id r) g rows"
proof -
  have "\<forall>r' \<in> set rows. or_id r' = or_id r \<longrightarrow> r' = r"
    using assms(1,2) by (auto simp: distinct_map dest: inj_onD)
  then show ?thesis using assms(3) by (auto simp: updateWhere_def)
qed

lemma exact_units:
  assumes "exact v"
  shows "storedShareUnits (o_Amount v) = Inr (amt v)" "storedShareUnits (o_FilledAmount v) = Inr (fil v)"
    "storedPriceUnits (o_Price v) = Inr (prc v)" "0 \<le> amt v" "0 \<le> fil v" "0 < prc v" "prc v < PriceScale"
  using assms by (auto simp: exact_def shares_def price_def
      intro!: storedShareUnits_SharesToFloat storedPriceUnits_def price_stored)

section \<open>The match\<close>

definition taken :: "int \<Rightarrow> order \<Rightarrow> order" where
  "taken n v = (if n = 0 then v else add_fill n v)"

lemma taken_exact:
  assumes "exact v" "0 \<le> n" "n \<le> rem v"
  shows "exact (taken n v)" "rem (taken n v) = rem v - n" "fil (taken n v) = fil v + n"
    "amt (taken n v) = amt v" "prc (taken n v) = prc v"
  using add_fill_exact [OF assms] assms by (simp_all add: taken_def)

lemma taken_simps [simp]:
  "taken 0 v = v" "o_ID (taken n v) = o_ID v" "o_Type (taken n v) = o_Type v"
  "o_CreatedAt (taken n v) = o_CreatedAt v" "o_MarketID (taken n v) = o_MarketID v"
  "o_Status (taken n v) = o_Status v" "o_TimeInForce (taken n v) = o_TimeInForce v"
  "o_FilledAt (taken n v) = o_FilledAt v"
  by (simp_all add: taken_def add_fill_def)

lemma taken_taken: "exact v \<Longrightarrow> 0 \<le> x \<Longrightarrow> 0 \<le> y \<Longrightarrow> x + y \<le> rem v \<Longrightarrow> taken y (taken x v) = taken (x + y) v"
  using add_fill_exact(3) [of v x] by (auto simp: taken_def) (auto simp: add_fill_def add.assoc)

lemma refund_of_taken: "exact v \<Longrightarrow> 0 \<le> n \<Longrightarrow> n \<le> rem v \<Longrightarrow> refund_of (taken n v) m x = refund_of v m x"
  using taken_exact(5) [of v n] by (simp add: refund_of_def)

lemma exact_apply_fill:
  assumes "exact v" "0 \<le> x" "x \<le> rem v"
  shows "exact (apply_fill t x v)" "o_ID (apply_fill t x v) = o_ID v"
  using add_fill_exact(1) [OF assms] assms by (auto simp: apply_fill_def exact_def amt_def fil_def prc_def)

lemma placeFill_eq:
  assumes "exact v" "row_ok r" "open_row r" "0 < n" "n = rem v" "x = min n (remaining r)"
  shows "0 < x" "x \<le> remaining r" "x \<le> rem v"
    "placeFill fault n v (order_of_row r) d
      = andThen (insertTrade fault (o_MarketID v) (or_id r) (o_ID v) x (or_price r) (o_CreatedAt v) d)
        (\<lambda>_ d1. andThen (updateStoredOrder fault (apply_fill (o_CreatedAt v) x (order_of_row r)) d1)
          (\<lambda>_ d2. (Inr (refund_of v (order_of_row r) x, taken x v), d2)))"
proof -
  note o = row_order_ok [OF assms(2)] and m = row_exact [OF assms(2)]
  have "0 < remaining r" using open_rem [OF o(1)] assms(3) o(5) by simp
  then show x: "0 < x" "x \<le> remaining r" "x \<le> rem v" using assms(4-6) by auto
  have cap: "x < shareCap" using x rem_bounds [OF assms(1)] by simp
  have mf: "storedShareUnits (o_FilledAmount (order_of_row r)) = Inr (or_filled_amount r)"
    and sf: "storedShareUnits (o_FilledAmount v) = Inr (fil v)"
    and p: "storedPriceUnits (o_Price (order_of_row r)) = Inr (or_price r)"
    using exact_units [OF m] exact_units [OF assms(1)] o by simp_all
  have i: "i64 (or_filled_amount r + x) = or_filled_amount r + x" "i64 (fil v + x) = fil v + x"
    using m assms(1) x cap o by (auto intro!: i64_shares simp: exact_def shares_def)
  have ref: "priceImprovementRefundCents (o_Type v) (SharesToFloat x) (o_Price v) (o_Price (order_of_row r))
      = Inr (refund_of v (order_of_row r) x)"
    using refund_correct [OF assms(1) m _ cap] x(1) by simp
  have m1: "(order_of_row r)\<lparr>o_FilledAmount := SharesToFloat (or_filled_amount r + x)\<rparr> = add_fill x (order_of_row r)"
    "v\<lparr>o_FilledAmount := SharesToFloat (fil v + x)\<rparr> = taken x v"
    using o(3) x(1) by (simp_all add: add_fill_def taken_def)
  have st: "updateOrderFillStatus (o_CreatedAt v) (add_fill x (order_of_row r))
      = (Inr (), apply_fill (o_CreatedAt v) x (order_of_row r))"
    using fill_status [OF m x(1)] x(2) o(5) by simp
  have "remainingUnits (o_Amount (order_of_row r)) (o_FilledAmount (order_of_row r)) = Inr (remaining r)"
    using exact_rem [OF m] o(5) by simp
  then show "placeFill fault n v (order_of_row r) d
      = andThen (insertTrade fault (o_MarketID v) (or_id r) (o_ID v) x (or_price r) (o_CreatedAt v) d)
        (\<lambda>_ d1. andThen (updateStoredOrder fault (apply_fill (o_CreatedAt v) x (order_of_row r)) d1)
          (\<lambda>_ d2. (Inr (refund_of v (order_of_row r) x, taken x v), d2)))"
    unfolding placeFill_def
    by (simp only: bind_res_simps p assms(6) [symmetric] sum.case prod.case order_of_row_simps ref mf sf i m1
        taken_simps st)
qed

lemma placeFill_Inr:
  assumes "placeFill fault n v (order_of_row r) d = (Inr (c, v'), d')" "exact v" "row_ok r" "open_row r"
    "0 < n" "n = rem v" "x = min n (remaining r)" "distinct (map or_id (db_orders d))" "r \<in> set (db_orders d)"
  shows "c = refund_of v (order_of_row r) x" "v' = taken x v" "0 < x" "or_id r \<noteq> o_ID v"
    "\<exists>t k. d' = d\<lparr>db_orders := updateWhere (\<lambda>r'. or_id r' = or_id r) (fill_row (o_CreatedAt v) x) (db_orders d),
        db_trades := db_trades d @ [t], db_uuid_next := k\<rparr>
      \<and> trade_view t = (o_MarketID v, or_id r, o_ID v, x, or_price r)"
proof -
  note eq = placeFill_eq [OF assms(2-7)]
  have p: "0 < or_price r" using assms(3) by (simp add: row_ok_def)
  have r: "x \<le> rem (order_of_row r)" using eq(2) row_order_ok(5) [OF assms(3)] by simp
  note ex = exact_apply_fill [OF row_exact [OF assms(3)] less_imp_le [OF eq(1)] r, of "o_CreatedAt v"]
  obtain d1 where d1: "insertTrade fault (o_MarketID v) (or_id r) (o_ID v) x (or_price r) (o_CreatedAt v) d = (Inr (), d1)"
    and rest: "andThen (updateStoredOrder fault (apply_fill (o_CreatedAt v) x (order_of_row r)) d1)
      (\<lambda>_ d2. (Inr (refund_of v (order_of_row r) x, taken x v), d2)) = (Inr (c, v'), d')"
    using assms(1) unfolding eq(4) by (auto simp: andThen_Inr)
  show "c = refund_of v (order_of_row r) x" "v' = taken x v" using rest by (auto simp: andThen_Inr)
  show "0 < x" "or_id r \<noteq> o_ID v" using insertTrade_Inr(2) [OF d1] eq(1) p by auto
  obtain t k where t: "d1 = d\<lparr>db_trades := db_trades d @ [t], db_uuid_next := k\<rparr>"
      "trade_view t = (o_MarketID v, or_id r, o_ID v, x, or_price r)"
    using insertTrade_Inr(1) [OF d1] eq(1) p by auto
  have "d' = d1\<lparr>db_orders := updateWhere (\<lambda>r'. or_id r' = or_id r) (store_row (apply_fill (o_CreatedAt v) x (order_of_row r))) (db_orders d1)\<rparr>"
    using rest ex(2) by (auto simp: andThen_Inr updateStoredOrder_exact [OF ex(1)] split: if_splits)
  also have "updateWhere (\<lambda>r'. or_id r' = or_id r) (store_row (apply_fill (o_CreatedAt v) x (order_of_row r))) (db_orders d1)
      = updateWhere (\<lambda>r'. or_id r' = or_id r) (fill_row (o_CreatedAt v) x) (db_orders d)"
    using updateWhere_id [where f = "store_row (apply_fill (o_CreatedAt v) x (order_of_row r))"
        and g = "fill_row (o_CreatedAt v) x", OF assms(8,9) store_fill [OF assms(3) eq(1,2)]] t(1) by simp
  finally show "\<exists>t k. d' = d\<lparr>db_orders := updateWhere (\<lambda>r'. or_id r' = or_id r) (fill_row (o_CreatedAt v) x) (db_orders d),
      db_trades := db_trades d @ [t], db_uuid_next := k\<rparr> \<and> trade_view t = (o_MarketID v, or_id r, o_ID v, x, or_price r)"
    using t by (intro exI [of _ t] exI [of _ k]) simp
qed

definition fills :: "int \<Rightarrow> orderRow list \<Rightarrow> int list" where
  "fills n rs = allocate n (map remaining rs)"

definition fill_at :: "orderRow list \<Rightarrow> int list \<Rightarrow> string \<Rightarrow> int" where
  "fill_at rs xs k = (case map_of (zip (map or_id rs) xs) k of None \<Rightarrow> 0 | Some x \<Rightarrow> x)"

definition fill_rows :: "time \<Rightarrow> orderRow list \<Rightarrow> int list \<Rightarrow> orderRow list \<Rightarrow> orderRow list" where
  "fill_rows t rs xs rows = map (\<lambda>r. fill_row t (fill_at rs xs (or_id r)) r) rows"

definition fill_trades :: "string \<Rightarrow> string \<Rightarrow> orderRow list \<Rightarrow> int list \<Rightarrow> (string \<times> string \<times> string \<times> int \<times> int) list" where
  "fill_trades m sid rs xs = map (\<lambda>(r, x). (m, or_id r, sid, x, or_price r)) (filter (\<lambda>(r, x). x \<noteq> 0) (zip rs xs))"

definition fill_refund :: "order \<Rightarrow> orderRow list \<Rightarrow> int list \<Rightarrow> int" where
  "fill_refund v rs xs = (\<Sum>(r, x) \<leftarrow> zip rs xs. refund_of v (order_of_row r) x)"

lemma fills_0:
  assumes "\<forall>r \<in> set rs. 0 \<le> remaining r"
  shows "fills 0 rs = replicate (length rs) 0"
  using assms allocate_0 [of "map remaining rs"] by (simp add: fills_def)

lemma fill_at_zeros [simp]: "fill_at rs (replicate n 0) k = 0"
  by (auto simp: fill_at_def dest!: map_of_SomeD set_zip_rightD split: option.split)

lemma fill_at_Cons: "fill_at (r # rs) (x # xs) k = (if k = or_id r then x else fill_at rs xs k)"
  by (simp add: fill_at_def)

lemma fill_at_outside: "k \<notin> or_id ` set rs \<Longrightarrow> fill_at rs xs k = 0"
  by (auto simp: fill_at_def dest!: map_of_SomeD set_zip_leftD split: option.split)

lemma fill_rows_zeros [simp]: "fill_rows t rs (replicate n 0) rows = rows"
  by (simp add: fill_rows_def)

lemma fill_trades_zeros [simp]: "fill_trades m sid rs (replicate n 0) = []"
  by (auto simp: fill_trades_def filter_empty_conv dest: set_zip_rightD)

lemma fill_refund_zeros [simp]: "fill_refund v rs (replicate n 0) = 0"
  unfolding fill_refund_def
proof (induction rs arbitrary: n)
  case (Cons r rs)
  then show ?case by (cases n) simp_all
qed simp

lemma length_fills [simp]: "length (fills n rs) = length rs" by (simp add: fills_def)

lemma fills_nonneg: "0 \<le> n \<Longrightarrow> \<forall>r \<in> set rs. 0 \<le> remaining r \<Longrightarrow> \<forall>x \<in> set (fills n rs). 0 \<le> x"
  unfolding fills_def by (rule allocate_nonneg) simp_all

lemma fills_sum: "0 \<le> n \<Longrightarrow> \<forall>r \<in> set rs. 0 \<le> remaining r \<Longrightarrow> 0 \<le> sum_list (fills n rs) \<and> sum_list (fills n rs) \<le> n"
  using fills_nonneg [of n rs] allocate_sum [of n "map remaining rs"] sum_list_nonneg [of "fills n rs"] by (simp add: fills_def)

lemma fill_rows_Cons:
  assumes "or_id r \<notin> or_id ` set rs"
  shows "fill_rows t rs xs (updateWhere (\<lambda>r'. or_id r' = or_id r) (fill_row t x) rows) = fill_rows t (r # rs) (x # xs) rows"
  using fill_at_outside [OF assms, of xs] by (auto simp: fill_rows_def updateWhere_def fill_at_Cons)

lemma placeMakers_Inr:
  assumes "placeMakers fault (map order_of_row rs) v c d = (Inr (c', v'), d')" "exact v"
    "\<forall>r \<in> set rs. row_ok r \<and> open_row r \<and> r \<in> set (db_orders d)" "distinct (map or_id rs)"
    "distinct (map or_id (db_orders d))" "0 \<le> c" "c + rem v \<le> 2 ^ 40" "xs = fills (rem v) rs"
  shows "c' = c + fill_refund v rs xs \<and> v' = taken (sum_list xs) v
    \<and> (\<exists>ts k. d' = d\<lparr>db_orders := fill_rows (o_CreatedAt v) rs xs (db_orders d), db_trades := db_trades d @ ts,
          db_uuid_next := k\<rparr> \<and> map trade_view ts = fill_trades (o_MarketID v) (o_ID v) rs xs)"
  using assms
proof (induction rs arbitrary: v c d xs)
  case Nil
  then have "c' = c" "v' = v" "d' = d" "xs = replicate 0 0" by (simp_all add: fills_def)
  moreover have "d = d\<lparr>db_orders := fill_rows (o_CreatedAt v) [] (replicate 0 0) (db_orders d), db_trades := db_trades d @ [],
      db_uuid_next := db_uuid_next d\<rparr>"
    unfolding fill_rows_zeros by simp
  ultimately show ?case
    by (intro conjI exI [of _ "[]"] exI [of _ "db_uuid_next d"]) (simp_all add: fill_refund_def fill_trades_def)
next
  case (Cons r rs)
  note v = Cons.prems(2)
  have ok: "row_ok r" "open_row r" "r \<in> set (db_orders d)" using Cons.prems(3) by simp_all
  have nn: "\<forall>r \<in> set (r # rs). 0 \<le> remaining r" using Cons.prems(3) by (auto simp: row_ok_def remaining_def)
  have re: "remainingUnits (o_Amount v) (o_FilledAmount v) = Inr (rem v)" using exact_rem [OF v] .
  have r0: "0 \<le> rem v" using rem_bounds [OF v] by simp
  show ?case
  proof (cases "rem v = 0")
    case True
    then have xs: "xs = replicate (length (r # rs)) 0" using fills_0 [OF nn] Cons.prems(8) by simp
    have "placeMakers fault (map order_of_row (r # rs)) v c d = (Inr (c, v), d)" using re True by simp
    then have "c' = c" "v' = v" "d' = d" using Cons.prems(1) by simp_all
    moreover have "sum_list xs = 0" unfolding xs by (simp add: sum_list_replicate)
    ultimately show ?thesis
      unfolding xs fill_refund_zeros fill_rows_zeros fill_trades_zeros
      by (intro conjI exI [of _ "[]"] exI [of _ "db_uuid_next d"]) (simp_all add: xs)
  next
    case False
    define x where "x = min (rem v) (remaining r)"
    have "andThen (placeFill fault (rem v) v (order_of_row r) d) (\<lambda>(refund, incoming1) d1.
        placeMakers fault (map order_of_row rs) incoming1 (i64 (c + refund)) d1) = (Inr (c', v'), d')"
      using Cons.prems(1) re False by simp
    then obtain refund v1 d1 where f: "placeFill fault (rem v) v (order_of_row r) d = (Inr (refund, v1), d1)"
      and l: "placeMakers fault (map order_of_row rs) v1 (i64 (c + refund)) d1 = (Inr (c', v'), d')"
      by (auto simp: andThen_Inr)
    have n0: "0 < rem v" using False r0 by simp
    note p = placeFill_Inr [OF f v ok(1,2) n0 HOL.refl x_def Cons.prems(5) ok(3)]
    obtain t k where d1: "d1 = d\<lparr>db_orders := updateWhere (\<lambda>r'. or_id r' = or_id r) (fill_row (o_CreatedAt v) x) (db_orders d),
        db_trades := db_trades d @ [t], db_uuid_next := k\<rparr>" "trade_view t = (o_MarketID v, or_id r, o_ID v, x, or_price r)"
      using p(5) by blast
    have x: "0 < x" "x \<le> rem v" using p(3) by (simp_all add: x_def)
    note tk = taken_exact [OF v less_imp_le [OF x(1)] x(2)]
    have b: "0 \<le> refund" "refund \<le> x"
      using refund_bounds [OF v row_exact [OF ok(1)], of x] x(1) p(1) by simp_all
    have i: "i64 (c + refund) = c + refund"
      using Cons.prems(6,7) b x by (intro i64_small) simp_all
    have out: "or_id r \<notin> or_id ` set rs" using Cons.prems(4) by auto
    have mem: "r' \<in> set (db_orders d1)" if "r' \<in> set rs" for r'
    proof -
      have "or_id r' \<noteq> or_id r" using out that by (metis imageI)
      then show ?thesis using that Cons.prems(3) d1(1) by (auto simp: updateWhere_def image_iff intro: bexI [of _ r'])
    qed
    have ids: "map or_id (db_orders d1) = map or_id (db_orders d)" using d1(1) by (simp add: updateWhere_def)
    define ys where "ys = fills (rem v - x) rs"
    have xs: "xs = x # ys" using Cons.prems(8) by (simp add: fills_def ys_def x_def)
    have ys0: "0 \<le> sum_list ys" "sum_list ys \<le> rem v - x" using fills_sum [of "rem v - x" rs] nn x by (simp_all add: ys_def)
    have "c' = (c + refund) + fill_refund v1 rs ys \<and> v' = taken (sum_list ys) v1
      \<and> (\<exists>ts k. d' = d1\<lparr>db_orders := fill_rows (o_CreatedAt v1) rs ys (db_orders d1), db_trades := db_trades d1 @ ts,
            db_uuid_next := k\<rparr> \<and> map trade_view ts = fill_trades (o_MarketID v1) (o_ID v1) rs ys)"
    proof (rule Cons.IH)
      show "placeMakers fault (map order_of_row rs) v1 (c + refund) d1 = (Inr (c', v'), d')" using l i by simp
      show "exact v1" using tk(1) p(2) by simp
      show "\<forall>r \<in> set rs. row_ok r \<and> open_row r \<and> r \<in> set (db_orders d1)" using mem Cons.prems(3) by simp
      show "distinct (map or_id rs)" using Cons.prems(4) by simp
      show "distinct (map or_id (db_orders d1))" using ids Cons.prems(5) by simp
      show "0 \<le> c + refund" using Cons.prems(6) b by simp
      show "c + refund + rem v1 \<le> 2 ^ 40" using Cons.prems(7) b p(2) tk(2) by simp
      show "ys = fills (rem v1) rs" using p(2) tk(2) by (simp add: ys_def)
    qed
    then obtain ts k' where r: "c' = (c + refund) + fill_refund v1 rs ys" "v' = taken (sum_list ys) v1"
      "d' = d1\<lparr>db_orders := fill_rows (o_CreatedAt v) rs ys (db_orders d1), db_trades := db_trades d1 @ ts, db_uuid_next := k'\<rparr>"
      "map trade_view ts = fill_trades (o_MarketID v) (o_ID v) rs ys"
      using p(2) by auto
    have "fill_refund v1 rs ys = fill_refund v rs ys"
      using refund_of_taken [OF v less_imp_le [OF x(1)] x(2)] p(2) by (simp add: fill_refund_def)
    then have 1: "c' = c + fill_refund v (r # rs) xs" using r(1) p(1) xs by (simp add: fill_refund_def)
    have 2: "v' = taken (sum_list xs) v" using r(2) p(2) taken_taken [OF v _ ys0(1), of x] x ys0 xs by simp
    have 3: "d' = d\<lparr>db_orders := fill_rows (o_CreatedAt v) (r # rs) xs (db_orders d), db_trades := db_trades d @ (t # ts),
        db_uuid_next := k'\<rparr>"
      using r(3) d1(1) xs fill_rows_Cons [OF out, of "o_CreatedAt v" ys x] by simp
    have 4: "map trade_view (t # ts) = fill_trades (o_MarketID v) (o_ID v) (r # rs) xs"
      using r(4) d1(2) xs x by (simp add: fill_trades_def)
    from 1 2 3 4 show ?thesis by blast
  qed
qed

section \<open>The order and its candidates\<close>

definition match_rows :: "order \<Rightarrow> orderRow list \<Rightarrow> orderRow list" where
  "match_rows v rows = sort_by (matchedBefore (o_Type v)) (filter (matchesRow v (prc v)) rows)"

definition new_row :: "order \<Rightarrow> orderRow" where
  "new_row v = \<lparr>or_id = o_ID v, or_merchant_id = o_MerchantID v, or_user_id = o_UserID v,
     or_market_id = o_MarketID v, or_type = o_Type v, or_option = o_Option v, or_amount = amt v,
     or_filled_amount = fil v, or_currency = o_Currency v, or_price = prc v,
     or_time_in_force = o_TimeInForce v, or_status = o_Status v,
     or_idempotency_key = nullableIdempotencyKey (o_IdempotencyKey v),
     or_created_at = stamp (o_CreatedAt v), or_filled_at = map_option stamp (o_FilledAt v)\<rparr>"

lemma insertOrder_exact:
  assumes "exact v"
  shows "insertOrder fault v d =
    (if fault ''insert order'' (o_ID v) then (Inl (Wrapped ''insert order'' dbError), d)
     else if list_ex (orderTaken v) (db_orders d) then (Inl (Sentinel OrderErrAlreadyExists), d)
     else (Inr (), d\<lparr>db_orders := db_orders d @ [new_row v]\<rparr>))"
  using exact_units [OF assms] by (simp add: insertOrder_def new_row_def)

lemma new_row_unmatched: "\<not> matchesRow v p (new_row v)"
  by (simp add: matchesRow_def new_row_def)

lemma match_rows_append [simp]: "match_rows v (rows @ [new_row v]) = match_rows v rows"
  by (simp add: match_rows_def new_row_unmatched)

lemma set_match_rows: "set (match_rows v rows) = {r \<in> set rows. matchesRow v (prc v) r}"
  by (auto simp: match_rows_def)

lemma match_rows_ok:
  assumes "rows_ok rows"
  shows "\<forall>r \<in> set (match_rows v rows). row_ok r \<and> open_row r \<and> r \<in> set rows"
    "distinct (map or_id (match_rows v rows))"
proof -
  show "\<forall>r \<in> set (match_rows v rows). row_ok r \<and> open_row r \<and> r \<in> set rows"
    using assms by (auto simp: set_match_rows rows_ok_def matchesRow_def open_row_def)
  have "distinct (map or_id (filter (matchesRow v (prc v)) rows))"
    using assms distinct_map_filter by (auto simp: rows_ok_def)
  then have "distinct (match_rows v rows)" "inj_on or_id (set (match_rows v rows))"
    by (auto simp: match_rows_def distinct_map)
  then show "distinct (map or_id (match_rows v rows))" by (simp add: distinct_map)
qed

lemma queryMatching_ok:
  assumes "exact v" "\<forall>r \<in> set (match_rows v (db_orders d)). row_ok r"
  shows "queryMatchingOrders fault v d =
    (if fault ''query matching'' (o_ID v) then Inl (Wrapped ''query matching orders'' dbError)
     else if fault ''iterate matching'' (o_ID v) then Inl (Wrapped ''iterate matching orders'' dbError)
     else Inr (map order_of_row (match_rows v (db_orders d))))"
  using exact_units [OF assms(1)] scanAll_rows [OF assms(2)]
  by (simp add: queryMatchingOrders_def match_rows_def)

section \<open>The wallet\<close>

definition wallets_ok :: "walletRow list \<Rightarrow> bool" where
  "wallets_ok ws \<longleftrightarrow> distinct (map (\<lambda>w. (wl_merchant_id w, wl_user_id w, wl_currency w)) ws)"

definition untimedWallet :: "walletRow \<Rightarrow> walletRow" where
  "untimedWallet w = w\<lparr>wl_updated_at := 0\<rparr>"

text \<open>\<open>moved v c\<close> locks \<open>c\<close> cents of the order's wallet, or unlocks them when \<open>c\<close> is negative.\<close>

definition moved :: "order \<Rightarrow> int \<Rightarrow> walletRow \<Rightarrow> walletRow" where
  "moved v c w = (if ownWallet v w
     then w\<lparr>wl_balance := wl_balance w - c, wl_locked_balance := wl_locked_balance w + c, wl_updated_at := 0\<rparr>
     else untimedWallet w)"

lemma own_unique:
  assumes "wallets_ok ws" "w \<in> set ws" "w' \<in> set ws" "ownWallet v w" "ownWallet v w'"
  shows "w = w'"
  using assms by (auto simp: wallets_ok_def ownWallet_def distinct_map inj_on_def)

lemma rowsAffected_pos: "rowsAffected p rows > 0 \<longleftrightarrow> (\<exists>r \<in> set rows. p r)"
  by (auto simp: rowsAffected_def filter_empty_conv)

lemma move_own:
  assumes "wallets_ok ws" "\<exists>w \<in> set ws. ownWallet v w \<and> q w"
    "\<And>w. untimedWallet (f w) = w\<lparr>wl_balance := wl_balance w - c, wl_locked_balance := wl_locked_balance w + c, wl_updated_at := 0\<rparr>"
  shows "map untimedWallet (updateWhere (\<lambda>w. ownWallet v w \<and> q w) f ws) = map (moved v c) ws"
proof -
  have "\<forall>w \<in> set ws. ownWallet v w \<longrightarrow> q w" using assms(2) own_unique [OF assms(1)] by blast
  then show ?thesis using assms(3) by (auto simp: updateWhere_def moved_def)
qed

lemma lockOrderWallet_Inr:
  assumes "lockOrderWallet fault v c d = (Inr (), d')" "wallets_ok (db_wallets d)" "0 \<le> c"
  shows "\<exists>ws. d' = d\<lparr>db_wallets := ws\<rparr> \<and> map untimedWallet ws = map (moved v c) (db_wallets d)"
    "\<exists>w \<in> set (db_wallets d). ownWallet v w \<and> c \<le> wl_balance w"
proof -
  define p where "p = (\<lambda>w. ownWallet v w \<and> c \<le> wl_balance w)"
  define ws where "ws = updateWhere p (\<lambda>w. w\<lparr>wl_balance := wl_balance w - c,
    wl_locked_balance := wl_locked_balance w + c, wl_updated_at := db_now d\<rparr>) (db_wallets d)"
  have *: "d' = d\<lparr>db_wallets := ws\<rparr>" "rowsAffected p (db_wallets d) > 0"
    using assms(1,3)
    by (auto simp: lockOrderWallet_def requireOrderWalletUpdate_def Let_def p_def [symmetric] ws_def
        split: if_splits option.splits)
  from *(2) show w: "\<exists>w \<in> set (db_wallets d). ownWallet v w \<and> c \<le> wl_balance w"
    by (simp add: rowsAffected_pos p_def)
  have "map untimedWallet ws = map (moved v c) (db_wallets d)"
    unfolding ws_def p_def by (rule move_own [OF assms(2) w]) (simp add: untimedWallet_def)
  then show "\<exists>ws. d' = d\<lparr>db_wallets := ws\<rparr> \<and> map untimedWallet ws = map (moved v c) (db_wallets d)"
    using *(1) by blast
qed

lemma unlockOrderWallet_Inr:
  assumes "unlockOrderWallet fault v c d = (Inr (), d')" "wallets_ok (db_wallets d)" "0 \<le> c"
  shows "\<exists>ws. d' = d\<lparr>db_wallets := ws\<rparr> \<and> map untimedWallet ws = map (moved v (- c)) (db_wallets d)"
    "\<exists>w \<in> set (db_wallets d). ownWallet v w \<and> c \<le> wl_locked_balance w"
proof -
  define p where "p = (\<lambda>w. ownWallet v w \<and> c \<le> wl_locked_balance w)"
  define ws where "ws = updateWhere p (\<lambda>w. w\<lparr>wl_balance := wl_balance w + c,
    wl_locked_balance := wl_locked_balance w - c, wl_updated_at := db_now d\<rparr>) (db_wallets d)"
  have *: "d' = d\<lparr>db_wallets := ws\<rparr>" "rowsAffected p (db_wallets d) > 0"
    using assms(1,3)
    by (auto simp: unlockOrderWallet_def requireOrderWalletUpdate_def Let_def p_def [symmetric] ws_def
        split: if_splits option.splits)
  from *(2) show w: "\<exists>w \<in> set (db_wallets d). ownWallet v w \<and> c \<le> wl_locked_balance w"
    by (simp add: rowsAffected_pos p_def)
  have "map untimedWallet ws = map (moved v (- c)) (db_wallets d)"
    unfolding ws_def p_def by (rule move_own [OF assms(2) w]) (simp add: untimedWallet_def)
  then show "\<exists>ws. d' = d\<lparr>db_wallets := ws\<rparr> \<and> map untimedWallet ws = map (moved v (- c)) (db_wallets d)"
    using *(1) by blast
qed

lemma moved_untimed: "moved v c w = moved v c (untimedWallet w)"
  by (simp add: moved_def untimedWallet_def ownWallet_def)

lemma moved_moved: "moved v b (moved v a w) = moved v (a + b) w"
  by (simp add: moved_def untimedWallet_def ownWallet_def algebra_simps)

lemma moved_0: "moved v 0 = untimedWallet"
  by (simp add: moved_def untimedWallet_def fun_eq_iff)

lemma moved_trans:
  assumes "map untimedWallet ws' = map (moved v a) ws" "map untimedWallet ws'' = map (moved v b) ws'"
  shows "map untimedWallet ws'' = map (moved v (a + b)) ws"
proof -
  have "map (moved v b) ws' = map (moved v b) (map untimedWallet ws')"
    using moved_untimed [of v b] by simp
  also have "\<dots> = map (moved v (a + b)) ws" by (simp add: assms(1) moved_moved)
  finally show ?thesis using assms(2) by simp
qed

lemma own_moved: "ownWallet u (moved v c w) = ownWallet u w" "ownWallet u (untimedWallet w) = ownWallet u w"
  by (simp_all add: moved_def untimedWallet_def ownWallet_def)

lemma moved_mem:
  assumes "map untimedWallet ws' = map (moved v c) ws" "w' \<in> set ws'" "ownWallet v w'"
  shows "\<exists>w \<in> set ws. ownWallet v w \<and> wl_balance w' = wl_balance w - c \<and> wl_locked_balance w' = wl_locked_balance w + c"
proof -
  have "untimedWallet w' \<in> set (map (moved v c) ws)" using assms(1,2) by (metis image_eqI list.set_map)
  then obtain w where w: "w \<in> set ws" "untimedWallet w' = moved v c w" by auto
  have "ownWallet v w" using assms(3) w(2) own_moved by metis
  moreover have "wl_balance (untimedWallet w') = wl_balance w'" "wl_locked_balance (untimedWallet w') = wl_locked_balance w'"
    by (simp_all add: untimedWallet_def)
  ultimately show ?thesis using w by (auto simp: moved_def intro!: bexI [of _ w])
qed

lemma wallets_ok_moved:
  assumes "map untimedWallet ws' = map (moved v a) ws" "wallets_ok ws"
  shows "wallets_ok ws'"
proof -
  define key :: "walletRow \<Rightarrow> string \<times> string \<times> string"
    where "key = (\<lambda>w. (wl_merchant_id w, wl_user_id w, wl_currency w))"
  have "map key (map untimedWallet ws') = map key (map (moved v a) ws)" using assms(1) by simp
  moreover have "key (untimedWallet w) = key w" "key (moved v a w) = key w" for w
    by (simp_all add: key_def moved_def untimedWallet_def)
  ultimately have "map key ws' = map key ws" by (simp add: o_def)
  then show ?thesis using assms(2) by (simp add: wallets_ok_def key_def)
qed

section \<open>A placement that succeeds\<close>

definition pg_fills :: "order \<Rightarrow> orderRow list \<Rightarrow> int list" where
  "pg_fills v rows = fills (rem v) (match_rows v rows)"

definition pg_refund :: "order \<Rightarrow> orderRow list \<Rightarrow> int" where
  "pg_refund v rows = fill_refund v (match_rows v rows) (pg_fills v rows)"

definition pg_order :: "order \<Rightarrow> orderRow list \<Rightarrow> order" where
  "pg_order v rows = finish (taken (sum_list (pg_fills v rows)) v)"

definition released :: "order \<Rightarrow> orderRow list \<Rightarrow> int" where
  "released v rows = pg_refund v rows
     + (if o_Status (pg_order v rows) = ''cancelled'' then coll v (rem (pg_order v rows)) else 0)"

definition pg_rows :: "order \<Rightarrow> orderRow list \<Rightarrow> orderRow list" where
  "pg_rows v rows = fill_rows (o_CreatedAt v) (match_rows v rows) (pg_fills v rows) rows
     @ [store_row (pg_order v rows) (new_row v)]"

definition pg_trades :: "order \<Rightarrow> orderRow list \<Rightarrow> (string \<times> string \<times> string \<times> int \<times> int) list" where
  "pg_trades v rows = fill_trades (o_MarketID v) (o_ID v) (match_rows v rows) (pg_fills v rows)"

definition pg_markets :: "order \<Rightarrow> int \<Rightarrow> marketRow list \<Rightarrow> marketRow list" where
  "pg_markets v n ms = updateWhere (\<lambda>m. mr_id m = o_MarketID v) (\<lambda>m. m\<lparr>mr_total_volume := mr_total_volume m + n\<rparr>) ms"

lemma own_cong:
  assumes "o_MerchantID v' = o_MerchantID v" "o_UserID v' = o_UserID v" "o_Currency v' = o_Currency v"
  shows "ownWallet v' = ownWallet v" "moved v' = moved v"
proof -
  show "ownWallet v' = ownWallet v" using assms by (simp add: ownWallet_def fun_eq_iff)
  then show "moved v' = moved v" by (simp add: moved_def fun_eq_iff)
qed

lemma finish_own [simp]: "ownWallet (finish v) = ownWallet v" "moved (finish v) = moved v"
  "o_MarketID (finish v) = o_MarketID v"
proof -
  have f: "o_MerchantID (finish v) = o_MerchantID v" "o_UserID (finish v) = o_UserID v"
    "o_Currency (finish v) = o_Currency v"
    by (simp_all add: finish_def)
  show "ownWallet (finish v) = ownWallet v" "moved (finish v) = moved v" using own_cong [OF f] .
  show "o_MarketID (finish v) = o_MarketID v" by (simp add: finish_def)
qed

lemma taken_own [simp]: "ownWallet (taken n v) = ownWallet v" "moved (taken n v) = moved v"
proof -
  have f: "o_MerchantID (taken n v) = o_MerchantID v" "o_UserID (taken n v) = o_UserID v"
    "o_Currency (taken n v) = o_Currency v"
    by (simp_all add: taken_def add_fill_def)
  show "ownWallet (taken n v) = ownWallet v" "moved (taken n v) = moved v" using own_cong [OF f] .
qed

lemma pg_bounds:
  assumes "exact v" "rows_ok rows"
  shows "\<forall>r \<in> set (match_rows v rows). 0 \<le> remaining r" "\<forall>x \<in> set (pg_fills v rows). 0 \<le> x"
    "0 \<le> sum_list (pg_fills v rows)" "sum_list (pg_fills v rows) \<le> rem v"
proof -
  show nn: "\<forall>r \<in> set (match_rows v rows). 0 \<le> remaining r"
    using match_rows_ok(1) [OF assms(2), of v] by (auto simp: row_ok_def remaining_def)
  have "0 \<le> rem v" using rem_bounds [OF assms(1)] by simp
  from fills_nonneg [OF this nn] fills_sum [OF this nn]
  show "\<forall>x \<in> set (pg_fills v rows). 0 \<le> x" "0 \<le> sum_list (pg_fills v rows)" "sum_list (pg_fills v rows) \<le> rem v"
    by (simp_all add: pg_fills_def)
qed

lemma pg_order_exact:
  assumes "exact v" "rows_ok rows"
  shows "order_ok (pg_order v rows)" "exact (pg_order v rows)" "fil (pg_order v rows) = fil v + sum_list (pg_fills v rows)"
    "amt (pg_order v rows) = amt v" "prc (pg_order v rows) = prc v" "rem (pg_order v rows) = rem v - sum_list (pg_fills v rows)"
    "o_ID (pg_order v rows) = o_ID v" "o_Type (pg_order v rows) = o_Type v" "o_MarketID (pg_order v rows) = o_MarketID v"
proof -
  note t = taken_exact [OF assms(1) pg_bounds(3,4) [OF assms]]
  show o: "order_ok (pg_order v rows)" unfolding pg_order_def by (rule finish_ok [OF t(1)])
  then show "exact (pg_order v rows)" by (simp add: order_ok_def)
qed (use taken_exact [OF assms(1) pg_bounds(3,4) [OF assms]] in \<open>simp_all add: pg_order_def\<close>)

text \<open>The refunds of the fills stay below the shares filled, so no sum of them leaves 64 bits.\<close>

lemma fill_refund_bounds:
  assumes "exact v" "\<forall>r \<in> set rs. row_ok r" "\<forall>x \<in> set xs. 0 \<le> x"
  shows "0 \<le> fill_refund v rs xs \<and> fill_refund v rs xs \<le> sum_list xs"
  using assms(2,3)
proof (induction rs arbitrary: xs)
  case Nil
  then show ?case by (simp add: fill_refund_def sum_list_nonneg)
next
  case (Cons r rs)
  show ?case
  proof (cases xs)
    case (Cons x ys)
    have "0 \<le> refund_of v (order_of_row r) x \<and> refund_of v (order_of_row r) x \<le> x"
      using refund_bounds [OF assms(1) row_exact] Cons Cons.prems by simp
    moreover have "0 \<le> fill_refund v rs ys \<and> fill_refund v rs ys \<le> sum_list ys"
      using Cons.IH [of ys] Cons Cons.prems by simp
    ultimately show ?thesis using Cons by (simp add: fill_refund_def)
  qed (simp add: fill_refund_def)
qed

lemma pg_refund_bounds:
  assumes "exact v" "rows_ok rows"
  shows "0 \<le> pg_refund v rows" "pg_refund v rows \<le> rem v"
  using fill_refund_bounds [OF assms(1), of "match_rows v rows" "pg_fills v rows"]
    match_rows_ok(1) [OF assms(2), of v] pg_bounds [OF assms] by (auto simp: pg_refund_def)

lemma released_nonneg:
  assumes "exact v" "rows_ok rows"
  shows "0 \<le> released v rows" "released v rows < 2 ^ 42"
    "o_Status (pg_order v rows) = ''cancelled'' \<Longrightarrow>
      requiredCollateralCents (o_Type (pg_order v rows)) (SharesToFloat (rem (pg_order v rows))) (o_Price (pg_order v rows))
        = Inr (coll v (rem (pg_order v rows)))"
proof -
  note o = pg_order_exact [OF assms]
  have r: "0 \<le> rem (pg_order v rows)" "rem (pg_order v rows) < shareCap" using rem_bounds [OF o(2)] by simp_all
  have c: "coll (pg_order v rows) = coll v" using o by (simp add: coll_def fun_eq_iff)
  note b = coll_bounds [OF assms(1) r]
  have "moneyCap \<le> 2 ^ 41" "shareCap \<le> 2 ^ 41" by (simp_all add: moneyCap_def shareCap_def)
  then show "0 \<le> released v rows" "released v rows < 2 ^ 42"
    using b pg_refund_bounds [OF assms] rem_bounds [OF assms(1)] by (auto simp: released_def)
  show "requiredCollateralCents (o_Type (pg_order v rows)) (SharesToFloat (rem (pg_order v rows))) (o_Price (pg_order v rows))
      = Inr (coll v (rem (pg_order v rows)))"
    using collateral_exact(1) [OF o(2) r] c by simp
qed

lemma releaseUnused_eq:
  assumes "exact v" "rows_ok rows"
  shows "releaseUnused fault (pg_order v rows) (pg_refund v rows) d =
    (if released v rows > 0 then unlockOrderWallet fault (pg_order v rows) (released v rows) d else (Inr (), d))"
proof (cases "o_Status (pg_order v rows) = ''cancelled''")
  case True
  note o = pg_order_exact [OF assms] and r = released_nonneg [OF assms]
  have "remainingShares (o_Amount (pg_order v rows)) (o_FilledAmount (pg_order v rows)) = Inr (SharesToFloat (rem (pg_order v rows)))"
    using exact_rem [OF o(2)] by (simp add: remainingShares_def)
  moreover have "i64 (pg_refund v rows + coll v (rem (pg_order v rows))) = released v rows"
    using r(1,2) True by (simp add: released_def) (rule i64_small, simp_all)
  ultimately show ?thesis using True r(3) by (simp add: releaseUnused_def)
qed (simp add: releaseUnused_def released_def)

lemma releaseUnused_Inr:
  assumes "releaseUnused fault (pg_order v rows) (pg_refund v rows) d = (Inr (), d')"
    "exact v" "rows_ok rows" "wallets_ok (db_wallets d)"
  shows "\<exists>ws. d' = d\<lparr>db_wallets := ws\<rparr> \<and> map untimedWallet ws = map (moved v (- released v rows)) (db_wallets d)"
    "released v rows = 0 \<or> (\<exists>w \<in> set (db_wallets d). ownWallet v w \<and> released v rows \<le> wl_locked_balance w)"
proof -
  have own: "ownWallet (pg_order v rows) = ownWallet v" "moved (pg_order v rows) = moved v"
    by (simp_all add: pg_order_def)
  have "(\<exists>ws. d' = d\<lparr>db_wallets := ws\<rparr> \<and> map untimedWallet ws = map (moved v (- released v rows)) (db_wallets d))
    \<and> (released v rows = 0 \<or> (\<exists>w \<in> set (db_wallets d). ownWallet v w \<and> released v rows \<le> wl_locked_balance w))"
  proof (cases "released v rows > 0")
    case True
    with assms(1) have "unlockOrderWallet fault (pg_order v rows) (released v rows) d = (Inr (), d')"
      by (simp add: releaseUnused_eq [OF assms(2,3)])
    from unlockOrderWallet_Inr [OF this assms(4)] True show ?thesis by (simp add: own)
  next
    case False
    then have "released v rows = 0" "d' = d"
      using assms(1) released_nonneg(1) [OF assms(2,3)] by (simp_all add: releaseUnused_eq [OF assms(2,3)])
    then show ?thesis by (intro conjI exI [of _ "db_wallets d"]) (simp_all add: moved_0)
  qed
  then show "\<exists>ws. d' = d\<lparr>db_wallets := ws\<rparr> \<and> map untimedWallet ws = map (moved v (- released v rows)) (db_wallets d)"
    "released v rows = 0 \<or> (\<exists>w \<in> set (db_wallets d). ownWallet v w \<and> released v rows \<le> wl_locked_balance w)"
    by blast+
qed

lemma addMatchedVolume_exact:
  assumes "exact v" "addMatchedVolume fault v d = (Inr (), d')"
  shows "d' = d\<lparr>db_markets := pg_markets v (fil v) (db_markets d)\<rparr>"
proof -
  have "updateWhere p (\<lambda>m. m\<lparr>mr_total_volume := mr_total_volume m + 0\<rparr>) ms = ms" for p and ms :: "marketRow list"
    by (induction ms) (simp_all add: updateWhere_def)
  then show ?thesis using assms(2) exact_units [OF assms(1)]
    by (auto simp: addMatchedVolume_def pg_markets_def split: if_splits)
qed

lemma lockOrderMarket_Inr:
  "lockOrderMarket fault v d = Inr () \<Longrightarrow>
    \<exists>m \<in> set (db_markets d). mr_id m = o_MarketID v \<and> mr_status m = ''active'' \<and> mr_merchant_id m = o_MerchantID v"
  by (auto simp: lockOrderMarket_def dest!: find_SomeD split: if_splits option.splits)

text \<open>What a placement that succeeds leaves: \<open>c\<close> cents more are locked in the order's wallet.\<close>

definition placed_effect :: "order \<Rightarrow> int \<Rightarrow> db \<Rightarrow> db \<Rightarrow> bool" where
  "placed_effect v c d d' \<longleftrightarrow> (\<exists>ts ws k.
     d' = d\<lparr>db_orders := pg_rows v (db_orders d), db_trades := db_trades d @ ts, db_wallets := ws,
       db_markets := pg_markets v (sum_list (pg_fills v (db_orders d))) (db_markets d), db_uuid_next := k\<rparr>
     \<and> map trade_view ts = pg_trades v (db_orders d)
     \<and> map untimedWallet ws = map (moved v c) (db_wallets d))"

lemma fill_rows_new:
  assumes "o_ID v \<notin> or_id ` set rs"
  shows "fill_rows t rs xs (rows @ [new_row v]) = fill_rows t rs xs rows @ [new_row v]"
  using fill_at_outside [OF assms, of xs] by (simp add: fill_rows_def new_row_def)

lemma store_new:
  assumes "\<forall>r \<in> set rows. or_id r \<noteq> o_ID v"
  shows "updateWhere (\<lambda>r. or_id r = o_ID v) f (fill_rows t rs xs rows @ [new_row v]) = fill_rows t rs xs rows @ [f (new_row v)]"
proof -
  have "updateWhere (\<lambda>r. or_id r = o_ID v) f (fill_rows t rs xs rows) = fill_rows t rs xs rows"
    using assms by (simp add: updateWhere_def fill_rows_def)
  then show ?thesis by (simp add: updateWhere_def) (simp add: new_row_def)
qed

lemma settleTaker_step:
  "(case settleTaker w of (r, v) \<Rightarrow> (map_sum id (\<lambda>_. v) r, d)) = (Inr u, d') \<longleftrightarrow> settleTaker w = (Inr (), u) \<and> d' = d"
  by (cases "settleTaker w"; cases "fst (settleTaker w)") auto

lemma placeTx_steps:
  assumes "placeTx fault v c lock d = (Inr (p, v'), d')"
  obtains d1 d2 ms refund v1 d4 d6 d7 where "lockOrderMarket fault v d = Inr ()"
    "(if lock then lockOrderWallet fault v c d else (Inr (), d)) = (Inr (), d1)"
    "insertOrder fault v d1 = (Inr (), d2)" "queryMatchingOrders fault v d2 = Inr ms"
    "placeMakers fault ms v 0 d2 = (Inr (refund, v1), d4)" "settleTaker v1 = (Inr (), v')"
    "updateStoredOrder fault v' d4 = (Inr (), d6)" "addMatchedVolume fault v' d6 = (Inr (), d7)"
    "(if lock then releaseUnused fault v' refund d7 else (Inr (), d7)) = (Inr (), d')" "p = CentsToFloat refund"
  using assms unfolding placeTx_def
  by (auto simp: andThen_Inr settleTaker_step)

lemma placeTx_Inr:
  assumes "placeTx fault v c lock d = (Inr (p, v'), d')" "exact v" "fil v = 0"
    "rows_ok (db_orders d)" "wallets_ok (db_wallets d)" "0 \<le> c"
  shows "p = CentsToFloat (pg_refund v (db_orders d))" "v' = pg_order v (db_orders d)"
    "placed_effect v (if lock then c - released v (db_orders d) else 0) d d'"
    "\<forall>r \<in> set (db_orders d). \<not> orderTaken v r"
    "\<exists>m \<in> set (db_markets d). mr_id m = o_MarketID v \<and> mr_status m = ''active'' \<and> mr_merchant_id m = o_MerchantID v"
    "lock \<Longrightarrow> \<exists>w \<in> set (db_wallets d). ownWallet v w \<and> c \<le> wl_balance w
      \<and> (released v (db_orders d) = 0 \<or> released v (db_orders d) \<le> wl_locked_balance w + c)"
proof -
  define rows where "rows = db_orders d"
  obtain d1 d2 ms refund v1 d4 d6 d7 where m: "lockOrderMarket fault v d = Inr ()"
    and l: "(if lock then lockOrderWallet fault v c d else (Inr (), d)) = (Inr (), d1)"
    and i: "insertOrder fault v d1 = (Inr (), d2)" and q: "queryMatchingOrders fault v d2 = Inr ms"
    and pm: "placeMakers fault ms v 0 d2 = (Inr (refund, v1), d4)" and st: "settleTaker v1 = (Inr (), v')"
    and u: "updateStoredOrder fault v' d4 = (Inr (), d6)" and vol: "addMatchedVolume fault v' d6 = (Inr (), d7)"
    and rel: "(if lock then releaseUnused fault v' refund d7 else (Inr (), d7)) = (Inr (), d')"
    and p: "p = CentsToFloat refund"
    using assms(1) by (rule placeTx_steps)
  note rok = assms(4) [folded rows_def]
  define c1 where "c1 = (if lock then c else 0)"
  have "\<exists>ws. d1 = d\<lparr>db_wallets := ws\<rparr> \<and> map untimedWallet ws = map (moved v c1) (db_wallets d)"
    using l lockOrderWallet_Inr(1) [OF _ assms(5,6), of fault v d1]
    by (cases lock) (auto simp: c1_def moved_0 intro: exI [of _ "db_wallets d"])
  then obtain ws1 where d1: "d1 = d\<lparr>db_wallets := ws1\<rparr>" "map untimedWallet ws1 = map (moved v c1) (db_wallets d)"
    by blast
  have d2: "d2 = d1\<lparr>db_orders := rows @ [new_row v]\<rparr>" and free: "\<forall>r \<in> set rows. \<not> orderTaken v r"
    using i d1(1) by (auto simp: insertOrder_exact [OF assms(2)] list_ex_iff rows_def split: if_splits)
  then show "\<forall>r \<in> set (db_orders d). \<not> orderTaken v r" by (simp add: rows_def)
  have fresh: "\<forall>r \<in> set rows. or_id r \<noteq> o_ID v" using free by (auto simp: orderTaken_def)
  note mk = match_rows_ok [OF rok, of v]
  have ms: "ms = map order_of_row (match_rows v rows)"
    using q d2 mk(1) by (auto simp: queryMatching_ok [OF assms(2)] split: if_splits)
  have out: "o_ID v \<notin> or_id ` set (match_rows v rows)" using mk(1) fresh by auto
  have r0: "0 \<le> rem v" "rem v \<le> 2 ^ 40"
    using rem_bounds [OF assms(2)] by (simp_all add: shareCap_def)
  have "refund = 0 + pg_refund v rows \<and> v1 = taken (sum_list (pg_fills v rows)) v
    \<and> (\<exists>ts k. d4 = d2\<lparr>db_orders := fill_rows (o_CreatedAt v) (match_rows v rows) (pg_fills v rows) (db_orders d2),
         db_trades := db_trades d2 @ ts, db_uuid_next := k\<rparr> \<and> map trade_view ts = pg_trades v rows)"
    unfolding pg_refund_def pg_trades_def
  proof (rule placeMakers_Inr [OF pm [unfolded ms] assms(2)])
    show "\<forall>r \<in> set (match_rows v rows). row_ok r \<and> open_row r \<and> r \<in> set (db_orders d2)" using mk(1) d2 by auto
    show "distinct (map or_id (db_orders d2))" using rok fresh d2 by (auto simp: rows_ok_def new_row_def)
  qed (use mk(2) r0 in \<open>simp_all add: pg_fills_def\<close>)
  then obtain ts k where rf: "refund = pg_refund v rows" "v1 = taken (sum_list (pg_fills v rows)) v"
    and d4: "d4 = d2\<lparr>db_orders := fill_rows (o_CreatedAt v) (match_rows v rows) (pg_fills v rows) rows @ [new_row v],
      db_trades := db_trades d2 @ ts, db_uuid_next := k\<rparr>" and ts: "map trade_view ts = pg_trades v rows"
    using d2 fill_rows_new [OF out] by auto
  note b = pg_bounds [OF assms(2) rok] and o = pg_order_exact [OF assms(2) rok]
  show "p = CentsToFloat (pg_refund v (db_orders d))" using p rf by (simp add: rows_def)
  have v': "v' = pg_order v rows"
    using st settleTaker_spec [OF taken_exact(1) [OF assms(2) b(3,4)]] rf(2) by (simp add: pg_order_def)
  then show "v' = pg_order v (db_orders d)" by (simp add: rows_def)
  have d6: "d6 = d4\<lparr>db_orders := pg_rows v rows\<rparr>"
    using u d4 store_new [OF fresh, of "store_row v'"] o(2,7) v'
    by (auto simp: updateStoredOrder_exact pg_rows_def split: if_splits)
  have d7: "d7 = d6\<lparr>db_markets := pg_markets v (sum_list (pg_fills v rows)) (db_markets d)\<rparr>"
    using addMatchedVolume_exact [OF _ vol] o(2,3,9) v' assms(3) d6 d4 d2 d1 by (simp add: pg_markets_def)
  have wok: "wallets_ok (db_wallets d7)"
    using wallets_ok_moved [OF d1(2) assms(5)] d7 d6 d4 d2 d1 by simp
  define c2 where "c2 = (if lock then released v rows else 0)"
  have w7: "db_wallets d7 = ws1" using d7 d6 d4 d2 d1 by simp
  have "\<exists>ws. d' = d7\<lparr>db_wallets := ws\<rparr> \<and> map untimedWallet ws = map (moved v (- c2)) ws1"
  proof (cases lock)
    case True
    then have "releaseUnused fault (pg_order v rows) (pg_refund v rows) d7 = (Inr (), d')" using rel v' rf(1) by simp
    from releaseUnused_Inr(1) [OF this assms(2) rok wok] show ?thesis using True w7 by (simp add: c2_def)
  next
    case False
    then show ?thesis using rel w7 by (intro exI [of _ ws1]) (auto simp: c2_def moved_0)
  qed
  then obtain ws where d': "d' = d7\<lparr>db_wallets := ws\<rparr>" "map untimedWallet ws = map (moved v (- c2)) ws1" by blast
  have ws: "map untimedWallet ws = map (moved v (c1 - c2)) (db_wallets d)"
    using moved_trans [OF d1(2) d'(2)] by simp
  have "c1 - c2 = (if lock then c - released v (db_orders d) else 0)" by (simp add: c1_def c2_def rows_def)
  then show "placed_effect v (if lock then c - released v (db_orders d) else 0) d d'"
    unfolding placed_effect_def using ts ws d'(1) d7 d6 d4 d2 d1
    by (intro exI [of _ ts] exI [of _ ws] exI [of _ k]) (simp add: rows_def [symmetric])
  show "\<exists>m \<in> set (db_markets d). mr_id m = o_MarketID v \<and> mr_status m = ''active'' \<and> mr_merchant_id m = o_MerchantID v"
    by (rule lockOrderMarket_Inr [OF m])
  show "\<exists>w \<in> set (db_wallets d). ownWallet v w \<and> c \<le> wl_balance w
      \<and> (released v (db_orders d) = 0 \<or> released v (db_orders d) \<le> wl_locked_balance w + c)" if lock
  proof -
    have "lockOrderWallet fault v c d = (Inr (), d1)" using l that by simp
    from lockOrderWallet_Inr(2) [OF this assms(5,6)] obtain w where w: "w \<in> set (db_wallets d)" "ownWallet v w" "c \<le> wl_balance w"
      by blast
    have "releaseUnused fault (pg_order v rows) (pg_refund v rows) d7 = (Inr (), d')" using rel v' rf(1) that by simp
    from releaseUnused_Inr(2) [OF this assms(2) rok wok] w7
    have "released v rows = 0 \<or> (\<exists>w' \<in> set ws1. ownWallet v w' \<and> released v rows \<le> wl_locked_balance w')" by simp
    moreover have "wl_locked_balance w' = wl_locked_balance w + c" if w': "w' \<in> set ws1" "ownWallet v w'" for w'
      using moved_mem [OF d1(2) w'] own_unique [OF assms(5) w(1) _ w(2)] \<open>lock\<close> by (auto simp: c1_def)
    ultimately show ?thesis using w by (auto simp: rows_def)
  qed
qed

section \<open>A cancellation that succeeds\<close>

definition row_coll :: "orderRow \<Rightarrow> int" where
  "row_coll r = half_up (remaining r * exposure (or_type r) (or_price r) * 100) (10 ^ 12)"

lemma row_coll: "row_ok r \<Longrightarrow> row_coll r = coll (order_of_row r) (remaining r)"
  using row_order_ok(4) by (simp add: row_coll_def coll_def)

definition cancelled_rows :: "string \<Rightarrow> orderRow list \<Rightarrow> orderRow list" where
  "cancelled_rows i rows = updateWhere (\<lambda>r. or_id r = i) (\<lambda>r. r\<lparr>or_status := ''cancelled''\<rparr>) rows"

lemma remaining_bounds: "row_ok r \<Longrightarrow> 0 \<le> remaining r \<and> remaining r < shareCap"
  by (simp add: row_ok_def remaining_def)

lemma row_coll_bounds: "row_ok r \<Longrightarrow> 0 \<le> row_coll r"
  using coll_bounds [OF row_exact] remaining_bounds by (simp add: row_coll)

lemma cancelTx_Inr:
  assumes "cancelTx fault i unlock d = (Inr (v, f), d')" "rows_ok (db_orders d)" "wallets_ok (db_wallets d)"
  obtains r ws where "r \<in> set (db_orders d)" "or_id r = i" "open_row r" "v = (order_of_row r)\<lparr>o_Status := ''cancelled''\<rparr>"
    "f = SharesToFloat (remaining r)" "d' = d\<lparr>db_orders := cancelled_rows i (db_orders d), db_wallets := ws\<rparr>"
    "map untimedWallet ws = map (moved (order_of_row r) (if unlock then - row_coll r else 0)) (db_wallets d)"
    "unlock \<Longrightarrow> row_coll r = 0 \<or> (\<exists>w \<in> set (db_wallets d). ownWallet (order_of_row r) w \<and> row_coll r \<le> wl_locked_balance w)"
proof -
  obtain r where r: "find (\<lambda>r. or_id r = i) (db_orders d) = Some r"
    using assms(1) by (auto simp: cancelTx_def andThen_Inr scanOrder_def split: option.splits if_splits)
  then have mem: "r \<in> set (db_orders d)" "or_id r = i" using find_SomeD by fast+
  note ok = rows_okD [OF assms(2) mem(1)]
  note e = row_exact [OF ok] and o = row_order_ok [OF ok]
  define u where "u = (order_of_row r)\<lparr>o_Status := ''cancelled''\<rparr>"
  have u: "exact u" "o_ID u = i" "amt u = or_amount r" "fil u = or_filled_amount r" "prc u = or_price r"
    "o_Type u = or_type r"
    using e o mem(2) by (simp_all add: u_def exact_def amt_def fil_def prc_def)
  have own: "ownWallet u = ownWallet (order_of_row r)" "moved u = moved (order_of_row r)"
    by (rule own_cong; simp add: u_def)+
  have rs: "remainingShares (o_Amount (order_of_row r)) (o_FilledAmount (order_of_row r)) = Inr (SharesToFloat (remaining r))"
    using exact_rem [OF e] o(5) by (simp add: remainingShares_def)
  have cc: "requiredCollateralCents (o_Type u) (SharesToFloat (remaining r)) (o_Price u) = Inr (row_coll r)"
    using collateral_exact(1) [OF u(1)] remaining_bounds [OF ok] u by (simp add: row_coll_def coll_def)
  obtain d1 where op: "open_row r" and up: "updateStoredOrder fault u d = (Inr (), d1)"
    and un: "(if unlock then if row_coll r > 0 then unlockOrderWallet fault u (row_coll r) d1 else (Inr (), d1)
        else (Inr (), d1)) = (Inr (), d')"
    and v: "v = u" "f = SharesToFloat (remaining r)"
    using assms(1) by (auto simp: cancelTx_def andThen_Inr scanOrder_def r scan_row_ok [OF ok] rs
        u_def [symmetric] cc open_row_def split: if_splits)
  have "updateWhere (\<lambda>r'. or_id r' = or_id r) (store_row u) (db_orders d) = cancelled_rows i (db_orders d)"
    unfolding cancelled_rows_def mem(2) [symmetric]
  proof (rule updateWhere_id [where f = "store_row u" and g = "\<lambda>r. r\<lparr>or_status := ''cancelled''\<rparr>"])
    have "map_option stamp (or_filled_at r) = or_filled_at r" using ok by (simp add: row_ok_def)
    then show "store_row u r = r\<lparr>or_status := ''cancelled''\<rparr>"
      using u(4) by (cases r) (simp add: store_row_def, simp add: u_def)
  qed (use assms(2) mem in \<open>simp_all add: rows_ok_def\<close>)
  then have d1: "d1 = d\<lparr>db_orders := cancelled_rows i (db_orders d)\<rparr>"
    using up u(2) mem(2) by (auto simp: updateStoredOrder_exact [OF u(1)] split: if_splits)
  have "(\<exists>ws. d' = d1\<lparr>db_wallets := ws\<rparr> \<and> map untimedWallet ws
      = map (moved (order_of_row r) (if unlock then - row_coll r else 0)) (db_wallets d))
    \<and> (unlock \<longrightarrow> row_coll r = 0 \<or> (\<exists>w \<in> set (db_wallets d). ownWallet (order_of_row r) w \<and> row_coll r \<le> wl_locked_balance w))"
  proof (cases "unlock \<and> row_coll r > 0")
    case True
    then have "unlockOrderWallet fault u (row_coll r) d1 = (Inr (), d')" using un by simp
    from unlockOrderWallet_Inr [OF this] True d1 assms(3) show ?thesis by (simp add: own)
  next
    case False
    then have "d' = d1" "unlock \<longrightarrow> row_coll r = 0" using un row_coll_bounds [OF ok] by (auto split: if_splits)
    then show ?thesis using d1 by (intro conjI exI [of _ "db_wallets d"]) (auto simp: moved_0)
  qed
  then obtain ws where "d' = d1\<lparr>db_wallets := ws\<rparr>"
    "map untimedWallet ws = map (moved (order_of_row r) (if unlock then - row_coll r else 0)) (db_wallets d)"
    "unlock \<longrightarrow> row_coll r = 0 \<or> (\<exists>w \<in> set (db_wallets d). ownWallet (order_of_row r) w \<and> row_coll r \<le> wl_locked_balance w)"
    by blast
  then show thesis using d1 v op mem by (intro that [of r ws]) (simp_all add: u_def)
qed

section \<open>The rows after a placement\<close>

lemma fill_at_bounds:
  assumes "distinct (map or_id rs)" "\<forall>r \<in> set rs. 0 \<le> remaining r" "0 \<le> n" "r \<in> set rs"
  shows "0 \<le> fill_at rs (fills n rs) (or_id r)" "fill_at rs (fills n rs) (or_id r) \<le> remaining r"
proof -
  obtain i where i: "i < length rs" "r = rs ! i" using assms(4) by (metis in_set_conv_nth)
  have "map_of (zip (map or_id rs) (fills n rs)) (map or_id rs ! i) = Some (fills n rs ! i)"
    using i by (intro map_of_zip_nth [OF assms(1)]) simp_all
  then have "fill_at rs (fills n rs) (or_id r) = fills n rs ! i" using i by (simp add: fill_at_def)
  then show "0 \<le> fill_at rs (fills n rs) (or_id r)" "fill_at rs (fills n rs) (or_id r) \<le> remaining r"
    using allocate_bounds [of n "map remaining rs" i] assms(2,3) i by (simp_all add: fills_def)
qed

definition fill_in :: "order \<Rightarrow> orderRow list \<Rightarrow> orderRow \<Rightarrow> int" where
  "fill_in v rows r = fill_at (match_rows v rows) (pg_fills v rows) (or_id r)"

lemma fill_in_bounds:
  assumes "exact v" "rows_ok rows" "r \<in> set rows"
  shows "0 \<le> fill_in v rows r" "fill_in v rows r \<le> remaining r"
proof -
  note b = pg_bounds [OF assms(1,2)] and m = match_rows_ok [OF assms(2), of v]
  have r0: "0 \<le> rem v" using rem_bounds [OF assms(1)] by simp
  have rr: "0 \<le> remaining r" using assms(2,3) by (auto simp: rows_ok_def row_ok_def remaining_def)
  have "0 \<le> fill_in v rows r \<and> fill_in v rows r \<le> remaining r"
  proof (cases "r \<in> set (match_rows v rows)")
    case True
    then show ?thesis using fill_at_bounds [OF m(2) b(1) r0] by (simp add: fill_in_def pg_fills_def)
  next
    case False
    have "or_id r \<notin> or_id ` set (match_rows v rows)"
    proof
      assume "or_id r \<in> or_id ` set (match_rows v rows)"
      then obtain r' where "r' \<in> set (match_rows v rows)" "or_id r' = or_id r" by auto
      moreover from this have "r' = r"
        using m(1) assms(2,3) by (auto simp: rows_ok_def distinct_map dest: inj_onD)
      ultimately show False using False by simp
    qed
    then show ?thesis using rr by (simp add: fill_in_def fill_at_outside)
  qed
  then show "0 \<le> fill_in v rows r" "fill_in v rows r \<le> remaining r" by simp_all
qed

lemma pg_rows_fill: "pg_rows v rows = map (\<lambda>r. fill_row (o_CreatedAt v) (fill_in v rows r) r) rows
    @ [store_row (pg_order v rows) (new_row v)]"
  by (simp add: pg_rows_def fill_rows_def fill_in_def)

lemma new_row_ok:
  assumes "exact v" "rows_ok rows"
  shows "row_ok (store_row (pg_order v rows) (new_row v))"
proof -
  note o = pg_order_exact [OF assms]
  have "map_option stamp (map_option stamp x) = map_option stamp x" for x :: "time option" by (cases x) simp_all
  moreover have "amt v < shareCap" using assms(1) by (simp add: exact_def shares_def)
  ultimately show ?thesis
    using o(1,3-6) exact_units [OF assms(1)] exact_units [OF o(2)] assms(1)
    by (auto simp: row_ok_def store_row_def new_row_def order_ok_def exact_def status_ok_def row_status_ok_def)
qed

lemma pg_rows_ok:
  assumes "exact v" "rows_ok rows" "\<forall>r \<in> set rows. \<not> orderTaken v r"
  shows "rows_ok (pg_rows v rows)"
proof -
  have ids: "map or_id (pg_rows v rows) = map or_id rows @ [o_ID v]"
    by (simp add: pg_rows_fill store_row_def new_row_def o_def)
  have "\<forall>r \<in> set rows. row_ok (fill_row (o_CreatedAt v) (fill_in v rows r) r)"
    using fill_row_ok fill_in_bounds [OF assms(1,2)] assms(2) by (auto simp: rows_ok_def)
  moreover have "or_idempotency_key (store_row (pg_order v rows) (new_row v)) \<noteq> Some []"
    by (simp add: store_row_def new_row_def nullableIdempotencyKey_def)
  ultimately have "\<forall>r \<in> set (pg_rows v rows). row_ok r \<and> or_idempotency_key r \<noteq> Some []"
    using assms(2) new_row_ok [OF assms(1,2)] by (auto simp: pg_rows_fill rows_ok_def)
  then show ?thesis using assms(2,3) ids by (auto simp: rows_ok_def orderTaken_def)
qed

section \<open>When the server refuses nothing\<close>

text \<open>\<^verbatim>\<open>gen_random_uuid()\<close> returns values not used before.\<close>

definition uuids_fresh :: "db \<Rightarrow> bool" where
  "uuids_fresh d \<longleftrightarrow> inj_on (db_uuids d) {n. db_uuid_next d \<le> n}
     \<and> (\<forall>t \<in> set (db_trades d). \<forall>n \<ge> db_uuid_next d. tr_id t \<noteq> db_uuids d n)"

lemma uuids_fresh_cong:
  "db_uuids d' = db_uuids d \<Longrightarrow> db_uuid_next d' = db_uuid_next d \<Longrightarrow> db_trades d' = db_trades d \<Longrightarrow> uuids_fresh d' = uuids_fresh d"
  by (simp add: uuids_fresh_def)

lemma insertTrade_fine:
  assumes "uuids_fresh d" "0 < n" "0 < p" "p < PriceScale" "i \<noteq> j"
  shows "\<exists>d'. insertTrade all_fine m i j n p t d = (Inr (), d') \<and> uuids_fresh d'"
proof -
  define r where "r = \<lparr>tr_id = db_uuids d (db_uuid_next d), tr_market_id = m, tr_maker_order_id = i,
    tr_taker_order_id = j, tr_shares = n, tr_matched_price = p, tr_created_at = stamp t\<rparr>"
  have "\<not> list_ex (\<lambda>t. tr_id t = db_uuids d (db_uuid_next d)) (db_trades d)"
    using assms(1) by (auto simp: uuids_fresh_def list_ex_iff)
  then have "insertTrade all_fine m i j n p t d
      = (Inr (), d\<lparr>db_uuid_next := Suc (db_uuid_next d), db_trades := db_trades d @ [r]\<rparr>)"
    using assms(2-5) by (simp add: insertTrade_def freshUUID_def r_def)
  moreover have "uuids_fresh (d\<lparr>db_uuid_next := Suc (db_uuid_next d), db_trades := db_trades d @ [r]\<rparr>)"
    using assms(1) by (auto simp: uuids_fresh_def r_def inj_on_def) (metis Suc_leD le_refl not_less_eq_eq)
  ultimately show ?thesis by blast
qed

lemma placeFill_fine:
  assumes "exact v" "row_ok r" "open_row r" "0 < rem v" "x = min (rem v) (remaining r)" "or_id r \<noteq> o_ID v" "uuids_fresh d"
  shows "\<exists>d'. placeFill all_fine (rem v) v (order_of_row r) d = (Inr (refund_of v (order_of_row r) x, taken x v), d')
    \<and> uuids_fresh d'"
proof -
  note eq = placeFill_eq [OF assms(1-4) HOL.refl assms(5)]
  have p: "0 < or_price r" "or_price r < PriceScale" using assms(2) by (simp_all add: row_ok_def)
  have r: "x \<le> rem (order_of_row r)" using eq(2) row_order_ok(5) [OF assms(2)] by simp
  note ex = exact_apply_fill [OF row_exact [OF assms(2)] less_imp_le [OF eq(1)] r, of "o_CreatedAt v"]
  from insertTrade_fine [OF assms(7) eq(1) p assms(6), of "o_MarketID v" "o_CreatedAt v"]
  obtain d1 where d1: "insertTrade all_fine (o_MarketID v) (or_id r) (o_ID v) x (or_price r) (o_CreatedAt v) d = (Inr (), d1)"
    "uuids_fresh d1" by blast
  then show ?thesis unfolding eq(4)
    by (simp add: updateStoredOrder_exact [OF ex(1)] uuids_fresh_cong [of "d1\<lparr>db_orders := y\<rparr>" d1 for y])
qed

lemma placeMakers_fine:
  assumes "exact v" "\<forall>r \<in> set rs. row_ok r \<and> open_row r \<and> or_id r \<noteq> o_ID v" "uuids_fresh d"
  shows "\<exists>c' v' d'. placeMakers all_fine (map order_of_row rs) v c d = (Inr (c', v'), d')"
  using assms
proof (induction rs arbitrary: v c d)
  case (Cons r rs)
  note v = Cons.prems(1)
  show ?case
  proof (cases "rem v = 0")
    case False
    define x where "x = min (rem v) (remaining r)"
    have r0: "0 < rem v" using False rem_bounds [OF v] by simp
    from placeFill_fine [OF v _ _ r0 x_def _ Cons.prems(3), of] Cons.prems(2)
    obtain d1 where d1: "placeFill all_fine (rem v) v (order_of_row r) d = (Inr (refund_of v (order_of_row r) x, taken x v), d1)"
      "uuids_fresh d1" by auto
    have "0 < x" "x \<le> rem v" using placeFill_eq(1,3) [OF v _ _ r0 HOL.refl x_def] Cons.prems(2) by auto
    then have "exact (taken x v)" using taken_exact(1) [OF v] by simp
    from Cons.IH [OF this _ d1(2)] Cons.prems(2) show ?thesis
      using exact_rem [OF v] False d1(1) by (simp del: all_fine_simps)
  qed (use exact_rem [OF v] in simp)
qed simp

lemma find_own:
  assumes "wallets_ok ws"
  shows "rowsAffected (\<lambda>w. ownWallet v w \<and> q w) ws > 0 \<longleftrightarrow> (\<exists>w. find (ownWallet v) ws = Some w \<and> q w)"
proof
  assume "rowsAffected (\<lambda>w. ownWallet v w \<and> q w) ws > 0"
  then obtain w where w: "w \<in> set ws" "ownWallet v w" "q w" by (auto simp: rowsAffected_pos)
  then have "find (ownWallet v) ws \<noteq> None" by (auto simp: find_None_iff)
  then obtain w' where w': "find (ownWallet v) ws = Some w'" by auto
  have "w = w'" using own_unique [OF assms w(1) _ w(2)] find_SomeD [OF w'] by simp
  then show "\<exists>w. find (ownWallet v) ws = Some w \<and> q w" using w(3) w' by simp
next
  assume "\<exists>w. find (ownWallet v) ws = Some w \<and> q w"
  then obtain w where "find (ownWallet v) ws = Some w" "q w" by blast
  with find_SomeD [OF this(1)] show "rowsAffected (\<lambda>w. ownWallet v w \<and> q w) ws > 0"
    unfolding rowsAffected_pos by blast
qed

lemma lockOrderWallet_fine:
  assumes "wallets_ok (db_wallets d)" "0 \<le> c"
  shows "fst (lockOrderWallet all_fine v c d) = (case find (ownWallet v) (db_wallets d) of
      None \<Rightarrow> Inl (Sentinel WalletErrNotFound)
    | Some w \<Rightarrow> if c \<le> wl_balance w then Inr () else Inl (Sentinel WalletErrInsufficientBalance))"
  using find_own [OF assms(1), of v "\<lambda>w. c \<le> wl_balance w"] assms(2)
  by (cases "rowsAffected (\<lambda>w. ownWallet v w \<and> c \<le> wl_balance w) (db_wallets d) > 0")
    (auto simp: lockOrderWallet_def requireOrderWalletUpdate_def Let_def updateWhere_none split: option.split)

lemma unlockOrderWallet_fine:
  assumes "wallets_ok (db_wallets d)" "0 \<le> c"
  shows "fst (unlockOrderWallet all_fine v c d) = (case find (ownWallet v) (db_wallets d) of
      None \<Rightarrow> Inl (Sentinel WalletErrNotFound)
    | Some w \<Rightarrow> if c \<le> wl_locked_balance w then Inr () else Inl (Sentinel WalletErrInsufficientLocked))"
  using find_own [OF assms(1), of v "\<lambda>w. c \<le> wl_locked_balance w"] assms(2)
  by (cases "rowsAffected (\<lambda>w. ownWallet v w \<and> c \<le> wl_locked_balance w) (db_wallets d) > 0")
    (auto simp: unlockOrderWallet_def requireOrderWalletUpdate_def Let_def updateWhere_none split: option.split)

lemma find_moved:
  assumes "map untimedWallet ws' = map (moved v c) ws"
  shows "map_option untimedWallet (find (ownWallet v) ws') = map_option (moved v c) (find (ownWallet v) ws)"
proof -
  have f: "find (ownWallet v) (map untimedWallet xs) = map_option untimedWallet (find (ownWallet v) xs)"
    "find (ownWallet v) (map (moved v c) xs) = map_option (moved v c) (find (ownWallet v) xs)" for xs
    by (induction xs) (simp_all add: own_moved)
  show ?thesis using assms by (simp add: f [symmetric])
qed

text \<open>How a placement with collateral ends, decided by the tables it starts on.\<close>

definition place_outcome :: "order \<Rightarrow> int \<Rightarrow> db \<Rightarrow> (float64 \<times> order) res" where
  "place_outcome v c d =
     (if \<not> (\<exists>m. find (\<lambda>m. mr_id m = o_MarketID v) (db_markets d) = Some m
            \<and> mr_status m = ''active'' \<and> mr_merchant_id m = o_MerchantID v)
      then Inl (Sentinel OrderErrInvalidMarket)
      else case find (ownWallet v) (db_wallets d) of
          None \<Rightarrow> Inl (Sentinel WalletErrNotFound)
        | Some w \<Rightarrow>
            if wl_balance w < c then Inl (Sentinel WalletErrInsufficientBalance)
            else if \<exists>r \<in> set (db_orders d). orderTaken v r then Inl (Sentinel OrderErrAlreadyExists)
            else if 0 < released v (db_orders d) \<and> wl_locked_balance w + c < released v (db_orders d)
            then Inl (Sentinel WalletErrInsufficientLocked)
            else Inr (CentsToFloat (pg_refund v (db_orders d)), pg_order v (db_orders d)))"

text \<open>The placement up to the release of what is not used.\<close>

definition matchTx :: "faults \<Rightarrow> order \<Rightarrow> db \<Rightarrow> (int \<times> order) res \<times> db" where
  "matchTx fault v d =
     andThen (insertOrder fault v d) (\<lambda>_ d2.
     andThen (queryMatchingOrders fault v d2, d2) (\<lambda>candidates d3.
     andThen (placeMakers fault candidates v 0 d3) (\<lambda>(priceImprovement, incoming1) d4.
     andThen (case settleTaker incoming1 of (r, v) \<Rightarrow> (map_sum id (\<lambda>_. v) r, d4)) (\<lambda>incoming2 d5.
     andThen (updateStoredOrder fault incoming2 d5) (\<lambda>_ d6.
     andThen (addMatchedVolume fault incoming2 d6) (\<lambda>_ d7.
       (Inr (priceImprovement, incoming2), d7)))))))"

lemma andThen_andThen: "andThen (andThen p f) g = andThen p (\<lambda>x s. andThen (f x s) g)"
  by (cases p; cases "fst p") auto

lemma andThen_split: "andThen p (\<lambda>(x, y). f x y) = andThen p (\<lambda>z. f (fst z) (snd z))"
  by (simp add: case_prod_beta')

lemma placeTx_match:
  "placeTx fault v c True d = andThen (lockOrderMarket fault v d, d) (\<lambda>_ d0.
     andThen (lockOrderWallet fault v c d0) (\<lambda>_ d1.
     andThen (matchTx fault v d1) (\<lambda>z d7.
     andThen (releaseUnused fault (snd z) (fst z) d7) (\<lambda>_ d8. (Inr (CentsToFloat (fst z), snd z), d8)))))"
  unfolding placeTx_def matchTx_def andThen_andThen by (simp add: andThen_andThen case_prod_beta')

lemma matchTx_fine:
  assumes "exact v" "fil v = 0" "rows_ok (db_orders d)" "uuids_fresh d"
  shows "fst (matchTx all_fine v d) = (if \<exists>r \<in> set (db_orders d). orderTaken v r
      then Inl (Sentinel OrderErrAlreadyExists) else Inr (pg_refund v (db_orders d), pg_order v (db_orders d)))"
    "db_wallets (snd (matchTx all_fine v d)) = db_wallets d"
proof -
  define rows where "rows = db_orders d"
  have "fst (matchTx all_fine v d) = (if \<exists>r \<in> set rows. orderTaken v r
      then Inl (Sentinel OrderErrAlreadyExists) else Inr (pg_refund v rows, pg_order v rows))
    \<and> db_wallets (snd (matchTx all_fine v d)) = db_wallets d"
  proof (cases "\<exists>r \<in> set rows. orderTaken v r")
    case True
    then show ?thesis
      by (simp add: matchTx_def insertOrder_exact [OF assms(1)] list_ex_iff rows_def [symmetric] del: all_fine_simps)
        (simp add: all_fine_def)
  next
    case False
    define d2 where "d2 = d\<lparr>db_orders := rows @ [new_row v]\<rparr>"
    have i: "insertOrder all_fine v d = (Inr (), d2)"
      using False by (simp add: insertOrder_exact [OF assms(1)] list_ex_iff rows_def [symmetric] d2_def)
    have fresh: "\<forall>r \<in> set rows. or_id r \<noteq> o_ID v" using False by (auto simp: orderTaken_def)
    note rok = assms(3) [folded rows_def] and mk = match_rows_ok [OF assms(3) [folded rows_def], of v]
    have q: "queryMatchingOrders all_fine v d2 = Inr (map order_of_row (match_rows v rows))"
      using mk(1) by (simp add: queryMatching_ok [OF assms(1)] d2_def)
    have "uuids_fresh d2" using assms(4) by (simp add: d2_def uuids_fresh_def)
    from placeMakers_fine [OF assms(1) _ this, of "match_rows v rows" 0] mk(1) fresh
    obtain c' v1 d4 where pm: "placeMakers all_fine (map order_of_row (match_rows v rows)) v 0 d2 = (Inr (c', v1), d4)"
      by blast
    have r0: "0 \<le> rem v" "rem v \<le> 2 ^ 40" using rem_bounds [OF assms(1)] by (simp_all add: shareCap_def)
    have "c' = 0 + fill_refund v (match_rows v rows) (pg_fills v rows) \<and> v1 = taken (sum_list (pg_fills v rows)) v
      \<and> (\<exists>ts k. d4 = d2\<lparr>db_orders := fill_rows (o_CreatedAt v) (match_rows v rows) (pg_fills v rows) (db_orders d2),
          db_trades := db_trades d2 @ ts, db_uuid_next := k\<rparr>
        \<and> map trade_view ts = fill_trades (o_MarketID v) (o_ID v) (match_rows v rows) (pg_fills v rows))"
    proof (rule placeMakers_Inr [OF pm assms(1)])
      show "\<forall>r \<in> set (match_rows v rows). row_ok r \<and> open_row r \<and> r \<in> set (db_orders d2)" using mk(1) d2_def by auto
      show "distinct (map or_id (db_orders d2))" using rok fresh by (auto simp: d2_def rows_ok_def new_row_def)
    qed (use mk(2) r0 in \<open>simp_all add: pg_fills_def\<close>)
    then have rf: "c' = pg_refund v rows" "v1 = taken (sum_list (pg_fills v rows)) v" "db_wallets d4 = db_wallets d"
      by (auto simp: pg_refund_def d2_def)
    note o = pg_order_exact [OF assms(1) rok]
    have st: "settleTaker v1 = (Inr (), pg_order v rows)"
      using settleTaker_spec [OF taken_exact(1) [OF assms(1) pg_bounds(3,4) [OF assms(1) rok]]] rf(2) by (simp add: pg_order_def)
    have vol: "\<exists>ms. addMatchedVolume all_fine (pg_order v rows) d' = (Inr (), d'\<lparr>db_markets := ms\<rparr>)" for d'
      using exact_units [OF o(2)] by (auto simp: addMatchedVolume_def intro: exI [of _ "db_markets d'"])
    obtain ms where ms: "addMatchedVolume all_fine (pg_order v rows)
        (d4\<lparr>db_orders := updateWhere (\<lambda>r. or_id r = o_ID (pg_order v rows)) (store_row (pg_order v rows)) (db_orders d4)\<rparr>)
      = (Inr (), d4\<lparr>db_orders := updateWhere (\<lambda>r. or_id r = o_ID (pg_order v rows)) (store_row (pg_order v rows)) (db_orders d4),
          db_markets := ms\<rparr>)"
      using vol by blast
    have u: "updateStoredOrder all_fine (pg_order v rows) d4 = (Inr (),
        d4\<lparr>db_orders := updateWhere (\<lambda>r. or_id r = o_ID (pg_order v rows)) (store_row (pg_order v rows)) (db_orders d4)\<rparr>)"
      by (simp add: updateStoredOrder_exact [OF o(2)])
    show ?thesis using False rf(1,3)
      by (simp add: matchTx_def i q pm st u ms del: all_fine_simps)
  qed
  then show "fst (matchTx all_fine v d) = (if \<exists>r \<in> set (db_orders d). orderTaken v r
      then Inl (Sentinel OrderErrAlreadyExists) else Inr (pg_refund v (db_orders d), pg_order v (db_orders d)))"
    "db_wallets (snd (matchTx all_fine v d)) = db_wallets d" by (simp_all add: rows_def)
qed

lemma placeTx_fine:
  assumes "exact v" "fil v = 0" "rows_ok (db_orders d)" "wallets_ok (db_wallets d)" "0 \<le> c" "uuids_fresh d"
  shows "fst (placeTx all_fine v c True d) = place_outcome v c d"
proof -
  define rows where "rows = db_orders d"
  define lk where "lk = lockOrderWallet all_fine v c d"
  have lm: "lockOrderMarket all_fine v d = (if \<exists>m. find (\<lambda>m. mr_id m = o_MarketID v) (db_markets d) = Some m
      \<and> mr_status m = ''active'' \<and> mr_merchant_id m = o_MerchantID v then Inr () else Inl (Sentinel OrderErrInvalidMarket))"
    by (simp add: lockOrderMarket_def split: option.split)
  note lf = lockOrderWallet_fine [OF assms(4,5), of v, folded lk_def]
  show ?thesis
  proof (cases "\<exists>w. find (ownWallet v) (db_wallets d) = Some w \<and> c \<le> wl_balance w")
    case False
    then have "\<exists>err. fst lk = Inl err" using lf by (auto split: option.splits)
    then obtain err d1 where "lk = (Inl err, d1)" by (cases lk) auto
    then show ?thesis
      using False lf lm by (auto simp: placeTx_match place_outcome_def lk_def [symmetric] split: option.splits)
  next
    case True
    then obtain w where w: "find (ownWallet v) (db_wallets d) = Some w" "c \<le> wl_balance w" by blast
    then have "fst lk = Inr ()" using lf by simp
    then obtain d1 where d1: "lk = (Inr (), d1)" by (cases lk) auto
    from lockOrderWallet_Inr(1) [OF d1 [unfolded lk_def] assms(4,5)]
    obtain ws where ws: "d1 = d\<lparr>db_wallets := ws\<rparr>" "map untimedWallet ws = map (moved v c) (db_wallets d)" by blast
    have u1: "uuids_fresh d1" using assms(6) ws(1) by (simp add: uuids_fresh_def)
    have o1: "db_orders d1 = rows" using ws(1) by (simp add: rows_def)
    note m = matchTx_fine [OF assms(1,2) _ u1, unfolded o1, OF assms(3) [folded rows_def]]
    obtain x d7 where x: "matchTx all_fine v d1 = (x, d7)" by fastforce
    have w7: "db_wallets d7 = ws" using m(2) x ws(1) by simp
    have wok: "wallets_ok (db_wallets d7)" using wallets_ok_moved [OF ws(2) assms(4)] w7 by simp
    have own: "ownWallet (pg_order v rows) = ownWallet v" by (simp add: pg_order_def)
    obtain w' where w': "find (ownWallet v) ws = Some w'" "wl_locked_balance w' = wl_locked_balance w + c"
    proof -
      have f: "map_option untimedWallet (find (ownWallet v) ws) = Some (moved v c w)"
        using find_moved [OF ws(2)] w(1) by simp
      then obtain w' where "find (ownWallet v) ws = Some w'" "untimedWallet w' = moved v c w" by auto
      moreover have "wl_locked_balance (untimedWallet w') = wl_locked_balance w'" by (simp add: untimedWallet_def)
      moreover have "ownWallet v w" using find_SomeD [OF w(1)] by simp
      ultimately show thesis using that by (simp add: moved_def)
    qed
    have rel: "fst (releaseUnused all_fine (pg_order v rows) (pg_refund v rows) d7)
        = (if 0 < released v rows \<and> wl_locked_balance w + c < released v rows
           then Inl (Sentinel WalletErrInsufficientLocked) else Inr ())"
      using unlockOrderWallet_fine [OF wok released_nonneg(1) [OF assms(1,3), folded rows_def], of "pg_order v rows"] w' w7 own
      by (auto simp: releaseUnused_eq [OF assms(1,3), folded rows_def])
    have "placeTx all_fine v c True d = andThen (lockOrderMarket all_fine v d, d) (\<lambda>_ _.
        andThen (x, d7) (\<lambda>z d7. andThen (releaseUnused all_fine (snd z) (fst z) d7)
          (\<lambda>_ d8. (Inr (CentsToFloat (fst z), snd z), d8))))"
      unfolding placeTx_match using lm d1 x by (simp add: lk_def [symmetric] andThen_def)
    moreover obtain y d8 where "releaseUnused all_fine (pg_order v rows) (pg_refund v rows) d7 = (y, d8)" by fastforce
    ultimately show ?thesis
      using lm m(1) x rel w by (auto simp: place_outcome_def rows_def [symmetric])
  qed
qed

end
