(* ===== verification/OrderPgProps.thy ===== *)
theory OrderPgProps
  imports OrderPgInv
begin

text \<open>
  The placement and the cancellation on the tables against the in-memory repository: the
  candidates of the query are its candidates in its order, the fills are its fills, and the
  book of the tables becomes its book.
\<close>

lemma matchesRow_candidate:
  assumes "exact v" "row_ok r" "or_id r \<noteq> o_ID v"
  shows "matchesRow v (prc v) r \<longleftrightarrow> isCandidate v (order_of_row r)"
proof -
  have p: "price (o_Price v) (prc v)" "price (o_Price (order_of_row r)) (or_price r)"
    using assms(1) row_exact [OF assms(2)] row_order_ok(4) [OF assms(2)] by (auto simp: exact_def)
  have t: "o_Type v = ''buy'' \<or> o_Type v = ''sell''" using assms(1) by (simp add: exact_def)
  show ?thesis
    using assms(3) t price_compare(3) [OF p] price_compare(3) [OF p(2,1)]
    by (auto simp: matchesRow_def isCandidate_def sameBook_def crosses_def open_row_def)
qed

lemma matchedBefore_better:
  assumes "row_ok a" "row_ok b" "side = ''buy'' \<or> side = ''sell''"
  shows "betterMaker side (order_of_row a) (order_of_row b) = matchedBefore side a b"
proof -
  have p: "price (o_Price (order_of_row a)) (or_price a)" "price (o_Price (order_of_row b)) (or_price b)"
    using row_exact [OF assms(1)] row_order_ok(4) [OF assms(1)] row_exact [OF assms(2)] row_order_ok(4) [OF assms(2)]
    by (auto simp: exact_def)
  show ?thesis
    using assms(3) price_compare [OF p] price_compare(1) [OF p(2,1)]
    by (auto simp: betterMaker_def matchedBefore_def)
qed

lemma candidates_rows:
  assumes "exact v" "rows_ok (db_orders d)" "\<forall>r \<in> set (db_orders d). or_id r \<noteq> o_ID v"
  shows "matchingCandidates v (put (o_ID v) v (book d)) = map order_of_row (match_rows v (db_orders d))"
proof -
  have t: "o_Type v = ''buy'' \<or> o_Type v = ''sell''" using assms(1) by (simp add: exact_def)
  have "o_ID v \<notin> keys (book d)" using assms(3) by (auto simp: keys_def book_def)
  then have "map snd (put (o_ID v) v (book d)) = map order_of_row (db_orders d) @ [v]"
    using map_snd_book [of d] by (simp add: put_fresh)
  moreover have "filter (isCandidate v) (map order_of_row rs) = map order_of_row (filter (matchesRow v (prc v)) rs)"
    if "\<forall>r \<in> set rs. row_ok r \<and> or_id r \<noteq> o_ID v" for rs
    using that by (induction rs) (simp_all add: matchesRow_candidate [OF assms(1)])
  ultimately have "filter (isCandidate v) (map snd (put (o_ID v) v (book d)))
      = map order_of_row (filter (matchesRow v (prc v)) (db_orders d))"
    using assms(2,3) by (simp add: rows_ok_def isCandidate_def)
  moreover have "\<forall>a \<in> set (filter p (db_orders d)). \<forall>b \<in> set (filter p (db_orders d)).
      betterMaker (o_Type v) (order_of_row a) (order_of_row b) = matchedBefore (o_Type v) a b" for p
    using matchedBefore_better [OF _ _ t] assms(2) by (simp add: rows_ok_def)
  from sort_by_map_on [where lt' = "betterMaker (o_Type v)" and f = order_of_row, OF this]
  have "sort_by (betterMaker (o_Type v)) (map order_of_row (filter (matchesRow v (prc v)) (db_orders d)))
      = map order_of_row (match_rows v (db_orders d))"
    unfolding match_rows_def .
  ultimately show ?thesis unfolding matchingCandidates_def by simp
qed

lemma look_row:
  assumes "rows_ok (db_orders d)" "r \<in> set (db_orders d)" "or_id r \<noteq> o_ID v"
  shows "look (put (o_ID v) v (book d)) (or_id r) = order_of_row r"
  using map_of_book_row [OF assms(1,2)] assms(3) by (simp add: look_def)

lemma place_rows:
  assumes "exact v" "rows_ok (db_orders d)" "\<forall>r \<in> set (db_orders d). or_id r \<noteq> o_ID v"
  shows "place_mids v (book d) = map or_id (match_rows v (db_orders d))"
    "place_fills v (book d) = pg_fills v (db_orders d)"
    "place_refund v (book d) = pg_refund v (db_orders d)"
    "placed_order v (book d) = pg_order v (db_orders d)"
proof -
  define rs where "rs = match_rows v (db_orders d)"
  show m: "place_mids v (book d) = map or_id (match_rows v (db_orders d))"
    by (simp add: place_mids_def maker_ids_def candidates_rows [OF assms] o_def)
  have l: "\<forall>r \<in> set rs. look (put (o_ID v) v (book d)) (or_id r) = order_of_row r \<and> rem (order_of_row r) = remaining r"
    using match_rows_ok(1) [OF assms(2), of v] look_row [OF assms(2)] assms(3) row_order_ok(5) by (auto simp: rs_def)
  then have e: "map (\<lambda>k. rem (look (put (o_ID v) v (book d)) k)) (map or_id rs) = map remaining rs" by simp
  show f: "place_fills v (book d) = pg_fills v (db_orders d)"
    unfolding place_fills_def match_fills_def pg_fills_def fills_def m rs_def [symmetric] e ..
  have "(\<Sum>(k, x) \<leftarrow> zip (map or_id rs) xs. refund_of v (look (put (o_ID v) v (book d)) k) x) = fill_refund v rs xs" for xs
    unfolding fill_refund_def zip_map1 using l
    by (intro arg_cong [where f = sum_list]) (auto dest!: set_zip_leftD)
  then show "place_refund v (book d) = pg_refund v (db_orders d)"
    using f [unfolded place_fills_def] by (simp add: place_refund_def match_refund_def m pg_refund_def rs_def)
  show "placed_order v (book d) = pg_order v (db_orders d)"
    by (simp add: placed_order_def pg_order_def taken_def f)
qed

text \<open>An order with its times as the columns keep them, in microseconds.\<close>

definition micro :: "order \<Rightarrow> order" where
  "micro v = v\<lparr>o_CreatedAt := stamp (o_CreatedAt v), o_FilledAt := map_option stamp (o_FilledAt v)\<rparr>"

lemma micro_simps [simp]:
  "o_ID (micro v) = o_ID v" "o_MerchantID (micro v) = o_MerchantID v" "o_UserID (micro v) = o_UserID v"
  "o_MarketID (micro v) = o_MarketID v" "o_Type (micro v) = o_Type v" "o_Option (micro v) = o_Option v"
  "o_Amount (micro v) = o_Amount v" "o_FilledAmount (micro v) = o_FilledAmount v" "o_Currency (micro v) = o_Currency v"
  "o_Price (micro v) = o_Price v" "o_TimeInForce (micro v) = o_TimeInForce v" "o_Status (micro v) = o_Status v"
  "o_IdempotencyKey (micro v) = o_IdempotencyKey v" "o_CreatedAt (micro v) = stamp (o_CreatedAt v)"
  "o_FilledAt (micro v) = map_option stamp (o_FilledAt v)"
  "exact (micro v) = exact v" "amt (micro v) = amt v" "fil (micro v) = fil v" "prc (micro v) = prc v" "rem (micro v) = rem v"
  by (simp_all add: micro_def exact_def amt_def fil_def prc_def rem_def)

text \<open>The rows a placement leaves do not tell the two apart.\<close>

lemma micro_rows:
  "match_rows (micro v) rows = match_rows v rows" "pg_fills (micro v) rows = pg_fills v rows"
  "pg_refund (micro v) rows = pg_refund v rows" "pg_order (micro v) rows = micro (pg_order v rows)"
  "pg_rows (micro v) rows = pg_rows v rows" "orderTaken (micro v) = orderTaken v"
proof -
  have "matchesRow (micro v) p = matchesRow v p" for p by (simp add: matchesRow_def fun_eq_iff)
  then show m: "match_rows (micro v) rows = match_rows v rows" by (simp add: match_rows_def)
  then show f: "pg_fills (micro v) rows = pg_fills v rows" by (simp add: pg_fills_def)
  have "refund_of (micro v) w x = refund_of v w x" for w x by (simp add: refund_of_def)
  then show "pg_refund (micro v) rows = pg_refund v rows" using m f by (simp add: pg_refund_def fill_refund_def)
  have "taken n (micro v) = micro (taken n v)" for n
    by (simp add: taken_def add_fill_def)
  moreover have "finish (micro w) = micro (finish w)" for w
    by (simp add: finish_def)
  ultimately have "finish (taken n (micro v)) = micro (finish (taken n v))" for n by simp
  then show o: "pg_order (micro v) rows = micro (pg_order v rows)" using f by (simp add: pg_order_def)
  have "fill_row (stamp t) x r = fill_row t x r" for t x r by (simp add: fill_row_def)
  then have "fill_rows (stamp t) rs xs rows = fill_rows t rs xs rows" for t rs xs by (simp add: fill_rows_def)
  moreover have "store_row (micro w) r = store_row w r" for w r
    by (cases "o_FilledAt w") (simp_all add: store_row_def)
  moreover have "new_row (micro v) = new_row v" by (simp add: new_row_def option.map_comp o_def)
  ultimately show "pg_rows (micro v) rows = pg_rows v rows" using m f o by (simp add: pg_rows_def)
  show "orderTaken (micro v) = orderTaken v" by (simp add: orderTaken_def fun_eq_iff)
qed

lemma order_of_new_row:
  assumes "exact v" "rows_ok rows" "stamp (o_CreatedAt v) = o_CreatedAt v" "o_FilledAt v = None"
  shows "order_of_row (store_row (pg_order v rows) (new_row v)) = pg_order v rows"
proof -
  note o = pg_order_exact [OF assms(1,2)]
  have "SharesToFloat (amt v) = o_Amount (pg_order v rows)" "SharesToFloat (fil (pg_order v rows)) = o_FilledAmount (pg_order v rows)"
    "PriceToFloat (prc v) = o_Price (pg_order v rows)"
    using o(2,4,5) by (simp_all add: exact_def shares_def price_def)
  moreover have "map_option stamp (o_FilledAt (pg_order v rows)) = o_FilledAt (pg_order v rows)"
    using assms(3,4) by (auto simp: pg_order_def finish_def)
  moreover have "(case nullableIdempotencyKey k of None \<Rightarrow> [] | Some k \<Rightarrow> k) = k" for k
    by (simp add: nullableIdempotencyKey_def)
  moreover have "o_MerchantID (pg_order v rows) = o_MerchantID v" "o_UserID (pg_order v rows) = o_UserID v"
    "o_Option (pg_order v rows) = o_Option v" "o_Currency (pg_order v rows) = o_Currency v"
    "o_TimeInForce (pg_order v rows) = o_TimeInForce v" "o_IdempotencyKey (pg_order v rows) = o_IdempotencyKey v"
    "o_CreatedAt (pg_order v rows) = o_CreatedAt v"
    by (simp_all add: pg_order_def finish_def taken_def add_fill_def)
  ultimately show ?thesis using o(7-9) assms(3)
    by (cases "pg_order v rows") (simp add: order_of_row_def store_row_def new_row_def)
qed

lemma find_map: "(\<And>r. p (f r) = p r) \<Longrightarrow> find p (map f rs) = map_option f (find p rs)"
  by (induction rs) simp_all

lemma book_placed:
  assumes "exact v" "rows_ok (db_orders d)" "\<forall>r \<in> set (db_orders d). \<not> orderTaken v r"
    "stamp (o_CreatedAt v) = o_CreatedAt v" "o_FilledAt v = None" "db_orders d' = pg_rows v (db_orders d)"
  shows "map_of (book d') = placed v (book d)"
proof
  fix k
  define rows where "rows = db_orders d"
  have fresh: "\<forall>r \<in> set rows. or_id r \<noteq> o_ID v" using assms(3) by (auto simp: orderTaken_def rows_def)
  note rok = assms(2) [folded rows_def]
  note pl = place_rows [OF assms(1,2) fresh [unfolded rows_def], folded rows_def]
  have ok': "rows_ok (db_orders d')" using pg_rows_ok [OF assms(1) rok] assms(3,6) by (simp add: rows_def)
  have f: "find (\<lambda>r. or_id r = k) (db_orders d') = (case find (\<lambda>r. or_id r = k) rows of
      Some r \<Rightarrow> Some (fill_row (o_CreatedAt v) (fill_in v rows r) r)
    | None \<Rightarrow> if k = o_ID v then Some (store_row (pg_order v rows) (new_row v)) else None)"
  proof -
    have app: "find p (xs @ ys) = (case find p xs of None \<Rightarrow> find p ys | Some r \<Rightarrow> Some r)" for p and xs ys :: "orderRow list"
      by (induction xs) simp_all
    have m: "find (\<lambda>r. or_id r = k) (map (\<lambda>r. fill_row (o_CreatedAt v) (fill_in v rows r) r) rows)
        = map_option (\<lambda>r. fill_row (o_CreatedAt v) (fill_in v rows r) r) (find (\<lambda>r. or_id r = k) rows)"
      by (rule find_map) simp
    show ?thesis
      by (simp add: assms(6) rows_def [symmetric] pg_rows_fill app m store_row_def new_row_def split: option.split)
  qed
  show "map_of (book d') k = placed v (book d) k"
  proof (cases "k = o_ID v")
    case True
    then have "find (\<lambda>r. or_id r = k) rows = None" using fresh by (simp add: find_None_iff)
    then show ?thesis
      using True f map_of_book [OF ok', of k] order_of_new_row [OF assms(1) rok assms(4,5)] pl(4) by (simp add: placed_def)
  next
    case False
    have "map_of (book d') k = map_option (\<lambda>r. apply_fill (o_CreatedAt v) (fill_in v rows r) (order_of_row r))
        (find (\<lambda>r. or_id r = k) rows)"
      using f False map_of_book [OF ok', of k] order_of_fill_row [OF _ fill_in_bounds [OF assms(1) rok] assms(4)] rok
      by (auto simp: rows_ok_def dest: find_SomeD split: option.split)
    also have "\<dots> = (case map_of (zip (place_mids v (book d)) (place_fills v (book d))) k of
        Some x \<Rightarrow> map_option (apply_fill (o_CreatedAt v) x) (map_of (book d) k) | None \<Rightarrow> map_of (book d) k)"
    proof (cases "find (\<lambda>r. or_id r = k) rows")
      case (Some r)
      then have "or_id r = k" "map_of (book d) k = Some (order_of_row r)"
        using map_of_book [OF assms(2), of k] find_SomeD [OF Some] by (simp_all add: rows_def)
      then show ?thesis using Some by (simp add: pl(1,2) fill_in_def fill_at_def split: option.split)
    qed (use map_of_book [OF assms(2), of k] in \<open>simp add: rows_def split: option.split\<close>)
    also have "\<dots> = placed v (book d) k" using False by (simp add: placed_def)
    finally show ?thesis .
  qed
qed

lemma not_taken_memory:
  assumes "\<forall>r \<in> set (db_orders d). \<not> orderTaken v r"
  shows "map_of (book d) (o_ID v) = None"
    "o_IdempotencyKey v = [] \<or> \<not> idempotencyTaken (o_MerchantID v) (o_IdempotencyKey v) (book d)"
proof -
  show "map_of (book d) (o_ID v) = None"
    using assms map_of_bookD [of d "o_ID v"] by (cases "map_of (book d) (o_ID v)") (auto simp: orderTaken_def)
  show "o_IdempotencyKey v = [] \<or> \<not> idempotencyTaken (o_MerchantID v) (o_IdempotencyKey v) (book d)"
  proof (rule ccontr)
    assume a: "\<not> ?thesis"
    then obtain r where r: "r \<in> set (db_orders d)" "or_merchant_id r = o_MerchantID v"
      "o_IdempotencyKey (order_of_row r) = o_IdempotencyKey v" "o_IdempotencyKey v \<noteq> []"
      by (auto simp: idempotencyTaken_def list_ex_iff book_def)
    then have "or_idempotency_key r = Some (o_IdempotencyKey v)"
      by (auto simp: order_of_row_def split: option.splits)
    then show False using r assms by (auto simp: orderTaken_def nullableIdempotencyKey_def)
  qed
qed

lemma place_refines:
  assumes "orderPgPlaceCollateral fault v c lock d = (Inr (p, v'), d')" "exact v" "fil v = 0" "o_Status v = ''pending''"
    "o_FilledAt v = None" "rows_ok (db_orders d)" "wallets_ok (db_wallets d)" "0 \<le> c"
  shows "rows_ok (db_orders d')"
    "\<exists>os. orderRepoPlace False (micro v) (book d) = (Inr (p, micro v'), os) \<and> map_of os = map_of (book d')"
proof -
  have "placeTx fault v c lock d = (Inr (p, v'), d')" using assms(1) by (simp add: orderPgPlaceCollateral_def inTx_Inr)
  note e = placeTx_Inr [OF this assms(2,3,6-8)]
  have o: "db_orders d' = pg_rows (micro v) (db_orders d)" using e(3) by (auto simp: placed_effect_def micro_rows)
  have x: "exact (micro v)" using assms(2) by simp
  have t: "\<forall>r \<in> set (db_orders d). \<not> orderTaken (micro v) r" using e(4) by (simp add: micro_rows)
  show "rows_ok (db_orders d')" using pg_rows_ok [OF x assms(6) t] o by simp
  have fresh: "fresh_order (micro v) (book d)"
    using not_taken_memory [OF t] assms(2-4) by (simp add: fresh_order_def)
  have ids: "\<forall>r \<in> set (db_orders d). or_id r \<noteq> o_ID (micro v)" using e(4) by (auto simp: orderTaken_def)
  have st: "stamp (o_CreatedAt (micro v)) = o_CreatedAt (micro v)" "o_FilledAt (micro v) = None" using assms(5) by simp_all
  from place_spec [OF book_ok [OF assms(6)] fresh]
  show "\<exists>os. orderRepoPlace False (micro v) (book d) = (Inr (p, micro v'), os) \<and> map_of os = map_of (book d')"
    using place_rows [OF x assms(6) ids] e(1,2) book_placed [OF x assms(6) t st o] by (auto simp: micro_rows)
qed

lemma cancelled_rows_ok:
  assumes "rows_ok rows" "r \<in> set rows" "open_row r" "or_id r = i"
  shows "rows_ok (cancelled_rows i rows)"
proof -
  have "map or_id (cancelled_rows i rows) = map or_id rows" by (simp add: cancelled_rows_def updateWhere_def)
  moreover have "row_ok r'' \<and> or_idempotency_key r'' \<noteq> Some []" if r'': "r'' \<in> set (cancelled_rows i rows)" for r''
  proof -
    obtain r' where r': "r' \<in> set rows" "r'' = (if or_id r' = i then r'\<lparr>or_status := ''cancelled''\<rparr> else r')"
      using r'' by (auto simp: cancelled_rows_def updateWhere_def)
    show ?thesis
    proof (cases "or_id r' = i")
      case True
      then have "r' = r" using r'(1) assms by (auto simp: rows_ok_def distinct_map dest: inj_onD)
      then show ?thesis using r'(2) True assms(1-3) by (auto simp: rows_ok_def row_ok_def row_status_ok_def open_row_def)
    qed (use r' assms(1) in \<open>simp add: rows_ok_def\<close>)
  qed
  ultimately show ?thesis using assms(1) by (simp add: rows_ok_def)
qed

lemma cancel_refines:
  assumes "orderPgCancelCollateral fault i unlock d = (Inr (w, f), d')"
    "rows_ok (db_orders d)" "wallets_ok (db_wallets d)"
  shows "rows_ok (db_orders d')" "\<exists>os. orderRepoCancel False i (book d) = (Inr (w, f), os) \<and> map_of os = map_of (book d')"
proof -
  have "cancelTx fault i unlock d = (Inr (w, f), d')" using assms(1) by (simp add: orderPgCancelCollateral_def inTx_Inr)
  from cancelTx_Inr [OF this assms(2,3)] obtain r ws where r: "r \<in> set (db_orders d)" "or_id r = i" "open_row r"
    "w = (order_of_row r)\<lparr>o_Status := ''cancelled''\<rparr>" "f = SharesToFloat (remaining r)"
    and d': "d' = d\<lparr>db_orders := cancelled_rows i (db_orders d), db_wallets := ws\<rparr>" by metis
  show ok: "rows_ok (db_orders d')" using cancelled_rows_ok [OF assms(2) r(1,3,2)] d' by simp
  have m: "map_of (book d) i = Some (order_of_row r)" using map_of_book_row [OF assms(2) r(1)] r(2) by simp
  have "remainingShares (o_Amount (order_of_row r)) (o_FilledAmount (order_of_row r)) = Inr f"
    using exact_rem [OF row_exact] row_order_ok(5) rows_okD [OF assms(2) r(1)] r(5) by (simp add: remainingShares_def)
  then have "orderRepoCancel False i (book d) = (Inr (w, f), put i w (book d))"
    using m r(3,4) by (auto simp: orderRepoCancel_def open_row_def Let_def)
  moreover have "map_of (put i w (book d)) = map_of (book d')"
  proof
    fix k
    have f: "find (\<lambda>r. or_id r = k) (db_orders d') = map_option (\<lambda>r. if or_id r = i then r\<lparr>or_status := ''cancelled''\<rparr> else r)
        (find (\<lambda>r. or_id r = k) (db_orders d))"
      unfolding d' cancelled_rows_def updateWhere_def by (simp, rule find_map) simp
    have w: "order_of_row (r\<lparr>or_status := ''cancelled''\<rparr>) = w" using r(4) by (simp add: order_of_row_def)
    show "map_of (put i w (book d)) k = map_of (book d') k"
    proof (cases "find (\<lambda>r. or_id r = k) (db_orders d)")
      case None
      then have "k \<noteq> i" using r(1,2) by (auto simp: find_None_iff)
      then show ?thesis using None f by (simp add: map_of_book [OF ok] map_of_book [OF assms(2)])
    next
      case (Some r')
      note s = find_SomeD [OF Some]
      show ?thesis
      proof (cases "k = i")
        case True
        then have "r' = r" using s r(1,2) assms(2) by (auto simp: rows_ok_def distinct_map dest: inj_onD)
        then show ?thesis using Some True f r(2) w by (simp add: map_of_book [OF ok])
      next
        case False
        then show ?thesis using Some f s by (simp add: map_of_book [OF ok] map_of_book [OF assms(2)])
      qed
    qed
  qed
  ultimately show "\<exists>os. orderRepoCancel False i (book d) = (Inr (w, f), os) \<and> map_of os = map_of (book d')" by blast
qed

section \<open>The repository refines the in-memory one\<close>

lemma inTx_failed: "inTx fault key m1 m2 body d = (Inl err, d') \<Longrightarrow> d' = d"
  using inTx_Inl [of fault key m1 m2 body d err] by simp

lemma place_failed: "orderPgPlaceCollateral fault v c lock d = (Inl err, d') \<Longrightarrow> d' = d"
  by (auto simp: orderPgPlaceCollateral_def dest!: inTx_failed)

lemma cancel_failed: "orderPgCancelCollateral fault i unlock d = (Inl err, d') \<Longrightarrow> d' = d"
  by (auto simp: orderPgCancelCollateral_def dest!: inTx_failed)

text \<open>
  C37: the PostgreSQL repository refines the in-memory matching engine. On well-formed tables a
  placement or a cancellation that commits, whichever statements may fail, gives the result that
  the in-memory repository gives on the book of the tables and leaves tables whose book is the
  in-memory repository's; one that fails leaves the tables as they were. The columns keep
  microseconds: the in-memory repository is given the new order with its time cut to them, and the
  returned order, which still has the time of the request, is compared cut in the same way. The
  order is new, and of an amount below the cap.
\<close>

theorem order_postgres_refines:
  assumes "exact v" "fil v = 0" "o_Status v = ''pending''" "o_FilledAt v = None"
    "rows_ok (db_orders d)" "wallets_ok (db_wallets d)" "0 \<le> c"
  shows "(case orderPgPlaceCollateral fault v c lock d of
        (Inl err, d') \<Rightarrow> d' = d
      | (Inr (improvement, v'), d') \<Rightarrow> rows_ok (db_orders d')
          \<and> (\<exists>os. orderRepoPlace False (micro v) (book d) = (Inr (improvement, micro v'), os) \<and> map_of os = map_of (book d')))
    \<and> (case orderPgCancelCollateral fault i unlock d of
        (Inl err, d') \<Rightarrow> d' = d
      | (Inr result, d') \<Rightarrow> rows_ok (db_orders d')
          \<and> (\<exists>os. orderRepoCancel False i (book d) = (Inr result, os) \<and> map_of os = map_of (book d')))"
proof
  show "case orderPgPlaceCollateral fault v c lock d of
        (Inl err, d') \<Rightarrow> d' = d
      | (Inr (improvement, v'), d') \<Rightarrow> rows_ok (db_orders d')
          \<and> (\<exists>os. orderRepoPlace False (micro v) (book d) = (Inr (improvement, micro v'), os) \<and> map_of os = map_of (book d'))"
    using place_refines [OF _ assms] place_failed by (auto split: prod.split sum.split)
  show "case orderPgCancelCollateral fault i unlock d of
        (Inl err, d') \<Rightarrow> d' = d
      | (Inr result, d') \<Rightarrow> rows_ok (db_orders d')
          \<and> (\<exists>os. orderRepoCancel False i (book d) = (Inr result, os) \<and> map_of os = map_of (book d'))"
    using cancel_refines [OF _ assms(5,6)] cancel_failed by (auto split: prod.split sum.split)
qed

text \<open>
  C38: how a placement with collateral ends is decided by the tables. When the server refuses
  nothing, it reports, in this order, a market that is not active, a missing wallet, a balance
  below the collateral, an identifier or idempotency key in use, a locked balance below what is
  to be released; in every such case nothing changes. Otherwise it commits the fills of the match,
  one trade for each, the matched volume, and the wallet with the collateral locked less what the
  fills and a cancelled remainder release.
\<close>

theorem placement_decided:
  assumes "exact v" "fil v = 0" "rows_ok (db_orders d)" "wallets_ok (db_wallets d)" "0 \<le> c" "uuids_fresh d"
  shows "\<exists>d'. orderPgPlaceCollateral all_fine v c True d = (place_outcome v c d, d')
    \<and> (case place_outcome v c d of
        Inl err \<Rightarrow> d' = d
      | Inr result \<Rightarrow> placed_effect v (c - released v (db_orders d)) d d')"
proof -
  obtain d1 where x: "placeTx all_fine v c True d = (place_outcome v c d, d1)"
    using placeTx_fine [OF assms] by (metis prod.collapse)
  show ?thesis
  proof (cases "place_outcome v c d")
    case (Inl err)
    with x show ?thesis by (simp add: orderPgPlaceCollateral_def inTx_def execute_def)
  next
    case (Inr result)
    then have "placed_effect v (c - released v (db_orders d)) d d1"
      using placeTx_Inr(3) [of all_fine v c True d "fst result" "snd result" d1] assms x by simp
    with x Inr show ?thesis by (simp add: orderPgPlaceCollateral_def inTx_def execute_def)
  qed
qed

section \<open>A demonstration\<close>

text \<open>An offer of bob's rests in the book; alice bids for more at a higher price.\<close>

definition demo_offer_row :: orderRow where
  "demo_offer_row = \<lparr>or_id = ''o2'', or_merchant_id = ''c1'', or_user_id = ''bob'', or_market_id = ''m1'',
     or_type = ''sell'', or_option = ''Yes'', or_amount = 5000000, or_filled_amount = 0,
     or_currency = ''USD'', or_price = 400000, or_time_in_force = ''gtc'', or_status = ''pending'',
     or_idempotency_key = None, or_created_at = 1000, or_filled_at = None\<rparr>"

definition demo_bid_row :: orderRow where
  "demo_bid_row = \<lparr>or_id = ''o3'', or_merchant_id = ''c1'', or_user_id = ''alice'', or_market_id = ''m1'',
     or_type = ''buy'', or_option = ''Yes'', or_amount = 10000000, or_filled_amount = 0,
     or_currency = ''USD'', or_price = 500000, or_time_in_force = ''gtc'', or_status = ''pending'',
     or_idempotency_key = Some ''k1'', or_created_at = 2000, or_filled_at = None\<rparr>"

definition demo_trading_db :: db where
  "demo_trading_db = \<lparr>db_merchants = [(''c1'', ''active'')], db_events = [],
     db_markets = [\<lparr>mr_id = ''m1'', mr_merchant_id = ''c1'', mr_event_id = ''e1'', mr_type = ''binary'',
       mr_question = ''Won?'', mr_options = [''Yes'', ''No''], mr_status = ''active'', mr_total_volume = 0,
       mr_liquidity_pool = 0, mr_created_at = 1, mr_settled_at = None\<rparr>],
     db_orders = [demo_offer_row], db_trades = [],
     db_wallets = [\<lparr>wl_id = ''w1'', wl_merchant_id = ''c1'', wl_user_id = ''alice'', wl_currency = ''USD'',
         wl_balance = 2000, wl_locked_balance = 0, wl_updated_at = 2\<rparr>,
       \<lparr>wl_id = ''w2'', wl_merchant_id = ''c1'', wl_user_id = ''bob'', wl_currency = ''USD'',
         wl_balance = 0, wl_locked_balance = 300, wl_updated_at = 1\<rparr>],
     db_transactions = [], db_settlements = [], db_payouts = [], db_audits = [], db_outbox = [],
     db_now = 9000, db_uuids = (\<lambda>n. replicate n CHR ''u''), db_uuid_next = 0\<rparr>"

definition demo_pg_bid :: order where "demo_pg_bid = order_of_row demo_bid_row"

lemma demo_bid_ready:
  "exact demo_pg_bid" "fil demo_pg_bid = 0" "rows_ok (db_orders demo_trading_db)" "wallets_ok (db_wallets demo_trading_db)"
  "uuids_fresh demo_trading_db" "o_Status demo_pg_bid = ''pending''" "o_FilledAt demo_pg_bid = None"
  "stamp (o_CreatedAt demo_pg_bid) = o_CreatedAt demo_pg_bid"
proof -
  have ok: "row_ok demo_bid_row" by code_simp
  show "exact demo_pg_bid" "fil demo_pg_bid = 0"
    using row_exact [OF ok] row_order_ok(3) [OF ok] by (simp_all add: demo_pg_bid_def demo_bid_row_def)
  show "rows_ok (db_orders demo_trading_db)" "wallets_ok (db_wallets demo_trading_db)" by code_simp+
  show "uuids_fresh demo_trading_db"
    by (auto simp: uuids_fresh_def demo_trading_db_def inj_on_def dest: arg_cong [where f = length])
  show "o_Status demo_pg_bid = ''pending''" "o_FilledAt demo_pg_bid = None"
    "stamp (o_CreatedAt demo_pg_bid) = o_CreatedAt demo_pg_bid"
    by (simp_all add: demo_pg_bid_def demo_bid_row_def stamp_def)
qed

definition demo_bid_placed :: db where
  "demo_bid_placed = snd (orderPgPlaceCollateral all_fine demo_pg_bid 500 True demo_trading_db)"

lemma demo_bid_places:
  "map_sum id fst (fst (orderPgPlaceCollateral all_fine demo_pg_bid 500 True demo_trading_db)) = Inr (Fin (1 / 2))"
  by code_simp

lemma demo_bid_result:
  obtains v' where "orderPgPlaceCollateral all_fine demo_pg_bid 500 True demo_trading_db = (Inr (Fin (1 / 2), v'), demo_bid_placed)"
proof (cases "fst (orderPgPlaceCollateral all_fine demo_pg_bid 500 True demo_trading_db)")
  case (Inl err)
  with demo_bid_places show ?thesis by simp
next
  case (Inr result)
  with demo_bid_places have "fst result = Fin (1 / 2)" by simp
  with Inr have "fst (orderPgPlaceCollateral all_fine demo_pg_bid 500 True demo_trading_db) = Inr (Fin (1 / 2), snd result)"
    by (metis prod.collapse)
  then show ?thesis using that unfolding demo_bid_placed_def by (metis prod.collapse)
qed

theorem order_postgres_refines_witness:
  "\<exists>v' os. orderRepoPlace False (micro demo_pg_bid) (book demo_trading_db) = (Inr (Fin (1 / 2), v'), os)
    \<and> map_of os = map_of (book demo_bid_placed)"
proof -
  obtain v' where p: "orderPgPlaceCollateral all_fine demo_pg_bid 500 True demo_trading_db
      = (Inr (Fin (1 / 2), v'), demo_bid_placed)" by (rule demo_bid_result)
  have c: "(0::int) \<le> 500" by simp
  from order_postgres_refines [OF demo_bid_ready(1,2,6,7,3,4) c, of all_fine True, THEN conjunct1]
  show ?thesis unfolding p prod.case sum.case by blast
qed

theorem placement_decided_witness:
  "\<exists>v' d'. orderPgPlaceCollateral all_fine demo_pg_bid 500 True demo_trading_db = (Inr (Fin (1 / 2), v'), d')
    \<and> placed_effect demo_pg_bid (500 - released demo_pg_bid [demo_offer_row]) demo_trading_db d'"
proof -
  obtain v' where p: "orderPgPlaceCollateral all_fine demo_pg_bid 500 True demo_trading_db
      = (Inr (Fin (1 / 2), v'), demo_bid_placed)" by (rule demo_bid_result)
  have c: "(0::int) \<le> 500" by simp
  from placement_decided [OF demo_bid_ready(1-4) c demo_bid_ready(5)]
  have f: "place_outcome demo_pg_bid 500 demo_trading_db = Inr (Fin (1 / 2), v')"
    and "case place_outcome demo_pg_bid 500 demo_trading_db of
        Inl err \<Rightarrow> demo_bid_placed = demo_trading_db
      | Inr result \<Rightarrow> placed_effect demo_pg_bid (500 - released demo_pg_bid (db_orders demo_trading_db))
          demo_trading_db demo_bid_placed"
    unfolding p by (metis prod.inject)+
  from this(2) have "placed_effect demo_pg_bid (500 - released demo_pg_bid (db_orders demo_trading_db))
      demo_trading_db demo_bid_placed"
    unfolding f by simp
  moreover have "db_orders demo_trading_db = [demo_offer_row]" by (simp add: demo_trading_db_def)
  ultimately show ?thesis using p by metis
qed

end
