(* ===== verification/NumericParam.thy ===== *)
theory NumericParam
  imports Database
begin

text \<open>
  A \<^verbatim>\<open>float64\<close> parameter of a numeric expression. The driver sends the text
  \<^verbatim>\<open>strconv.FormatFloat(x, 'f', -1, 64)\<close>: the decimal with the fewest places that rounds to \<open>x\<close>,
  the nearest to \<open>x\<close> of those (below \<open>2 ^ 53\<close>, where every integer is a float). The server computes
  with that decimal exactly and rounds half away from zero where it stores it in a column. For
  an amount that came from whole units of the column the detour changes nothing.
\<close>

definition readsBack :: "rat \<Rightarrow> nat \<Rightarrow> int \<Rightarrow> bool" where
  "readsBack x k n \<longleftrightarrow> f64 (of_int n / 10 ^ k) = Fin x"

definition decimalAt :: "rat \<Rightarrow> nat \<Rightarrow> int option" where
  "decimalAt x k = (let y = x * 10 ^ k; lo = \<lfloor>y\<rfloor>; hi = \<lceil>y\<rceil> in
     find (readsBack x k) (if y - of_int lo \<le> of_int hi - y then [lo, hi] else [hi, lo]))"

fun shortestFrom :: "nat \<Rightarrow> nat \<Rightarrow> rat \<Rightarrow> rat option" where
  "shortestFrom 0 k x = None"
| "shortestFrom (Suc fuel) k x =
     (case decimalAt x k of
        Some n \<Rightarrow> Some (of_int n / 10 ^ k)
      | None \<Rightarrow> shortestFrom fuel (Suc k) x)"

text \<open>The smallest float has 324 leading zeros and at most 17 digits, so 345 places are enough.\<close>

definition numericParam :: "float64 \<Rightarrow> rat option" where
  "numericParam f = (case f of Fin x \<Rightarrow> shortestFrom 345 0 x | _ \<Rightarrow> None)"

text \<open>A value assigned to a column with \<open>places\<close> decimals, and a parameter assigned directly.\<close>

definition toColumn :: "nat \<Rightarrow> rat \<Rightarrow> int" where
  "toColumn places r = round_away (r * 10 ^ places)"

definition numericArg :: "string \<Rightarrow> float64 \<Rightarrow> rat res" where
  "numericArg message f = (case numericParam f of
      None \<Rightarrow> Inl (Wrapped message dbError) | Some r \<Rightarrow> Inr r)"

section \<open>Whole units pass unchanged\<close>

lemma toColumn_units [simp]: "toColumn p (of_int c / 10 ^ p) = c"
proof -
  have "round_away (of_int c) = c"
    by (simp add: round_away_def floor_eq_iff ceiling_eq_iff flip: of_int_minus)
  then show ?thesis by (simp add: toColumn_def)
qed

lemma f64_close:
  assumes "0 \<le> r" "r < 2 ^ 28" "f64 r = Fin x"
  shows "\<bar>x - r\<bar> \<le> 1 / 2 ^ 26" "0 \<le> x"
proof -
  have "\<bar>x - r\<bar> \<le> 1 / 2 ^ 26 \<and> 0 \<le> x"
  proof (cases "r = 0")
    case True
    then show ?thesis using assms(3) by simp
  next
    case False
    then have r: "0 < r" using assms(1) by simp
    have b: "r < pow2 28" using assms(2) by (simp add: pow2_def)
    then have "r < pow2 1023" using pow2_mono [of 28 1023] by linarith
    then have x: "x = round_pos r" using f64_pos [OF r] assms(3) by simp
    have "\<bar>round_pos r - r\<bar> \<le> pow2 (28 - 54)" by (rule round_pos_error_below [OF r b]) simp
    then show ?thesis using x round_pos_nonneg [OF r] by (simp add: pow2_def)
  qed
  then show "\<bar>x - r\<bar> \<le> 1 / 2 ^ 26" "0 \<le> x" by simp_all
qed

lemma same_grid:
  assumes "\<bar>of_int n / 10 ^ k - of_int c / 10 ^ p\<bar> < (1 / 10 ^ p :: rat)" "k \<le> p"
  shows "(of_int n / 10 ^ k :: rat) = of_int c / 10 ^ p"
proof -
  have p: "(10 :: rat) ^ p = 10 ^ k * 10 ^ (p - k)" using assms(2) by (simp flip: power_add)
  have e: "of_int n / 10 ^ k = (of_int (n * 10 ^ (p - k)) / 10 ^ p :: rat)" by (simp add: p)
  have "(of_int n / 10 ^ k - of_int c / 10 ^ p :: rat) = of_int (n * 10 ^ (p - k) - c) / 10 ^ p"
    by (simp only: e of_int_diff diff_divide_distrib)
  with assms(1) have "\<bar>of_int (n * 10 ^ (p - k) - c)\<bar> / (10 :: rat) ^ p < 1 / 10 ^ p"
    by (simp only: abs_divide) simp
  then have "\<bar>of_int (n * 10 ^ (p - k) - c)\<bar> < (1 :: rat)"
    by (simp add: divide_less_cancel)
  then have "n * 10 ^ (p - k) = c" by linarith
  then show ?thesis using e by simp
qed

text \<open>Any decimal of at most \<open>p\<close> places found on the way is the value itself.\<close>

lemma decimalAt_same:
  assumes "f64 (of_int c / 10 ^ p) = Fin x" "0 \<le> c" "of_int c / 10 ^ p < (2 ^ 27 :: rat)" "p \<le> 6" "k \<le> p"
    "decimalAt x k = Some n"
  shows "(of_int n / 10 ^ k :: rat) = of_int c / 10 ^ p"
proof -
  let ?r = "of_int c / 10 ^ p :: rat"
  have r: "0 \<le> ?r" using assms(2) by simp
  have cx: "\<bar>x - ?r\<bar> \<le> 1 / 2 ^ 26" "0 \<le> x" using f64_close [OF r _ assms(1)] assms(3) by simp_all
  have n: "n = \<lfloor>x * 10 ^ k\<rfloor> \<or> n = \<lceil>x * 10 ^ k\<rceil>" and rb: "f64 (of_int n / 10 ^ k) = Fin x"
    using assms(6) by (auto simp: decimalAt_def Let_def readsBack_def split: if_splits)
  have "0 \<le> x * 10 ^ k" using cx(2) by simp
  then have "0 \<le> n" using n by linarith
  moreover have "of_int n \<le> x * 10 ^ k + 1" using n by (auto intro: less_imp_le) linarith+
  then have "of_int n / 10 ^ k \<le> x + 1 / (10 :: rat) ^ k" by (simp add: divide_le_eq distrib_right)
  moreover have "1 / (10 :: rat) ^ k \<le> 1" by (simp add: divide_le_eq)
  moreover have "(1 / 2 ^ 26 + 2 ^ 27 + 1 :: rat) < 2 ^ 28" by simp
  moreover have "x \<le> 1 / 2 ^ 26 + ?r" using cx(1) by linarith
  ultimately have "of_int n / 10 ^ k < (2 ^ 28 :: rat)" using assms(3) by linarith
  moreover have "0 \<le> (of_int n / 10 ^ k :: rat)" using \<open>0 \<le> n\<close> by simp
  ultimately have "0 \<le> (of_int n / 10 ^ k :: rat)" "of_int n / 10 ^ k < (2 ^ 28 :: rat)" by blast+
  then have nx: "\<bar>x - of_int n / 10 ^ k\<bar> \<le> 1 / 2 ^ 26" using f64_close rb by blast
  have "(10 :: rat) ^ p \<le> 10 ^ 6" using assms(4) by (intro power_increasing) simp_all
  then have "1 / 10 ^ 6 \<le> (1 / 10 ^ p :: rat)" by (simp add: frac_le)
  moreover have "(1 / 2 ^ 26 + 1 / 2 ^ 26 :: rat) < 1 / 10 ^ 6" by simp
  ultimately have "\<bar>of_int n / 10 ^ k - ?r\<bar> < 1 / 10 ^ p" using cx(1) nx by linarith
  then show ?thesis by (rule same_grid [OF _ assms(5)])
qed

lemma decimalAt_units:
  assumes "f64 (of_int c / 10 ^ p) = Fin x" "0 \<le> c" "of_int c / 10 ^ p < (2 ^ 27 :: rat)" "p \<le> 6"
  shows "decimalAt x p \<noteq> None"
proof -
  let ?y = "x * 10 ^ p"
  have "0 \<le> (of_int c / 10 ^ p :: rat)" using assms(2) by simp
  then have "\<bar>x - of_int c / 10 ^ p\<bar> \<le> 1 / 2 ^ 26" using f64_close [OF _ _ assms(1)] assms(3) by simp
  then have "\<bar>(x - of_int c / 10 ^ p) * 10 ^ p\<bar> \<le> 1 / 2 ^ 26 * 10 ^ p"
    by (simp only: abs_mult) simp
  moreover have "(10 :: rat) ^ p \<le> 10 ^ 6" using assms(4) by (intro power_increasing) simp_all
  then have "(1 / 2 ^ 26 * 10 ^ p :: rat) < 1 / 2" by simp
  moreover have "(x - of_int c / 10 ^ p) * 10 ^ p = ?y - of_int c" by (simp add: left_diff_distrib)
  ultimately have "\<bar>?y - of_int c\<bar> < 1 / 2" by simp
  then have "\<lfloor>?y\<rfloor> = c \<or> \<lceil>?y\<rceil> = c" by linarith
  moreover have "readsBack x p c" using assms(1) by (simp add: readsBack_def)
  ultimately show ?thesis by (auto simp: decimalAt_def Let_def)
qed

lemma shortestFrom_units:
  assumes "f64 (of_int c / 10 ^ p) = Fin x" "0 \<le> c" "of_int c / 10 ^ p < (2 ^ 27 :: rat)" "p \<le> 6"
    "k \<le> p" "p - k < fuel"
  shows "shortestFrom fuel k x = Some (of_int c / 10 ^ p)"
  using assms(5,6)
proof (induction fuel arbitrary: k)
  case (Suc fuel)
  show ?case
  proof (cases "decimalAt x k")
    case None
    then have "k \<noteq> p" using decimalAt_units [OF assms(1-4)] by metis
    then show ?thesis using Suc None by simp
  next
    case (Some n)
    then show ?thesis using decimalAt_same [OF assms(1-4) Suc.prems(1) Some] by simp
  qed
qed simp

lemma numericParam_units:
  assumes "0 \<le> c" "of_int c / 10 ^ p < (2 ^ 27 :: rat)" "p \<le> 6"
  shows "numericParam (f64 (of_int c / 10 ^ p)) = Some (of_int c / 10 ^ p)"
proof -
  let ?r = "of_int c / 10 ^ p :: rat"
  obtain x where x: "f64 ?r = Fin x"
  proof (cases "?r = 0")
    case True
    then show ?thesis using that f64_0 by metis
  next
    case False
    then have "0 < c" using assms(1) by (cases "c = 0") auto
    then have "0 < ?r" by simp
    moreover have "?r < pow2 27" using assms(2) by (simp add: pow2_def)
    then have "?r < pow2 1023" using pow2_mono [of 27 1023] by linarith
    ultimately show ?thesis using that f64_pos by blast
  qed
  show ?thesis unfolding numericParam_def x float64.case
    by (rule shortestFrom_units [OF x assms]) (use assms(3) in simp_all)
qed

lemma numericParam_examples:
  "numericParam (f64 (1 / 10)) = Some (1 / 10)" "numericParam (Fin 0) = Some 0" "numericParam (Inf True) = None"
proof -
  show "numericParam (f64 (1 / 10)) = Some (1 / 10)" using numericParam_units [of 1 1] by simp
  show "numericParam (Fin 0) = Some 0" using numericParam_units [of 0 0] by simp
  show "numericParam (Inf True) = None" by (simp add: numericParam_def)
qed

end
