(* ===== verification/WalletPostgres.thy ===== *)
theory WalletPostgres
  imports WalletRepo NumericParam
begin

text \<open>
  \<^verbatim>\<open>internal/wallet/postgres_repository.go\<close>: the wallet repository over the tables \<^verbatim>\<open>wallets\<close> and
  \<^verbatim>\<open>transactions\<close>. Amounts reach the server as \<^verbatim>\<open>float64\<close> parameters (\<open>NumericParam\<close>), balances are
  exact cents; the trigger of the schema sets \<^verbatim>\<open>updated_at\<close> on every update. Each statement
  sees and changes one row of a key, which is unique; a statement outside a transaction commits
  by itself.
\<close>

section \<open>Rows\<close>

definition hasKey :: "walletKey \<Rightarrow> walletRow \<Rightarrow> bool" where
  "hasKey key w \<longleftrightarrow> wl_merchant_id w = wk_MerchantID key \<and> wl_user_id w = wk_UserID key
     \<and> wl_currency w = wk_Currency key"

definition walletTaken :: "wallet \<Rightarrow> walletRow \<Rightarrow> bool" where
  "walletTaken v w \<longleftrightarrow> wl_id w = w_ID v \<or> hasKey (keyFromWallet v) w"

definition walletNullableKey :: "string \<Rightarrow> string option" where
  "walletNullableKey key = (if key = [] then None else Some key)"

definition transactionTaken :: "transaction \<Rightarrow> transactionRow \<Rightarrow> bool" where
  "transactionTaken t r \<longleftrightarrow> tx_id r = t_ID t
     \<or> (tx_wallet_id r = t_WalletID t \<and> tx_idempotency_key r \<noteq> None
        \<and> tx_idempotency_key r = walletNullableKey (t_IdempotencyKey t))"

definition scanWalletRow :: "walletRow option \<Rightarrow> wallet res" where
  "scanWalletRow row = (case row of
      None \<Rightarrow> Inl (Sentinel WalletErrNotFound)
    | Some w \<Rightarrow> Inr \<lparr>w_ID = wl_id w, w_MerchantID = wl_merchant_id w, w_UserID = wl_user_id w,
        w_Currency = wl_currency w, w_Balance = numericFloat 2 (wl_balance w),
        w_LockedBalance = numericFloat 2 (wl_locked_balance w), w_UpdatedAt = wl_updated_at w\<rparr>)"

definition scanTransactionRow :: "transactionRow \<Rightarrow> transaction" where
  "scanTransactionRow t = \<lparr>t_ID = tx_id t, t_WalletID = tx_wallet_id t, t_Type = tx_type t,
     t_Amount = numericFloat 2 (tx_amount t), t_Currency = tx_currency t,
     t_RelatedOrderID = tx_related_order_id t, t_IdempotencyKey = [], t_Status = tx_status t,
     t_CreatedAt = tx_created_at t\<rparr>"

section \<open>Statements\<close>

definition walletPgValidateMerchant :: "faults \<Rightarrow> string \<Rightarrow> db \<Rightarrow> unit res" where
  "walletPgValidateMerchant fault merchantID d =
     (if fault ''select merchant'' merchantID then Inl (Wrapped ''query wallet merchant'' dbError)
      else if map_of (db_merchants d) merchantID = Some ''active'' then Inr ()
      else Inl (Sentinel WalletErrInvalidMerchant))"

definition walletPgCreate :: "faults \<Rightarrow> wallet \<Rightarrow> db \<Rightarrow> unit res \<times> db" where
  "walletPgCreate fault v d =
     (case bind_res (numericArg ''insert wallet'' (w_Balance v)) (\<lambda>b.
           bind_res (numericArg ''insert wallet'' (w_LockedBalance v)) (\<lambda>l.
           if fault ''insert wallet'' (w_ID v) then Inl (Wrapped ''insert wallet'' dbError)
           else if list_ex (walletTaken v) (db_wallets d) then Inl (Sentinel WalletErrAlreadyExists)
           else if map_of (db_merchants d) (w_MerchantID v) = None then Inl (Sentinel WalletErrInvalidMerchant)
           else Inr \<lparr>wl_id = w_ID v, wl_merchant_id = w_MerchantID v, wl_user_id = w_UserID v,
             wl_currency = w_Currency v, wl_balance = toColumn 2 b, wl_locked_balance = toColumn 2 l,
             wl_updated_at = stamp (w_UpdatedAt v)\<rparr>)) of
        Inl err \<Rightarrow> (Inl err, d)
      | Inr row \<Rightarrow> (Inr (), d\<lparr>db_wallets := db_wallets d @ [row]\<rparr>))"

definition walletPgGet :: "faults \<Rightarrow> walletKey \<Rightarrow> db \<Rightarrow> wallet res" where
  "walletPgGet fault key d =
     (if fault ''select wallet'' (wk_UserID key) then Inl (Wrapped ''scan wallet'' dbError)
      else scanWalletRow (find (hasKey key) (db_wallets d)))"

definition insertTransaction :: "faults \<Rightarrow> transaction \<Rightarrow> db \<Rightarrow> unit res \<times> db" where
  "insertTransaction fault t d =
     (case bind_res (numericArg ''insert wallet transaction'' (t_Amount t)) (\<lambda>a.
           if fault ''insert transaction'' (t_ID t) then Inl (Wrapped ''insert wallet transaction'' dbError)
           else if list_ex (transactionTaken t) (db_transactions d) then Inl (Sentinel WalletErrAlreadyExists)
           else if t_RelatedOrderID t \<noteq> None \<and> t_RelatedOrderID t \<notin> Some ` set (map or_id (db_orders d))
           then Inl (Wrapped ''insert wallet transaction'' dbError)
           else Inr \<lparr>tx_id = t_ID t, tx_wallet_id = t_WalletID t, tx_type = t_Type t,
             tx_amount = toColumn 2 a, tx_currency = t_Currency t, tx_related_order_id = t_RelatedOrderID t,
             tx_idempotency_key = walletNullableKey (t_IdempotencyKey t), tx_status = t_Status t,
             tx_created_at = stamp (t_CreatedAt t)\<rparr>) of
        Inl err \<Rightarrow> (Inl err, d)
      | Inr row \<Rightarrow> (Inr (), d\<lparr>db_transactions := db_transactions d @ [row]\<rparr>))"

text \<open>\<^verbatim>\<open>INSERT ... ON CONFLICT (merchant_id, user_id, currency) DO NOTHING\<close>.\<close>

definition ensureWalletRow :: "faults \<Rightarrow> wallet \<Rightarrow> db \<Rightarrow> unit res \<times> db" where
  "ensureWalletRow fault v d =
     (if fault ''ensure wallet'' (w_ID v) then (Inl (Wrapped ''ensure credited wallet'' dbError), d)
      else if list_ex (hasKey (keyFromWallet v)) (db_wallets d) then (Inr (), d)
      else if list_ex (\<lambda>w. wl_id w = w_ID v) (db_wallets d)
      then (Inl (Wrapped ''ensure credited wallet'' dbError), d)
      else if map_of (db_merchants d) (w_MerchantID v) = None then (Inl (Sentinel WalletErrInvalidMerchant), d)
      else (Inr (), d\<lparr>db_wallets := db_wallets d @ [\<lparr>wl_id = w_ID v, wl_merchant_id = w_MerchantID v,
        wl_user_id = w_UserID v, wl_currency = w_Currency v, wl_balance = 0, wl_locked_balance = 0,
        wl_updated_at = stamp (w_UpdatedAt v)\<rparr>]\<rparr>))"

text \<open>
  An update of the rows of a key that fulfil \<open>p\<close>, by amounts of cents that may be fractions:
  the columns keep whole cents.
\<close>

definition addCents :: "int \<Rightarrow> rat \<Rightarrow> int" where
  "addCents column amount = toColumn 2 (of_int column / 100 + amount)"

definition updateWallet ::
  "walletKey \<Rightarrow> (walletRow \<Rightarrow> bool) \<Rightarrow> rat \<Rightarrow> rat \<Rightarrow> db \<Rightarrow> walletRow list" where
  "updateWallet key p balance locked d = updateWhere (\<lambda>w. hasKey key w \<and> p w)
     (\<lambda>w. w\<lparr>wl_balance := addCents (wl_balance w) balance,
        wl_locked_balance := addCents (wl_locked_balance w) locked, wl_updated_at := db_now d\<rparr>) (db_wallets d)"

definition covers :: "int \<Rightarrow> rat \<Rightarrow> bool" where
  "covers column amount \<longleftrightarrow> amount \<le> of_int column / 100"

definition classifyBalanceFailure :: "faults \<Rightarrow> walletKey \<Rightarrow> bool \<Rightarrow> db \<Rightarrow> go_error" where
  "classifyBalanceFailure fault key locked d =
     (if fault ''classify wallet'' (wk_UserID key) then Wrapped ''classify wallet balance update'' dbError
      else case find (hasKey key) (db_wallets d) of
          None \<Rightarrow> Sentinel WalletErrNotFound
        | Some w \<Rightarrow> Sentinel (if locked then WalletErrInsufficientLocked else WalletErrInsufficientBalance))"

definition requireWalletUpdate :: "faults \<Rightarrow> nat \<Rightarrow> walletKey \<Rightarrow> bool \<Rightarrow> db \<Rightarrow> unit res" where
  "requireWalletUpdate fault affected key locked d =
     (if affected > 0 then Inr () else Inl (classifyBalanceFailure fault key locked d))"

section \<open>Operations\<close>

definition creditTx :: "faults \<Rightarrow> wallet \<Rightarrow> transaction \<Rightarrow> db \<Rightarrow> unit res \<times> db" where
  "creditTx fault v t d =
     (let key = keyFromWallet v in
      andThen (ensureWalletRow fault v d) (\<lambda>_ d1.
      andThen (if fault ''credit wallet'' (w_ID v) then Inl (Wrapped ''update credited wallet'' dbError)
               else numericArg ''update credited wallet'' (t_Amount t), d1) (\<lambda>amount d2.
        (case find (hasKey key) (db_wallets d2) of
          None \<Rightarrow> (Inl (Wrapped ''update credited wallet'' (External ''no rows in result set'')), d2)
        | Some w \<Rightarrow> insertTransaction fault (t\<lparr>t_WalletID := wl_id w\<rparr>)
            (d2\<lparr>db_wallets := updateWallet key (\<lambda>_. True) amount 0 d2\<rparr>)))))"

definition walletPgCredit :: "faults \<Rightarrow> wallet \<Rightarrow> transaction \<Rightarrow> db \<Rightarrow> unit res \<times> db" where
  "walletPgCredit fault v t =
     inTx fault (t_ID t) ''begin credit transaction'' ''commit credit transaction'' (creditTx fault v t)"

definition debitTx :: "faults \<Rightarrow> walletKey \<Rightarrow> float64 \<Rightarrow> transaction \<Rightarrow> db \<Rightarrow> unit res \<times> db" where
  "debitTx fault key amount0 t d =
     andThen (if fault ''debit wallet'' (wk_UserID key) then Inl (Wrapped ''update debited wallet'' dbError)
              else numericArg ''update debited wallet'' amount0, d) (\<lambda>amount d1.
       (case find (\<lambda>w. hasKey key w \<and> covers (wl_balance w) amount) (db_wallets d1) of
          None \<Rightarrow> (Inl (classifyBalanceFailure fault key False d1), d1)
        | Some w \<Rightarrow> insertTransaction fault (t\<lparr>t_WalletID := wl_id w\<rparr>)
            (d1\<lparr>db_wallets := updateWallet key (\<lambda>w. covers (wl_balance w) amount) (- amount) 0 d1\<rparr>)))"

definition walletPgDebit :: "faults \<Rightarrow> walletKey \<Rightarrow> float64 \<Rightarrow> transaction \<Rightarrow> db \<Rightarrow> unit res \<times> db" where
  "walletPgDebit fault key amount t =
     inTx fault (t_ID t) ''begin debit transaction'' ''commit debit transaction'' (debitTx fault key amount t)"

definition walletPgLock :: "faults \<Rightarrow> walletKey \<Rightarrow> float64 \<Rightarrow> db \<Rightarrow> unit res \<times> db" where
  "walletPgLock fault key amount0 d =
     (case (if fault ''lock wallet'' (wk_UserID key) then Inl (Wrapped ''update locked wallet'' dbError)
            else numericArg ''update locked wallet'' amount0) of
        Inl err \<Rightarrow> (Inl err, d)
      | Inr amount \<Rightarrow>
          let p = (\<lambda>w. covers (wl_balance w) amount);
              d' = d\<lparr>db_wallets := updateWallet key p (- amount) amount d\<rparr>
          in (requireWalletUpdate fault (rowsAffected (\<lambda>w. hasKey key w \<and> p w) (db_wallets d)) key False d', d'))"

definition walletPgUnlock :: "faults \<Rightarrow> walletKey \<Rightarrow> float64 \<Rightarrow> db \<Rightarrow> unit res \<times> db" where
  "walletPgUnlock fault key amount0 d =
     (case (if fault ''unlock wallet'' (wk_UserID key) then Inl (Wrapped ''update unlocked wallet'' dbError)
            else numericArg ''update unlocked wallet'' amount0) of
        Inl err \<Rightarrow> (Inl err, d)
      | Inr amount \<Rightarrow>
          let p = (\<lambda>w. covers (wl_locked_balance w) amount);
              d' = d\<lparr>db_wallets := updateWallet key p amount (- amount) d\<rparr>
          in (requireWalletUpdate fault (rowsAffected (\<lambda>w. hasKey key w \<and> p w) (db_wallets d)) key True d', d'))"

text \<open>The join of the transactions of a user with their wallets, a page of it, newest first.\<close>

definition userTransactions :: "string \<Rightarrow> string \<Rightarrow> db \<Rightarrow> transactionRow list" where
  "userTransactions merchantID userID d =
     concat (map (\<lambda>t. map (\<lambda>_. t) (filter (\<lambda>w. wl_id w = tx_wallet_id t
       \<and> wl_merchant_id w = merchantID \<and> wl_user_id w = userID) (db_wallets d))) (db_transactions d))"

definition txRowsNewestFirst :: "transactionRow \<Rightarrow> transactionRow \<Rightarrow> bool" where
  "txRowsNewestFirst a b = (if tx_created_at a = tx_created_at b then tx_id a < tx_id b
     else tx_created_at b < tx_created_at a)"

definition walletPgListTransactions ::
  "faults \<Rightarrow> string \<Rightarrow> string \<Rightarrow> int \<Rightarrow> int \<Rightarrow> db \<Rightarrow> (transaction list \<times> int) res" where
  "walletPgListTransactions fault merchantID userID offset limit d =
     (if fault ''count transactions'' userID then Inl (Wrapped ''count wallet transactions'' dbError)
      else let rows = userTransactions merchantID userID d; total = int (length rows) in
        if fault ''query transactions'' userID then Inl (Wrapped ''query wallet transactions'' dbError)
        else if fault ''iterate transactions'' userID then Inl (Wrapped ''iterate wallet transactions'' dbError)
        else Inr (map scanTransactionRow
          (take (nat limit) (drop (nat offset) (sort_by txRowsNewestFirst rows))), total))"

end
