(* ===== verification/WalletPgProps.thy ===== *)
theory WalletPgProps
  imports WalletPostgres WalletLedger OrderPgInv
begin

text \<open>
  The wallet tables fulfil the contract \<open>wallet_store\<close> that the in-memory repository fulfils, and
  their books balance: what a wallet holds is the signed sum of its transactions.
\<close>

section \<open>The wallet of a key\<close>

lemma hasKey_inj: "hasKey k w \<Longrightarrow> hasKey k' w \<Longrightarrow> k = k'"
  by (cases k; cases k') (auto simp: hasKey_def)

lemma hasKey_update [simp]:
  "hasKey k (w\<lparr>wl_balance := a\<rparr>) = hasKey k w" "hasKey k (w\<lparr>wl_locked_balance := l\<rparr>) = hasKey k w"
  "hasKey k (w\<lparr>wl_updated_at := t\<rparr>) = hasKey k w"
  by (simp_all add: hasKey_def)

lemma hasKey_unique:
  assumes "wallets_ok ws" "w \<in> set ws" "w' \<in> set ws" "hasKey k w" "hasKey k w'"
  shows "w = w'"
  using assms by (auto simp: wallets_ok_def hasKey_def distinct_map inj_on_def)

lemma updateWhere_key:
  assumes "wallets_ok ws" "find (hasKey k) ws = Some w" "p w" "\<And>k' w. hasKey k' (f w) = hasKey k' w"
  shows "find (hasKey k') (updateWhere (\<lambda>w. hasKey k w \<and> p w) f ws) = (if k' = k then Some (f w) else find (hasKey k') ws)"
proof -
  have w: "w \<in> set ws" "hasKey k w" using find_SomeD [OF assms(2)] by simp_all
  have all: "hasKey k u \<Longrightarrow> p u" if "u \<in> set ws" for u
    using hasKey_unique [OF assms(1) that w(1) _ w(2)] assms(3) by blast
  have "find (hasKey k') (updateWhere (\<lambda>w. hasKey k w \<and> p w) f us) =
      map_option (\<lambda>u. if k' = k then f u else u) (find (hasKey k') us)" if "set us \<subseteq> set ws" for us
    using that
  proof (induction us)
    case (Cons u us)
    then show ?case using all [of u] assms(4) hasKey_inj [of k u k'] by (auto simp: updateWhere_def)
  qed (simp add: updateWhere_def)
  from this [of ws] show ?thesis using assms(2) by (cases "k' = k") (auto simp: option.map_ident)
qed

lemma rowsAffected_key:
  assumes "wallets_ok ws"
  shows "0 < rowsAffected (\<lambda>w. hasKey k w \<and> p w) ws \<longleftrightarrow> (\<exists>w. find (hasKey k) ws = Some w \<and> p w)"
proof
  assume "0 < rowsAffected (\<lambda>w. hasKey k w \<and> p w) ws"
  then obtain w where w: "w \<in> set ws" "hasKey k w" "p w" by (auto simp: rowsAffected_pos)
  then obtain w' where w': "find (hasKey k) ws = Some w'" by (cases "find (hasKey k) ws") (auto simp: find_None_iff)
  then have "w' = w" using find_SomeD [OF w'] hasKey_unique [OF assms] w by blast
  then show "\<exists>w. find (hasKey k) ws = Some w \<and> p w" using w w' by blast
next
  assume "\<exists>w. find (hasKey k) ws = Some w \<and> p w"
  then obtain w where w: "find (hasKey k) ws = Some w" "p w" by blast
  then show "0 < rowsAffected (\<lambda>w. hasKey k w \<and> p w) ws"
    using find_SomeD [OF w(1)] by (auto simp: rowsAffected_pos)
qed

section \<open>Cents as parameters\<close>

lemma CentsToFloat_column: "0 \<le> c \<Longrightarrow> c < moneyCap \<Longrightarrow> CentsToFloat c = f64 (of_int c / 10 ^ 2)"
  by (simp add: CentsToFloat_def f_of_int_exact scale_defs moneyCap_def)

lemma numericFloat_cents: "0 \<le> c \<Longrightarrow> c < moneyCap \<Longrightarrow> numericFloat 2 c = CentsToFloat c"
  by (simp add: numericFloat_def CentsToFloat_column)

lemma numericArg_cents [simp]:
  assumes "0 \<le> c" "c < moneyCap"
  shows "numericArg m (CentsToFloat c) = Inr (of_int c / 100)"
proof -
  have "(of_int c :: rat) < of_int moneyCap" using assms(2) by linarith
  then have "(of_int c :: rat) / 10 ^ 2 < 2 ^ 27" by (simp add: moneyCap_def)
  then show ?thesis using numericParam_units [OF assms(1), of 2] assms
    by (simp add: numericArg_def CentsToFloat_column)
qed

lemma toColumn_cents [simp]: "toColumn 2 (of_int c / 100) = c"
  using toColumn_units [of 2 c] by simp

lemma addCents_cents [simp]:
  "addCents b (of_int c / 100) = b + c" "addCents b (- (of_int c / 100)) = b - c" "addCents b 0 = b"
proof -
  have "(of_int b / 100 + of_int c / 100 :: rat) = of_int (b + c) / 100" by (simp add: add_divide_distrib)
  then show "addCents b (of_int c / 100) = b + c" by (simp only: addCents_def toColumn_cents)
  have "(of_int b / 100 + - (of_int c / 100) :: rat) = of_int (b - c) / 100" by (simp add: diff_divide_distrib)
  then show "addCents b (- (of_int c / 100)) = b - c" by (simp only: addCents_def toColumn_cents)
  show "addCents b 0 = b" by (simp add: addCents_def)
qed

lemma covers_cents [simp]: "covers b (of_int c / 100) \<longleftrightarrow> c \<le> b"
  by (simp add: covers_def divide_le_cancel)

section \<open>The contract\<close>

definition purse :: "walletRow list \<Rightarrow> walletKey \<Rightarrow> (int \<times> int) option" where
  "purse ws k = map_option (\<lambda>w. (wl_balance w, wl_locked_balance w)) (find (hasKey k) ws)"

definition purses_ok :: "walletRow list \<Rightarrow> bool" where
  "purses_ok ws \<longleftrightarrow> wallets_ok ws \<and> distinct (map wl_id ws)
     \<and> (\<forall>w \<in> set ws. 0 \<le> wl_balance w \<and> 0 \<le> wl_locked_balance w \<and> wl_balance w + wl_locked_balance w < moneyCap)"

text \<open>An update of the wallet of a key.\<close>

definition setPurse :: "walletKey \<Rightarrow> int \<Rightarrow> int \<Rightarrow> time \<Rightarrow> walletRow list \<Rightarrow> walletRow list" where
  "setPurse k a l t ws = updateWhere (hasKey k)
     (\<lambda>w. w\<lparr>wl_balance := a, wl_locked_balance := l, wl_updated_at := t\<rparr>) ws"

lemma setPurse_keys: "map (\<lambda>w. (wl_id w, wl_merchant_id w, wl_user_id w, wl_currency w)) (setPurse k a l t ws)
    = map (\<lambda>w. (wl_id w, wl_merchant_id w, wl_user_id w, wl_currency w)) ws"
  by (simp add: setPurse_def updateWhere_def)

lemma setPurse_ok:
  assumes "purses_ok ws" "0 \<le> a" "0 \<le> l" "a + l < moneyCap"
  shows "purses_ok (setPurse k a l t ws)"
proof -
  have "map wl_id (setPurse k a l t ws) = map wl_id ws"
    "map (\<lambda>w. (wl_merchant_id w, wl_user_id w, wl_currency w)) (setPurse k a l t ws)
      = map (\<lambda>w. (wl_merchant_id w, wl_user_id w, wl_currency w)) ws"
    by (simp_all add: setPurse_def updateWhere_def)
  moreover have "\<forall>w \<in> set (setPurse k a l t ws). 0 \<le> wl_balance w \<and> 0 \<le> wl_locked_balance w
      \<and> wl_balance w + wl_locked_balance w < moneyCap"
    using assms by (auto simp: purses_ok_def setPurse_def updateWhere_def)
  ultimately show ?thesis using assms(1) by (simp add: purses_ok_def wallets_ok_def)
qed

lemma purse_setPurse:
  assumes "wallets_ok ws" "purse ws k = Some p"
  shows "purse (setPurse k a l t ws) = (purse ws)(k \<mapsto> (a, l))"
proof -
  let ?f = "\<lambda>w. w\<lparr>wl_balance := a, wl_locked_balance := l, wl_updated_at := t\<rparr>"
  obtain w where w: "find (hasKey k) ws = Some w" using assms(2) by (auto simp: purse_def)
  have "find (hasKey k') (setPurse k a l t ws) = (if k' = k then Some (?f w) else find (hasKey k') ws)" for k'
    using updateWhere_key [OF assms(1) w, of "\<lambda>_. True" ?f k'] by (simp add: setPurse_def)
  then show ?thesis by (simp add: purse_def fun_eq_iff)
qed

lemma updateWallet_setPurse:
  assumes "wallets_ok (db_wallets d)" "find (hasKey k) (db_wallets d) = Some w" "p w"
    "addCents (wl_balance w) x = a" "addCents (wl_locked_balance w) y = l"
  shows "updateWallet k p x y d = setPurse k a l (db_now d) (db_wallets d)"
proof -
  have "u = w" if "u \<in> set (db_wallets d)" "hasKey k u" for u
    using hasKey_unique [OF assms(1) that(1) _ that(2)] find_SomeD [OF assms(2)] by blast
  then show ?thesis
    using assms(3-5) unfolding updateWallet_def setPurse_def updateWhere_def by (intro map_cong refl) auto
qed

lemma updateWallet_none:
  assumes "\<forall>w. find (hasKey k) (db_wallets d) = Some w \<longrightarrow> \<not> p w" "wallets_ok (db_wallets d)"
  shows "updateWallet k p x y d = db_wallets d"
  unfolding updateWallet_def
  using rowsAffected_key [OF assms(2), of k p] assms(1) by (intro updateWhere_none) (metis gr0I)

lemma purse_bounds: "purses_ok ws \<Longrightarrow> purse ws k = Some (a, l) \<Longrightarrow> 0 \<le> a \<and> 0 \<le> l \<and> a + l < moneyCap"
  by (auto simp: purse_def purses_ok_def dest!: find_SomeD)

definition pgLock :: "walletKey \<Rightarrow> int \<Rightarrow> time \<Rightarrow> db \<Rightarrow> unit res \<times> db" where
  "pgLock key cents t d = walletPgLock all_fine key (CentsToFloat cents) d"

definition pgUnlock :: "walletKey \<Rightarrow> int \<Rightarrow> time \<Rightarrow> db \<Rightarrow> unit res \<times> db" where
  "pgUnlock key cents t d = walletPgUnlock all_fine key (CentsToFloat cents) d"

lemma classify_fine: "classifyBalanceFailure all_fine k b d = (case purse (db_wallets d) k of
    None \<Rightarrow> Sentinel WalletErrNotFound
  | Some _ \<Rightarrow> Sentinel (if b then WalletErrInsufficientLocked else WalletErrInsufficientBalance))"
  by (simp add: classifyBalanceFailure_def purse_def split: option.split)

lemma pgLock_eq:
  assumes "wallets_ok (db_wallets d)" "0 \<le> c" "c < moneyCap"
  shows "pgLock k c t d = (case purse (db_wallets d) k of
      None \<Rightarrow> (Inl (Sentinel WalletErrNotFound), d)
    | Some (a, l) \<Rightarrow> if c \<le> a then (Inr (), d\<lparr>db_wallets := setPurse k (a - c) (l + c) (db_now d) (db_wallets d)\<rparr>)
        else (Inl (Sentinel WalletErrInsufficientBalance), d))"
proof -
  note ok = assms(1)
  note aff = rowsAffected_key [OF ok, of k "\<lambda>w. c \<le> wl_balance w"]
  show ?thesis
  proof (cases "find (hasKey k) (db_wallets d)")
    case None
    then show ?thesis
      using aff assms(2,3) updateWallet_none [OF _ ok, of k "\<lambda>w. c \<le> wl_balance w"]
      by (simp add: pgLock_def walletPgLock_def requireWalletUpdate_def classify_fine purse_def)
  next
    case (Some w)
    show ?thesis
    proof (cases "c \<le> wl_balance w")
      case True
      then have "updateWallet k (\<lambda>w. c \<le> wl_balance w) (- (of_int c / 100)) (of_int c / 100) d
          = setPurse k (wl_balance w - c) (wl_locked_balance w + c) (db_now d) (db_wallets d)"
        by (intro updateWallet_setPurse [OF assms(1) Some]) simp_all
      then show ?thesis using aff assms(2,3) Some True
        by (simp add: pgLock_def walletPgLock_def requireWalletUpdate_def purse_def)
    next
      case False
      then show ?thesis
        using aff assms(2,3) Some updateWallet_none [OF _ ok, of k "\<lambda>w. c \<le> wl_balance w"]
        by (simp add: pgLock_def walletPgLock_def requireWalletUpdate_def classify_fine purse_def)
    qed
  qed
qed

lemma pgUnlock_eq:
  assumes "wallets_ok (db_wallets d)" "0 \<le> c" "c < moneyCap"
  shows "pgUnlock k c t d = (case purse (db_wallets d) k of
      None \<Rightarrow> (Inl (Sentinel WalletErrNotFound), d)
    | Some (a, l) \<Rightarrow> if c \<le> l then (Inr (), d\<lparr>db_wallets := setPurse k (a + c) (l - c) (db_now d) (db_wallets d)\<rparr>)
        else (Inl (Sentinel WalletErrInsufficientLocked), d))"
proof -
  note ok = assms(1)
  note aff = rowsAffected_key [OF ok, of k "\<lambda>w. c \<le> wl_locked_balance w"]
  show ?thesis
  proof (cases "find (hasKey k) (db_wallets d)")
    case None
    then show ?thesis
      using aff assms(2,3) updateWallet_none [OF _ ok, of k "\<lambda>w. c \<le> wl_locked_balance w"]
      by (simp add: pgUnlock_def walletPgUnlock_def requireWalletUpdate_def classify_fine purse_def)
  next
    case (Some w)
    show ?thesis
    proof (cases "c \<le> wl_locked_balance w")
      case True
      then have "updateWallet k (\<lambda>w. c \<le> wl_locked_balance w) (of_int c / 100) (- (of_int c / 100)) d
          = setPurse k (wl_balance w + c) (wl_locked_balance w - c) (db_now d) (db_wallets d)"
        by (intro updateWallet_setPurse [OF assms(1) Some]) simp_all
      then show ?thesis using aff assms(2,3) Some True
        by (simp add: pgUnlock_def walletPgUnlock_def requireWalletUpdate_def purse_def)
    next
      case False
      then show ?thesis
        using aff assms(2,3) Some updateWallet_none [OF _ ok, of k "\<lambda>w. c \<le> wl_locked_balance w"]
        by (simp add: pgUnlock_def walletPgUnlock_def requireWalletUpdate_def classify_fine purse_def)
    qed
  qed
qed

interpretation pg: wallet_store "\<lambda>d. purses_ok (db_wallets d)" "\<lambda>d. purse (db_wallets d)" pgLock pgUnlock moneyCap
proof unfold_locales
  fix d :: db and k and a l c :: int and t
  assume ok: "purses_ok (db_wallets d)"
  then have w: "wallets_ok (db_wallets d)" by (simp add: purses_ok_def)
  show "0 \<le> a \<and> 0 \<le> l \<and> a + l < moneyCap" if "purse (db_wallets d) k = Some (a, l)"
    using purse_bounds [OF ok that] .
  show "fst (pgLock k c t d) = Inr () \<and> purse (db_wallets (snd (pgLock k c t d))) = (purse (db_wallets d))(k \<mapsto> (a - c, l + c))"
    if "purse (db_wallets d) k = Some (a, l)" "0 \<le> c" "c \<le> a"
    using that pgLock_eq [OF w] purse_bounds [OF ok that(1)] purse_setPurse [OF w that(1)] by simp
  show "pgLock k c t d = (Inl (Sentinel WalletErrInsufficientBalance), d)"
    if "purse (db_wallets d) k = Some (a, l)" "a < c" "c < moneyCap"
    using that pgLock_eq [OF w _ that(3)] purse_bounds [OF ok that(1)] by simp
  show "pgLock k c t d = (Inl (Sentinel WalletErrNotFound), d)"
    if "purse (db_wallets d) k = None" "0 \<le> c" "c < moneyCap"
    using that pgLock_eq [OF w that(2,3)] by simp
  show "fst (pgUnlock k c t d) = Inr () \<and> purse (db_wallets (snd (pgUnlock k c t d))) = (purse (db_wallets d))(k \<mapsto> (a + c, l - c))"
    if "purse (db_wallets d) k = Some (a, l)" "0 \<le> c" "c \<le> l"
    using that pgUnlock_eq [OF w] purse_bounds [OF ok that(1)] purse_setPurse [OF w that(1)] by simp
  show "pgUnlock k c t d = (Inl (Sentinel WalletErrInsufficientLocked), d)"
    if "purse (db_wallets d) k = Some (a, l)" "l < c" "c < moneyCap"
    using that pgUnlock_eq [OF w _ that(3)] purse_bounds [OF ok that(1)] by simp
  show "pgUnlock k c t d = (Inl (Sentinel WalletErrNotFound), d)"
    if "purse (db_wallets d) k = None" "0 \<le> c" "c < moneyCap"
    using that pgUnlock_eq [OF w that(2,3)] by simp
  show "purses_ok (db_wallets (snd (pgLock k c t d)))" if "0 \<le> c" "c < moneyCap"
    using that pgLock_eq [OF w that] purse_bounds [OF ok, of k] setPurse_ok [OF ok] ok
    by (auto split: option.split)
  show "purses_ok (db_wallets (snd (pgUnlock k c t d)))" if "0 \<le> c" "c < moneyCap"
    using that pgUnlock_eq [OF w that] purse_bounds [OF ok, of k] setPurse_ok [OF ok] ok
    by (auto split: option.split)
qed

text \<open>Two stores that fulfil the contract and agree on the accounts answer alike and still agree.\<close>

locale wallet_store_pair =
  a: wallet_store inv1 acct1 lock1 unlock1 cap + b: wallet_store inv2 acct2 lock2 unlock2 cap
  for inv1 :: "'s \<Rightarrow> bool" and acct1 :: "'s \<Rightarrow> walletKey \<Rightarrow> (int \<times> int) option"
    and lock1 unlock1 :: "walletKey \<Rightarrow> int \<Rightarrow> time \<Rightarrow> 's \<Rightarrow> unit res \<times> 's"
    and inv2 :: "'t \<Rightarrow> bool" and acct2 :: "'t \<Rightarrow> walletKey \<Rightarrow> (int \<times> int) option"
    and lock2 unlock2 :: "walletKey \<Rightarrow> int \<Rightarrow> time \<Rightarrow> 't \<Rightarrow> unit res \<times> 't"
    and cap :: int
begin

lemma lock_agrees:
  assumes "inv1 s" "inv2 s'" "acct1 s = acct2 s'" "0 \<le> c" "c < cap"
  shows "fst (lock1 k c t s) = fst (lock2 k c t' s') \<and> acct1 (snd (lock1 k c t s)) = acct2 (snd (lock2 k c t' s'))"
proof (cases rule: a.lock_cases [OF assms(1,4,5), of k t])
  case 1
  then show ?thesis using b.lock_missing [OF assms(2) _ assms(4,5)] assms(3) by simp
next
  case (2 a l)
  then show ?thesis using b.lock_short [OF assms(2) _ _ assms(5)] assms(3) by simp
next
  case (3 a l)
  then show ?thesis using b.lock_ok [OF assms(2) _ assms(4)] assms(3) by simp
qed

lemma unlock_agrees:
  assumes "inv1 s" "inv2 s'" "acct1 s = acct2 s'" "0 \<le> c" "c < cap"
  shows "fst (unlock1 k c t s) = fst (unlock2 k c t' s') \<and> acct1 (snd (unlock1 k c t s)) = acct2 (snd (unlock2 k c t' s'))"
proof (cases rule: a.unlock_cases [OF assms(1,4,5), of k t])
  case 1
  then show ?thesis using b.unlock_missing [OF assms(2) _ assms(4,5)] assms(3) by simp
next
  case (2 a l)
  then show ?thesis using b.unlock_short [OF assms(2) _ _ assms(5)] assms(3) by simp
next
  case (3 a l)
  then show ?thesis using b.unlock_ok [OF assms(2) _ assms(4)] assms(3) by simp
qed

end

interpretation repos: wallet_store_pair wallet_inv account memLock memUnlock
  "\<lambda>d. purses_ok (db_wallets d)" "\<lambda>d. purse (db_wallets d)" pgLock pgUnlock moneyCap
  by unfold_locales

section \<open>Transactions\<close>

definition tx_row :: "transaction \<Rightarrow> int \<Rightarrow> transactionRow" where
  "tx_row t c = \<lparr>tx_id = t_ID t, tx_wallet_id = t_WalletID t, tx_type = t_Type t, tx_amount = c,
     tx_currency = t_Currency t, tx_related_order_id = t_RelatedOrderID t,
     tx_idempotency_key = walletNullableKey (t_IdempotencyKey t), tx_status = t_Status t,
     tx_created_at = stamp (t_CreatedAt t)\<rparr>"

text \<open>A transaction as the service makes it.\<close>

definition cents_tx :: "transaction \<Rightarrow> int \<Rightarrow> bool" where
  "cents_tx t c \<longleftrightarrow> t_Amount t = CentsToFloat c \<and> 0 \<le> c \<and> c < moneyCap \<and> t_RelatedOrderID t = None"

lemma cents_tx_wallet [simp]: "cents_tx (t\<lparr>t_WalletID := i\<rparr>) c = cents_tx t c"
  by (simp add: cents_tx_def)

lemma insertTransaction_eq:
  assumes "cents_tx t c"
  shows "insertTransaction fault t d =
    (if fault ''insert transaction'' (t_ID t) then (Inl (Wrapped ''insert wallet transaction'' dbError), d)
     else if list_ex (transactionTaken t) (db_transactions d) then (Inl (Sentinel WalletErrAlreadyExists), d)
     else (Inr (), d\<lparr>db_transactions := db_transactions d @ [tx_row t c]\<rparr>))"
  using assms by (simp add: insertTransaction_def cents_tx_def tx_row_def)

lemma debitTx_eq:
  assumes "wallets_ok (db_wallets d)" "cents_tx t c"
  shows "debitTx fault k (CentsToFloat c) t d =
    (if fault ''debit wallet'' (wk_UserID k) then (Inl (Wrapped ''update debited wallet'' dbError), d)
     else case find (hasKey k) (db_wallets d) of
         None \<Rightarrow> (Inl (classifyBalanceFailure fault k False d), d)
       | Some w \<Rightarrow>
           if c \<le> wl_balance w
           then insertTransaction fault (t\<lparr>t_WalletID := wl_id w\<rparr>) (d\<lparr>db_wallets :=
             setPurse k (wl_balance w - c) (wl_locked_balance w) (db_now d) (db_wallets d)\<rparr>)
           else (Inl (classifyBalanceFailure fault k False d), d))"
proof -
  have c: "0 \<le> c" "c < moneyCap" using assms(2) by (simp_all add: cents_tx_def)
  have f: "find (\<lambda>w. hasKey k w \<and> c \<le> wl_balance w) (db_wallets d) =
      (case find (hasKey k) (db_wallets d) of None \<Rightarrow> None | Some w \<Rightarrow> if c \<le> wl_balance w then Some w else None)"
  proof (cases "find (hasKey k) (db_wallets d)")
    case None
    then have "find (\<lambda>w. hasKey k w \<and> c \<le> wl_balance w) (db_wallets d) = None" by (auto simp: find_None_iff)
    then show ?thesis using None by simp
  next
    case (Some w)
    note w = find_SomeD [OF Some]
    have only: "u = w" if "u \<in> set (db_wallets d)" "hasKey k u" for u
      using hasKey_unique [OF assms(1) that(1) _ that(2)] w by blast
    show ?thesis
    proof (cases "find (\<lambda>w. hasKey k w \<and> c \<le> wl_balance w) (db_wallets d)")
      case None
      then show ?thesis using Some w by (auto simp: find_None_iff)
    next
      case s: (Some u)
      then show ?thesis using Some only [of u] find_SomeD [OF s] by auto
    qed
  qed
  show ?thesis
    using c f updateWallet_setPurse [OF assms(1), of k _ "\<lambda>w. c \<le> wl_balance w" "- (of_int c / 100)" _ 0]
    by (auto simp: debitTx_def split: option.split)
qed

text \<open>The wallets with the one a credit opens.\<close>

definition opened_row :: "wallet \<Rightarrow> walletRow" where
  "opened_row v = \<lparr>wl_id = w_ID v, wl_merchant_id = w_MerchantID v, wl_user_id = w_UserID v,
     wl_currency = w_Currency v, wl_balance = 0, wl_locked_balance = 0, wl_updated_at = stamp (w_UpdatedAt v)\<rparr>"

definition opened :: "wallet \<Rightarrow> walletRow list \<Rightarrow> walletRow list" where
  "opened v ws = (if list_ex (hasKey (keyFromWallet v)) ws then ws else ws @ [opened_row v])"

lemma opened_row_simps [simp]:
  "wl_id (opened_row v) = w_ID v" "wl_balance (opened_row v) = 0" "wl_locked_balance (opened_row v) = 0"
  "hasKey k (opened_row v) \<longleftrightarrow> k = keyFromWallet v" "wl_currency (opened_row v) = w_Currency v"
  by (cases k) (auto simp: opened_row_def hasKey_def keyFromWallet_def)

lemma ensureWalletRow_Inr:
  "ensureWalletRow fault v d = (Inr (), d') \<longleftrightarrow> \<not> fault ''ensure wallet'' (w_ID v)
     \<and> d' = d\<lparr>db_wallets := opened v (db_wallets d)\<rparr>
     \<and> (list_ex (hasKey (keyFromWallet v)) (db_wallets d)
        \<or> (\<forall>w \<in> set (db_wallets d). wl_id w \<noteq> w_ID v) \<and> map_of (db_merchants d) (w_MerchantID v) \<noteq> None)"
  by (auto simp: ensureWalletRow_def opened_def opened_row_def list_ex_iff)

lemma opened_ok:
  assumes "wallets_ok ws"
  shows "wallets_ok (opened v ws)"
proof (cases "list_ex (hasKey (keyFromWallet v)) ws")
  case False
  then show ?thesis using assms
    by (auto simp: opened_def wallets_ok_def opened_row_def hasKey_def keyFromWallet_def list_ex_iff)
qed (simp add: assms opened_def)

lemma find_opened:
  "find (hasKey k) (opened v ws) = (case find (hasKey k) ws of
      Some w \<Rightarrow> Some w | None \<Rightarrow> if k = keyFromWallet v then Some (opened_row v) else None)"
proof -
  have app: "find p (xs @ ys) = (case find p xs of Some x \<Rightarrow> Some x | None \<Rightarrow> find p ys)" for p and xs ys :: "walletRow list"
    by (induction xs) auto
  have none: "list_ex (hasKey k) ws \<longleftrightarrow> find (hasKey k) ws \<noteq> None" for k
    by (auto simp: list_ex_iff find_None_iff)
  show ?thesis by (auto simp: opened_def app none split: option.split)
qed

lemma creditTx_Inr:
  assumes "wallets_ok (db_wallets d)" "cents_tx t c"
  shows "creditTx fault v t d = (Inr (), d') \<longleftrightarrow> \<not> fault ''ensure wallet'' (w_ID v) \<and> \<not> fault ''credit wallet'' (w_ID v)
    \<and> (list_ex (hasKey (keyFromWallet v)) (db_wallets d)
        \<or> (\<forall>w \<in> set (db_wallets d). wl_id w \<noteq> w_ID v) \<and> map_of (db_merchants d) (w_MerchantID v) \<noteq> None)
    \<and> (\<exists>w. find (hasKey (keyFromWallet v)) (opened v (db_wallets d)) = Some w
        \<and> insertTransaction fault (t\<lparr>t_WalletID := wl_id w\<rparr>) (d\<lparr>db_wallets := setPurse (keyFromWallet v)
            (wl_balance w + c) (wl_locked_balance w) (db_now d) (opened v (db_wallets d))\<rparr>) = (Inr (), d'))"
proof -
  let ?k = "keyFromWallet v" and ?d1 = "d\<lparr>db_wallets := opened v (db_wallets d)\<rparr>"
  have c: "0 \<le> c" "c < moneyCap" "t_Amount t = CentsToFloat c" using assms(2) by (simp_all add: cents_tx_def)
  have ok: "wallets_ok (db_wallets ?d1)" using opened_ok [OF assms(1)] by simp
  obtain w where w: "find (hasKey ?k) (opened v (db_wallets d)) = Some w"
    by (cases "find (hasKey ?k) (db_wallets d)") (auto simp: find_opened)
  have u: "updateWallet ?k (\<lambda>_. True) (of_int c / 100) 0 ?d1
      = setPurse ?k (wl_balance w + c) (wl_locked_balance w) (db_now ?d1) (db_wallets ?d1)"
    by (rule updateWallet_setPurse [OF ok]) (simp_all add: w)
  show ?thesis
  proof (cases "ensureWalletRow fault v d = (Inr (), ?d1)")
    case True
    then show ?thesis using c w u ensureWalletRow_Inr [of fault v d ?d1]
      by (simp add: creditTx_def Let_def)
  next
    case False
    then have "fst (ensureWalletRow fault v d) \<noteq> Inr ()"
      using ensureWalletRow_Inr [of fault v d "snd (ensureWalletRow fault v d)"] by (metis prod.collapse)
    then show ?thesis using False by (auto simp: creditTx_def Let_def andThen_Inr ensureWalletRow_Inr)
  qed
qed

section \<open>The tables simulate the in-memory store\<close>

definition pg_recorded :: "db \<Rightarrow> walletKey \<Rightarrow> string \<Rightarrow> bool" where
  "pg_recorded d k x \<longleftrightarrow> (\<exists>w. find (hasKey k) (db_wallets d) = Some w
     \<and> (\<exists>t \<in> set (db_transactions d). tx_wallet_id t = wl_id w \<and> tx_idempotency_key t = Some x))"

text \<open>Tables and store hold the same accounts and have recorded the same idempotency keys.\<close>

definition wallet_sim :: "db \<Rightarrow> walletRepo \<Rightarrow> bool" where
  "wallet_sim d r \<longleftrightarrow> purses_ok (db_wallets d) \<and> ledger_inv r \<and> idem_inv r
     \<and> purse (db_wallets d) = account r
     \<and> (\<forall>k x. x \<noteq> [] \<longrightarrow> pg_recorded d k x = idem_recorded r k x)
     \<and> (\<forall>t \<in> set (db_transactions d). tx_wallet_id t \<in> wl_id ` set (db_wallets d))"

definition fresh_tx :: "transaction \<Rightarrow> db \<Rightarrow> walletRepo \<Rightarrow> bool" where
  "fresh_tx t d r \<longleftrightarrow> (\<forall>t' \<in> set (db_transactions d). tx_id t' \<noteq> t_ID t) \<and> map_of (wr_transactions r) (t_ID t) = None"

definition fresh_wallet :: "wallet \<Rightarrow> db \<Rightarrow> walletRepo \<Rightarrow> bool" where
  "fresh_wallet v d r \<longleftrightarrow> w_Balance v = Fin 0 \<and> w_LockedBalance v = Fin 0
     \<and> (\<forall>w \<in> set (db_wallets d). wl_id w \<noteq> w_ID v) \<and> w_ID v \<notin> keys (wr_byID r)
     \<and> map_of (db_merchants d) (w_MerchantID v) \<noteq> None"

lemma find_setPurse_id:
  "map_option wl_id (find (hasKey k') (setPurse k a l t ws)) = map_option wl_id (find (hasKey k') ws)"
  by (induction ws) (auto simp: setPurse_def updateWhere_def)

lemma setPurse_ids [simp]: "wl_id ` set (setPurse k a l t ws) = wl_id ` set ws"
proof -
  have "map wl_id (setPurse k a l t ws) = map wl_id ws" by (simp add: setPurse_def updateWhere_def)
  then show ?thesis by (metis list.set_map)
qed

lemma pg_recorded_def2:
  "pg_recorded d k x \<longleftrightarrow> (\<exists>i. map_option wl_id (find (hasKey k) (db_wallets d)) = Some i
     \<and> (\<exists>t \<in> set (db_transactions d). tx_wallet_id t = i \<and> tx_idempotency_key t = Some x))"
  by (auto simp: pg_recorded_def)

lemma pg_recorded_setPurse [simp]:
  "pg_recorded (d\<lparr>db_wallets := setPurse k a l t (db_wallets d)\<rparr>) = pg_recorded d"
  by (simp add: fun_eq_iff pg_recorded_def2 find_setPurse_id)

lemma idem_recorded_store [simp]: "idem_recorded (storeWallet i w r) = idem_recorded r"
  by (simp add: idem_recorded_def storeWallet_def fun_eq_iff split: option.split)

lemma idem_recorded_tx [simp]: "idem_recorded (r\<lparr>wr_transactions := x\<rparr>) = idem_recorded r"
  by (simp add: idem_recorded_def fun_eq_iff split: option.split)

definition tables_kept :: "db \<Rightarrow> db \<Rightarrow> bool" where
  "tables_kept d d' \<longleftrightarrow> pg_recorded d' = pg_recorded d \<and> db_transactions d' = db_transactions d
    \<and> wl_id ` set (db_wallets d') = wl_id ` set (db_wallets d)"

lemma tables_kept_simps [simp]: "tables_kept d d"
  "tables_kept d (d\<lparr>db_wallets := setPurse k a l t (db_wallets d)\<rparr>)"
  by (simp_all add: tables_kept_def)

lemma tables_kept_move:
  assumes "wallet_sim d r" "0 \<le> c" "c < moneyCap"
  shows "tables_kept d (snd (pgLock k c t d))" "tables_kept d (snd (pgUnlock k c t d))"
proof -
  have ok: "wallets_ok (db_wallets d)" using assms(1) by (simp add: wallet_sim_def purses_ok_def)
  show "tables_kept d (snd (pgLock k c t d))" "tables_kept d (snd (pgUnlock k c t d))"
    using pgLock_eq [OF ok assms(2,3), of k t] pgUnlock_eq [OF ok assms(2,3), of k t]
    by (auto split: option.splits if_splits)
qed

lemma sim_lock:
  assumes "wallet_sim d r" "0 \<le> c" "c < moneyCap"
  shows "fst (walletPgLock all_fine k (CentsToFloat c) d) = fst (walletRepoLock False k (CentsToFloat c) now r)"
    "wallet_sim (snd (walletPgLock all_fine k (CentsToFloat c) d)) (snd (walletRepoLock False k (CentsToFloat c) now r))"
proof -
  have s: "purses_ok (db_wallets d)" "ledger_inv r" "idem_inv r" "purse (db_wallets d) = account r"
    using assms(1) by (simp_all add: wallet_sim_def)
  have agree: "fst (memLock k c now r) = fst (pgLock k c now d)"
    "account (snd (memLock k c now r)) = purse (db_wallets (snd (pgLock k c now d)))"
    using repos.lock_agrees [OF ledger_wallet_inv [OF s(2)] s(1) s(4) [symmetric] assms(2,3)] by blast+
  then show "fst (walletPgLock all_fine k (CentsToFloat c) d) = fst (walletRepoLock False k (CentsToFloat c) now r)"
    by (simp only: pgLock_def memLock_def)
  have "idem_recorded (snd (memLock k c now r)) = idem_recorded r"
    by (auto simp: memLock_def walletRepoLock_def Let_def split: sum.split)
  moreover have "idem_inv (snd (memLock k c now r))" "ledger_inv (snd (memLock k c now r))"
    using idem_inv_repo(4) [OF s(3) ledger_wallet_inv [OF s(2)]] ledger_Lock [OF s(2)] by (simp_all add: memLock_def)
  moreover note tables_kept_move(1) [OF assms, of k now]
    pg.invar_lock [OF s(1) assms(2,3), of k now]
  ultimately have "wallet_sim (snd (pgLock k c now d)) (snd (memLock k c now r))"
    using assms(1) agree(2) by (simp add: wallet_sim_def tables_kept_def)
  then show "wallet_sim (snd (walletPgLock all_fine k (CentsToFloat c) d)) (snd (walletRepoLock False k (CentsToFloat c) now r))"
    by (simp only: pgLock_def memLock_def)
qed

lemma sim_unlock:
  assumes "wallet_sim d r" "0 \<le> c" "c < moneyCap"
  shows "fst (walletPgUnlock all_fine k (CentsToFloat c) d) = fst (walletRepoUnlock False k (CentsToFloat c) now r)"
    "wallet_sim (snd (walletPgUnlock all_fine k (CentsToFloat c) d)) (snd (walletRepoUnlock False k (CentsToFloat c) now r))"
proof -
  have s: "purses_ok (db_wallets d)" "ledger_inv r" "idem_inv r" "purse (db_wallets d) = account r"
    using assms(1) by (simp_all add: wallet_sim_def)
  have agree: "fst (memUnlock k c now r) = fst (pgUnlock k c now d)"
    "account (snd (memUnlock k c now r)) = purse (db_wallets (snd (pgUnlock k c now d)))"
    using repos.unlock_agrees [OF ledger_wallet_inv [OF s(2)] s(1) s(4) [symmetric] assms(2,3)] by blast+
  then show "fst (walletPgUnlock all_fine k (CentsToFloat c) d) = fst (walletRepoUnlock False k (CentsToFloat c) now r)"
    by (simp only: pgUnlock_def memUnlock_def)
  have "idem_recorded (snd (memUnlock k c now r)) = idem_recorded r"
    by (auto simp: memUnlock_def walletRepoUnlock_def Let_def split: sum.split)
  moreover have "idem_inv (snd (memUnlock k c now r))" "ledger_inv (snd (memUnlock k c now r))"
    using idem_inv_repo(5) [OF s(3) ledger_wallet_inv [OF s(2)]] ledger_Unlock [OF s(2)] by (simp_all add: memUnlock_def)
  moreover note tables_kept_move(2) [OF assms, of k now]
    pg.invar_unlock [OF s(1) assms(2,3), of k now]
  ultimately have "wallet_sim (snd (pgUnlock k c now d)) (snd (memUnlock k c now r))"
    using assms(1) agree(2) by (simp add: wallet_sim_def tables_kept_def)
  then show "wallet_sim (snd (walletPgUnlock all_fine k (CentsToFloat c) d)) (snd (walletRepoUnlock False k (CentsToFloat c) now r))"
    by (simp only: pgUnlock_def memUnlock_def)
qed

lemma pg_recorded_snoc:
  "pg_recorded (d\<lparr>db_transactions := db_transactions d @ [row]\<rparr>) k x \<longleftrightarrow> pg_recorded d k x
     \<or> (\<exists>w. find (hasKey k) (db_wallets d) = Some w \<and> tx_wallet_id row = wl_id w \<and> tx_idempotency_key row = Some x)"
  by (auto simp: pg_recorded_def)

lemma purse_Some: "purse ws k = Some (a, l) \<longleftrightarrow> (\<exists>w. find (hasKey k) ws = Some w \<and> wl_balance w = a \<and> wl_locked_balance w = l)"
  by (auto simp: purse_def)

text \<open>A debit as the service makes it has no idempotency key.\<close>

lemma sim_debit:
  assumes "wallet_sim d r" "cents_tx t c" "t_IdempotencyKey t = []" "fresh_tx t d r"
    "\<not> (t_Type t = ''credit'' \<or> t_Type t = ''win'')"
  shows "fst (walletPgDebit all_fine k (CentsToFloat c) t d) = fst (walletRepoDebit False k (CentsToFloat c) t now r)"
    "wallet_sim (snd (walletPgDebit all_fine k (CentsToFloat c) t d)) (snd (walletRepoDebit False k (CentsToFloat c) t now r))"
proof -
  have s: "purses_ok (db_wallets d)" "ledger_inv r" "idem_inv r" "purse (db_wallets d) = account r"
    using assms(1) by (simp_all add: wallet_sim_def)
  then have ok: "wallets_ok (db_wallets d)" by (simp add: purses_ok_def)
  have c: "t_Amount t = CentsToFloat c" "0 \<le> c" "c < moneyCap" using assms(2) by (simp_all add: cents_tx_def)
  note pgd = debitTx_eq [OF ok assms(2), of all_fine k]
  note inv = ledger_Debit [OF s(2) c(1) assms(5), of False k now] idem_inv_repo(3) [OF s(3) ledger_wallet_inv [OF s(2)]]
  have "fst (walletPgDebit all_fine k (CentsToFloat c) t d) = fst (walletRepoDebit False k (CentsToFloat c) t now r)
    \<and> wallet_sim (snd (walletPgDebit all_fine k (CentsToFloat c) t d)) (snd (walletRepoDebit False k (CentsToFloat c) t now r))"
  proof (cases "purse (db_wallets d) k")
    case None
    then have "account r k = None" using s(4) by simp
    moreover have "find (hasKey k) (db_wallets d) = None" using None by (simp add: purse_def)
    ultimately show ?thesis
      using None assms(1) account_None [OF _ ledger_wallet_inv [OF s(2)]] pgd
      by (simp add: walletPgDebit_def inTx_ok walletRepoDebit_def classify_fine)
  next
    case (Some p)
    obtain a l where al: "purse (db_wallets d) k = Some (a, l)" using Some by (cases p) simp
    then obtain w where w: "find (hasKey k) (db_wallets d) = Some w" "wl_balance w = a" "wl_locked_balance w = l"
      by (auto simp: purse_Some)
    have acc: "account r k = Some (a, l)" using al s(4) by simp
    have fresh: "map_of (wr_transactions r) (t_ID t) = None" using assms(4) by (simp add: fresh_tx_def)
    note mem = walletRepoDebit_outcome [OF s(2) acc c(2,3) fresh, of now]
    show ?thesis
    proof (cases "c \<le> a")
      case False
      then show ?thesis using mem(2) pgd w al assms(1) by (simp add: walletPgDebit_def inTx_ok classify_fine)
    next
      case True
      let ?row = "tx_row (t\<lparr>t_WalletID := wl_id w\<rparr>) c"
      let ?ws = "setPurse k (a - c) l (db_now d) (db_wallets d)"
      let ?d = "d\<lparr>db_wallets := ?ws, db_transactions := db_transactions d @ [?row]\<rparr>"
      have "\<not> list_ex (transactionTaken (t\<lparr>t_WalletID := wl_id w\<rparr>)) (db_transactions d)"
        using assms(3,4) by (auto simp: list_ex_iff transactionTaken_def walletNullableKey_def fresh_tx_def)
      then have pg: "walletPgDebit all_fine k (CentsToFloat c) t d = (Inr (), ?d)"
        using pgd w True insertTransaction_eq [of "t\<lparr>t_WalletID := wl_id w\<rparr>" c all_fine] assms(2)
        by (simp add: walletPgDebit_def inTx_ok)
      have idem: "idem_recorded (snd (walletRepoDebit False k (CentsToFloat c) t now r)) = idem_recorded r"
        by (auto simp: walletRepoDebit_def Let_def split: sum.split)
      have "pg_recorded ?d k' x = pg_recorded d k' x" for k' x
        using pg_recorded_snoc [of "d\<lparr>db_wallets := ?ws\<rparr>" ?row k' x] assms(3)
        by (simp add: tx_row_def walletNullableKey_def)
      moreover have "purse ?ws = (purse (db_wallets d))(k \<mapsto> (a - c, l))" by (rule purse_setPurse [OF ok al])
      moreover have "purses_ok ?ws"
        using setPurse_ok [OF s(1)] purse_bounds [OF s(1) al] True c(2) by simp
      moreover have "tx_wallet_id ?row \<in> wl_id ` set (db_wallets d)"
        using find_SomeD [OF w(1)] by (simp add: tx_row_def)
      ultimately show ?thesis
        using mem(1) [OF True] assms(1) inv idem pg s(4) by (simp add: wallet_sim_def)
    qed
  qed
  then show "fst (walletPgDebit all_fine k (CentsToFloat c) t d) = fst (walletRepoDebit False k (CentsToFloat c) t now r)"
    "wallet_sim (snd (walletPgDebit all_fine k (CentsToFloat c) t d)) (snd (walletRepoDebit False k (CentsToFloat c) t now r))"
    by simp_all
qed

lemma sim_get:
  assumes "wallet_sim d r"
  shows "map_sum id (\<lambda>w. (w_Balance w, w_LockedBalance w)) (walletPgGet all_fine k d)
    = map_sum id (\<lambda>w. (w_Balance w, w_LockedBalance w)) (walletRepoGet False k r)"
proof -
  have s: "purses_ok (db_wallets d)" "ledger_inv r" "purse (db_wallets d) = account r"
    using assms by (simp_all add: wallet_sim_def)
  show ?thesis
  proof (cases "purse (db_wallets d) k")
    case None
    then have "account r k = None" using s(3) by simp
    from account_None [OF this ledger_wallet_inv [OF s(2)]] None show ?thesis
      by (auto simp: walletPgGet_def scanWalletRow_def purse_def walletRepoGet_def walletForUpdate_def split: option.splits)
  next
    case (Some p)
    obtain a l where al: "purse (db_wallets d) k = Some (a, l)" using Some by (cases p) simp
    then obtain w where w: "find (hasKey k) (db_wallets d) = Some w" "wl_balance w = a" "wl_locked_balance w = l"
      by (auto simp: purse_Some)
    have "account r k = Some (a, l)" using al s(3) by simp
    then obtain i v where v: "wr_idByKey r k = Some i" "map_of (wr_byID r) i = Some v"
      "money (w_Balance v) a" "money (w_LockedBalance v) l"
      using wallet_inv_lookup [OF ledger_wallet_inv [OF s(2)]] by metis
    then show ?thesis using w
      by (simp add: walletPgGet_def scanWalletRow_def walletRepoGet_def money_def numericFloat_cents)
  qed
qed

lemma payIn_idem [simp]:
  "wr_txByIdempotency (snd (payIn i t r)) = wr_txByIdempotency r" "wr_idByKey (snd (payIn i t r)) = wr_idByKey r"
  by (auto simp: payIn_def Let_def storeWallet_def split: option.split sum.split)

lemma idem_recorded_credit:
  assumes "wallet_inv r" "idem_inv r" "fst (walletRepoCredit False v t r) = Inr ()" "x \<noteq> []"
    "wr_idByKey r (keyFromWallet v) = None \<Longrightarrow> w_ID v \<notin> keys (wr_byID r)"
  shows "idem_recorded (snd (walletRepoCredit False v t r)) k x \<longleftrightarrow>
    idem_recorded r k x \<or> (k = keyFromWallet v \<and> x = t_IdempotencyKey t)"
proof -
  let ?k = "keyFromWallet v"
  obtain i r1 where e: "ensureWallet v r = (i, r1)" by fastforce
  have m: "wr_idByKey r1 = (wr_idByKey r)(?k \<mapsto> i)" "wr_txByIdempotency r1 = wr_txByIdempotency r"
    using e by (auto simp: ensureWallet_def Let_def split: option.splits)
  have old: "wr_idByKey r k' = Some i \<Longrightarrow> k' = ?k" for k'
  proof (cases "wr_idByKey r ?k")
    case None
    then have "i = w_ID v" "w_ID v \<notin> keys (wr_byID r)" using e assms(5) by (auto simp: ensureWallet_def)
    then show "wr_idByKey r k' = Some i \<Longrightarrow> k' = ?k" using wallet_inv_keys [OF assms(1)] by blast
  next
    case (Some j)
    then have "j = i" using e by (auto simp: ensureWallet_def)
    then show "wr_idByKey r k' = Some i \<Longrightarrow> k' = ?k"
      using wallet_inv_key [OF assms(1), of k' i] wallet_inv_key [OF assms(1) Some] by auto
  qed
  have none: "wr_txByIdempotency r (i, y) = None" if "wr_idByKey r ?k = None" for y
  proof -
    have "i \<notin> keys (wr_byID r)" using that e assms(5) by (auto simp: ensureWallet_def)
    then show ?thesis using assms(2) unfolding idem_inv_def by blast
  qed
  have r': "wr_idByKey (snd (walletRepoCredit False v t r)) = (wr_idByKey r)(?k \<mapsto> i)"
    "wr_txByIdempotency (snd (walletRepoCredit False v t r)) = (if t_IdempotencyKey t = [] then wr_txByIdempotency r
      else (wr_txByIdempotency r)((i, t_IdempotencyKey t) \<mapsto> t_ID t))"
    using assms(3) e m by (auto simp: walletRepoCredit_def creditWallet_def split: if_splits)
  have "?thesis" if "k = ?k"
    using that assms(4) none e by (auto simp: idem_recorded_def r' ensureWallet_def split: option.splits)
  moreover have "?thesis" if "k \<noteq> ?k"
    using that old [of k] by (auto simp: idem_recorded_def r' split: option.splits)
  ultimately show ?thesis by blast
qed

lemma opened_cases:
  assumes "purses_ok ws" "\<forall>w \<in> set ws. wl_id w \<noteq> w_ID v"
  obtains w a l where "find (hasKey (keyFromWallet v)) (opened v ws) = Some w" "wl_balance w = a" "wl_locked_balance w = l"
    "purses_ok (opened v ws)" "purse (opened v ws) = (purse ws)(keyFromWallet v \<mapsto> (a, l))"
    "(case purse ws (keyFromWallet v) of None \<Rightarrow> (0, 0) | Some p \<Rightarrow> p) = (a, l)"
    "wl_id w \<in> wl_id ` set (opened v ws)" "wl_id ` set ws \<subseteq> wl_id ` set (opened v ws)"
    "find (hasKey (keyFromWallet v)) ws = None \<longrightarrow> wl_id w = w_ID v"
    "find (hasKey (keyFromWallet v)) ws \<noteq> None \<longrightarrow> find (hasKey (keyFromWallet v)) ws = Some w"
proof -
  let ?k = "keyFromWallet v"
  have ok: "wallets_ok ws" using assms(1) by (simp add: purses_ok_def)
  obtain w where w: "find (hasKey ?k) (opened v ws) = Some w"
    by (cases "find (hasKey ?k) ws") (auto simp: find_opened)
  have "set (opened v ws) \<subseteq> insert (opened_row v) (set ws)" by (auto simp: opened_def)
  then have "\<forall>w \<in> set (opened v ws). 0 \<le> wl_balance w \<and> 0 \<le> wl_locked_balance w \<and> wl_balance w + wl_locked_balance w < moneyCap"
    using assms(1) by (auto simp: purses_ok_def moneyCap_def)
  moreover have "distinct (map wl_id (opened v ws))" using assms by (auto simp: opened_def purses_ok_def)
  ultimately have p: "purses_ok (opened v ws)" using opened_ok [OF ok] by (simp add: purses_ok_def)
  have m: "wl_id w \<in> wl_id ` set (opened v ws)" using find_SomeD [OF w] by blast
  have s: "wl_id ` set ws \<subseteq> wl_id ` set (opened v ws)" by (auto simp: opened_def)
  have q: "purse (opened v ws) = (purse ws)(?k \<mapsto> (wl_balance w, wl_locked_balance w))"
    using w by (auto simp: purse_def find_opened fun_eq_iff split: option.splits if_splits)
  have z: "(case purse ws ?k of None \<Rightarrow> (0, 0) | Some p \<Rightarrow> p) = (wl_balance w, wl_locked_balance w)"
    using w by (auto simp: purse_def find_opened split: option.splits)
  show ?thesis
    by (rule that [OF w refl refl p q z m s]) (use w in \<open>auto simp: find_opened split: option.splits\<close>)
qed

lemma sim_credit:
  assumes "wallet_sim d r" "cents_tx t c" "t_Type t = ''credit'' \<or> t_Type t = ''win''" "fresh_tx t d r"
    "fresh_wallet v d r" "room r (keyFromWallet v) (CentsToFloat c)"
  shows "fst (walletPgCredit all_fine v t d) = fst (walletRepoCredit False v t r)"
    "wallet_sim (snd (walletPgCredit all_fine v t d)) (snd (walletRepoCredit False v t r))"
proof -
  let ?k = "keyFromWallet v" and ?ws = "opened v (db_wallets d)"
  have s: "purses_ok (db_wallets d)" "ledger_inv r" "idem_inv r" "purse (db_wallets d) = account r"
    "\<forall>x. x \<noteq> [] \<longrightarrow> pg_recorded d ?k x = idem_recorded r ?k x"
    "\<forall>t \<in> set (db_transactions d). tx_wallet_id t \<in> wl_id ` set (db_wallets d)"
    using assms(1) by (simp_all add: wallet_sim_def)
  have ok: "wallets_ok (db_wallets d)" using s(1) by (simp add: purses_ok_def)
  have c: "t_Amount t = CentsToFloat c" "0 \<le> c" "c < moneyCap" using assms(2) by (simp_all add: cents_tx_def)
  have f: "w_Balance v = Fin 0" "w_LockedBalance v = Fin 0" "\<forall>w \<in> set (db_wallets d). wl_id w \<noteq> w_ID v"
    "w_ID v \<notin> keys (wr_byID r)" "map_of (db_merchants d) (w_MerchantID v) \<noteq> None"
    "map_of (wr_transactions r) (t_ID t) = None" "\<forall>t' \<in> set (db_transactions d). tx_id t' \<noteq> t_ID t"
    using assms(4,5) by (simp_all add: fresh_wallet_def fresh_tx_def)
  note mem = walletRepoCredit_outcome [OF s(2) f(1,2,4) refl c(1,2) assms(6) f(6) c(3) s(3)]
  obtain w a l where w: "find (hasKey ?k) ?ws = Some w" "wl_balance w = a" "wl_locked_balance w = l" "purses_ok ?ws"
    "purse ?ws = (purse (db_wallets d))(?k \<mapsto> (a, l))"
    "(case purse (db_wallets d) ?k of None \<Rightarrow> (0, 0) | Some p \<Rightarrow> p) = (a, l)"
    "wl_id w \<in> wl_id ` set ?ws" "wl_id ` set (db_wallets d) \<subseteq> wl_id ` set ?ws"
    "find (hasKey ?k) (db_wallets d) = None \<longrightarrow> wl_id w = w_ID v"
    "find (hasKey ?k) (db_wallets d) \<noteq> None \<longrightarrow> find (hasKey ?k) (db_wallets d) = Some w"
    by (rule opened_cases [OF s(1) f(3)])
  have acc0: "account0 r ?k = (a, l)" using w(6) s(4) by (simp add: account0_def)
  let ?t = "t\<lparr>t_WalletID := wl_id w\<rparr>"
  let ?d1 = "d\<lparr>db_wallets := setPurse ?k (a + c) l (db_now d) ?ws\<rparr>"
  let ?d = "?d1\<lparr>db_transactions := db_transactions d @ [tx_row ?t c]\<rparr>"
  have step: "creditTx all_fine v t d = insertTransaction all_fine ?t ?d1"
  proof -
    have e: "ensureWalletRow all_fine v d = (Inr (), d\<lparr>db_wallets := ?ws\<rparr>)" using f(3,5) by (simp add: ensureWalletRow_Inr)
    have "updateWallet ?k (\<lambda>_. True) (of_int c / 100) 0 (d\<lparr>db_wallets := ?ws\<rparr>)
        = setPurse ?k (a + c) l (db_now (d\<lparr>db_wallets := ?ws\<rparr>)) (db_wallets (d\<lparr>db_wallets := ?ws\<rparr>))"
      by (rule updateWallet_setPurse) (use w opened_ok [OF ok] in simp_all)
    then show ?thesis using e w(1) c by (simp add: creditTx_def Let_def)
  qed
  have taken: "list_ex (transactionTaken ?t) (db_transactions d) \<longleftrightarrow>
      t_IdempotencyKey t \<noteq> [] \<and> idem_recorded r ?k (t_IdempotencyKey t)"
  proof -
    have "list_ex (transactionTaken ?t) (db_transactions d) \<longleftrightarrow>
        t_IdempotencyKey t \<noteq> [] \<and> (\<exists>u \<in> set (db_transactions d). tx_wallet_id u = wl_id w
          \<and> tx_idempotency_key u = Some (t_IdempotencyKey t))"
      using f(7) by (auto simp: list_ex_iff transactionTaken_def walletNullableKey_def)
    also have "\<dots> \<longleftrightarrow> t_IdempotencyKey t \<noteq> [] \<and> pg_recorded d ?k (t_IdempotencyKey t)"
    proof (cases "find (hasKey ?k) (db_wallets d)")
      case None
      then have "\<forall>u \<in> set (db_transactions d). tx_wallet_id u \<noteq> wl_id w" using w(9) f(3) s(6) by force
      then show ?thesis using None by (auto simp: pg_recorded_def)
    next
      case (Some w')
      then show ?thesis using w(10) by (auto simp: pg_recorded_def)
    qed
    finally show ?thesis using s(5) by blast
  qed
  have "fst (walletPgCredit all_fine v t d) = fst (walletRepoCredit False v t r)
    \<and> wallet_sim (snd (walletPgCredit all_fine v t d)) (snd (walletRepoCredit False v t r))"
  proof (cases "t_IdempotencyKey t \<noteq> [] \<and> idem_recorded r ?k (t_IdempotencyKey t)")
    case True
    have "cents_tx ?t c" using assms(2) by simp
    then have "walletPgCredit all_fine v t d = (Inl (Sentinel WalletErrAlreadyExists), d)"
      using True taken step insertTransaction_eq [of ?t c all_fine ?d1] by (simp add: walletPgCredit_def inTx_ok)
    then show ?thesis using mem(1) True assms(1) by simp
  next
    case False
    have "cents_tx ?t c" using assms(2) by simp
    then have pg: "walletPgCredit all_fine v t d = (Inr (), ?d)"
      using False taken step insertTransaction_eq [of ?t c all_fine ?d1] by (simp add: walletPgCredit_def inTx_ok)
    have m: "fst (walletRepoCredit False v t r) = Inr ()"
      "account (snd (walletRepoCredit False v t r)) = (account r)(?k \<mapsto> (a + c, l))"
      using mem(2) False acc0 by auto
    have room: "a + l + c < moneyCap"
      using assms(6) w(6) s(4) c by (auto simp: room_def cents_of_CentsToFloat split: option.splits)
    have p: "purses_ok (db_wallets ?d)"
      using setPurse_ok [OF w(4)] purse_bounds [OF w(4), of ?k a l] w(5) room c(2) by simp
    have q: "purse (db_wallets ?d) = account (snd (walletRepoCredit False v t r))"
      using purse_setPurse [OF opened_ok [OF ok], of v ?k "(a, l)" "a + c" l "db_now d"] w(5) m(2) s(4) by simp
    have ids: "wl_id ` set (db_wallets d) \<subseteq> wl_id ` set (db_wallets ?d)" "wl_id w \<in> wl_id ` set (db_wallets ?d)"
      using w(7,8) by simp_all
    have rec: "pg_recorded ?d k x = idem_recorded (snd (walletRepoCredit False v t r)) k x" if x: "x \<noteq> []" for k x
    proof -
      have i: "map_option wl_id (find (hasKey k) (db_wallets ?d1)) = map_option wl_id (find (hasKey k) ?ws)"
        by (simp add: find_setPurse_id)
      have "pg_recorded ?d k x \<longleftrightarrow> (\<exists>i. map_option wl_id (find (hasKey k) ?ws) = Some i
          \<and> ((\<exists>u \<in> set (db_transactions d). tx_wallet_id u = i \<and> tx_idempotency_key u = Some x)
             \<or> (i = wl_id w \<and> t_IdempotencyKey t = x)))"
        using i x by (auto simp: pg_recorded_def2 tx_row_def walletNullableKey_def)
      also have "\<dots> \<longleftrightarrow> pg_recorded d k x \<or> (k = ?k \<and> x = t_IdempotencyKey t)"
      proof -
        have k: "k = ?k" if "find (hasKey k) ?ws = Some u" "wl_id u = wl_id w" for u
          using that w(1,4) find_SomeD [OF that(1)] find_SomeD [OF w(1)] hasKey_inj [of k u ?k]
          by (auto simp: purses_ok_def distinct_map dest: inj_onD)
        have new: "u \<in> set (db_transactions d) \<Longrightarrow> tx_wallet_id u \<noteq> w_ID v" for u using s(6) f(3) by force
        show ?thesis
        proof (cases "find (hasKey k) (db_wallets d)")
          case (Some u)
          then have u: "find (hasKey k) ?ws = Some u" by (simp add: find_opened)
          have "wl_id u = wl_id w \<longleftrightarrow> k = ?k" using k [OF u] u w(1) by auto
          then show ?thesis unfolding pg_recorded_def u Some by auto
        next
          case none: None
          show ?thesis
          proof (cases "k = ?k")
            case True
            then show ?thesis unfolding pg_recorded_def none using w(1,9) none new by auto
          next
            case False
            then show ?thesis unfolding pg_recorded_def none by (simp add: find_opened none)
          qed
        qed
      qed
      also have "\<dots> \<longleftrightarrow> idem_recorded (snd (walletRepoCredit False v t r)) k x"
        using idem_recorded_credit [OF ledger_wallet_inv [OF s(2)] s(3) m(1) x] f(4) assms(1) x
        by (auto simp: wallet_sim_def)
      finally show ?thesis .
    qed
    have fk: "\<forall>u \<in> set (db_transactions ?d). tx_wallet_id u \<in> wl_id ` set (db_wallets ?d)"
      using s(6) ids by (auto simp: tx_row_def)
    have li: "ledger_inv (snd (walletRepoCredit False v t r))"
      using ledger_Credit [OF s(2) f(1,2,4) assms(3)] assms(6) c(1) by simp
    show ?thesis
      using pg m(1) p q rec fk li idem_inv_repo(2) [OF s(3) ledger_wallet_inv [OF s(2)]] by (simp add: wallet_sim_def)
  qed
  then show "fst (walletPgCredit all_fine v t d) = fst (walletRepoCredit False v t r)"
    "wallet_sim (snd (walletPgCredit all_fine v t d)) (snd (walletRepoCredit False v t r))" by simp_all
qed

lemma idem_recorded_new:
  assumes "idem_inv r" "i \<notin> keys (wr_byID r)" "wr_idByKey r k0 = None"
  shows "idem_recorded (r\<lparr>wr_byID := x, wr_idByKey := (wr_idByKey r)(k0 \<mapsto> i)\<rparr>) = idem_recorded r"
proof (intro ext)
  fix k y
  have "wr_txByIdempotency r (i, y) = None" using assms(1,2) unfolding idem_inv_def by blast
  then show "idem_recorded (r\<lparr>wr_byID := x, wr_idByKey := (wr_idByKey r)(k0 \<mapsto> i)\<rparr>) k y = idem_recorded r k y"
    using assms by (cases "k = k0") (auto simp: idem_recorded_def idem_inv_def split: option.split)
qed

lemma sim_open:
  assumes "wallet_sim d r" "fresh_wallet v d r"
  shows "fst (walletPgCreate all_fine v d) = fst (walletRepoCreate False v r)"
    "wallet_sim (snd (walletPgCreate all_fine v d)) (snd (walletRepoCreate False v r))"
proof -
  let ?k = "keyFromWallet v"
  have s: "purses_ok (db_wallets d)" "ledger_inv r" "idem_inv r" "purse (db_wallets d) = account r"
    "\<forall>t \<in> set (db_transactions d). tx_wallet_id t \<in> wl_id ` set (db_wallets d)"
    using assms(1) by (simp_all add: wallet_sim_def)
  have f: "w_Balance v = Fin 0" "w_LockedBalance v = Fin 0" "\<forall>w \<in> set (db_wallets d). wl_id w \<noteq> w_ID v"
    "w_ID v \<notin> keys (wr_byID r)" "map_of (db_merchants d) (w_MerchantID v) \<noteq> None"
    using assms(2) by (simp_all add: fresh_wallet_def)
  have z: "numericArg m (Fin 0) = Inr 0" for m using numericArg_cents [of 0 m] by (simp add: moneyCap_def)
  have z2: "toColumn 2 0 = 0" using toColumn_cents [of 0] by simp
  have taken: "list_ex (walletTaken v) (db_wallets d) = list_ex (hasKey ?k) (db_wallets d)"
    using f(3) by (auto simp: list_ex_iff walletTaken_def)
  have none: "list_ex (hasKey ?k) (db_wallets d) \<longleftrightarrow> purse (db_wallets d) ?k \<noteq> None"
    by (auto simp: list_ex_iff purse_def find_None_iff)
  have keyed: "purse (db_wallets d) ?k = None \<longleftrightarrow> wr_idByKey r ?k = None"
    using s(4) wallet_inv_key [OF ledger_wallet_inv [OF s(2)], of ?k] by (auto simp: account_def split: option.splits)
  have free: "map_of (wr_byID r) (w_ID v) = None" using f(4) by (simp add: map_of_None_keys)
  have "fst (walletPgCreate all_fine v d) = fst (walletRepoCreate False v r)
    \<and> wallet_sim (snd (walletPgCreate all_fine v d)) (snd (walletRepoCreate False v r))"
  proof (cases "purse (db_wallets d) ?k = None")
    case False
    then show ?thesis using taken none keyed assms(1) f(1,2) z
      by (simp add: walletPgCreate_def walletRepoCreate_def Let_def)
  next
    case True
    let ?d = "d\<lparr>db_wallets := opened v (db_wallets d)\<rparr>"
    let ?r = "r\<lparr>wr_byID := put (w_ID v) v (wr_byID r), wr_idByKey := (wr_idByKey r)(?k \<mapsto> w_ID v)\<rparr>"
    have pg: "walletPgCreate all_fine v d = (Inr (), ?d)"
      using True taken none f z z2 by (simp add: walletPgCreate_def opened_def opened_row_def)
    have mem: "walletRepoCreate False v r = (Inr (), ?r)"
      using True keyed free by (simp add: walletRepoCreate_def Let_def)
    obtain w a l where w: "find (hasKey ?k) (opened v (db_wallets d)) = Some w" "purses_ok (opened v (db_wallets d))"
      "purse (opened v (db_wallets d)) = (purse (db_wallets d))(?k \<mapsto> (a, l))"
      "(case purse (db_wallets d) ?k of None \<Rightarrow> (0, 0) | Some p \<Rightarrow> p) = (a, l)"
      "wl_id ` set (db_wallets d) \<subseteq> wl_id ` set (opened v (db_wallets d))"
      "find (hasKey ?k) (db_wallets d) = None \<longrightarrow> wl_id w = w_ID v"
      by (rule opened_cases [OF s(1) f(3)])
    have "(a, l) = (0, 0)" using w(4) True by simp
    then have q: "purse (db_wallets ?d) = (account r)(?k \<mapsto> (0, 0))" using w(3) s(4) by simp
    have "ensureWallet v r = (w_ID v, ?r)" using True keyed by (simp add: ensureWallet_def Let_def)
    then have acc: "account ?r = (account r)(?k \<mapsto> (0, 0))"
      using ensureWallet_account [OF s(2) f(1,2)] f(4) True s(4) by (simp add: account0_def)
    have "pg_recorded ?d k x = pg_recorded d k x" for k x
    proof -
      have "u \<in> set (db_transactions d) \<Longrightarrow> tx_wallet_id u \<noteq> w_ID v" for u using s(5) f(3) by force
      then show ?thesis
        by (cases "find (hasKey k) (db_wallets d)") (auto simp: pg_recorded_def find_opened)
    qed
    moreover have "idem_recorded ?r = idem_recorded r"
      using idem_recorded_new [OF s(3) f(4)] True keyed by blast
    moreover have "ledger_inv ?r" "idem_inv ?r"
      using ledger_Create [OF s(2) f(1,2), of False] idem_inv_repo(1) [OF s(3) ledger_wallet_inv [OF s(2)], of False v] mem
      by simp_all
    ultimately show ?thesis using pg mem q acc w(2,5) s(5) assms(1) by (auto simp: wallet_sim_def)
  qed
  then show "fst (walletPgCreate all_fine v d) = fst (walletRepoCreate False v r)"
    "wallet_sim (snd (walletPgCreate all_fine v d)) (snd (walletRepoCreate False v r))" by simp_all
qed

text \<open>Two operations with the same result and related states.\<close>

definition wallet_same :: "unit res \<times> db \<Rightarrow> unit res \<times> walletRepo \<Rightarrow> bool" where
  "wallet_same p q \<longleftrightarrow> fst p = fst q \<and> wallet_sim (snd p) (snd q)"

text \<open>
  C39: the PostgreSQL wallet repository refines the in-memory one. While no statement is refused,
  an operation on tables that hold the accounts of an in-memory store gives the result it gives
  there, errors included, and leaves tables and store related again: creating a wallet,
  crediting with or without an idempotency key, debiting, locking, unlocking, and reading the
  balances. The amounts go through \<^verbatim>\<open>float64\<close> and decimal text on the way to the tables.
\<close>

theorem wallet_postgres_refines:
  assumes "wallet_sim d r" "cents_tx t c"
  shows "wallet_same (walletPgLock all_fine k (CentsToFloat c) d) (walletRepoLock False k (CentsToFloat c) now r)
    \<and> wallet_same (walletPgUnlock all_fine k (CentsToFloat c) d) (walletRepoUnlock False k (CentsToFloat c) now r)
    \<and> (t_IdempotencyKey t = [] \<and> fresh_tx t d r \<and> \<not> (t_Type t = ''credit'' \<or> t_Type t = ''win'') \<longrightarrow>
        wallet_same (walletPgDebit all_fine k (CentsToFloat c) t d) (walletRepoDebit False k (CentsToFloat c) t now r))
    \<and> (fresh_wallet v d r \<longrightarrow> wallet_same (walletPgCreate all_fine v d) (walletRepoCreate False v r))
    \<and> (fresh_wallet v d r \<and> fresh_tx t d r \<and> (t_Type t = ''credit'' \<or> t_Type t = ''win'')
          \<and> room r (keyFromWallet v) (CentsToFloat c) \<longrightarrow>
        wallet_same (walletPgCredit all_fine v t d) (walletRepoCredit False v t r))
    \<and> map_sum id (\<lambda>w. (w_Balance w, w_LockedBalance w)) (walletPgGet all_fine k d)
      = map_sum id (\<lambda>w. (w_Balance w, w_LockedBalance w)) (walletRepoGet False k r)"
proof -
  have c: "0 \<le> c" "c < moneyCap" using assms(2) by (simp_all add: cents_tx_def)
  show ?thesis
    using sim_lock [OF assms(1) c] sim_unlock [OF assms(1) c] sim_debit [OF assms] sim_open [OF assms(1)]
      sim_credit [OF assms] sim_get [OF assms(1)]
    by (simp add: wallet_same_def)
qed

text \<open>An empty platform with one merchant, and a first deposit.\<close>

definition demo_wallet_db :: db where
  "demo_wallet_db = \<lparr>db_merchants = [(demo_merchant, ''active'')], db_events = [], db_markets = [],
     db_orders = [], db_trades = [], db_wallets = [], db_transactions = [], db_settlements = [], db_payouts = [],
     db_audits = [], db_outbox = [], db_now = 9000, db_uuids = (\<lambda>n. replicate n CHR ''u''), db_uuid_next = 0\<rparr>"

definition demo_owner :: wallet where
  "demo_owner = \<lparr>w_ID = ''w1'', w_MerchantID = demo_merchant, w_UserID = ''alice'', w_Currency = ''USD'',
     w_Balance = Fin 0, w_LockedBalance = Fin 0, w_UpdatedAt = 1000\<rparr>"

definition demo_deposit :: transaction where
  "demo_deposit = newTransaction ''t1'' ''USD'' ''credit'' (CentsToFloat 2500) ''k1'' 1000"

lemma demo_wallets_sim: "wallet_sim demo_wallet_db newWalletRepo"
  using ledger_inv_empty
  by (simp add: wallet_sim_def demo_wallet_db_def purses_ok_def wallets_ok_def idem_inv_def newWalletRepo_def
      purse_def account_def fun_eq_iff pg_recorded_def idem_recorded_def)

theorem wallet_postgres_refines_witness:
  "wallet_same (walletPgCredit all_fine demo_owner demo_deposit demo_wallet_db)
     (walletRepoCredit False demo_owner demo_deposit newWalletRepo)"
proof -
  have t: "cents_tx demo_deposit 2500" by (simp add: cents_tx_def demo_deposit_def moneyCap_def newTransaction_def)
  have f: "fresh_wallet demo_owner demo_wallet_db newWalletRepo" "fresh_tx demo_deposit demo_wallet_db newWalletRepo"
    by (simp_all add: fresh_wallet_def fresh_tx_def demo_owner_def demo_wallet_db_def newWalletRepo_def)
  have "t_Type demo_deposit = ''credit''" by (simp add: demo_deposit_def newTransaction_def)
  moreover have "room newWalletRepo (keyFromWallet demo_owner) (CentsToFloat 2500)"
    by (simp add: room_def account_def newWalletRepo_def cents_of_CentsToFloat moneyCap_def)
  ultimately show ?thesis
    using wallet_postgres_refines [OF demo_wallets_sim t, of undefined 0 demo_owner] f by blast
qed

end
