(* ===== verification/Ledger.thy ===== *)
theory Ledger
  imports SettlementProps OrderPgProps WalletPgProps
begin

text \<open>
  What ties the tables together, whichever service writes them: the books of the wallets, the
  trades behind the fills of the orders, the owners of the orders. Each operation of the wallet,
  order and settlement repositories keeps them.
\<close>

section \<open>The books of the wallets\<close>

text \<open>
  A transaction row adds to or takes from what its wallet holds; the row of a reconciliation
  records that locked funds became available.
\<close>

definition tx_signed :: "transactionRow \<Rightarrow> int" where
  "tx_signed t = (if tx_type t = ''credit'' \<or> tx_type t = ''win'' then tx_amount t
     else if tx_type t = ''reconciliation'' then 0 else - tx_amount t)"

definition tx_history :: "transactionRow list \<Rightarrow> string \<Rightarrow> int" where
  "tx_history txs i = (\<Sum>t \<leftarrow> txs. if tx_wallet_id t = i then tx_signed t else 0)"

definition purse_view :: "walletRow \<Rightarrow> string \<times> int \<times> int" where
  "purse_view w = (wl_id w, wl_balance w, wl_locked_balance w)"

definition books :: "walletRow list \<Rightarrow> transactionRow list \<Rightarrow> bool" where
  "books ws txs \<longleftrightarrow> distinct (map wl_id ws)
     \<and> (\<forall>(i, b, l) \<in> purse_view ` set ws. 0 \<le> b \<and> 0 \<le> l \<and> b + l = tx_history txs i)
     \<and> (\<forall>t \<in> set txs. tx_wallet_id t \<in> wl_id ` set ws)"

lemma wl_id_view: "map wl_id ws = map fst (map purse_view ws)"
  by (simp add: purse_view_def o_def)

lemma tx_history_append [simp]: "tx_history (xs @ ys) i = tx_history xs i + tx_history ys i"
  by (simp add: tx_history_def)

lemma tx_history_none: "\<forall>t \<in> set txs. tx_wallet_id t \<noteq> i \<Longrightarrow> tx_history txs i = 0"
  by (induction txs) (simp_all add: tx_history_def)

lemma booksD:
  assumes "books ws txs" "w \<in> set ws"
  shows "0 \<le> wl_balance w" "0 \<le> wl_locked_balance w" "wl_balance w + wl_locked_balance w = tx_history txs (wl_id w)"
  using assms by (auto simp: books_def purse_view_def)

text \<open>A change of the balances, wallet by wallet, that the new transactions account for.\<close>

lemma books_change:
  assumes "books ws txs" "map purse_view ws' = map (\<lambda>w. (wl_id w, wl_balance w + db w, wl_locked_balance w + dl w)) ws"
    "\<And>w. w \<in> set ws \<Longrightarrow> 0 \<le> wl_balance w + db w \<and> 0 \<le> wl_locked_balance w + dl w
      \<and> db w + dl w = tx_history new (wl_id w)"
    "\<forall>t \<in> set new. tx_wallet_id t \<in> wl_id ` set ws"
  shows "books ws' (txs @ new)"
proof -
  have v: "purse_view ` set ws' = (\<lambda>w. (wl_id w, wl_balance w + db w, wl_locked_balance w + dl w)) ` set ws"
    using assms(2) by (metis list.set_map)
  have i: "map wl_id ws' = map wl_id ws" using wl_id_view [of ws'] by (simp add: assms(2) o_def)
  then have s: "wl_id ` set ws' = wl_id ` set ws" by (metis list.set_map)
  show ?thesis
    unfolding books_def v i s
  proof (intro conjI)
    show "distinct (map wl_id ws)" "\<forall>t \<in> set (txs @ new). tx_wallet_id t \<in> wl_id ` set ws"
      using assms(1,4) by (auto simp: books_def)
    show "\<forall>(i, b, l) \<in> (\<lambda>w. (wl_id w, wl_balance w + db w, wl_locked_balance w + dl w)) ` set ws.
        0 \<le> b \<and> 0 \<le> l \<and> b + l = tx_history (txs @ new) i"
      using assms(3) booksD(3) [OF assms(1)] by fastforce
  qed
qed

lemma books_setPurse:
  assumes "books ws txs" "wallets_ok ws" "find (hasKey k) ws = Some w" "0 \<le> a" "0 \<le> l"
    "a + l = wl_balance w + wl_locked_balance w + tx_history new (wl_id w)" "\<forall>t \<in> set new. tx_wallet_id t = wl_id w"
  shows "books (setPurse k a l t ws) (txs @ new)"
proof (rule books_change [OF assms(1), where db = "\<lambda>u. if hasKey k u then a - wl_balance u else 0"
      and dl = "\<lambda>u. if hasKey k u then l - wl_locked_balance u else 0"])
  note w = find_SomeD [OF assms(3)]
  show "map purse_view (setPurse k a l t ws) = map (\<lambda>u. (wl_id u, wl_balance u + (if hasKey k u then a - wl_balance u else 0),
      wl_locked_balance u + (if hasKey k u then l - wl_locked_balance u else 0))) ws"
    by (auto simp: setPurse_def updateWhere_def purse_view_def)
  show "\<forall>t \<in> set new. tx_wallet_id t \<in> wl_id ` set ws" using assms(7) w by blast
  fix u assume u: "u \<in> set ws"
  show "0 \<le> wl_balance u + (if hasKey k u then a - wl_balance u else 0)
      \<and> 0 \<le> wl_locked_balance u + (if hasKey k u then l - wl_locked_balance u else 0)
      \<and> (if hasKey k u then a - wl_balance u else 0) + (if hasKey k u then l - wl_locked_balance u else 0)
        = tx_history new (wl_id u)"
  proof (cases "hasKey k u")
    case True
    then have "u = w" using hasKey_unique [OF assms(2) u] w by blast
    then show ?thesis using True assms(4-6) by simp
  next
    case False
    then have "wl_id u \<noteq> wl_id w" using u w assms(1) by (auto simp: books_def distinct_map dest: inj_onD)
    then have "tx_history new (wl_id u) = 0" using assms(7) by (intro tx_history_none) simp
    then show ?thesis using False booksD [OF assms(1) u] by simp
  qed
qed

lemma books_moved:
  assumes "books ws txs" "map untimedWallet ws' = map (moved v c) ws"
    "\<And>w. w \<in> set ws \<Longrightarrow> ownWallet v w \<Longrightarrow> c \<le> wl_balance w \<and> - c \<le> wl_locked_balance w"
  shows "books ws' txs"
proof -
  have "map purse_view ws' = map purse_view (map untimedWallet ws')" by (simp add: purse_view_def untimedWallet_def o_def)
  also have "\<dots> = map (\<lambda>w. (wl_id w, wl_balance w + (if ownWallet v w then - c else 0),
      wl_locked_balance w + (if ownWallet v w then c else 0))) ws"
    unfolding assms(2) by (simp add: purse_view_def moved_def untimedWallet_def o_def)
  finally have "books ws' (txs @ [])"
  proof (rule books_change [OF assms(1)])
    fix w assume w: "w \<in> set ws"
    show "0 \<le> wl_balance w + (if ownWallet v w then - c else 0) \<and> 0 \<le> wl_locked_balance w + (if ownWallet v w then c else 0)
      \<and> (if ownWallet v w then - c else 0) + (if ownWallet v w then c else 0) = tx_history [] (wl_id w)"
      using booksD(1,2) [OF assms(1) w] assms(3) [OF w] by (cases "ownWallet v w") (simp_all add: tx_history_def)
  qed simp
  then show ?thesis by simp
qed

lemma books_opened:
  assumes "books ws txs" "\<forall>w \<in> set ws. wl_id w \<noteq> wl_id u" "wl_balance u = 0" "wl_locked_balance u = 0"
  shows "books (ws @ [u]) txs"
proof -
  have "tx_history txs (wl_id u) = 0"
    using assms(1,2) by (intro tx_history_none) (force simp: books_def)
  then show ?thesis using assms by (auto simp: books_def purse_view_def)
qed

section \<open>Wallet operations\<close>

definition trading_same :: "db \<Rightarrow> db \<Rightarrow> bool" where
  "trading_same d d' \<longleftrightarrow> db_orders d' = db_orders d \<and> db_trades d' = db_trades d \<and> db_markets d' = db_markets d
     \<and> db_settlements d' = db_settlements d \<and> db_payouts d' = db_payouts d"

text \<open>An operation of the wallet repository: books and wallets stay well-formed, no wallet disappears.\<close>

definition wallet_kept :: "db \<Rightarrow> db \<Rightarrow> bool" where
  "wallet_kept d d' \<longleftrightarrow> books (db_wallets d') (db_transactions d') \<and> wallets_ok (db_wallets d')
     \<and> set (wallet_keys (db_wallets d)) \<subseteq> set (wallet_keys (db_wallets d')) \<and> trading_same d d'"

lemma wallet_keys_setPurse [simp]: "wallet_keys (setPurse k a l t ws) = wallet_keys ws"
  by (simp add: wallet_keys_def setPurse_keys)

lemma wallets_ok_keys: "wallets_ok ws \<longleftrightarrow> distinct (map snd (wallet_keys ws))"
  by (simp add: wallets_ok_def wallet_keys_def o_def)

lemma wallets_ok_setPurse [simp]: "wallets_ok (setPurse k a l t ws) = wallets_ok ws"
  by (simp add: wallets_ok_keys)

lemma kept_create:
  assumes "books (db_wallets d) (db_transactions d)" "wallets_ok (db_wallets d)"
    "w_Balance v = Fin 0" "w_LockedBalance v = Fin 0"
  shows "wallet_kept d (snd (walletPgCreate fault v d))"
proof -
  have z: "numericArg m (Fin 0) = Inr 0" for m using numericArg_cents [of 0 m] by (simp add: moneyCap_def)
  have z2: "toColumn 2 0 = 0" using toColumn_cents [of 0] by simp
  show ?thesis
  proof (cases "fault ''insert wallet'' (w_ID v) \<or> list_ex (walletTaken v) (db_wallets d)
      \<or> map_of (db_merchants d) (w_MerchantID v) = None")
    case True
    then have "snd (walletPgCreate fault v d) = d" using assms(3,4) z by (auto simp: walletPgCreate_def)
    then show ?thesis using assms(1,2) by (simp add: wallet_kept_def trading_same_def)
  next
    case False
    then have e: "snd (walletPgCreate fault v d) = d\<lparr>db_wallets := db_wallets d @ [opened_row v]\<rparr>"
      using assms(3,4) z z2 by (simp add: walletPgCreate_def opened_row_def)
    have n: "\<forall>w \<in> set (db_wallets d). wl_id w \<noteq> w_ID v" "\<not> list_ex (hasKey (keyFromWallet v)) (db_wallets d)"
      using False by (auto simp: list_ex_iff walletTaken_def)
    have "books (db_wallets d @ [opened_row v]) (db_transactions d)"
      using n(1) by (intro books_opened [OF assms(1)]) simp_all
    moreover have "wallets_ok (db_wallets d @ [opened_row v])"
      using opened_ok [OF assms(2), of v] n(2) by (simp add: opened_def)
    ultimately show ?thesis by (auto simp: e wallet_kept_def trading_same_def wallet_keys_def)
  qed
qed

lemma kept_failed: "wallet_kept d d \<longleftrightarrow> books (db_wallets d) (db_transactions d) \<and> wallets_ok (db_wallets d)"
  by (auto simp: wallet_kept_def trading_same_def)

lemma tx_row_simps [simp]: "tx_wallet_id (tx_row t c) = t_WalletID t" "tx_type (tx_row t c) = t_Type t"
  "tx_amount (tx_row t c) = c" "tx_currency (tx_row t c) = t_Currency t" "tx_related_order_id (tx_row t c) = t_RelatedOrderID t"
  by (simp_all add: tx_row_def)

lemma kept_debit:
  assumes "books (db_wallets d) (db_transactions d)" "wallets_ok (db_wallets d)" "cents_tx t c"
    "t_Type t \<notin> {''credit'', ''win'', ''reconciliation''}"
  shows "wallet_kept d (snd (walletPgDebit fault k (CentsToFloat c) t d))"
proof -
  obtain x d' where x: "walletPgDebit fault k (CentsToFloat c) t d = (x, d')" by fastforce
  show ?thesis
  proof (cases x)
    case (Inl err)
    then have "d' = d" using x by (auto simp: walletPgDebit_def dest!: inTx_failed)
    then show ?thesis using x kept_failed assms(1,2) by simp
  next
    case (Inr u)
    then have "debitTx fault k (CentsToFloat c) t d = (Inr (), d')" using x by (simp add: walletPgDebit_def inTx_Inr)
    then obtain w where w: "find (hasKey k) (db_wallets d) = Some w" "c \<le> wl_balance w"
      and i: "insertTransaction fault (t\<lparr>t_WalletID := wl_id w\<rparr>)
        (d\<lparr>db_wallets := setPurse k (wl_balance w - c) (wl_locked_balance w) (db_now d) (db_wallets d)\<rparr>) = (Inr (), d')"
      unfolding debitTx_eq [OF assms(2,3)] by (auto split: if_splits option.splits)
    let ?row = "tx_row (t\<lparr>t_WalletID := wl_id w\<rparr>) c"
    have "cents_tx (t\<lparr>t_WalletID := wl_id w\<rparr>) c" using assms(3) by simp
    then have d': "d' = d\<lparr>db_wallets := setPurse k (wl_balance w - c) (wl_locked_balance w) (db_now d) (db_wallets d),
        db_transactions := db_transactions d @ [?row]\<rparr>"
      using i by (auto simp: insertTransaction_eq split: if_splits)
    have wm: "w \<in> set (db_wallets d)" using find_SomeD [OF w(1)] by simp
    have c: "0 \<le> c" using assms(3) by (simp add: cents_tx_def)
    have "books (setPurse k (wl_balance w - c) (wl_locked_balance w) (db_now d) (db_wallets d)) (db_transactions d @ [?row])"
      using w(2) booksD [OF assms(1) wm] assms(4)
      by (intro books_setPurse [OF assms(1,2) w(1)]) (simp_all add: tx_history_def tx_signed_def)
    then show ?thesis using x assms(2) by (simp add: d' wallet_kept_def trading_same_def)
  qed
qed

lemma books_opened_wallet:
  assumes "books ws txs" "list_ex (hasKey (keyFromWallet v)) ws \<or> (\<forall>w \<in> set ws. wl_id w \<noteq> w_ID v)"
  shows "books (opened v ws) txs"
proof (cases "list_ex (hasKey (keyFromWallet v)) ws")
  case False
  then have "books (ws @ [opened_row v]) txs" using assms by (intro books_opened) auto
  then show ?thesis using False by (simp add: opened_def)
qed (simp add: opened_def assms(1))

lemma kept_credit:
  assumes "books (db_wallets d) (db_transactions d)" "wallets_ok (db_wallets d)" "cents_tx t c"
    "t_Type t = ''credit'' \<or> t_Type t = ''win''"
  shows "wallet_kept d (snd (walletPgCredit fault v t d))"
proof -
  obtain x d' where x: "walletPgCredit fault v t d = (x, d')" by fastforce
  show ?thesis
  proof (cases x)
    case (Inl err)
    then have "d' = d" using x by (auto simp: walletPgCredit_def dest!: inTx_failed)
    then show ?thesis using x kept_failed assms(1,2) by simp
  next
    case (Inr u)
    let ?k = "keyFromWallet v" and ?ws = "opened v (db_wallets d)"
    have "creditTx fault v t d = (Inr (), d')" using x Inr by (simp add: walletPgCredit_def inTx_Inr)
    then obtain w where w: "find (hasKey ?k) ?ws = Some w"
      and fr: "list_ex (hasKey ?k) (db_wallets d) \<or> (\<forall>w \<in> set (db_wallets d). wl_id w \<noteq> w_ID v)"
      and i: "insertTransaction fault (t\<lparr>t_WalletID := wl_id w\<rparr>) (d\<lparr>db_wallets := setPurse ?k
            (wl_balance w + c) (wl_locked_balance w) (db_now d) ?ws\<rparr>) = (Inr (), d')"
      unfolding creditTx_Inr [OF assms(2,3)] by blast
    let ?row = "tx_row (t\<lparr>t_WalletID := wl_id w\<rparr>) c"
    have "cents_tx (t\<lparr>t_WalletID := wl_id w\<rparr>) c" using assms(3) by simp
    then have d': "d' = d\<lparr>db_wallets := setPurse ?k (wl_balance w + c) (wl_locked_balance w) (db_now d) ?ws,
        db_transactions := db_transactions d @ [?row]\<rparr>"
      using i by (auto simp: insertTransaction_eq split: if_splits)
    have c: "0 \<le> c" using assms(3) by (simp add: cents_tx_def)
    have b: "books ?ws (db_transactions d)" by (rule books_opened_wallet [OF assms(1) fr])
    have wm: "w \<in> set ?ws" using find_SomeD [OF w] by simp
    have "books (setPurse ?k (wl_balance w + c) (wl_locked_balance w) (db_now d) ?ws) (db_transactions d @ [?row])"
      using booksD [OF b wm] assms(4) c
      by (intro books_setPurse [OF b opened_ok [OF assms(2)] w]) (auto simp: tx_history_def tx_signed_def)
    moreover have "set (wallet_keys (db_wallets d)) \<subseteq> set (wallet_keys ?ws)" by (auto simp: wallet_keys_def opened_def)
    ultimately show ?thesis using x opened_ok [OF assms(2)] by (simp add: d' wallet_kept_def trading_same_def)
  qed
qed

lemma snd_lock: "snd (walletPgLock fault k a d) = (if fault ''lock wallet'' (wk_UserID k) then d else snd (walletPgLock all_fine k a d))"
  "snd (walletPgUnlock fault k a d) = (if fault ''unlock wallet'' (wk_UserID k) then d else snd (walletPgUnlock all_fine k a d))"
  by (auto simp: walletPgLock_def walletPgUnlock_def Let_def split: sum.split)

lemma kept_lock:
  assumes "books (db_wallets d) (db_transactions d)" "wallets_ok (db_wallets d)" "0 \<le> c" "c < moneyCap"
  shows "wallet_kept d (snd (walletPgLock fault k (CentsToFloat c) d))"
    "wallet_kept d (snd (walletPgUnlock fault k (CentsToFloat c) d))"
proof -
  have move: "wallet_kept d (d\<lparr>db_wallets := setPurse k a l (db_now d) (db_wallets d)\<rparr>)"
    if "find (hasKey k) (db_wallets d) = Some w" "0 \<le> a" "0 \<le> l" "a + l = wl_balance w + wl_locked_balance w" for w a l
  proof -
    have "books (setPurse k a l (db_now d) (db_wallets d)) (db_transactions d @ [])"
      using that by (intro books_setPurse [OF assms(1,2)]) (simp_all add: tx_history_def)
    then show ?thesis using assms(2) by (simp add: wallet_kept_def trading_same_def)
  qed
  have p: "purse (db_wallets d) k = Some (a, l) \<Longrightarrow> 0 \<le> a \<and> 0 \<le> l \<and> (\<exists>w. find (hasKey k) (db_wallets d) = Some w
      \<and> wl_balance w = a \<and> wl_locked_balance w = l)" for a l
    using booksD(1,2) [OF assms(1)] find_SomeD by (fastforce simp: purse_Some)
  have "wallet_kept d (snd (pgLock k c undefined d))"
    unfolding pgLock_eq [OF assms(2-4)] using p move assms(1-3) by (auto simp: kept_failed split: option.split)
  moreover have "wallet_kept d (snd (pgUnlock k c undefined d))"
    unfolding pgUnlock_eq [OF assms(2-4)] using p move assms(1-3) by (auto simp: kept_failed split: option.split)
  ultimately show "wallet_kept d (snd (walletPgLock fault k (CentsToFloat c) d))"
    "wallet_kept d (snd (walletPgUnlock fault k (CentsToFloat c) d))"
    unfolding snd_lock [of fault] using kept_failed assms(1,2) by (simp_all add: pgLock_def pgUnlock_def)
qed

end
