(* ===== verification/Trading.thy ===== *)
theory Trading
  imports Ledger
begin

text \<open>
  The orders and the trades behind their fills: every trade joins a buy and a sell order of one
  market, option and currency, and the filled amount of an order is the sum of the shares of its
  trades. Placements, cancellations and settlements keep this, the books and the wallets.
\<close>

section \<open>Orders and trades\<close>

lemma filter_map_same:
  "(\<And>r. r \<in> set rows \<Longrightarrow> p (f r) = p r \<and> (p r \<longrightarrow> f r = r)) \<Longrightarrow> filter p (map f rows) = filter p rows"
  by (induction rows) simp_all

text \<open>What never changes of an order.\<close>

definition or_ident :: "orderRow \<Rightarrow> string \<times> string \<times> string \<times> string \<times> string \<times> string \<times> string \<times> int \<times> int" where
  "or_ident r = (or_id r, or_merchant_id r, or_user_id r, or_market_id r, or_type r, or_option r, or_currency r,
     or_amount r, or_price r)"

lemma or_ident_eq: "or_ident a = or_ident b \<longleftrightarrow> or_id a = or_id b \<and> or_merchant_id a = or_merchant_id b
    \<and> or_user_id a = or_user_id b \<and> or_market_id a = or_market_id b \<and> or_type a = or_type b \<and> or_option a = or_option b
    \<and> or_currency a = or_currency b \<and> or_amount a = or_amount b \<and> or_price a = or_price b"
  by (simp add: or_ident_def)

definition joins :: "orderRow \<Rightarrow> orderRow \<Rightarrow> tradeRow \<Rightarrow> bool" where
  "joins a b t \<longleftrightarrow> or_id a = tr_maker_order_id t \<and> or_id b = tr_taker_order_id t
     \<and> or_market_id a = tr_market_id t \<and> or_market_id b = tr_market_id t \<and> or_option a = or_option b
     \<and> or_currency a = or_currency b \<and> or_type a \<noteq> or_type b"

definition trade_fits :: "orderRow list \<Rightarrow> tradeRow \<Rightarrow> bool" where
  "trade_fits rows t \<longleftrightarrow> valid_trade t \<and> (\<exists>a \<in> set rows. \<exists>b \<in> set rows. joins a b t)"

lemma joins_ident: "or_ident a = or_ident a' \<Longrightarrow> or_ident b = or_ident b' \<Longrightarrow> joins a b t \<Longrightarrow> joins a' b' t"
  by (auto simp: joins_def or_ident_eq)

lemma trade_fits_ident:
  assumes "trade_fits rows t" "or_ident ` set rows \<subseteq> or_ident ` set rows'"
  shows "trade_fits rows' t"
proof -
  obtain a b where ab: "a \<in> set rows" "b \<in> set rows" "joins a b t" using assms(1) by (auto simp: trade_fits_def)
  have "or_ident a \<in> or_ident ` set rows'" "or_ident b \<in> or_ident ` set rows'" using ab(1,2) assms(2) by blast+
  then obtain a' b' where "a' \<in> set rows'" "b' \<in> set rows'" "or_ident a = or_ident a'" "or_ident b = or_ident b'"
    by (metis imageE)
  then show ?thesis using joins_ident [OF _ _ ab(3)] assms(1) unfolding trade_fits_def by blast
qed

lemma trade_view_eq:
  "trade_view t = trade_view t' \<Longrightarrow> valid_trade t = valid_trade t' \<and> joins a b t = joins a b t' \<and> trade_shares k t = trade_shares k t'"
  by (auto simp: trade_view_def valid_trade_def joins_def trade_shares_def)

definition traded :: "string \<Rightarrow> tradeRow list \<Rightarrow> int" where
  "traded i ts = (\<Sum>t \<leftarrow> ts. trade_shares i t)"

lemma traded_append [simp]: "traded i (xs @ ys) = traded i xs + traded i ys" by (simp add: traded_def)

definition trading :: "orderRow list \<Rightarrow> tradeRow list \<Rightarrow> bool" where
  "trading rows ts \<longleftrightarrow> rows_ok rows \<and> (\<forall>t \<in> set ts. trade_fits rows t)
     \<and> (\<forall>r \<in> set rows. or_filled_amount r = traded (or_id r) ts)"

lemma tradingD:
  assumes "trading rows ts"
  shows "rows_ok rows" "t \<in> set ts \<Longrightarrow> trade_fits rows t" "r \<in> set rows \<Longrightarrow> or_filled_amount r = traded (or_id r) ts"
  using assms by (auto simp: trading_def)

text \<open>An order that no trade names has no trades.\<close>

lemma trade_fits_ids:
  "trade_fits rows t \<Longrightarrow> tr_maker_order_id t \<in> or_id ` set rows \<and> tr_taker_order_id t \<in> or_id ` set rows"
  unfolding trade_fits_def joins_def by (metis image_eqI)

lemma traded_none:
  assumes "\<forall>t \<in> set ts. trade_fits rows t" "i \<notin> or_id ` set rows"
  shows "traded i ts = 0"
proof -
  have "\<forall>t \<in> set ts. trade_shares i t = 0" using assms trade_fits_ids by (fastforce simp: trade_shares_def)
  then show ?thesis unfolding traded_def by (induction ts) simp_all
qed

text \<open>Changes of the status of orders.\<close>

lemma trading_same_fills:
  assumes "trading rows ts" "rows_ok rows'"
    "map (\<lambda>r. (or_ident r, or_filled_amount r)) rows' = map (\<lambda>r. (or_ident r, or_filled_amount r)) rows"
  shows "trading rows' ts"
proof -
  let ?f = "\<lambda>r. (or_ident r, or_filled_amount r)"
  have s: "?f ` set rows' = ?f ` set rows" using arg_cong [OF assms(3), of set] by (simp only: set_map)
  have i: "or_ident ` set rows' = or_ident ` set rows" using arg_cong [OF s, of "image fst"] by (simp add: image_comp o_def)
  have "or_filled_amount r = traded (or_id r) ts" if r: "r \<in> set rows'" for r
  proof -
    have "?f r \<in> ?f ` set rows" unfolding s [symmetric] using r by (rule imageI)
    then obtain r' where r': "?f r = ?f r'" "r' \<in> set rows" by (rule imageE)
    then show ?thesis using tradingD(3) [OF assms(1) r'(2)] by (simp add: or_ident_eq)
  qed
  moreover have "trade_fits rows' t" if "t \<in> set ts" for t
    using trade_fits_ident [OF tradingD(2) [OF assms(1) that]] i by simp
  ultimately show ?thesis using assms(2) by (simp add: trading_def)
qed

section \<open>The trades of a placement\<close>

lemma fill_trades_shares:
  assumes "length xs = length rs" "distinct (map or_id rs)" "sid \<notin> or_id ` set rs" "map trade_view ts = fill_trades m sid rs xs"
  shows "traded k ts = (if k = sid then sum_list xs else fill_at rs xs k)"
  using assms
proof (induction xs rs arbitrary: ts rule: list_induct2)
  case Nil
  then show ?case by (simp add: fill_trades_def traded_def fill_at_def)
next
  case (Cons x xs r rs)
  have d: "distinct (map or_id rs)" "sid \<notin> or_id ` set rs" "or_id r \<notin> or_id ` set rs" "or_id r \<noteq> sid"
    using Cons.prems(1,2) by auto
  show ?case
  proof (cases "x = 0")
    case True
    then have "map trade_view ts = fill_trades m sid rs xs" using Cons.prems(3) by (simp add: fill_trades_def)
    from Cons.IH [OF d(1,2) this] show ?thesis using True d(3) by (simp add: fill_at_Cons fill_at_outside)
  next
    case False
    then obtain t ts' where t: "ts = t # ts'" "trade_view t = (m, or_id r, sid, x, or_price r)"
      "map trade_view ts' = fill_trades m sid rs xs"
      using Cons.prems(3) by (auto simp: fill_trades_def map_eq_Cons_conv)
    have "trade_shares k t = (if k = or_id r \<or> k = sid then x else 0)" using t(2) by (auto simp: trade_view_def trade_shares_def)
    then show ?thesis
      using Cons.IH [OF d(1,2) t(3)] d(3,4) by (simp add: t(1) traded_def fill_at_Cons fill_at_outside)
  qed
qed

lemma fill_trade_made:
  assumes "map trade_view ts = fill_trades m sid rs xs" "t \<in> set ts"
  obtains r x where "r \<in> set rs" "(r, x) \<in> set (zip rs xs)" "x \<noteq> 0" "trade_view t = (m, or_id r, sid, x, or_price r)"
proof -
  have "trade_view t \<in> set (fill_trades m sid rs xs)" using assms by (metis list.set_map image_eqI)
  then show ?thesis using that by (auto simp: fill_trades_def dest: set_zip_leftD)
qed

lemma placed_ident: "or_ident (fill_row t x r) = or_ident r" "or_ident (store_row v r) = or_ident r"
  by (simp_all add: or_ident_eq store_row_def)

lemma pg_rows_ident: "map or_ident (pg_rows v rows) = map or_ident rows @ [or_ident (new_row v)]"
  by (simp add: pg_rows_fill placed_ident o_def)

lemma trading_placed:
  assumes "trading rows ts" "exact v" "fil v = 0" "\<forall>r \<in> set rows. \<not> orderTaken v r"
    "map trade_view new = pg_trades v rows"
  shows "trading (pg_rows v rows) (ts @ new)"
proof -
  note tr = tradingD [OF assms(1)]
  let ?ms = "match_rows v rows" and ?xs = "pg_fills v rows"
  note ms = match_rows_ok [OF tr(1), of v] and b = pg_bounds [OF assms(2) tr(1)]
  have ids: "\<forall>r \<in> set rows. or_id r \<noteq> o_ID v" using assms(4) by (auto simp: orderTaken_def)
  then have out: "o_ID v \<notin> or_id ` set ?ms" using ms(1) by auto
  have len: "length ?xs = length ?ms" by (simp add: pg_fills_def)
  have new: "traded k new = (if k = o_ID v then sum_list ?xs else fill_at ?ms ?xs k)" for k
    using fill_trades_shares [OF len ms(2) out] assms(5) by (simp add: pg_trades_def)
  have id: "or_ident ` set rows \<subseteq> or_ident ` set (pg_rows v rows)"
    using arg_cong [OF pg_rows_ident [of v rows], of set] by auto
  have nid: "or_ident (new_row v) \<in> or_ident ` set (pg_rows v rows)"
    using arg_cong [OF pg_rows_ident [of v rows], of set] by auto
  have "trade_fits (pg_rows v rows) t" if t: "t \<in> set new" for t
  proof -
    obtain r x where r: "r \<in> set ?ms" "(r, x) \<in> set (zip ?ms ?xs)" "x \<noteq> 0"
      "trade_view t = (o_MarketID v, or_id r, o_ID v, x, or_price r)"
      using fill_trade_made [OF assms(5) [unfolded pg_trades_def] t] by metis
    have x: "0 < x" using set_zip_rightD [OF r(2)] b(2) r(3) by force
    have "r \<in> {r \<in> set rows. matchesRow v (prc v) r}" using r(1) unfolding set_match_rows .
    then have rm: "r \<in> set rows" "matchesRow v (prc v) r" by simp_all
    have ok: "row_ok r" using rm(1) tr(1) by (simp add: rows_ok_def)
    have "valid_trade t" using r(4) x ok by (auto simp: trade_view_def valid_trade_def row_ok_def valid_price_def)
    moreover have "joins r (new_row v) t"
      using rm(2) r(4) by (auto simp: joins_def trade_view_def matchesRow_def new_row_def)
    ultimately have "trade_fits (rows @ [new_row v]) t" using rm(1) by (auto simp: trade_fits_def)
    then show ?thesis using trade_fits_ident id nid by fastforce
  qed
  moreover have "trade_fits (pg_rows v rows) t" if "t \<in> set ts" for t using trade_fits_ident [OF tr(2) [OF that] id] .
  moreover have "or_filled_amount r = traded (or_id r) (ts @ new)" if r: "r \<in> set (pg_rows v rows)" for r
  proof -
    consider (old) r' where "r' \<in> set rows" "r = fill_row (o_CreatedAt v) (fill_in v rows r') r'"
      | (new) "r = store_row (pg_order v rows) (new_row v)"
      using r by (auto simp: pg_rows_fill)
    then show ?thesis
    proof cases
      case old
      then show ?thesis using tr(3) [OF old(1)] ids by (simp add: new fill_in_def)
    next
      case new': new
      have "traded (o_ID v) ts = 0" using traded_none [of ts rows "o_ID v"] tr(2) ids by fastforce
      then show ?thesis
        using new' pg_order_exact(3) [OF assms(2) tr(1)] assms(3) by (simp add: new store_row_def new_row_def)
    qed
  qed
  ultimately show ?thesis using pg_rows_ok [OF assms(2) tr(1) assms(4)] by (auto simp: trading_def)
qed

section \<open>The platform\<close>

text \<open>
  Every order belongs to a wallet; a settled market is marked so and has no open order.
\<close>

definition owned :: "db \<Rightarrow> bool" where
  "owned d \<longleftrightarrow> (\<forall>r \<in> set (db_orders d). (or_merchant_id r, or_user_id r, or_currency r)
     \<in> snd ` set (wallet_keys (db_wallets d)))"

definition market_marks :: "marketRow list \<Rightarrow> (string \<times> string) list" where
  "market_marks ms = map (\<lambda>x. (mr_id x, mr_status x)) ms"

definition settled_closed :: "db \<Rightarrow> bool" where
  "settled_closed d \<longleftrightarrow> (\<forall>m. isSettled d m \<longrightarrow> (m, ''settled'') \<in> set (market_marks (db_markets d))
     \<and> (\<forall>s. (m, s) \<in> set (market_marks (db_markets d)) \<longrightarrow> s = ''settled'')
     \<and> (\<forall>r \<in> set (db_orders d). or_market_id r = m \<longrightarrow> \<not> open_row r))"

definition platform_ok :: "db \<Rightarrow> bool" where
  "platform_ok d \<longleftrightarrow> books (db_wallets d) (db_transactions d) \<and> wallets_ok (db_wallets d)
     \<and> trading (db_orders d) (db_trades d) \<and> owned d \<and> settled_closed d"

lemma platform_okD:
  assumes "platform_ok d"
  shows "books (db_wallets d) (db_transactions d)" "wallets_ok (db_wallets d)" "trading (db_orders d) (db_trades d)"
    "rows_ok (db_orders d)" "owned d" "settled_closed d"
  using assms by (auto simp: platform_ok_def trading_def)

lemma settled_closedD:
  assumes "settled_closed d" "isSettled d m"
  shows "(m, ''settled'') \<in> set (market_marks (db_markets d))"
    "x \<in> set (db_markets d) \<Longrightarrow> mr_id x = m \<Longrightarrow> mr_status x = ''settled''"
    "r \<in> set (db_orders d) \<Longrightarrow> or_market_id r = m \<Longrightarrow> \<not> open_row r"
  using assms by (auto simp: settled_closed_def market_marks_def)

lemma platform_db_ok: "platform_ok d \<Longrightarrow> db_ok d"
  using tradingD(2)
  by (fastforce simp: platform_ok_def db_ok_def books_def trading_def rows_ok_def row_ok_def valid_price_def
      trade_fits_def valid_trade_def)

text \<open>The wallet of an order.\<close>

lemma owned_wallet:
  assumes "owned d" "r \<in> set (db_orders d)"
  obtains w where "orderWallet d r = Some w" "w \<in> set (db_wallets d)"
proof -
  have "orderWallet d r \<noteq> None" unfolding orderWallet_None using assms by (force simp: owned_def)
  then show ?thesis using that orderWallet_row by blast
qed

section \<open>Wallet operations on the platform\<close>

lemma platform_wallet:
  assumes "platform_ok d" "wallet_kept d d'"
  shows "platform_ok d'"
proof -
  have t: "db_orders d' = db_orders d" "db_trades d' = db_trades d" "db_markets d' = db_markets d"
    "db_settlements d' = db_settlements d"
    using assms(2) by (simp_all add: wallet_kept_def trading_same_def)
  have "snd ` set (wallet_keys (db_wallets d)) \<subseteq> snd ` set (wallet_keys (db_wallets d'))"
    using assms(2) by (auto simp: wallet_kept_def)
  then have "owned d'" using assms(1) unfolding platform_ok_def owned_def t by blast
  then show ?thesis using assms by (simp add: platform_ok_def wallet_kept_def settled_closed_def isSettled_def t)
qed

section \<open>Placing and cancelling on the platform\<close>

lemma moved_keys:
  assumes "map untimedWallet ws' = map (moved v c) ws"
  shows "wallet_keys ws' = wallet_keys ws"
proof -
  have "wallet_keys ws' = wallet_keys (map untimedWallet ws')" by (simp add: wallet_keys_def untimedWallet_def o_def)
  also have "\<dots> = wallet_keys ws" unfolding assms by (simp add: wallet_keys_def moved_def untimedWallet_def o_def cong: map_cong)
  finally show ?thesis .
qed

lemma pg_markets_marks: "market_marks (pg_markets v n ms) = market_marks ms"
  by (simp add: market_marks_def pg_markets_def updateWhere_def)

text \<open>A placement touches orders of its own market only.\<close>

lemma fill_in_market:
  assumes "rows_ok rows" "r \<in> set rows" "or_market_id r \<noteq> o_MarketID v"
  shows "fill_in v rows r = 0"
proof -
  have "or_id r \<notin> or_id ` set (match_rows v rows)"
  proof
    assume "or_id r \<in> or_id ` set (match_rows v rows)"
    then obtain r' where r': "r' \<in> {r \<in> set rows. matchesRow v (prc v) r}" "or_id r = or_id r'"
      unfolding set_match_rows by blast
    then have "r' = r" using assms(1,2) by (auto simp: rows_ok_def distinct_map dest: inj_onD)
    then show False using r'(1) assms(3) by (simp add: matchesRow_def)
  qed
  then show ?thesis by (simp add: fill_in_def fill_at_outside)
qed

lemma place_untouched:
  assumes "rows_ok rows" "x \<noteq> o_MarketID v"
  shows "filter (\<lambda>r. or_market_id r = x) (pg_rows v rows) = filter (\<lambda>r. or_market_id r = x) rows"
proof -
  have "filter (\<lambda>r. or_market_id r = x) (map (\<lambda>r. fill_row (o_CreatedAt v) (fill_in v rows r) r) rows)
      = filter (\<lambda>r. or_market_id r = x) rows"
    using fill_in_market [OF assms(1)] assms(2) by (intro filter_map_same) simp
  then show ?thesis using assms(2) by (simp add: pg_rows_fill store_row_def new_row_def)
qed

text \<open>The values a placement is called with.\<close>

definition placeable :: "order \<Rightarrow> int \<Rightarrow> bool" where
  "placeable v c \<longleftrightarrow> exact v \<and> fil v = 0 \<and> o_Status v = ''pending'' \<and> o_FilledAt v = None \<and> 0 \<le> c"

lemma placeTx_place:
  "orderPgPlaceCollateral fault v c lock d = (Inr x, d') \<Longrightarrow> placeTx fault v c lock d = (Inr x, d')"
  by (simp add: orderPgPlaceCollateral_def inTx_Inr)

lemma books_placed:
  assumes "books (db_wallets d) txs" "wallets_ok (db_wallets d)" "map untimedWallet ws = map (moved v x) (db_wallets d)"
    "x = 0 \<or> (\<exists>w \<in> set (db_wallets d). ownWallet v w \<and> x \<le> wl_balance w \<and> - x \<le> wl_locked_balance w)"
  shows "books ws txs"
proof (rule books_moved [OF assms(1,3)])
  fix w assume w: "w \<in> set (db_wallets d)" "ownWallet v w"
  show "x \<le> wl_balance w \<and> - x \<le> wl_locked_balance w"
    using assms(4) own_unique [OF assms(2) w(1) _ w(2)] booksD(1,2) [OF assms(1) w(1)] by auto
qed

lemma platform_place:
  assumes "platform_ok d" "placeable v c" "orderPgPlaceCollateral fault v c True d = (Inr x, d')"
  shows "platform_ok d'"
    "\<exists>ts n. db_orders d' = pg_rows v (db_orders d) \<and> db_trades d' = db_trades d @ ts
      \<and> map trade_view ts = pg_trades v (db_orders d) \<and> db_markets d' = pg_markets v n (db_markets d)
      \<and> db_settlements d' = db_settlements d \<and> db_payouts d' = db_payouts d"
    "\<not> isSettled d (o_MarketID v)"
proof -
  note ok = platform_okD [OF assms(1)]
  have v: "exact v" "fil v = 0" "0 \<le> c" using assms(2) by (simp_all add: placeable_def)
  have tx: "placeTx fault v c True d = (Inr (fst x, snd x), d')" using placeTx_place [OF assms(3)] by simp
  note p = placeTx_Inr [OF tx v(1,2) ok(4,2) v(3)]
  let ?rel = "released v (db_orders d)"
  obtain ts ws k where d': "d' = d\<lparr>db_orders := pg_rows v (db_orders d), db_trades := db_trades d @ ts, db_wallets := ws,
       db_markets := pg_markets v (sum_list (pg_fills v (db_orders d))) (db_markets d), db_uuid_next := k\<rparr>"
    "map trade_view ts = pg_trades v (db_orders d)" "map untimedWallet ws = map (moved v (c - ?rel)) (db_wallets d)"
    using p(3) by (auto simp: placed_effect_def)
  show "\<exists>ts n. db_orders d' = pg_rows v (db_orders d) \<and> db_trades d' = db_trades d @ ts
      \<and> map trade_view ts = pg_trades v (db_orders d) \<and> db_markets d' = pg_markets v n (db_markets d)
      \<and> db_settlements d' = db_settlements d \<and> db_payouts d' = db_payouts d"
    using d'(2) by (auto simp: d'(1))
  show open_market: "\<not> isSettled d (o_MarketID v)"
    using p(5) settled_closedD(2) [OF ok(6)] by force
  obtain w where w: "w \<in> set (db_wallets d)" "ownWallet v w" "c \<le> wl_balance w"
    "?rel = 0 \<or> ?rel \<le> wl_locked_balance w + c"
    using p(6) by auto
  have rel: "0 \<le> ?rel" using released_nonneg(1) [OF v(1) ok(4)] .
  have "c - ?rel \<le> wl_balance w \<and> - (c - ?rel) \<le> wl_locked_balance w"
    using w(3,4) rel v(3) booksD(2) [OF ok(1) w(1)] by auto
  then have "books ws (db_transactions d)" using books_placed [OF ok(1,2) d'(3)] w(1,2) by blast
  moreover have "wallets_ok ws" using wallets_ok_moved [OF d'(3) ok(2)] .
  moreover have "trading (pg_rows v (db_orders d)) (db_trades d @ ts)"
    by (rule trading_placed [OF ok(3) v(1,2) p(4) d'(2)])
  moreover have "owned d'"
  proof -
    have "(or_merchant_id r, or_user_id r, or_currency r) \<in> snd ` set (wallet_keys (db_wallets d))"
      if r: "r \<in> set (pg_rows v (db_orders d))" for r
    proof -
      have "or_ident r \<in> set (map or_ident (db_orders d) @ [or_ident (new_row v)])"
        using r unfolding pg_rows_ident [symmetric] set_map by (rule imageI)
      then consider r' where "r' \<in> set (db_orders d)" "or_ident r = or_ident r'" | "or_ident r = or_ident (new_row v)" by auto
      then show ?thesis
      proof cases
        case 1
        then show ?thesis using ok(5) by (auto simp: owned_def or_ident_eq)
      next
        case 2
        then have "(or_merchant_id r, or_user_id r, or_currency r) = snd (wl_id w, wl_merchant_id w, wl_user_id w, wl_currency w)"
          using w(2) by (simp add: or_ident_eq new_row_def ownWallet_def)
        then show ?thesis using w(1) unfolding wallet_keys_def set_map image_image by (rule image_eqI)
      qed
    qed
    then show ?thesis by (simp add: owned_def d'(1) moved_keys [OF d'(3)])
  qed
  moreover have "settled_closed d'"
  proof -
    have "\<not> open_row r" if r: "r \<in> set (pg_rows v (db_orders d))" "isSettled d (or_market_id r)" for r
    proof -
      have m: "or_market_id r \<noteq> o_MarketID v" using r(2) open_market by metis
      have "r \<in> set (filter (\<lambda>q. or_market_id q = or_market_id r) (pg_rows v (db_orders d)))" using r(1) by simp
      then have "r \<in> set (db_orders d)" unfolding place_untouched [OF ok(4) m] by simp
      then show ?thesis using settled_closedD(3) [OF ok(6) r(2)] by blast
    qed
    then show ?thesis using ok(6) by (auto simp: settled_closed_def isSettled_def d'(1) pg_markets_marks)
  qed
  ultimately show "platform_ok d'" by (simp add: platform_ok_def d'(1))
qed

lemma cancelled_same:
  "map (\<lambda>r. (or_ident r, or_filled_amount r)) (cancelled_rows i rows) = map (\<lambda>r. (or_ident r, or_filled_amount r)) rows"
  by (auto simp: cancelled_rows_def updateWhere_def or_ident_def)

lemma owned_ident:
  assumes "owned d" "map or_ident (db_orders d') = map or_ident (db_orders d)"
    "snd ` set (wallet_keys (db_wallets d)) \<subseteq> snd ` set (wallet_keys (db_wallets d'))"
  shows "owned d'"
proof -
  have s: "or_ident ` set (db_orders d') = or_ident ` set (db_orders d)" using arg_cong [OF assms(2), of set] by (simp only: set_map)
  have "(or_merchant_id r, or_user_id r, or_currency r) \<in> snd ` set (wallet_keys (db_wallets d))" if r: "r \<in> set (db_orders d')" for r
  proof -
    have "or_ident r \<in> or_ident ` set (db_orders d)" unfolding s [symmetric] using r by (rule imageI)
    then obtain r' where "or_ident r = or_ident r'" "r' \<in> set (db_orders d)" by (rule imageE)
    then show ?thesis using assms(1) by (auto simp: owned_def or_ident_eq)
  qed
  then show ?thesis using assms(3) by (auto simp: owned_def)
qed

lemma cancelled_untouched:
  assumes "rows_ok rows" "r \<in> set rows" "or_market_id r \<noteq> x"
  shows "filter (\<lambda>r. or_market_id r = x) (cancelled_rows (or_id r) rows) = filter (\<lambda>r. or_market_id r = x) rows"
proof -
  have "or_market_id q \<noteq> x" if "q \<in> set rows" "or_id q = or_id r" for q
    using that assms by (auto simp: rows_ok_def distinct_map dest: inj_onD)
  then show ?thesis unfolding cancelled_rows_def updateWhere_def by (intro filter_map_same) simp
qed

lemma platform_cancel:
  assumes "platform_ok d" "orderPgCancelCollateral fault i True d = (Inr x, d')"
  shows "platform_ok d'"
    "\<exists>r ws. r \<in> set (db_orders d) \<and> or_id r = i \<and> open_row r
      \<and> d' = d\<lparr>db_orders := cancelled_rows i (db_orders d), db_wallets := ws\<rparr>"
proof -
  note ok = platform_okD [OF assms(1)]
  have tx: "cancelTx fault i True d = (Inr (fst x, snd x), d')" using assms(2) by (simp add: orderPgCancelCollateral_def inTx_Inr)
  obtain r ws where r: "r \<in> set (db_orders d)" "or_id r = i" "open_row r"
    and d': "d' = d\<lparr>db_orders := cancelled_rows i (db_orders d), db_wallets := ws\<rparr>"
      "map untimedWallet ws = map (moved (order_of_row r) (- row_coll r)) (db_wallets d)"
    and w: "row_coll r = 0 \<or> (\<exists>w \<in> set (db_wallets d). ownWallet (order_of_row r) w \<and> row_coll r \<le> wl_locked_balance w)"
    by (rule cancelTx_Inr [OF tx ok(4,2)], rule that) simp_all
  show "\<exists>r ws. r \<in> set (db_orders d) \<and> or_id r = i \<and> open_row r
      \<and> d' = d\<lparr>db_orders := cancelled_rows i (db_orders d), db_wallets := ws\<rparr>"
    using r d'(1) by blast
  have rows: "rows_ok (cancelled_rows i (db_orders d))" using cancelled_rows_ok [OF ok(4) r(1,3,2)] .
  have "0 \<le> row_coll r" using row_coll_bounds rows_okD [OF ok(4) r(1)] .
  then have "books ws (db_transactions d)"
    using w booksD(1) [OF ok(1)] by (intro books_placed [OF ok(1,2) d'(2)]) force
  moreover have "wallets_ok ws" using wallets_ok_moved [OF d'(2) ok(2)] .
  moreover have "trading (cancelled_rows i (db_orders d)) (db_trades d)"
    by (rule trading_same_fills [OF ok(3) rows cancelled_same])
  moreover have "owned d'"
    using arg_cong [OF cancelled_same [of i "db_orders d"], of "map fst"]
    by (intro owned_ident [OF ok(5)]) (simp_all add: d'(1) moved_keys [OF d'(2)] o_def)
  moreover have "settled_closed d'"
  proof -
    have "\<not> open_row q" if q: "q \<in> set (cancelled_rows i (db_orders d))" "isSettled d (or_market_id q)" for q
    proof -
      have m: "or_market_id r \<noteq> or_market_id q" using settled_closedD(3) [OF ok(6) q(2) r(1)] r(3) by metis
      have "q \<in> set (filter (\<lambda>p. or_market_id p = or_market_id q) (cancelled_rows (or_id r) (db_orders d)))"
        using q(1) r(2) by simp
      then have "q \<in> set (db_orders d)" unfolding cancelled_untouched [OF ok(4) r(1) m] by simp
      then show ?thesis using settled_closedD(3) [OF ok(6) q(2)] by blast
    qed
    then show ?thesis using ok(6) by (auto simp: settled_closed_def isSettled_def d'(1))
  qed
  ultimately show "platform_ok d'" by (simp add: platform_ok_def d'(1))
qed

section \<open>Settling on the platform\<close>

lemma tx_view_signed: "tx_view t = tx_view t' \<Longrightarrow> tx_wallet_id t = tx_wallet_id t' \<and> tx_signed t = tx_signed t'"
  by (simp add: tx_view_def tx_signed_def)

lemma tx_history_view:
  "map tx_view xs = map tx_view ys \<Longrightarrow> tx_history xs i = tx_history ys i"
proof (induction xs arbitrary: ys)
  case (Cons x xs)
  then obtain y ys' where y: "ys = y # ys'" "tx_view x = tx_view y" "map tx_view xs = map tx_view ys'"
    by (cases ys) auto
  show ?case using Cons.IH [OF y(3)] tx_view_signed [OF y(2)] by (simp add: y(1) tx_history_def)
qed (simp add: tx_history_def)

lemma tx_wallets_view: "map tx_view xs = map tx_view ys \<Longrightarrow> tx_wallet_id ` set xs = tx_wallet_id ` set ys"
proof -
  assume "map tx_view xs = map tx_view ys"
  then have "map (fst \<circ> tx_view) xs = map (fst \<circ> tx_view) ys" by (simp only: map_map [symmetric])
  then have "map tx_wallet_id xs = map tx_wallet_id ys" by (simp add: tx_view_def o_def)
  then show ?thesis by (metis list.set_map)
qed

lemma books_view:
  assumes "books ws txs" "map tx_view txs' = map tx_view txs"
  shows "books ws txs'"
proof -
  have e: "(\<forall>t \<in> set xs. tx_wallet_id t \<in> S) \<longleftrightarrow> tx_wallet_id ` set xs \<subseteq> S" for xs S by blast
  from assms(1) show ?thesis unfolding books_def e tx_wallets_view [OF assms(2)] tx_history_view [OF assms(2)] .
qed

text \<open>The rows of a settled order add the payout and take the stake.\<close>

lemma paid_history:
  assumes "map tx_view new = concat (map paid_txs vs)" "\<forall>v \<in> set vs. settled_ok v"
    "\<forall>v \<in> set vs. so_filled v = 0 \<longrightarrow> so_stake v = 0 \<and> so_payout v = 0"
  shows "tx_history new i = (\<Sum>v \<leftarrow> filter (\<lambda>v. so_walletID v = i) vs. so_payout v - so_stake v)"
    "tx_wallet_id ` set new \<subseteq> so_walletID ` set vs"
proof -
  have "tx_history new i = (\<Sum>v \<leftarrow> filter (\<lambda>v. so_walletID v = i) vs. so_payout v - so_stake v)
      \<and> tx_wallet_id ` set new \<subseteq> so_walletID ` set vs"
    using assms
  proof (induction vs arbitrary: new)
    case (Cons v vs)
    then obtain xs ys where n: "new = xs @ ys" "map tx_view xs = paid_txs v" "map tx_view ys = concat (map paid_txs vs)"
      by (auto simp: map_eq_append_conv)
    have v: "settled_ok v" "so_filled v = 0 \<longrightarrow> so_stake v = 0 \<and> so_payout v = 0" using Cons.prems by auto
    have ih: "tx_history ys i = (\<Sum>v \<leftarrow> filter (\<lambda>v. so_walletID v = i) vs. so_payout v - so_stake v)
        \<and> tx_wallet_id ` set ys \<subseteq> so_walletID ` set vs"
      using Cons.IH [OF n(3)] Cons.prems(2,3) by simp
    have "tx_history xs i = (if so_walletID v = i then so_payout v - so_stake v else 0)
        \<and> tx_wallet_id ` set xs \<subseteq> {so_walletID v}"
      using n(2) v by (auto simp: paid_txs_def settled_ok_def tx_history_def tx_signed_def tx_view_def split: if_splits)
    then show ?case using ih by (auto simp: n(1))
  qed (simp add: tx_history_def)
  then show "tx_history new i = (\<Sum>v \<leftarrow> filter (\<lambda>v. so_walletID v = i) vs. so_payout v - so_stake v)"
    "tx_wallet_id ` set new \<subseteq> so_walletID ` set vs" by blast+
qed

lemma books_settled:
  assumes "books ws txs" "map wallet_view ws' = map (paid_view vs) ws"
    "map tx_view txs' = map tx_view txs @ concat (map paid_txs vs)" "\<forall>v \<in> set vs. settled_ok v"
    "\<forall>v \<in> set vs. so_filled v = 0 \<longrightarrow> so_stake v = 0 \<and> so_payout v = 0" "so_walletID ` set vs \<subseteq> wl_id ` set ws"
    "\<forall>w \<in> set ws'. 0 \<le> wl_locked_balance w"
  shows "books ws' txs'"
proof -
  obtain old new where n: "txs' = old @ new" "map tx_view old = map tx_view txs" "map tx_view new = concat (map paid_txs vs)"
    using assms(3) by (auto simp: map_eq_append_conv)
  note h = paid_history [OF n(3) assms(4,5)]
  let ?us = "\<lambda>w. filter (\<lambda>v. so_walletID v = wl_id w) vs"
  have "books ws old" using books_view [OF assms(1) n(2)] .
  then have "books ws' (old @ new)"
  proof (rule books_change)
    show view: "map purse_view ws' = map (\<lambda>w. (wl_id w, wl_balance w + (\<Sum>v \<leftarrow> ?us w. so_refund v + so_payout v),
        wl_locked_balance w + - (\<Sum>v \<leftarrow> ?us w. so_lockedUse v))) ws"
      using map_eq_mono [OF assms(2), where f' = purse_view and g' = "\<lambda>w. (wl_id w,
          wl_balance w + (\<Sum>v \<leftarrow> ?us w. so_refund v + so_payout v), wl_locked_balance w + - (\<Sum>v \<leftarrow> ?us w. so_lockedUse v))"]
      by (simp add: wallet_view_def paid_view_def purse_view_def Let_def)
    show "\<forall>t \<in> set new. tx_wallet_id t \<in> wl_id ` set ws" using h(2) assms(6) by blast
    fix w assume w: "w \<in> set ws"
    have "(wl_id w, wl_balance w + (\<Sum>v \<leftarrow> ?us w. so_refund v + so_payout v), wl_locked_balance w + - (\<Sum>v \<leftarrow> ?us w. so_lockedUse v))
        \<in> purse_view ` set ws'"
      using w view by (metis (no_types, lifting) image_eqI list.set_map)
    then obtain w' where w': "w' \<in> set ws'" "wl_locked_balance w' = wl_locked_balance w + - (\<Sum>v \<leftarrow> ?us w. so_lockedUse v)"
      by (auto simp: purse_view_def)
    have "0 \<le> (\<Sum>v \<leftarrow> ?us w. so_refund v + so_payout v)" using assms(4) by (intro sum_list_nonneg) (auto simp: settled_ok_def)
    moreover have "(\<Sum>v \<leftarrow> us. so_refund v + so_payout v) - (\<Sum>v \<leftarrow> us. so_lockedUse v) = (\<Sum>v \<leftarrow> us. so_payout v - so_stake v)"
      if "\<forall>v \<in> set us. settled_ok v" for us
      using that by (induction us) (auto simp: settled_ok_def)
    from this [of "?us w"] have "(\<Sum>v \<leftarrow> ?us w. so_refund v + so_payout v) - (\<Sum>v \<leftarrow> ?us w. so_lockedUse v)
        = (\<Sum>v \<leftarrow> ?us w. so_payout v - so_stake v)"
      using assms(4) by simp
    ultimately show "0 \<le> wl_balance w + (\<Sum>v \<leftarrow> ?us w. so_refund v + so_payout v)
        \<and> 0 \<le> wl_locked_balance w + - (\<Sum>v \<leftarrow> ?us w. so_lockedUse v)
        \<and> (\<Sum>v \<leftarrow> ?us w. so_refund v + so_payout v) + - (\<Sum>v \<leftarrow> ?us w. so_lockedUse v) = tx_history new (wl_id w)"
      using booksD(1) [OF assms(1) w] w'(2) bspec [OF assms(7) w'(1)] by (simp add: h(1))
  qed
  then show ?thesis by (simp add: n(1))
qed

lemma unfilled_no_stake:
  assumes "trading rows ts" "r \<in> set rows" "or_filled_amount r = 0" "\<And>t. t \<in> set us \<Longrightarrow> t \<in> set ts" "so_id v = or_id r"
  shows "(\<Sum>t \<leftarrow> us. trade_stake v t) = 0"
proof -
  have nonneg: "0 \<le> trade_shares (or_id r) t" if "t \<in> set ts" for t
    using tradingD(2) [OF assms(1) that] by (auto simp: trade_fits_def valid_trade_def trade_shares_def)
  have "(\<Sum>t \<leftarrow> ts. trade_shares (or_id r) t) = 0"
    using tradingD(3) [OF assms(1,2)] assms(3) by (simp add: traded_def)
  then have "\<forall>t \<in> set ts. trade_shares (or_id r) t = 0"
    using nonneg by (subst (asm) sum_list_nonneg_eq_0_iff) auto
  then have "\<forall>t \<in> set us. trade_stake v t = 0"
    using assms(4,5) tradingD(2) [OF assms(1)]
    by (fastforce simp: trade_shares_def trade_stake_def trade_fits_def valid_trade_def split: if_splits)
  then show ?thesis by (induction us) simp_all
qed

text \<open>A settlement cancels what is open in its market.\<close>

definition close_row :: "string \<Rightarrow> orderRow \<Rightarrow> orderRow" where
  "close_row m r = (if or_market_id r = m \<and> open_row r then r\<lparr>or_status := ''cancelled''\<rparr> else r)"

definition closed_rows :: "string \<Rightarrow> orderRow list \<Rightarrow> orderRow list" where
  "closed_rows m rows = map (close_row m) rows"

lemma close_row_simps [simp]:
  "or_ident (close_row m r) = or_ident r" "or_filled_amount (close_row m r) = or_filled_amount r"
  "or_id (close_row m r) = or_id r" "or_market_id (close_row m r) = or_market_id r"
  "or_idempotency_key (close_row m r) = or_idempotency_key r"
  "open_row (close_row m r) \<longleftrightarrow> open_row r \<and> or_market_id r \<noteq> m"
  by (auto simp: close_row_def or_ident_def open_row_def)

lemma close_row_ok: "row_ok r \<Longrightarrow> row_ok (close_row m r)"
  by (cases "or_status r = ''pending''"; cases "or_status r = ''partial''")
    (simp_all add: close_row_def open_row_def row_ok_def row_status_ok_def)

lemma closed_same: "map (\<lambda>r. (or_ident r, or_filled_amount r)) (closed_rows m rows) = map (\<lambda>r. (or_ident r, or_filled_amount r)) rows"
  by (simp add: closed_rows_def)

lemma closed_rows_ok: "rows_ok rows \<Longrightarrow> rows_ok (closed_rows m rows)"
  by (auto simp: rows_ok_def closed_rows_def o_def intro: close_row_ok)

lemma closed_untouched:
  "x \<noteq> m \<Longrightarrow> filter (\<lambda>r. or_market_id r = x) (closed_rows m rows) = filter (\<lambda>r. or_market_id r = x) rows"
  unfolding closed_rows_def by (intro filter_map_same) (simp add: close_row_def)

lemma closed_not_open: "r \<in> set (closed_rows m rows) \<Longrightarrow> or_market_id r = m \<Longrightarrow> \<not> open_row r"
  unfolding closed_rows_def set_map by (erule imageE) simp

lemma platform_settle_market:
  assumes "platform_ok d" "\<exists>x \<in> set (db_markets d). mr_id x = m" "settleMarketTx fault m e w now d = (Inr (), d')"
  shows "platform_ok d'"
proof -
  note ok = platform_okD [OF assms(1)] and db = platform_db_ok [OF assms(1)]
  note eff = settleMarketTx_Inr [OF db assms(3)]
  let ?vs = "settled_orders d m w"
  have f: "\<forall>r \<in> set (market_orders d m). \<exists>w. orderWallet d r = Some w"
    "map wallet_view (db_wallets d') = map (paid_view ?vs) (db_wallets d)"
    "map tx_view (db_transactions d') = map tx_view (db_transactions d) @ concat (map paid_txs ?vs)"
    "wallet_keys (db_wallets d') = wallet_keys (db_wallets d)" "db_trades d' = db_trades d"
    "db_settlements d' = db_settlements d @ [\<lparr>sr_market_id = m, sr_event_id = e, sr_winning_option = w, sr_settled_at = stamp now\<rparr>]"
    "db_markets d' = updateWhere (\<lambda>r. mr_id r = m) (\<lambda>r. r\<lparr>mr_status := ''settled'', mr_settled_at := Some (stamp now)\<rparr>) (db_markets d)"
    using eff(1) by (simp_all add: settled_effect_def Let_def same_rest_def)
  have rows: "db_orders d' = closed_rows m (db_orders d)"
    using settled_effect_rows(3) [OF db eff(1)] by (simp add: closed_rows_def close_row_def [abs_def] open_row_def)
  have vs: "\<forall>v \<in> set ?vs. settled_ok v" using settled_orders_ok [OF db f(1)] by blast
  have idle: "so_stake v = 0 \<and> so_payout v = 0" if v: "v \<in> set ?vs" "so_filled v = 0" for v
  proof -
    obtain r where r: "r \<in> set (market_orders d m)" "v = settled_order d m w r" using v(1) by (auto simp: settled_orders_def)
    then obtain u where u: "orderWallet d r = Some u" using f(1) by blast
    note so = settled_order_row [OF db r(1) u, of w]
    have "or_filled_amount r = 0" using so(5) v(2) r(2) by simp
    moreover have "r \<in> set (db_orders d)" using r(1) by (simp add: market_orders_def)
    ultimately have "(\<Sum>t \<leftarrow> market_trades d m. trade_stake (row_order u r) t) = 0"
      by (intro unfilled_no_stake [OF ok(3)]) (auto simp: market_trades_def row_order_def)
    then show ?thesis using so(6,8) row_stake_eq [OF db r(1)] \<open>or_filled_amount r = 0\<close>
      by (simp add: r(2) row_payout_def half_up_def)
  qed
  have wallets: "so_walletID ` set ?vs \<subseteq> wl_id ` set (db_wallets d)"
  proof -
    have "so_walletID (settled_order d m w r) \<in> wl_id ` set (db_wallets d)" if r: "r \<in> set (market_orders d m)" for r
    proof -
      obtain u where u: "orderWallet d r = Some u" using f(1) r by blast
      then show ?thesis using settled_order_row(2) [OF db r u, of w] orderWallet_row [OF u] by simp
    qed
    then show ?thesis by (auto simp: settled_orders_def)
  qed
  have "\<forall>u \<in> set (db_wallets d'). 0 \<le> wl_locked_balance u"
    using eff(2) booksD(2) [OF ok(1)] by (simp add: holdings_kept_def)
  then have "books (db_wallets d') (db_transactions d')"
    using books_settled [OF ok(1) f(2,3) vs _ wallets] idle by blast
  moreover have "wallets_ok (db_wallets d')" using ok(2) by (simp add: wallets_ok_keys f(4))
  moreover have "trading (db_orders d') (db_trades d')"
    unfolding rows f(5) by (rule trading_same_fills [OF ok(3) closed_rows_ok [OF ok(4)] closed_same])
  moreover have "owned d'"
    using arg_cong [OF closed_same [of m "db_orders d"], of "map fst"]
    by (intro owned_ident [OF ok(5)]) (simp_all add: rows f(4) o_def)
  moreover have "settled_closed d'"
  proof -
    have s: "isSettled d' x \<longleftrightarrow> isSettled d x \<or> x = m" for x by (auto simp: isSettled_def f(6))
    have "\<not> open_row r" if r: "r \<in> set (db_orders d')" "isSettled d' (or_market_id r)" for r
    proof (cases "or_market_id r = m")
      case True
      then show ?thesis using closed_not_open r(1) unfolding rows by blast
    next
      case False
      have "r \<in> set (filter (\<lambda>q. or_market_id q = or_market_id r) (closed_rows m (db_orders d)))" using r(1) by (simp add: rows)
      then have "r \<in> set (db_orders d)" unfolding closed_untouched [OF False] by simp
      then show ?thesis using r(2) False settled_closedD(3) [OF ok(6)] s by blast
    qed
    moreover have "(x, ''settled'') \<in> set (market_marks (db_markets d'))" if "isSettled d' x" for x
    proof (cases "x = m")
      case True
      then show ?thesis using assms(2) by (auto simp: market_marks_def f(7) updateWhere_def image_image)
    next
      case False
      then have "(x, ''settled'') \<in> set (market_marks (db_markets d))" using that s settled_closedD(1) [OF ok(6)] by simp
      then show ?thesis using False by (auto simp: market_marks_def f(7) updateWhere_def image_iff split: if_splits)
    qed
    moreover have "t = ''settled''" if "isSettled d' x" "(x, t) \<in> set (market_marks (db_markets d'))" for x t
      using that s settled_closedD(2) [OF ok(6)] by (auto simp: market_marks_def f(7) updateWhere_def split: if_splits)
    ultimately show ?thesis by (auto simp: settled_closed_def)
  qed
  ultimately show ?thesis by (simp add: platform_ok_def)
qed

end
