(* ===== verification/MarketPostgres.thy ===== *)
theory MarketPostgres
  imports Market NumericParam
begin

text \<open>
  \<^verbatim>\<open>internal/market/postgres_repository.go\<close>: the market repository over the table \<^verbatim>\<open>markets\<close>. The
  JSON column of the options is kept as the list it encodes, so decoding it does not fail. The
  fee rates are left out of the rows: the checks of \<^verbatim>\<open>migrations/005_fee_ledger.sql\<close> force them
  to 0, and a statement that would store another value is refused.
\<close>

definition marketPgValidateReferences :: "faults \<Rightarrow> string \<Rightarrow> string \<Rightarrow> db \<Rightarrow> unit res" where
  "marketPgValidateReferences fault merchantID eventID d =
     (if fault ''select references'' merchantID then Inl (Wrapped ''query market references'' dbError)
      else let merchantActive = (map_of (db_merchants d) merchantID = Some ''active'');
               eventActive = list_ex (\<lambda>e. e_ID e = eventID \<and> e_Status e = ''active'') (db_events d)
        in if \<not> merchantActive \<or> \<not> eventActive then Inl (Sentinel MarketErrInvalidReference) else Inr ())"

definition marketPgCreate :: "faults \<Rightarrow> market \<Rightarrow> db \<Rightarrow> unit res \<times> db" where
  "marketPgCreate fault v d =
     (case bind_res (numericArg ''insert market'' (m_TotalVolume v)) (\<lambda>volume.
           bind_res (numericArg ''insert market'' (m_LiquidityPool v)) (\<lambda>pool.
           bind_res (numericArg ''insert market'' (m_MerchantFeeRate v)) (\<lambda>merchantRate.
           bind_res (numericArg ''insert market'' (m_PlatformFeeRate v)) (\<lambda>platformRate.
           if fault ''insert market'' (m_ID v) \<or> list_ex (\<lambda>m. mr_id m = m_ID v) (db_markets d)
              \<or> toColumn 6 merchantRate \<noteq> 0 \<or> toColumn 6 platformRate \<noteq> 0
           then Inl (Wrapped ''insert market'' dbError)
           else if map_of (db_merchants d) (m_MerchantID v) = None
              \<or> \<not> list_ex (\<lambda>e. e_ID e = m_EventID v) (db_events d)
           then Inl (Sentinel MarketErrInvalidReference)
           else Inr \<lparr>mr_id = m_ID v, mr_merchant_id = m_MerchantID v, mr_event_id = m_EventID v,
             mr_type = m_Type v, mr_question = m_Question v, mr_options = m_Options v, mr_status = m_Status v,
             mr_total_volume = toColumn 6 volume, mr_liquidity_pool = toColumn 2 pool,
             mr_created_at = stamp (m_CreatedAt v), mr_settled_at = map_option stamp (m_SettledAt v)\<rparr>)))) of
        Inl err \<Rightarrow> (Inl err, d)
      | Inr row \<Rightarrow> (Inr (), d\<lparr>db_markets := db_markets d @ [row]\<rparr>))"

definition scanMarketRow :: "marketRow \<Rightarrow> market" where
  "scanMarketRow m = \<lparr>m_ID = mr_id m, m_MerchantID = mr_merchant_id m, m_EventID = mr_event_id m,
     m_Type = mr_type m, m_Question = mr_question m, m_Options = mr_options m, m_Status = mr_status m,
     m_TotalVolume = numericFloat 6 (mr_total_volume m), m_LiquidityPool = numericFloat 2 (mr_liquidity_pool m),
     m_MerchantFeeRate = Fin 0, m_PlatformFeeRate = Fin 0, m_CreatedAt = mr_created_at m,
     m_SettledAt = mr_settled_at m\<rparr>"

definition scanMarket :: "marketRow option \<Rightarrow> market res" where
  "scanMarket row = (case row of
      None \<Rightarrow> Inl (Sentinel MarketErrNotFound) | Some m \<Rightarrow> Inr (scanMarketRow m))"

definition marketPgGetByID :: "faults \<Rightarrow> string \<Rightarrow> db \<Rightarrow> market res" where
  "marketPgGetByID fault marketID d =
     (if fault ''select market'' marketID then Inl (Wrapped ''scan market'' dbError)
      else scanMarket (find (\<lambda>m. mr_id m = marketID) (db_markets d)))"

definition marketRowMatches :: "marketFilters \<Rightarrow> marketRow \<Rightarrow> bool" where
  "marketRowMatches filters m \<longleftrightarrow>
     (mf_MerchantID filters = [] \<or> mr_merchant_id m = mf_MerchantID filters)
     \<and> (mf_EventID filters = [] \<or> mr_event_id m = mf_EventID filters)
     \<and> (mf_Status filters = [] \<or> mr_status m = mf_Status filters)"

definition marketRowsNewestFirst :: "marketRow \<Rightarrow> marketRow \<Rightarrow> bool" where
  "marketRowsNewestFirst a b = (if mr_created_at a = mr_created_at b then mr_id a < mr_id b
     else mr_created_at b < mr_created_at a)"

definition marketPgList :: "faults \<Rightarrow> marketFilters \<Rightarrow> db \<Rightarrow> (market list \<times> int) res" where
  "marketPgList fault filters d =
     (if fault ''count markets'' [] then Inl (Wrapped ''count markets'' dbError)
      else let rows = filter (marketRowMatches filters) (db_markets d);
               total = int (length rows);
               offset = (mf_Page filters - 1) * mf_Limit filters
        in if fault ''query markets'' [] then Inl (Wrapped ''query markets'' dbError)
           else if fault ''iterate markets'' [] then Inl (Wrapped ''iterate markets'' dbError)
           else Inr (map scanMarketRow
             (take (nat (mf_Limit filters)) (drop (nat offset) (sort_by marketRowsNewestFirst rows))), total))"

definition requireUpdatedMarket :: "nat \<Rightarrow> unit res" where
  "requireUpdatedMarket n = (if n = 0 then Inl (Sentinel MarketErrInvalidTransition) else Inr ())"

definition marketPgUpdateStatus :: "faults \<Rightarrow> string \<Rightarrow> string \<Rightarrow> string \<Rightarrow> db \<Rightarrow> unit res \<times> db" where
  "marketPgUpdateStatus fault marketID expectedStatus status d =
     (if fault ''update market status'' marketID then (Inl (Wrapped ''update market status row'' dbError), d)
      else let p = (\<lambda>m. mr_id m = marketID \<and> mr_status m = expectedStatus) in
        (requireUpdatedMarket (rowsAffected p (db_markets d)),
         d\<lparr>db_markets := updateWhere p (\<lambda>m. m\<lparr>mr_status := status\<rparr>) (db_markets d)\<rparr>))"

definition marketPgAddLiquidity :: "faults \<Rightarrow> string \<Rightarrow> string \<Rightarrow> float64 \<Rightarrow> db \<Rightarrow> unit res \<times> db" where
  "marketPgAddLiquidity fault marketID expectedStatus amount d =
     (case (if fault ''update liquidity'' marketID then Inl (Wrapped ''update market liquidity row'' dbError)
            else numericArg ''update market liquidity row'' amount) of
        Inl err \<Rightarrow> (Inl err, d)
      | Inr a \<Rightarrow>
          let p = (\<lambda>m. mr_id m = marketID \<and> mr_status m = expectedStatus) in
          (requireUpdatedMarket (rowsAffected p (db_markets d)),
           d\<lparr>db_markets := updateWhere p (\<lambda>m. m\<lparr>mr_liquidity_pool :=
             toColumn 2 (of_int (mr_liquidity_pool m) / 100 + a)\<rparr>) (db_markets d)\<rparr>))"

end
