(* ===== verification/Reconciliation.thy ===== *)
theory Reconciliation
  imports Ledger
begin

text \<open>
  \<^verbatim>\<open>internal/reconciliation\<close>: the scheduled job that gives locked funds back to wallets whose owner
  has no open or filled order in the currency. Wallets that another transaction has locked at the
  time are skipped; \<open>busy\<close> says which.
\<close>

section \<open>The job\<close>

record strandedWallet =
  sw_id :: string
  sw_currency :: string
  sw_locked :: int

record reconcileResult =
  rr_WalletsRecovered :: int
  rr_AmountRecovered :: float64

definition ownsOrder :: "walletRow \<Rightarrow> orderRow \<Rightarrow> bool" where
  "ownsOrder w o1 \<longleftrightarrow> or_merchant_id o1 = wl_merchant_id w \<and> or_user_id o1 = wl_user_id w
     \<and> or_currency o1 = wl_currency w \<and> or_status o1 \<in> {''pending'', ''partial'', ''filled''}"

definition strandedRow :: "(string \<Rightarrow> bool) \<Rightarrow> db \<Rightarrow> walletRow \<Rightarrow> bool" where
  "strandedRow busy d w \<longleftrightarrow> 0 < wl_locked_balance w \<and> \<not> list_ex (ownsOrder w) (db_orders d) \<and> \<not> busy (wl_id w)"

definition scanStranded :: "walletRow \<Rightarrow> strandedWallet res" where
  "scanStranded w = (case CentsFromFloat (numericFloat 2 (wl_locked_balance w)) of
      Inl err \<Rightarrow> Inl (Wrapped (''parse stranded wallet '' @ wl_id w @ '' balance'') err)
    | Inr cents \<Rightarrow> Inr \<lparr>sw_id = wl_id w, sw_currency = wl_currency w, sw_locked = cents\<rparr>)"

definition lockStranded :: "faults \<Rightarrow> (string \<Rightarrow> bool) \<Rightarrow> db \<Rightarrow> strandedWallet list res" where
  "lockStranded fault busy d =
     (if fault ''lock stranded'' [] then Inl (Wrapped ''lock stranded wallets'' dbError)
      else bind_res (scanAll scanStranded (sort_key wl_id (filter (strandedRow busy d) (db_wallets d)))) (\<lambda>wallets.
        if fault ''iterate stranded'' [] then Inl (Wrapped ''iterate stranded wallets'' dbError)
        else Inr wallets))"

definition insertRecovery :: "faults \<Rightarrow> string \<Rightarrow> string \<Rightarrow> string \<Rightarrow> db \<Rightarrow> unit res \<times> db" where
  "insertRecovery fault walletID amount currency d =
     (case freshUUID d of (i, d1) \<Rightarrow>
        if fault ''record recovery'' walletID \<or> list_ex (\<lambda>t. tx_id t = i) (db_transactions d)
        then (Inl (Wrapped (''record stranded wallet recovery '' @ walletID) dbError), d)
        else (case castCents (''record stranded wallet recovery '' @ walletID) amount of
            Inl err \<Rightarrow> (Inl err, d)
          | Inr c \<Rightarrow> (Inr (), d1\<lparr>db_transactions := db_transactions d1 @ [\<lparr>tx_id = i, tx_wallet_id = walletID,
              tx_type = ''reconciliation'', tx_amount = c, tx_currency = currency, tx_related_order_id = None,
              tx_idempotency_key = None, tx_status = ''completed'', tx_created_at = db_now d\<rparr>]\<rparr>)))"

definition recoverWalletLock :: "faults \<Rightarrow> strandedWallet \<Rightarrow> db \<Rightarrow> unit res \<times> db" where
  "recoverWalletLock fault wallet d =
     (let amount = FormatCents (sw_locked wallet); message = ''release stranded wallet '' @ sw_id wallet in
      case (if fault ''release stranded'' (sw_id wallet) then Inl (Wrapped message dbError)
            else castCents message amount) of
        Inl err \<Rightarrow> (Inl err, d)
      | Inr c \<Rightarrow>
          let p = (\<lambda>w. wl_id w = sw_id wallet \<and> wl_locked_balance w = c);
              d1 = d\<lparr>db_wallets := updateWhere p (\<lambda>w. w\<lparr>wl_balance := wl_balance w + c, wl_locked_balance := 0,
                wl_updated_at := db_now d\<rparr>) (db_wallets d)\<rparr>
          in if rowsAffected p (db_wallets d) \<noteq> 1
             then (Inl (Plain (''stranded wallet '' @ sw_id wallet @ '' changed during reconciliation'')), d1)
             else insertRecovery fault (sw_id wallet) amount (sw_currency wallet) d1)"

fun recoverWallets :: "faults \<Rightarrow> strandedWallet list \<Rightarrow> int \<Rightarrow> db \<Rightarrow> int res \<times> db" where
  "recoverWallets fault [] recoveredCents d = (Inr recoveredCents, d)"
| "recoverWallets fault (wallet # wallets) recoveredCents d =
     andThen (recoverWalletLock fault wallet d) (\<lambda>_ d1.
       recoverWallets fault wallets (i64 (recoveredCents + sw_locked wallet)) d1)"

definition reconcileTx :: "faults \<Rightarrow> (string \<Rightarrow> bool) \<Rightarrow> db \<Rightarrow> reconcileResult res \<times> db" where
  "reconcileTx fault busy d =
     andThen (lockStranded fault busy d, d) (\<lambda>wallets d1.
     andThen (recoverWallets fault wallets 0 d1) (\<lambda>recoveredCents d2.
       (Inr \<lparr>rr_WalletsRecovered = int (length wallets), rr_AmountRecovered = CentsToFloat recoveredCents\<rparr>, d2)))"

definition reconcilePg :: "faults \<Rightarrow> (string \<Rightarrow> bool) \<Rightarrow> db \<Rightarrow> reconcileResult res \<times> db" where
  "reconcilePg fault busy = inTx fault ''reconciliation'' ''begin wallet reconciliation'' ''commit wallet reconciliation''
     (reconcileTx fault busy)"

definition reconcile :: "faults \<Rightarrow> (string \<Rightarrow> bool) \<Rightarrow> db \<Rightarrow> reconcileResult res \<times> db" where
  "reconcile fault busy d = (case reconcilePg fault busy d of
      (Inl err, d') \<Rightarrow> (Inl (Wrapped ''reconcile stranded wallet collateral'' err), d')
    | (Inr result, d') \<Rightarrow> (Inr result, d'))"

section \<open>What a run does\<close>

definition freed :: "string set \<Rightarrow> walletRow \<Rightarrow> string \<times> int \<times> int" where
  "freed ids w = (if wl_id w \<in> ids then (wl_id w, wl_balance w + wl_locked_balance w, 0) else purse_view w)"

lemma recoverWalletLock_Inr:
  assumes "distinct (map wl_id (db_wallets d))" "recoverWalletLock fault s d = (Inr (), d')"
  shows "wallet_keys (db_wallets d') = wallet_keys (db_wallets d) \<and> trading_same d d'
    \<and> map purse_view (db_wallets d') = map (freed {sw_id s}) (db_wallets d)
    \<and> (\<exists>w \<in> set (db_wallets d). wl_id w = sw_id s \<and> (0 \<le> sw_locked s \<longrightarrow> wl_locked_balance w = sw_locked s))
    \<and> (\<exists>t. db_transactions d' = db_transactions d @ [t] \<and> tx_wallet_id t = sw_id s \<and> tx_signed t = 0)"
proof -
  let ?p = "\<lambda>c w. wl_id w = sw_id s \<and> wl_locked_balance w = c"
    and ?f = "\<lambda>c w. w\<lparr>wl_balance := wl_balance w + c, wl_locked_balance := 0, wl_updated_at := db_now d\<rparr>"
  obtain c m where c: "castCents m (FormatCents (sw_locked s)) = Inr c" "rowsAffected (?p c) (db_wallets d) = 1"
    and i: "insertRecovery fault (sw_id s) (FormatCents (sw_locked s)) (sw_currency s)
      (d\<lparr>db_wallets := updateWhere (?p c) (?f c) (db_wallets d)\<rparr>) = (Inr (), d')"
    using assms(2) unfolding recoverWalletLock_def Let_def by (auto split: sum.splits if_splits)
  have "filter (?p c) (db_wallets d) \<noteq> []" using c(2) by (auto simp: rowsAffected_def)
  then obtain w where w: "w \<in> set (db_wallets d)" "wl_id w = sw_id s" "wl_locked_balance w = c"
    by (auto simp: filter_empty_conv)
  have u: "wl_locked_balance u = c" if "u \<in> set (db_wallets d)" "wl_id u = sw_id s" for u
  proof -
    have "u = w" using that w(1,2) assms(1) by (metis distinct_map inj_onD)
    then show ?thesis using w(3) by simp
  qed
  obtain t n where d': "d' = d\<lparr>db_wallets := updateWhere (?p c) (?f c) (db_wallets d), db_uuid_next := n,
      db_transactions := db_transactions d @ [t]\<rparr>" "tx_wallet_id t = sw_id s" "tx_signed t = 0"
    using i by (auto simp: insertRecovery_def freshUUID_def tx_signed_def split: if_splits sum.splits)
  have "0 \<le> sw_locked s \<longrightarrow> wl_locked_balance w = sw_locked s" using c(1) w(3) by auto
  then have "\<exists>w \<in> set (db_wallets d). wl_id w = sw_id s \<and> (0 \<le> sw_locked s \<longrightarrow> wl_locked_balance w = sw_locked s)"
    using w(1,2) by blast
  moreover have "map purse_view (db_wallets d') = map (freed {sw_id s}) (db_wallets d)"
    using u by (auto simp: d'(1) updateWhere_def freed_def purse_view_def)
  moreover have "wallet_keys (db_wallets d') = wallet_keys (db_wallets d)"
    by (simp add: d'(1) wallet_keys_def updateWhere_def)
  moreover have "trading_same d d'" by (simp add: d'(1) trading_same_def)
  ultimately show ?thesis using d' by simp
qed

text \<open>A run frees the wallets it lists, whole, and nothing else.\<close>

lemma recovered_kept:
  assumes "books (db_wallets d) (db_transactions d)" "wallets_ok (db_wallets d)" "recoverWalletLock fault s d = (Inr (), d')"
  shows "wallet_kept d d'"
proof -
  note b = booksD [OF assms(1)]
  have "distinct (map wl_id (db_wallets d))" using assms(1) by (simp add: books_def)
  note r = recoverWalletLock_Inr [OF this assms(3)]
  then obtain t where t: "db_transactions d' = db_transactions d @ [t]" "tx_wallet_id t = sw_id s" "tx_signed t = 0" by blast
  have "books (db_wallets d') (db_transactions d @ [t])"
  proof (rule books_change [OF assms(1), where db = "\<lambda>w. if wl_id w = sw_id s then wl_locked_balance w else 0"
        and dl = "\<lambda>w. if wl_id w = sw_id s then - wl_locked_balance w else 0"])
    show "map purse_view (db_wallets d') = map (\<lambda>w. (wl_id w, wl_balance w + (if wl_id w = sw_id s then wl_locked_balance w else 0),
        wl_locked_balance w + (if wl_id w = sw_id s then - wl_locked_balance w else 0))) (db_wallets d)"
      using r by (auto simp: freed_def purse_view_def)
    have "sw_id s \<in> wl_id ` set (db_wallets d)" using r by (metis image_eqI)
    then show "\<forall>t \<in> set [t]. tx_wallet_id t \<in> wl_id ` set (db_wallets d)" using t by simp
    fix w assume "w \<in> set (db_wallets d)"
    then show "0 \<le> wl_balance w + (if wl_id w = sw_id s then wl_locked_balance w else 0)
        \<and> 0 \<le> wl_locked_balance w + (if wl_id w = sw_id s then - wl_locked_balance w else 0)
        \<and> (if wl_id w = sw_id s then wl_locked_balance w else 0) + (if wl_id w = sw_id s then - wl_locked_balance w else 0)
          = tx_history [t] (wl_id w)"
      using b t by (auto simp: tx_history_def)
  qed
  then show ?thesis using r t assms(2) by (simp add: wallet_kept_def wallets_ok_keys)
qed

lemma wallet_kept_trans: "wallet_kept d d' \<Longrightarrow> wallet_kept d' d'' \<Longrightarrow> wallet_kept d d''"
  by (auto simp: wallet_kept_def trading_same_def)

lemma wallet_kept_books: "wallet_kept d d' \<Longrightarrow> books (db_wallets d') (db_transactions d') \<and> wallets_ok (db_wallets d')"
  by (simp add: wallet_kept_def)

lemma recoverWallets_Inr:
  assumes "recoverWallets fault ss a d = (Inr n, d')" "books (db_wallets d) (db_transactions d)" "wallets_ok (db_wallets d)"
  shows "wallet_kept d d' \<and> wallet_keys (db_wallets d') = wallet_keys (db_wallets d)
    \<and> map purse_view (db_wallets d') = map (freed (sw_id ` set ss)) (db_wallets d)"
  using assms
proof (induction ss arbitrary: a d)
  case Nil
  then show ?case by (simp add: wallet_kept_def trading_same_def freed_def [abs_def])
next
  case (Cons s ss)
  obtain d1 where d1: "recoverWalletLock fault s d = (Inr (), d1)"
    "recoverWallets fault ss (i64 (a + sw_locked s)) d1 = (Inr n, d')"
    using Cons.prems(1) by (auto simp: andThen_Inr)
  have k: "wallet_kept d d1" by (rule recovered_kept [OF Cons.prems(2,3) d1(1)])
  note ih = Cons.IH [OF d1(2)] wallet_kept_books [OF k]
  have "distinct (map wl_id (db_wallets d))" using Cons.prems(2) by (simp add: books_def)
  then have p: "map purse_view (db_wallets d1) = map (freed {sw_id s}) (db_wallets d)"
    "wallet_keys (db_wallets d1) = wallet_keys (db_wallets d)"
    using recoverWalletLock_Inr [OF _ d1(1)] by blast+
  let ?g = "\<lambda>(i, b, l). if i \<in> sw_id ` set ss then (i, b + l, 0 :: int) else (i, b, l)"
  have g: "freed (sw_id ` set ss) w = ?g (purse_view w)" for w by (simp add: freed_def purse_view_def)
  have "map purse_view (db_wallets d') = map (freed (sw_id ` set ss)) (db_wallets d1)" using ih by blast
  also have "\<dots> = map ?g (map purse_view (db_wallets d1))" by (simp add: g)
  also have "\<dots> = map (freed (sw_id ` set (s # ss))) (db_wallets d)"
    unfolding p(1) by (auto simp: freed_def purse_view_def)
  finally show ?case using ih wallet_kept_trans [OF k] p(2) by simp
qed

lemma scanned_ids: "scanAll scanStranded ws = Inr ss \<Longrightarrow> map sw_id ss = map wl_id ws"
  by (induction ws arbitrary: ss) (auto simp: bind_res_Inr_iff scanStranded_def split: sum.splits)

lemma reconcile_Inr:
  assumes "reconcile fault busy d = (Inr result, d')" "books (db_wallets d) (db_transactions d)" "wallets_ok (db_wallets d)"
  shows "wallet_kept d d'"
    "map purse_view (db_wallets d') = map (freed (wl_id ` set (filter (strandedRow busy d) (db_wallets d)))) (db_wallets d)"
    "rr_WalletsRecovered result = int (length (filter (strandedRow busy d) (db_wallets d)))"
    "wallet_keys (db_wallets d') = wallet_keys (db_wallets d)"
proof -
  have "reconcileTx fault busy d = (Inr result, d')"
    using assms(1) by (auto simp: reconcile_def reconcilePg_def inTx_Inr split: prod.splits sum.splits)
  then obtain ss n where ss: "scanAll scanStranded (sort_key wl_id (filter (strandedRow busy d) (db_wallets d))) = Inr ss"
    "recoverWallets fault ss 0 d = (Inr n, d')" "rr_WalletsRecovered result = int (length ss)"
    by (auto simp: reconcileTx_def andThen_Inr lockStranded_def bind_res_Inr_iff split: if_splits)
  note i = scanned_ids [OF ss(1)]
  have "sw_id ` set ss = wl_id ` set (filter (strandedRow busy d) (db_wallets d))"
    using arg_cong [OF i, of set] by simp
  then show "wallet_kept d d'" "wallet_keys (db_wallets d') = wallet_keys (db_wallets d)"
    "map purse_view (db_wallets d') = map (freed (wl_id ` set (filter (strandedRow busy d) (db_wallets d)))) (db_wallets d)"
    using recoverWallets_Inr [OF ss(2) assms(2,3)] by auto
  show "rr_WalletsRecovered result = int (length (filter (strandedRow busy d) (db_wallets d)))"
    using arg_cong [OF i, of length] ss(3) by simp
qed

lemma reconcile_Inl: "reconcile fault busy d = (Inl err, d') \<Longrightarrow> d' = d"
  using inTx_failed by (fastforce simp: reconcile_def reconcilePg_def split: prod.splits sum.splits)

lemma kept_reconcile:
  assumes "books (db_wallets d) (db_transactions d)" "wallets_ok (db_wallets d)"
  shows "wallet_kept d (snd (reconcile fault busy d))"
proof -
  obtain x d' where x: "reconcile fault busy d = (x, d')" by fastforce
  then show ?thesis
    using reconcile_Inl reconcile_Inr(1) [OF _ assms] kept_failed [of d] assms by (cases x) fastforce+
qed

section \<open>When no statement is refused, a run succeeds\<close>

definition tx_uuids_fresh :: "db \<Rightarrow> bool" where
  "tx_uuids_fresh d \<longleftrightarrow> inj (db_uuids d) \<and> (\<forall>t \<in> set (db_transactions d). \<forall>n \<ge> db_uuid_next d. tx_id t \<noteq> db_uuids d n)"

lemma one_purse:
  assumes "distinct (map wl_id ws)" "(i, b, l) \<in> purse_view ` set ws"
  shows "rowsAffected (\<lambda>w. wl_id w = i \<and> wl_locked_balance w = l) ws = 1"
proof -
  obtain w where w: "w \<in> set ws" "wl_id w = i" "wl_locked_balance w = l" using assms(2) by (auto simp: purse_view_def)
  have u: "u = w" if "u \<in> set ws" "wl_id u = i" for u using that w assms(1) by (metis distinct_map inj_onD)
  have "set (filter (\<lambda>w. wl_id w = i \<and> wl_locked_balance w = l) ws) = {w}" unfolding set_filter using w u by blast
  moreover have "distinct (filter (\<lambda>w. wl_id w = i \<and> wl_locked_balance w = l) ws)" using assms(1) by (simp add: distinct_map)
  ultimately show ?thesis unfolding rowsAffected_def by (metis distinct_card is_singletonI is_singleton_altdef)
qed

lemma recoverWalletLock_ok:
  assumes "distinct (map wl_id (db_wallets d))" "(sw_id s, b, sw_locked s) \<in> purse_view ` set (db_wallets d)"
    "0 \<le> sw_locked s" "tx_uuids_fresh d"
  shows "\<exists>d'. recoverWalletLock all_fine s d = (Inr (), d') \<and> tx_uuids_fresh d'"
proof -
  have "\<not> list_ex (\<lambda>t. tx_id t = db_uuids d (db_uuid_next d)) (db_transactions d)"
    using assms(4) by (auto simp: tx_uuids_fresh_def list_ex_iff)
  then show ?thesis
    using one_purse [OF assms(1,2)] assms(3,4)
    by (auto simp: recoverWalletLock_def Let_def insertRecovery_def freshUUID_def tx_uuids_fresh_def inj_eq)
qed

lemma recoverWallets_ok:
  assumes "books (db_wallets d) (db_transactions d)" "wallets_ok (db_wallets d)" "tx_uuids_fresh d" "distinct (map sw_id ss)"
    "\<forall>s \<in> set ss. 0 \<le> sw_locked s \<and> (\<exists>b. (sw_id s, b, sw_locked s) \<in> purse_view ` set (db_wallets d))"
    "0 \<le> a" "a + (\<Sum>s \<leftarrow> ss. sw_locked s) < 2 ^ 63"
  shows "\<exists>d'. recoverWallets all_fine ss a d = (Inr (a + (\<Sum>s \<leftarrow> ss. sw_locked s)), d')"
  using assms
proof (induction ss arbitrary: a d)
  case (Cons s ss)
  have dw: "distinct (map wl_id (db_wallets d))" using Cons.prems(1) by (simp add: books_def)
  obtain b where b: "(sw_id s, b, sw_locked s) \<in> purse_view ` set (db_wallets d)" "0 \<le> sw_locked s"
    using Cons.prems(5) by auto
  obtain d1 where d1: "recoverWalletLock all_fine s d = (Inr (), d1)" "tx_uuids_fresh d1"
    using recoverWalletLock_ok [OF dw b Cons.prems(3)] by blast
  have k: "wallet_kept d d1" by (rule recovered_kept [OF Cons.prems(1,2) d1(1)])
  have "map purse_view (db_wallets d1) = map (freed {sw_id s}) (db_wallets d)"
    using recoverWalletLock_Inr [OF dw d1(1)] by blast
  then have v: "purse_view ` set (db_wallets d1) = freed {sw_id s} ` set (db_wallets d)" by (metis list.set_map)
  have other: "(i, c, l) \<in> purse_view ` set (db_wallets d1)"
    if "(i, c, l) \<in> purse_view ` set (db_wallets d)" "i \<noteq> sw_id s" for i c l
    using that unfolding v by (force simp: freed_def purse_view_def)
  have rest: "\<forall>t \<in> set ss. 0 \<le> sw_locked t \<and> (\<exists>b. (sw_id t, b, sw_locked t) \<in> purse_view ` set (db_wallets d1))"
  proof
    fix t assume t: "t \<in> set ss"
    have "\<exists>c. (sw_id t, c, sw_locked t) \<in> purse_view ` set (db_wallets d) \<and> 0 \<le> sw_locked t"
      using Cons.prems(5) t by (meson list.set_intros(2))
    then obtain c where "(sw_id t, c, sw_locked t) \<in> purse_view ` set (db_wallets d)" "0 \<le> sw_locked t" by blast
    moreover have "sw_id t \<noteq> sw_id s" using Cons.prems(4) t by (auto simp: image_iff)
    ultimately show "0 \<le> sw_locked t \<and> (\<exists>b. (sw_id t, b, sw_locked t) \<in> purse_view ` set (db_wallets d1))"
      using other by blast
  qed
  have nn: "0 \<le> (\<Sum>t \<leftarrow> ss. sw_locked t)" using Cons.prems(5) by (intro sum_list_nonneg) auto
  then have "is_i64 (a + sw_locked s)" using Cons.prems(6,7) b(2) by (simp add: is_i64_def)
  moreover have "0 \<le> a + sw_locked s" "a + sw_locked s + (\<Sum>t \<leftarrow> ss. sw_locked t) < 2 ^ 63" "distinct (map sw_id ss)"
    using Cons.prems(4,6,7) b(2) by simp_all
  then obtain d' where "recoverWallets all_fine ss (a + sw_locked s) d1 = (Inr (a + sw_locked s + (\<Sum>t \<leftarrow> ss. sw_locked t)), d')"
    using Cons.IH [OF wallet_kept_books [OF k, THEN conjunct1] wallet_kept_books [OF k, THEN conjunct2] d1(2) _ rest] by blast
  ultimately show ?case using d1(1) by (intro exI [of _ d']) (simp del: all_fine_simps add: add.assoc)
qed simp

lemma scanStranded_ok:
  assumes "0 < wl_locked_balance w" "wl_locked_balance w < moneyCap"
  shows "scanStranded w = Inr \<lparr>sw_id = wl_id w, sw_currency = wl_currency w, sw_locked = wl_locked_balance w\<rparr>"
  using assms by (simp add: scanStranded_def numericFloat_cents CentsFromFloat_pos')

lemma reconcile_ok:
  assumes "books (db_wallets d) (db_transactions d)" "wallets_ok (db_wallets d)" "tx_uuids_fresh d"
    "\<forall>w \<in> set (db_wallets d). wl_locked_balance w < moneyCap"
    "(\<Sum>w \<leftarrow> filter (strandedRow busy d) (db_wallets d). wl_locked_balance w) < 2 ^ 63"
  shows "\<exists>d'. reconcile all_fine busy d = (Inr \<lparr>rr_WalletsRecovered = int (length (filter (strandedRow busy d) (db_wallets d))),
    rr_AmountRecovered = CentsToFloat (\<Sum>w \<leftarrow> filter (strandedRow busy d) (db_wallets d). wl_locked_balance w)\<rparr>, d')"
proof -
  let ?ws = "filter (strandedRow busy d) (db_wallets d)"
    and ?f = "\<lambda>w. \<lparr>sw_id = wl_id w, sw_currency = wl_currency w, sw_locked = wl_locked_balance w\<rparr>"
  let ?ss = "map ?f (sort_key wl_id ?ws)"
  have pos: "0 < wl_locked_balance w" if "w \<in> set ?ws" for w using that by (simp add: strandedRow_def)
  have scan: "scanAll scanStranded (sort_key wl_id ?ws) = Inr ?ss"
  proof -
    have "scanAll scanStranded us = Inr (map ?f us)" if "set us \<subseteq> set ?ws" for us
      using that by (induction us) (simp_all add: scanStranded_ok assms(4) pos)
    then show ?thesis by simp
  qed
  have sum: "(\<Sum>s \<leftarrow> ?ss. sw_locked s) = (\<Sum>w \<leftarrow> ?ws. wl_locked_balance w)"
    by (simp add: o_def) (metis mset_map mset_sort sum_mset_sum_list)
  have "distinct (map wl_id (sort_key wl_id ?ws))"
    using assms(1) by (simp add: books_def distinct_map inj_on_def)
  then have d: "distinct (map sw_id ?ss)" by (simp add: o_def)
  have "\<forall>s \<in> set ?ss. 0 \<le> sw_locked s \<and> (\<exists>b. (sw_id s, b, sw_locked s) \<in> purse_view ` set (db_wallets d))"
    using pos by (force simp: purse_view_def image_iff less_imp_le)
  then obtain d' where "recoverWallets all_fine ?ss 0 d = (Inr (\<Sum>w \<leftarrow> ?ws. wl_locked_balance w), d')"
    using recoverWallets_ok [OF assms(1-3) d, of 0] assms(5) unfolding sum by auto
  then have "reconcileTx all_fine busy d = (Inr \<lparr>rr_WalletsRecovered = int (length ?ws),
      rr_AmountRecovered = CentsToFloat (\<Sum>w \<leftarrow> ?ws. wl_locked_balance w)\<rparr>, d')"
    by (simp add: reconcileTx_def lockStranded_def scan)
  then show ?thesis by (auto simp: reconcile_def reconcilePg_def inTx_def execute_def)
qed

text \<open>After a run none of the wallets it could lock has funds without an order.\<close>

lemma freed_rows:
  assumes "distinct (map wl_id ws)"
  shows "map (freed (wl_id ` set (filter p ws))) ws = map (\<lambda>w. if p w then (wl_id w, wl_balance w + wl_locked_balance w, 0) else purse_view w) ws"
proof -
  have "wl_id w \<in> wl_id ` set (filter p ws) \<longleftrightarrow> p w" if "w \<in> set ws" for w
    using that assms by (auto simp: distinct_map dest: inj_onD)
  then show ?thesis by (auto simp: freed_def)
qed

lemma reconcile_leaves_none:
  assumes "books (db_wallets d) (db_transactions d)" "wallets_ok (db_wallets d)" "reconcile fault busy d = (Inr result, d')"
  shows "filter (strandedRow busy d') (db_wallets d') = []"
proof -
  note r = reconcile_Inr [OF assms(3,1,2)]
  have o1: "db_orders d' = db_orders d" using r(1) by (simp add: wallet_kept_def trading_same_def)
  have ids: "distinct (map wl_id (db_wallets d))" using assms(1) by (simp add: books_def)
  show ?thesis
  proof (rule ccontr)
    assume "filter (strandedRow busy d') (db_wallets d') \<noteq> []"
    then obtain w' where w': "w' \<in> set (db_wallets d')" "strandedRow busy d' w'" by (auto simp: filter_empty_conv)
    then obtain i where i: "i < length (db_wallets d')" "w' = db_wallets d' ! i" by (metis in_set_conv_nth)
    define w where "w = db_wallets d ! i"
    have len: "length (db_wallets d') = length (db_wallets d)" using arg_cong [OF r(4), of length] by (simp add: wallet_keys_def)
    have "map purse_view (db_wallets d') ! i = map (\<lambda>w. if strandedRow busy d w
        then (wl_id w, wl_balance w + wl_locked_balance w, 0) else purse_view w) (db_wallets d) ! i"
      using r(2) unfolding freed_rows [OF ids] by simp
    then have p: "purse_view w' = (if strandedRow busy d w then (wl_id w, wl_balance w + wl_locked_balance w, 0) else purse_view w)"
      using i len by (simp add: w_def)
    have "wallet_keys (db_wallets d') ! i = wallet_keys (db_wallets d) ! i" using r(4) by simp
    then have "wl_merchant_id w' = wl_merchant_id w" "wl_user_id w' = wl_user_id w" "wl_currency w' = wl_currency w"
      using i len by (simp_all add: wallet_keys_def w_def)
    then have "ownsOrder w' = ownsOrder w" by (simp add: ownsOrder_def fun_eq_iff)
    then show False using w'(2) p o1 by (auto simp: strandedRow_def purse_view_def split: if_splits)
  qed
qed

end
