(* ===== verification/Platform.thy ===== *)
theory Platform
  imports Trading MarketPostgres EventPostgres Reconciliation
begin

text \<open>
  The platform as a whole: any interleaving of the committed operations of the PostgreSQL
  repositories, each with its own refused statements, with the values their services pass.
\<close>

section \<open>The other repositories\<close>

text \<open>What an operation on events, audits, messages and the clock leaves alone.\<close>

definition same_core :: "db \<Rightarrow> db \<Rightarrow> bool" where
  "same_core d d' \<longleftrightarrow> trading_same d d' \<and> db_wallets d' = db_wallets d \<and> db_transactions d' = db_transactions d"

lemma same_core_events [simp]: "same_core d (d\<lparr>db_events := es\<rparr>)" "same_core d d"
  by (simp_all add: same_core_def trading_same_def)

lemma inTx_keeps: "P d \<Longrightarrow> (\<And>x d'. body d = (Inr x, d') \<Longrightarrow> P d') \<Longrightarrow> P (snd (inTx fault key m1 m2 body d))"
  by (auto simp: inTx_def split: sum.split prod.split)

lemma event_operations_core:
  "same_core d (snd (eventPgCreate fault v d))" "same_core d (snd (eventPgUpsertSource fault v d))"
  "same_core d (snd (eventPgUpdateStatus fault i expected status d))"
  "same_core d (snd (eventPgResolve marshal fault i expected outcome source now d))"
proof -
  show "same_core d (snd (eventPgCreate fault v d))" "same_core d (snd (eventPgUpsertSource fault v d))"
    "same_core d (snd (eventPgUpdateStatus fault i expected status d))"
    by (auto simp: eventPgCreate_def eventPgUpsertSource_def eventPgUpdateStatus_def Let_def split: option.split)
  have tx: "same_core d d'" if "resolveTx marshal fault i expected outcome source now d = (Inr x, d')" for x d'
  proof -
    from that obtain p es as where "insertOutbox fault i p now (d\<lparr>db_events := es, db_audits := as\<rparr>) = (Inr x, d')"
      unfolding resolveTx_def Let_def by (auto split: if_splits sum.splits)
    then show ?thesis by (auto simp: insertOutbox_def freshUUID_def same_core_def trading_same_def split: if_splits)
  qed
  show "same_core d (snd (eventPgResolve marshal fault i expected outcome source now d))"
    unfolding eventPgResolve_def by (rule inTx_keeps [where P = "same_core d"]) (use tx in simp_all)
qed

section \<open>Steps\<close>

inductive platform_step :: "db \<Rightarrow> db \<Rightarrow> bool" where
  wallet_opened: "w_Balance v = Fin 0 \<Longrightarrow> w_LockedBalance v = Fin 0 \<Longrightarrow> platform_step d (snd (walletPgCreate fault v d))"
| credited: "cents_tx t c \<Longrightarrow> t_Type t = ''credit'' \<or> t_Type t = ''win'' \<Longrightarrow> platform_step d (snd (walletPgCredit fault w t d))"
| debited: "cents_tx t c \<Longrightarrow> t_Type t \<notin> {''credit'', ''win'', ''reconciliation''} \<Longrightarrow>
    platform_step d (snd (walletPgDebit fault k (CentsToFloat c) t d))"
| locked: "0 \<le> c \<Longrightarrow> c < moneyCap \<Longrightarrow> platform_step d (snd (walletPgLock fault k (CentsToFloat c) d))"
| unlocked: "0 \<le> c \<Longrightarrow> c < moneyCap \<Longrightarrow> platform_step d (snd (walletPgUnlock fault k (CentsToFloat c) d))"
| placed: "placeable o1 c \<Longrightarrow> platform_step d (snd (orderPgPlaceCollateral fault o1 c True d))"
| cancelled: "platform_step d (snd (orderPgCancelCollateral fault i True d))"
| settled: "platform_step d (snd (settleEvent fault i now d))"
| market_created: "platform_step d (snd (marketPgCreate fault m d))"
| market_moved: "canTransition expected status \<Longrightarrow> platform_step d (snd (marketPgUpdateStatus fault i expected status d))"
| liquidity_added: "platform_step d (snd (marketPgAddLiquidity fault i ''active'' a d))"
| reconciled: "platform_step d (snd (reconcile fault busy d))"
| elsewhere: "same_core d d' \<Longrightarrow> platform_step d d'"

inductive platform_run :: "db \<Rightarrow> db \<Rightarrow> bool" where
  start: "platform_run d d"
| step: "platform_run d d' \<Longrightarrow> platform_step d' d'' \<Longrightarrow> platform_run d d''"

text \<open>The records of a market.\<close>

definition market_file :: "string \<Rightarrow> db \<Rightarrow> marketRow list \<times> orderRow list \<times> tradeRow list \<times> payoutRow list \<times> settlementRow list" where
  "market_file m d = (filter (\<lambda>x. mr_id x = m) (db_markets d), filter (\<lambda>r. or_market_id r = m) (db_orders d),
     filter (\<lambda>t. tr_market_id t = m) (db_trades d), market_payouts d m, filter (\<lambda>s. sr_market_id s = m) (db_settlements d))"

lemma market_file_settled: "market_file m d' = market_file m d \<Longrightarrow> isSettled d' m = isSettled d m"
proof -
  have s: "isSettled d m \<longleftrightarrow> filter (\<lambda>s. sr_market_id s = m) (db_settlements d) \<noteq> []" for d
    by (simp add: isSettled_def list_ex_iff filter_empty_conv)
  show "market_file m d' = market_file m d \<Longrightarrow> isSettled d' m = isSettled d m" by (simp add: s market_file_def)
qed

text \<open>A step keeps the platform well formed and the records of settled markets.\<close>

definition step_keeps :: "db \<Rightarrow> db \<Rightarrow> bool" where
  "step_keeps d d' \<longleftrightarrow> platform_ok d' \<and> (\<forall>m. isSettled d m \<longrightarrow> market_file m d' = market_file m d)"

lemma step_keeps_same: "platform_ok d \<Longrightarrow> step_keeps d d" by (simp add: step_keeps_def)

lemma market_file_trading: "trading_same d d' \<Longrightarrow> market_file m d' = market_file m d"
  by (simp add: market_file_def trading_same_def market_payouts_def)

lemma keeps_wallet: "platform_ok d \<Longrightarrow> wallet_kept d d' \<Longrightarrow> step_keeps d d'"
  using platform_wallet [of d d'] market_file_trading [of d d'] unfolding step_keeps_def wallet_kept_def by blast

lemma keeps_elsewhere:
  assumes "platform_ok d" "same_core d d'"
  shows "step_keeps d d'"
proof -
  have "platform_ok d'"
    using assms by (simp add: platform_ok_def same_core_def trading_same_def owned_def settled_closed_def isSettled_def)
  moreover have "trading_same d d'" using assms(2) by (simp add: same_core_def)
  ultimately show ?thesis using market_file_trading [of d d'] unfolding step_keeps_def by blast
qed

lemma keeps_place:
  assumes "platform_ok d" "placeable v c"
  shows "step_keeps d (snd (orderPgPlaceCollateral fault v c True d))"
proof -
  obtain x d' where x: "orderPgPlaceCollateral fault v c True d = (x, d')" by fastforce
  show ?thesis
  proof (cases x)
    case (Inl err)
    then show ?thesis using x place_failed [OF x [unfolded Inl]] step_keeps_same [OF assms(1)] by auto
  next
    case (Inr y)
    note p = platform_place [OF assms x [unfolded Inr]]
    obtain ts n where d': "db_orders d' = pg_rows v (db_orders d)" "db_trades d' = db_trades d @ ts"
      "map trade_view ts = pg_trades v (db_orders d)" "db_markets d' = pg_markets v n (db_markets d)"
      "db_settlements d' = db_settlements d" "db_payouts d' = db_payouts d"
      using p(2) by blast
    have "market_file m d' = market_file m d" if m: "isSettled d m" for m
    proof -
      have n: "m \<noteq> o_MarketID v" using m p(3) by blast
      have "tr_market_id t \<noteq> m" if t: "t \<in> set ts" for t
        by (rule fill_trade_made [OF d'(3) [unfolded pg_trades_def] t]) (use n in \<open>simp add: trade_view_def\<close>)
      moreover have "filter (\<lambda>x. mr_id x = m) (pg_markets v n (db_markets d)) = filter (\<lambda>x. mr_id x = m) (db_markets d)"
        unfolding pg_markets_def updateWhere_def using n by (intro filter_map_same) simp
      ultimately show ?thesis
        using place_untouched [OF platform_okD(4) [OF assms(1)] n]
        by (simp add: market_file_def d' market_payouts_def filter_empty_conv)
    qed
    then show ?thesis using p(1) x by (simp add: step_keeps_def)
  qed
qed

lemma keeps_cancel:
  assumes "platform_ok d"
  shows "step_keeps d (snd (orderPgCancelCollateral fault i True d))"
proof -
  obtain x d' where x: "orderPgCancelCollateral fault i True d = (x, d')" by fastforce
  show ?thesis
  proof (cases x)
    case (Inl err)
    then show ?thesis using x cancel_failed [OF x [unfolded Inl]] step_keeps_same [OF assms] by auto
  next
    case (Inr y)
    note p = platform_cancel [OF assms x [unfolded Inr]] and ok = platform_okD [OF assms]
    obtain r ws where r: "r \<in> set (db_orders d)" "or_id r = i" "open_row r"
      "d' = d\<lparr>db_orders := cancelled_rows i (db_orders d), db_wallets := ws\<rparr>"
      using p(2) by blast
    have "market_file m d' = market_file m d" if m: "isSettled d m" for m
    proof -
      have "or_market_id r \<noteq> m" using settled_closedD(3) [OF ok(6) m r(1)] r(3) by blast
      then show ?thesis using cancelled_untouched [OF ok(4) r(1), of m] by (simp add: market_file_def r(2,4) market_payouts_def)
    qed
    then show ?thesis using p(1) x by (simp add: step_keeps_def)
  qed
qed

lemma keeps_settle_market:
  assumes "platform_ok d" "\<exists>x \<in> set (db_markets d). mr_id x = m" "settleMarketTx fault m e w now d = (Inr (), d')" "isSettled d k"
  shows "market_file k d' = market_file k d"
proof -
  note db = platform_db_ok [OF assms(1)]
  note eff = settleMarketTx_Inr [OF db assms(3)]
  have k: "k \<noteq> m" using eff(3) assms(4) by blast
  have ms: "filter (\<lambda>x. mr_id x = k) (updateWhere (\<lambda>r. mr_id r = m) f ms) = filter (\<lambda>x. mr_id x = k) ms"
    if "\<And>r. mr_id (f r) = mr_id r" for f ms
    unfolding updateWhere_def using k that by (intro filter_map_same) simp
  have f: "db_markets d' = updateWhere (\<lambda>r. mr_id r = m) (\<lambda>r. r\<lparr>mr_status := ''settled'', mr_settled_at := Some (stamp now)\<rparr>) (db_markets d)"
    "db_trades d' = db_trades d"
    using eff(1) by (simp_all add: settled_effect_def Let_def same_rest_def)
  have "db_orders d' = closed_rows m (db_orders d)"
    using settled_effect_rows(3) [OF db eff(1)] by (simp add: closed_rows_def close_row_def [abs_def] open_row_def)
  then show ?thesis
    using settled_effect_once(2) [OF db eff(1,3) assms(4)] closed_untouched [OF k] by (simp add: market_file_def f ms)
qed

lemma keeps_settle:
  assumes "platform_ok d"
  shows "step_keeps d (snd (settleEvent fault i now d))"
proof -
  have "platform_ok (snd (settleEvent fault i now d))"
    by (rule settleEvent_keeps [where P = platform_ok]) (use platform_settle_market assms in blast)+
  moreover have "market_file k (snd (settleEvent fault i now d)) = market_file k d" if k: "isSettled d k" for k
  proof -
    let ?P = "\<lambda>y. platform_ok y \<and> market_file k y = market_file k d"
    have "?P (snd (settleEvent fault i now d))"
    proof (rule settleEvent_keeps [where P = ?P])
      fix m e w x y
      assume "?P x" "\<exists>r \<in> set (db_markets x). mr_id r = m" "settleMarketTx fault m e w now x = (Inr (), y)"
      then show "?P y"
        using platform_settle_market keeps_settle_market market_file_settled k by metis
    qed (simp add: assms)
    then show ?thesis by blast
  qed
  ultimately show ?thesis by (simp add: step_keeps_def)
qed

text \<open>Markets: a status changes along the transitions of the service, which never leave ''settled''.\<close>

lemma keeps_markets:
  assumes "platform_ok d" "\<And>m. isSettled d m \<Longrightarrow> filter (\<lambda>x. mr_id x = m) ms = filter (\<lambda>x. mr_id x = m) (db_markets d)"
  shows "step_keeps d (d\<lparr>db_markets := ms\<rparr>)"
proof -
  have marks: "(m, s) \<in> set (market_marks ms) \<longleftrightarrow> (m, s) \<in> set (market_marks (db_markets d))" if m: "isSettled d m" for m s
  proof -
    have "(m, s) \<in> set (market_marks xs) \<longleftrightarrow> s \<in> mr_status ` set (filter (\<lambda>x. mr_id x = m) xs)" for xs
      by (auto simp: market_marks_def)
    then show ?thesis by (simp only: assms(2) [OF m])
  qed
  have "settled_closed (d\<lparr>db_markets := ms\<rparr>)"
    using platform_okD(6) [OF assms(1)] marks by (simp add: settled_closed_def isSettled_def)
  then show ?thesis using assms by (simp add: step_keeps_def platform_ok_def owned_def market_file_def market_payouts_def)
qed

lemma keeps_market_created:
  assumes "platform_ok d"
  shows "step_keeps d (snd (marketPgCreate fault v d))"
proof -
  have "snd (marketPgCreate fault v d) = d \<or> (\<exists>row. snd (marketPgCreate fault v d) = d\<lparr>db_markets := db_markets d @ [row]\<rparr>
      \<and> \<not> list_ex (\<lambda>m. mr_id m = mr_id row) (db_markets d))"
    by (auto simp: marketPgCreate_def bind_res_def split: sum.split)
  then consider (failed) "snd (marketPgCreate fault v d) = d"
    | (made) row where "snd (marketPgCreate fault v d) = d\<lparr>db_markets := db_markets d @ [row]\<rparr>"
        "\<not> list_ex (\<lambda>m. mr_id m = mr_id row) (db_markets d)"
    by blast
  then show ?thesis
  proof cases
    case failed
    then show ?thesis using step_keeps_same [OF assms] by simp
  next
    case (made row)
    have "mr_id row \<noteq> m" if m: "isSettled d m" for m
      using settled_closedD(1) [OF platform_okD(6) [OF assms] m] made(2) by (auto simp: market_marks_def list_ex_iff)
    then show ?thesis unfolding made(1) by (intro keeps_markets [OF assms]) simp
  qed
qed

lemma keeps_market_updated:
  assumes "platform_ok d" "expected \<noteq> ''settled''" "\<And>x. mr_id (f x) = mr_id x"
  shows "step_keeps d (d\<lparr>db_markets := updateWhere (\<lambda>m. mr_id m = i \<and> mr_status m = expected) f (db_markets d)\<rparr>)"
proof (rule keeps_markets [OF assms(1)])
  fix m assume m: "isSettled d m"
  have "\<not> (mr_id x = i \<and> mr_status x = expected)" if "x \<in> set (db_markets d)" "mr_id x = m" for x
    using settled_closedD(2) [OF platform_okD(6) [OF assms(1)] m that] assms(2) by simp
  then show "filter (\<lambda>x. mr_id x = m) (updateWhere (\<lambda>m. mr_id m = i \<and> mr_status m = expected) f (db_markets d))
      = filter (\<lambda>x. mr_id x = m) (db_markets d)"
    unfolding updateWhere_def using assms(3) by (intro filter_map_same) auto
qed

lemma keeps_market_moved:
  assumes "platform_ok d" "canTransition expected status"
  shows "step_keeps d (snd (marketPgUpdateStatus fault i expected status d))"
proof -
  have "expected \<noteq> ''settled''" using assms(2) by (auto simp: canTransition_def)
  from keeps_market_updated [OF assms(1) this, of "\<lambda>m. m\<lparr>mr_status := status\<rparr>" i]
  show ?thesis using step_keeps_same [OF assms(1)] by (simp add: marketPgUpdateStatus_def Let_def)
qed

lemma keeps_liquidity:
  assumes "platform_ok d"
  shows "step_keeps d (snd (marketPgAddLiquidity fault i ''active'' a d))"
proof -
  have "''active'' \<noteq> ''settled''" by simp
  note k = keeps_market_updated [OF assms this]
  show ?thesis
    using step_keeps_same [OF assms] k by (auto simp: marketPgAddLiquidity_def Let_def split: sum.split)
qed

section \<open>Runs\<close>

lemma platform_step_keeps: "platform_step d d' \<Longrightarrow> platform_ok d \<Longrightarrow> step_keeps d d'"
proof (induction rule: platform_step.induct)
  case (wallet_opened v d fault)
  then show ?case using keeps_wallet kept_create platform_okD(1,2) by blast
next
  case (credited t c d fault w)
  then show ?case using keeps_wallet kept_credit platform_okD(1,2) by blast
next
  case (debited t c d fault k)
  then show ?case using keeps_wallet kept_debit platform_okD(1,2) by blast
next
  case (locked c d fault k)
  then show ?case using keeps_wallet kept_lock(1) platform_okD(1,2) by blast
next
  case (unlocked c d fault k)
  then show ?case using keeps_wallet kept_lock(2) platform_okD(1,2) by blast
next
  case (reconciled d fault busy)
  then show ?case using keeps_wallet kept_reconcile platform_okD(1,2) by blast
qed (rule keeps_place keeps_cancel keeps_settle keeps_market_created keeps_market_moved keeps_liquidity keeps_elsewhere;
  assumption)+

lemma platform_run_keeps:
  "platform_run d d' \<Longrightarrow> platform_ok d \<Longrightarrow> step_keeps d d'"
proof (induction rule: platform_run.induct)
  case (step d d' d'')
  then have k: "step_keeps d d'" "step_keeps d' d''" using platform_step_keeps by (auto simp: step_keeps_def)
  show ?case using k market_file_settled by (metis step_keeps_def)
qed (simp add: step_keeps_same)

section \<open>From empty tables\<close>

definition empty_platform :: "db \<Rightarrow> bool" where
  "empty_platform d \<longleftrightarrow> db_wallets d = [] \<and> db_transactions d = [] \<and> db_orders d = [] \<and> db_trades d = []
     \<and> db_settlements d = [] \<and> db_payouts d = []"

lemma empty_ok: "empty_platform d \<Longrightarrow> platform_ok d"
  by (simp add: empty_platform_def platform_ok_def books_def wallets_ok_def trading_def rows_ok_def owned_def
      settled_closed_def isSettled_def)

lemma reached_ok: "empty_platform d0 \<Longrightarrow> platform_run d0 d \<Longrightarrow> platform_ok d"
  using platform_run_keeps empty_ok by (auto simp: step_keeps_def)

end
