(* ===== verification/PlatformProps.thy ===== *)
theory PlatformProps
  imports Platform
begin

text \<open>
  What holds in every state the platform reaches from empty tables: the books of the wallets
  balance, a settlement finds its orders and trades consistent, a settled market stays as it is.
\<close>

section \<open>A settlement finds consistent records\<close>

lemma scanAll_total: "(\<forall>r \<in> set rows. \<exists>v. scan r = Inr v) \<Longrightarrow> \<exists>vs. scanAll scan rows = Inr vs"
  by (induction rows) auto

lemma scanAll_map: "(\<And>r. r \<in> set rows \<Longrightarrow> scan r = Inr (f r)) \<Longrightarrow> scanAll scan rows = Inr (map f rows)"
  by (induction rows) auto

definition so_party :: "settlementOrder \<Rightarrow> string \<times> string" where
  "so_party v = (so_id v, so_side v)"

lemma orderByID_party:
  assumes "(i, s) \<in> set (map so_party vs)" "distinct (map so_id vs)"
  obtains v where "orderByID i vs = Some v" "so_side v = s" "so_id v = i"
proof -
  obtain v where v: "v \<in> set vs" "so_id v = i" "so_side v = s" using assms(1) by (auto simp: so_party_def)
  then have "orderByID i vs \<noteq> None" by (auto simp: orderByID_def find_None_iff)
  then obtain u where u: "orderByID i vs = Some u" by blast
  note s = orderByID_Some [OF u]
  have "u = v" using s v assms(2) by (auto simp: distinct_map dest: inj_onD)
  then show ?thesis using that u v by blast
qed

lemma party_ids: "map so_party xs = map so_party ys \<Longrightarrow> map so_id xs = map so_id ys"
proof -
  assume "map so_party xs = map so_party ys"
  then have "map (fst \<circ> so_party) xs = map (fst \<circ> so_party) ys" by (simp only: map_map [symmetric])
  then show ?thesis by (simp add: so_party_def o_def)
qed

lemma stakeTrade_total:
  assumes "valid_trade t" "distinct (map so_id vs)" "a \<noteq> b" "{a, b} = {''buy'', ''sell''}"
    "(tr_maker_order_id t, a) \<in> set (map so_party vs)" "(tr_taker_order_id t, b) \<in> set (map so_party vs)"
  shows "\<exists>vs' f. stakeTrade t (vs, g) = Inr (vs', f) \<and> map so_party vs' = map so_party vs"
proof -
  obtain x where x: "orderByID (tr_maker_order_id t) vs = Some x" "so_side x = a" by (rule orderByID_party [OF assms(5,2)])
  obtain y where y: "orderByID (tr_taker_order_id t) vs = Some y" "so_side y = b" by (rule orderByID_party [OF assms(6,2)])
  have t: "parseShares (numericText 6 (tr_shares t)) = Inr (tr_shares t)"
    "parseFixed (numericText 6 (tr_matched_price t)) 6 = Inr (tr_matched_price t)"
    using assms(1) parseFixed_numericText by (simp_all add: valid_trade_def valid_price_def parseShares_def)
  have "\<exists>p. tradeParties x y = Inr p" using assms(3,4) x(2) y(2) by (auto simp: tradeParties_def doubleton_eq_iff)
  then obtain p where p: "tradeParties x y = Inr p" by blast
  obtain vs' f where s: "stakeTrade t (vs, g) = Inr (vs', f)"
    using x(1) y(1) t p by (cases p) (auto simp: stakeTrade_def Let_def)
  have "map so_party vs' = map so_party vs"
    using stakeTrade_spec(1) [OF s assms(2,1)] by (simp add: so_party_def)
  then show ?thesis using s by blast
qed

lemma stakeTrades_total:
  assumes "\<forall>t \<in> set ts. valid_trade t \<and> (\<exists>a b. a \<noteq> b \<and> {a, b} = {''buy'', ''sell''}
      \<and> (tr_maker_order_id t, a) \<in> set (map so_party vs) \<and> (tr_taker_order_id t, b) \<in> set (map so_party vs))"
    "distinct (map so_id vs)"
  shows "\<exists>s. stakeTrades ts (vs, g) = Inr s"
  using assms
proof (induction ts arbitrary: vs g)
  case (Cons t ts)
  then obtain a b where t: "valid_trade t" "a \<noteq> b" "{a, b} = {''buy'', ''sell''}"
    "(tr_maker_order_id t, a) \<in> set (map so_party vs)" "(tr_taker_order_id t, b) \<in> set (map so_party vs)" by auto
  obtain vs' f where s: "stakeTrade t (vs, g) = Inr (vs', f)" "map so_party vs' = map so_party vs"
    using stakeTrade_total [OF t(1) Cons.prems(2) t(2-5)] by blast
  have "distinct (map so_id vs')" using Cons.prems(2) party_ids [OF s(2)] by simp
  then show ?case using Cons.IH [of vs' f] Cons.prems(1) s by simp
qed simp

lemma traded_market:
  assumes "trading rows ts" "r \<in> set rows" "or_market_id r = m"
  shows "(\<Sum>t \<leftarrow> filter (\<lambda>t. tr_market_id t = m) ts. trade_shares (or_id r) t) = or_filled_amount r"
proof -
  have "trade_shares (or_id r) t = 0" if t: "t \<in> set ts" "tr_market_id t \<noteq> m" for t
  proof (rule ccontr)
    assume "trade_shares (or_id r) t \<noteq> 0"
    then have k: "tr_maker_order_id t = or_id r \<or> tr_taker_order_id t = or_id r" by (auto simp: trade_shares_def split: if_splits)
    obtain a b where ab: "a \<in> set rows" "b \<in> set rows" "joins a b t" using tradingD(2) [OF assms(1) t(1)] by (auto simp: trade_fits_def)
    have "a = r \<or> b = r"
      using k ab assms(2) tradingD(1) [OF assms(1)] by (auto simp: joins_def rows_ok_def distinct_map dest: inj_onD)
    then show False using ab(3) assms(3) t(2) by (auto simp: joins_def)
  qed
  then have "(\<Sum>t \<leftarrow> filter (\<lambda>t. tr_market_id t = m) us. trade_shares (or_id r) t) = (\<Sum>t \<leftarrow> us. trade_shares (or_id r) t)"
    if "set us \<subseteq> set ts" for us
    using that by (induction us) auto
  from this [of ts] show ?thesis using tradingD(3) [OF assms(1,2)] by (simp add: traded_def)
qed

lemma lock_orders_ok:
  assumes "platform_ok d"
  shows "lockSettlementOrders all_fine m d = Inr (map (staked_order d m) (market_orders d m))"
proof -
  note ok = platform_okD [OF assms] and db = platform_db_ok [OF assms]
  let ?f = "\<lambda>r. row_order (the (orderWallet d r)) r" and ?vs = "map (\<lambda>r. row_order (the (orderWallet d r)) r) (market_orders d m)"
  have scan: "scanSettlementOrder d r = Inr (?f r)" if r: "r \<in> set (market_orders d m)" for r
  proof -
    have "r \<in> set (db_orders d)" using r by (simp add: market_orders_def)
    then obtain w where "orderWallet d r = Some w" by (rule owned_wallet [OF ok(5)])
    then show ?thesis using scan_row db_okD(3) [OF db r] by simp
  qed
  have all: "scanAll (scanSettlementOrder d) (market_orders d m) = Inr ?vs" by (rule scanAll_map [OF scan])
  have wallets: "lockSettlementWallets all_fine m ?vs d = Inr ()"
    using lockSettlementWallets_scanned [OF all, of all_fine m]
    by (cases "lockSettlementWallets all_fine m ?vs d") (auto simp: lockSettlementWallets_def Let_def split: if_splits)
  have ids: "map so_id ?vs = map or_id (market_orders d m)" by (simp add: row_order_def o_def)
  have dist: "distinct (map so_id ?vs)" unfolding ids by (rule distinct_market_orders [OF db])
  have mem: "r \<in> set (db_orders d) \<Longrightarrow> or_market_id r = m \<Longrightarrow> (or_id r, or_type r) \<in> set (map so_party ?vs)" for r
    by (force simp: market_orders_def so_party_def row_order_def)
  have "\<forall>t \<in> set (market_trades d m). valid_trade t \<and> (\<exists>a b. a \<noteq> b \<and> {a, b} = {''buy'', ''sell''}
      \<and> (tr_maker_order_id t, a) \<in> set (map so_party ?vs) \<and> (tr_taker_order_id t, b) \<in> set (map so_party ?vs))"
  proof
    fix t assume "t \<in> set (market_trades d m)"
    then have t: "t \<in> set (db_trades d)" "tr_market_id t = m" by (simp_all add: market_trades_def)
    obtain a b where ab: "a \<in> set (db_orders d)" "b \<in> set (db_orders d)" "joins a b t" "valid_trade t"
      using tradingD(2) [OF ok(3) t(1)] by (auto simp: trade_fits_def)
    have "or_type a = ''buy'' \<or> or_type a = ''sell''" "or_type b = ''buy'' \<or> or_type b = ''sell''"
      using ab(1,2) ok(4) by (auto simp: rows_ok_def row_ok_def)
    then have "or_type a \<noteq> or_type b \<and> {or_type a, or_type b} = {''buy'', ''sell''}" using ab(3) by (auto simp: joins_def)
    moreover have "(tr_maker_order_id t, or_type a) \<in> set (map so_party ?vs) \<and> (tr_taker_order_id t, or_type b) \<in> set (map so_party ?vs)"
      using mem [OF ab(1)] mem [OF ab(2)] ab(3) t(2) by (simp add: joins_def)
    ultimately show "valid_trade t \<and> (\<exists>a b. a \<noteq> b \<and> {a, b} = {''buy'', ''sell''}
      \<and> (tr_maker_order_id t, a) \<in> set (map so_party ?vs) \<and> (tr_taker_order_id t, b) \<in> set (map so_party ?vs))"
      using ab(4) by blast
  qed
  from stakeTrades_total [OF this dist, of "\<lambda>_. 0"] obtain vs g where
    st: "stakeTrades (market_trades d m) (?vs, \<lambda>_. 0) = Inr (vs, g)" by fastforce
  have spec: "vs = map (\<lambda>v. v\<lparr>so_stake := so_stake v + (\<Sum>t \<leftarrow> market_trades d m. trade_stake v t)\<rparr>) ?vs"
    "g = (\<lambda>i. (\<Sum>t \<leftarrow> market_trades d m. trade_shares i t))"
    using stakeTrades_spec [OF st dist] db_okD(4) [OF db] by (auto simp: fun_eq_iff)
  have "checkMatched vs g = Inr ()"
    unfolding checkMatched_Inr spec using traded_market [OF ok(3)]
    by (auto simp: row_order_def market_orders_def market_trades_def sum_list_sort_key)
  then have "lockTradeStakes all_fine m ?vs d = Inr vs"
    using st by (simp add: lockTradeStakes_def market_trades_def)
  moreover have "vs = map (staked_order d m) (market_orders d m)"
    unfolding spec by (simp add: staked_order_def row_order_def Let_def)
  ultimately show ?thesis using all wallets by (simp add: lockSettlementOrders_def market_orders_def)
qed

section \<open>What holds in every state\<close>

text \<open>
  C6: the books of the platform balance. In every state reached from empty tables, by any
  interleaving of wallet, order, market, event and settlement operations with any statements
  refused, each wallet has a balance and a locked balance that are not negative and together are
  the credits and winnings of its transaction rows less its debits and bets.
\<close>

theorem platform_books_balance:
  assumes "empty_platform d0" "platform_run d0 d" "w \<in> set (db_wallets d)"
  shows "0 \<le> wl_balance w \<and> 0 \<le> wl_locked_balance w
    \<and> wl_balance w + wl_locked_balance w = tx_history (db_transactions d) (wl_id w)"
  using booksD [OF platform_okD(1) [OF reached_ok [OF assms(1,2)]] assms(3)] by blast

text \<open>
  C7: a settlement finds consistent records. In every reachable state and for every market, the
  first phase of a settlement, when no statement is refused, reads every order of the market with
  its wallet and its stake: no order is without a wallet, no trade names an order outside the
  market or two orders of one side, and no filled amount differs from the shares of the trades.
\<close>

theorem settlement_records_consistent:
  assumes "empty_platform d0" "platform_run d0 d"
  shows "lockSettlementOrders all_fine m d = Inr (map (staked_order d m) (market_orders d m))
    \<and> (\<forall>r \<in> set (market_orders d m). or_filled_amount r = (\<Sum>t \<leftarrow> market_trades d m. trade_shares (or_id r) t))"
proof -
  note ok = reached_ok [OF assms]
  note l = lock_orders_ok [OF ok, of m]
  show ?thesis using l lockSettlementOrders_spec(3) [OF platform_db_ok [OF ok] l] by blast
qed

text \<open>
  C8: a settled market stays as it is. Once a market is settled, no further run of the platform
  changes its row, its orders, its trades, its payouts or its settlement; none of its orders is
  open and its status is ''settled''.
\<close>

theorem settled_market_frozen:
  assumes "empty_platform d0" "platform_run d0 d" "isSettled d m" "platform_run d d'"
  shows "market_file m d' = market_file m d
    \<and> (\<forall>r \<in> set (db_orders d'). or_market_id r = m \<longrightarrow> \<not> open_row r)
    \<and> (\<forall>x \<in> set (db_markets d'). mr_id x = m \<longrightarrow> mr_status x = ''settled'')"
proof -
  note k = platform_run_keeps [OF assms(4) reached_ok [OF assms(1,2)]]
  then have f: "market_file m d' = market_file m d" using assms(3) by (simp add: step_keeps_def)
  moreover have "settled_closed d'" using k platform_okD(6) by (simp add: step_keeps_def)
  ultimately show ?thesis using settled_closedD [of d' m] market_file_settled [OF f] assms(3) by blast
qed

section \<open>A demonstration\<close>

text \<open>Deposits of alice and bob, an offer, a bid that meets it, and the settlement of the market.\<close>

definition demo_open :: db where
  "demo_open = demo_trading_db\<lparr>db_orders := [], db_wallets := [],
     db_events := [\<lparr>e_ID = demo_settle_event, e_SourceType = ''manual'', e_SourceID = ''s1'', e_Title = ''Final'',
       e_Description = [], e_Category = ''sports'', e_EndTime = 5, e_ResolutionTime = 6, e_Status = ''resolved'',
       e_Outcome = Some ''Yes'', e_CreatedAt = 1, e_UpdatedAt = 6\<rparr>],
     db_markets := map (\<lambda>m. m\<lparr>mr_event_id := demo_settle_event\<rparr>) (db_markets demo_trading_db)\<rparr>"

definition demo_account :: "string \<Rightarrow> string \<Rightarrow> wallet" where
  "demo_account i user = \<lparr>w_ID = i, w_MerchantID = ''c1'', w_UserID = user, w_Currency = ''USD'',
     w_Balance = Fin 0, w_LockedBalance = Fin 0, w_UpdatedAt = 1000\<rparr>"

definition demo_funded :: db where
  "demo_funded = snd (walletPgCredit all_fine (demo_account ''w2'' ''bob'')
     (newTransaction ''tb'' ''USD'' ''credit'' (CentsToFloat 3000) ''k'' 1000)
     (snd (walletPgCredit all_fine (demo_account ''w1'' ''alice'')
       (newTransaction ''ta'' ''USD'' ''credit'' (CentsToFloat 2000) ''k'' 1000) demo_open)))"

definition demo_pg_offer :: order where "demo_pg_offer = order_of_row demo_offer_row"

definition demo_traded :: db where
  "demo_traded = snd (orderPgPlaceCollateral all_fine demo_pg_bid 500 True
     (snd (orderPgPlaceCollateral all_fine demo_pg_offer 300 True demo_funded)))"

definition demo_finale :: db where
  "demo_finale = snd (settleEvent all_fine demo_settle_event 8000 demo_traded)"

lemma demo_empty: "empty_platform demo_open" by (simp add: empty_platform_def demo_open_def demo_trading_db_def)

lemma demo_placeable: "placeable demo_pg_bid 500" "placeable demo_pg_offer 300"
proof -
  show "placeable demo_pg_bid 500" using demo_bid_ready by (simp add: placeable_def)
  have ok: "row_ok demo_offer_row" by code_simp
  show "placeable demo_pg_offer 300"
    using row_exact [OF ok] row_order_ok(3) [OF ok] by (simp add: placeable_def demo_pg_offer_def demo_offer_row_def)
qed

lemma demo_funded_run: "platform_run demo_open demo_funded"
proof -
  have "cents_tx (newTransaction i ''USD'' ''credit'' (CentsToFloat c) ''k'' 1000) c" if "0 \<le> c" "c < moneyCap" for i c
    using that by (simp add: cents_tx_def newTransaction_def)
  from credited [OF this] have c: "0 \<le> c \<Longrightarrow> c < moneyCap \<Longrightarrow> platform_step d (snd (walletPgCredit all_fine v
      (newTransaction i ''USD'' ''credit'' (CentsToFloat c) ''k'' 1000) d))" for i c v d
    by (simp add: newTransaction_def)
  show ?thesis
    unfolding demo_funded_def by (intro platform_run.step [OF platform_run.step [OF platform_run.start c] c])
      (simp_all add: moneyCap_def)
qed

lemma demo_run: "platform_run demo_open demo_traded" "platform_run demo_traded demo_finale"
proof -
  show "platform_run demo_open demo_traded"
    unfolding demo_traded_def
    by (rule platform_run.step [OF platform_run.step [OF demo_funded_run placed [OF demo_placeable(2)]] placed [OF demo_placeable(1)]])
  show "platform_run demo_traded demo_finale"
    unfolding demo_finale_def by (rule platform_run.step [OF platform_run.start settled])
qed

lemma platform_run_trans: "platform_run d' d'' \<Longrightarrow> platform_run d d' \<Longrightarrow> platform_run d d''"
  by (induction rule: platform_run.induct) (auto intro: platform_run.step)

definition demo_report :: "db \<Rightarrow> (string \<times> int \<times> int) list \<times> bool" where
  "demo_report d = (map purse_view (db_wallets d), isSettled d ''m1'')"

lemma demo_values: "demo_report demo_finale = ([(''w1'', 2300, 0), (''w2'', 2700, 0)], True)"
  by code_simp

lemma demo_finale_wallets: "map purse_view (db_wallets demo_finale) = [(''w1'', 2300, 0), (''w2'', 2700, 0)]"
  using demo_values by (simp add: demo_report_def)

lemma demo_finale_settled: "isSettled demo_finale ''m1''" using demo_values by (simp add: demo_report_def)

lemmas demo_reached = platform_run_trans [OF demo_run(2,1)]

theorem platform_books_balance_witness: "tx_history (db_transactions demo_finale) ''w1'' = 2300"
proof -
  have "(''w1'', 2300, 0) \<in> purse_view ` set (db_wallets demo_finale)"
    using demo_finale_wallets by (metis list.set_intros(1) list.set_map)
  then obtain w where w: "w \<in> set (db_wallets demo_finale)" "wl_id w = ''w1''" "wl_balance w = 2300" "wl_locked_balance w = 0"
    by (auto simp: purse_view_def)
  show ?thesis using platform_books_balance [OF demo_empty demo_reached w(1)] w(2-4) by simp
qed

theorem settlement_records_consistent_witness:
  "lockSettlementOrders all_fine ''m1'' demo_traded
    = Inr (map (staked_order demo_traded ''m1'') (market_orders demo_traded ''m1''))"
  using settlement_records_consistent [OF demo_empty demo_run(1), of "''m1''"] by blast

text \<open>After the settlement alice withdraws her winnings.\<close>

theorem settled_market_frozen_witness:
  "market_file ''m1'' (snd (walletPgDebit all_fine \<lparr>wk_MerchantID = ''c1'', wk_UserID = ''alice'', wk_Currency = ''USD''\<rparr> (CentsToFloat 2300)
      (newTransaction ''tw'' ''USD'' ''debit'' (CentsToFloat 2300) [] 9000) demo_finale)) = market_file ''m1'' demo_finale"
proof -
  have "cents_tx (newTransaction ''tw'' ''USD'' ''debit'' (CentsToFloat 2300) [] 9000) 2300"
    by (simp add: cents_tx_def newTransaction_def moneyCap_def)
  from platform_run.step [OF platform_run.start debited [OF this]]
  show ?thesis
    by (intro settled_market_frozen [OF demo_empty demo_reached demo_finale_settled, THEN conjunct1]) (simp add: newTransaction_def)
qed

end
