(* ===== verification/ReconciliationProps.thy ===== *)
theory ReconciliationProps
  imports PlatformProps
begin

text \<open>
  What the reconciliation job does on the platform: in every reachable state it succeeds, frees
  exactly the wallets it lists and leaves none behind. The list is too long, though: it has
  wallets whose locked funds are the stake of a trade.
\<close>


text \<open>
  What the list takes in: in a reachable state alice has bought five shares of bob for two dollars,
  in a market that is not settled, and has cancelled the rest of her order. The job makes the two
  dollars, the stake of that trade, available to her.
\<close>

definition demo_cancelled :: db where
  "demo_cancelled = snd (orderPgCancelCollateral all_fine ''o3'' True demo_traded)"

definition demo_stake_report :: "db \<Rightarrow> ((string \<times> string \<times> int) list \<times> (string \<times> int \<times> int) list \<times> bool) \<times> float64 option
    \<times> (string \<times> int \<times> int) list" where
  "demo_stake_report d =
     ((map (\<lambda>r. (or_id r, or_status r, or_filled_amount r)) (db_orders d), map purse_view (db_wallets d), isSettled d ''m1''),
      (case reconcile all_fine (\<lambda>_. False) d of (x, d') \<Rightarrow>
        (case x of Inl _ \<Rightarrow> None | Inr result \<Rightarrow> Some (rr_AmountRecovered result), map purse_view (db_wallets d'))))"

lemma reconciliation_releases_stakes:
  "platform_run demo_open demo_cancelled \<and> demo_stake_report demo_cancelled =
    (([(''o2'', ''filled'', 5000000), (''o3'', ''cancelled'', 5000000)], [(''w1'', 1800, 200), (''w2'', 2700, 300)], False),
     Some (Fin 2), [(''w1'', 2000, 0), (''w2'', 2700, 300)])"
proof
  show "platform_run demo_open demo_cancelled"
    unfolding demo_cancelled_def by (rule platform_run.step [OF demo_run(1) cancelled])
  show "demo_stake_report demo_cancelled =
    (([(''o2'', ''filled'', 5000000), (''o3'', ''cancelled'', 5000000)], [(''w1'', 1800, 200), (''w2'', 2700, 300)], False),
     Some (Fin 2), [(''w1'', 2000, 0), (''w2'', 2700, 300)])"
    by code_simp
qed

section \<open>A demonstration\<close>

text \<open>Five dollars of alice's are locked and no order stands behind them.\<close>

definition demo_stranded :: db where
  "demo_stranded = snd (walletPgLock all_fine \<lparr>wk_MerchantID = ''c1'', wk_UserID = ''alice'', wk_Currency = ''USD''\<rparr>
     (CentsToFloat 500) demo_funded)"

lemma wallet_uuids:
  "db_uuids (snd (walletPgCredit fault v t d)) = db_uuids d" "db_uuids (snd (walletPgLock fault k a d)) = db_uuids d"
proof -
  have c: "creditTx fault v t d = (x, d') \<Longrightarrow> db_uuids d' = db_uuids d" for x d'
    unfolding creditTx_def ensureWalletRow_def insertTransaction_def Let_def
    by (auto simp: andThen_def split: prod.splits sum.splits if_splits option.splits)
  show "db_uuids (snd (walletPgCredit fault v t d)) = db_uuids d"
    unfolding walletPgCredit_def by (rule inTx_keeps [where P = "\<lambda>d'. db_uuids d' = db_uuids d"]) (use c in blast)+
  show "db_uuids (snd (walletPgLock fault k a d)) = db_uuids d"
    by (auto simp: walletPgLock_def Let_def split: sum.split)
qed

definition demo_stranded_report :: "db \<Rightarrow> (string \<times> int \<times> int) list \<times> string list \<times> nat \<times> string list" where
  "demo_stranded_report d = (map purse_view (db_wallets d), map tx_id (db_transactions d), db_uuid_next d,
     map wl_id (filter (strandedRow (\<lambda>_. False) d) (db_wallets d)))"

lemma demo_stranded_values:
  "demo_stranded_report demo_stranded = ([(''w1'', 1500, 500), (''w2'', 3000, 0)], [''ta'', ''tb''], 0, [''w1''])"
  by code_simp


end
