(* ===== verification/EventSync.thy ===== *)
theory EventSync
  imports Event TimeFormat
begin

text \<open>
  \<^verbatim>\<open>internal/eventsync\<close>: the job that imports the events of Polymarket. The listing of the source
  (\<^verbatim>\<open>pkg/polymarket\<close>, an HTTP client) is a parameter: a page of events, or an error, for each of
  the two passes and each page number. The event service it writes to is the interface \<open>event_sink\<close>,
  as in the code, and is provided by the service over the tables.
\<close>

section \<open>Source events\<close>

record pmMarket =
  pm_Outcomes :: "string list"
  pm_OutcomePrices :: "float64 list"

record pmTag =
  tg_Slug :: string

record pmTeam =
  pt_Name :: string
  pt_Abbreviation :: string
  pt_Ordering :: string

record pmEvent =
  pe_ID :: string
  pe_Title :: string
  pe_Description :: string
  pe_Category :: string
  pe_StartTime :: time
  pe_EndDate :: time
  pe_GameID :: int
  pe_Active :: bool
  pe_Closed :: bool
  pe_Markets :: "pmMarket list"
  pe_Tags :: "pmTag list"
  pe_Teams :: "pmTeam list"

text \<open>\<^verbatim>\<open>t.UTC().Format(time.RFC3339)\<close>: the seconds of the time, without a fraction.\<close>

definition formatRFC3339 :: "time \<Rightarrow> string" where
  "formatRFC3339 t = formatRFC3339Nano (t div 1000000000 * 1000000000)"

section \<open>The outcome of an event\<close>

text \<open>The loop over the prices; \<open>None\<close> is its early return.\<close>

fun findWinner :: "nat \<Rightarrow> nat option \<Rightarrow> float64 list \<Rightarrow> nat option option" where
  "findWinner index winner [] = Some winner"
| "findWinner index winner (price # prices) =
     (if f_eq price (Fin 1) then
        if winner \<noteq> None then None else findWinner (Suc index) (Some index) prices
      else if \<not> f_eq price (Fin 0) then None
      else findWinner (Suc index) winner prices)"

definition resolvedMarketOutcome :: "pmMarket \<Rightarrow> string option" where
  "resolvedMarketOutcome source =
     (if length (pm_Outcomes source) \<noteq> 2 \<or> length (pm_OutcomePrices source) \<noteq> 2 then None
      else case findWinner 0 None (pm_OutcomePrices source) of
          Some (Some winner) \<Rightarrow> let outcome = trimSpace (pm_Outcomes source ! winner) in
            if outcome = [] then None else Some outcome
        | _ \<Rightarrow> None)"

fun agreedOutcome :: "string \<Rightarrow> pmMarket list \<Rightarrow> string option" where
  "agreedOutcome outcome [] = Some outcome"
| "agreedOutcome outcome (market # markets) = (case resolvedMarketOutcome market of
      None \<Rightarrow> agreedOutcome outcome markets
    | Some candidate \<Rightarrow>
        if outcome = [] then agreedOutcome candidate markets
        else if outcome \<noteq> candidate then None
        else agreedOutcome outcome markets)"

definition resolvedOutcome :: "pmEvent \<Rightarrow> string option" where
  "resolvedOutcome source = (case agreedOutcome [] (pe_Markets source) of
      Some outcome \<Rightarrow> if outcome = [] then None else Some outcome | None \<Rightarrow> None)"

section \<open>The request for the event service\<close>

fun firstSlug :: "pmTag list \<Rightarrow> string" where
  "firstSlug [] = ''other''"
| "firstSlug (tag # tags) = (let slug = toLower (trimSpace (tg_Slug tag)) in
     if slug \<noteq> [] then slug else firstSlug tags)"

definition sourceCategory :: "pmEvent \<Rightarrow> string" where
  "sourceCategory source = (let category = toLower (trimSpace (pe_Category source)) in
     if category \<noteq> [] then category else firstSlug (pe_Tags source))"

definition sourceStatus :: "pmEvent \<Rightarrow> string" where
  "sourceStatus source = (if pe_Closed source then ''closed'' else if pe_Active source then ''active'' else ''pending'')"

definition normalizeSourceEvent :: "pmEvent \<Rightarrow> eventSyncRequest option" where
  "normalizeSourceEvent source =
     (let sourceID = trimSpace (pe_ID source); title = trimSpace (pe_Title source) in
      if sourceID = [] \<or> title = [] \<or> pe_EndDate source = zero_time then None
      else let endTime = formatRFC3339 (pe_EndDate source) in
        Some \<lparr>es_SourceID = sourceID, es_Title = title, es_Description = pe_Description source,
          es_Category = sourceCategory source, es_EndTime = endTime, es_ResolutionTime = endTime,
          es_Status = sourceStatus source\<rparr>)"

section \<open>A run of the job\<close>

record syncResult =
  sy_Fetched :: int
  sy_Synced :: int
  sy_Resolved :: int
  sy_Skipped :: int
  sy_Pages :: int
  sy_Truncated :: bool

definition pageSize :: nat where "pageSize = 50"
definition maxSyncPages :: nat where "maxSyncPages = 2"

text \<open>The calls of the event service, each with the number of events synced before it.\<close>

record 's eventSink =
  sk_SyncSource :: "nat \<Rightarrow> eventSyncRequest option \<Rightarrow> 's \<Rightarrow> unit res \<times> 's"
  sk_ResolveSource :: "nat \<Rightarrow> string \<Rightarrow> string \<Rightarrow> 's \<Rightarrow> unit res \<times> 's"

fun syncEvents ::
  "'s eventSink \<Rightarrow> bool \<Rightarrow> pmEvent list \<Rightarrow> syncResult \<Rightarrow> 's \<Rightarrow> unit res \<times> syncResult \<times> 's" where
  "syncEvents sink isClosed [] result s = (Inr (), result, s)"
| "syncEvents sink isClosed (source # events) result s = (case normalizeSourceEvent source of
      None \<Rightarrow> syncEvents sink isClosed events (result\<lparr>sy_Skipped := sy_Skipped result + 1\<rparr>) s
    | Some request \<Rightarrow> (case sk_SyncSource sink (nat (sy_Synced result)) (Some request) s of
        (Inl err, s1) \<Rightarrow> (Inl (wrap_error ''sync Polymarket event'' err), result, s1)
      | (Inr _, s1) \<Rightarrow>
          let result1 = result\<lparr>sy_Synced := sy_Synced result + 1\<rparr> in
          if \<not> isClosed then syncEvents sink isClosed events result1 s1
          else (case resolvedOutcome source of
              None \<Rightarrow> syncEvents sink isClosed events result1 s1
            | Some outcome \<Rightarrow> (case sk_ResolveSource sink (nat (sy_Synced result1)) (pe_ID source) outcome s1 of
                (Inl err, s2) \<Rightarrow> (Inl (wrap_error ''resolve Polymarket event'' err), result1, s2)
              | (Inr _, s2) \<Rightarrow>
                  syncEvents sink isClosed events (result1\<lparr>sy_Resolved := sy_Resolved result1 + 1\<rparr>) s2))))"

text \<open>
  The pages of one pass, with the number of pages that may still be read. \<open>over isClosed page\<close> says
  that the context is over before the page.
\<close>

fun syncPages ::
  "'s eventSink \<Rightarrow> (bool \<Rightarrow> nat \<Rightarrow> bool) \<Rightarrow> (bool \<Rightarrow> nat \<Rightarrow> pmEvent list res) \<Rightarrow> bool \<Rightarrow> nat \<Rightarrow> nat
    \<Rightarrow> syncResult \<Rightarrow> 's \<Rightarrow> unit res \<times> syncResult \<times> 's" where
  "syncPages sink over source isClosed page 0 result s = (Inr (), result\<lparr>sy_Truncated := True\<rparr>, s)"
| "syncPages sink over source isClosed page (Suc left) result s =
     (if over isClosed page then (Inl CtxErr, result, s)
      else case source isClosed page of
          Inl err \<Rightarrow> (Inl (Wrapped ''fetch Polymarket event page'' err), result, s)
        | Inr events \<Rightarrow>
            let result1 = result\<lparr>sy_Pages := sy_Pages result + 1, sy_Fetched := sy_Fetched result + int (length events)\<rparr> in
            (case syncEvents sink isClosed events result1 s of
               (Inl err, result2, s1) \<Rightarrow> (Inl err, result2, s1)
             | (Inr _, result2, s1) \<Rightarrow>
                 if length events < pageSize then (Inr (), result2, s1)
                 else syncPages sink over source isClosed (Suc page) left result2 s1))"

definition syncStatus ::
  "'s eventSink \<Rightarrow> (bool \<Rightarrow> nat \<Rightarrow> bool) \<Rightarrow> (bool \<Rightarrow> nat \<Rightarrow> pmEvent list res) \<Rightarrow> bool
    \<Rightarrow> syncResult \<Rightarrow> 's \<Rightarrow> unit res \<times> syncResult \<times> 's" where
  "syncStatus sink over source isClosed result s = syncPages sink over source isClosed 0 maxSyncPages result s"

definition newSyncResult :: syncResult where
  "newSyncResult = \<lparr>sy_Fetched = 0, sy_Synced = 0, sy_Resolved = 0, sy_Skipped = 0, sy_Pages = 0, sy_Truncated = False\<rparr>"

text \<open>The pass over the open events, then the pass over the closed ones. The result is returned with an error too.\<close>

definition syncRun ::
  "'s eventSink \<Rightarrow> (bool \<Rightarrow> nat \<Rightarrow> bool) \<Rightarrow> (bool \<Rightarrow> nat \<Rightarrow> pmEvent list res) \<Rightarrow> 's \<Rightarrow> unit res \<times> syncResult \<times> 's" where
  "syncRun sink over source s = (case syncStatus sink over source False newSyncResult s of
      (Inl err, result, s1) \<Rightarrow> (Inl err, result, s1)
    | (Inr _, result, s1) \<Rightarrow> syncStatus sink over source True result s1)"

section \<open>The outcome, as a set of markets\<close>

lemma resolvedMarketOutcome_nonempty: "resolvedMarketOutcome m = Some x \<Longrightarrow> x \<noteq> []"
  by (auto simp: resolvedMarketOutcome_def Let_def split: if_splits option.splits)

lemma agreedOutcome_iff:
  "agreedOutcome out ms = Some x \<longleftrightarrow>
     (if out = [] then (if \<forall>m \<in> set ms. resolvedMarketOutcome m = None then x = []
        else x \<noteq> [] \<and> (\<exists>m \<in> set ms. resolvedMarketOutcome m = Some x)
          \<and> (\<forall>m \<in> set ms. resolvedMarketOutcome m \<in> {None, Some x}))
      else x = out \<and> (\<forall>m \<in> set ms. resolvedMarketOutcome m \<in> {None, Some out}))"
proof (induction ms arbitrary: out)
  case (Cons m ms)
  show ?case
  proof (cases "resolvedMarketOutcome m")
    case None
    then show ?thesis using Cons by simp
  next
    case (Some y)
    then show ?thesis using Cons resolvedMarketOutcome_nonempty [OF Some] by auto
  qed
qed auto

lemma resolvedOutcome_iff:
  "resolvedOutcome e = Some x \<longleftrightarrow> (\<exists>m \<in> set (pe_Markets e). resolvedMarketOutcome m = Some x)
     \<and> (\<forall>m \<in> set (pe_Markets e). resolvedMarketOutcome m \<in> {None, Some x})"
proof -
  have "resolvedOutcome e = Some x \<longleftrightarrow> agreedOutcome [] (pe_Markets e) = Some x \<and> x \<noteq> []"
    by (auto simp: resolvedOutcome_def split: option.splits)
  also have "\<dots> \<longleftrightarrow> (\<exists>m \<in> set (pe_Markets e). resolvedMarketOutcome m = Some x)
     \<and> (\<forall>m \<in> set (pe_Markets e). resolvedMarketOutcome m \<in> {None, Some x})"
    unfolding agreedOutcome_iff using resolvedMarketOutcome_nonempty by (auto; fastforce)
  finally show ?thesis .
qed

text \<open>A market is settled when one of its two outcomes has price 1 and the other price 0.\<close>

lemma f_eq_Fin: "f_eq p (Fin c) \<longleftrightarrow> p = Fin c"
  by (cases p) simp_all

lemma list_of_two: "length xs = 2 \<longleftrightarrow> (\<exists>a b. xs = [a, b])"
  by (auto simp: numeral_2_eq_2 length_Suc_conv)

lemma resolvedMarketOutcome_iff:
  "resolvedMarketOutcome m = Some x \<longleftrightarrow> x \<noteq> [] \<and> (\<exists>a b. pm_Outcomes m = [a, b]
     \<and> (pm_OutcomePrices m = [Fin 1, Fin 0] \<and> x = trimSpace a \<or> pm_OutcomePrices m = [Fin 0, Fin 1] \<and> x = trimSpace b))"
proof (cases "length (pm_Outcomes m) = 2 \<and> length (pm_OutcomePrices m) = 2")
  case True
  then obtain a b p q where "pm_Outcomes m = [a, b]" "pm_OutcomePrices m = [p, q]" by (auto simp: list_of_two)
  then show ?thesis by (auto simp: resolvedMarketOutcome_def f_eq_Fin Let_def)
next
  case False
  then show ?thesis by (auto simp: resolvedMarketOutcome_def)
qed

section \<open>The interface\<close>

text \<open>What a resolved event keeps.\<close>

definition stays_resolved :: "event \<Rightarrow> event \<Rightarrow> bool" where
  "stays_resolved v v' \<longleftrightarrow> (e_Status v = ''resolved'' \<longrightarrow> e_Status v' = ''resolved'' \<and> e_Outcome v' = e_Outcome v)"

lemma stays_resolved_refl [simp]: "stays_resolved v v"
  by (simp add: stays_resolved_def)

lemma stays_resolved_trans: "stays_resolved u v \<Longrightarrow> stays_resolved v w \<Longrightarrow> stays_resolved u w"
  by (simp add: stays_resolved_def)

text \<open>One call of the event service; \<open>C\<close> are the events of the closed listing.\<close>

inductive sink_step :: "'s eventSink \<Rightarrow> pmEvent set \<Rightarrow> 's \<Rightarrow> 's \<Rightarrow> bool" for sink C where
  synced: "sink_step sink C s (snd (sk_SyncSource sink n q s))"
| resolved: "e \<in> C \<Longrightarrow> resolvedOutcome e = Some x \<Longrightarrow> sink_step sink C s (snd (sk_ResolveSource sink n (pe_ID e) x s))"

inductive_cases sink_stepE: "sink_step sink C s s'"

lemma syncEventsE:
  assumes "syncEvents sink b (e # es) r s = (x, r', s')"
  obtains (skipped) "normalizeSourceEvent e = None"
      "syncEvents sink b es (r\<lparr>sy_Skipped := sy_Skipped r + 1\<rparr>) s = (x, r', s')"
  | (failed) q err where "normalizeSourceEvent e = Some q"
      "sk_SyncSource sink (nat (sy_Synced r)) (Some q) s = (Inl err, s')"
      "x = Inl (wrap_error ''sync Polymarket event'' err)" "r' = r"
  | (stored) q s1 where "normalizeSourceEvent e = Some q"
      "sk_SyncSource sink (nat (sy_Synced r)) (Some q) s = (Inr (), s1)" "\<not> b \<or> resolvedOutcome e = None"
      "syncEvents sink b es (r\<lparr>sy_Synced := sy_Synced r + 1\<rparr>) s1 = (x, r', s')"
  | (unresolved) q s1 y err where "normalizeSourceEvent e = Some q"
      "sk_SyncSource sink (nat (sy_Synced r)) (Some q) s = (Inr (), s1)" "b" "resolvedOutcome e = Some y"
      "sk_ResolveSource sink (nat (sy_Synced r + 1)) (pe_ID e) y s1 = (Inl err, s')"
      "x = Inl (wrap_error ''resolve Polymarket event'' err)" "r' = r\<lparr>sy_Synced := sy_Synced r + 1\<rparr>"
  | (resolved) q s1 y s2 where "normalizeSourceEvent e = Some q"
      "sk_SyncSource sink (nat (sy_Synced r)) (Some q) s = (Inr (), s1)" "b" "resolvedOutcome e = Some y"
      "sk_ResolveSource sink (nat (sy_Synced r + 1)) (pe_ID e) y s1 = (Inr (), s2)"
      "syncEvents sink b es (r\<lparr>sy_Synced := sy_Synced r + 1, sy_Resolved := sy_Resolved r + 1\<rparr>) s2 = (x, r', s')"
proof (cases "normalizeSourceEvent e")
  case None
  then show ?thesis using skipped [OF None] assms by simp
next
  case (Some q)
  obtain w s1 where w: "sk_SyncSource sink (nat (sy_Synced r)) (Some q) s = (w, s1)" by fastforce
  show ?thesis
  proof (cases w)
    case (Inl err)
    then show ?thesis using failed [OF Some, of err] assms Some w by simp
  next
    case (Inr u)
    show ?thesis
    proof (cases "\<not> b \<or> resolvedOutcome e = None")
      case True
      have "syncEvents sink b es (r\<lparr>sy_Synced := sy_Synced r + 1\<rparr>) s1 = (x, r', s')"
        using assms Some w Inr True by (cases "\<not> b") (simp_all add: Let_def)
      then show ?thesis using stored [OF Some _ True] w Inr by simp
    next
      case False
      then obtain y where y: "b" "resolvedOutcome e = Some y" by auto
      obtain z s2 where z: "sk_ResolveSource sink (nat (sy_Synced r + 1)) (pe_ID e) y s1 = (z, s2)" by fastforce
      show ?thesis
      proof (cases z)
        case (Inl err)
        then show ?thesis using unresolved [OF Some _ y, of s1 err] assms Some w Inr \<open>w = Inr u\<close> y z by (simp add: Let_def)
      next
        case (Inr u')
        then show ?thesis using resolved [OF Some _ y, of s1 s2] assms Some w Inr \<open>w = Inr u\<close> y z by (simp add: Let_def)
      qed
    qed
  qed
qed

lemma step_synced: "sk_SyncSource sink n q s = (x, s') \<Longrightarrow> sink_step sink C s s'"
  using sink_step.synced [of sink C s n q] by simp

lemma step_resolved:
  "sk_ResolveSource sink n (pe_ID e) y s = (x, s') \<Longrightarrow> e \<in> C \<Longrightarrow> resolvedOutcome e = Some y \<Longrightarrow> sink_step sink C s s'"
  using sink_step.resolved [of e C y sink s n] by simp

lemma syncEvents_steps:
  assumes "syncEvents sink b es r s = (x, r', s')" "b \<Longrightarrow> set es \<subseteq> C"
  shows "(sink_step sink C)\<^sup>*\<^sup>* s s'"
  using assms
proof (induction es arbitrary: r s)
  case (Cons e es)
  have sub: "b \<Longrightarrow> set es \<subseteq> C" "b \<Longrightarrow> e \<in> C" using Cons.prems(2) by auto
  note IH = Cons.IH [OF _ sub(1)]
  from Cons.prems(1) show ?case
  proof (cases rule: syncEventsE)
    case skipped
    then show ?thesis using IH by blast
  next
    case (failed q err)
    then show ?thesis using step_synced [OF failed(2)] by blast
  next
    case stored
    then show ?thesis using IH step_synced by (meson converse_rtranclp_into_rtranclp)
  next
    case unresolved
    then show ?thesis using step_synced step_resolved [OF _ sub(2)] by (meson converse_rtranclp_into_rtranclp r_into_rtranclp)
  next
    case resolved
    then show ?thesis using IH step_synced step_resolved [OF _ sub(2)] by (meson converse_rtranclp_into_rtranclp)
  qed
qed simp

text \<open>The events a pass reads.\<close>

definition listed :: "(bool \<Rightarrow> nat \<Rightarrow> pmEvent list res) \<Rightarrow> bool \<Rightarrow> pmEvent set" where
  "listed source b = {e. \<exists>page < maxSyncPages. \<exists>es. source b page = Inr es \<and> e \<in> set es}"

lemma syncPages_steps:
  assumes "syncPages sink over source b page left r s = (x, r', s')"
    "b \<Longrightarrow> {e. \<exists>p es. page \<le> p \<and> p < page + left \<and> source b p = Inr es \<and> e \<in> set es} \<subseteq> C"
  shows "(sink_step sink C)\<^sup>*\<^sup>* s s'"
  using assms
proof (induction left arbitrary: page r s)
  case (Suc left)
  show ?case
  proof (cases "over b page \<or> (\<exists>err. source b page = Inl err)")
    case True
    then show ?thesis using Suc.prems(1) by (auto split: if_splits)
  next
    case False
    then obtain es where es: "\<not> over b page" "source b page = Inr es" by (cases "source b page") auto
    let ?r = "r\<lparr>sy_Pages := sy_Pages r + 1, sy_Fetched := sy_Fetched r + int (length es)\<rparr>"
    obtain y r1 s1 where y: "syncEvents sink b es ?r s = (y, r1, s1)" by (metis prod_cases3)
    have "set es \<subseteq> C" if b using Suc.prems(2) [OF that] es(2) by fastforce
    then have 1: "(sink_step sink C)\<^sup>*\<^sup>* s s1" by (rule syncEvents_steps [OF y])
    show ?thesis
    proof (cases "(\<exists>err. y = Inl err) \<or> length es < pageSize")
      case True
      then show ?thesis using 1 y es Suc.prems(1) by (auto simp: Let_def split: sum.splits)
    next
      case False
      then have "syncPages sink over source b (Suc page) left r1 s1 = (x, r', s')"
        using y es Suc.prems(1) by (auto simp: Let_def split: sum.splits)
      moreover have "{e. \<exists>p es. Suc page \<le> p \<and> p < Suc page + left \<and> source b p = Inr es \<and> e \<in> set es} \<subseteq> C" if b
      proof
        fix e
        assume "e \<in> {e. \<exists>p es. Suc page \<le> p \<and> p < Suc page + left \<and> source b p = Inr es \<and> e \<in> set es}"
        then obtain p es' where "Suc page \<le> p" "p < Suc page + left" "source b p = Inr es'" "e \<in> set es'" by blast
        then have "page \<le> p" "p < page + Suc left" "source b p = Inr es'" "e \<in> set es'" by simp_all
        then show "e \<in> C" using Suc.prems(2) [OF that] by blast
      qed
      ultimately show ?thesis using Suc.IH 1 by (meson rtranclp_trans)
    qed
  qed
qed simp

lemma syncRun_steps:
  assumes "syncRun sink over source s = (x, r, s')"
  shows "(sink_step sink (listed source True))\<^sup>*\<^sup>* s s'"
proof -
  obtain y r1 s1 where y: "syncStatus sink over source False newSyncResult s = (y, r1, s1)" by (metis prod_cases3)
  have 1: "(sink_step sink (listed source True))\<^sup>*\<^sup>* s s1"
    by (rule syncPages_steps [OF y [unfolded syncStatus_def]]) simp
  show ?thesis
  proof (cases y)
    case (Inl err)
    then show ?thesis using 1 y assms by (simp add: syncRun_def)
  next
    case (Inr u)
    then have 2: "syncStatus sink over source True r1 s1 = (x, r, s')" using y assms by (simp add: syncRun_def)
    have "(sink_step sink (listed source True))\<^sup>*\<^sup>* s1 s'"
      by (rule syncPages_steps [OF 2 [unfolded syncStatus_def]]) (auto simp: listed_def)
    then show ?thesis using 1 by simp
  qed
qed

text \<open>The counters of a run that ends well: every event read is synced or skipped.\<close>

definition tally :: "syncResult \<Rightarrow> int \<times> int" where
  "tally r = (sy_Fetched r - sy_Synced r - sy_Skipped r, sy_Synced r - sy_Resolved r)"

lemma syncEvents_tally:
  assumes "syncEvents sink b es r s = (Inr (), r', s')"
  shows "fst (tally r') = fst (tally r) - int (length es) \<and> snd (tally r) \<le> snd (tally r')"
  using assms
proof (induction es arbitrary: r s)
  case (Cons e es)
  from Cons.prems show ?case
    by (cases rule: syncEventsE) (use Cons.IH in \<open>fastforce simp: tally_def\<close>)+
qed simp

lemma syncPages_tally:
  assumes "syncPages sink over source b page left r s = (Inr (), r', s')"
  shows "fst (tally r') = fst (tally r) \<and> snd (tally r) \<le> snd (tally r')"
  using assms
proof (induction left arbitrary: page r s)
  case 0
  then show ?case by (auto simp: tally_def)
next
  case (Suc left)
  obtain es where es: "\<not> over b page" "source b page = Inr es"
    using Suc.prems by (cases "source b page") (auto split: if_splits)
  let ?r = "r\<lparr>sy_Pages := sy_Pages r + 1, sy_Fetched := sy_Fetched r + int (length es)\<rparr>"
  obtain y r1 s1 where y: "syncEvents sink b es ?r s = (y, r1, s1)" by (metis prod_cases3)
  then have yi: "y = Inr ()" using Suc.prems es by (cases y) (auto simp: Let_def)
  have t: "fst (tally r1) = fst (tally r) \<and> snd (tally r) \<le> snd (tally r1)"
    using syncEvents_tally [OF y [unfolded yi]] by (simp add: tally_def)
  show ?case
  proof (cases "length es < pageSize")
    case True
    then show ?thesis using Suc.prems es y yi t by (simp add: Let_def)
  next
    case False
    then have "syncPages sink over source b (Suc page) left r1 s1 = (Inr (), r', s')"
      using Suc.prems es y yi by (simp add: Let_def)
    from Suc.IH [OF this] show ?thesis using t by simp
  qed
qed

lemma syncRun_split:
  assumes "syncRun sink over source s = (Inr (), r, s')"
  obtains r1 s1 where "syncPages sink over source False 0 maxSyncPages newSyncResult s = (Inr (), r1, s1)"
    "syncPages sink over source True 0 maxSyncPages r1 s1 = (Inr (), r, s')"
proof -
  obtain y r1 s1 where y: "syncStatus sink over source False newSyncResult s = (y, r1, s1)" by (metis prod_cases3)
  then show ?thesis using that assms by (cases y) (auto simp: syncRun_def syncStatus_def)
qed

lemma syncRun_tally:
  assumes "syncRun sink over source s = (Inr (), r, s')"
  shows "sy_Fetched r = sy_Synced r + sy_Skipped r" "sy_Resolved r \<le> sy_Synced r"
proof -
  from assms obtain r1 s1 where "syncPages sink over source False 0 maxSyncPages newSyncResult s = (Inr (), r1, s1)"
    "syncPages sink over source True 0 maxSyncPages r1 s1 = (Inr (), r, s')" by (rule syncRun_split)
  note t = this [THEN syncPages_tally]
  show "sy_Fetched r = sy_Synced r + sy_Skipped r" "sy_Resolved r \<le> sy_Synced r"
    using t by (simp_all add: tally_def newSyncResult_def)
qed

text \<open>A pass reads a page when every page before it is full.\<close>

definition reads :: "(bool \<Rightarrow> nat \<Rightarrow> pmEvent list res) \<Rightarrow> bool \<Rightarrow> nat \<Rightarrow> bool" where
  "reads source b page \<longleftrightarrow> page < maxSyncPages \<and> (\<forall>p < page. \<exists>es. source b p = Inr es \<and> pageSize \<le> length es)"

locale event_sink =
  fixes sink :: "'s eventSink" and lookup :: "'s \<Rightarrow> string \<Rightarrow> event option" and inv :: "'s \<Rightarrow> bool"
  assumes inv_sync: "inv s \<Longrightarrow> inv (snd (sk_SyncSource sink n q s))"
    and inv_resolve: "inv s \<Longrightarrow> inv (snd (sk_ResolveSource sink n i x s))"
    and sync_keeps: "inv s \<Longrightarrow> lookup s j = Some v
      \<Longrightarrow> \<exists>v'. lookup (snd (sk_SyncSource sink n q s)) j = Some v' \<and> stays_resolved v v'"
    and resolve_keeps: "inv s \<Longrightarrow> lookup s j = Some v
      \<Longrightarrow> \<exists>v'. lookup (snd (sk_ResolveSource sink n i x s)) j = Some v' \<and> stays_resolved v v'"
    and sync_outcome: "inv s \<Longrightarrow> lookup (snd (sk_SyncSource sink n q s)) j = Some v' \<Longrightarrow> e_Outcome v' = Some y
      \<Longrightarrow> \<exists>v. lookup s j = Some v \<and> e_Outcome v = Some y"
    and resolve_outcome: "inv s \<Longrightarrow> lookup (snd (sk_ResolveSource sink n i x s)) j = Some v' \<Longrightarrow> e_Outcome v' = Some y
      \<Longrightarrow> (\<exists>v. lookup s j = Some v \<and> e_Outcome v = Some y) \<or> (j = trimSpace i \<and> y = trimSpace x)"
    and sync_stored: "inv s \<Longrightarrow> sk_SyncSource sink n (Some req) s = (Inr (), s') \<Longrightarrow> lookup s' (trimSpace (es_SourceID req)) \<noteq> None"
    and resolve_done: "inv s \<Longrightarrow> sk_ResolveSource sink n i x s = (Inr (), s')
      \<Longrightarrow> \<exists>v. lookup s' (trimSpace i) = Some v \<and> e_Status v = ''resolved''"
begin

lemma step_inv: "sink_step sink C s s' \<Longrightarrow> inv s \<Longrightarrow> inv s'"
  by (auto elim!: sink_stepE intro: inv_sync inv_resolve)

lemma step_keeps: "sink_step sink C s s' \<Longrightarrow> inv s \<Longrightarrow> lookup s j = Some v \<Longrightarrow> \<exists>v'. lookup s' j = Some v' \<and> stays_resolved v v'"
  by (auto elim!: sink_stepE intro: sync_keeps resolve_keeps)

lemma steps_inv: "(sink_step sink C)\<^sup>*\<^sup>* s s' \<Longrightarrow> inv s \<Longrightarrow> inv s'"
  by (induction rule: rtranclp_induct) (auto intro: step_inv)

lemma steps_keep:
  assumes "(sink_step sink C)\<^sup>*\<^sup>* s s'" "inv s" "lookup s j = Some v"
  shows "\<exists>v'. lookup s' j = Some v' \<and> stays_resolved v v'"
  using assms(1)
proof (induction rule: rtranclp_induct)
  case (step y z)
  then obtain v1 where v1: "lookup y j = Some v1" "stays_resolved v v1" by blast
  obtain v2 where "lookup z j = Some v2" "stays_resolved v1 v2"
    using step_keeps [OF step(2) steps_inv [OF step(1) assms(2)] v1(1)] by blast
  then show ?case using v1(2) stays_resolved_trans by blast
qed (simp add: assms(3))

lemma resolvedOutcome_trimmed: "resolvedOutcome e = Some x \<Longrightarrow> trimSpace x = x"
  unfolding resolvedOutcome_iff resolvedMarketOutcome_iff by (elim conjE bexE exE disjE) simp_all

lemma steps_outcome:
  assumes "(sink_step sink C)\<^sup>*\<^sup>* s s'" "inv s" "lookup s' j = Some v'" "e_Outcome v' = Some y"
  shows "(\<exists>v. lookup s j = Some v \<and> e_Outcome v = Some y)
    \<or> (\<exists>e \<in> C. trimSpace (pe_ID e) = j \<and> resolvedOutcome e = Some y)"
  using assms(1,3,4)
proof (induction arbitrary: v' rule: rtranclp_induct)
  case (step t z)
  have i: "inv t" by (rule steps_inv [OF step(1) assms(2)])
  from step(2) show ?case
  proof (rule sink_stepE)
    fix n q
    assume "z = snd (sk_SyncSource sink n q t)"
    then have "\<exists>v. lookup t j = Some v \<and> e_Outcome v = Some y"
      using sync_outcome [OF i, of n q j v' y] step(4,5) by simp
    then show ?thesis using step(3) by blast
  next
    fix e x n
    assume e: "z = snd (sk_ResolveSource sink n (pe_ID e) x t)" "e \<in> C" "resolvedOutcome e = Some x"
    then have "(\<exists>v. lookup t j = Some v \<and> e_Outcome v = Some y) \<or> (j = trimSpace (pe_ID e) \<and> y = x)"
      using resolve_outcome [OF i, of n "pe_ID e" x j v' y] step(4,5) resolvedOutcome_trimmed [OF e(3)] by simp
    then show ?thesis using step(3) e(2,3) by blast
  qed
qed auto

lemma syncEvents_done:
  assumes "syncEvents sink b es r s = (Inr (), r', s')" "inv s" "e \<in> set es" "normalizeSourceEvent e \<noteq> None"
  shows "\<exists>v. lookup s' (trimSpace (pe_ID e)) = Some v \<and> (b \<and> resolvedOutcome e \<noteq> None \<longrightarrow> e_Status v = ''resolved'')"
  using assms
proof (induction es arbitrary: r s)
  case (Cons a es)
  have rest: "\<exists>v'. lookup s' j = Some v' \<and> stays_resolved v v'"
    if "syncEvents sink b es rr t = (Inr (), r', s')" "lookup t j = Some v" "inv t" for rr t j v
    using steps_keep [OF syncEvents_steps [OF that(1), of UNIV] that(3,2)] by simp
  have id: "trimSpace (es_SourceID q) = trimSpace (pe_ID a)" if "normalizeSourceEvent a = Some q" for q
    using that by (auto simp: normalizeSourceEvent_def Let_def split: if_splits)
  note synced = inv_sync [OF Cons.prems(2)]
  from Cons.prems(1) show ?case
  proof (cases rule: syncEventsE)
    case skipped
    then have "e \<in> set es" using Cons.prems(3,4) by auto
    then show ?thesis using Cons.IH [OF skipped(2) Cons.prems(2) _ Cons.prems(4)] by blast
  next
    case (stored q s1)
    have i1: "inv s1" using synced [of "nat (sy_Synced r)" "Some q"] stored(2) by simp
    obtain v1 where v1: "lookup s1 (trimSpace (pe_ID a)) = Some v1"
      using sync_stored [OF Cons.prems(2) stored(2)] id [OF stored(1)] by auto
    show ?thesis
    proof (cases "e = a")
      case True
      then show ?thesis using rest [OF stored(4) v1 i1] stored(3) by auto
    next
      case False
      then have "e \<in> set es" using Cons.prems(3) by simp
      then show ?thesis by (rule Cons.IH [OF stored(4) i1 _ Cons.prems(4)])
    qed
  next
    case (resolved q s1 y s2)
    have i1: "inv s1" using synced [of "nat (sy_Synced r)" "Some q"] resolved(2) by simp
    have i2: "inv s2" using inv_resolve [OF i1, of "nat (sy_Synced r + 1)" "pe_ID a" y] resolved(5) by simp
    obtain v2 where v2: "lookup s2 (trimSpace (pe_ID a)) = Some v2" "e_Status v2 = ''resolved''"
      using resolve_done [OF i1 resolved(5)] by blast
    show ?thesis
    proof (cases "e = a")
      case True
      then show ?thesis using rest [OF resolved(6) v2(1) i2] v2(2) by (auto simp: stays_resolved_def)
    next
      case False
      then have "e \<in> set es" using Cons.prems(3) by simp
      then show ?thesis by (rule Cons.IH [OF resolved(6) i2 _ Cons.prems(4)])
    qed
  qed simp_all
qed simp

text \<open>What a run that ends well has done with an event.\<close>

definition imported :: "bool \<Rightarrow> pmEvent \<Rightarrow> 's \<Rightarrow> bool" where
  "imported b e s \<longleftrightarrow> (\<exists>v. lookup s (trimSpace (pe_ID e)) = Some v
     \<and> (b \<and> resolvedOutcome e \<noteq> None \<longrightarrow> e_Status v = ''resolved''))"

lemma imported_steps: "(sink_step sink C)\<^sup>*\<^sup>* s s' \<Longrightarrow> inv s \<Longrightarrow> imported b e s \<Longrightarrow> imported b e s'"
  using steps_keep [of C s s'] by (fastforce simp: imported_def stays_resolved_def)

lemma syncPages_done:
  assumes "syncPages sink over source b page left r s = (Inr (), r', s')" "inv s"
    "page \<le> p" "p < page + left" "\<forall>q. page \<le> q \<longrightarrow> q < p \<longrightarrow> (\<exists>es. source b q = Inr es \<and> pageSize \<le> length es)"
  shows "\<exists>es. source b p = Inr es \<and> (\<forall>e \<in> set es. normalizeSourceEvent e \<noteq> None \<longrightarrow> imported b e s')"
  using assms
proof (induction left arbitrary: page r s)
  case (Suc left)
  obtain es where es: "\<not> over b page" "source b page = Inr es"
    using Suc.prems(1) by (cases "source b page") (auto split: if_splits)
  let ?r = "r\<lparr>sy_Pages := sy_Pages r + 1, sy_Fetched := sy_Fetched r + int (length es)\<rparr>"
  obtain y r1 s1 where y: "syncEvents sink b es ?r s = (y, r1, s1)" by (metis prod_cases3)
  then have yi: "y = Inr ()" using Suc.prems(1) es by (cases y) (auto simp: Let_def)
  note here = syncEvents_done [OF y [unfolded yi] Suc.prems(2), folded imported_def]
  have i1: "inv s1" by (rule steps_inv [OF syncEvents_steps [OF y, of UNIV] Suc.prems(2)]) simp
  show ?case
  proof (cases "length es < pageSize")
    case True
    then have "p = page" using Suc.prems(3,5) es(2) by (cases "p = page") auto
    moreover have "s' = s1" using Suc.prems(1) es y yi True by (simp add: Let_def)
    ultimately show ?thesis using here es(2) by blast
  next
    case False
    then have n: "syncPages sink over source b (Suc page) left r1 s1 = (Inr (), r', s')"
      using Suc.prems(1) es y yi by (simp add: Let_def)
    show ?thesis
    proof (cases "p = page")
      case True
      have "(sink_step sink UNIV)\<^sup>*\<^sup>* s1 s'" by (rule syncPages_steps [OF n]) simp
      then show ?thesis using here es(2) True imported_steps i1 by blast
    next
      case False
      then show ?thesis using Suc.IH [OF n i1] Suc.prems(3-5) by simp
    qed
  qed
qed simp

lemma syncRun_done:
  assumes "syncRun sink over source s = (Inr (), r, s')" "inv s" "reads source b page"
  shows "\<exists>es. source b page = Inr es \<and> (\<forall>e \<in> set es. normalizeSourceEvent e \<noteq> None \<longrightarrow> imported b e s')"
proof -
  from assms(1) obtain r1 s1 where r: "syncPages sink over source False 0 maxSyncPages newSyncResult s = (Inr (), r1, s1)"
    "syncPages sink over source True 0 maxSyncPages r1 s1 = (Inr (), r, s')" by (rule syncRun_split)
  have i1: "inv s1" by (rule steps_inv [OF syncPages_steps [OF r(1), of UNIV] assms(2)]) simp
  have st: "(sink_step sink UNIV)\<^sup>*\<^sup>* s1 s'" by (rule syncPages_steps [OF r(2)]) simp
  have p: "page < 0 + maxSyncPages" "\<forall>q. 0 \<le> q \<longrightarrow> q < page \<longrightarrow> (\<exists>es. source b q = Inr es \<and> pageSize \<le> length es)"
    using assms(3) by (simp_all add: reads_def)
  show ?thesis
  proof (cases b)
    case True
    then show ?thesis using syncPages_done [OF r(2) i1 _ p(1)] p(2) by simp
  next
    case False
    then show ?thesis using syncPages_done [OF r(1) assms(2) _ p(1)] p(2) imported_steps [OF st i1] by simp blast
  qed
qed

end

end
