(* ===== verification/OrderCursor.thy ===== *)
theory OrderCursor
  imports Exchange Base64 TimeFormat
begin

text \<open>
  \<^verbatim>\<open>ListCursor\<close> of \<^verbatim>\<open>internal/order/order.go\<close>: pages of orders behind an opaque cursor, the
  unpadded URL base64 of a JSON object with the time and the identifier of the last order seen.
  Package \<^verbatim>\<open>encoding/json\<close> is a parameter: \<open>marshal\<close> prints the object, \<open>unmarshal\<close> reads a text
  or refuses it. The repository is given by its \<^verbatim>\<open>ListAfter\<close>.
\<close>

section \<open>Cursors as text\<close>

record encodedCursor =
  ec_CreatedAt :: string
  ec_ID :: string

definition invalidCursor :: go_error where
  "invalidCursor = Validation ''cursor'' ''is invalid''"

definition decodeCursor :: "(string \<Rightarrow> encodedCursor option) \<Rightarrow> string \<Rightarrow> cursor option res" where
  "decodeCursor unmarshal text =
     (if text = [] then Inr None
      else case base64Decode urlAlphabet False text of
          None \<Rightarrow> Inl invalidCursor
        | Some decoded \<Rightarrow> (case unmarshal decoded of
            None \<Rightarrow> Inl invalidCursor
          | Some encoded \<Rightarrow> (case parseRFC3339 (ec_CreatedAt encoded) of
              Inl err \<Rightarrow> Inl invalidCursor
            | Inr createdAt \<Rightarrow> (case validateUUIDField ''cursor'' (ec_ID encoded) of
                Inl err \<Rightarrow> Inl invalidCursor
              | Inr _ \<Rightarrow> Inr (Some \<lparr>cu_CreatedAt = createdAt, cu_ID = ec_ID encoded\<rparr>)))))"

definition encodeCursor :: "(encodedCursor \<Rightarrow> string) \<Rightarrow> order \<Rightarrow> string" where
  "encodeCursor marshal v = base64Encode urlAlphabet False
     (marshal \<lparr>ec_CreatedAt = formatRFC3339Nano (o_CreatedAt v), ec_ID = o_ID v\<rparr>)"

section \<open>Pages\<close>

record cursorPage =
  cp_Orders :: "order list"
  cp_NextCursor :: string

definition listCursor ::
  "(encodedCursor \<Rightarrow> string) \<Rightarrow> (string \<Rightarrow> encodedCursor option) \<Rightarrow> (listFilters \<Rightarrow> cursor option \<Rightarrow> order list res)
    \<Rightarrow> listFilters option \<Rightarrow> cursorPage res" where
  "listCursor marshal unmarshal listAfter filters =
     bind_res (orderNormalizeFilters filters) (\<lambda>normalized.
     bind_res (decodeCursor unmarshal (lf_Cursor normalized)) (\<lambda>c.
     case listAfter normalized c of
       Inl err \<Rightarrow> Inl (Wrapped ''list orders by cursor'' err)
     | Inr values \<Rightarrow>
         if int (length values) \<le> lf_Limit normalized then Inr \<lparr>cp_Orders = values, cp_NextCursor = []\<rparr>
         else let page = take (nat (lf_Limit normalized)) values in
           Inr \<lparr>cp_Orders = page, cp_NextCursor = encodeCursor marshal (last page)\<rparr>))"

definition orderListCursor ::
  "(encodedCursor \<Rightarrow> string) \<Rightarrow> (string \<Rightarrow> encodedCursor option) \<Rightarrow> bool \<Rightarrow> listFilters option \<Rightarrow> orderWorld
    \<Rightarrow> cursorPage res" where
  "orderListCursor marshal unmarshal ctxDone filters s =
     listCursor marshal unmarshal (\<lambda>F c. orderRepoListAfter ctxDone F c (ow_orders s)) filters"

section \<open>A cursor reads back\<close>

text \<open>
  What the pages rely on of \<^verbatim>\<open>encoding/json\<close>: a printed object is not empty, and one whose strings are
  valid text reads back. The strings of a cursor are printable ASCII.
\<close>

definition json_codec :: "(encodedCursor \<Rightarrow> string) \<Rightarrow> (string \<Rightarrow> encodedCursor option) \<Rightarrow> bool" where
  "json_codec marshal unmarshal \<longleftrightarrow> (\<forall>e. marshal e \<noteq> []
     \<and> (json_text (ec_CreatedAt e) \<and> json_text (ec_ID e) \<longrightarrow> unmarshal (marshal e) = Some e))"

lemma printable_digits: "list_all is_digit s \<Longrightarrow> list_all printable s"
proof -
  have "printable c" if "is_digit c" for c
  proof -
    have "(of_char c :: int) = int (of_char c)" by (simp add: of_nat_of_char)
    then show ?thesis using that by (auto simp: is_digit_def printable_def Let_def)
  qed
  then show "list_all is_digit s \<Longrightarrow> list_all printable s" by (auto simp: list_all_iff)
qed

lemma printable_padded: "list_all printable (padded w n)"
  using printable_digits [OF digits_dec_of [of "\<bar>n\<bar>"]] printable_digits [OF digits_zeros]
  by (simp add: padded_def Let_def printable_def [of "CHR ''-''"])

lemma printable_time: "list_all printable (formatRFC3339Nano t)"
proof -
  have "set (trimZeros s) \<subseteq> set s" for s by (auto simp: trimZeros_def dest: set_dropWhileD)
  then have "list_all printable (fractionText ns)" for ns
    using printable_padded [of 9 ns] by (auto simp: fractionText_def list_all_iff printable_def [of "CHR ''.''"])
  moreover have "printable (CHR ''-'')" "printable (CHR ''T'')" "printable (CHR '':'')" "printable (CHR ''Z'')" by code_simp+
  ultimately show ?thesis
    using printable_padded by (simp add: formatRFC3339Nano_def Let_def split: prod.split)
qed

lemma printable_id:
  assumes "validateUUIDField f s = Inr s"
  shows "list_all printable s"
  using printable_uuid validateUUIDField_Inr [OF assms] by blast

text \<open>The orders a cursor can name: Go prints their time with four digits of the year.\<close>

definition cursor_ready :: "order \<Rightarrow> bool" where
  "cursor_ready v \<longleftrightarrow> plain_time (o_CreatedAt v) \<and> validateUUIDField ''cursor'' (o_ID v) = Inr (o_ID v)"

lemma encodeBytes_chars:
  "list_all (\<lambda>b. b < 256) bs \<Longrightarrow> length alphabet = 64 \<Longrightarrow> set (encodeBytes alphabet False bs) \<subseteq> set alphabet"
proof (induction alphabet False bs rule: encodeBytes.induct)
  case (1 alphabet a b c bs)
  have "alphabet ! i \<in> set alphabet" if "i < 64" for i using that 1(3) by simp
  moreover have "a div 4 < 64" "a mod 4 * 16 + b div 16 < 64" "b mod 16 * 4 + c div 64 < 64" "c mod 64 < 64"
    using 1(2) mod_less_divisor [of 4 a] mod_less_divisor [of 16 b] by (auto simp: less_mult_imp_div_less)
  ultimately show ?case using 1 by simp
next
  case (2 alphabet a b)
  have "alphabet ! i \<in> set alphabet" if "i < 64" for i using that 2(2) by simp
  moreover have "a div 4 < 64" "a mod 4 * 16 + b div 16 < 64" "b mod 16 * 4 < 64"
    using 2(1) mod_less_divisor [of 4 a] mod_less_divisor [of 16 b] by (auto simp: less_mult_imp_div_less)
  ultimately show ?case by simp
next
  case (3 alphabet a)
  have "alphabet ! i \<in> set alphabet" if "i < 64" for i using that 3(2) by simp
  moreover have "a div 4 < 64" "a mod 4 * 16 < 64"
    using 3(1) mod_less_divisor [of 4 a] by (auto simp: less_mult_imp_div_less)
  ultimately show ?case by simp
qed simp

lemma trimSpace_id:
  assumes "\<forall>c \<in> set s. \<not> is_space c"
  shows "trimSpace s = s"
proof -
  have "dropWhile is_space t = t" if "set t \<subseteq> set s" for t using that assms by (cases t) auto
  then show ?thesis by (simp add: trimSpace_def)
qed

lemma trimSpace_base64 [simp]: "trimSpace (base64Encode urlAlphabet False s) = base64Encode urlAlphabet False s"
proof (rule trimSpace_id)
  have "list_all (\<lambda>c. \<not> is_space c) urlAlphabet" by code_simp
  moreover have "length urlAlphabet = 64" by code_simp
  moreover have "list_all (\<lambda>b. b < 256) (map of_char s :: nat list)" by (simp add: list_all_iff nat_of_char_less_256)
  ultimately show "\<forall>c \<in> set (base64Encode urlAlphabet False s). \<not> is_space c"
    using encodeBytes_chars [of "map of_char s" urlAlphabet] by (auto simp: base64Encode_def list_all_iff)
qed

lemma base64Encode_empty: "base64Encode urlAlphabet False s = [] \<longleftrightarrow> s = []"
proof
  assume "base64Encode urlAlphabet False s = []"
  then have "Some s = base64Decode urlAlphabet False []" using base64_raw_roundtrip [OF good_alphabets(2), of s] by simp
  then show "s = []" by (simp add: base64Decode_def opt_map_def)
qed (simp add: base64Encode_def)

lemma decode_encode:
  assumes "json_codec marshal unmarshal" "cursor_ready v"
  shows "decodeCursor unmarshal (encodeCursor marshal v) = Inr (Some (cursor_of v))"
proof -
  let ?e = "\<lparr>ec_CreatedAt = formatRFC3339Nano (o_CreatedAt v), ec_ID = o_ID v\<rparr>"
  have "json_text (formatRFC3339Nano (o_CreatedAt v))" "json_text (o_ID v)"
    using assms(2) printable_time printable_id by (auto simp: cursor_ready_def intro!: json_text_printable)
  then have "marshal ?e \<noteq> []" "unmarshal (marshal ?e) = Some ?e" using assms(1) by (simp_all add: json_codec_def)
  then show ?thesis
    using assms(2) base64_raw_roundtrip [OF good_alphabets(2)] base64Encode_empty parse_format_time
    by (simp add: decodeCursor_def encodeCursor_def cursor_ready_def cursor_of_def)
qed

section \<open>Following the pages\<close>

text \<open>A client that asks for the next page until there is none.\<close>

fun cursorWalk :: "(string \<Rightarrow> cursorPage res) \<Rightarrow> nat \<Rightarrow> string \<Rightarrow> order list option" where
  "cursorWalk get 0 t = None"
| "cursorWalk get (Suc fuel) t = (case get t of
      Inl err \<Rightarrow> None
    | Inr p \<Rightarrow> if cp_NextCursor p = [] then Some (cp_Orders p)
        else map_option (append (cp_Orders p)) (cursorWalk get fuel (cp_NextCursor p)))"

text \<open>The text that stands for having read some orders.\<close>

definition cursor_text :: "(encodedCursor \<Rightarrow> string) \<Rightarrow> order list \<Rightarrow> string" where
  "cursor_text marshal xs = (if xs = [] then [] else encodeCursor marshal (last xs))"

lemma cursor_text_trim: "trimSpace (cursor_text marshal xs) = cursor_text marshal xs"
  by (simp add: cursor_text_def encodeCursor_def) (simp add: trimSpace_def)

lemma cursor_text_empty: "json_codec marshal unmarshal \<Longrightarrow> cursor_text marshal xs = [] \<longleftrightarrow> xs = []"
  by (simp add: cursor_text_def encodeCursor_def base64Encode_empty json_codec_def)

lemma normalize_cursor:
  assumes "orderNormalizeFilters (Some F) = Inr G" "trimSpace t = t"
  shows "orderNormalizeFilters (Some (F\<lparr>lf_Cursor := t\<rparr>)) = Inr (G\<lparr>lf_Cursor := t\<rparr>)"
  using assms by (auto simp: orderNormalizeFilters_def Let_def bind_res_def split: sum.splits prod.splits if_splits)

lemma normalize_limit: "orderNormalizeFilters (Some F) = Inr G \<Longrightarrow> 1 \<le> lf_Limit G"
  using normalizePagination_bounds
  by (fastforce simp: orderNormalizeFilters_def Let_def bind_res_def split: sum.splits prod.splits if_splits)

lemma listAfter_cursor [simp]:
  "orderRepoListAfter ctxDone (G\<lparr>lf_Cursor := t\<rparr>) c os = orderRepoListAfter ctxDone G c os"
proof -
  have "matchesOrderFilters v (G\<lparr>lf_Cursor := t\<rparr>) = matchesOrderFilters v G" for v by (simp add: matchesOrderFilters_def)
  then show ?thesis by (simp add: orderRepoListAfter_def Let_def)
qed

text \<open>
  C15: Following the cursors of \<^verbatim>\<open>ListCursor\<close> from the first page on returns every matching order of
  the store exactly once, newest first, and ends: the walk needs at most one page for each
  order and one more.
\<close>

theorem cursor_walk_complete:
  assumes "json_codec marshal unmarshal" "order_reachable (ow_orders s)"
    and "\<forall>v \<in> snd ` set (ow_orders s). cursor_ready v" "orderNormalizeFilters (Some F) = Inr G"
  shows "\<exists>S. set S = {v \<in> snd ` set (ow_orders s). matchesOrderFilters v G} \<and> distinct (map o_ID S)
    \<and> sorted_wrt ordersCursorFirst S
    \<and> (\<forall>fuel > length S.
         cursorWalk (\<lambda>t. orderListCursor marshal unmarshal False (Some (F\<lparr>lf_Cursor := t\<rparr>)) s) fuel [] = Some S)"
proof -
  let ?get = "\<lambda>t. orderListCursor marshal unmarshal False (Some (F\<lparr>lf_Cursor := t\<rparr>)) s" and ?L = "nat (lf_Limit G)"
  have L: "1 \<le> lf_Limit G" "nat (lf_Limit G + 1) = Suc ?L" using normalize_limit [OF assms(4)] by simp_all
  then obtain S where S: "set S = {v \<in> snd ` set (ow_orders s). matchesOrderFilters v G}" "distinct (map o_ID S)"
    "sorted_wrt ordersCursorFirst S" "orderRepoListAfter False G None (ow_orders s) = Inr (take (Suc ?L) S)"
    "\<And>xs v ys. S = xs @ v # ys \<Longrightarrow> orderRepoListAfter False G (Some (cursor_of v)) (ow_orders s) = Inr (take (Suc ?L) ys)"
    using cursor_pages [OF assms(2), of G] by auto
  have page: "?get (cursor_text marshal xs) = Inr (if length ys \<le> ?L then \<lparr>cp_Orders = ys, cp_NextCursor = []\<rparr>
      else \<lparr>cp_Orders = take ?L ys, cp_NextCursor = cursor_text marshal (xs @ take ?L ys)\<rparr>)" if "S = xs @ ys" for xs ys
  proof -
    note norm = normalize_cursor [OF assms(4) cursor_text_trim [of marshal xs]]
    obtain c where c: "decodeCursor unmarshal (cursor_text marshal xs) = Inr c"
      "orderRepoListAfter False G c (ow_orders s) = Inr (take (Suc ?L) ys)"
    proof (cases "xs = []")
      case True
      then show ?thesis using that S(4) \<open>S = xs @ ys\<close> by (simp add: cursor_text_def decodeCursor_def)
    next
      case False
      have e: "S = butlast xs @ last xs # ys" using False \<open>S = xs @ ys\<close> by simp
      have "last xs \<in> set S" by (subst e) simp
      then have "cursor_ready (last xs)" using S(1) assms(3) by blast
      then show ?thesis using that decode_encode [OF assms(1)] S(5) [OF e] False by (simp add: cursor_text_def)
    qed
    have "last (xs @ take ?L ys) = last (take ?L ys)" if "\<not> length ys \<le> ?L" using that L by (cases ys) auto
    then show ?thesis using norm c L
      by (auto simp: orderListCursor_def listCursor_def Let_def cursor_text_def min_def)
  qed
  have "cursorWalk ?get fuel (cursor_text marshal xs) = Some ys" if "S = xs @ ys" "length ys < fuel" for fuel xs ys
    using that
  proof (induction fuel arbitrary: xs ys)
    case (Suc fuel)
    show ?case
    proof (cases "length ys \<le> ?L")
      case False
      then have "cursorWalk ?get fuel (cursor_text marshal (xs @ take ?L ys)) = Some (drop ?L ys)"
        using Suc.prems L by (intro Suc.IH) auto
      moreover have "xs @ take ?L ys \<noteq> []" using False L by (cases ys) auto
      ultimately show ?thesis using page [OF Suc.prems(1)] cursor_text_empty [OF assms(1), of "xs @ take ?L ys"] False by simp
    qed (use page [OF Suc.prems(1)] in simp)
  qed simp
  from this [of "[]" S] have "\<forall>fuel > length S. cursorWalk ?get fuel [] = Some S" by (simp add: cursor_text_def)
  then show ?thesis using S(1-3) by blast
qed

text \<open>Two resting orders, read one at a time through a codec that prefixes the length of the time.\<close>

definition paged_marshal :: "encodedCursor \<Rightarrow> string" where
  "paged_marshal e = replicate (length (ec_CreatedAt e)) (CHR ''+'') @ '':'' @ ec_CreatedAt e @ ec_ID e"

definition paged_unmarshal :: "string \<Rightarrow> encodedCursor option" where
  "paged_unmarshal t = (let n = length (takeWhile (\<lambda>c. c = CHR ''+'') t); rest = drop (Suc n) t
     in Some \<lparr>ec_CreatedAt = take n rest, ec_ID = drop n rest\<rparr>)"

lemma paged_codec: "json_codec paged_marshal paged_unmarshal"
proof -
  have "takeWhile (\<lambda>c. c = CHR ''+'') (replicate n (CHR ''+'') @ CHR '':'' # t) = replicate n (CHR ''+'')" for n t
    by (induction n) simp_all
  then show ?thesis by (simp add: json_codec_def paged_marshal_def paged_unmarshal_def Let_def)
qed

definition paged_a :: order where
  "paged_a = demo_order ''0a0a0a0a-0a0a-4a0a-8a0a-0a0a0a0a0a0a'' ''ann'' ''sell'' 5000000 400000 ''gtc'' 1"
definition paged_b :: order where
  "paged_b = demo_order ''0b0b0b0b-0b0b-4b0b-8b0b-0b0b0b0b0b0b'' ''ben'' ''sell'' 5000000 450000 ''gtc'' 2"

definition paged_store :: orders where
  "paged_store = snd (orderRepoPlace False paged_b (snd (orderRepoPlace False paged_a [])))"

definition paged_filters :: listFilters where
  "paged_filters = \<lparr>lf_MerchantID = [], lf_UserID = [], lf_MarketID = [], lf_Status = '' Pending'',
     lf_Cursor = [], lf_Page = 0, lf_Limit = 1\<rparr>"

lemma paged_reachable: "order_reachable paged_store"
proof -
  have n: "new_order paged_a" "new_order paged_b"
    unfolding paged_a_def paged_b_def by (rule new_demo_order; simp add: shareCap_def PriceScale_def)+
  have "order_step [] (snd (orderRepoPlace False paged_a []))" by (rule order_step.place [OF n(1)])
  moreover have "order_step (snd (orderRepoPlace False paged_a [])) paged_store"
    unfolding paged_store_def by (rule order_step.place [OF n(2)])
  ultimately show ?thesis
    unfolding order_reachable_def by (meson converse_rtranclp_into_rtranclp rtranclp.rtrancl_refl)
qed

theorem cursor_walk_complete_witness:
  "\<exists>S. set S = {v \<in> {paged_a, paged_b}. o_Status v = ''pending''} \<and> sorted_wrt ordersCursorFirst S
    \<and> cursorWalk (\<lambda>t. orderListCursor paged_marshal paged_unmarshal False (Some (paged_filters\<lparr>lf_Cursor := t\<rparr>))
         (newWorld\<lparr>ow_orders := paged_store\<rparr>)) (Suc (length S)) [] = Some S"
proof -
  let ?s = "newWorld\<lparr>ow_orders := paged_store\<rparr>"
  let ?G = "paged_filters\<lparr>lf_Status := ''pending'', lf_Page := 1\<rparr>"
  have e: "paged_store = [(o_ID paged_a, paged_a), (o_ID paged_b, paged_b)]" by code_simp
  have "cursor_ready paged_a" "cursor_ready paged_b" by code_simp+
  then have r: "\<forall>v \<in> snd ` set (ow_orders ?s). cursor_ready v" by (simp add: e)
  have n: "orderNormalizeFilters (Some paged_filters) = Inr ?G" by code_simp
  have "order_reachable (ow_orders ?s)" using paged_reachable by simp
  moreover have m: "{v \<in> snd ` set (ow_orders ?s). matchesOrderFilters v ?G} = {v \<in> {paged_a, paged_b}. o_Status v = ''pending''}"
    by (auto simp: e matchesOrderFilters_def paged_filters_def)
  ultimately show ?thesis
    using cursor_walk_complete [OF paged_codec _ r n] unfolding m by (meson lessI)
qed

end
