(* ===== verification/PgServices.thy ===== *)
theory PgServices
  imports Platform OrderCursor
begin

text \<open>
  The services over the PostgreSQL repositories, as they run in production: the order service of
  \<^verbatim>\<open>internal/order/order.go\<close> on a repository with \<^verbatim>\<open>PlaceWithLockedCollateral\<close> and
  \<^verbatim>\<open>CancelWithUnlock\<close>, and the wallet, market and event services on theirs. A call reads \<open>seen\<close>
  and commits on \<open>d\<close>: between the two other calls may have committed. \<open>fault n\<close> refuses statements
  of the \<open>n\<close>-th repository call.
\<close>

section \<open>Orders\<close>

definition pgMarketGet :: "faults \<Rightarrow> string \<Rightarrow> db \<Rightarrow> market res" where
  "pgMarketGet fault marketID d =
     bind_res (validateMarketID marketID) (\<lambda>marketID.
       case marketPgGetByID fault marketID d of
         Inl err \<Rightarrow> Inl (Wrapped ''get market'' err) | Inr v \<Rightarrow> Inr v)"

definition pgIdempotentExistingOrder :: "faults \<Rightarrow> orderCreateRequest \<Rightarrow> go_error \<Rightarrow> db \<Rightarrow> order option" where
  "pgIdempotentExistingOrder fault req err d =
     (if oq_IdempotencyKey req = [] \<or> \<not> errorsIs err OrderErrAlreadyExists then None
      else case orderPgGetByIdempotency fault (oq_MerchantID req) (oq_IdempotencyKey req) d of
          Inl _ \<Rightarrow> None | Inr existing \<Rightarrow> Some existing)"

definition pgOrderPlace ::
  "(createCall \<Rightarrow> faults) \<Rightarrow> orderCreateRequest \<Rightarrow> order \<Rightarrow> int \<Rightarrow> db \<Rightarrow> order res \<times> db" where
  "pgOrderPlace fault input v collateral d =
     (case placeWithLockedCollateral (fault AtPlace) v collateral d of
        (Inl err, d') \<Rightarrow>
          if is_panic err then (Inl err, d')
          else (case pgIdempotentExistingOrder (fault AtLookup) input err d' of
              Some existing \<Rightarrow> (Inr existing, d')
            | None \<Rightarrow> (Inl (Wrapped ''place order'' err), d'))
      | (Inr v', d') \<Rightarrow> (Inr v', d'))"

definition pgOrderCreateNew ::
  "(createCall \<Rightarrow> faults) \<Rightarrow> time \<Rightarrow> byte list \<Rightarrow> orderCreateRequest \<Rightarrow> db \<Rightarrow> db \<Rightarrow> order res \<times> db" where
  "pgOrderCreateNew fault now random input seen d =
     (case pgMarketGet (fault AtMarket) (oq_MarketID input) seen of
        Inl err \<Rightarrow> (Inl (Wrapped ''get order market'' err), d)
      | Inr marketValue \<Rightarrow>
          if m_MerchantID marketValue \<noteq> oq_MerchantID input \<or> m_Status marketValue \<noteq> ''active''
             \<or> \<not> containsOption (m_Options marketValue) (oq_Option input)
          then (Inl (Sentinel OrderErrInvalidMarket), d)
          else (case fst (generateUUID random) of
              Inl err \<Rightarrow> (Inl (Wrapped ''generate order ID'' err), d)
            | Inr orderID \<Rightarrow>
                (case requiredCollateralCents (oq_Type input) (oq_Amount input) (oq_Price input) of
                  Inl err \<Rightarrow> (Inl err, d)
                | Inr collateral \<Rightarrow>
                    pgOrderPlace fault input (orderFromRequest input orderID now) collateral d)))"

definition pgOrderCreate ::
  "(createCall \<Rightarrow> faults) \<Rightarrow> time \<Rightarrow> byte list \<Rightarrow> orderCreateRequest option \<Rightarrow> db \<Rightarrow> db \<Rightarrow> order res \<times> db" where
  "pgOrderCreate fault now random req seen d =
     (case orderValidateCreateRequest req of
        Inl err \<Rightarrow> (Inl err, d)
      | Inr input \<Rightarrow>
          if oq_IdempotencyKey input \<noteq> [] then
            (case orderPgGetByIdempotency (fault AtIdempotency) (oq_MerchantID input) (oq_IdempotencyKey input) seen of
              Inr existing \<Rightarrow> (Inr existing, d)
            | Inl err \<Rightarrow>
                if \<not> errorsIs err OrderErrNotFound then (Inl (Wrapped ''get idempotent order'' err), d)
                else pgOrderCreateNew fault now random input seen d)
          else pgOrderCreateNew fault now random input seen d)"

definition pgOrderCancel :: "faults \<Rightarrow> string \<Rightarrow> db \<Rightarrow> unit res \<times> db" where
  "pgOrderCancel fault orderID0 d =
     (case validateUUIDField ''order_id'' orderID0 of
        Inl err \<Rightarrow> (Inl err, d)
      | Inr orderID \<Rightarrow> (case cancelWithUnlock fault orderID d of
          (Inl err, d') \<Rightarrow> (Inl (wrap_error ''cancel order'' err), d')
        | (Inr _, d') \<Rightarrow> (Inr (), d')))"

definition pgOrderGet :: "faults \<Rightarrow> string \<Rightarrow> db \<Rightarrow> order res" where
  "pgOrderGet fault orderID0 d =
     bind_res (validateUUIDField ''order_id'' orderID0) (\<lambda>orderID.
       case orderPgGet fault orderID d of Inl err \<Rightarrow> Inl (wrap_error ''get order'' err) | Inr v \<Rightarrow> Inr v)"

definition pgOrderListCursor ::
  "(encodedCursor \<Rightarrow> string) \<Rightarrow> (string \<Rightarrow> encodedCursor option) \<Rightarrow> faults \<Rightarrow> listFilters option \<Rightarrow> db \<Rightarrow> cursorPage res" where
  "pgOrderListCursor marshal unmarshal fault filters d =
     listCursor marshal unmarshal (\<lambda>F c. orderPgListAfter fault F c d) filters"

section \<open>Wallets\<close>

definition pgWalletCreate ::
  "(nat \<Rightarrow> faults) \<Rightarrow> string \<Rightarrow> string \<Rightarrow> string \<Rightarrow> byte list \<Rightarrow> time \<Rightarrow> db \<Rightarrow> db \<Rightarrow> wallet res \<times> db" where
  "pgWalletCreate fault merchantID userID currency random now seen d =
     (case validateWalletKey merchantID userID currency of
        Inl err \<Rightarrow> (Inl err, d)
      | Inr key \<Rightarrow> (case walletPgValidateMerchant (fault 0) (wk_MerchantID key) seen of
          Inl err \<Rightarrow> (Inl (Wrapped ''validate wallet merchant'' err), d)
        | Inr _ \<Rightarrow> (case fst (generateUUID random) of
            Inl err \<Rightarrow> (Inl (Wrapped ''generate wallet ID'' err), d)
          | Inr walletID \<Rightarrow>
              let v = \<lparr>w_ID = walletID, w_MerchantID = wk_MerchantID key, w_UserID = wk_UserID key,
                       w_Currency = wk_Currency key, w_Balance = Fin 0, w_LockedBalance = Fin 0,
                       w_UpdatedAt = now\<rparr>
              in (case walletPgCreate (fault 1) v d of
                    (Inl err, d') \<Rightarrow> (Inl (wrap_error ''create wallet'' err), d')
                  | (Inr _, d') \<Rightarrow> (Inr v, d')))))"

definition pgWalletCredit ::
  "(nat \<Rightarrow> faults) \<Rightarrow> string \<Rightarrow> string \<Rightarrow> string \<Rightarrow> float64 \<Rightarrow> string \<Rightarrow> string \<Rightarrow> byte list \<Rightarrow> time
    \<Rightarrow> db \<Rightarrow> db \<Rightarrow> unit res \<times> db" where
  "pgWalletCredit fault merchantID userID currency amount0 txType0 idempotencyKey0 random now seen d =
     (case validateWalletKey merchantID userID currency of
        Inl err \<Rightarrow> (Inl err, d)
      | Inr key \<Rightarrow> (case normalizeAmount amount0 of
          Inl err \<Rightarrow> (Inl err, d)
        | Inr amount \<Rightarrow> (case validateTransactionType txType0 True of
            Inl err \<Rightarrow> (Inl err, d)
          | Inr txType \<Rightarrow> (case walletPgValidateMerchant (fault 0) (wk_MerchantID key) seen of
              Inl err \<Rightarrow> (Inl (Wrapped ''validate wallet merchant'' err), d)
            | Inr _ \<Rightarrow> (case validateIdempotencyKey idempotencyKey0 of
                Inl err \<Rightarrow> (Inl err, d)
              | Inr idempotencyKey \<Rightarrow> (case fst (generateOperationIDs random) of
                  Inl err \<Rightarrow> (Inl err, d)
                | Inr (walletID, transactionID) \<Rightarrow>
                    let wallet = \<lparr>w_ID = walletID, w_MerchantID = wk_MerchantID key,
                          w_UserID = wk_UserID key, w_Currency = wk_Currency key,
                          w_Balance = Fin 0, w_LockedBalance = Fin 0, w_UpdatedAt = now\<rparr>;
                        transaction = newTransaction transactionID (wk_Currency key) txType amount
                          idempotencyKey now
                    in (case walletPgCredit (fault 1) wallet transaction d of
                          (Inl err, d') \<Rightarrow>
                            if idempotencyKey \<noteq> [] \<and> errorsIs err WalletErrAlreadyExists then (Inr (), d')
                            else (Inl (wrap_error ''credit wallet'' err), d')
                        | (Inr _, d') \<Rightarrow> (Inr (), d'))))))))"

definition pgWalletDebit ::
  "faults \<Rightarrow> string \<Rightarrow> string \<Rightarrow> string \<Rightarrow> float64 \<Rightarrow> string \<Rightarrow> byte list \<Rightarrow> time \<Rightarrow> db \<Rightarrow> unit res \<times> db" where
  "pgWalletDebit fault merchantID userID currency amount0 txType0 random now d =
     (case validateWalletKey merchantID userID currency of
        Inl err \<Rightarrow> (Inl err, d)
      | Inr key \<Rightarrow> (case normalizeAmount amount0 of
          Inl err \<Rightarrow> (Inl err, d)
        | Inr amount \<Rightarrow> (case validateTransactionType txType0 False of
            Inl err \<Rightarrow> (Inl err, d)
          | Inr txType \<Rightarrow> (case fst (generateUUID random) of
              Inl err \<Rightarrow> (Inl (Wrapped ''generate transaction ID'' err), d)
            | Inr transactionID \<Rightarrow>
                let transaction = newTransaction transactionID (wk_Currency key) txType amount [] now
                in (case walletPgDebit fault key amount transaction d of
                      (Inl err, d') \<Rightarrow> (Inl (wrap_error ''debit wallet'' err), d')
                    | (Inr _, d') \<Rightarrow> (Inr (), d'))))))"

definition pgWalletLock :: "faults \<Rightarrow> string \<Rightarrow> string \<Rightarrow> string \<Rightarrow> float64 \<Rightarrow> db \<Rightarrow> unit res \<times> db" where
  "pgWalletLock fault merchantID userID currency amount0 d =
     (case validateWalletKey merchantID userID currency of
        Inl err \<Rightarrow> (Inl err, d)
      | Inr key \<Rightarrow> (case normalizeAmount amount0 of
          Inl err \<Rightarrow> (Inl err, d)
        | Inr amount \<Rightarrow> (case walletPgLock fault key amount d of
            (Inl err, d') \<Rightarrow> (Inl (wrap_error ''lock wallet balance'' err), d')
          | (Inr _, d') \<Rightarrow> (Inr (), d'))))"

definition pgWalletUnlock :: "faults \<Rightarrow> string \<Rightarrow> string \<Rightarrow> string \<Rightarrow> float64 \<Rightarrow> db \<Rightarrow> unit res \<times> db" where
  "pgWalletUnlock fault merchantID userID currency amount0 d =
     (case validateWalletKey merchantID userID currency of
        Inl err \<Rightarrow> (Inl err, d)
      | Inr key \<Rightarrow> (case normalizeAmount amount0 of
          Inl err \<Rightarrow> (Inl err, d)
        | Inr amount \<Rightarrow> (case walletPgUnlock fault key amount d of
            (Inl err, d') \<Rightarrow> (Inl (wrap_error ''unlock wallet balance'' err), d')
          | (Inr _, d') \<Rightarrow> (Inr (), d'))))"

section \<open>Markets\<close>

definition pgMarketCreate ::
  "(nat \<Rightarrow> faults) \<Rightarrow> marketCreateRequest option \<Rightarrow> byte list \<Rightarrow> time \<Rightarrow> db \<Rightarrow> db \<Rightarrow> market res \<times> db" where
  "pgMarketCreate fault req random now seen d =
     (case marketValidateCreateRequest req of
        Inl err \<Rightarrow> (Inl err, d)
      | Inr input \<Rightarrow> (case marketPgValidateReferences (fault 0) (mq_MerchantID input) (mq_EventID input) seen of
          Inl err \<Rightarrow> (Inl (Wrapped ''validate market references'' err), d)
        | Inr _ \<Rightarrow> (case fst (generateUUID random) of
            Inl err \<Rightarrow> (Inl (Wrapped ''generate market ID'' err), d)
          | Inr marketID \<Rightarrow>
              let v = \<lparr>m_ID = marketID, m_MerchantID = mq_MerchantID input, m_EventID = mq_EventID input,
                       m_Type = mq_Type input, m_Question = mq_Question input, m_Options = mq_Options input,
                       m_Status = ''active'', m_TotalVolume = Fin 0, m_LiquidityPool = mq_LiquidityPool input,
                       m_MerchantFeeRate = Fin 0, m_PlatformFeeRate = Fin 0, m_CreatedAt = now,
                       m_SettledAt = None\<rparr>
              in (case marketPgCreate (fault 1) v d of
                    (Inl err, d') \<Rightarrow> (Inl (Wrapped ''create market'' err), d')
                  | (Inr _, d') \<Rightarrow> (Inr v, d')))))"

definition pgMarketUpdateStatus :: "(nat \<Rightarrow> faults) \<Rightarrow> string \<Rightarrow> string \<Rightarrow> db \<Rightarrow> db \<Rightarrow> unit res \<times> db" where
  "pgMarketUpdateStatus fault marketID0 status0 seen d =
     (case validateMarketID marketID0 of
        Inl err \<Rightarrow> (Inl err, d)
      | Inr marketID \<Rightarrow>
          let status = toLower (trimSpace status0) in
          if status = ''settled'' \<or> \<not> marketValidStatus status
          then (Inl (Validation ''status'' ''is not supported''), d)
          else (case marketPgGetByID (fault 0) marketID seen of
              Inl err \<Rightarrow> (Inl (Wrapped ''get market for status update'' err), d)
            | Inr v \<Rightarrow>
                if \<not> canTransition (m_Status v) status
                then (Inl (Wrapped (m_Status v @ '' to '' @ status) (Sentinel MarketErrInvalidTransition)), d)
                else (case marketPgUpdateStatus (fault 1) marketID (m_Status v) status d of
                    (Inl err, d') \<Rightarrow> (Inl (Wrapped ''update market status'' err), d')
                  | (Inr _, d') \<Rightarrow> (Inr (), d'))))"

definition pgMarketAddLiquidity :: "(nat \<Rightarrow> faults) \<Rightarrow> string \<Rightarrow> float64 \<Rightarrow> db \<Rightarrow> db \<Rightarrow> unit res \<times> db" where
  "pgMarketAddLiquidity fault marketID0 amount seen d =
     (case validateMarketID marketID0 of
        Inl err \<Rightarrow> (Inl err, d)
      | Inr marketID \<Rightarrow> (case validateMoney ''amount'' amount False of
          Inl err \<Rightarrow> (Inl err, d)
        | Inr _ \<Rightarrow> (case marketPgGetByID (fault 0) marketID seen of
            Inl err \<Rightarrow> (Inl (Wrapped ''get market for liquidity update'' err), d)
          | Inr v \<Rightarrow>
              if m_Status v \<noteq> ''active''
              then (Inl (Wrapped ''liquidity requires active status'' (Sentinel MarketErrInvalidTransition)), d)
              else (case marketPgAddLiquidity (fault 1) marketID (m_Status v) amount d of
                  (Inl err, d') \<Rightarrow> (Inl (Wrapped ''add market liquidity'' err), d')
                | (Inr _, d') \<Rightarrow> (Inr (), d')))))"

section \<open>Events\<close>

definition pgEventCreate :: "faults \<Rightarrow> eventCreateRequest option \<Rightarrow> byte list \<Rightarrow> time \<Rightarrow> db \<Rightarrow> event res \<times> db" where
  "pgEventCreate fault req random now d =
     (case eventValidateCreateRequest req of
        Inl err \<Rightarrow> (Inl err, d)
      | Inr (input, endTime, resolutionTime) \<Rightarrow> (case fst (generateUUID random) of
          Inl err \<Rightarrow> (Inl (Wrapped ''generate event ID'' err), d)
        | Inr eventID \<Rightarrow>
            let v = \<lparr>e_ID = eventID, e_SourceType = eq_SourceType input, e_SourceID = eq_SourceID input,
                  e_Title = eq_Title input, e_Description = eq_Description input,
                  e_Category = eq_Category input, e_EndTime = endTime, e_ResolutionTime = resolutionTime,
                  e_Status = ''pending'', e_Outcome = None, e_CreatedAt = now, e_UpdatedAt = now\<rparr>
            in (case eventPgCreate fault v d of
                  (Inl err, d') \<Rightarrow> (Inl (Wrapped ''create event'' err), d')
                | (Inr _, d') \<Rightarrow> (Inr v, d'))))"

definition pgEventSyncSource :: "faults \<Rightarrow> eventSyncRequest option \<Rightarrow> byte list \<Rightarrow> time \<Rightarrow> db \<Rightarrow> unit res \<times> db" where
  "pgEventSyncSource fault req random now d =
     (case validateSyncRequest req of
        Inl err \<Rightarrow> (Inl err, d)
      | Inr (input, endTime, resolutionTime) \<Rightarrow> (case fst (generateUUID random) of
          Inl err \<Rightarrow> (Inl (Wrapped ''generate synced event ID'' err), d)
        | Inr eventID \<Rightarrow>
            let v = \<lparr>e_ID = eventID, e_SourceType = ''polymarket'', e_SourceID = es_SourceID input,
                  e_Title = es_Title input, e_Description = es_Description input,
                  e_Category = es_Category input, e_EndTime = endTime, e_ResolutionTime = resolutionTime,
                  e_Status = es_Status input, e_Outcome = None, e_CreatedAt = now, e_UpdatedAt = now\<rparr>
            in (case eventPgUpsertSource fault v d of
                  (Inl err, d') \<Rightarrow> (Inl (wrap_error ''upsert synced event'' err), d')
                | (Inr _, d') \<Rightarrow> (Inr (), d'))))"

definition pgEventUpdateStatus :: "(nat \<Rightarrow> faults) \<Rightarrow> string \<Rightarrow> string \<Rightarrow> db \<Rightarrow> db \<Rightarrow> unit res \<times> db" where
  "pgEventUpdateStatus fault eventID0 status0 seen d =
     (let eventID = trimSpace eventID0; status = toLower (trimSpace status0) in
      if eventID = [] then (Inl (Validation ''event_id'' ''is required''), d)
      else if status = ''resolved'' \<or> \<not> eventValidStatus status
        then (Inl (Validation ''status'' ''is not supported''), d)
      else (case eventPgGetByID (fault 0) eventID seen of
          Inl err \<Rightarrow> (Inl (Wrapped ''get event for status update'' err), d)
        | Inr v \<Rightarrow>
            if \<not> eventCanTransition (e_Status v) status
            then (Inl (Wrapped (e_Status v @ '' to '' @ status) (Sentinel EventErrInvalidTransition)), d)
            else (case eventPgUpdateStatus (fault 1) eventID (e_Status v) status d of
                (Inl err, d') \<Rightarrow> (Inl (Wrapped ''update event status'' err), d')
              | (Inr _, d') \<Rightarrow> (Inr (), d'))))"

definition pg_event_resolve ::
  "(envelope \<Rightarrow> string) \<Rightarrow> (nat \<Rightarrow> faults) \<Rightarrow> string \<Rightarrow> string \<Rightarrow> string \<Rightarrow> time \<Rightarrow> db \<Rightarrow> db \<Rightarrow> unit res \<times> db" where
  "pg_event_resolve marshal fault eventID0 outcome0 resolutionSource now seen d =
     (let eventID = trimSpace eventID0; outcome = trimSpace outcome0 in
      if eventID = [] then (Inl (Validation ''event_id'' ''is required''), d)
      else if outcome = [] then (Inl (Validation ''outcome'' ''is required''), d)
      else (case eventPgGetByID (fault 0) eventID seen of
          Inl err \<Rightarrow> (Inl (Wrapped ''get event for resolution'' err), d)
        | Inr v \<Rightarrow>
            if e_Status v \<noteq> ''closed''
            then (Inl (Wrapped (e_Status v @ '' to resolved'') (Sentinel EventErrInvalidTransition)), d)
            else (case eventPgResolve marshal (fault 1) eventID (e_Status v) outcome resolutionSource now d of
                (Inl err, d') \<Rightarrow> (Inl (Wrapped ''resolve event'' err), d')
              | (Inr _, d') \<Rightarrow> (Inr (), d'))))"

definition pgEventResolve ::
  "(envelope \<Rightarrow> string) \<Rightarrow> (nat \<Rightarrow> faults) \<Rightarrow> string \<Rightarrow> string \<Rightarrow> time \<Rightarrow> db \<Rightarrow> db \<Rightarrow> unit res \<times> db" where
  "pgEventResolve marshal fault eventID outcome now seen d = pg_event_resolve marshal fault eventID outcome ''manual'' now seen d"

definition pgEventResolveSource ::
  "(envelope \<Rightarrow> string) \<Rightarrow> (nat \<Rightarrow> faults) \<Rightarrow> string \<Rightarrow> string \<Rightarrow> time \<Rightarrow> db \<Rightarrow> db \<Rightarrow> db \<Rightarrow> unit res \<times> db" where
  "pgEventResolveSource marshal fault sourceID0 outcome0 now found seen d =
     (let sourceID = trimSpace sourceID0; outcome = trimSpace outcome0 in
      if sourceID = [] then (Inl (Validation ''source_id'' ''is required''), d)
      else if outcome = [] then (Inl (Validation ''outcome'' ''is required''), d)
      else (case eventPgGetBySource (fault 0) ''polymarket'' sourceID found of
          Inl err \<Rightarrow> (Inl (wrap_error ''get event for source resolution'' err), d)
        | Inr v \<Rightarrow>
            if e_Status v = ''resolved'' then (Inr (), d)
            else pg_event_resolve marshal (\<lambda>n. fault (Suc n)) (e_ID v) outcome ''polymarket'' now seen d))"

end
