(* ===== verification/PgServicesProps.thy ===== *)
theory PgServicesProps
  imports PgServices ExchangeProps
begin

text \<open>
  The services on PostgreSQL act as the steps of \<open>Platform\<close>, so what holds of every run of the
  platform holds of every interleaving of service calls; and creating or cancelling an order there
  is all or nothing.
\<close>

section \<open>Calls\<close>

text \<open>
  Amounts in range: a request for shares is for at least one unit and less than \<open>shareCap\<close>, a
  request for money is for less than \<open>moneyCap\<close> cents. Requests that are not amounts at all are
  refused by the services.
\<close>

definition sound_amount :: "orderCreateRequest option \<Rightarrow> bool" where
  "sound_amount req \<longleftrightarrow> (case req of None \<Rightarrow> True
     | Some r \<Rightarrow> (case SharesFromFloat (oq_Amount r) of Inl _ \<Rightarrow> True | Inr n \<Rightarrow> 0 < n \<and> n < shareCap))"

definition cents_fit :: "float64 \<Rightarrow> bool" where
  "cents_fit amount \<longleftrightarrow> (case CentsFromFloat amount of Inl _ \<Rightarrow> True | Inr c \<Rightarrow> c < moneyCap)"

inductive service_step :: "db \<Rightarrow> db \<Rightarrow> bool" where
  order_create: "sound_amount req \<Longrightarrow> service_step d (snd (pgOrderCreate ofault now random req seen d))"
| order_cancel: "service_step d (snd (pgOrderCancel fault orderID d))"
| wallet_create: "service_step d (snd (pgWalletCreate faults merchantID userID currency random now seen d))"
| wallet_credit: "cents_fit amount \<Longrightarrow>
    service_step d (snd (pgWalletCredit faults merchantID userID currency amount txType key random now seen d))"
| wallet_debit: "cents_fit amount \<Longrightarrow>
    service_step d (snd (pgWalletDebit fault merchantID userID currency amount txType random now d))"
| wallet_lock: "cents_fit amount \<Longrightarrow> service_step d (snd (pgWalletLock fault merchantID userID currency amount d))"
| wallet_unlock: "cents_fit amount \<Longrightarrow> service_step d (snd (pgWalletUnlock fault merchantID userID currency amount d))"
| market_create: "service_step d (snd (pgMarketCreate faults mreq random now seen d))"
| market_status: "service_step d (snd (pgMarketUpdateStatus faults marketID st seen d))"
| market_liquidity: "service_step d (snd (pgMarketAddLiquidity faults marketID a seen d))"
| event_create: "service_step d (snd (pgEventCreate fault ereq random now d))"
| event_sync: "service_step d (snd (pgEventSyncSource fault sreq random now d))"
| event_status: "service_step d (snd (pgEventUpdateStatus faults eventID st seen d))"
| event_resolved: "service_step d (snd (pgEventResolve marshal faults eventID outcome now seen d))"
| event_source: "service_step d (snd (pgEventResolveSource marshal faults sourceID outcome now found seen d))"
| settle: "service_step d (snd (settleEvent fault eventID now d))"
| reconciliation: "service_step d (snd (reconcile fault busy d))"

section \<open>Calls are steps of the platform\<close>

lemma platform_stays: "platform_step d d"
  by (rule elsewhere) simp

lemma sound_order:
  assumes "sound_amount req" "orderValidateCreateRequest req = Inr input"
    "requiredCollateralCents (oq_Type input) (oq_Amount input) (oq_Price input) = Inr c"
  shows "placeable (orderFromRequest input i t) c" "c = coll (orderFromRequest input i t) (amt (orderFromRequest input i t))"
proof -
  let ?v = "orderFromRequest input i t"
  obtain r where r: "req = Some r" using assms(2) by (cases req) (simp_all add: orderValidateCreateRequest_def)
  then have "normalizeShares (oq_Amount r) = Inr (oq_Amount input)"
    using assms(2) by (auto simp: orderValidateCreateRequest_def bind_res_Inr_iff Let_def split: if_splits)
  then obtain n where n: "SharesFromFloat (oq_Amount r) = Inr n" "oq_Amount input = SharesToFloat n"
    by (auto simp: normalizeShares_def split: sum.splits)
  have nn: "0 < n" "n < shareCap" using assms(1) r n by (simp_all add: sound_amount_def)
  then have s: "shares (oq_Amount input) n" using n by (simp add: shares_def)
  note o = order_of_request [OF assms(2) s nn(1), of i t]
  have x: "exact ?v" "fil ?v = 0" using o(1) by (simp_all add: new_order_def)
  have "requiredCollateralCents (o_Type ?v) (SharesToFloat n) (o_Price ?v) = Inr c"
    using assms(3) n(2) by (simp add: orderFromRequest_def)
  then have c: "c = coll ?v n" using collateral_exact(1) [OF x(1) less_imp_le [OF nn(1)] nn(2)] by simp
  then show "c = coll ?v (amt ?v)" using o(2) by simp
  from c have "0 \<le> c" using coll_bounds [OF x(1) less_imp_le [OF nn(1)] nn(2)] by simp
  then show "placeable ?v c" using x by (simp add: placeable_def) (simp add: orderFromRequest_def)
qed

lemma snd_placeLocked: "snd (placeWithLockedCollateral fault v c d) = snd (orderPgPlaceCollateral fault v c True d)"
  by (simp add: placeWithLockedCollateral_def)

lemma snd_pgOrderPlace: "snd (pgOrderPlace fault input v c d) = snd (orderPgPlaceCollateral (fault AtPlace) v c True d)"
  unfolding pgOrderPlace_def snd_placeLocked [symmetric] by (auto split: sum.split prod.split option.split)

lemma order_create_step:
  assumes "sound_amount req"
  shows "platform_step d (snd (pgOrderCreate fault now random req seen d))"
proof -
  have "platform_step d (snd (pgOrderCreateNew fault now random input seen d))"
    if "orderValidateCreateRequest req = Inr input" for input
    using placed [OF sound_order(1) [OF assms that]] platform_stays
    by (auto simp: pgOrderCreateNew_def snd_pgOrderPlace split: sum.split)
  then show ?thesis using platform_stays by (auto simp: pgOrderCreate_def split: sum.split)
qed

lemma order_cancel_step: "platform_step d (snd (pgOrderCancel fault i d))"
proof -
  have "snd (cancelWithUnlock fault j d) = snd (orderPgCancelCollateral fault j True d)" for j
    by (simp add: cancelWithUnlock_def)
  then show ?thesis
    using cancelled platform_stays by (auto simp: pgOrderCancel_def snd_plain_result split: sum.split)
qed

lemma normal_cents:
  assumes "cents_fit amount0" "normalizeAmount amount0 = Inr amount"
  obtains c where "amount = CentsToFloat c" "0 \<le> c" "c < moneyCap"
proof -
  obtain c where c: "CentsFromFloat amount0 = Inr c" "amount = CentsToFloat c"
    using assms(2) by (auto simp: normalizeAmount_def split: sum.splits)
  moreover have "0 \<le> c" using CentsFromFloat_range [OF c(1)] by simp
  moreover have "c < moneyCap" using assms(1) c(1) by (simp add: cents_fit_def)
  ultimately show ?thesis using that by blast
qed

lemma wallet_create_step: "platform_step d (snd (pgWalletCreate fault m u cur random now seen d))"
  using platform_stays wallet_opened
  by (auto simp: pgWalletCreate_def Let_def snd_plain_result split: sum.split)

lemma wallet_credit_step:
  assumes "cents_fit amount0"
  shows "platform_step d (snd (pgWalletCredit fault m u cur amount0 ty key random now seen d))"
proof -
  have step: "platform_step d d'"
    if w: "walletPgCredit f v (newTransaction i cur ty' amount k now) d = (x, d')" and n: "normalizeAmount amount0 = Inr amount" and t: "validateTransactionType ty True = Inr ty'" for f v i cur ty' amount k x d'
  proof -
    obtain c where c: "amount = CentsToFloat c" "0 \<le> c" "c < moneyCap" by (rule normal_cents [OF assms n])
    have "ty' = ''credit'' \<or> ty' = ''win''" using t by (auto simp: validateTransactionType_def Let_def split: if_splits)
    then have "platform_step d (snd (walletPgCredit f v (newTransaction i cur ty' amount k now) d))"
      using c by (intro credited [where c = c]) (simp_all add: cents_tx_def newTransaction_def)
    then show ?thesis by (simp add: w)
  qed
  show ?thesis
    by (auto simp: pgWalletCredit_def Let_def intro: step platform_stays split: sum.split prod.split)
qed

lemma wallet_debit_step:
  assumes "cents_fit amount0"
  shows "platform_step d (snd (pgWalletDebit fault m u cur amount0 ty random now d))"
proof -
  have "platform_step d (snd (walletPgDebit fault k amount (newTransaction i cur ty' amount [] now) d))"
    if n: "normalizeAmount amount0 = Inr amount" and t: "validateTransactionType ty False = Inr ty'" for k i cur ty' amount
  proof -
    obtain c where c: "amount = CentsToFloat c" "0 \<le> c" "c < moneyCap" by (rule normal_cents [OF assms n])
    have "ty' = ''debit'' \<or> ty' = ''bet'' \<or> ty' = ''fee''"
      using t by (auto simp: validateTransactionType_def Let_def split: if_splits)
    then show ?thesis
      unfolding c(1) using c by (intro debited) (auto simp: cents_tx_def newTransaction_def)
  qed
  then show ?thesis
    using platform_stays by (auto simp: pgWalletDebit_def Let_def snd_plain_result split: sum.split)
qed

lemma wallet_lock_step:
  assumes "cents_fit amount0"
  shows "platform_step d (snd (pgWalletLock fault m u cur amount0 d))"
    "platform_step d (snd (pgWalletUnlock fault m u cur amount0 d))"
proof -
  have "platform_step d (snd (walletPgLock fault k amount d))" "platform_step d (snd (walletPgUnlock fault k amount d))"
    if "normalizeAmount amount0 = Inr amount" for k amount
    using normal_cents [OF assms that] locked unlocked by metis+
  then show "platform_step d (snd (pgWalletLock fault m u cur amount0 d))"
    "platform_step d (snd (pgWalletUnlock fault m u cur amount0 d))"
    using platform_stays by (auto simp: pgWalletLock_def pgWalletUnlock_def snd_plain_result split: sum.split)
qed

lemma market_steps:
  "platform_step d (snd (pgMarketCreate fault req random now seen d))"
  "platform_step d (snd (pgMarketUpdateStatus fault i st seen d))"
  "platform_step d (snd (pgMarketAddLiquidity fault i a seen d))"
  using platform_stays market_created market_moved liquidity_added
  by (auto simp: pgMarketCreate_def pgMarketUpdateStatus_def pgMarketAddLiquidity_def Let_def snd_plain_result split: sum.split)

lemma event_resolve_step: "platform_step d (snd (pg_event_resolve marshal fault i outcome src now seen d))"
  using platform_stays elsewhere [OF event_operations_core(4)]
  by (auto simp: pg_event_resolve_def Let_def snd_plain_result split: sum.split)

lemma event_steps:
  "platform_step d (snd (pgEventCreate f req random now d))"
  "platform_step d (snd (pgEventSyncSource f sreq random now d))"
  "platform_step d (snd (pgEventUpdateStatus fault i st seen d))"
  "platform_step d (snd (pgEventResolve marshal fault i outcome now seen d))"
  "platform_step d (snd (pgEventResolveSource marshal fault i outcome now found seen d))"
  using platform_stays elsewhere [OF event_operations_core(1)] elsewhere [OF event_operations_core(2)]
    elsewhere [OF event_operations_core(3)] event_resolve_step
  by (auto simp: pgEventCreate_def pgEventSyncSource_def pgEventUpdateStatus_def pgEventResolve_def pgEventResolveSource_def
      Let_def snd_plain_result split: sum.split prod.split)

lemma service_platform: "service_step d d' \<Longrightarrow> platform_step d d'"
proof (induction rule: service_step.induct)
  case (order_create req d ofault now random seen)
  then show ?case by (rule order_create_step)
next
  case (wallet_credit amount d faults merchantID userID currency txType key random now seen)
  then show ?case by (rule wallet_credit_step)
next
  case (wallet_debit amount d fault merchantID userID currency txType random now)
  then show ?case by (rule wallet_debit_step)
next
  case (wallet_lock amount d fault merchantID userID currency)
  then show ?case by (rule wallet_lock_step(1))
next
  case (wallet_unlock amount d fault merchantID userID currency)
  then show ?case by (rule wallet_lock_step(2))
qed (rule order_cancel_step wallet_create_step market_steps event_steps settled reconciled)+

lemma service_run_platform: "service_step\<^sup>*\<^sup>* d d' \<Longrightarrow> platform_run d d'"
proof (induction rule: rtranclp_induct)
  case (step y z)
  then show ?case using platform_run.step service_platform by blast
qed (rule platform_run.start)

section \<open>An order is placed whole or not at all\<close>

text \<open>The order that a retried request finds under its key.\<close>

definition replayed :: "orderCreateRequest \<Rightarrow> db \<Rightarrow> order \<Rightarrow> bool" where
  "replayed input d v \<longleftrightarrow> oq_IdempotencyKey input \<noteq> [] \<and> (\<exists>r \<in> set (db_orders d). or_merchant_id r = oq_MerchantID input
     \<and> or_idempotency_key r = Some (oq_IdempotencyKey input) \<and> scanOrderRow r = Inr v)"

lemma replayed_get:
  assumes "orderPgGetByIdempotency fault (oq_MerchantID input) (oq_IdempotencyKey input) d = Inr v" "oq_IdempotencyKey input \<noteq> []"
  shows "replayed input d v"
proof -
  obtain r where r: "find (\<lambda>r. or_merchant_id r = oq_MerchantID input \<and> or_idempotency_key r = Some (oq_IdempotencyKey input))
      (db_orders d) = Some r" "scanOrderRow r = Inr v"
    using assms(1) by (auto simp: orderPgGetByIdempotency_def scanOrder_def split: if_splits option.splits)
  then show ?thesis using find_SomeD [OF r(1)] assms(2) by (auto simp: replayed_def)
qed

lemma pgOrderPlace_cases:
  assumes "pgOrderPlace fault input v c d = (x, d')"
  shows "case x of Inl err \<Rightarrow> d' = d
    | Inr v' \<Rightarrow> d' = d \<and> replayed input d v' \<or> (\<exists>p. orderPgPlaceCollateral (fault AtPlace) v c True d = (Inr (p, v'), d'))"
proof -
  obtain y d1 where y: "orderPgPlaceCollateral (fault AtPlace) v c True d = (y, d1)" by fastforce
  then have p: "placeWithLockedCollateral (fault AtPlace) v c d = (map_sum id snd y, d1)" by (simp add: placeWithLockedCollateral_def)
  show ?thesis
  proof (cases y)
    case (Inl err)
    then have "d1 = d" using place_failed y by blast
    then show ?thesis
      using assms p Inl replayed_get
      by (auto simp: pgOrderPlace_def pgIdempotentExistingOrder_def split: if_splits option.splits sum.splits)
  next
    case (Inr z)
    then show ?thesis using assms p y by (cases z) (auto simp: pgOrderPlace_def)
  qed
qed

definition placed_whole :: "order \<Rightarrow> order \<Rightarrow> db \<Rightarrow> db \<Rightarrow> bool" where
  "placed_whole v v' d d' \<longleftrightarrow> v' = pg_order v (db_orders d)
     \<and> placed_effect v (coll v (amt v) - OrderPgInv.released v (db_orders d)) d d'
     \<and> (\<exists>m \<in> set (db_markets d). mr_id m = o_MarketID v \<and> mr_status m = ''active'' \<and> mr_merchant_id m = o_MerchantID v)
     \<and> (\<exists>w \<in> set (db_wallets d). ownWallet v w \<and> coll v (amt v) \<le> wl_balance w)"

lemma placed_whole:
  assumes "platform_ok d" "placeable v c" "c = coll v (amt v)" "orderPgPlaceCollateral fault v c True d = (Inr (p, v'), d')"
  shows "placed_whole v v' d d'"
proof -
  note ok = platform_okD [OF assms(1)]
  have v: "exact v" "fil v = 0" "0 \<le> c" using assms(2) by (simp_all add: placeable_def)
  note t = placeTx_Inr [OF placeTx_place [OF assms(4)] v(1,2) ok(4,2) v(3)]
  show ?thesis using t(2,3,5,6) assms(3) unfolding placed_whole_def by auto
qed

text \<open>
  C2: over PostgreSQL, in every state that calls of the services reach from empty tables, an order is created whole or not at all. A call that reports an error, at
  whichever statement, leaves every table as it was. A call that returns an order either found it
  stored under the request's key and changed nothing, or has placed it in an active market of the
  merchant: the order, its trades, the matched orders, the volume of the market and the wallet,
  from which the collateral was taken less what the placement gave back, changed together.
\<close>

theorem pg_order_create_atomic:
  assumes "empty_platform d0" "service_step\<^sup>*\<^sup>* d0 d" "sound_amount req"
  shows "case pgOrderCreate fault now random req seen d of
      (Inl err, d') \<Rightarrow> d' = d
    | (Inr v', d') \<Rightarrow> (\<exists>input. orderValidateCreateRequest req = Inr input
        \<and> (d' = d \<and> (replayed input seen v' \<or> replayed input d v')
           \<or> (\<exists>i. placed_whole (orderFromRequest input i now) v' d d')))"
proof -
  note ok = reached_ok [OF assms(1) service_run_platform [OF assms(2)]]
  obtain x d' where x: "pgOrderCreate fault now random req seen d = (x, d')" by fastforce
  show ?thesis
  proof (cases "orderValidateCreateRequest req")
    case (Inl err)
    then show ?thesis by (simp add: pgOrderCreate_def)
  next
    case (Inr input)
    have new: "case x of Inl err \<Rightarrow> d' = d
      | Inr v' \<Rightarrow> d' = d \<and> replayed input d v' \<or> (\<exists>i. placed_whole (orderFromRequest input i now) v' d d')"
      if n: "pgOrderCreateNew fault now random input seen d = (x, d')"
    proof -
      consider (early) err where "x = Inl err" "d' = d"
        | (place) i c where "requiredCollateralCents (oq_Type input) (oq_Amount input) (oq_Price input) = Inr c"
            "pgOrderPlace fault input (orderFromRequest input i now) c d = (x, d')"
        using n by (auto simp: pgOrderCreateNew_def split: sum.splits if_splits)
      then show ?thesis
      proof cases
        case (place i c)
        then show ?thesis
          using pgOrderPlace_cases [OF place(2)] placed_whole [OF ok sound_order [OF assms(3) Inr place(1)]]
          by (fastforce split: sum.splits)
      qed simp
    qed
    then show ?thesis
      using x Inr replayed_get by (auto simp: pgOrderCreate_def split: if_splits sum.splits)
  qed
qed

section \<open>A demonstration\<close>

text \<open>A merchant's market is open; alice is credited twenty dollars and bids for ten shares.\<close>

definition shop_open :: db where
  "shop_open = \<lparr>db_merchants = [(demo_merchant, ''active'')], db_events = [],
     db_markets = [\<lparr>mr_id = demo_market_id, mr_merchant_id = demo_merchant, mr_event_id = ''e1'', mr_type = ''binary'',
       mr_question = ''Won?'', mr_options = [''Yes'', ''No''], mr_status = ''active'', mr_total_volume = 0,
       mr_liquidity_pool = 0, mr_created_at = 1, mr_settled_at = None\<rparr>],
     db_orders = [], db_trades = [], db_wallets = [], db_transactions = [], db_settlements = [], db_payouts = [],
     db_audits = [], db_outbox = [], db_now = 9000, db_uuids = (\<lambda>n. replicate n CHR ''u''), db_uuid_next = 0\<rparr>"

definition shop_funded :: db where
  "shop_funded = snd (pgWalletCredit (\<lambda>_. all_fine) demo_merchant '' alice'' ''usd'' (Fin 20) ''credit'' ''pay-1''
     (replicate 16 2 @ replicate 16 3) 1000 shop_open shop_open)"

definition shop_bid_report :: "db \<Rightarrow> string \<times> int \<times> (string \<times> int \<times> int) list \<times> (string \<times> string option) list" where
  "shop_bid_report d = (case pgOrderCreate (\<lambda>_. all_fine) 2000 (replicate 16 1) (Some demo_bid) d d of (x, d') \<Rightarrow>
     (case x of Inl _ \<Rightarrow> [] | Inr v \<Rightarrow> o_Status v, int (length (db_orders d)), map purse_view (db_wallets d'),
      map (\<lambda>r. (or_id r, or_idempotency_key r)) (db_orders d')))"

lemma shop_bid_values: "shop_bid_report shop_funded = (''pending'', 0,
    [(''02020202-0202-4202-8202-020202020202'', 1500, 500)], [(''01010101-0101-4101-8101-010101010101'', Some ''order-1'')])"
  by code_simp

lemma shop_run: "empty_platform shop_open" "service_step\<^sup>*\<^sup>* shop_open shop_funded"
proof -
  show "empty_platform shop_open" by (simp add: empty_platform_def shop_open_def)
  have "cents_fit (Fin 20)" by code_simp
  then show "service_step\<^sup>*\<^sup>* shop_open shop_funded"
    unfolding shop_funded_def by (intro r_into_rtranclp wallet_credit)
qed

theorem pg_order_create_atomic_witness:
  "\<exists>v' d' i. pgOrderCreate (\<lambda>_. all_fine) 2000 (replicate 16 1) (Some demo_bid) shop_funded shop_funded = (Inr v', d')
    \<and> placed_whole (orderFromRequest demo_input i 2000) v' shop_funded d'"
proof -
  obtain x d' where x: "pgOrderCreate (\<lambda>_. all_fine) 2000 (replicate 16 1) (Some demo_bid) shop_funded shop_funded = (x, d')"
    by fastforce
  have e: "db_orders shop_funded = []" and "x \<noteq> Inl err" for err using shop_bid_values x by (auto simp: shop_bid_report_def)
  then obtain v' where v: "x = Inr v'" by (cases x) auto
  have no: "\<not> replayed input shop_funded v'" for input using e by (simp add: replayed_def)
  have "sound_amount (Some demo_bid)" by code_simp
  from pg_order_create_atomic [OF shop_run this, where fault = "\<lambda>_. all_fine" and now = 2000 and random = "replicate 16 1" and seen = shop_funded]
  show ?thesis using x v no demo_validated by auto
qed

text \<open>
  C1: the services run on the platform. Calls of the order, wallet, market, event, settlement and
  reconciliation services follow each other in any order, each reading tables of any earlier
  moment and with any statements refused; the orders are of more than zero and less than 16,384
  shares (\<open>sound_amount\<close>) and the amounts of the wallet calls below 134,217,728.00 (\<open>cents_fit\<close>), every
  other argument is arbitrary. What they do to the tables is a run of the platform, so what is
  proved of its runs holds of every sequence of such calls.
\<close>

theorem services_run_on_platform:
  assumes "service_step\<^sup>*\<^sup>* d d'"
  shows "platform_run d d'"
  by (rule service_run_platform [OF assms])

theorem services_run_on_platform_witness:
  "platform_run shop_open (snd (pgOrderCreate (\<lambda>_. all_fine) 2000 (replicate 16 1) (Some demo_bid) shop_funded shop_funded))"
proof -
  have "sound_amount (Some demo_bid)" by code_simp
  then have "service_step shop_funded (snd (pgOrderCreate (\<lambda>_. all_fine) 2000 (replicate 16 1) (Some demo_bid) shop_funded shop_funded))"
    by (rule order_create)
  then show ?thesis using services_run_on_platform [of shop_open] shop_run(2) by (meson rtranclp.rtrancl_into_rtrancl)
qed

end
