(* ===== verification/EventSyncProps.thy ===== *)
theory EventSyncProps
  imports EventSync PgServicesProps
begin

text \<open>
  The synchronization job over the tables: the event service of \<open>PgServices\<close> provides the interface
  \<open>event_sink\<close>, so what the job promises holds in production, and a run of the job is a run of the
  platform.
\<close>

section \<open>The event service as the sink\<close>

text \<open>The calls, each with its refused statements, its random bytes and its time.\<close>

definition tableSink ::
  "(envelope \<Rightarrow> string) \<Rightarrow> (nat \<Rightarrow> nat \<Rightarrow> faults) \<Rightarrow> (nat \<Rightarrow> byte list) \<Rightarrow> (nat \<Rightarrow> time) \<Rightarrow> db eventSink" where
  "tableSink marshal fault random now =
     \<lparr>sk_SyncSource = (\<lambda>n req d. pgEventSyncSource (fault n 0) req (random n) (now n) d),
      sk_ResolveSource = (\<lambda>n sourceID outcome d.
        pgEventResolveSource marshal (\<lambda>k. fault n (Suc k)) sourceID outcome (now n) d d d)\<rparr>"

lemma tableSink_simps [simp]:
  "sk_SyncSource (tableSink marshal fault random now) n req d = pgEventSyncSource (fault n 0) req (random n) (now n) d"
  "sk_ResolveSource (tableSink marshal fault random now) n i x d
    = pgEventResolveSource marshal (\<lambda>k. fault n (Suc k)) i x (now n) d d d"
  by (simp_all add: tableSink_def)

definition sourceEvent :: "db \<Rightarrow> string \<Rightarrow> event option" where
  "sourceEvent d i = find (\<lambda>e. e_SourceType e = ''polymarket'' \<and> e_SourceID e = i) (db_events d)"

text \<open>The column \<^verbatim>\<open>id\<close> is a UUID.\<close>

definition sources_ok :: "db \<Rightarrow> bool" where
  "sources_ok d \<longleftrightarrow> events_ok d \<and> list_all (\<lambda>e. isUUID (e_ID e)) (db_events d)"

lemma trimSpace_UUID:
  assumes "isUUID s"
  shows "trimSpace s = s"
proof (rule trimSpace_solid, rule ballI)
  fix c
  assume "c \<in> set s"
  from uuid_chars(2) [OF assms this] show "\<not> is_space c" by (auto simp: is_hex_def is_space_def)
qed

lemma find_updateWhere:
  "(\<And>e. q (f e) = q e) \<Longrightarrow> find q (updateWhere p f es) = map_option (\<lambda>e. if p e then f e else e) (find q es)"
  by (induction es) (auto simp: updateWhere_def)

lemma find_append: "find q (es @ fs) = (case find q es of None \<Rightarrow> find q fs | Some e \<Rightarrow> Some e)"
  by (induction es) auto

text \<open>A synchronization adds a fresh event, or updates one; a resolution resolves one, or changes nothing.\<close>

definition refreshed :: "event \<Rightarrow> event \<Rightarrow> bool" where
  "refreshed e e' \<longleftrightarrow> e_ID e' = e_ID e \<and> e_SourceType e' = e_SourceType e \<and> e_SourceID e' = e_SourceID e
     \<and> e_Outcome e' = e_Outcome e \<and> (e_Status e = ''resolved'' \<longrightarrow> e_Status e' = ''resolved'')"

lemma sync_cases:
  assumes "pgEventSyncSource fault req random now d = (x, d')"
  obtains (failed) err where "x = Inl err" "d' = d"
  | (added) v where "x = Inr ()" "req \<noteq> None" "e_SourceType v = ''polymarket''" "e_SourceID v = trimSpace (es_SourceID (the req))"
      "e_Outcome v = None" "isUUID (e_ID v)" "find (\<lambda>e. sameSource e v) (db_events d) = None"
      "find (\<lambda>e. e_ID e = e_ID v) (db_events d) = None" "d' = d\<lparr>db_events := db_events d @ [v]\<rparr>"
  | (updated) i f w where "x = Inr ()" "req \<noteq> None" "i = trimSpace (es_SourceID (the req))" "sourceEvent d i = Some w"
      "d' = d\<lparr>db_events := updateWhere (\<lambda>e. e_SourceType e = ''polymarket'' \<and> e_SourceID e = i) f (db_events d)\<rparr>"
      "\<And>e. refreshed e (f e)"
proof (cases "validateSyncRequest req")
  case (Inl err)
  then have "x = Inl err" "d' = d" using assms by (simp_all add: pgEventSyncSource_def)
  then show ?thesis by (rule failed)
next
  case (Inr y)
  then obtain input a b where y: "validateSyncRequest req = Inr (input, a, b)" by (metis prod_cases3)
  have rq: "req \<noteq> None" "es_SourceID input = trimSpace (es_SourceID (the req))"
    using y by (auto simp: validateSyncRequest_def eventValidateCreateRequest_def bind_res_Inr_iff Let_def
        split: option.splits if_splits sum.splits)
  show ?thesis
  proof (cases "fst (generateUUID random)")
    case (Inl err)
    then have "x = Inl (Wrapped ''generate synced event ID'' err)" "d' = d"
      using assms y by (simp_all add: pgEventSyncSource_def)
    then show ?thesis by (rule failed)
  next
    case (Inr i)
    have ui: "isUUID i" using generateUUID_valid [of random i "snd (generateUUID random)"] Inr by (metis prod.collapse)
    let ?v = "\<lparr>e_ID = i, e_SourceType = ''polymarket'', e_SourceID = es_SourceID input,
                  e_Title = es_Title input, e_Description = es_Description input,
                  e_Category = es_Category input, e_EndTime = a, e_ResolutionTime = b,
                  e_Status = es_Status input, e_Outcome = None, e_CreatedAt = now, e_UpdatedAt = now\<rparr>"
    obtain z d1 where z: "eventPgUpsertSource fault ?v d = (z, d1)" by fastforce
    have dd: "d' = d1" "x = (case z of Inl err \<Rightarrow> Inl (wrap_error ''upsert synced event'' err) | Inr _ \<Rightarrow> Inr ())"
      using assms y Inr z by (auto simp: pgEventSyncSource_def Let_def split: sum.splits)
    show ?thesis
    proof (cases "find (\<lambda>e. sameSource e ?v) (db_events d)")
      case None
      show ?thesis
      proof (cases "fault ''upsert event'' i \<or> \<not> uuidText i \<or> list_ex (\<lambda>e. e_ID e = i) (db_events d)")
        case True
        then have "z = Inl (Wrapped ''upsert source event'' dbError)" "d1 = d"
          using z None by (auto simp: eventPgUpsertSource_def split: if_splits)
        then show ?thesis using failed [OF _ trans [OF dd(1)]] dd(2) by simp
      next
        case False
        then have "z = Inr i" "d1 = d\<lparr>db_events := db_events d @ [stampEvent ?v]\<rparr>"
          using z None by (auto simp: eventPgUpsertSource_def)
        moreover have "find (\<lambda>e. e_ID e = i) (db_events d) = None"
          using False by (auto simp: list_ex_iff find_None_iff)
        moreover have "(\<lambda>e. sameSource e (stampEvent ?v)) = (\<lambda>e. sameSource e ?v)"
          by (simp add: sameSource_def stampEvent_def)
        ultimately show ?thesis
          using added [of "stampEvent ?v"] dd None rq ui by (simp add: stampEvent_def)
      qed
    next
      case (Some w)
      show ?thesis
      proof (cases "fault ''upsert event'' i \<or> \<not> uuidText i")
        case True
        then have "z = Inl (Wrapped ''upsert source event'' dbError)" "d1 = d"
          using z by (auto simp: eventPgUpsertSource_def)
        then show ?thesis using failed [OF _ trans [OF dd(1)]] dd(2) by simp
      next
        case False
        let ?f = "\<lambda>e. e\<lparr>e_Title := e_Title ?v, e_Description := e_Description ?v, e_Category := e_Category ?v,
                 e_EndTime := stamp (e_EndTime ?v), e_ResolutionTime := stamp (e_ResolutionTime ?v),
                 e_Status := (if e_Status e = ''closed'' \<or> e_Status e = ''resolved'' then e_Status e else e_Status ?v),
                 e_UpdatedAt := db_now d\<rparr>"
        have p: "(\<lambda>e. sameSource e ?v) = (\<lambda>e. e_SourceType e = ''polymarket'' \<and> e_SourceID e = trimSpace (es_SourceID (the req)))"
          using rq(2) by (simp add: sameSource_def)
        have "z = Inr (e_ID w)" "d1 = d\<lparr>db_events := updateWhere (\<lambda>e. sameSource e ?v) ?f (db_events d)\<rparr>"
          using z Some False by (simp_all add: eventPgUpsertSource_def)
        moreover have "refreshed e (?f e)" for e by (simp add: refreshed_def)
        ultimately show ?thesis
          using updated [OF _ rq(1) refl, of w ?f] dd Some unfolding p by (simp add: sourceEvent_def)
      qed
    qed
  qed
qed

definition resolve_row :: "string \<Rightarrow> time \<Rightarrow> event \<Rightarrow> event" where
  "resolve_row x t e = e\<lparr>e_Status := ''resolved'', e_Outcome := Some x, e_UpdatedAt := t\<rparr>"

lemma resolve_row_simps [simp]:
  "e_ID (resolve_row x t e) = e_ID e" "e_SourceType (resolve_row x t e) = e_SourceType e"
  "e_SourceID (resolve_row x t e) = e_SourceID e" "e_Status (resolve_row x t e) = ''resolved''"
  "e_Outcome (resolve_row x t e) = Some x"
  by (simp_all add: resolve_row_def)

lemma insertOutbox_events: "insertOutbox fault i p t d = (x, d') \<Longrightarrow> db_events d' = db_events d"
  by (auto simp: insertOutbox_def freshUUID_def split: if_splits)

lemma eventPgResolve_cases:
  assumes "eventPgResolve marshal fault i ''closed'' x src now d = (y, d')"
  obtains (failed) err where "y = Inl err" "d' = d"
  | (committed) "y = Inr ()" "db_events d' = updateWhere (\<lambda>e. e_ID e = i \<and> e_Status e = ''closed'') (resolve_row x (db_now d)) (db_events d)"
proof (cases y)
  case (Inl err)
  then have "d' = d" using inTx_Inl assms unfolding eventPgResolve_def by (metis fst_conv snd_conv)
  then show ?thesis using failed Inl by blast
next
  case (Inr u)
  then have "resolveTx marshal fault i ''closed'' x src now d = (Inr u, d')"
    using assms by (simp add: eventPgResolve_def inTx_Inr)
  then have "db_events d' = updateWhere (\<lambda>e. e_ID e = i \<and> e_Status e = ''closed'') (resolve_row x (db_now d)) (db_events d)"
    by (auto simp: resolveTx_def Let_def resolve_row_def [abs_def] split: if_splits sum.splits dest!: insertOutbox_events)
  then show ?thesis using committed Inr by simp
qed

lemma sourceEvent_ID: "sources_ok d \<Longrightarrow> sourceEvent d i = Some v \<Longrightarrow> trimSpace (e_ID v) = e_ID v"
  by (auto simp: sourceEvent_def sources_ok_def list_all_iff dest!: find_SomeD intro!: trimSpace_UUID)

lemma source_resolve_cases:
  assumes "pgEventResolveSource marshal fault i x now d d d = (y, d')" "sources_ok d"
  obtains (same) "db_events d' = db_events d"
      "y = Inr () \<Longrightarrow> \<exists>v. sourceEvent d (trimSpace i) = Some v \<and> e_Status v = ''resolved''"
  | (resolved) v where "y = Inr ()" "sourceEvent d (trimSpace i) = Some v" "e_Status v = ''closed''"
      "db_events d' = updateWhere (\<lambda>e. e_ID e = e_ID v \<and> e_Status e = ''closed'')
         (resolve_row (trimSpace x) (db_now d)) (db_events d)"
proof -
  have stay: thesis if "d' = d" "\<exists>err. y = Inl err" using that same by auto
  show thesis
  proof (cases "trimSpace i = [] \<or> trimSpace x = [] \<or> (\<exists>err. eventPgGetBySource (fault 0) ''polymarket'' (trimSpace i) d = Inl err)")
    case True
    then show ?thesis using stay assms(1) by (auto simp: pgEventResolveSource_def Let_def split: if_splits)
  next
    case False
    then obtain v where v: "eventPgGetBySource (fault 0) ''polymarket'' (trimSpace i) d = Inr v"
      by (cases "eventPgGetBySource (fault 0) ''polymarket'' (trimSpace i) d") auto
    then have sv: "sourceEvent d (trimSpace i) = Some v"
      by (auto simp: eventPgGetBySource_def scanEvent_def sourceEvent_def split: if_splits option.splits)
    show ?thesis
    proof (cases "e_Status v = ''resolved''")
      case True
      then have "d' = d" using assms(1) v False by (simp add: pgEventResolveSource_def Let_def)
      then show ?thesis using same sv True by simp
    next
      case nr: False
      then have r: "pg_event_resolve marshal (\<lambda>n. fault (Suc n)) (e_ID v) (trimSpace x) ''polymarket'' now d d = (y, d')"
        using assms(1) v False by (simp add: pgEventResolveSource_def Let_def)
      have vi: "v \<in> set (db_events d)" using find_SomeD [OF sv [unfolded sourceEvent_def]] by simp
      have fv: "find (\<lambda>e. e_ID e = e_ID v) (db_events d) = Some v"
        using assms(2) by (intro find_ID vi) (simp add: sources_ok_def)
      note tr = sourceEvent_ID [OF assms(2) sv]
      show ?thesis
      proof (cases "e_ID v = [] \<or> fault (Suc 0) ''select event'' (e_ID v) \<or> \<not> uuidText (e_ID v) \<or> e_Status v \<noteq> ''closed''")
        case True
        then show ?thesis using stay r fv tr False
          by (auto simp: pg_event_resolve_def Let_def eventPgGetByID_def scanEvent_def split: if_splits)
      next
        case ok: False
        obtain z d1 where z: "eventPgResolve marshal (fault (Suc 1)) (e_ID v) ''closed'' (trimSpace x) ''polymarket'' now d = (z, d1)"
          by fastforce
        then have zd: "d' = d1" "y = (case z of Inl err \<Rightarrow> Inl (Wrapped ''resolve event'' err) | Inr _ \<Rightarrow> Inr ())"
          using r fv tr False ok
          by (auto simp: pg_event_resolve_def Let_def eventPgGetByID_def scanEvent_def split: sum.splits)
        from z show ?thesis
        proof (cases rule: eventPgResolve_cases)
          case failed
          then show ?thesis using stay zd by simp
        next
          case committed
          then show ?thesis using resolved [OF _ sv] zd ok by simp
        qed
      qed
    qed
  qed
qed

section \<open>The interface holds\<close>

lemma sync_law:
  assumes "sources_ok d" "pgEventSyncSource fault req random now d = (x, d')"
  shows "sources_ok d'"
    and "sourceEvent d j = Some v \<Longrightarrow> \<exists>v'. sourceEvent d' j = Some v' \<and> stays_resolved v v'"
    and "sourceEvent d' j = Some v' \<Longrightarrow> e_Outcome v' = Some y \<Longrightarrow> \<exists>v. sourceEvent d j = Some v \<and> e_Outcome v = Some y"
    and "x = Inr () \<Longrightarrow> sourceEvent d' (trimSpace (es_SourceID (the req))) \<noteq> None"
proof -
  from assms(2) have "sources_ok d' \<and> (sourceEvent d j = Some v \<longrightarrow> (\<exists>v'. sourceEvent d' j = Some v' \<and> stays_resolved v v'))
    \<and> (sourceEvent d' j = Some v' \<longrightarrow> e_Outcome v' = Some y \<longrightarrow> (\<exists>v. sourceEvent d j = Some v \<and> e_Outcome v = Some y))
    \<and> (x = Inr () \<longrightarrow> sourceEvent d' (trimSpace (es_SourceID (the req))) \<noteq> None)"
  proof (cases rule: sync_cases)
    case (added w)
    have ok: "events_ok d'"
      using assms(1) store_append(2) [OF _ added(8,7)] added(3,9) by (simp add: sources_ok_def plain_type_def)
    have new: "sourceEvent d' i = (case sourceEvent d i of None \<Rightarrow> if e_SourceID w = i then Some w else None | Some u \<Rightarrow> Some u)" for i
      using added(3,9) by (simp add: sourceEvent_def find_append split: option.split)
    show ?thesis
      using ok assms(1) added(4-6,9) new by (auto simp: sources_ok_def split: option.splits if_splits)
  next
    case (updated i f w)
    have f: "e_ID (f e) = e_ID e \<and> e_SourceType (f e) = e_SourceType e \<and> e_SourceID (f e) = e_SourceID e" for e
      using updated(6) by (simp add: refreshed_def)
    have ok: "sources_ok d'"
      using events_ok_update(1) [OF _ f, of d] assms(1) updated(5) f
      by (auto simp: sources_ok_def updateWhere_def list_all_iff)
    have new: "sourceEvent d' k = map_option (\<lambda>e. if e_SourceType e = ''polymarket'' \<and> e_SourceID e = i then f e else e) (sourceEvent d k)" for k
      using f by (simp add: sourceEvent_def updated(5) find_updateWhere)
    show ?thesis
      using ok updated(3,4,6) new by (auto simp: refreshed_def stays_resolved_def)
  qed (use assms(1) in auto)
  then show "sources_ok d'"
    and "sourceEvent d j = Some v \<Longrightarrow> \<exists>v'. sourceEvent d' j = Some v' \<and> stays_resolved v v'"
    and "sourceEvent d' j = Some v' \<Longrightarrow> e_Outcome v' = Some y \<Longrightarrow> \<exists>v. sourceEvent d j = Some v \<and> e_Outcome v = Some y"
    and "x = Inr () \<Longrightarrow> sourceEvent d' (trimSpace (es_SourceID (the req))) \<noteq> None"
    by blast+
qed

lemma resolve_law:
  assumes "sources_ok d" "pgEventResolveSource marshal fault i x now d d d = (r, d')"
  shows "sources_ok d'"
    and "sourceEvent d j = Some v \<Longrightarrow> \<exists>v'. sourceEvent d' j = Some v' \<and> stays_resolved v v'"
    and "sourceEvent d' j = Some v' \<Longrightarrow> e_Outcome v' = Some y
      \<Longrightarrow> (\<exists>v. sourceEvent d j = Some v \<and> e_Outcome v = Some y) \<or> (j = trimSpace i \<and> y = trimSpace x)"
    and "r = Inr () \<Longrightarrow> \<exists>v. sourceEvent d' (trimSpace i) = Some v \<and> e_Status v = ''resolved''"
proof -
  from assms(2,1) have "sources_ok d' \<and> (sourceEvent d j = Some v \<longrightarrow> (\<exists>v'. sourceEvent d' j = Some v' \<and> stays_resolved v v'))
    \<and> (sourceEvent d' j = Some v' \<longrightarrow> e_Outcome v' = Some y \<longrightarrow>
        (\<exists>v. sourceEvent d j = Some v \<and> e_Outcome v = Some y) \<or> (j = trimSpace i \<and> y = trimSpace x))
    \<and> (r = Inr () \<longrightarrow> (\<exists>v. sourceEvent d' (trimSpace i) = Some v \<and> e_Status v = ''resolved''))"
  proof (cases rule: source_resolve_cases)
    case same
    have "sources_ok d' = sources_ok d" "sourceEvent d' = sourceEvent d"
      using same(1) by (simp_all add: sources_ok_def events_ok_def sourceEvent_def fun_eq_iff)
    then show ?thesis using assms(1) same(2) by auto
  next
    case (resolved w)
    let ?p = "\<lambda>e. e_ID e = e_ID w \<and> e_Status e = ''closed''" and ?f = "resolve_row (trimSpace x) (db_now d)"
    have "events_ok (d\<lparr>db_events := updateWhere ?p ?f (db_events d)\<rparr>)"
      by (rule events_ok_update(1)) (use assms(1) in \<open>simp_all add: sources_ok_def\<close>)
    then have ok: "sources_ok d'"
      using assms(1) by (auto simp: sources_ok_def events_ok_def resolved(4) updateWhere_def list_all_iff)
    have new: "sourceEvent d' k = map_option (\<lambda>e. if ?p e then ?f e else e) (sourceEvent d k)" for k
      by (simp add: sourceEvent_def resolved(4) find_updateWhere)
    have only: "j = trimSpace i" if "sourceEvent d j = Some u" "e_ID u = e_ID w" for u
    proof -
      have "u \<in> set (db_events d)" "w \<in> set (db_events d)" "e_SourceID u = j" "e_SourceID w = trimSpace i"
        using find_SomeD [OF that(1) [unfolded sourceEvent_def]] find_SomeD [OF resolved(2) [unfolded sourceEvent_def]] by simp_all
      moreover have "u = w"
        using calculation(1,2) that(2) assms(1) by (auto simp: sources_ok_def events_ok_def distinct_map dest: inj_onD)
      ultimately show ?thesis by simp
    qed
    have keep: "\<exists>v'. sourceEvent d' j = Some v' \<and> stays_resolved v v'" if "sourceEvent d j = Some v"
      using that new [of j] by (auto simp: stays_resolved_def)
    have out: "(\<exists>v. sourceEvent d j = Some v \<and> e_Outcome v = Some y) \<or> (j = trimSpace i \<and> y = trimSpace x)"
      if v': "sourceEvent d' j = Some v'" "e_Outcome v' = Some y"
    proof -
      obtain u where u: "sourceEvent d j = Some u" "v' = (if ?p u then ?f u else u)" using v'(1) new [of j] by auto
      then show ?thesis using only [OF u(1)] v'(2) by (cases "?p u") auto
    qed
    show ?thesis using ok keep out new [of "trimSpace i"] resolved(2,3) by auto
  qed
  then show "sources_ok d'"
    and "sourceEvent d j = Some v \<Longrightarrow> \<exists>v'. sourceEvent d' j = Some v' \<and> stays_resolved v v'"
    and "sourceEvent d' j = Some v' \<Longrightarrow> e_Outcome v' = Some y
      \<Longrightarrow> (\<exists>v. sourceEvent d j = Some v \<and> e_Outcome v = Some y) \<or> (j = trimSpace i \<and> y = trimSpace x)"
    and "r = Inr () \<Longrightarrow> \<exists>v. sourceEvent d' (trimSpace i) = Some v \<and> e_Status v = ''resolved''"
    by blast+
qed

interpretation tables: event_sink "tableSink marshal fault random now" sourceEvent sources_ok
  for marshal fault random now
proof
  fix s n req
  note sl = sync_law [of s "fault n 0" req "random n" "now n", OF _ surjective_pairing]
  show "sources_ok s \<Longrightarrow> sources_ok (snd (sk_SyncSource (tableSink marshal fault random now) n req s))"
    using sl(1) by simp
  show "\<exists>v'. sourceEvent (snd (sk_SyncSource (tableSink marshal fault random now) n req s)) j = Some v' \<and> stays_resolved v v'"
    if "sources_ok s" "sourceEvent s j = Some v" for j v
    using sl(2) [OF that] by simp
  show "\<exists>v. sourceEvent s j = Some v \<and> e_Outcome v = Some y"
    if "sources_ok s" "sourceEvent (snd (sk_SyncSource (tableSink marshal fault random now) n req s)) j = Some v'"
      "e_Outcome v' = Some y" for j v' y
    using sl(3) [OF that(1) _ that(3)] that(2) by simp
next
  fix s n i x
  note rl = resolve_law [of s marshal "\<lambda>k. fault n (Suc k)" i x "now n", OF _ surjective_pairing]
  show "sources_ok s \<Longrightarrow> sources_ok (snd (sk_ResolveSource (tableSink marshal fault random now) n i x s))"
    using rl(1) by simp
  show "\<exists>v'. sourceEvent (snd (sk_ResolveSource (tableSink marshal fault random now) n i x s)) j = Some v' \<and> stays_resolved v v'"
    if "sources_ok s" "sourceEvent s j = Some v" for j v
    using rl(2) [OF that] by simp
  show "(\<exists>v. sourceEvent s j = Some v \<and> e_Outcome v = Some y) \<or> (j = trimSpace i \<and> y = trimSpace x)"
    if "sources_ok s" "sourceEvent (snd (sk_ResolveSource (tableSink marshal fault random now) n i x s)) j = Some v'"
      "e_Outcome v' = Some y" for j v' y
    using rl(3) [OF that(1) _ that(3)] that(2) by simp
next
  fix s n req s'
  show "sourceEvent s' (trimSpace (es_SourceID req)) \<noteq> None"
    if "sources_ok s" "sk_SyncSource (tableSink marshal fault random now) n (Some req) s = (Inr (), s')"
    using sync_law(4) [OF that(1), of "fault n 0" "Some req" "random n" "now n" "Inr ()" s'] that(2) by simp
next
  fix s n i x s'
  show "\<exists>v. sourceEvent s' (trimSpace i) = Some v \<and> e_Status v = ''resolved''"
    if "sources_ok s" "sk_ResolveSource (tableSink marshal fault random now) n i x s = (Inr (), s')"
    using resolve_law(4) [OF that(1), of marshal "\<lambda>k. fault n (Suc k)" i x "now n" "Inr ()" s'] that(2) by simp
qed

section \<open>Properties\<close>

lemma sink_step_platform:
  "sink_step (tableSink marshal fault random now) C d d' \<Longrightarrow> platform_step d d'"
  by (erule sink_stepE) (simp_all add: service_platform service_step.intros)

lemma sync_platform_run:
  assumes "syncRun (tableSink marshal fault random now) over source d = (x, r, d')"
  shows "platform_run d d'"
  using syncRun_steps [OF assms]
  by (induction rule: rtranclp_induct) (auto intro: platform_run.intros sink_step_platform)

text \<open>
  C3: the job resolves an event only by the source's word. Whatever a run meets (errors of the
  source, refused statements, a context that ends), an event that has an outcome after the run had
  it before, or was read in the listing of closed events with markets that settled for exactly
  this outcome, none for another one; an outcome that stood before the run stands after it; and
  every run is a run of the platform.
\<close>

theorem sync_resolves_by_source:
  assumes "sources_ok d" "syncRun (tableSink marshal fault random now) over source d = (x, r, d')"
  shows "(sourceEvent d' i = Some v' \<longrightarrow> e_Outcome v' = Some y \<longrightarrow>
      (\<exists>v. sourceEvent d i = Some v \<and> e_Outcome v = Some y)
      \<or> (\<exists>e \<in> listed source True. trimSpace (pe_ID e) = i
          \<and> (\<exists>m \<in> set (pe_Markets e). resolvedMarketOutcome m = Some y)
          \<and> (\<forall>m \<in> set (pe_Markets e). resolvedMarketOutcome m \<in> {None, Some y})))
    \<and> (sourceEvent d i = Some v \<longrightarrow> e_Status v = ''resolved'' \<longrightarrow>
        (\<exists>v'. sourceEvent d' i = Some v' \<and> e_Status v' = ''resolved'' \<and> e_Outcome v' = e_Outcome v))
    \<and> sources_ok d' \<and> platform_run d d'"
proof -
  note st = syncRun_steps [OF assms(2)]
  have "(\<exists>v. sourceEvent d i = Some v \<and> e_Outcome v = Some y)
      \<or> (\<exists>e \<in> listed source True. trimSpace (pe_ID e) = i \<and> resolvedOutcome e = Some y)"
    if "sourceEvent d' i = Some v'" "e_Outcome v' = Some y"
    by (rule tables.steps_outcome [OF st assms(1) that])
  moreover have "\<exists>v'. sourceEvent d' i = Some v' \<and> stays_resolved v v'" if "sourceEvent d i = Some v"
    by (rule tables.steps_keep [OF st assms(1) that])
  ultimately show ?thesis
    using tables.steps_inv [OF st assms(1)] sync_platform_run [OF assms(2)]
    by (simp only: resolvedOutcome_iff stays_resolved_def) blast
qed

text \<open>
  C32: a run that reports success has read every page up to the first short one (at most two) of
  both listings, holds a row for every event in them that has an identifier, a title and an end,
  and has resolved every closed one whose settled markets agree; its counters add up.
\<close>

theorem sync_complete:
  assumes "sources_ok d" "syncRun (tableSink marshal fault random now) over source d = (Inr (), r, d')"
    and "reads source b page"
  shows "\<exists>es. source b page = Inr es
      \<and> (\<forall>e \<in> set es. normalizeSourceEvent e \<noteq> None \<longrightarrow>
          (\<exists>v. sourceEvent d' (trimSpace (pe_ID e)) = Some v
            \<and> (b \<and> resolvedOutcome e \<noteq> None \<longrightarrow> e_Status v = ''resolved'')))
      \<and> sy_Fetched r = sy_Synced r + sy_Skipped r \<and> sy_Resolved r \<le> sy_Synced r"
  using tables.syncRun_done [OF assms(2,1,3)] syncRun_tally [OF assms(2)]
  by (simp add: tables.imported_def)

section \<open>Examples\<close>

definition demo_pm :: "string \<Rightarrow> pmMarket list \<Rightarrow> pmEvent" where
  "demo_pm i ms = \<lparr>pe_ID = i, pe_Title = ''Who wins?'', pe_Description = [], pe_Category = '' Politics'',
     pe_StartTime = zero_time, pe_EndDate = 1767225600500000000, pe_GameID = 0, pe_Active = True, pe_Closed = True,
     pe_Markets = ms, pe_Tags = [], pe_Teams = []\<rparr>"

definition demo_binary :: "float64 \<Rightarrow> float64 \<Rightarrow> pmMarket" where
  "demo_binary p q = \<lparr>pm_Outcomes = [''Yes'', '' No ''], pm_OutcomePrices = [p, q]\<rparr>"

text \<open>One market settled for No, one still trading.\<close>

definition demo_half_settled :: pmEvent where
  "demo_half_settled = demo_pm '' 7 '' [demo_binary (Fin 0) (Fin 1), demo_binary (Fin (3 / 5)) (Fin (2 / 5))]"

definition demo_listing :: "bool \<Rightarrow> nat \<Rightarrow> pmEvent list res" where
  "demo_listing b page = (if b then Inr [demo_half_settled, demo_pm [] []] else Inr [])"

definition demo_sink :: "db eventSink" where
  "demo_sink = tableSink (\<lambda>_. ''{}'') (\<lambda>_ _. all_fine) (\<lambda>n. replicate 16 (word_of_nat n)) (\<lambda>n. 1000 * int n)"

definition demo_no_rows :: db where
  "demo_no_rows = \<lparr>db_merchants = [], db_events = [], db_markets = [], db_orders = [], db_trades = [], db_wallets = [],
     db_transactions = [], db_settlements = [], db_payouts = [], db_audits = [], db_outbox = [], db_now = 0,
     db_uuids = (\<lambda>n. replicate n CHR ''u''), db_uuid_next = 0\<rparr>"

definition demo_sync :: "unit res \<times> syncResult \<times> db" where
  "demo_sync = syncRun demo_sink (\<lambda>_ _. False) demo_listing demo_no_rows"

definition demo_sync_report :: "bool \<times> int list \<times> (string \<times> string \<times> string option) list" where
  "demo_sync_report = (case demo_sync of (x, r, d') \<Rightarrow>
     (x = Inr (), [sy_Fetched r, sy_Synced r, sy_Resolved r, sy_Skipped r],
      map (\<lambda>e. (e_SourceID e, e_Status e, e_Outcome e)) (db_events d')))"

text \<open>A market of the source that is settled for an outcome: two outcomes, one at price 1, one at 0.\<close>

definition settled_for :: "string \<Rightarrow> pmMarket \<Rightarrow> bool" where
  "settled_for x m \<longleftrightarrow> x \<noteq> [] \<and> (case (pm_Outcomes m, pm_OutcomePrices m) of
      ([a, b], [p, q]) \<Rightarrow> p = Fin 1 \<and> q = Fin 0 \<and> x = trimSpace a \<or> p = Fin 0 \<and> q = Fin 1 \<and> x = trimSpace b
    | _ \<Rightarrow> False)"

lemma settled_for_iff: "settled_for x m \<longleftrightarrow> resolvedMarketOutcome m = Some x"
proof (cases "length (pm_Outcomes m) = 2 \<and> length (pm_OutcomePrices m) = 2")
  case True
  then obtain a b p q where "pm_Outcomes m = [a, b]" "pm_OutcomePrices m = [p, q]" by (auto simp: list_of_two)
  then show ?thesis unfolding resolvedMarketOutcome_iff settled_for_def by auto
next
  case False
  then show ?thesis by (auto simp: settled_for_def resolvedMarketOutcome_def split: list.split)
qed

text \<open>
  C4: which outcome a source event has. \<^verbatim>\<open>resolvedOutcome\<close> answers an outcome exactly when some market of
  the event is settled for it and none is settled for another one. Markets that are not settled do
  not count: an event with one market settled for No and another still trading has the outcome No.
\<close>

theorem resolved_outcome_exact:
  "resolvedOutcome e = Some x \<longleftrightarrow> (\<exists>m \<in> set (pe_Markets e). settled_for x m)
    \<and> (\<forall>m \<in> set (pe_Markets e). \<forall>y. settled_for y m \<longrightarrow> y = x)"
proof -
  have "resolvedMarketOutcome m \<in> {None, Some x} \<longleftrightarrow> (\<forall>y. settled_for y m \<longrightarrow> y = x)" for m
    by (cases "resolvedMarketOutcome m") (simp_all add: settled_for_iff)
  then show ?thesis unfolding resolvedOutcome_iff by (simp only: settled_for_iff)
qed

theorem resolved_outcome_exact_witness:
  "resolvedOutcome demo_half_settled = Some ''No'' \<and> resolvedMarketOutcome (pe_Markets demo_half_settled ! 1) = None"
proof -
  let ?a = "demo_binary (Fin 0) (Fin 1)" and ?b = "demo_binary (Fin (3 / 5)) (Fin (2 / 5))"
  have m: "resolvedMarketOutcome ?a = Some ''No''" "resolvedMarketOutcome ?b = None" by code_simp+
  have "pe_Markets demo_half_settled = [?a, ?b]" by (simp add: demo_half_settled_def demo_pm_def)
  then show ?thesis using resolved_outcome_exact [of demo_half_settled "''No''"] m by (simp add: settled_for_iff)
qed

theorem sync_resolves_by_source_witness:
  "sources_ok demo_no_rows \<and> (case demo_sync of (x, r, d') \<Rightarrow>
     sourceEvent d' ''7'' \<noteq> None \<and> sources_ok d' \<and> platform_run demo_no_rows d'
     \<and> (\<exists>e \<in> listed demo_listing True. trimSpace (pe_ID e) = ''7'' \<and> (\<exists>m \<in> set (pe_Markets e). resolvedMarketOutcome m = Some ''No'')))"
proof -
  have ok: "sources_ok demo_no_rows" by (simp add: sources_ok_def events_ok_def demo_no_rows_def)
  obtain x r d' where run: "demo_sync = (x, r, d')" by (metis prod_cases3)
  have "map (\<lambda>e. (e_SourceID e, e_SourceType e, e_Outcome e)) (db_events (snd (snd demo_sync))) = [(''7'', ''polymarket'', Some ''No'')]"
    by code_simp
  then have "map (\<lambda>e. (e_SourceID e, e_SourceType e, e_Outcome e)) (db_events d') = [(''7'', ''polymarket'', Some ''No'')]"
    by (simp add: run)
  then obtain v' where v': "sourceEvent d' ''7'' = Some v'" "e_Outcome v' = Some ''No''"
    by (auto simp: sourceEvent_def map_eq_Cons_conv)
  have none: "sourceEvent demo_no_rows ''7'' = None" by (simp add: sourceEvent_def demo_no_rows_def)
  note t = sync_resolves_by_source [OF ok run [unfolded demo_sync_def demo_sink_def], of "''7''" v' "''No''"]
  from t v' none ok show ?thesis unfolding run by auto
qed

theorem sync_complete_witness:
  "sources_ok demo_no_rows \<and> (case demo_sync of (x, r, d') \<Rightarrow> x = Inr ()
     \<and> (\<exists>v. sourceEvent d' ''7'' = Some v \<and> e_Status v = ''resolved''))"
proof -
  have ok: "sources_ok demo_no_rows" by (simp add: sources_ok_def events_ok_def demo_no_rows_def)
  obtain x r d' where run: "demo_sync = (x, r, d')" by (metis prod_cases3)
  have "fst demo_sync_report" by code_simp
  then have x: "x = Inr ()" by (simp add: demo_sync_report_def run)
  have rd: "reads demo_listing True 0" by (simp add: reads_def maxSyncPages_def)
  have n: "normalizeSourceEvent demo_half_settled \<noteq> None" "resolvedOutcome demo_half_settled \<noteq> None"
    "trimSpace (pe_ID demo_half_settled) = ''7''" by code_simp+
  obtain es where es: "demo_listing True 0 = Inr es"
    "\<forall>e \<in> set es. normalizeSourceEvent e \<noteq> None \<longrightarrow> (\<exists>v. sourceEvent d' (trimSpace (pe_ID e)) = Some v
      \<and> (True \<and> resolvedOutcome e \<noteq> None \<longrightarrow> e_Status v = ''resolved''))"
    using sync_complete [OF ok run [unfolded demo_sync_def demo_sink_def x] rd] by blast
  have "demo_half_settled \<in> set es" using es(1) by (auto simp: demo_listing_def)
  from bspec [OF es(2) this] have "\<exists>v. sourceEvent d' ''7'' = Some v \<and> e_Status v = ''resolved''"
    using n by simp
  then show ?thesis using ok by (simp add: run x)
qed

end
