(* ===== verification/Merchant.thy ===== *)
theory Merchant
  imports DomainTypes Base64
begin

text \<open>
  \<^verbatim>\<open>internal/merchant\<close> and \<^verbatim>\<open>internal/auth\<close>: merchants, their API keys and the middleware that
  admits requests. What the code takes from outside the repository is a parameter: bcrypt
  (\<open>hashKey\<close>, with its salt, and \<open>compareKey\<close>), the digest of the secret, the time zones the
  system knows, and the address parser of \<^verbatim>\<open>net/mail\<close>.
\<close>

section \<open>Data\<close>

record merchant =
  mc_ID :: string
  mc_Name :: string
  mc_Email :: string
  mc_APIKey :: string
  mc_APIKeyPrefix :: string
  mc_APISecret :: string
  mc_Status :: string
  mc_Currency :: string
  mc_Timezone :: string
  mc_FeeRate :: float64
  mc_CreatedAt :: time
  mc_UpdatedAt :: time

record registerRequest =
  rq_Name :: string
  rq_Email :: string
  rq_Currency :: string
  rq_Timezone :: string

record updateRequest =
  uq_Name :: "string option"
  uq_Currency :: "string option"
  uq_Timezone :: "string option"

definition apiKeyPrefixLen :: nat where "apiKeyPrefixLen = 16"

section \<open>The in-memory repository\<close>

record merchantRepo =
  mo_byID :: "(string \<times> merchant) list"
  mo_idByKeyPrefix :: "string \<Rightarrow> string option"

definition newMerchantRepo :: merchantRepo where
  "newMerchantRepo = \<lparr>mo_byID = [], mo_idByKeyPrefix = (\<lambda>_. None)\<rparr>"

definition merchantRepoCreate :: "bool \<Rightarrow> merchant \<Rightarrow> merchantRepo \<Rightarrow> unit res \<times> merchantRepo" where
  "merchantRepoCreate ctxDone v r =
     (if ctxDone then (Inl CtxErr, r)
      else if map_of (mo_byID r) (mc_ID v) \<noteq> None
        then (Inl (Plain (''merchant ID already exists: '' @ mc_ID v)), r)
      else if mo_idByKeyPrefix r (mc_APIKeyPrefix v) \<noteq> None then (Inl (Plain ''API key already exists''), r)
      else (Inr (), r\<lparr>mo_byID := put (mc_ID v) v (mo_byID r),
        mo_idByKeyPrefix := (mo_idByKeyPrefix r)(mc_APIKeyPrefix v \<mapsto> mc_ID v)\<rparr>))"

definition merchantRepoGetByID :: "bool \<Rightarrow> string \<Rightarrow> merchantRepo \<Rightarrow> merchant res" where
  "merchantRepoGetByID ctxDone merchantID r =
     (if ctxDone then Inl CtxErr
      else case map_of (mo_byID r) merchantID of
          None \<Rightarrow> Inl (Sentinel MerchantErrNotFound) | Some v \<Rightarrow> Inr v)"

text \<open>An index entry without its merchant would make \<^verbatim>\<open>cloneMerchant\<close> return nil, which the caller dereferences.\<close>

definition merchantRepoGetByAPIKeyPrefix :: "bool \<Rightarrow> string \<Rightarrow> merchantRepo \<Rightarrow> merchant res" where
  "merchantRepoGetByAPIKeyPrefix ctxDone prefix r =
     (if ctxDone then Inl CtxErr
      else case mo_idByKeyPrefix r prefix of
          None \<Rightarrow> Inl (Sentinel MerchantErrNotFound)
        | Some merchantID \<Rightarrow> (case map_of (mo_byID r) merchantID of
            None \<Rightarrow> Inl (Panic ''nil merchant'') | Some v \<Rightarrow> Inr v))"

definition merchantRepoUpdateAPIKey ::
  "bool \<Rightarrow> string \<Rightarrow> string \<Rightarrow> string \<Rightarrow> merchantRepo \<Rightarrow> unit res \<times> merchantRepo" where
  "merchantRepoUpdateAPIKey ctxDone merchantID prefix keyHash r =
     (if ctxDone then (Inl CtxErr, r)
      else case map_of (mo_byID r) merchantID of
          None \<Rightarrow> (Inl (Sentinel MerchantErrNotFound), r)
        | Some v \<Rightarrow>
            if mo_idByKeyPrefix r prefix \<noteq> None \<and> mo_idByKeyPrefix r prefix \<noteq> Some merchantID
            then (Inl (Plain ''API key prefix already exists''), r)
            else (Inr (), r\<lparr>mo_byID := put merchantID (v\<lparr>mc_APIKeyPrefix := prefix, mc_APIKey := keyHash\<rparr>) (mo_byID r),
              mo_idByKeyPrefix := (mo_idByKeyPrefix r)(mc_APIKeyPrefix v := None, prefix \<mapsto> merchantID)\<rparr>))"

definition merchantRepoUpdate :: "bool \<Rightarrow> merchant \<Rightarrow> merchantRepo \<Rightarrow> unit res \<times> merchantRepo" where
  "merchantRepoUpdate ctxDone v r =
     (if ctxDone then (Inl CtxErr, r)
      else case map_of (mo_byID r) (mc_ID v) of
          None \<Rightarrow> (Inl (Sentinel MerchantErrNotFound), r)
        | Some previous \<Rightarrow>
            let stored = put (mc_ID v) v (mo_byID r) in
            if mc_APIKeyPrefix previous \<noteq> mc_APIKeyPrefix v then
              if mo_idByKeyPrefix r (mc_APIKeyPrefix v) \<noteq> None then (Inl (Plain ''API key already exists''), r)
              else (Inr (), r\<lparr>mo_byID := stored, mo_idByKeyPrefix :=
                (mo_idByKeyPrefix r)(mc_APIKeyPrefix previous := None, mc_APIKeyPrefix v \<mapsto> mc_ID v)\<rparr>)
            else (Inr (), r\<lparr>mo_byID := stored\<rparr>))"

definition merchantsOldestFirst :: "merchant \<Rightarrow> merchant \<Rightarrow> bool" where
  "merchantsOldestFirst a b = (if mc_CreatedAt a = mc_CreatedAt b then mc_ID a < mc_ID b
     else mc_CreatedAt a < mc_CreatedAt b)"

definition merchantRepoList :: "bool \<Rightarrow> int \<Rightarrow> int \<Rightarrow> merchantRepo \<Rightarrow> merchant list res" where
  "merchantRepoList ctxDone offset limit r =
     (if ctxDone then Inl CtxErr
      else Inr (fst (page_slice offset limit (sort_by merchantsOldestFirst (map snd (mo_byID r))))))"

section \<open>Validation and credentials\<close>

definition validEmail :: "(string \<Rightarrow> string option) \<Rightarrow> string \<Rightarrow> bool" where
  "validEmail parseAddress v \<longleftrightarrow> parseAddress v = Some v"

definition validateRegisterRequest ::
  "(string \<Rightarrow> string option) \<Rightarrow> (string \<Rightarrow> bool) \<Rightarrow> registerRequest option \<Rightarrow> registerRequest res" where
  "validateRegisterRequest parseAddress zoneKnown req =
     (case req of
        None \<Rightarrow> Inl (Validation ''request'' ''is required'')
      | Some req \<Rightarrow>
          let name = trimSpace (rq_Name req); email = toLower (trimSpace (rq_Email req));
              currency0 = toUpper (trimSpace (rq_Currency req)); timezone0 = trimSpace (rq_Timezone req);
              currency = (if currency0 = [] then ''USD'' else currency0);
              timezone = (if timezone0 = [] then ''UTC'' else timezone0)
          in if name = [] then Inl (Validation ''name'' ''is required'')
             else if \<not> validEmail parseAddress email then Inl (Validation ''email'' ''must be a valid email address'')
             else if \<not> validCurrency currency then Inl (Validation ''currency'' ''is not supported'')
             else if \<not> zoneKnown timezone then Inl (Validation ''timezone'' ''must be an IANA timezone'')
             else Inr \<lparr>rq_Name = name, rq_Email = email, rq_Currency = currency, rq_Timezone = timezone\<rparr>)"

definition applyUpdate :: "(string \<Rightarrow> bool) \<Rightarrow> merchant \<Rightarrow> updateRequest \<Rightarrow> merchant res" where
  "applyUpdate zoneKnown v req =
     bind_res (case uq_Name req of
         None \<Rightarrow> Inr v
       | Some n \<Rightarrow> let name = trimSpace n in
           if name = [] then Inl (Validation ''name'' ''cannot be empty'') else Inr (v\<lparr>mc_Name := name\<rparr>)) (\<lambda>v1.
     bind_res (case uq_Currency req of
         None \<Rightarrow> Inr v1
       | Some c \<Rightarrow> let currency = toUpper (trimSpace c) in
           if \<not> validCurrency currency then Inl (Validation ''currency'' ''is not supported'')
           else Inr (v1\<lparr>mc_Currency := currency\<rparr>)) (\<lambda>v2.
     (case uq_Timezone req of
         None \<Rightarrow> Inr v2
       | Some z \<Rightarrow> let timezone = trimSpace z in
           if \<not> zoneKnown timezone then Inl (Validation ''timezone'' ''must be an IANA timezone'')
           else Inr (v2\<lparr>mc_Timezone := timezone\<rparr>))))"

text \<open>A buffer of random bytes as the string of its bytes.\<close>

definition generateCredential :: "string \<Rightarrow> byte list \<Rightarrow> string res \<times> byte list" where
  "generateCredential prefix random = (case readFull 32 random of
      (Inl err, rest) \<Rightarrow> (Inl err, rest)
    | (Inr buffer, rest) \<Rightarrow>
        (Inr (prefix @ base64Encode urlAlphabet False (map (\<lambda>b. char_of (unat b)) buffer)), rest))"

definition keyPrefix :: "string \<Rightarrow> string res" where
  "keyPrefix apiKey = (if length apiKey < apiKeyPrefixLen then Inl (Sentinel MerchantErrUnauthorized)
     else Inr (take apiKeyPrefixLen apiKey))"

section \<open>The service\<close>

text \<open>
  \<open>hashKey\<close> is bcrypt's \<^verbatim>\<open>GenerateFromPassword\<close> under the salt it draws, or its error;
  \<open>hashSecret\<close> the hexadecimal SHA-256 digest.
\<close>

definition merchantRegister ::
  "(string \<Rightarrow> string option) \<Rightarrow> (string \<Rightarrow> bool) \<Rightarrow> (string \<Rightarrow> string res) \<Rightarrow> (string \<Rightarrow> string) \<Rightarrow> bool
    \<Rightarrow> registerRequest option \<Rightarrow> byte list \<Rightarrow> time \<Rightarrow> merchantRepo \<Rightarrow> merchant res \<times> merchantRepo" where
  "merchantRegister parseAddress zoneKnown hashKey hashSecret ctxDone req random now r =
     (case validateRegisterRequest parseAddress zoneKnown req of
        Inl err \<Rightarrow> (Inl err, r)
      | Inr input \<Rightarrow> (case generateUUID random of
          (Inl err, _) \<Rightarrow> (Inl (Wrapped ''generate merchant ID'' err), r)
        | (Inr merchantID, r1) \<Rightarrow> (case generateCredential ''pk_live_'' r1 of
            (Inl err, _) \<Rightarrow> (Inl (Wrapped ''generate API key'' err), r)
          | (Inr apiKey, r2) \<Rightarrow> (case generateCredential ''sk_live_'' r2 of
              (Inl err, _) \<Rightarrow> (Inl (Wrapped ''generate API secret'' err), r)
            | (Inr apiSecret, _) \<Rightarrow> (case hashKey apiKey of
                Inl err \<Rightarrow> (Inl (Wrapped ''hash API key'' err), r)
              | Inr apiKeyHash \<Rightarrow> (case keyPrefix apiKey of
                  Inl err \<Rightarrow> (Inl (Wrapped ''derive API key prefix'' err), r)
                | Inr apiKeyPrefix \<Rightarrow>
                    let stored = \<lparr>mc_ID = merchantID, mc_Name = rq_Name input, mc_Email = rq_Email input,
                          mc_APIKey = apiKeyHash, mc_APIKeyPrefix = apiKeyPrefix, mc_APISecret = hashSecret apiSecret,
                          mc_Status = ''active'', mc_Currency = rq_Currency input, mc_Timezone = rq_Timezone input,
                          mc_FeeRate = Fin 0, mc_CreatedAt = now, mc_UpdatedAt = now\<rparr>
                    in (case merchantRepoCreate ctxDone stored r of
                          (Inl err, r') \<Rightarrow> (Inl (Wrapped ''create merchant'' err), r')
                        | (Inr _, r') \<Rightarrow>
                            (Inr (stored\<lparr>mc_APIKey := apiKey, mc_APISecret := apiSecret\<rparr>), r'))))))))"

definition withoutSecrets :: "merchant \<Rightarrow> merchant" where
  "withoutSecrets v = v\<lparr>mc_APISecret := [], mc_APIKey := []\<rparr>"

definition merchantGet :: "bool \<Rightarrow> string \<Rightarrow> merchantRepo \<Rightarrow> merchant res" where
  "merchantGet ctxDone merchantID r =
     (if trimSpace merchantID = [] then Inl (Validation ''merchant_id'' ''is required'')
      else case merchantRepoGetByID ctxDone merchantID r of
          Inl err \<Rightarrow> Inl (Wrapped ''get merchant'' err) | Inr v \<Rightarrow> Inr (withoutSecrets v))"

text \<open>\<open>seen\<close> is the store at the read, \<open>r\<close> the store at the commit.\<close>

definition merchantUpdate ::
  "(string \<Rightarrow> bool) \<Rightarrow> (nat \<Rightarrow> bool) \<Rightarrow> string \<Rightarrow> updateRequest option \<Rightarrow> time \<Rightarrow> merchantRepo \<Rightarrow> merchantRepo
    \<Rightarrow> merchant res \<times> merchantRepo" where
  "merchantUpdate zoneKnown ctx merchantID req now seen r =
     (if trimSpace merchantID = [] then (Inl (Validation ''merchant_id'' ''is required''), r)
      else case req of
          None \<Rightarrow> (Inl (Validation ''request'' ''is required''), r)
        | Some req \<Rightarrow> (case merchantRepoGetByID (ctx 0) merchantID seen of
            Inl err \<Rightarrow> (Inl (Wrapped ''get merchant for update'' err), r)
          | Inr v \<Rightarrow> (case applyUpdate zoneKnown v req of
              Inl err \<Rightarrow> (Inl err, r)
            | Inr v1 \<Rightarrow>
                let v2 = v1\<lparr>mc_UpdatedAt := now\<rparr> in
                (case merchantRepoUpdate (ctx 1) v2 r of
                   (Inl err, r') \<Rightarrow> (Inl (Wrapped ''update merchant'' err), r')
                 | (Inr _, r') \<Rightarrow> (Inr (withoutSecrets v2), r')))))"

definition merchantValidateAPIKey :: "(string \<Rightarrow> string \<Rightarrow> bool) \<Rightarrow> bool \<Rightarrow> string \<Rightarrow> merchantRepo \<Rightarrow> merchant res" where
  "merchantValidateAPIKey compareKey ctxDone apiKey0 r =
     (let apiKey = trimSpace apiKey0; unauthorized = Inl (Sentinel MerchantErrUnauthorized) in
      if apiKey = [] then unauthorized
      else case keyPrefix apiKey of
          Inl _ \<Rightarrow> unauthorized
        | Inr prefix \<Rightarrow> (case merchantRepoGetByAPIKeyPrefix ctxDone prefix r of
            Inl err \<Rightarrow> if errorsIs err MerchantErrNotFound then unauthorized else Inl (wrap_error ''validate API key'' err)
          | Inr v \<Rightarrow>
              if \<not> compareKey (mc_APIKey v) apiKey then unauthorized
              else if mc_Status v \<noteq> ''active'' then unauthorized
              else Inr (withoutSecrets v)))"

definition merchantList :: "bool \<Rightarrow> int \<Rightarrow> int \<Rightarrow> merchantRepo \<Rightarrow> merchant list res" where
  "merchantList ctxDone page0 limit0 r =
     bind_res (normalizePagination ''must not exceed 1000'' page0 limit0) (\<lambda>(page, limit).
       case merchantRepoList ctxDone ((page - 1) * limit) limit r of
         Inl err \<Rightarrow> Inl (Wrapped ''list merchants'' err)
       | Inr merchants \<Rightarrow> Inr (map withoutSecrets merchants))"

section \<open>The middleware\<close>

text \<open>\<^verbatim>\<open>strings.Cut\<close> at the first blank.\<close>

definition cutBlank :: "string \<Rightarrow> string \<times> string \<times> bool" where
  "cutBlank s = (case dropWhile (\<lambda>c. c \<noteq> CHR '' '') s of
      [] \<Rightarrow> (s, [], False) | _ # rest \<Rightarrow> (takeWhile (\<lambda>c. c \<noteq> CHR '' '') s, rest, True))"

definition bearerToken :: "string \<Rightarrow> string option" where
  "bearerToken header = (case cutBlank (trimSpace header) of (scheme, token0, found) \<Rightarrow>
     let token = trimSpace token0 in
     if \<not> found \<or> toLower scheme \<noteq> ''bearer'' \<or> token = [] then None else Some token)"

definition sameAPIKey :: "string \<Rightarrow> string \<Rightarrow> bool" where
  "sameAPIKey provided expected =
     (if expected = [] \<or> length provided \<noteq> length expected then False else provided = expected)"

datatype 'a admission = Unauthorized | Admitted 'a

definition requireMerchant :: "(string \<Rightarrow> merchant res) \<Rightarrow> string \<Rightarrow> merchant admission" where
  "requireMerchant validate header = (case bearerToken header of
      None \<Rightarrow> Unauthorized
    | Some apiKey \<Rightarrow> (case validate apiKey of Inl _ \<Rightarrow> Unauthorized | Inr v \<Rightarrow> Admitted v))"

definition requireAdmin :: "string \<Rightarrow> string \<Rightarrow> unit admission" where
  "requireAdmin adminAPIKey header = (case bearerToken header of
      None \<Rightarrow> Unauthorized
    | Some apiKey \<Rightarrow> if sameAPIKey apiKey adminAPIKey then Admitted () else Unauthorized)"

end
