(* ===== verification/MerchantProps.thy ===== *)
theory MerchantProps
  imports Merchant
begin

text \<open>
  What the merchant service promises: every stored merchant is well typed and found under its key
  prefix, a registered key is admitted from then on, and nothing else is.
\<close>

section \<open>Stored merchants\<close>

definition typed_merchant :: "(string \<Rightarrow> string option) \<Rightarrow> (string \<Rightarrow> bool) \<Rightarrow> merchant \<Rightarrow> bool" where
  "typed_merchant parseAddress zoneKnown v \<longleftrightarrow> isUUID (mc_ID v) \<and> mc_Name v \<noteq> [] \<and> trimSpace (mc_Name v) = mc_Name v
     \<and> validEmail parseAddress (mc_Email v) \<and> validCurrency (mc_Currency v) \<and> zoneKnown (mc_Timezone v)
     \<and> length (mc_APIKeyPrefix v) = apiKeyPrefixLen \<and> mc_Status v = ''active'' \<and> mc_FeeRate v = Fin 0"

definition merchants_ok :: "(merchant \<Rightarrow> bool) \<Rightarrow> merchantRepo \<Rightarrow> bool" where
  "merchants_ok typed r \<longleftrightarrow> distinct_keys (mo_byID r)
     \<and> (\<forall>i v. map_of (mo_byID r) i = Some v \<longrightarrow> mc_ID v = i \<and> typed v \<and> mo_idByKeyPrefix r (mc_APIKeyPrefix v) = Some i)
     \<and> (\<forall>p i. mo_idByKeyPrefix r p = Some i \<longrightarrow> (\<exists>v. map_of (mo_byID r) i = Some v \<and> mc_APIKeyPrefix v = p))"

lemma merchants_okD:
  "merchants_ok typed r \<Longrightarrow> map_of (mo_byID r) i = Some v
    \<Longrightarrow> mc_ID v = i \<and> typed v \<and> mo_idByKeyPrefix r (mc_APIKeyPrefix v) = Some i"
  by (simp add: merchants_ok_def)

lemma merchants_ok_index:
  "merchants_ok typed r \<Longrightarrow> mo_idByKeyPrefix r p = Some i \<Longrightarrow> \<exists>v. map_of (mo_byID r) i = Some v \<and> mc_APIKeyPrefix v = p"
  by (simp add: merchants_ok_def)

text \<open>What no call of the service changes of a merchant.\<close>

definition same_keys :: "merchant \<Rightarrow> merchant \<Rightarrow> bool" where
  "same_keys v v' \<longleftrightarrow> mc_ID v' = mc_ID v \<and> mc_Email v' = mc_Email v \<and> mc_APIKey v' = mc_APIKey v
     \<and> mc_APIKeyPrefix v' = mc_APIKeyPrefix v \<and> mc_APISecret v' = mc_APISecret v \<and> mc_Status v' = mc_Status v
     \<and> mc_FeeRate v' = mc_FeeRate v \<and> mc_CreatedAt v' = mc_CreatedAt v"

lemma same_keys_refl [simp]: "same_keys v v" by (simp add: same_keys_def)

lemma same_keys_trans: "same_keys u v \<Longrightarrow> same_keys v w \<Longrightarrow> same_keys u w"
  by (simp add: same_keys_def)

definition keeps_keys :: "merchantRepo \<Rightarrow> merchantRepo \<Rightarrow> bool" where
  "keeps_keys r r' \<longleftrightarrow> (\<forall>i v. map_of (mo_byID r) i = Some v \<longrightarrow> (\<exists>v'. map_of (mo_byID r') i = Some v' \<and> same_keys v v'))"

lemma keeps_keys_refl [simp]: "keeps_keys r r" by (simp add: keeps_keys_def)

lemma keeps_keys_trans:
  assumes "keeps_keys r s" "keeps_keys s t"
  shows "keeps_keys r t"
  unfolding keeps_keys_def
proof (intro allI impI)
  fix i u
  assume "map_of (mo_byID r) i = Some u"
  then obtain v where v: "map_of (mo_byID s) i = Some v" "same_keys u v" using assms(1) by (auto simp: keeps_keys_def)
  then obtain w where "map_of (mo_byID t) i = Some w" "same_keys v w" using assms(2) unfolding keeps_keys_def by blast
  then show "\<exists>w. map_of (mo_byID t) i = Some w \<and> same_keys u w" using v(2) same_keys_trans by blast
qed

lemma merchants_ok_create:
  assumes "merchants_ok typed r" "typed v" "merchantRepoCreate d v r = (x, r')"
  shows "merchants_ok typed r' \<and> keeps_keys r r'"
proof (cases x)
  case (Inl err)
  then have "r' = r" using assms(3) by (auto simp: merchantRepoCreate_def split: if_splits)
  then show ?thesis using assms(1) by simp
next
  case (Inr u)
  then have n: "map_of (mo_byID r) (mc_ID v) = None" "mo_idByKeyPrefix r (mc_APIKeyPrefix v) = None"
    and r': "r' = r\<lparr>mo_byID := put (mc_ID v) v (mo_byID r),
        mo_idByKeyPrefix := (mo_idByKeyPrefix r)(mc_APIKeyPrefix v \<mapsto> mc_ID v)\<rparr>"
    using assms(3) by (auto simp: merchantRepoCreate_def split: if_splits)
  have "merchants_ok typed r'" unfolding merchants_ok_def r'
    using assms(1,2) n by (auto simp: merchants_ok_def) (metis option.distinct(1))+
  moreover have "keeps_keys r r'" using n by (auto simp: keeps_keys_def r')
  ultimately show ?thesis by simp
qed

text \<open>An update keeps the prefix, so it leaves the index alone.\<close>

lemma merchants_ok_update:
  assumes "merchants_ok typed r" "typed v" "merchantRepoUpdate d v r = (x, r')"
    "map_of (mo_byID r) (mc_ID v) = Some u" "same_keys u v"
  shows "merchants_ok typed r' \<and> keeps_keys r r'"
proof (cases d)
  case True
  then show ?thesis using assms(1,3) by (simp add: merchantRepoUpdate_def)
next
  case False
  have r': "r' = r\<lparr>mo_byID := put (mc_ID v) v (mo_byID r)\<rparr>"
    using assms(3-5) False by (auto simp: merchantRepoUpdate_def Let_def same_keys_def)
  have "merchants_ok typed r'" unfolding merchants_ok_def r'
    using assms(1,2,4,5) by (auto simp: merchants_ok_def same_keys_def; metis option.inject)
  moreover have "keeps_keys r r'" using assms(4,5) by (auto simp: keeps_keys_def r')
  ultimately show ?thesis by simp
qed

section \<open>Credentials\<close>

lemma readFull_length: "readFull n bs = (Inr xs, rest) \<Longrightarrow> length xs = n"
  by (auto simp: readFull_def split: if_splits)

lemma length_sextets_bytes: "length (sextets bs) = (4 * length bs + 2) div 3"
  by (induction bs rule: sextets.induct) auto

lemma urlAlphabet_chars: "list_all (\<lambda>c. \<not> is_space c) urlAlphabet" "length urlAlphabet = 64"
  by code_simp+

lemma credential_text:
  assumes "generateCredential prefix random = (Inr k, rest)" "list_all (\<lambda>c. \<not> is_space c) prefix"
  shows "list_all (\<lambda>c. \<not> is_space c) k" "length k = length prefix + 43"
proof -
  obtain bs where bs: "readFull 32 random = (Inr bs, rest)"
    "k = prefix @ base64Encode urlAlphabet False (map (\<lambda>b. char_of (unat b)) bs)"
    using assms(1) by (auto simp: generateCredential_def split: prod.splits sum.splits)
  let ?ns = "map of_char (map (\<lambda>b. char_of (unat b) :: char) bs) :: nat list"
  have "base64Encode urlAlphabet False (map (\<lambda>b. char_of (unat b)) bs) = map (\<lambda>i. urlAlphabet ! i) (sextets ?ns)"
    by (simp add: base64Encode_def encodeBytes_raw)
  moreover have "list_all (\<lambda>i. i < 64) (sextets ?ns)" by (rule sextets_less) (auto simp: list_all_iff)
  moreover have "\<not> is_space (urlAlphabet ! i)" if "i < 64" for i
    using that urlAlphabet_chars by (auto simp: list_all_iff)
  ultimately show "list_all (\<lambda>c. \<not> is_space c) k" using assms(2) bs(2) by (auto simp: list_all_iff)
  show "length k = length prefix + 43"
    using bs(2) readFull_length [OF bs(1)] by (simp add: base64Encode_def encodeBytes_raw length_sextets_bytes)
qed

section \<open>Calls\<close>

lemma validateRegister_typed:
  assumes "validateRegisterRequest parseAddress zoneKnown req = Inr input"
  shows "rq_Name input \<noteq> []" "trimSpace (rq_Name input) = rq_Name input" "validEmail parseAddress (rq_Email input)"
    "validCurrency (rq_Currency input)" "zoneKnown (rq_Timezone input)"
  using assms by (auto simp: validateRegisterRequest_def Let_def split: option.splits if_splits)

lemma register_cases:
  assumes "merchantRegister parseAddress zoneKnown hashKey hashSecret d req random now r = (x, r')"
  obtains (failed) err where "x = Inl err" "r' = r"
  | (created) stored key secret where "x = Inr (stored\<lparr>mc_APIKey := key, mc_APISecret := secret\<rparr>)"
      "typed_merchant parseAddress zoneKnown stored" "merchantRepoCreate d stored r = (Inr (), r')"
      "hashKey key = Inr (mc_APIKey stored)" "mc_APIKeyPrefix stored = take apiKeyPrefixLen key"
      "list_all (\<lambda>c. \<not> is_space c) key" "length key = 51"
proof (cases "validateRegisterRequest parseAddress zoneKnown req")
  case (Inl err)
  then have "x = Inl err" "r' = r" using assms by (simp_all add: merchantRegister_def)
  then show ?thesis by (rule failed)
next
  case input: (Inr input)
  obtain x1 r1 where i: "generateUUID random = (x1, r1)" by fastforce
  obtain x2 r2 where k: "generateCredential ''pk_live_'' r1 = (x2, r2)" by fastforce
  obtain x3 r3 where sec: "generateCredential ''sk_live_'' r2 = (x3, r3)" by fastforce
  show ?thesis
  proof (cases "(\<exists>e. x1 = Inl e) \<or> (\<exists>e. x2 = Inl e) \<or> (\<exists>e. x3 = Inl e)")
    case True
    then have "\<exists>err. x = Inl err" "r' = r"
      using assms input i k sec by (auto simp: merchantRegister_def split: sum.splits)
    then show ?thesis using failed by blast
  next
    case False
    then obtain mid key secret where ok: "x1 = Inr mid" "x2 = Inr key" "x3 = Inr secret"
      by (cases x1; cases x2; cases x3) auto
    note kt = credential_text [OF k [unfolded ok]]
    have key: "list_all (\<lambda>c. \<not> is_space c) key" "length key = 51"
      using kt by (simp_all add: is_space_def)
    have kp: "keyPrefix key = Inr (take apiKeyPrefixLen key)"
      using key by (simp add: keyPrefix_def apiKeyPrefixLen_def)
    have mid: "isUUID mid" using generateUUID_valid [OF i [unfolded ok]] by simp
    show ?thesis
    proof (cases "hashKey key")
      case (Inl e)
      then have "\<exists>err. x = Inl err" "r' = r"
        using assms input i k sec ok by (auto simp: merchantRegister_def)
      then show ?thesis using failed by blast
    next
      case (Inr h)
      define stored where "stored = \<lparr>mc_ID = mid, mc_Name = rq_Name input, mc_Email = rq_Email input,
                          mc_APIKey = h, mc_APIKeyPrefix = take apiKeyPrefixLen key, mc_APISecret = hashSecret secret,
                          mc_Status = ''active'', mc_Currency = rq_Currency input, mc_Timezone = rq_Timezone input,
                          mc_FeeRate = Fin 0, mc_CreatedAt = now, mc_UpdatedAt = now\<rparr>"
      obtain y r4 where c: "merchantRepoCreate d stored r = (y, r4)" by fastforce
      have run: "(x, r') = (case y of Inl err \<Rightarrow> (Inl (Wrapped ''create merchant'' err), r4)
          | Inr _ \<Rightarrow> (Inr (stored\<lparr>mc_APIKey := key, mc_APISecret := secret\<rparr>), r4))"
        using assms input i k sec ok Inr kp c by (cases y) (simp_all add: merchantRegister_def Let_def stored_def)
      show ?thesis
      proof (cases y)
        case (Inl e)
        then have "r4 = r" using c by (auto simp: merchantRepoCreate_def split: if_splits)
        then show ?thesis using failed run Inl by simp
      next
        case (Inr u)
        have "typed_merchant parseAddress zoneKnown stored"
          using validateRegister_typed [OF input] mid key by (simp add: typed_merchant_def stored_def apiKeyPrefixLen_def)
        then show ?thesis using created [where stored = stored and key = key and secret = secret] run Inr c key \<open>hashKey key = Inr h\<close> by (simp add: stored_def)
      qed
    qed
  qed
qed

lemma applyUpdate_typed:
  assumes "applyUpdate zoneKnown v req = Inr v'" "typed_merchant parseAddress zoneKnown v"
  shows "typed_merchant parseAddress zoneKnown v'" "same_keys v v'"
  using assms by (auto simp: applyUpdate_def bind_res_Inr_iff typed_merchant_def same_keys_def Let_def
      split: option.splits if_splits)

lemma update_kept:
  assumes "merchants_ok (typed_merchant parseAddress zoneKnown) r" "merchants_ok (typed_merchant parseAddress zoneKnown) seen"
    "keeps_keys seen r" "merchantUpdate zoneKnown ctx i req now seen r = (x, r')"
  shows "merchants_ok (typed_merchant parseAddress zoneKnown) r' \<and> keeps_keys r r'"
proof -
  have stay: ?thesis if "r' = r" using assms(1) that by simp
  show ?thesis
  proof (cases "trimSpace i = [] \<or> req = None \<or> ctx 0 \<or> map_of (mo_byID seen) i = None")
    case True
    then have "r' = r" using assms(4)
      by (auto simp: merchantUpdate_def merchantRepoGetByID_def split: if_splits option.splits)
    then show ?thesis by (rule stay)
  next
    case False
    then obtain q v where q: "req = Some q" "map_of (mo_byID seen) i = Some v" by auto
    show ?thesis
    proof (cases "applyUpdate zoneKnown v q")
      case (Inl err)
      then have "r' = r" using assms(4) False q by (simp add: merchantUpdate_def merchantRepoGetByID_def)
      then show ?thesis by (rule stay)
    next
      case (Inr w)
      have tv: "typed_merchant parseAddress zoneKnown v" "mc_ID v = i" using assms(2) q(2) by (auto simp: merchants_ok_def)
      note tw = applyUpdate_typed [OF Inr tv(1)]
      let ?w = "w\<lparr>mc_UpdatedAt := now\<rparr>"
      obtain u where u: "map_of (mo_byID r) i = Some u" "same_keys v u" using assms(3) q(2) by (auto simp: keeps_keys_def)
      have uw: "same_keys u ?w" "mc_ID ?w = i" "typed_merchant parseAddress zoneKnown ?w"
        using u(2) tw tv(2) by (simp_all add: same_keys_def typed_merchant_def)
      have "r' = snd (merchantRepoUpdate (ctx 1) ?w r)"
        using assms(4) False q Inr by (auto simp: merchantUpdate_def merchantRepoGetByID_def Let_def split: sum.splits prod.splits)
      then have "merchantRepoUpdate (ctx 1) ?w r = (fst (merchantRepoUpdate (ctx 1) ?w r), r')" by simp
      from merchants_ok_update [OF assms(1) uw(3) this _ uw(1)] show ?thesis using u(1) uw(2) by simp
    qed
  qed
qed

section \<open>Runs\<close>

text \<open>
  The stores of a run, the newest first. An update reads the merchant in an earlier store and writes
  it into the newest one, whatever happened in between.
\<close>

inductive merchant_run :: "(string \<Rightarrow> string option) \<Rightarrow> (string \<Rightarrow> bool) \<Rightarrow> merchantRepo list \<Rightarrow> bool"
  for parseAddress zoneKnown where
  start: "merchant_run parseAddress zoneKnown [newMerchantRepo]"
| register: "merchant_run parseAddress zoneKnown (r # hist)
    \<Longrightarrow> merchant_run parseAddress zoneKnown
          (snd (merchantRegister parseAddress zoneKnown hashKey hashSecret d req random now r) # r # hist)"
| update: "merchant_run parseAddress zoneKnown (r # hist) \<Longrightarrow> seen \<in> set (r # hist)
    \<Longrightarrow> merchant_run parseAddress zoneKnown (snd (merchantUpdate zoneKnown ctx i ureq now seen r) # r # hist)"

lemma merchant_run_ok:
  assumes "merchant_run parseAddress zoneKnown hist" "r \<in> set hist"
  shows "merchants_ok (typed_merchant parseAddress zoneKnown) r \<and> keeps_keys r (hd hist)"
  using assms
proof (induction arbitrary: r rule: merchant_run.induct)
  case start
  then show ?case by (simp add: newMerchantRepo_def merchants_ok_def distinct_keys_def)
next
  case (register s hist hashKey hashSecret d req random now)
  have s: "merchants_ok (typed_merchant parseAddress zoneKnown) s" using register.IH [of s] by simp
  obtain x s' where r: "merchantRegister parseAddress zoneKnown hashKey hashSecret d req random now s = (x, s')" by fastforce
  then have "merchants_ok (typed_merchant parseAddress zoneKnown) s' \<and> keeps_keys s s'"
  proof (cases rule: register_cases)
    case failed
    then show ?thesis using s by simp
  next
    case created
    then show ?thesis using merchants_ok_create [OF s] by blast
  qed
  then show ?case using register.IH register.prems keeps_keys_trans r by auto
next
  case (update s hist seen ctx i ureq now)
  have s: "merchants_ok (typed_merchant parseAddress zoneKnown) s" using update.IH [of s] by simp
  have seen: "merchants_ok (typed_merchant parseAddress zoneKnown) seen" "keeps_keys seen s"
    using update.IH [OF update.hyps(2)] by simp_all
  obtain x s' where r: "merchantUpdate zoneKnown ctx i ureq now seen s = (x, s')" by fastforce
  from update_kept [OF s seen r] show ?case using update.IH update.prems keeps_keys_trans r by auto
qed

lemma run_suffix: "merchant_run parseAddress zoneKnown hist \<Longrightarrow> hist = xs @ r # ys \<Longrightarrow> merchant_run parseAddress zoneKnown (r # ys)"
proof (induction arbitrary: xs rule: merchant_run.induct)
  case start
  then show ?case by (cases xs) (auto intro: merchant_run.start)
next
  case (register s hist hashKey hashSecret d req random now)
  then show ?case by (cases xs) (auto intro: merchant_run.register)
next
  case (update s hist seen ctx i ureq now)
  then show ?case by (cases xs) (auto intro: merchant_run.update)
qed

section \<open>Properties\<close>

text \<open>
  C33: every merchant of every store the service reaches is well typed: it is found under its own
  identifier, a UUID, has a trimmed name, a parsed address, a supported currency, a known time zone
  and no fee, and the index of key prefixes leads to it and to no other merchant; registrations and
  updates that read an older store are interleaved at will.
\<close>

theorem merchants_well_typed:
  assumes "merchant_run parseAddress zoneKnown hist" "r \<in> set hist"
  shows "distinct_keys (mo_byID r)
    \<and> (\<forall>i v. map_of (mo_byID r) i = Some v \<longrightarrow> mc_ID v = i \<and> isUUID i \<and> mc_Name v \<noteq> [] \<and> trimSpace (mc_Name v) = mc_Name v
        \<and> validEmail parseAddress (mc_Email v) \<and> validCurrency (mc_Currency v) \<and> zoneKnown (mc_Timezone v)
        \<and> length (mc_APIKeyPrefix v) = 16 \<and> mc_FeeRate v = Fin 0)
    \<and> (\<forall>p i. mo_idByKeyPrefix r p = Some i \<longleftrightarrow> (\<exists>v. map_of (mo_byID r) i = Some v \<and> mc_APIKeyPrefix v = p))"
  using merchant_run_ok [OF assms] by (auto simp: merchants_ok_def typed_merchant_def apiKeyPrefixLen_def)

lemma cutBlank_word:
  "CHR '' '' \<notin> set w \<Longrightarrow> cutBlank (w @ CHR '' '' # rest) = (w, rest, True)"
  unfolding cutBlank_def by (subst dropWhile_append2; (subst takeWhile_append2)?) auto

lemma bearer_key:
  assumes "list_all (\<lambda>c. \<not> is_space c) k" "k \<noteq> []"
  shows "bearerToken (''Bearer '' @ k) = Some k"
proof -
  have k: "trimSpace k = k" using assms(1) by (intro trimSpace_solid) (simp add: list_all_iff)
  have "dropWhile is_space (rev (''Bearer '' @ k)) = rev (''Bearer '' @ k)"
    using assms by (cases k rule: rev_cases) (auto simp: list_all_iff)
  then have "trimSpace (''Bearer '' @ k) = ''Bearer '' @ k" by (simp add: trimSpace_def is_space_def)
  moreover have "cutBlank (''Bearer '' @ k) = (''Bearer'', k, True)"
    using cutBlank_word [of "''Bearer''" k] by simp
  moreover have "toLower ''Bearer'' = ''bearer''" by code_simp
  ultimately show ?thesis using k assms(2) by (simp add: bearerToken_def)
qed

lemma validate_iff:
  assumes "merchants_ok (typed_merchant parseAddress zoneKnown) r"
  shows "merchantValidateAPIKey compareKey False k r = Inr w \<longleftrightarrow>
    (\<exists>v. map_of (mo_byID r) (mc_ID v) = Some v \<and> mc_APIKeyPrefix v = take apiKeyPrefixLen (trimSpace k)
      \<and> compareKey (mc_APIKey v) (trimSpace k) \<and> w = withoutSecrets v)"
    (is "_ \<longleftrightarrow> (\<exists>v. ?found v)")
    "merchantValidateAPIKey compareKey False k r = Inl err \<Longrightarrow> err = Sentinel MerchantErrUnauthorized"
proof -
  let ?k = "trimSpace k"
  have "(merchantValidateAPIKey compareKey False k r = Inr w \<longleftrightarrow> (\<exists>v. ?found v))
    \<and> (merchantValidateAPIKey compareKey False k r = Inl err \<longrightarrow> err = Sentinel MerchantErrUnauthorized)"
  proof (cases "length ?k < apiKeyPrefixLen")
    case True
    have "length (mc_APIKeyPrefix v) = apiKeyPrefixLen" if "map_of (mo_byID r) (mc_ID v) = Some v" for v
      using assms that unfolding merchants_ok_def typed_merchant_def by blast
    then have "\<not> ?found v" for v using True by (metis length_take less_irrefl min_less_iff_conj)
    then show ?thesis using True by (auto simp: merchantValidateAPIKey_def Let_def keyPrefix_def)
  next
    case False
    then have p: "keyPrefix ?k = Inr (take apiKeyPrefixLen ?k)" "?k \<noteq> []" by (auto simp: keyPrefix_def apiKeyPrefixLen_def)
    show ?thesis
    proof (cases "mo_idByKeyPrefix r (take apiKeyPrefixLen ?k)")
      case None
      then have "\<not> ?found v" for v using merchants_okD [OF assms, of "mc_ID v" v] by auto
      then show ?thesis using p None
        by (auto simp: merchantValidateAPIKey_def Let_def merchantRepoGetByAPIKeyPrefix_def)
    next
      case (Some i)
      then obtain v where v: "map_of (mo_byID r) i = Some v" "mc_APIKeyPrefix v = take apiKeyPrefixLen ?k"
        using merchants_ok_index [OF assms Some] by blast
      have a: "mc_ID v = i" "mc_Status v = ''active''" using v(1) assms by (auto simp: merchants_ok_def typed_merchant_def)
      have "u = v" if "?found u" for u
      proof -
        have "mo_idByKeyPrefix r (mc_APIKeyPrefix u) = Some (mc_ID u)" using merchants_okD [OF assms, of "mc_ID u" u] that by simp
        then show ?thesis using that Some v(1) by simp
      qed
      then have "(\<exists>u. ?found u) \<longleftrightarrow> compareKey (mc_APIKey v) ?k \<and> w = withoutSecrets v" using v a(1) by blast
      then show ?thesis using p Some v a
        by (auto simp: merchantValidateAPIKey_def Let_def merchantRepoGetByAPIKeyPrefix_def)
    qed
  qed
  then show "merchantValidateAPIKey compareKey False k r = Inr w \<longleftrightarrow> (\<exists>v. ?found v)"
    "merchantValidateAPIKey compareKey False k r = Inl err \<Longrightarrow> err = Sentinel MerchantErrUnauthorized" by blast+
qed

text \<open>
  C34: the key a registration returns is the key that is admitted: in every store of the run from the
  registration on, a request with the header \<^verbatim>\<open>Bearer <key>\<close> is admitted as the registered merchant,
  without its secrets. Of bcrypt it needs only that a hash matches the key it was made from.
\<close>

theorem registered_key_admitted:
  assumes "merchant_run parseAddress zoneKnown (later @ r' # r # hist)"
    and "merchantRegister parseAddress zoneKnown hashKey hashSecret d req random now r = (Inr v, r')"
    and "\<And>k h. hashKey k = Inr h \<Longrightarrow> compareKey h k"
    and "s \<in> set (later @ [r'])"
  shows "\<exists>w. requireMerchant (\<lambda>k. merchantValidateAPIKey compareKey False k s) (''Bearer '' @ mc_APIKey v) = Admitted w
    \<and> mc_ID w = mc_ID v \<and> mc_Email w = mc_Email v \<and> mc_APIKey w = [] \<and> mc_APISecret w = []"
proof -
  from assms(2) obtain stored key secret where c: "v = stored\<lparr>mc_APIKey := key, mc_APISecret := secret\<rparr>"
      "merchantRepoCreate d stored r = (Inr (), r')"
      "hashKey key = Inr (mc_APIKey stored)" "mc_APIKeyPrefix stored = take apiKeyPrefixLen key"
      "list_all (\<lambda>c. \<not> is_space c) key" "length key = 51"
    by (cases rule: register_cases) auto
  have st: "map_of (mo_byID r') (mc_ID stored) = Some stored"
    using c(2) by (auto simp: merchantRepoCreate_def split: if_splits)
  obtain xs ys where s: "later @ r' # r # hist = xs @ s # ys" "r' \<in> set (s # ys)"
  proof -
    obtain xs ys where x: "later @ [r'] = xs @ s # ys" using assms(4) by (meson split_list)
    then have "r' \<in> set (s # ys)" by (cases ys rule: rev_cases) auto
    moreover have "later @ r' # r # hist = xs @ s # ys @ r # hist" using x by (metis append.assoc append_Cons append_Nil)
    ultimately show ?thesis using that [of xs "ys @ r # hist"] by auto
  qed
  note run = run_suffix [OF assms(1) s(1)]
  have ok: "merchants_ok (typed_merchant parseAddress zoneKnown) s" using merchant_run_ok [OF run, of s] by simp
  have "keeps_keys r' s" using merchant_run_ok [OF run s(2)] by simp
  then obtain u where u: "map_of (mo_byID s) (mc_ID stored) = Some u" "same_keys stored u" using st by (auto simp: keeps_keys_def)
  have "trimSpace key = key" using c(5) by (intro trimSpace_solid) (simp add: list_all_iff)
  then have "merchantValidateAPIKey compareKey False key s = Inr (withoutSecrets u)"
    unfolding validate_iff(1) [OF ok] using u c(3,4) assms(3) [OF c(3)] by (intro exI [of _ u]) (simp add: same_keys_def)
  moreover have "bearerToken (''Bearer '' @ key) = Some key" using c(5,6) by (intro bearer_key) auto
  ultimately show ?thesis using u(2) c(1) by (auto simp: requireMerchant_def same_keys_def withoutSecrets_def)
qed


section \<open>Example\<close>

definition demo_registration :: registerRequest where
  "demo_registration = \<lparr>rq_Name = '' Acme '', rq_Email = ''Ops@acme.test'', rq_Currency = ''eur'', rq_Timezone = []\<rparr>"

definition demo_zone :: "string \<Rightarrow> bool" where "demo_zone z \<longleftrightarrow> z \<in> {''UTC'', ''Asia/Tokyo''}"

text \<open>A hash that keeps the key, with its comparison.\<close>

definition demo_hash :: "string \<Rightarrow> string res" where "demo_hash k = Inr (''#'' @ k)"
definition demo_compare :: "string \<Rightarrow> string \<Rightarrow> bool" where "demo_compare h k \<longleftrightarrow> h = ''#'' @ k"

definition demo_registered :: "merchant res \<times> merchantRepo" where
  "demo_registered = merchantRegister Some demo_zone demo_hash rev False (Some demo_registration) (replicate 80 7) 5 newMerchantRepo"

definition demo_updated :: merchantRepo where
  "demo_updated = snd (merchantUpdate demo_zone (\<lambda>_. False) ''07070707-0707-4707-8707-070707070707''
     (Some \<lparr>uq_Name = Some ''Acme Ltd'', uq_Currency = None, uq_Timezone = Some ''Asia/Tokyo''\<rparr>) 9
     (snd demo_registered) (snd demo_registered))"

definition demo_names :: "(string \<times> string) list" where
  "demo_names = map (\<lambda>(i, v). (mc_Name v, mc_Timezone v)) (mo_byID demo_updated)"

lemma demo_merchant_run: "merchant_run Some demo_zone [demo_updated, snd demo_registered, newMerchantRepo]"
  unfolding demo_updated_def demo_registered_def
  by (intro merchant_run.update merchant_run.register merchant_run.start) simp

lemma demo_registered_ok: "ok (fst demo_registered)"
  by code_simp

theorem merchants_well_typed_witness:
  "demo_names = [(''Acme Ltd'', ''Asia/Tokyo'')] \<and> distinct_keys (mo_byID demo_updated)
    \<and> list_all (\<lambda>(i, v). mc_ID v = i \<and> validCurrency (mc_Currency v) \<and> length (mc_APIKeyPrefix v) = 16) (mo_byID demo_updated)"
proof -
  have mem: "demo_updated \<in> set [demo_updated, snd demo_registered, newMerchantRepo]" by simp
  note t = merchants_well_typed [OF demo_merchant_run mem]
  have d: "distinct_keys (mo_byID demo_updated)" using t by (rule conjunct1)
  have "mc_ID v = i \<and> validCurrency (mc_Currency v) \<and> length (mc_APIKeyPrefix v) = 16"
    if "(i, v) \<in> set (mo_byID demo_updated)" for i v
    using t iffD1 [OF in_set_map_of [OF d] that] by blast
  moreover have "demo_names = [(''Acme Ltd'', ''Asia/Tokyo'')]" by code_simp
  ultimately show ?thesis using d by (fastforce simp: list_all_iff)
qed

theorem registered_key_admitted_witness:
  "\<exists>v. fst demo_registered = Inr v \<and> length (mc_APIKey v) = 51
    \<and> (\<exists>w. requireMerchant (\<lambda>k. merchantValidateAPIKey demo_compare False k demo_updated) (''Bearer '' @ mc_APIKey v) = Admitted w
        \<and> mc_ID w = mc_ID v \<and> mc_APIKey w = [])"
proof -
  obtain v where v: "fst demo_registered = Inr v" using demo_registered_ok by (auto simp: ok_iff)
  then have reg: "merchantRegister Some demo_zone demo_hash rev False (Some demo_registration) (replicate 80 7) 5 newMerchantRepo
      = (Inr v, snd demo_registered)"
    unfolding demo_registered_def by (metis prod.collapse)
  from reg have "length (mc_APIKey v) = 51" by (cases rule: register_cases) auto
  moreover note registered_key_admitted [where later = "[demo_updated]" and hist = "[]" and s = demo_updated and compareKey = demo_compare,
      OF _ reg]
  ultimately show ?thesis using v demo_merchant_run by (auto simp: demo_hash_def demo_compare_def)
qed


end
