(* ===== verification/Spec2Isabelle.thy ===== *)
theory Spec2Isabelle
  imports ExchangeProps Pipeline ReconciliationProps EventSyncProps MerchantProps
begin

text \<open>
  \<^bold>\<open>predictmarket-saas\<close> is a prediction market service in Go. A merchant's users hold play-money
  wallets per currency, trade the two options of a market with limit orders, and are paid when
  the event of the market is resolved. This development models the parts of the program that
  move money or decide who gets it, in the order the code has them, and proves what they promise.

  \<^bold>\<open>How the parts interact.\<close> The order service (\<^verbatim>\<open>internal/order\<close>) checks a request, asks the wallet
  service (\<^verbatim>\<open>internal/wallet\<close>) to lock the collateral of the order, lets its repository match the
  order against the resting ones, and asks the wallet to release what the fills or a
  cancellation free. The market service (\<^verbatim>\<open>internal/market\<close>) says whether a market takes orders
  and counts its volume. The event service (\<^verbatim>\<open>internal/event\<close>) moves an event to its outcome and
  writes an outbox message in the same transaction. The settlement worker
  (\<^verbatim>\<open>internal/settlementworker\<close>) publishes the outbox to a stream, reads the messages back and
  calls the settlement service (\<^verbatim>\<open>internal/settlement\<close>), which pays the orders of every market of
  the event in one transaction each. The reconciliation job (\<^verbatim>\<open>internal/reconciliation\<close>) gives
  back locked funds that no order explains. Each service has an in-memory repository (used in
  tests and without a database) and a PostgreSQL one over the tables of \<^verbatim>\<open>migrations/\<close>; both are
  modelled.

  \<^bold>\<open>Conventions.\<close> A Go function is a definition of the same name; where two packages use one name
  it carries the component's (\<open>walletRepoCredit\<close>, \<open>orderPgPlace\<close>, \<open>eventPgResolve\<close>). A struct is a
  \<open>record\<close>, with the fields the code reads or writes, a pointer that may be nil an \<open>option\<close>, a map a
  partial function or, where its iteration order matters, an association list, and a store is
  passed and returned. A call returns \<open>go_error + 'a\<close>: every returned error and every panic is a
  branch; \<open>go_error\<close> (\<open>Prelude\<close>) keeps the wrapped sentinels so that \<open>errors.Is\<close> can be asked. A
  context that is cancelled, a lock, a log line and a metric are not part of the state. What the
  process takes from outside is an argument: the clock, the random source, the JSON codec, the
  stream, the iteration order of a Go map, and for a database transaction the statements that
  fail (\<open>faults\<close>). \<^verbatim>\<open>int64\<close> amounts are \<open>int\<close> with the wrap-around written out (\<open>i64\<close>), \<^verbatim>\<open>float64\<close> is
  modelled bit by bit (\<open>Float64\<close>), and identifiers are strings of bytes. A
  \<^verbatim>\<open>uuid\<close> column takes a parameter in the format of a UUID (\<open>uuidText\<close>) and keeps it in lower case; the
  model takes identifiers as they come back, in lower case.

  \<^bold>\<open>Foundations.\<close>
  \<^item> \<open>Prelude\<close>: errors, results, byte strings, maps, and sorting by a comparator. The locale
    \<open>total_comparator\<close> says which list \<^verbatim>\<open>sort.Slice\<close> returns whatever its algorithm; it is
    interpreted on each comparator of the code (markets, events, orders, makers, cursors,
    transactions, outbox messages).
  \<^item> \<open>Float64\<close>, \<open>Strconv\<close>, \<open>Fixed\<close>: IEEE doubles with round to nearest even, decimal text and
    \<^verbatim>\<open>big.Rat.SetString\<close> on decimal text, and the whole of \<^verbatim>\<open>pkg/fixed\<close>; the lemmas say when a
    float reads as units and back, and bound the rounded products.
  \<^item> \<open>DomainTypes\<close>: the structs of \<^verbatim>\<open>pkg/types\<close>, UUIDs and pagination. \<open>TimeText\<close>, \<open>TimeFormat\<close>:
    RFC 3339 read and written. \<open>Base64\<close>: the encoding of cursors and stream messages with its
    round trip.
  \<^item> \<open>Database\<close>: the tables as lists of rows (\<open>db\<close>), statements that may be refused, a transaction
    that is rolled back on any error. \<open>NumericParam\<close>: how a \<^verbatim>\<open>float64\<close> reaches a \<^verbatim>\<open>NUMERIC\<close> column, through
    the shortest decimal text that reads back as the same float.

  \<^bold>\<open>The services in memory.\<close>
  \<^item> \<open>WalletRepo\<close>, \<open>WalletService\<close>, \<open>WalletLedger\<close>: \<^verbatim>\<open>internal/wallet\<close>. The locale \<open>wallet_store\<close> states
    what locking and unlocking promise to a caller; it is interpreted on the in-memory
    repository here and on the tables in \<open>WalletPgProps\<close>, and \<open>wallet_store_pair\<close> relates the two.
    \<open>wallet_step\<close> is one call of the service; the books balance in every reachable store.
  \<^item> \<open>OrderRepo\<close>, \<open>OrderMatching\<close>, \<open>OrderBookInv\<close>, \<open>OrderProps\<close>: the matching engine. \<open>order_ok\<close> and
    \<open>book_ok\<close> are its invariants (amounts add up, statuses agree with amounts, no two orders of
    different users cross), kept by \<open>order_step\<close>; price-time priority and conservation of fills
    follow. \<open>OrderService\<close>, \<open>OrderMoney\<close> add the service and what it does to the wallets,
    \<open>OrderCursor\<close> the opaque cursors of \<^verbatim>\<open>ListCursor\<close>.
  \<^item> \<open>Market\<close>, \<open>Event\<close>: \<^verbatim>\<open>internal/market\<close> and \<^verbatim>\<open>internal/event\<close>, each a step relation over its
    calls whose reachable states keep the transition relation of the code.
  \<^item> \<open>Exchange\<close>, \<open>ExchangeProps\<close>: the three services over one state; every run refines a run of each
    store, so that their invariants hold together. \<open>order_create_effect\<close> and
    \<open>order_create_error\<close> say what a creation locks, gives back and, where a release fails, leaves
    behind; no outcome changes what an account holds in total.

  \<^bold>\<open>The services on PostgreSQL.\<close>
  \<^item> \<open>WalletPostgres\<close>, \<open>OrderPostgres\<close>, \<open>MarketPostgres\<close>, \<open>EventPostgres\<close>: the repositories, statement by
    statement. \<open>WalletPgProps\<close>, \<open>OrderPgInv\<close>, \<open>OrderPgProps\<close> and \<open>EventPostgres\<close> show that they
    implement the in-memory ones: the wallet operations with the same answers and errors, the orders
    and events with their times cut to the microseconds of the columns, and the errors of the events
    up to a translation (\<open>createError\<close>, \<open>upsertError\<close>, \<open>updateError\<close>): PostgreSQL reports a missing
    event as an invalid transition.
  \<^item> \<open>Settlement\<close>, \<open>SettlementInv\<close>, \<open>SettlementProps\<close>: \<^verbatim>\<open>internal/settlement\<close>. Money is conserved, a market
    is paid once, a call that succeeds leaves no unsettled market of its event, one that fails
    reaches every market before the error that stopped it.
  \<^item> \<open>SettlementWorker\<close>, \<open>WorkerProps\<close>, \<open>Pipeline\<close>: the outbox is published at least once and in order, a
    message is acknowledged only when its event is settled or its dead letter is published, and
    every resolution reaches the worker.
  \<^item> \<open>Ledger\<close>, \<open>Trading\<close>: invariants across tables (\<open>books\<close>, \<open>trading\<close>, \<open>platform_ok\<close>): wallets agree
    with their transaction rows, fills with the trades behind them.
  \<^item> \<open>Reconciliation\<close>, \<open>ReconciliationProps\<close>: the job, exact on what it lists, and a reachable state where
    the list is too long.
  \<^item> \<open>Platform\<close>, \<open>PlatformProps\<close>: \<open>platform_run\<close>, any interleaving of committed and failed transactions
    from empty tables, and what holds in every state it reaches. \<open>PgServices\<close>, \<open>PgServicesProps\<close>: the
    services over the tables as they run in production; every interleaving of their calls is
    such a run.

  \<^bold>\<open>The services around the exchange.\<close>
  \<^item> \<open>EventSync\<close>, \<open>EventSyncProps\<close>: \<^verbatim>\<open>internal/eventsync\<close>, the job that imports the events of Polymarket and
    reads their outcomes from the prices. Its source is a parameter, its event service the interface
    \<open>event_sink\<close>, interpreted on the service over the tables: a run is a run of \<open>platform_run\<close>, a
    resolution is that of the source, and a run without an error has resolved all it should.
  \<^item> \<open>Merchant\<close>, \<open>MerchantProps\<close>: \<^verbatim>\<open>internal/merchant\<close> with its in-memory repository and the middleware of
    \<^verbatim>\<open>internal/auth\<close>. Every stored merchant is well typed, and a request is admitted exactly when it
    carries the key of an active merchant. bcrypt, the digest and the zone database are parameters.

  \<^bold>\<open>Bounds and fuel.\<close> \<open>shareCap\<close>, 2 to the 14th times a million units (16,384 shares), bounds the
  shares of an order in \<open>order_ok\<close>: below it every amount the repositories store as a \<^verbatim>\<open>float64\<close>
  reads back as the same units, above it the code itself can fail (a finding). It is a hypothesis of the
  properties of the matching engine, never of the definitions. \<open>moneyCap\<close>, 2 to the 27th
  times a hundred cents, is the like bound for the balances of a wallet. The decimal text of a float is searched up to 345 places, which is
  enough for every double (the smallest is above 10 to the -324). \<open>cursorWalk\<close> has one more step of fuel than
  there are orders, and \<open>cursor_walk_complete\<close> shows that it ends. The loop of the worker is
  bounded by the configured number of attempts, as in the code.

  \<^bold>\<open>What is simplified.\<close> A transaction is one step: the row locks the code takes (\<^verbatim>\<open>FOR UPDATE\<close>) are
  modelled as taken, so that transactions appear one after the other; a race the locks do not
  cover is not modelled. The overflow of a \<^verbatim>\<open>DECIMAL\<close> column and a driver error after the
  statement ran are refused statements (\<open>faults\<close>). The trading fees of the code are constant
  zero and appear as such. JSON and the stream are parameters with their round trip or delivery
  as named hypotheses, each discharged at a concrete codec by the witness. The round trips are stated
  for text that JSON keeps (\<open>json_text\<close>: valid UTF-8 without the null character) and, in envelopes, for
  times of four-digit years; the JSON column of the outbox renders its value, and that rendering
  is part of the parameter \<open>marshal\<close>.

  \<^bold>\<open>Not modelled.\<close>
  \<^item> \<^verbatim>\<open>internal/currency\<close>, \<^verbatim>\<open>internal/sports\<close>, \<^verbatim>\<open>internal/analytics\<close>, \<^verbatim>\<open>internal/settlementmonitor\<close>: they take no
    part in an order, a balance or a payout.
  \<^item> The PostgreSQL repository of \<^verbatim>\<open>internal/merchant\<close>: the in-memory one is modelled, and merchants
    appear in \<open>Database\<close> as the rows the wallets refer to.
  \<^item> \<^verbatim>\<open>pkg/polymarket\<close>: the HTTP client of an external service, a parameter of \<open>EventSync\<close>.
  \<^item> \<^verbatim>\<open>internal/httpapi\<close>, \<^verbatim>\<open>internal/health\<close>, \<^verbatim>\<open>internal/observability\<close>, \<^verbatim>\<open>internal/infra\<close>, \<^verbatim>\<open>cmd/\<close>:
    routing, JSON, metrics, drivers of NATS, Redis and cron, and process start-up.
  \<^item> \<^verbatim>\<open>internal/event/cache.go\<close>, the read-through cache of events, and every \<^verbatim>\<open>twill_gen.go\<close>, which is
    generated from the interfaces.
\<close>

end
